(* ===== verification/Wan_Prelude.thy ===== *)
theory Wan_Prelude
  imports Main "HOL-Library.Word" "HOL-Library.AList"
begin

text \<open>
  The prelude of the wantasticd development: the Go value types the components share (bytes,
  fixed-width integers, byte slices, durations and instants), the big- and little-endian codecs of
  \<^verbatim>\<open>encoding/binary\<close> with their round-trip laws, slicing and copying, the string helpers of
  \<^verbatim>\<open>strings\<close> and \<^verbatim>\<open>strconv\<close> the source calls, and the generic lemmas that carry the component
  proofs. Go's unsigned integers are words; Go's \<^verbatim>\<open>int\<close>, \<^verbatim>\<open>time.Duration\<close> (nanoseconds) and
  instants are \<open>int\<close>, with the wrap-around or saturation written out where the code can reach it.
\<close>

unbundle bit_operations_syntax

named_theorems codec_simps \<open>equations that evaluate byte codecs\<close>
named_theorems inv_intros \<open>preservation lemmas of component invariants\<close>

type_synonym byte = "8 word"
type_synonym bytes = "byte list"
type_synonym u16 = "16 word"
type_synonym u32 = "32 word"
type_synonym u64 = "64 word"

section \<open>Slices\<close>

definition slice :: "nat \<Rightarrow> nat \<Rightarrow> 'a list \<Rightarrow> 'a list" where
  "slice i j xs = take (j - i) (drop i xs)"

text \<open>Go's built-in \<^verbatim>\<open>copy(dst, src)\<close> for a destination that keeps its length.\<close>

definition copy_into :: "'a list \<Rightarrow> 'a list \<Rightarrow> 'a list" where
  "copy_into dst src = take (length dst) src @ drop (length src) dst"

lemma length_slice [simp]: "length (slice i j xs) = min (j - i) (length xs - i)"
  by (simp add: slice_def)

lemma length_copy_into [simp]: "length (copy_into dst src) = length dst"
  by (simp add: copy_into_def)

lemma copy_into_same_length: "length src = length dst \<Longrightarrow> copy_into dst src = src"
  by (simp add: copy_into_def)

lemma copy_into_Nil [simp]: "copy_into dst [] = dst"
  by (simp add: copy_into_def)

lemma slice_append_left [simp]:
  "length xs \<le> i \<Longrightarrow> slice i j (xs @ ys) = slice (i - length xs) (j - length xs) ys"
  by (simp add: slice_def)

lemma slice_append_here [simp]: "slice 0 (length xs) (xs @ ys) = xs"
  by (simp add: slice_def)

lemma slice_0_append: "length xs = n \<Longrightarrow> slice 0 n (xs @ ys) = xs"
  by (simp add: slice_def)

lemma drop_slice_split: "i \<le> j \<Longrightarrow> drop i xs = slice i j xs @ drop j xs"
  by (simp add: slice_def) (metis append_take_drop_id drop_drop le_add_diff_inverse2)

lemma nth_slice: "i + k < j \<Longrightarrow> i + k < length xs \<Longrightarrow> slice i j xs ! k = xs ! (i + k)"
  by (simp add: slice_def)

section \<open>Fixed-width integers on the wire\<close>

fun get_be :: "bytes \<Rightarrow> 'a::len word" where
  "get_be [] = 0"
| "get_be (b # bs) = push_bit (8 * length bs) (ucast b) OR get_be bs"

fun put_be :: "nat \<Rightarrow> 'a::len word \<Rightarrow> bytes" where
  "put_be 0 w = []"
| "put_be (Suc n) w = ucast (drop_bit (8 * n) w) # put_be n w"

definition get_le :: "bytes \<Rightarrow> 'a::len word" where
  "get_le bs = get_be (rev bs)"

definition put_le :: "nat \<Rightarrow> 'a::len word \<Rightarrow> bytes" where
  "put_le n w = rev (put_be n w)"

lemma length_put_be [simp]: "length (put_be n w) = n"
  by (induction n) auto

lemma length_put_le [simp]: "length (put_le n w) = n"
  by (simp add: put_le_def)

lemma get_be_put_be_take: "get_be (put_be n (w :: 'a::len word)) = take_bit (8 * n) w"
proof (induction n)
  case 0
  then show ?case by simp
next
  case (Suc n)
  have "push_bit (8 * n) (ucast (ucast (drop_bit (8 * n) w) :: byte)) OR take_bit (8 * n) w
      = take_bit (8 * Suc n) w"
    by (rule bit_word_eqI)
      (auto simp: bit_or_iff bit_push_bit_iff bit_take_bit_iff bit_drop_bit_eq bit_ucast_iff)
  then show ?case using Suc.IH by simp
qed

lemma get_be_put_be:
  assumes "LENGTH('a::len) \<le> 8 * n"
  shows "get_be (put_be n (w :: 'a word)) = w"
proof -
  have "take_bit (8 * n) w = w"
    using assms by (intro bit_word_eqI) (simp add: bit_take_bit_iff)
  then show ?thesis by (simp add: get_be_put_be_take)
qed

lemma bit_get_be_high: "8 * length bs \<le> i \<Longrightarrow> \<not> bit (get_be bs :: 'a::len word) i"
proof (induction bs)
  case (Cons b bs)
  then show ?case
    by (auto simp: bit_or_iff bit_push_bit_iff bit_ucast_iff dest: bit_imp_le_length)
qed simp

lemma put_be_push_bit_OR:
  "n \<le> m \<Longrightarrow> put_be n (push_bit (8 * m) x OR y) = put_be n (y :: 'a::len word)"
proof (induction n)
  case (Suc n)
  have "ucast (drop_bit (8 * n) (push_bit (8 * m) x OR y)) = (ucast (drop_bit (8 * n) y) :: byte)"
    using Suc.prems
    by (intro bit_word_eqI) (auto simp: bit_ucast_iff bit_drop_bit_eq bit_or_iff bit_push_bit_iff)
  then show ?case using Suc by simp
qed simp

lemma put_be_get_be:
  "8 * length bs \<le> LENGTH('a::len) \<Longrightarrow> put_be (length bs) (get_be bs :: 'a word) = bs"
proof (induction bs)
  case (Cons b bs)
  have "ucast (drop_bit (8 * length bs) (get_be (b # bs) :: 'a word)) = b"
    using Cons.prems
    by (intro bit_word_eqI)
      (auto simp: bit_ucast_iff bit_drop_bit_eq bit_or_iff bit_push_bit_iff bit_get_be_high)
  then show ?case
    using Cons by (simp add: put_be_push_bit_OR)
qed simp

lemma get_le_put_le: "LENGTH('a::len) \<le> 8 * n \<Longrightarrow> get_le (put_le n (w :: 'a word)) = w"
  by (simp add: get_le_def put_le_def get_be_put_be)

lemma put_le_get_le:
  "8 * length bs \<le> LENGTH('a::len) \<Longrightarrow> put_le (length bs) (get_le bs :: 'a word) = bs"
  using put_be_get_be [where 'a = 'a and bs = "rev bs"] by (simp add: get_le_def put_le_def)

lemmas get_put_u16 = get_be_put_be [where n = 2 and 'a = 16, simplified]
lemmas get_put_u32 = get_be_put_be [where n = 4 and 'a = 32, simplified]
lemmas get_put_le_u32 = get_le_put_le [where n = 4 and 'a = 32, simplified]
lemmas get_put_le_u64 = get_le_put_le [where n = 8 and 'a = 64, simplified]

lemmas codec_rt = get_put_u16 get_put_u32 get_put_le_u32 get_put_le_u64
declare codec_rt [codec_simps]

lemma put_get_u16: "length bs = 2 \<Longrightarrow> put_be 2 (get_be bs :: u16) = bs"
  using put_be_get_be [where 'a = 16 and bs = bs] by simp

lemma put_get_u32: "length bs = 4 \<Longrightarrow> put_be 4 (get_be bs :: u32) = bs"
  using put_be_get_be [where 'a = 32 and bs = bs] by simp

lemma unat_of_nat_small: "n < 2 ^ LENGTH('a::len) \<Longrightarrow> unat (of_nat n :: 'a word) = n"
  by (simp add: unat_of_nat take_bit_nat_eq_self)

lemma mod_eq_near:
  assumes "a mod m = b mod m" "a \<le> b" "b < a + (m :: nat)" shows "a = b"
proof -
  have "m dvd b - a" using assms(1,2) by (metis mod_eq_dvd_iff_nat)
  moreover have "b - a < m" using assms(2,3) by simp
  ultimately show ?thesis using assms(2) by (auto dest: dvd_imp_le)
qed

lemma mod_cover:
  assumes "0 < (m :: nat)" shows "\<exists>k < m. (a + k) mod m = j mod m"
proof -
  have "a + (j + (m - a mod m)) = j + m * Suc (a div m)"
    using mod_less_divisor [OF assms, of a] mult_div_mod_eq [of m a]
    by (simp only: mult_Suc_right)
  then have "(a + (j + (m - a mod m)) mod m) mod m = j mod m"
    by (metis mod_add_right_eq mod_mult_self2)
  then show ?thesis using assms mod_less_divisor by blast
qed

section \<open>Instants and durations\<close>

text \<open>
  An instant is its number of nanoseconds since the Unix epoch, a duration its number of
  nanoseconds. Go's zero \<^verbatim>\<open>time.Time\<close> is 1 January of year 1. \<^verbatim>\<open>Time.Sub\<close> saturates at the
  limits of \<^verbatim>\<open>int64\<close>.
\<close>

type_synonym time = int
type_synonym duration = int

definition time_zero :: time where
  "time_zero = - 62135596800000000000"

definition IsZero :: "time \<Rightarrow> bool" where
  "IsZero t = (t = time_zero)"

definition max_duration :: duration where
  "max_duration = 2 ^ 63 - 1"

definition time_Sub :: "time \<Rightarrow> time \<Rightarrow> duration" where
  "time_Sub t u = max (- (2 ^ 63)) (min max_duration (t - u))"

definition UnixNano :: "time \<Rightarrow> int" where
  "UnixNano t = signed_take_bit 63 t"

abbreviation (input) millisecond :: int where "millisecond \<equiv> 1000000"
abbreviation (input) second :: int where "second \<equiv> 1000000000"
abbreviation (input) minute :: int where "minute \<equiv> 60000000000"

lemma time_Sub_exact:
  "\<lbrakk>- (2 ^ 63) \<le> t - u; t - u \<le> max_duration\<rbrakk> \<Longrightarrow> time_Sub t u = t - u"
  by (simp add: time_Sub_def)

lemma time_Sub_mono: "t \<le> t' \<Longrightarrow> time_Sub t u \<le> time_Sub t' u"
  by (simp add: time_Sub_def max_duration_def)

lemma time_Sub_gt_iff:
  "\<lbrakk>0 \<le> d; d < max_duration\<rbrakk> \<Longrightarrow> d < time_Sub t u \<longleftrightarrow> d < t - u"
  by (auto simp: time_Sub_def max_duration_def)

lemma time_Sub_less_iff:
  "\<lbrakk>0 < d; d \<le> max_duration\<rbrakk> \<Longrightarrow> time_Sub t u < d \<longleftrightarrow> t - u < d"
  by (auto simp: time_Sub_def max_duration_def)

section \<open>First occurrences\<close>

text \<open>\<open>nub\<close> keeps the first occurrence of every element, as the source's \<^verbatim>\<open>seen\<close> maps do.\<close>

definition nub :: "'a list \<Rightarrow> 'a list" where
  "nub xs = rev (remdups (rev xs))"

lemma remdups_snoc: "remdups (xs @ [x]) = filter (\<lambda>y. y \<noteq> x) (remdups xs) @ [x]"
  by (induction xs) auto

lemma nub_Nil [simp]: "nub [] = []"
  by (simp add: nub_def)

lemma nub_Cons [simp]: "nub (x # xs) = x # filter (\<lambda>y. y \<noteq> x) (nub xs)"
  by (simp add: nub_def remdups_snoc rev_filter)

lemma distinct_nub [simp]: "distinct (nub xs)"
  by (simp add: nub_def)

lemma set_nub [simp]: "set (nub xs) = set xs"
  by (simp add: nub_def)

lemma find_SomeD: "find P xs = Some x \<Longrightarrow> x \<in> set xs \<and> P x"
  by (auto simp: find_Some_iff)

section \<open>Maps\<close>

lemma finite_dom_upd [intro]: "finite (dom m) \<Longrightarrow> finite (dom (m(k := v)))"
  by (cases v) (auto simp: dom_if)

lemma ran_upd_subset: "ran (m(k \<mapsto> v)) \<subseteq> insert v (ran m)"
  by (auto simp: ran_def)

section \<open>Association lists\<close>

text \<open>
  A Go map that the source ranges over is an association list with distinct keys; \<open>AList.update\<close> and
  \<open>AList.delete\<close> are its assignment and \<^verbatim>\<open>delete\<close>. \<open>assoc_sum\<close> adds up a quantity over the entries.
\<close>

definition assoc_sum :: "('k \<times> 'v \<Rightarrow> int) \<Rightarrow> ('k \<times> 'v) list \<Rightarrow> int" where
  "assoc_sum f xs = sum_list (map f xs)"

lemma assoc_sum_simps [simp]:
  "assoc_sum f [] = 0" "assoc_sum f (x # xs) = f x + assoc_sum f xs"
  by (simp_all add: assoc_sum_def)

lemma assoc_sum_delete:
  "distinct (map fst xs) \<Longrightarrow>
     assoc_sum f (AList.delete k xs) =
       assoc_sum f xs - (case map_of xs k of None \<Rightarrow> 0 | Some v \<Rightarrow> f (k, v))"
proof (induction xs)
  case (Cons x xs)
  have "map_of xs (fst x) = None" using Cons.prems by (auto simp: map_of_eq_None_iff)
  then show ?case using Cons by (cases x) (auto simp: AList.delete_id)
qed simp

lemma assoc_sum_update:
  "distinct (map fst xs) \<Longrightarrow>
     assoc_sum f (AList.update k v xs) =
       assoc_sum f xs + f (k, v) - (case map_of xs k of None \<Rightarrow> 0 | Some u \<Rightarrow> f (k, u))"
proof (induction xs)
  case (Cons x xs)
  have "map_of xs (fst x) = None" using Cons.prems by (auto simp: map_of_eq_None_iff)
  then show ?case using Cons by (cases x) auto
qed simp

lemma assoc_sum_nonneg: "(\<And>x. x \<in> set xs \<Longrightarrow> 0 \<le> f x) \<Longrightarrow> 0 \<le> assoc_sum f xs"
  by (induction xs) force+

lemma assoc_sum_ge: "\<lbrakk>\<And>x. x \<in> set xs \<Longrightarrow> 0 \<le> f x; x \<in> set xs\<rbrakk> \<Longrightarrow> f x \<le> assoc_sum f xs"
proof (induction xs)
  case (Cons y ys)
  then have "0 \<le> f y" "0 \<le> assoc_sum f ys" by (auto intro: assoc_sum_nonneg)
  then show ?case using Cons.IH [OF Cons.prems(1)] Cons.prems(2) by fastforce
qed simp

lemma in_set_updateD: "x \<in> set (AList.update k v xs) \<Longrightarrow> x = (k, v) \<or> x \<in> set xs"
  by (induction xs) (auto split: if_splits)

lemma in_set_deleteD: "x \<in> set (AList.delete k xs) \<Longrightarrow> x \<in> set xs \<and> fst x \<noteq> k"
  by (auto simp: AList.delete_eq)

lemma map_of_entry: "\<lbrakk>distinct (map fst xs); map_of xs k = Some v; e \<in> set xs; fst e = k\<rbrakk> \<Longrightarrow> e = (k, v)"
  by (metis map_of_eq_Some_iff option.inject prod.collapse)

lemma map_of_filter:
  "distinct (map fst xs) \<Longrightarrow>
     map_of (filter P xs) key =
       (case map_of xs key of Some w \<Rightarrow> if P (key, w) then Some w else None | None \<Rightarrow> None)"
proof (induction xs)
  case (Cons x xs)
  have "map_of xs (fst x) = None" using Cons.prems by (auto simp: map_of_eq_None_iff)
  then show ?case using Cons by (cases x) auto
qed simp

lemma assoc_sum_filter_le: "(\<And>x. x \<in> set xs \<Longrightarrow> 0 \<le> f x) \<Longrightarrow> assoc_sum f (filter P xs) \<le> assoc_sum f xs"
proof (induction xs)
  case (Cons x xs)
  then have "0 \<le> f x" "assoc_sum f (filter P xs) \<le> assoc_sum f xs" by simp_all
  then show ?case by simp
qed simp

section \<open>Systems driven by events\<close>

text \<open>
  A component that is driven by a sequence of events: its step function keeps an invariant that the
  start state has, hence every run ends in a state with the invariant.
\<close>

locale event_system =
  fixes step :: "'s \<Rightarrow> 'e \<Rightarrow> 's" and start :: 's and inv :: "'s \<Rightarrow> bool"
  assumes start_inv: "inv start"
    and step_inv: "inv s \<Longrightarrow> inv (step s e)"
begin

definition run :: "'e list \<Rightarrow> 's" where
  "run es = foldl step start es"

lemma foldl_inv: "inv s \<Longrightarrow> inv (foldl step s es)"
  by (induction es arbitrary: s) (auto intro: step_inv)

lemma run_inv: "inv (run es)"
  unfolding run_def by (rule foldl_inv [OF start_inv])

lemma run_append: "run (es @ fs) = foldl step (run es) fs"
  by (simp add: run_def)

end

text \<open>
  A component with answers that refines an abstract one: related states give equal answers and related
  states again, hence both give the same answers on every sequence of events.
\<close>

fun answers :: "('s \<Rightarrow> 'e \<Rightarrow> 'r \<times> 's) \<Rightarrow> 's \<Rightarrow> 'e list \<Rightarrow> 'r list" where
  "answers step s [] = []"
| "answers step s (e # es) = fst (step s e) # answers step (snd (step s e)) es"

locale guarded_simulation =
  fixes cstep :: "'c \<Rightarrow> 'e \<Rightarrow> 'r \<times> 'c" and astep :: "'a \<Rightarrow> 'e \<Rightarrow> 'r \<times> 'a" and rel :: "'c \<Rightarrow> 'a \<Rightarrow> bool"
    and ok :: "'e \<Rightarrow> bool"
  assumes sim_answer: "rel c a \<Longrightarrow> ok e \<Longrightarrow> fst (cstep c e) = fst (astep a e)"
    and sim_state: "rel c a \<Longrightarrow> ok e \<Longrightarrow> rel (snd (cstep c e)) (snd (astep a e))"
begin

lemma guarded_answers: "rel c a \<Longrightarrow> list_all ok es \<Longrightarrow> answers cstep c es = answers astep a es"
  by (induction es arbitrary: c a) (auto simp: sim_answer intro: sim_state)

end

text \<open>The same when every event is allowed.\<close>

locale simulation = guarded_simulation cstep astep rel "\<lambda>_. True"
  for cstep :: "'c \<Rightarrow> 'e \<Rightarrow> 'r \<times> 'c" and astep :: "'a \<Rightarrow> 'e \<Rightarrow> 'r \<times> 'a" and rel
begin

lemma same_answers: "rel c a \<Longrightarrow> answers cstep c es = answers astep a es"
  by (rule guarded_answers) (simp_all add: list_all_iff)

end

section \<open>Codecs\<close>

text \<open>
  The contract of a wire format: on the values that satisfy \<open>wf\<close> decoding undoes encoding. The
  encoding is then injective: two different values never travel as the same bytes.
\<close>

locale wire_codec =
  fixes wf :: "'a \<Rightarrow> bool" and enc :: "'a \<Rightarrow> bytes" and dec :: "bytes \<Rightarrow> 'a option"
  assumes dec_enc: "wf x \<Longrightarrow> dec (enc x) = Some x"
begin

lemma enc_eq_iff: "\<lbrakk>wf x; wf y\<rbrakk> \<Longrightarrow> enc x = enc y \<longleftrightarrow> x = y"
  by (metis dec_enc option.inject)

lemma inj_on_enc: "inj_on enc {x. wf x}"
  by (auto intro: inj_onI simp: enc_eq_iff)

end

end
