(* ===== verification/LZ4.thy ===== *)
theory LZ4
  imports Wan_Prelude
begin

text \<open>
  The LZ4 block coder of \<^verbatim>\<open>internal/wusp/interface.go\<close>, which compresses WUSP frame payloads. The
  output buffer \<^verbatim>\<open>dst[:op]\<close> is the list written so far and the read cursor is the remaining input.
  The encoder's hash table is a function from hash values; every entry holds a position plus one as
  an \<^verbatim>\<open>int32\<close>, zero for empty.
  The theorems: decompression inverts compression whatever the table holds, the encoder's buffer
  is never too small, and the decoder never returns a block of another size than the declared one.
\<close>

datatype wusp_error =
    ErrTruncated | ErrBadMagic | ErrBadVersion | ErrUnknownTag
  | ErrLZ4RawSize | ErrLZ4ZeroOffset | ErrLZ4SizeMismatch
  | ErrUnexpectedEOF | ErrUvarintOverflow | ErrNesting

definition maxDecodedPayload :: nat where "maxDecodedPayload = 16777216"
definition lz4MinMatch :: nat where "lz4MinMatch = 4"
definition lz4LastLits :: nat where "lz4LastLits = 5"
definition lz4MFLimit :: nat where "lz4MFLimit = lz4MinMatch + lz4LastLits"

section \<open>Encoder\<close>

definition lz4hash4 :: "bytes \<Rightarrow> u32" where
  "lz4hash4 b =
     (let v = ucast (b ! 0) OR push_bit 8 (ucast (b ! 1)) OR push_bit 16 (ucast (b ! 2))
              OR push_bit 24 (ucast (b ! 3)) :: u32
      in drop_bit (32 - 12) (v * 2654435761))"

text \<open>The overflow bytes of \<^verbatim>\<open>lz4WriteLen\<close>, and the nibble it stores.\<close>

fun lz4_rem_bytes :: "nat \<Rightarrow> bytes" where
  "lz4_rem_bytes r = (if 255 \<le> r then 255 # lz4_rem_bytes (r - 255) else [of_nat r])"

declare lz4_rem_bytes.simps [simp del]

definition lz4WriteLen_ext :: "nat \<Rightarrow> bytes" where
  "lz4WriteLen_ext len = (if 15 \<le> len then lz4_rem_bytes (len - 15) else [])"

definition lz4WriteLen_tok :: "byte \<Rightarrow> bool \<Rightarrow> nat \<Rightarrow> byte" where
  "lz4WriteLen_tok tok isHigh len =
     (let nibble = (if 15 \<le> len then 15 else of_nat len) in
      if isHigh then (tok AND 0x0F) OR push_bit 4 nibble else (tok AND 0xF0) OR nibble)"

function lz4_match_len :: "bytes \<Rightarrow> nat \<Rightarrow> nat \<Rightarrow> nat \<Rightarrow> nat \<Rightarrow> nat" where
  "lz4_match_len src ip ref maxML ml =
     (if ml < maxML \<and> src ! (ip + ml) = src ! (ref + ml)
      then lz4_match_len src ip ref maxML (Suc ml) else ml)"
  by pat_completeness auto
termination
  by (relation "measure (\<lambda>(src, ip, ref, maxML, ml). maxML - ml)") auto

declare lz4_match_len.simps [simp del]

text \<open>One sequence: the literals, the back-reference \<open>offset\<close> and the match length \<open>ml\<close>.\<close>

definition lz4_sequence :: "bytes \<Rightarrow> nat \<Rightarrow> nat \<Rightarrow> bytes" where
  "lz4_sequence lits offset ml =
     (let tok = lz4WriteLen_tok (lz4WriteLen_tok 0 True (length lits)) False (ml - lz4MinMatch) in
      tok # lz4WriteLen_ext (length lits) @ lits @ put_le 2 (of_nat offset :: u16) @
      lz4WriteLen_ext (ml - lz4MinMatch))"

definition lz4_last_literals :: "bytes \<Rightarrow> bytes" where
  "lz4_last_literals lits =
     lz4WriteLen_tok 0 True (length lits) # lz4WriteLen_ext (length lits) @ lits"

definition lz4_is_match :: "bytes \<Rightarrow> nat \<Rightarrow> int \<Rightarrow> bool" where
  "lz4_is_match src ip ref =
     (0 \<le> ref \<and> ref < int ip \<and> int ip - ref \<le> 65535 \<and>
      (let r = nat ref in
       src ! r = src ! ip \<and> src ! (r + 1) = src ! (ip + 1) \<and>
       src ! (r + 2) = src ! (ip + 2) \<and> src ! (r + 3) = src ! (ip + 3)))"

definition lz4_max_ml :: "bytes \<Rightarrow> nat \<Rightarrow> nat" where
  "lz4_max_ml src ip =
     (let m = length src - ip in if m > 65535 + lz4MinMatch then 65535 + lz4MinMatch else m)"

lemma lz4_match_len_ge: "ml \<le> lz4_match_len src ip ref maxML ml"
  by (induction src ip ref maxML ml rule: lz4_match_len.induct)
    (subst lz4_match_len.simps, auto)

text \<open>The main loop of \<^verbatim>\<open>compress\<close>: the hash table, \<open>ip\<close>, \<open>anchor\<close> and the output so far.\<close>

function lz4_compress_loop ::
    "bytes \<Rightarrow> (u32 \<Rightarrow> int) \<Rightarrow> nat \<Rightarrow> nat \<Rightarrow> bytes \<Rightarrow> nat \<times> bytes" where
  "lz4_compress_loop src table ip anchor dst =
     (if ip + lz4MFLimit \<le> length src then
        let h = lz4hash4 (drop ip src);
            ref = table h - 1;
            table = table (h := signed_take_bit 31 (int (ip + 1)))
        in if lz4_is_match src ip ref then
             let r = nat ref;
                 ml = lz4_match_len src ip r (lz4_max_ml src ip) lz4MinMatch;
                 dst = dst @ lz4_sequence (slice anchor ip src) (ip - r) ml;
                 ip' = ip + ml;
                 table = (if ip' + lz4MFLimit \<le> length src
                          then table (lz4hash4 (drop ip' src) := signed_take_bit 31 (int (ip' + 1)))
                          else table)
             in lz4_compress_loop src table ip' ip' dst
           else lz4_compress_loop src table (ip + 1) anchor dst
      else (anchor, dst))"
  by pat_completeness auto
termination
proof (relation "measure (\<lambda>(src, table, ip, anchor, dst). Suc (length src) - ip)", goal_cases)
  case (2 src table ip anchor dst h ref table' r ml dst' ip' table'')
  then have "0 < ml" and "ip \<le> length src"
    using lz4_match_len_ge [of lz4MinMatch src ip r "lz4_max_ml src ip"] by (auto simp: lz4MinMatch_def)
  with 2 show ?case by auto
qed auto

declare lz4_compress_loop.simps [simp del]

text \<open>\<^verbatim>\<open>compress\<close>: nil (\<open>None\<close>) when the output would not be smaller than the input.\<close>

definition lz4_compress :: "bytes \<Rightarrow> bytes option" where
  "lz4_compress src =
     (if length src < lz4MFLimit + 1 then None
      else let (anchor, dst) = lz4_compress_loop src (\<lambda>_. 0) 0 0 [];
               out = dst @ lz4_last_literals (drop anchor src)
           in if length src \<le> length out then None else Some out)"

section \<open>Decoder\<close>

fun lz4_read_ext :: "nat \<Rightarrow> bytes \<Rightarrow> (nat \<times> bytes) option" where
  "lz4_read_ext n [] = None"
| "lz4_read_ext n (extra # src) =
     (if extra < 255 then Some (n + unat extra, src) else lz4_read_ext (n + unat extra) src)"

fun lz4_copy_match :: "nat \<Rightarrow> nat \<Rightarrow> bytes \<Rightarrow> bytes" where
  "lz4_copy_match offset 0 out = out"
| "lz4_copy_match offset (Suc n) out = lz4_copy_match offset n (out @ [out ! (length out - offset)])"

definition lz4_finish :: "nat \<Rightarrow> bytes \<Rightarrow> wusp_error + bytes" where
  "lz4_finish rawSize out = (if length out \<noteq> rawSize then Inl ErrLZ4SizeMismatch else Inr out)"

lemma lz4_read_ext_length: "lz4_read_ext n src = Some (m, src') \<Longrightarrow> length src' < length src"
  by (induction n src rule: lz4_read_ext.induct) (auto split: if_splits)

function lz4_decompress_loop :: "nat \<Rightarrow> bytes \<Rightarrow> bytes \<Rightarrow> wusp_error + bytes" where
  "lz4_decompress_loop rawSize [] out = lz4_finish rawSize out"
| "lz4_decompress_loop rawSize (tok # src) out =
     (let lit = unat (drop_bit 4 tok) in
      case (if lit = 15 then lz4_read_ext lit src else Some (lit, src)) of
        None \<Rightarrow> Inl ErrTruncated
      | Some (litLen, src1) \<Rightarrow>
        if length src1 < litLen \<or> rawSize < length out + litLen then Inl ErrTruncated
        else let out1 = out @ take litLen src1; src2 = drop litLen src1 in
          if src2 = [] then lz4_finish rawSize out1
          else if length src2 < 2 then Inl ErrTruncated
          else let offset = unat (get_le (take 2 src2) :: u16); src3 = drop 2 src2 in
            if offset = 0 then Inl ErrLZ4ZeroOffset
            else let m = unat (tok AND 0x0F) in
              case (if m = 15 then lz4_read_ext (m + lz4MinMatch) src3
                    else Some (m + lz4MinMatch, src3)) of
                None \<Rightarrow> Inl ErrTruncated
              | Some (ml, src4) \<Rightarrow>
                if length out1 < offset \<or> rawSize < length out1 + ml then Inl ErrTruncated
                else lz4_decompress_loop rawSize src4 (lz4_copy_match offset ml out1))"
  by pat_completeness auto
termination
proof (relation "measure (\<lambda>(rawSize, src, out). length src)", goal_cases)
  case (2 rawSize tok src out lit ext litLen src1 out1 src2 offset src3 m ext' ml src4)
  then show ?case
    by (auto split: if_splits dest!: lz4_read_ext_length)
qed auto

declare lz4_decompress_loop.simps [simp del]

definition lz4_decompress :: "bytes \<Rightarrow> nat \<Rightarrow> wusp_error + bytes" where
  "lz4_decompress src rawSize =
     (if maxDecodedPayload < rawSize \<or> length src * 255 + 64 < rawSize then Inl ErrLZ4RawSize
      else lz4_decompress_loop rawSize src [])"

section \<open>Length fields\<close>

lemma lz4_read_rem_bytes: "lz4_read_ext n (lz4_rem_bytes r @ rest) = Some (n + r, rest)"
proof (induction r arbitrary: n rule: lz4_rem_bytes.induct)
  case (1 r)
  show ?case
  proof (cases "255 \<le> r")
    case True
    then show ?thesis using 1 by (simp add: lz4_rem_bytes.simps [of r])
  next
    case False
    then have "unat (of_nat r :: byte) = r"
      by (simp add: unat_of_nat)
    with False show ?thesis
      by (simp add: lz4_rem_bytes.simps [of r] word_less_nat_alt)
  qed
qed

lemma length_lz4_rem_bytes: "length (lz4_rem_bytes r) = r div 255 + 1"
proof (induction r rule: lz4_rem_bytes.induct)
  case (1 r)
  then show ?case
    by (cases "255 \<le> r") (auto simp: lz4_rem_bytes.simps [of r] le_div_geq)
qed

text \<open>A token byte holds the two length nibbles.\<close>

lemma byte_0F: "(0x0F :: byte) = mask 4"
  by (simp add: mask_eq_exp_minus_1)

lemma byte_F0: "(0xF0 :: byte) = push_bit 4 (mask 4)"
  by (simp add: mask_eq_exp_minus_1)

lemma nibble_bit:
  assumes "k < 16" "bit (of_nat k :: byte) i"
  shows "i < 4"
proof -
  have "take_bit 4 (of_nat k :: byte) = of_nat (take_bit 4 k)"
    by (rule take_bit_of_nat)
  also have "take_bit 4 k = k"
    using assms(1) by (simp add: take_bit_nat_eq_self_iff)
  finally have "take_bit 4 (of_nat k :: byte) = of_nat k" .
  with assms(2) show ?thesis by (metis bit_take_bit_iff)
qed

lemma token_nibbles:
  fixes a b :: nat
  assumes "a < 16" "b < 16"
  defines "tok \<equiv> (push_bit 4 (of_nat a) AND 0xF0) OR (of_nat b :: byte)"
  shows "unat (drop_bit 4 tok) = a" and "unat (tok AND 0x0F) = b"
proof -
  have "drop_bit 4 tok = of_nat a"
    using assms(1,2) unfolding tok_def byte_F0
    by (intro bit_word_eqI)
      (auto simp: bit_drop_bit_eq bit_or_iff bit_and_iff bit_push_bit_iff bit_mask_iff dest: nibble_bit
        bit_imp_le_length)
  moreover have "tok AND 0x0F = of_nat b"
    using assms(1,2) unfolding tok_def byte_F0 byte_0F
    by (intro bit_word_eqI)
      (auto simp: bit_or_iff bit_and_iff bit_push_bit_iff bit_mask_iff dest: nibble_bit)
  ultimately show "unat (drop_bit 4 tok) = a" and "unat (tok AND 0x0F) = b"
    using assms(1,2) by (simp_all add: unat_of_nat)
qed

lemma lz4WriteLen_tok_eq:
  "lz4WriteLen_tok 0 True l = push_bit 4 (of_nat (min 15 l)) AND 0xF0"
  "lz4WriteLen_tok (lz4WriteLen_tok 0 True l) False m =
     (push_bit 4 (of_nat (min 15 l)) AND 0xF0) OR of_nat (min 15 m)"
proof -
  have "push_bit 4 w AND 0xF0 = push_bit 4 w" for w :: byte
    unfolding byte_F0
    by (intro bit_word_eqI) (auto simp: bit_and_iff bit_push_bit_iff bit_mask_iff)
  then show "lz4WriteLen_tok 0 True l = push_bit 4 (of_nat (min 15 l)) AND 0xF0"
    by (simp add: lz4WriteLen_tok_def min_def)
  then show "lz4WriteLen_tok (lz4WriteLen_tok 0 True l) False m =
      (push_bit 4 (of_nat (min 15 l)) AND 0xF0) OR of_nat (min 15 m)"
    by (simp add: lz4WriteLen_tok_def [of _ False] min_def and.assoc)
qed

lemma token_parts:
  shows "unat (drop_bit 4 (lz4WriteLen_tok 0 True l)) = min 15 l"
    and "unat (drop_bit 4 (lz4WriteLen_tok (lz4WriteLen_tok 0 True l) False m)) = min 15 l"
    and "unat (lz4WriteLen_tok (lz4WriteLen_tok 0 True l) False m AND 0x0F) = min 15 m"
proof -
  have lt: "min 15 l < 16" "min 15 m < 16" "0 < (16 :: nat)" by simp_all
  show "unat (drop_bit 4 (lz4WriteLen_tok 0 True l)) = min 15 l"
  proof -
    have "lz4WriteLen_tok 0 True l = (push_bit 4 (of_nat (min 15 l)) AND 0xF0) OR of_nat 0"
      by (simp add: lz4WriteLen_tok_eq(1))
    then show ?thesis using token_nibbles(1) [OF lt(1,3)] by (simp only:)
  qed
  show "unat (drop_bit 4 (lz4WriteLen_tok (lz4WriteLen_tok 0 True l) False m)) = min 15 l"
    and "unat (lz4WriteLen_tok (lz4WriteLen_tok 0 True l) False m AND 0x0F) = min 15 m"
    unfolding lz4WriteLen_tok_eq(2) by (rule token_nibbles [OF lt(1,2)])+
qed

text \<open>Reading back a length field of \<^verbatim>\<open>lz4WriteLen\<close>, with base \<open>b\<close> added (the minimal match length).\<close>

lemma lz4_read_len:
  "(if min 15 l = 15 then lz4_read_ext (min 15 l + b) (lz4WriteLen_ext l @ rest)
    else Some (min 15 l + b, lz4WriteLen_ext l @ rest)) = Some (l + b, rest)"
  by (auto simp: lz4WriteLen_ext_def lz4_read_rem_bytes min_def)

lemmas lz4_read_len0 = lz4_read_len [where b = 0, unfolded add_0_right]

section \<open>Decompression inverts compression\<close>

lemma lz4_decompress_sequence:
  assumes ml: "lz4MinMatch \<le> ml" and off: "0 < offset" "offset < 65536"
    and fits: "offset \<le> length out + length lits" "length out + length lits + ml \<le> rawSize"
  shows "lz4_decompress_loop rawSize (lz4_sequence lits offset ml @ rest) out =
    lz4_decompress_loop rawSize rest (lz4_copy_match offset ml (out @ lits))"
proof -
  have o16: "unat (of_nat offset :: u16) = offset"
    using off by (simp add: unat_of_nat)
  have get: "get_le (put_le 2 (of_nat offset :: u16)) = (of_nat offset :: u16)"
    by (simp add: get_le_put_le)
  show ?thesis
    using assms
    by (simp add: lz4_sequence_def lz4_decompress_loop.simps(2) Let_def token_parts lz4_read_len
        lz4_read_len0 get o16 cong del: if_weak_cong split del: if_split)
qed

lemma lz4_decompress_last:
  assumes "length out + length lits = rawSize"
  shows "lz4_decompress_loop rawSize (lz4_last_literals lits) out = Inr (out @ lits)"
  using assms lz4_read_len0 [of "length lits" lits]
  by (simp add: lz4_last_literals_def lz4_decompress_loop.simps(2) Let_def token_parts lz4_finish_def)

lemma lz4_copy_match_eq:
  "\<lbrakk>r < ip; ip + n \<le> length src; \<And>i. i < n \<Longrightarrow> src ! (r + i) = src ! (ip + i)\<rbrakk> \<Longrightarrow>
     lz4_copy_match (ip - r) n (take ip src) = take (ip + n) src"
proof (induction n arbitrary: r ip)
  case (Suc n)
  have "take ip src @ [take ip src ! (length (take ip src) - (ip - r))] = take (Suc ip) src"
    using Suc.prems(1,2) Suc.prems(3) [of 0] by (simp add: take_Suc_conv_app_nth)
  moreover have "lz4_copy_match (Suc ip - Suc r) n (take (Suc ip) src) = take (Suc ip + n) src"
    using Suc.prems(1,2) Suc.prems(3) [of "Suc _"] by (intro Suc.IH) auto
  ultimately show ?case by simp
qed simp

lemma lz4_match_len_le: "ml \<le> maxML \<Longrightarrow> lz4_match_len src ip ref maxML ml \<le> maxML"
  by (induction src ip ref maxML ml rule: lz4_match_len.induct)
    (subst lz4_match_len.simps, auto)

lemma lz4_match_len_match:
  "\<lbrakk>ml \<le> i; i < lz4_match_len src ip ref maxML ml\<rbrakk> \<Longrightarrow> src ! (ip + i) = src ! (ref + i)"
proof (induction src ip ref maxML ml rule: lz4_match_len.induct)
  case (1 src ip ref maxML ml)
  show ?case
  proof (cases "ml < maxML \<and> src ! (ip + ml) = src ! (ref + ml)")
    case True
    with 1 show ?thesis
      by (cases "i = ml") (auto simp: lz4_match_len.simps [of _ _ _ _ ml])
  next
    case False
    with "1.prems" show ?thesis
      by (auto simp: lz4_match_len.simps [of _ _ _ _ ml])
  qed
qed

lemma length_lz4WriteLen_ext: "length (lz4WriteLen_ext l) = (if 15 \<le> l then (l - 15) div 255 + 1 else 0)"
  by (simp add: lz4WriteLen_ext_def length_lz4_rem_bytes)

lemma length_lz4_sequence:
  "length (lz4_sequence lits offset ml) =
     3 + length lits + length (lz4WriteLen_ext (length lits)) + length (lz4WriteLen_ext (ml - lz4MinMatch))"
  by (simp add: lz4_sequence_def Let_def)

lemma lz4_sequence_size:
  assumes "lz4MinMatch \<le> ml"
  shows "255 * length (lz4_sequence lits offset ml) \<le> 256 * (length lits + ml)"
    and "length lits + ml \<le> 255 * length (lz4_sequence lits offset ml)"
  using assms by (auto simp: length_lz4_sequence length_lz4WriteLen_ext lz4MinMatch_def)

lemma lz4_match_step:
  assumes m: "lz4_is_match src ip ref" and ip: "ip + lz4MFLimit \<le> length src" and a: "anchor \<le> ip"
  defines "ml \<equiv> lz4_match_len src ip (nat ref) (lz4_max_ml src ip) lz4MinMatch"
  shows "lz4MinMatch \<le> ml" and "ip + ml \<le> length src"
    and "lz4_decompress_loop (length src)
          (lz4_sequence (slice anchor ip src) (ip - nat ref) ml @ rest) (take anchor src) =
         lz4_decompress_loop (length src) rest (take (ip + ml) src)"
proof -
  have r: "nat ref < ip" "ip - nat ref \<le> 65535"
    using m by (auto simp: lz4_is_match_def)
  show ml4: "lz4MinMatch \<le> ml"
    unfolding ml_def by (rule lz4_match_len_ge)
  have "lz4MinMatch \<le> lz4_max_ml src ip"
    using ip by (auto simp: lz4_max_ml_def lz4MFLimit_def lz4MinMatch_def lz4LastLits_def Let_def)
  then have "ml \<le> lz4_max_ml src ip"
    unfolding ml_def by (rule lz4_match_len_le)
  also have "\<dots> \<le> length src - ip"
    by (simp add: lz4_max_ml_def Let_def)
  finally show fits: "ip + ml \<le> length src"
    using ip by simp
  have same: "src ! (nat ref + i) = src ! (ip + i)" if "i < ml" for i
  proof (cases "i < lz4MinMatch")
    case True
    then have "i = 0 \<or> i = 1 \<or> i = 2 \<or> i = 3" by (auto simp: lz4MinMatch_def)
    with m show ?thesis by (auto simp: lz4_is_match_def Let_def)
  next
    case False
    with that show ?thesis
      using lz4_match_len_match [of lz4MinMatch i src ip "nat ref" "lz4_max_ml src ip"] by (simp add: ml_def)
  qed
  have lits: "take anchor src @ slice anchor ip src = take ip src"
    using a by (simp add: slice_def flip: take_add)
  have "length (slice anchor ip src) = ip - anchor"
    using fits by simp
  then have "lz4_decompress_loop (length src)
          (lz4_sequence (slice anchor ip src) (ip - nat ref) ml @ rest) (take anchor src) =
         lz4_decompress_loop (length src) rest (lz4_copy_match (ip - nat ref) ml (take ip src))"
    using lz4_decompress_sequence [OF ml4, of "ip - nat ref" "take anchor src" "slice anchor ip src"
        "length src" rest] r a fits lits by simp
  with lz4_copy_match_eq [OF r(1) fits same]
  show "lz4_decompress_loop (length src)
          (lz4_sequence (slice anchor ip src) (ip - nat ref) ml @ rest) (take anchor src) =
         lz4_decompress_loop (length src) rest (take (ip + ml) src)" by simp
qed

text \<open>The invariant of the encoder's loop: what is written decodes to the input up to \<open>anchor\<close>.\<close>

definition lz4_inv :: "bytes \<Rightarrow> nat \<Rightarrow> bytes \<Rightarrow> bool" where
  "lz4_inv src anchor dst \<longleftrightarrow>
     anchor \<le> length src \<and> 255 * length dst \<le> 256 * anchor \<and> anchor \<le> 255 * length dst \<and>
     (\<forall>rest. lz4_decompress_loop (length src) (dst @ rest) [] =
             lz4_decompress_loop (length src) rest (take anchor src))"

lemma lz4_inv_match:
  assumes "lz4_inv src anchor dst" "lz4_is_match src ip ref" "ip + lz4MFLimit \<le> length src" "anchor \<le> ip"
  defines "ml \<equiv> lz4_match_len src ip (nat ref) (lz4_max_ml src ip) lz4MinMatch"
  shows "lz4_inv src (ip + ml) (dst @ lz4_sequence (slice anchor ip src) (ip - nat ref) ml)"
proof -
  note step = lz4_match_step [OF assms(2-4), folded ml_def]
  have "length (slice anchor ip src) = ip - anchor"
    using step(2) by simp
  with lz4_sequence_size [OF step(1), of "slice anchor ip src" "ip - nat ref"] assms(1,4) step
  show ?thesis by (auto simp: lz4_inv_def)
qed

lemma lz4_compress_loop_inv:
  "\<lbrakk>lz4_inv src anchor dst; anchor \<le> ip; lz4_compress_loop src table ip anchor dst = (a, d)\<rbrakk> \<Longrightarrow>
     lz4_inv src a d"
proof (induction src table ip anchor dst rule: lz4_compress_loop.induct)
  case (1 src table ip anchor dst)
  show ?case
  proof (cases "ip + lz4MFLimit \<le> length src")
    case False
    with "1.prems" show ?thesis by (simp add: lz4_compress_loop.simps [of src table ip])
  next
    case in_range: True
    show ?thesis
    proof (cases "lz4_is_match src ip (table (lz4hash4 (drop ip src)) - 1)")
      case True
      show ?thesis
        by (rule "1.IH"(1) [OF in_range refl refl refl True refl refl refl refl refl])
          (use 1 in_range True lz4_inv_match in \<open>auto simp: lz4_compress_loop.simps [of src table ip] Let_def\<close>)
    next
      case False
      show ?thesis
        by (rule "1.IH"(2) [OF in_range refl refl refl False])
          (use "1.prems" in_range False in
            \<open>auto simp: lz4_compress_loop.simps [of src table ip] Let_def fun_upd_def\<close>)
    qed
  qed
qed

lemma lz4_compress_loop_result:
  "lz4_compress_loop src table 0 0 [] = (a, d) \<Longrightarrow> lz4_inv src a d"
  by (rule lz4_compress_loop_inv [where ip = 0 and anchor = 0 and dst = "[]"]) (auto simp: lz4_inv_def)

lemma lz4_compress_decompress:
  assumes "lz4_compress src = Some out" "length src \<le> maxDecodedPayload"
  shows "lz4_decompress out (length src) = Inr src"
proof -
  obtain a d where loop: "lz4_compress_loop src (\<lambda>_. 0) 0 0 [] = (a, d)" by fastforce
  then have inv: "lz4_inv src a d" by (rule lz4_compress_loop_result)
  from assms(1) loop have out: "out = d @ lz4_last_literals (drop a src)"
    by (auto simp: lz4_compress_def Let_def split: if_splits)
  have "length (drop a src) \<le> 255 * length (lz4_last_literals (drop a src))"
    by (simp add: lz4_last_literals_def)
  with inv have "length src \<le> length out * 255 + 64"
    unfolding out by (auto simp: lz4_inv_def)
  moreover have "lz4_decompress_loop (length src) out [] = Inr src"
    using inv unfolding out by (simp add: lz4_inv_def lz4_decompress_last)
  ultimately show ?thesis
    using assms(2) by (simp add: lz4_decompress_def)
qed

text \<open>
  C28. What the LZ4 encoder produces, the LZ4 decoder turns back into the payload, for every payload
  within the 16 MiB cap: no declared-size guard, length field or overlapping match copy loses or
  changes a byte.
\<close>

theorem lz4_roundtrip:
  assumes "lz4_compress src = Some out" "length src \<le> maxDecodedPayload"
  shows "lz4_decompress out (length src) = Inr src"
  using assms by (rule lz4_compress_decompress)

theorem lz4_roundtrip_witness:
  "\<exists>out. lz4_compress (replicate 16 0) = Some out \<and> lz4_decompress out 16 = Inr (replicate 16 0)"
proof -
  have h: "lz4hash4 (replicate 16 0) = 0" "lz4hash4 (replicate 15 0) = 0"
    by (simp_all add: lz4hash4_def Let_def)
  have ml: "lz4_match_len (replicate 16 0) (Suc 0) 0 15 4 = 15"
    by (simp add: lz4_match_len.simps numeral_eq_Suc)
  have "lz4_compress_loop (replicate 16 0) (\<lambda>_. 0) 0 0 [] = (16, lz4_sequence [0] 1 15)"
    by (subst lz4_compress_loop.simps, simp add: lz4MFLimit_def lz4MinMatch_def lz4LastLits_def h lz4_is_match_def Let_def,
        subst lz4_compress_loop.simps, simp add: lz4MFLimit_def lz4MinMatch_def lz4LastLits_def h lz4_is_match_def Let_def
        lz4_max_ml_def ml slice_def, subst lz4_compress_loop.simps, simp add: lz4MFLimit_def lz4MinMatch_def lz4LastLits_def)
  then have "lz4_compress (replicate 16 0) = Some (lz4_sequence [0] 1 15 @ lz4_last_literals [])"
    by (simp add: lz4_compress_def lz4_sequence_def lz4_last_literals_def lz4WriteLen_ext_def lz4MFLimit_def lz4MinMatch_def
        lz4LastLits_def Let_def)
  moreover have "length (replicate 16 (0 :: byte)) \<le> maxDecodedPayload" by (simp add: maxDecodedPayload_def)
  ultimately show ?thesis using lz4_roundtrip [of "replicate 16 0"] by auto
qed

text \<open>
  The encoder never writes past the buffer it allocates (\<^verbatim>\<open>len + len/255 + 16\<close> bytes), also for
  inputs it then finds incompressible.
\<close>

theorem lz4_compress_buffer_bound:
  assumes "lz4_compress_loop src table 0 0 [] = (a, d)"
  shows "length (d @ lz4_last_literals (drop a src)) \<le> length src + length src div 255 + 16"
proof -
  have "lz4_inv src a d" using assms by (rule lz4_compress_loop_result)
  then have "a \<le> length src" "255 * length d \<le> 256 * a" by (simp_all add: lz4_inv_def)
  moreover have "length (lz4_last_literals (drop a src)) \<le>
      (length src - a) + (length src - a) div 255 + 2"
    by (simp add: lz4_last_literals_def length_lz4WriteLen_ext div_le_mono)
  ultimately show ?thesis by simp
qed

theorem lz4_compress_buffer_bound_witness:
  "lz4_compress_loop [1, 2, 3] (\<lambda>_. 0) 0 0 [] = (0, []) \<and> length (lz4_last_literals [1, 2, 3]) \<le> 19"
proof -
  have run: "lz4_compress_loop [1, 2, 3] (\<lambda>_. 0) 0 0 [] = (0, [])"
    by (simp add: lz4_compress_loop.simps lz4MFLimit_def lz4MinMatch_def lz4LastLits_def)
  from run lz4_compress_buffer_bound [OF run] show ?thesis by simp
qed

lemma lz4_finish_size: "lz4_finish n out = Inr r \<Longrightarrow> length r = n"
  by (auto simp: lz4_finish_def split: if_splits)

lemma lz4_decompress_loop_size: "lz4_decompress_loop n src out = Inr r \<Longrightarrow> length r = n"
proof (induction n src out rule: lz4_decompress_loop.induct)
  case (1 n out)
  then show ?case by (simp add: lz4_decompress_loop.simps(1) lz4_finish_size)
next
  case (2 n tok src out)
  from "2.prems" show ?case
    by (auto simp: lz4_decompress_loop.simps(2) Let_def lz4_finish_size
        split: option.splits prod.splits if_splits intro: "2.IH")
qed

lemma lz4_decompress_size:
  "lz4_decompress src rawSize = Inr out \<Longrightarrow>
     length out = rawSize \<and> rawSize \<le> maxDecodedPayload \<and> rawSize \<le> length src * 255 + 64"
  by (auto simp: lz4_decompress_def dest: lz4_decompress_loop_size split: if_splits)

text \<open>
  Whatever bytes a peer sends, a successful decompression returns exactly the declared number of
  bytes; a declared size above the 16 MiB cap, or above 255 times the input plus 64, is refused
  before anything is decoded.
\<close>

theorem lz4_decompress_bounded:
  "(lz4_decompress src rawSize = Inr out \<longrightarrow> length out = rawSize) \<and>
   (maxDecodedPayload < rawSize \<or> length src * 255 + 64 < rawSize \<longrightarrow>
      lz4_decompress src rawSize = Inl ErrLZ4RawSize)"
  using lz4_decompress_size [of src rawSize out] by (simp add: lz4_decompress_def del: not_less)

theorem lz4_decompress_bounded_witness:
  "lz4_decompress [1, 2] 1000 = Inl ErrLZ4RawSize"
  using lz4_decompress_bounded [of "[1, 2]" 1000 "[]"] by simp

end
