(* ===== verification/Wusp_Frame.thy ===== *)
theory Wusp_Frame
  imports LZ4 "HOL-Library.List_Lexorder"
begin

text \<open>
  The WUSP binary frame codec of \<^verbatim>\<open>internal/wusp/interface.go\<close>: values, fields and messages, the
  path registry, the \<^verbatim>\<open>Encoder\<close> and the \<^verbatim>\<open>Decoder\<close>. The Go \<^verbatim>\<open>Value\<close> is a tagged union of which only
  the field named by \<^verbatim>\<open>Tag\<close> is valid, here the datatype \<open>wvalue\<close>; an \<^verbatim>\<open>int64\<close> is its 64-bit word, a
  \<^verbatim>\<open>float64\<close> its IEEE bit pattern (\<^verbatim>\<open>math.Float64bits\<close>). Strings are byte lists. Writers return the
  bytes they append, readers the value and the rest of the buffer. The path registry is a parameter
  of the codec; \<open>buildRegistry\<close> builds it from the list of parameter paths.
\<close>

datatype wvalue =
    VNull | VFalse | VTrue | VUint u64 | VInt u64 | VFloat u64 | VString bytes | VBytes bytes
  | VTime u64 | VIP4 bytes | VIP6 bytes | VIP4Pfx bytes | VIP6Pfx bytes | VMAC bytes
  | VList "wvalue list"

record wfield =
  f_id :: u16
  f_Path :: bytes
  f_Val :: wvalue

record wmessage =
  m_DeviceID :: bytes
  m_Timestamp :: time
  m_Fields :: "wfield list"

record registry =
  reg_paths :: "bytes list"
  reg_fp :: u16

record encode_options =
  o_Compress :: bool
  o_IncludeDeviceID :: bool
  o_IncludeTimestamp :: bool

definition maxValueNesting :: nat where "maxValueNesting = 8"
definition frameHdrSize :: nat where "frameHdrSize = 8"

section \<open>Variable-length integers\<close>

text \<open>\<^verbatim>\<open>binary.PutUvarint\<close> and \<^verbatim>\<open>binary.Uvarint\<close>.\<close>

function putUvarint :: "u64 \<Rightarrow> bytes" where
  "putUvarint x =
     (if 0x80 \<le> x then (ucast x OR 0x80) # putUvarint (drop_bit 7 x) else [ucast x])"
  by pat_completeness auto
termination
proof (relation "measure unat", goal_cases)
  case (2 x)
  then have "128 \<le> unat x" by (simp add: word_le_nat_alt)
  moreover have "unat (drop_bit 7 x) = unat x div 128"
    by (simp only: unat_drop_bit_eq) (simp add: drop_bit_eq_div)
  ultimately show ?case by simp
qed simp

declare putUvarint.simps [simp del]

fun uvarint_loop :: "nat \<Rightarrow> u64 \<Rightarrow> bytes \<Rightarrow> wusp_error + (u64 \<times> bytes)" where
  "uvarint_loop i x [] = Inl ErrUnexpectedEOF"
| "uvarint_loop i x (b # bs) =
     (if i = 10 then Inl ErrUvarintOverflow
      else if b < 0x80 then
        (if i = 9 \<and> b > 1 then Inl ErrUvarintOverflow
         else Inr (x OR push_bit (7 * i) (ucast b), bs))
      else uvarint_loop (Suc i) (x OR push_bit (7 * i) (ucast (b AND 0x7f))) bs)"

definition readUvarint :: "bytes \<Rightarrow> wusp_error + (u64 \<times> bytes)" where
  "readUvarint r = uvarint_loop 0 0 r"

definition zigzag :: "u64 \<Rightarrow> u64" where
  "zigzag v = push_bit 1 v XOR signed_drop_bit 63 v"

definition unzigzag :: "u64 \<Rightarrow> u64" where
  "unzigzag u = drop_bit 1 u XOR - (u AND 1)"

definition writeZigzag :: "u64 \<Rightarrow> bytes" where
  "writeZigzag v = putUvarint (zigzag v)"

definition readZigzag :: "bytes \<Rightarrow> wusp_error + (u64 \<times> bytes)" where
  "readZigzag r = (case readUvarint r of Inl e \<Rightarrow> Inl e | Inr (u, r) \<Rightarrow> Inr (unzigzag u, r))"

definition writeBlob :: "bytes \<Rightarrow> bytes" where
  "writeBlob d = putUvarint (of_nat (length d)) @ d"

definition readByte :: "bytes \<Rightarrow> wusp_error + (byte \<times> bytes)" where
  "readByte r = (case r of [] \<Rightarrow> Inl ErrUnexpectedEOF | b # r \<Rightarrow> Inr (b, r))"

definition readN :: "nat \<Rightarrow> bytes \<Rightarrow> wusp_error + (bytes \<times> bytes)" where
  "readN n r = (if length r < n then Inl ErrUnexpectedEOF else Inr (take n r, drop n r))"

definition readBlob :: "bytes \<Rightarrow> wusp_error + (bytes \<times> bytes)" where
  "readBlob r =
     (case readUvarint r of Inl e \<Rightarrow> Inl e
      | Inr (n, r) \<Rightarrow> if length r < unat n then Inl ErrUnexpectedEOF else readN (unat n) r)"

text \<open>The path registry: path \<open>k\<close> (counted from zero) of the sorted list has the id \<open>k + 1\<close>.\<close>

fun fnv32a :: "u32 \<Rightarrow> bytes \<Rightarrow> u32" where
  "fnv32a h [] = h"
| "fnv32a h (b # bs) = fnv32a ((h XOR ucast b) * 16777619) bs"

definition buildRegistry :: "bytes list \<Rightarrow> registry" where
  "buildRegistry params =
     (let sorted = sort params in
      \<lparr>reg_paths = sorted, reg_fp = ucast (fnv32a 2166136261 (concat sorted))\<rparr>)"

text \<open>
  \<^verbatim>\<open>pathToID\<close> is filled in list order, so a later occurrence of a path overwrites an earlier one. The
  id is a \<^verbatim>\<open>uint16\<close>.
\<close>

fun index_of_last :: "bytes list \<Rightarrow> bytes \<Rightarrow> nat \<Rightarrow> nat option" where
  "index_of_last [] p k = None"
| "index_of_last (q # qs) p k =
     (case index_of_last qs p (Suc k) of Some j \<Rightarrow> Some j
      | None \<Rightarrow> if q = p then Some k else None)"

definition IDFor :: "registry \<Rightarrow> bytes \<Rightarrow> u16 option" where
  "IDFor reg path = map_option (\<lambda>k. of_nat (k + 1)) (index_of_last (reg_paths reg) path 0)"

definition PathForID :: "registry \<Rightarrow> u16 \<Rightarrow> bytes option" where
  "PathForID reg i =
     (if i = 0 \<or> length (reg_paths reg) < unat i then None else Some (reg_paths reg ! (unat i - 1)))"

text \<open>\<^verbatim>\<open>Message.Set\<close> and \<^verbatim>\<open>Message.Get\<close>.\<close>

fun set_field :: "wfield list \<Rightarrow> bytes \<Rightarrow> wvalue \<Rightarrow> wfield list option" where
  "set_field [] path v = None"
| "set_field (f # fs) path v =
     (if f_Path f = path then Some (f\<lparr>f_Val := v\<rparr> # fs)
      else map_option ((#) f) (set_field fs path v))"

definition Message_Set :: "registry \<Rightarrow> bytes \<Rightarrow> wvalue \<Rightarrow> wmessage \<Rightarrow> wmessage" where
  "Message_Set reg path v m =
     (case set_field (m_Fields m) path v of
        Some fs \<Rightarrow> m\<lparr>m_Fields := fs\<rparr>
      | None \<Rightarrow> m\<lparr>m_Fields := m_Fields m @
          [\<lparr>f_id = (case IDFor reg path of Some i \<Rightarrow> i | None \<Rightarrow> 0), f_Path = path, f_Val = v\<rparr>]\<rparr>)"

definition Message_Get :: "wmessage \<Rightarrow> bytes \<Rightarrow> wvalue \<times> bool" where
  "Message_Get m path =
     (case find (\<lambda>f. f_Path f = path) (m_Fields m) of Some f \<Rightarrow> (f_Val f, True) | None \<Rightarrow> (VNull, False))"

definition ResetAllFieldIDs :: "wmessage \<Rightarrow> wmessage" where
  "ResetAllFieldIDs m = m\<lparr>m_Fields := map (\<lambda>f. f\<lparr>f_id := 0\<rparr>) (m_Fields m)\<rparr>"

section \<open>Encoder\<close>

text \<open>
  The fixed-size cases take a prefix of the blob (\<^verbatim>\<open>v.blob[:4]\<close>), which panics in Go on a shorter
  blob; \<open>wf_value\<close> below is what the value constructors guarantee.
\<close>

fun encodeValue :: "wvalue \<Rightarrow> bytes" where
  "encodeValue VNull = [0x00]"
| "encodeValue VFalse = [0x01]"
| "encodeValue VTrue = [0x02]"
| "encodeValue (VUint n) = 0x03 # putUvarint n"
| "encodeValue (VInt n) = 0x04 # writeZigzag n"
| "encodeValue (VFloat f) = 0x05 # put_le 8 f"
| "encodeValue (VString b) = 0x06 # writeBlob b"
| "encodeValue (VBytes b) = 0x07 # writeBlob b"
| "encodeValue (VTime n) = 0x08 # writeZigzag n"
| "encodeValue (VIP4 b) = 0x09 # take 4 b"
| "encodeValue (VIP6 b) = 0x0A # take 16 b"
| "encodeValue (VIP4Pfx b) = 0x0B # take 5 b"
| "encodeValue (VIP6Pfx b) = 0x0C # take 17 b"
| "encodeValue (VMAC b) = 0x0D # take 6 b"
| "encodeValue (VList vs) = 0x0E # putUvarint (of_nat (length vs)) @ concat (map encodeValue vs)"

definition encodeField :: "wfield \<Rightarrow> bytes" where
  "encodeField f =
     putUvarint (ucast (f_id f)) @ (if f_id f = 0 then writeBlob (f_Path f) else []) @ encodeValue (f_Val f)"

definition encode_payload :: "encode_options \<Rightarrow> wmessage \<Rightarrow> bytes" where
  "encode_payload opts m =
     (if o_IncludeDeviceID opts \<and> m_DeviceID m \<noteq> [] then writeBlob (m_DeviceID m) else []) @
     (if o_IncludeTimestamp opts \<and> \<not> IsZero (m_Timestamp m)
      then writeZigzag (word_of_int (UnixNano (m_Timestamp m))) else []) @
     putUvarint (of_nat (length (m_Fields m))) @ concat (map encodeField (m_Fields m))"

definition flagLZ4 :: byte where "flagLZ4 = 1"
definition flagDeviceID :: byte where "flagDeviceID = 2"
definition flagTS :: byte where "flagTS = 4"

definition encode_flags :: "encode_options \<Rightarrow> wmessage \<Rightarrow> byte" where
  "encode_flags opts m =
     (if o_IncludeDeviceID opts \<and> m_DeviceID m \<noteq> [] then flagDeviceID else 0) OR
     (if o_IncludeTimestamp opts \<and> \<not> IsZero (m_Timestamp m) then flagTS else 0)"

definition frame_Encode :: "registry \<Rightarrow> encode_options \<Rightarrow> wmessage \<Rightarrow> bytes" where
  "frame_Encode reg opts m =
     (let payload = encode_payload opts m;
          flags = encode_flags opts m;
          (flags, final) =
            (if o_Compress opts then
               (case lz4_compress payload of
                  Some cp \<Rightarrow> (flags OR flagLZ4, put_le 4 (of_nat (length payload) :: u32) @ cp)
                | None \<Rightarrow> (flags, payload))
             else (flags, payload))
      in [0x57, 0x55, 0x01] @ put_le 2 (reg_fp reg) @ [flags, 0, 0] @ final)"

section \<open>Decoder\<close>

fun decode_items :: "(bytes \<Rightarrow> wusp_error + ('v \<times> bytes)) \<Rightarrow> nat \<Rightarrow> bytes \<Rightarrow> wusp_error + ('v list \<times> bytes)" where
  "decode_items f 0 r = Inr ([], r)"
| "decode_items f (Suc n) r =
     (case f r of Inl e \<Rightarrow> Inl e
      | Inr (v, r) \<Rightarrow> (case decode_items f n r of Inl e \<Rightarrow> Inl e | Inr (vs, r) \<Rightarrow> Inr (v # vs, r)))"

definition read_into :: "('a \<Rightarrow> wvalue) \<Rightarrow> wusp_error + ('a \<times> bytes) \<Rightarrow> wusp_error + (wvalue \<times> bytes)" where
  "read_into c res = (case res of Inl e \<Rightarrow> Inl e | Inr (a, r) \<Rightarrow> Inr (c a, r))"

function decodeValue :: "bytes \<Rightarrow> nat \<Rightarrow> wusp_error + (wvalue \<times> bytes)" where
  "decodeValue r depth =
     (case readByte r of Inl e \<Rightarrow> Inl e
      | Inr (tag, r) \<Rightarrow>
        if tag = 0x00 then Inr (VNull, r)
        else if tag = 0x01 then Inr (VFalse, r)
        else if tag = 0x02 then Inr (VTrue, r)
        else if tag = 0x03 then read_into VUint (readUvarint r)
        else if tag = 0x04 then read_into VInt (readZigzag r)
        else if tag = 0x05 then read_into (\<lambda>b. VFloat (get_le b)) (readN 8 r)
        else if tag = 0x06 then read_into VString (readBlob r)
        else if tag = 0x07 then read_into VBytes (readBlob r)
        else if tag = 0x08 then read_into VTime (readZigzag r)
        else if tag = 0x09 then read_into VIP4 (readN 4 r)
        else if tag = 0x0A then read_into VIP6 (readN 16 r)
        else if tag = 0x0B then read_into VIP4Pfx (readN 5 r)
        else if tag = 0x0C then read_into VIP6Pfx (readN 17 r)
        else if tag = 0x0D then read_into VMAC (readN 6 r)
        else if tag = 0x0E then
          (case readUvarint r of Inl e \<Rightarrow> Inl e
           | Inr (cnt, r) \<Rightarrow>
             if length r < unat cnt then Inl ErrTruncated
             else if maxValueNesting \<le> depth then Inl ErrNesting
             else read_into VList (decode_items (\<lambda>r. decodeValue r (Suc depth)) (unat cnt) r))
        else Inl ErrUnknownTag)"
  by pat_completeness auto
termination
  by (relation "measure (\<lambda>(r, depth). maxValueNesting - depth)") auto

declare decodeValue.simps [simp del]

definition decodeField :: "registry \<Rightarrow> bool \<Rightarrow> bytes \<Rightarrow> wusp_error + (wfield option \<times> bytes)" where
  "decodeField reg skipUnknown r =
     (case readUvarint r of Inl e \<Rightarrow> Inl e
      | Inr (rawID, r) \<Rightarrow>
        let i = ucast rawID :: u16 in
        if i = 0 then
          (case readBlob r of Inl e \<Rightarrow> Inl e
           | Inr (path, r) \<Rightarrow>
             (case decodeValue r 0 of Inl e \<Rightarrow> Inl e
              | Inr (v, r) \<Rightarrow> Inr (Some \<lparr>f_id = i, f_Path = path, f_Val = v\<rparr>, r)))
        else
          (case PathForID reg i of
             Some path \<Rightarrow>
               (case decodeValue r 0 of Inl e \<Rightarrow> Inl e
                | Inr (v, r) \<Rightarrow> Inr (Some \<lparr>f_id = i, f_Path = path, f_Val = v\<rparr>, r))
           | None \<Rightarrow>
               (case decodeValue r 0 of Inl e \<Rightarrow> Inl e
                | Inr (v, r) \<Rightarrow>
                  if skipUnknown then Inr (None, r)
                  else Inr (Some \<lparr>f_id = i, f_Path = [], f_Val = v\<rparr>, r))))"

definition decode_fields :: "registry \<Rightarrow> bool \<Rightarrow> bytes \<Rightarrow> time \<Rightarrow> bytes \<Rightarrow> wusp_error + wmessage" where
  "decode_fields reg skipUnknown dev ts r =
     (case readUvarint r of Inl e \<Rightarrow> Inl e
      | Inr (count, r) \<Rightarrow>
        if length r < unat count then Inl ErrTruncated
        else (case decode_items (decodeField reg skipUnknown) (unat count) r of Inl e \<Rightarrow> Inl e
              | Inr (fs, r) \<Rightarrow>
                Inr \<lparr>m_DeviceID = dev, m_Timestamp = ts, m_Fields = List.map_filter id fs\<rparr>))"

definition decode_payload :: "registry \<Rightarrow> bool \<Rightarrow> byte \<Rightarrow> bytes \<Rightarrow> wusp_error + wmessage" where
  "decode_payload reg skipUnknown flags payload =
     (case (if flags AND flagDeviceID \<noteq> 0 then readBlob payload else Inr ([], payload)) of Inl e \<Rightarrow> Inl e
      | Inr (dev, r) \<Rightarrow>
        (case (if flags AND flagTS \<noteq> 0
               then (case readZigzag r of Inl e \<Rightarrow> Inl e | Inr (ns, r) \<Rightarrow> Inr (sint ns, r))
               else Inr (time_zero, r)) of Inl e \<Rightarrow> Inl e
         | Inr (ts, r) \<Rightarrow> decode_fields reg skipUnknown dev ts r))"

definition frame_Decode :: "registry \<Rightarrow> bool \<Rightarrow> bytes \<Rightarrow> wusp_error + wmessage" where
  "frame_Decode reg skipUnknown data =
     (if length data < frameHdrSize then Inl ErrTruncated
      else if data ! 0 \<noteq> 0x57 \<or> data ! 1 \<noteq> 0x55 then Inl ErrBadMagic
      else if data ! 2 \<noteq> 0x01 then Inl ErrBadVersion
      else let flags = data ! 5; payload = drop frameHdrSize data in
        if flags AND flagLZ4 \<noteq> 0 then
          (if length payload < 4 then Inl ErrTruncated
           else (case lz4_decompress (drop 4 payload) (unat (get_le (take 4 payload) :: u32)) of
                   Inl e \<Rightarrow> Inl e
                 | Inr payload \<Rightarrow> decode_payload reg skipUnknown flags payload))
        else decode_payload reg skipUnknown flags payload)"

section \<open>Variable-length integers read back\<close>

lemma ucast_or_80: "(ucast (x :: u64) OR 0x80 :: byte) AND 0x7f = ucast x AND mask 7"
proof -
  have "(ucast x OR 0x80 :: byte) AND 0x7f = (ucast x AND 0x7f) OR (0x80 AND 0x7f)"
    by (rule bit.conj_disj_distrib2)
  then show ?thesis by (simp add: mask_eq_exp_minus_1)
qed

lemma drop_bit_7_or:
  "push_bit (7 * i) (ucast ((ucast x OR 0x80 :: byte) AND 0x7f)) OR push_bit (7 + 7 * i) (drop_bit 7 x)
     = push_bit (7 * i) (x :: u64)"
  unfolding ucast_or_80
proof (rule bit_word_eqI)
  fix n assume "n < LENGTH(64)"
  then show "bit (push_bit (7 * i) (ucast (ucast x AND (mask 7 :: byte))) OR push_bit (7 + 7 * i) (drop_bit 7 x)) n
      = bit (push_bit (7 * i) x) n"
    by (cases "n < 7 * i + 7")
      (auto simp: bit_or_iff bit_and_iff bit_push_bit_iff bit_drop_bit_eq bit_ucast_iff bit_mask_iff)
qed

lemma or_80_ge: "\<not> (ucast (x :: u64) OR 0x80 :: byte) < 0x80"
  using le_word_or2 [of "0x80 :: byte" "ucast x"] by (simp add: not_less or.commute)

lemma uvarint_loop_put:
  "\<lbrakk>i \<le> 9; unat y < 2 ^ (64 - 7 * i)\<rbrakk> \<Longrightarrow>
     uvarint_loop i x (putUvarint y @ rest) = Inr (x OR push_bit (7 * i) y, rest)"
proof (induction y arbitrary: i x rule: putUvarint.induct)
  case (1 y)
  show ?case
  proof (cases "0x80 \<le> y")
    case True
    then have y: "128 \<le> unat y" by (simp add: word_le_nat_alt)
    with 1 have i: "i \<noteq> 9" by auto
    have "unat (drop_bit 7 y) = unat y div 128"
      by (simp only: unat_drop_bit_eq) (simp add: drop_bit_eq_div)
    moreover have "64 - 7 * i = 7 + (64 - 7 * Suc i)"
      using i "1.prems"(1) by simp
    then have "(2 :: nat) ^ (64 - 7 * i) = 128 * 2 ^ (64 - 7 * Suc i)"
      by (simp only: power_add) simp
    ultimately have "unat (drop_bit 7 y) < 2 ^ (64 - 7 * Suc i)"
      using "1.prems"(2) by (simp add: less_mult_imp_div_less mult.commute)
    then have "uvarint_loop (Suc i) x' (putUvarint (drop_bit 7 y) @ rest) =
        Inr (x' OR push_bit (7 * Suc i) (drop_bit 7 y), rest)" for x'
      using "1.IH" [OF True] i "1.prems"(1) by simp
    with True i "1.prems"(1) show ?thesis
      by (simp add: putUvarint.simps [of y] or_80_ge or.assoc drop_bit_7_or)
  next
    case False
    then have y: "unat y < 128" by (simp add: word_less_nat_alt linorder_not_le)
    have u: "unat (ucast y :: byte) = unat y"
      using y by (simp add: unsigned_ucast_eq take_bit_nat_eq_self)
    then have lt: "(ucast y :: byte) < 0x80" using y by (simp add: word_less_nat_alt)
    have up: "ucast (ucast y :: byte) = y"
      using u y by (simp add: word_unat_eq_iff unsigned_ucast_eq unsigned_take_bit_eq take_bit_nat_eq_self)
    have "\<not> (i = 9 \<and> 1 < (ucast y :: byte))"
      using "1.prems"(2) u by (auto simp: word_less_nat_alt)
    with False lt up "1.prems"(1) show ?thesis
      by (auto simp: putUvarint.simps [of y])
  qed
qed

lemma readUvarint_put [simp]: "readUvarint (putUvarint y @ rest) = Inr (y, rest)"
  using uvarint_loop_put [of 0 y 0 rest] unsigned_less [of y, where 'a = nat]
  by (simp add: readUvarint_def)

lemma signed_drop_bit_63: "signed_drop_bit 63 (v :: u64) = (if bit v 63 then - 1 else 0)"
  by (intro bit_word_eqI) (auto simp: bit_signed_drop_bit_iff min_def not_le)

lemma unzigzag_zigzag [simp]: "unzigzag (zigzag v) = v"
proof -
  have low: "zigzag v AND 1 = (if bit v 63 then 1 else 0)"
    unfolding zigzag_def signed_drop_bit_63
    by (intro bit_word_eqI) (auto simp: bit_and_iff bit_xor_iff bit_push_bit_iff bit_1_iff bit_not_iff bit_0
        intro!: gr0I)
  show ?thesis
  proof (rule bit_word_eqI)
    fix n assume n: "n < LENGTH(64)"
    show "bit (unzigzag (zigzag v)) n = bit v n"
    proof (cases "n = 63")
      case True
      then show ?thesis
        unfolding unzigzag_def low
        by (auto simp: bit_xor_iff bit_drop_bit_eq dest: bit_imp_le_length)
    next
      case False
      with n have "bit (zigzag v) (Suc n) = (bit v n \<noteq> bit v 63)"
        by (simp only: zigzag_def signed_drop_bit_63 bit_xor_iff bit_push_bit_iff) auto
      with n show ?thesis
        unfolding unzigzag_def low by (auto simp: bit_xor_iff bit_drop_bit_eq)
    qed
  qed
qed

lemma readZigzag_write [simp]: "readZigzag (writeZigzag v @ rest) = Inr (v, rest)"
  by (simp add: readZigzag_def writeZigzag_def)

lemma readBlob_write [simp]:
  "length b < 2 ^ 64 \<Longrightarrow> readBlob (writeBlob b @ rest) = Inr (b, rest)"
  by (simp add: readBlob_def writeBlob_def readN_def unat_of_nat)

lemma readN_append [simp]: "length b = n \<Longrightarrow> readN n (b @ rest) = Inr (b, rest)"
  by (simp add: readN_def)

lemma readByte_Cons [simp]: "readByte (b # r) = Inr (b, r)"
  by (simp add: readByte_def)

section \<open>Values, fields and messages read back\<close>

fun wf_value :: "wvalue \<Rightarrow> bool" where
  "wf_value (VString b) = (length b < 2 ^ 64)"
| "wf_value (VBytes b) = (length b < 2 ^ 64)"
| "wf_value (VIP4 b) = (length b = 4)"
| "wf_value (VIP6 b) = (length b = 16)"
| "wf_value (VIP4Pfx b) = (length b = 5)"
| "wf_value (VIP6Pfx b) = (length b = 17)"
| "wf_value (VMAC b) = (length b = 6)"
| "wf_value (VList vs) = (length vs < 2 ^ 64 \<and> list_all wf_value vs)"
| "wf_value _ = True"

fun value_depth :: "wvalue \<Rightarrow> nat" where
  "value_depth (VList vs) = Suc (Max (insert 0 (set (map value_depth vs))))"
| "value_depth _ = 0"

lemma value_depth_list:
  "value_depth (VList vs) \<le> k \<longleftrightarrow> 0 < k \<and> (\<forall>v \<in> set vs. Suc (value_depth v) \<le> k)"
  by (cases k) auto

lemma encodeValue_nonempty [simp]: "encodeValue v \<noteq> []"
  by (cases v) auto

lemma length_concat_ge: "(\<And>x. x \<in> set xs \<Longrightarrow> 0 < length (f x)) \<Longrightarrow> length xs \<le> length (concat (map f xs))"
proof (induction xs)
  case (Cons x xs)
  have "length xs \<le> length (concat (map f xs))"
    by (rule Cons.IH, rule Cons.prems) simp
  moreover have "1 \<le> length (f x)"
    using Cons.prems [of x] by (simp add: Suc_le_eq)
  ultimately show ?case by simp
qed simp

lemma decode_items_concat:
  "(\<And>x r. x \<in> set xs \<Longrightarrow> f (g x @ r) = Inr (h x, r)) \<Longrightarrow>
     decode_items f (length xs) (concat (map g xs) @ rest) = Inr (map h xs, rest)"
  by (induction xs) auto

lemma decodeValue_encode:
  "\<lbrakk>wf_value v; value_depth v + depth \<le> maxValueNesting\<rbrakk> \<Longrightarrow>
     decodeValue (encodeValue v @ rest) depth = Inr (v, rest)"
proof (induction v arbitrary: depth rest)
  case (VList vs)
  have d: "0 < maxValueNesting - depth"
    and each: "\<And>v. v \<in> set vs \<Longrightarrow> value_depth v + Suc depth \<le> maxValueNesting"
    using VList.prems(2) value_depth_list [of vs "maxValueNesting - depth"] by fastforce+
  have items: "decode_items (\<lambda>r. decodeValue r (Suc depth)) (length vs) (concat (map encodeValue vs) @ rest)
      = Inr (map id vs, rest)"
    using VList each by (intro decode_items_concat) (auto simp: list_all_iff)
  have "length vs \<le> length (concat (map encodeValue vs))"
    by (rule length_concat_ge) simp
  with VList.prems(1) items d show ?case
    by (simp add: decodeValue.simps [of _ depth] unat_of_nat read_into_def)
qed (simp_all add: decodeValue.simps [of _ "_ :: nat"] read_into_def get_put_le_u64)

definition wf_field :: "registry \<Rightarrow> wfield \<Rightarrow> bool" where
  "wf_field reg f \<longleftrightarrow>
     wf_value (f_Val f) \<and> value_depth (f_Val f) \<le> maxValueNesting \<and>
     (f_id f = 0 \<and> length (f_Path f) < 2 ^ 64 \<or> PathForID reg (f_id f) = Some (f_Path f))"

lemma ucast_u16_u64 [simp]: "ucast (ucast (i :: u16) :: u64) = i"
  by (intro bit_word_eqI) (auto simp: bit_ucast_iff)

lemma PathForID_0 [simp]: "PathForID reg 0 = None"
  by (simp add: PathForID_def)

text \<open>
  What a field becomes under the registry of the decoder: a field with an id gets the path that this registry has for the
  id; an id it does not know is dropped, or comes without a path when unknown fields are kept.
\<close>

definition arriving :: "registry \<Rightarrow> bool \<Rightarrow> wfield \<Rightarrow> wfield option" where
  "arriving reg skip f =
     (if f_id f = 0 then Some f
      else case PathForID reg (f_id f) of Some path \<Rightarrow> Some (f\<lparr>f_Path := path\<rparr>)
        | None \<Rightarrow> if skip then None else Some (f\<lparr>f_Path := []\<rparr>))"

lemma decodeField_encode:
  assumes "wf_field reg f"
  shows "decodeField reg' skip (encodeField f @ rest) = Inr (arriving reg' skip f, rest)"
  using assms
  by (cases f)
    (auto simp: decodeField_def encodeField_def wf_field_def decodeValue_encode arriving_def Let_def
      split: option.splits)

lemma arriving_same: "wf_field reg f \<Longrightarrow> arriving reg skip f = Some f"
  by (cases f) (auto simp: arriving_def wf_field_def)

lemma encodeField_nonempty [simp]: "encodeField f \<noteq> []"
  by (simp add: encodeField_def)

lemma decode_fields_encode:
  assumes "\<forall>f \<in> set fs. wf_field reg f"
  shows "decode_items (decodeField reg' skip) (length fs) (concat (map encodeField fs) @ rest)
    = Inr (map (arriving reg' skip) fs, rest)"
  using assms by (intro decode_items_concat decodeField_encode) auto

definition wf_message :: "registry \<Rightarrow> wmessage \<Rightarrow> bool" where
  "wf_message reg m \<longleftrightarrow>
     length (m_DeviceID m) < 2 ^ 64 \<and> length (m_Fields m) < 2 ^ 64 \<and>
     (IsZero (m_Timestamp m) \<or> (- (2 ^ 63) \<le> m_Timestamp m \<and> m_Timestamp m < 2 ^ 63)) \<and>
     (\<forall>f \<in> set (m_Fields m). wf_field reg f)"

text \<open>The message the frame carries: the parts the options leave out come back empty.\<close>

definition carried :: "encode_options \<Rightarrow> wmessage \<Rightarrow> wmessage" where
  "carried opts m =
     m\<lparr>m_DeviceID := (if o_IncludeDeviceID opts then m_DeviceID m else []),
       m_Timestamp := (if o_IncludeTimestamp opts then m_Timestamp m else time_zero)\<rparr>"

lemma flag_bits:
  "(encode_flags opts m) AND flagDeviceID \<noteq> 0 \<longleftrightarrow> o_IncludeDeviceID opts \<and> m_DeviceID m \<noteq> []"
  "(encode_flags opts m) AND flagTS \<noteq> 0 \<longleftrightarrow> o_IncludeTimestamp opts \<and> \<not> IsZero (m_Timestamp m)"
  "(encode_flags opts m) AND flagLZ4 = 0"
  "(encode_flags opts m OR flagLZ4) AND flagDeviceID = (encode_flags opts m) AND flagDeviceID"
  "(encode_flags opts m OR flagLZ4) AND flagTS = (encode_flags opts m) AND flagTS"
  "(encode_flags opts m OR flagLZ4) AND flagLZ4 \<noteq> 0"
  by (auto simp: encode_flags_def flagDeviceID_def flagTS_def flagLZ4_def)

lemma UnixNano_exact: "\<lbrakk>- (2 ^ 63) \<le> t; t < 2 ^ 63\<rbrakk> \<Longrightarrow> sint (word_of_int (UnixNano t) :: u64) = t"
  by (simp add: UnixNano_def sint_sbintrunc' signed_take_bit_int_eq_self)

lemma decode_fields_encode_all:
  assumes "wf_message reg m"
  shows "decode_fields reg' skip dev ts
      (putUvarint (of_nat (length (m_Fields m))) @ concat (map encodeField (m_Fields m)))
    = Inr \<lparr>m_DeviceID = dev, m_Timestamp = ts, m_Fields = List.map_filter (arriving reg' skip) (m_Fields m)\<rparr>"
proof -
  have fields: "decode_items (decodeField reg' skip) (length (m_Fields m)) (concat (map encodeField (m_Fields m)))
      = Inr (map (arriving reg' skip) (m_Fields m), [])"
    using decode_fields_encode [of "m_Fields m" reg reg' skip "[]"] assms by (simp add: wf_message_def)
  have cnt: "length (m_Fields m) \<le> length (concat (map encodeField (m_Fields m)))"
    by (rule length_concat_ge) simp
  have n: "unat (of_nat (length (m_Fields m)) :: u64) = length (m_Fields m)"
    using assms by (simp add: wf_message_def unat_of_nat)
  have "List.map_filter id (map g fs) = List.map_filter g fs" for g :: "wfield \<Rightarrow> wfield option" and fs
    by (induction fs) (auto simp: map_filter_simps split: option.split)
  with cnt show ?thesis
    by (simp add: decode_fields_def fields n)
qed

definition arriving_message :: "registry \<Rightarrow> bool \<Rightarrow> wmessage \<Rightarrow> wmessage" where
  "arriving_message reg skip m = m\<lparr>m_Fields := List.map_filter (arriving reg skip) (m_Fields m)\<rparr>"

lemma arriving_message_same: "wf_message reg m \<Longrightarrow> arriving_message reg skip m = m"
proof -
  assume "wf_message reg m"
  then have "\<forall>f \<in> set (m_Fields m). arriving reg skip f = Some f" by (simp add: wf_message_def arriving_same)
  moreover have "\<forall>f \<in> set fs. arriving reg skip f = Some f \<Longrightarrow> List.map_filter (arriving reg skip) fs = fs" for fs
    by (induction fs) (simp_all add: map_filter_simps)
  ultimately have "List.map_filter (arriving reg skip) (m_Fields m) = m_Fields m" by blast
  then show ?thesis by (simp add: arriving_message_def)
qed

lemma decode_payload_encode:
  assumes wf: "wf_message reg m"
    and flags: "flags AND flagDeviceID = encode_flags opts m AND flagDeviceID"
      "flags AND flagTS = encode_flags opts m AND flagTS"
  shows "decode_payload reg' skip flags (encode_payload opts m) = Inr (arriving_message reg' skip (carried opts m))"
proof -
  have dev: "length (m_DeviceID m) < 2 ^ 64"
    and ts: "sint (word_of_int (UnixNano (m_Timestamp m)) :: u64) = m_Timestamp m \<or> IsZero (m_Timestamp m)"
    using wf by (auto simp: wf_message_def UnixNano_exact)
  moreover have "arriving_message reg' skip (carried opts m) =
      \<lparr>m_DeviceID = (if o_IncludeDeviceID opts then m_DeviceID m else []),
       m_Timestamp = (if o_IncludeTimestamp opts then m_Timestamp m else time_zero),
       m_Fields = List.map_filter (arriving reg' skip) (m_Fields m)\<rparr>"
    by (cases m) (simp add: carried_def arriving_message_def)
  ultimately show ?thesis
    by (auto simp: decode_payload_def encode_payload_def flags flag_bits decode_fields_encode_all [OF wf]
        IsZero_def)
qed

lemma frame_header:
  "\<not> length ([a, b, c] @ put_le 2 (fp :: u16) @ [fl, 0, 0] @ r) < frameHdrSize"
  "([a, b, c] @ put_le 2 (fp :: u16) @ [fl, 0, 0] @ r) ! 5 = fl"
  "drop frameHdrSize ([a, b, c] @ put_le 2 (fp :: u16) @ [fl, 0, 0] @ r) = r"
  by (simp_all add: frameHdrSize_def nth_append)

lemma frame_Decode_header:
  "frame_Decode reg skip ([0x57, 0x55, 0x01] @ put_le 2 (reg_fp reg') @ [flags, 0, 0] @ payload) =
     (if flags AND flagLZ4 \<noteq> 0 then
        (if length payload < 4 then Inl ErrTruncated
         else (case lz4_decompress (drop 4 payload) (unat (get_le (take 4 payload) :: u32)) of
                 Inl e \<Rightarrow> Inl e
               | Inr payload \<Rightarrow> decode_payload reg skip flags payload))
      else decode_payload reg skip flags payload)"
  unfolding frame_Decode_def frame_header Let_def by (simp add: frameHdrSize_def)

lemma reg_paths_build [simp]: "reg_paths (buildRegistry params) = sort params"
  by (simp add: buildRegistry_def Let_def)

definition ex_params :: "bytes list" where "ex_params = [[98], [97]]"

definition ex_options :: encode_options where
  "ex_options = \<lparr>o_Compress = True, o_IncludeDeviceID = True, o_IncludeTimestamp = False\<rparr>"

definition ex_message :: wmessage where
  "ex_message = \<lparr>m_DeviceID = [100], m_Timestamp = 0,
     m_Fields = [\<lparr>f_id = 1, f_Path = [97], f_Val = VList [VTrue, VIP4 [1, 2, 3, 4]]\<rparr>]\<rparr>"

lemma ex_message_ok:
  "wf_message (buildRegistry ex_params) ex_message" "length (encode_payload ex_options ex_message) = 12"
proof -
  have "PathForID (buildRegistry ex_params) 1 = Some [97]"
    by (simp add: PathForID_def ex_params_def)
  then show "wf_message (buildRegistry ex_params) ex_message"
    by (simp add: wf_message_def ex_message_def wf_field_def maxValueNesting_def)
  show "length (encode_payload ex_options ex_message) = 12"
    by (simp add: encode_payload_def ex_options_def ex_message_def writeBlob_def encodeField_def putUvarint.simps word_le_nat_alt)
qed

lemma frame_Decode_arriving:
  assumes wf: "wf_message reg m" and cap: "length (encode_payload opts m) \<le> maxDecodedPayload"
  shows "frame_Decode reg' skip (frame_Encode reg opts m) = Inr (arriving_message reg' skip (carried opts m))"
proof -
  let ?p = "encode_payload opts m" and ?r = "arriving_message reg' skip (carried opts m)"
  have plain: "frame_Decode reg' skip
      ([0x57, 0x55, 0x01] @ put_le 2 (reg_fp reg) @ [encode_flags opts m, 0, 0] @ ?p) = Inr ?r"
    unfolding frame_Decode_header using decode_payload_encode [OF wf refl refl] by (simp add: flag_bits)
  have small: "unat (of_nat (length ?p) :: u32) = length ?p"
    using cap by (simp add: maxDecodedPayload_def unat_of_nat)
  have packed: "frame_Decode reg' skip ([0x57, 0x55, 0x01] @ put_le 2 (reg_fp reg) @
      [encode_flags opts m OR flagLZ4, 0, 0] @ put_le 4 (of_nat (length ?p) :: u32) @ cp) = Inr ?r"
    if "lz4_compress ?p = Some cp" for cp
    unfolding frame_Decode_header
    using lz4_compress_decompress [OF that cap] decode_payload_encode [OF wf flag_bits(4,5)] flag_bits(6) [of opts m]
    by (simp add: get_le_put_le small)
  show ?thesis
    using plain packed by (auto simp: frame_Encode_def Let_def split: option.split)
qed

lemma frame_Decode_Encode:
  assumes wf: "wf_message reg m" and cap: "length (encode_payload opts m) \<le> maxDecodedPayload"
  shows "frame_Decode reg skip (frame_Encode reg opts m) = Inr (carried opts m)"
proof -
  have "wf_message reg (carried opts m)" using wf by (auto simp: wf_message_def carried_def IsZero_def)
  then show ?thesis using frame_Decode_arriving [OF assms, of reg skip] by (simp add: arriving_message_same)
qed

text \<open>
  C12. Decoding an encoded frame gives back the message the options carry, compressed or not, for
  every message whose fields carry the inline path or the registry id of their path, whose values
  nest at most eight lists deep and whose payload is within the 16 MiB cap.
\<close>
theorem frame_roundtrip:
  assumes "wf_message reg m" "length (encode_payload opts m) \<le> maxDecodedPayload"
  shows "frame_Decode reg skip (frame_Encode reg opts m) = Inr (carried opts m)"
  using assms by (rule frame_Decode_Encode)

theorem frame_roundtrip_witness:
  "frame_Decode (buildRegistry ex_params) True (frame_Encode (buildRegistry ex_params) ex_options ex_message) =
     Inr (ex_message\<lparr>m_Timestamp := time_zero\<rparr>)"
proof -
  have "carried ex_options ex_message = ex_message\<lparr>m_Timestamp := time_zero\<rparr>"
    by (simp add: carried_def ex_options_def)
  then show ?thesis
    using frame_roundtrip [OF ex_message_ok(1), of ex_options True] by (simp add: ex_message_ok(2) maxDecodedPayload_def)
qed

section \<open>Building messages\<close>

lemma index_of_last_Some:
  "index_of_last ps p k = Some j \<Longrightarrow> k \<le> j \<and> j < k + length ps \<and> ps ! (j - k) = p"
proof (induction ps arbitrary: k)
  case (Cons q qs)
  show ?case
  proof (cases "index_of_last qs p (Suc k)")
    case None
    with Cons.prems show ?thesis by (simp split: if_splits)
  next
    case (Some i)
    with Cons.prems Cons.IH [of "Suc k"] show ?thesis by (simp add: nth_Cons')
  qed
qed simp

lemma index_of_last_None: "index_of_last ps p k = None \<longleftrightarrow> p \<notin> set ps"
proof (induction ps arbitrary: k)
  case (Cons q qs)
  then show ?case by (cases "index_of_last qs p (Suc k)") (auto simp: Cons.IH [of "Suc k", symmetric])
qed simp

lemma IDFor_PathForID:
  assumes "length (reg_paths reg) < 65536" "IDFor reg p = Some i"
  shows "i \<noteq> 0 \<and> PathForID reg i = Some p"
proof -
  from assms(2) obtain k where k: "index_of_last (reg_paths reg) p 0 = Some k" and i: "i = of_nat (k + 1)"
    by (auto simp: IDFor_def)
  from index_of_last_Some [OF k] have "k < length (reg_paths reg)" "reg_paths reg ! k = p" by auto
  moreover from this assms(1) have "unat i = k + 1" unfolding i by (subst unat_of_nat) simp
  moreover from this have "i \<noteq> 0" by auto
  ultimately show ?thesis by (simp add: PathForID_def)
qed

lemma IDFor_build: "IDFor (buildRegistry params) p = None \<longleftrightarrow> p \<notin> set params"
  using index_of_last_None [of "sort params" p 0] by (auto simp: IDFor_def)

lemma set_field_None: "set_field fs p v = None \<longleftrightarrow> (\<forall>f \<in> set fs. f_Path f \<noteq> p)"
  by (induction fs) auto

lemma set_field_Some:
  "set_field fs p v = Some gs \<Longrightarrow>
     length gs = length fs \<and> set gs \<subseteq> set fs \<union> {f\<lparr>f_Val := v\<rparr> | f. f \<in> set fs \<and> f_Path f = p} \<and>
     map_option f_Val (find (\<lambda>f. f_Path f = q) gs) =
       (if q = p then Some v else map_option f_Val (find (\<lambda>f. f_Path f = q) fs))"
  by (induction fs arbitrary: gs) (fastforce split: if_splits)+

lemma Message_Get_find:
  "Message_Get m q = (case map_option f_Val (find (\<lambda>f. f_Path f = q) (m_Fields m)) of
     Some v \<Rightarrow> (v, True) | None \<Rightarrow> (VNull, False))"
  by (simp add: Message_Get_def split: option.split)

lemma find_append: "find P (xs @ ys) = (case find P xs of Some x \<Rightarrow> Some x | None \<Rightarrow> find P ys)"
  by (induction xs) auto

lemma Message_Get_Set:
  "Message_Get (Message_Set reg p v m) q = (if q = p then (v, True) else Message_Get m q)"
proof (cases "set_field (m_Fields m) p v")
  case None
  then have "find (\<lambda>f. f_Path f = p) (m_Fields m) = None"
    by (auto simp: set_field_None find_None_iff)
  with None show ?thesis
    by (auto simp: Message_Set_def Message_Get_def find_append split: option.splits)
next
  case (Some gs)
  from set_field_Some [OF this, of q] show ?thesis
    unfolding Message_Get_find Message_Set_def Some by simp
qed

lemma wf_message_Set:
  assumes "wf_message reg m" "length (reg_paths reg) < 65536" "Suc (length (m_Fields m)) < 2 ^ 64"
    and v: "wf_value v" "value_depth v \<le> maxValueNesting" and p: "length p < 2 ^ 64"
  shows "wf_message reg (Message_Set reg p v m)"
proof (cases "set_field (m_Fields m) p v")
  case None
  have "wf_field reg \<lparr>f_id = (case IDFor reg p of Some i \<Rightarrow> i | None \<Rightarrow> 0), f_Path = p, f_Val = v\<rparr>"
    using IDFor_PathForID [OF assms(2), of p] v p by (auto simp: wf_field_def split: option.split)
  with None assms show ?thesis
    by (auto simp: Message_Set_def wf_message_def)
next
  case (Some gs)
  from set_field_Some [OF this] have gs: "length gs = length (m_Fields m)"
    "set gs \<subseteq> set (m_Fields m) \<union> {f\<lparr>f_Val := v\<rparr> | f. f \<in> set (m_Fields m) \<and> f_Path f = p}" by auto
  have "wf_field reg (f\<lparr>f_Val := v\<rparr>)" if "wf_field reg f" for f
    using that v by (simp add: wf_field_def)
  with gs(2) assms(1) have "\<forall>f \<in> set gs. wf_field reg f"
    unfolding wf_message_def by blast
  with Some gs(1) assms(1) show ?thesis
    by (simp add: Message_Set_def wf_message_def)
qed

text \<open>
  In a registry of fewer than 65536 paths, ids and paths agree both ways: the id of a registered
  path resolves to that path, and every registered path has one; the id 0 is never assigned.
\<close>

theorem registry_ids_resolve:
  assumes "length params < 65536"
  shows "(case IDFor (buildRegistry params) p of
       Some i \<Rightarrow> p \<in> set params \<and> i \<noteq> 0 \<and> PathForID (buildRegistry params) i = Some p
     | None \<Rightarrow> p \<notin> set params)"
  using IDFor_PathForID [of "buildRegistry params" p] IDFor_build [of params p] assms
  by (auto split: option.split)

theorem registry_ids_resolve_witness:
  "\<exists>i. IDFor (buildRegistry ex_params) [98] = Some i \<and> PathForID (buildRegistry ex_params) i = Some [98]"
proof -
  have "IDFor (buildRegistry ex_params) [98] = Some 2" by (simp add: IDFor_def ex_params_def)
  then show ?thesis using registry_ids_resolve [of ex_params "[98]"] by (simp add: ex_params_def)
qed

text \<open>
  \<^verbatim>\<open>Message.Set\<close> keeps a message encodable (every field with an id that resolves to its path, or
  with its path inline) and updates exactly the path it names: \<^verbatim>\<open>Get\<close> then returns the new value
  there and what it returned before elsewhere.
\<close>

theorem message_set_get:
  assumes "wf_message (buildRegistry params) m" "length params < 65536" "Suc (length (m_Fields m)) < 2 ^ 64"
    and "wf_value v" "value_depth v \<le> maxValueNesting" "length p < 2 ^ 64"
  shows "wf_message (buildRegistry params) (Message_Set (buildRegistry params) p v m) \<and>
    Message_Get (Message_Set (buildRegistry params) p v m) q = (if q = p then (v, True) else Message_Get m q)"
  using assms by (auto intro!: wf_message_Set simp: Message_Get_Set)

theorem message_set_get_witness:
  "Message_Get (Message_Set (buildRegistry ex_params) [98] VTrue ex_message) [98] = (VTrue, True)"
  using message_set_get [OF ex_message_ok(1), of VTrue "[98]" "[98]"]
  by (simp add: ex_params_def ex_message_def maxValueNesting_def)

section \<open>Decoded messages are well-formed\<close>

lemma uvarint_loop_rest: "uvarint_loop i x bs = Inr (y, r) \<Longrightarrow> length r < length bs"
  by (induction i x bs rule: uvarint_loop.induct) (auto split: if_splits)

lemma readUvarint_rest: "readUvarint bs = Inr (y, r) \<Longrightarrow> length r < length bs"
  unfolding readUvarint_def by (rule uvarint_loop_rest)

lemma readZigzag_rest: "readZigzag bs = Inr (y, r) \<Longrightarrow> length r < length bs"
  by (auto simp: readZigzag_def dest: readUvarint_rest split: sum.splits)

lemma readN_length: "readN n bs = Inr (b, r) \<Longrightarrow> length b = n \<and> length r + n = length bs"
  by (auto simp: readN_def split: if_splits)

lemma readBlob_length: "readBlob bs = Inr (b, r) \<Longrightarrow> length b < length bs \<and> length r < length bs"
  by (auto simp: readBlob_def dest!: readUvarint_rest readN_length split: sum.splits if_splits)

lemma readByte_length: "readByte bs = Inr (b, r) \<Longrightarrow> length r < length bs"
  by (auto simp: readByte_def split: list.splits)

lemma read_into_Inr: "read_into c res = Inr (v, r) \<longleftrightarrow> (\<exists>a. res = Inr (a, r) \<and> v = c a)"
  by (auto simp: read_into_def split: sum.splits)

lemma decode_items_all:
  assumes "\<And>r v r'. \<lbrakk>f r = Inr (v, r'); length r \<le> n\<rbrakk> \<Longrightarrow> P v \<and> length r' < length r"
  shows "\<lbrakk>decode_items f k r = Inr (vs, r'); length r \<le> n\<rbrakk> \<Longrightarrow>
    length vs = k \<and> list_all P vs \<and> length r' \<le> length r"
proof (induction k arbitrary: r vs)
  case (Suc k)
  from Suc.prems(1) obtain v r1 vs1 where v: "f r = Inr (v, r1)"
    and vs: "decode_items f k r1 = Inr (vs1, r')" "vs = v # vs1"
    by (auto split: sum.splits)
  have "P v \<and> length r1 < length r" using assms v Suc.prems(2) by blast
  with Suc.IH [OF vs(1)] Suc.prems(2) vs(2) show ?case by auto
qed simp

definition decoded_ok :: "nat \<Rightarrow> wvalue \<Rightarrow> bool" where
  "decoded_ok depth v \<longleftrightarrow> wf_value v \<and> value_depth v + depth \<le> maxValueNesting"

lemma decodeValue_ok:
  "\<lbrakk>decodeValue r depth = Inr (v, r'); length r < 2 ^ 64; depth \<le> maxValueNesting\<rbrakk> \<Longrightarrow>
     decoded_ok depth v \<and> length r' < length r"
proof (induction r depth arbitrary: v r' rule: decodeValue.induct)
  case (1 r depth)
  from "1.prems"(1) obtain tag r1 where hd: "readByte r = Inr (tag, r1)"
    by (subst (asm) decodeValue.simps) (auto split: sum.splits)
  have r1: "length r1 < length r" using hd by (rule readByte_length)
  show ?case
  proof (cases "tag = 0x0E")
    case False
    with "1.prems" hd r1 show ?thesis
      by (subst (asm) decodeValue.simps)
        (auto simp: read_into_Inr decoded_ok_def split: if_splits
          dest!: readUvarint_rest readZigzag_rest readBlob_length readN_length)
  next
    case list: True
    from "1.prems"(1) hd list obtain cnt r2 vs where cnt: "readUvarint r1 = Inr (cnt, r2)"
      and ok: "unat cnt \<le> length r2" "depth < maxValueNesting"
      and vs: "decode_items (\<lambda>r. decodeValue r (Suc depth)) (unat cnt) r2 = Inr (vs, r')" "v = VList vs"
      by (subst (asm) decodeValue.simps) (auto simp: read_into_Inr not_less not_le split: sum.splits if_splits)
    have r2: "length r2 < length r1" using cnt by (rule readUvarint_rest)
    have each: "decoded_ok (Suc depth) w \<and> length s' < length s"
      if "decodeValue s (Suc depth) = Inr (w, s')" "length s \<le> length r2" for s w s'
      using "1.IH" [of "(tag, r1)" tag r1 "(cnt, r2)" cnt r2 s w s'] hd list cnt ok that r1 r2 "1.prems"(2)
      by simp
    have items: "length vs = unat cnt \<and> list_all (decoded_ok (Suc depth)) vs \<and> length r' \<le> length r2"
      using decode_items_all [of "\<lambda>r. decodeValue r (Suc depth)" "length r2" "decoded_ok (Suc depth)"]
        each vs(1) by blast
    then have "value_depth (VList vs) \<le> maxValueNesting - depth"
      unfolding value_depth_list using ok by (auto simp: list_all_iff decoded_ok_def)
    moreover have "length vs < 2 ^ 64"
      using items unsigned_less [of cnt, where 'a = nat] by simp
    ultimately show ?thesis
      using items vs(2) r1 r2 ok(2) by (auto simp: decoded_ok_def list_all_iff)
  qed
qed

lemma decodeField_ok:
  assumes "decodeField reg True r = Inr (fo, r')" "length r < 2 ^ 64"
  shows "pred_option (wf_field reg) fo \<and> length r' < length r"
  using assms
  by (auto simp: decodeField_def wf_field_def Let_def decoded_ok_def
      dest!: readUvarint_rest readBlob_length decodeValue_ok split: sum.splits option.splits if_splits)

lemma set_map_filter_id: "set (List.map_filter id xs) = {x. Some x \<in> set xs}"
  by (induction xs) (auto simp: map_filter_simps split: option.splits)

lemma length_map_filter: "length (List.map_filter f xs) \<le> length xs"
  by (induction xs) (auto simp: map_filter_simps split: option.splits)

lemma decode_fields_ok:
  assumes "decode_fields reg True dev ts r = Inr m" "length r < 2 ^ 64" "length dev < 2 ^ 64"
    and "IsZero ts \<or> (- (2 ^ 63) \<le> ts \<and> ts < 2 ^ 63)"
  shows "wf_message reg m"
proof -
  from assms(1) obtain count r1 fs r2 where c: "readUvarint r = Inr (count, r1)"
    and fs: "decode_items (decodeField reg True) (unat count) r1 = Inr (fs, r2)"
    and m: "m = \<lparr>m_DeviceID = dev, m_Timestamp = ts, m_Fields = List.map_filter id fs\<rparr>"
    by (auto simp: decode_fields_def split: sum.splits if_splits)
  have "length r1 < length r" using c by (rule readUvarint_rest)
  then have "length fs = unat count \<and> list_all (pred_option (wf_field reg)) fs"
    using decode_items_all [of "decodeField reg True" "length r1", OF decodeField_ok fs] assms(2) by auto
  then show ?thesis
    using assms(3,4) length_map_filter [of id fs] unsigned_less [of count, where 'a = nat]
    by (auto simp: m wf_message_def set_map_filter_id list_all_iff)
qed

lemma decode_payload_ok:
  assumes "decode_payload reg True flags payload = Inr m" "length payload < 2 ^ 64"
  shows "wf_message reg m"
proof -
  from assms obtain dev r ts r' where
    dev: "(if flags AND flagDeviceID \<noteq> 0 then readBlob payload else Inr ([], payload)) = Inr (dev, r)"
    and ts: "(if flags AND flagTS \<noteq> 0
       then (case readZigzag r of Inl e \<Rightarrow> Inl e | Inr (ns, r) \<Rightarrow> Inr (sint ns, r))
       else Inr (time_zero, r)) = Inr (ts, r')"
    and fields: "decode_fields reg True dev ts r' = Inr m"
    unfolding decode_payload_def by (auto split: sum.splits)
  have "length dev < 2 ^ 64 \<and> length r \<le> length payload"
    using dev assms(2) by (auto split: if_splits dest: readBlob_length)
  moreover have "length r' \<le> length r"
    using ts by (auto split: if_splits sum.splits dest: readZigzag_rest)
  moreover have "IsZero ts \<or> (- (2 ^ 63) \<le> ts \<and> ts < 2 ^ 63)"
  proof -
    have "- (2 ^ 63) \<le> sint ns \<and> sint ns < 2 ^ 63" for ns :: u64
      using sint_ge [of ns] sint_lt [of ns] by simp
    with ts show ?thesis by (auto split: if_splits sum.splits simp: IsZero_def)
  qed
  ultimately show ?thesis
    using decode_fields_ok [OF fields] assms(2) by simp
qed

text \<open>
  C29. Whatever bytes arrive, a frame that decodes (unknown ids skipped, as \<^verbatim>\<open>safeDecoder\<close> does) gives a
  well-formed message: every field has an id that resolves to its path or an inline path, fixed-size
  values have their size, and no value nests more than eight lists deep; so what was decoded can be
  encoded and decoded again.
\<close>

theorem frame_decode_wf:
  assumes "frame_Decode reg True data = Inr m" "length data < 2 ^ 64"
  shows "wf_message reg m"
proof -
  have lz: "length p < 2 ^ 64" if "lz4_decompress s n = Inr p" for s n p
    using lz4_decompress_size [OF that] by (simp add: maxDecodedPayload_def)
  from assms show ?thesis
    by (auto simp: frame_Decode_def Let_def split: if_splits sum.splits
        intro: lz decode_payload_ok)
qed

theorem frame_decode_wf_witness:
  "\<exists>m. frame_Decode (buildRegistry ex_params) True [0x57, 0x55, 0x01, 0, 0, 0, 0, 0, 1, 2, 2] = Inr m \<and>
     m_Fields m = [\<lparr>f_id = 2, f_Path = [98], f_Val = VTrue\<rparr>] \<and> wf_message (buildRegistry ex_params) m"
proof -
  have p: "PathForID (buildRegistry ex_params) 2 = Some [98]"
    by (simp add: PathForID_def ex_params_def)
  have run: "frame_Decode (buildRegistry ex_params) True [0x57, 0x55, 0x01, 0, 0, 0, 0, 0, 1, 2, 2] =
     Inr \<lparr>m_DeviceID = [], m_Timestamp = time_zero, m_Fields = [\<lparr>f_id = 2, f_Path = [98], f_Val = VTrue\<rparr>]\<rparr>"
    by (simp add: frame_Decode_def frameHdrSize_def decode_payload_def decode_fields_def readUvarint_def
      decodeField_def p decodeValue.simps map_filter_simps)
  from frame_decode_wf [OF run] run show ?thesis by simp
qed

section \<open>Changing the schema\<close>

lemma insort_before: "\<lbrakk>sorted xs; k < length xs; xs ! k < p\<rbrakk> \<Longrightarrow> insort p xs ! k = xs ! k"
proof (induction xs arbitrary: k)
  case (Cons x xs)
  have "x < p" using Cons.prems sorted_nth_mono [OF Cons.prems(1), of 0 k] by auto
  then show ?case using Cons by (cases k) auto
qed simp

lemma insort_after: "\<lbrakk>sorted xs; k < length xs; p < xs ! k\<rbrakk> \<Longrightarrow> insort p xs ! Suc k = xs ! k"
proof (induction xs arbitrary: k)
  case (Cons x xs)
  then show ?case by (cases k) auto
qed simp

text \<open>A path that is added to the schema takes the place of the next one, which moves on.\<close>

lemma added_path:
  assumes "distinct (p # params)" "PathForID (buildRegistry params) i = Some q"
  shows "\<exists>q'. PathForID (buildRegistry (p # params)) i = Some q' \<and> (if p < q then q' < q else q' = q)"
proof -
  let ?xs = "sort params" and ?k = "unat i - 1"
  have i: "i \<noteq> 0" "?k < length ?xs" "q = ?xs ! ?k" "unat i \<le> length params"
    using assms(2) unat_gt_0 [of i] by (auto simp: PathForID_def split: if_splits)
  have new: "PathForID (buildRegistry (p # params)) i = Some (insort p ?xs ! ?k)"
    using i by (auto simp: PathForID_def)
  have ys: "sorted_wrt (<) (insort p ?xs)" using assms(1) by (simp add: strict_sorted_iff distinct_insort sorted_insort)
  show ?thesis
  proof (cases "p < q")
    case True
    then have "insort p ?xs ! Suc ?k = q" using insort_after [of ?xs ?k p] i by simp
    moreover have "insort p ?xs ! ?k < insort p ?xs ! Suc ?k"
      using sorted_wrt_nth_less [OF ys, of ?k "Suc ?k"] i(2) by simp
    ultimately show ?thesis using True new by simp
  next
    case False
    have "q \<in> set params" using i(2,3) nth_mem [of ?k ?xs] by simp
    then have "q < p" using False assms(1) by (cases rule: linorder_cases [of p q]) auto
    then show ?thesis using False new insort_before [of ?xs ?k p] i by simp
  qed
qed

text \<open>
  C40. Field ids are positions in the sorted list of paths, and the decoder does not compare the schema fingerprint of the
  frame with its own. When a frame is encoded under one schema and decoded under the schema with one more path,
  decoding succeeds for every message, and every field with an id whose path lies after the added one is delivered with its value under another
  path, one that comes earlier in the schema; the other fields arrive as they were sent.
\<close>
theorem schema_change_misroutes:
  assumes "distinct (p # params)" "wf_message (buildRegistry params) m" "length (encode_payload opts m) \<le> maxDecodedPayload"
  shows "\<exists>m'. frame_Decode (buildRegistry (p # params)) True (frame_Encode (buildRegistry params) opts m) = Inr m' \<and>
    length (m_Fields m') = length (m_Fields m) \<and>
    (\<forall>k < length (m_Fields m). let f = m_Fields m ! k; f' = m_Fields m' ! k in
       f_id f' = f_id f \<and> f_Val f' = f_Val f \<and> (if f_id f \<noteq> 0 \<and> p < f_Path f then f_Path f' < f_Path f else f_Path f' = f_Path f))"
proof -
  let ?reg = "buildRegistry (p # params)"
  define g where "g f = the (arriving ?reg True f)" for f
  have each: "arriving ?reg True f = Some (g f) \<and> f_id (g f) = f_id f \<and> f_Val (g f) = f_Val f \<and>
      (if f_id f \<noteq> 0 \<and> p < f_Path f then f_Path (g f) < f_Path f else f_Path (g f) = f_Path f)" if "f \<in> set (m_Fields m)" for f
  proof (cases "f_id f = 0")
    case True
    then show ?thesis by (simp add: g_def arriving_def)
  next
    case False
    then have "PathForID (buildRegistry params) (f_id f) = Some (f_Path f)"
      using assms(2) that by (auto simp: wf_message_def wf_field_def)
    from added_path [OF assms(1) this] False show ?thesis by (auto simp: g_def arriving_def split: if_splits)
  qed
  then have "List.map_filter (arriving ?reg True) (m_Fields m) = map g (m_Fields m)"
    by (induction "m_Fields m" arbitrary: m) (auto simp: map_filter_def)
  moreover have "frame_Decode ?reg True (frame_Encode (buildRegistry params) opts m) = Inr (arriving_message ?reg True (carried opts m))"
    by (rule frame_Decode_arriving [OF assms(2,3)])
  ultimately show ?thesis using each by (auto simp: arriving_message_def carried_def Let_def)
qed

theorem schema_change_misroutes_witness:
  "\<exists>m'. frame_Decode (buildRegistry [[98], [97], [99]]) True (frame_Encode (buildRegistry [[97], [99]])
       \<lparr>o_Compress = False, o_IncludeDeviceID = False, o_IncludeTimestamp = False\<rparr>
       \<lparr>m_DeviceID = [], m_Timestamp = time_zero, m_Fields = [\<lparr>f_id = 2, f_Path = [99], f_Val = VTrue\<rparr>]\<rparr>) = Inr m' \<and>
     f_Path (m_Fields m' ! 0) < [99]"
proof -
  let ?m = "\<lparr>m_DeviceID = [], m_Timestamp = time_zero, m_Fields = [\<lparr>f_id = 2, f_Path = [99], f_Val = VTrue\<rparr>]\<rparr>"
  let ?opts = "\<lparr>o_Compress = False, o_IncludeDeviceID = False, o_IncludeTimestamp = False\<rparr>"
  have "PathForID (buildRegistry [[97], [99]]) 2 = Some [99]" by (simp add: PathForID_def)
  then have wf: "wf_message (buildRegistry [[97], [99]]) ?m" by (simp add: wf_message_def wf_field_def IsZero_def)
  have cap: "length (encode_payload ?opts ?m) \<le> maxDecodedPayload"
    by (simp add: encode_payload_def encodeField_def putUvarint.simps word_le_nat_alt maxDecodedPayload_def)
  show ?thesis using schema_change_misroutes [OF _ wf cap, of "[98]"] by (auto simp: Let_def)
qed

end
