(* ===== verification/Go_Strings.thy ===== *)
theory Go_Strings
  imports Wan_Prelude "HOL-Library.List_Lexorder"
begin

text \<open>
  What the WUSP packages use of Go's \<^verbatim>\<open>strings\<close>, \<^verbatim>\<open>strconv\<close> and maps. A Go string is its bytes. A map from
  strings to strings is its association list in strictly increasing key order, the order in which the
  transport writes it, so that equal maps are equal lists; a nil map is the empty list.
\<close>

definition ascii :: "string \<Rightarrow> bytes" where
  "ascii s = map of_char s"

lemma ascii_simps [simp]: "ascii [] = []" "ascii (c # s) = of_char c # ascii s"
  by (simp_all add: ascii_def)

section \<open>Trimming\<close>

text \<open>
  \<^verbatim>\<open>strings.TrimSpace\<close> removes the characters of \<^verbatim>\<open>unicode.IsSpace\<close> at both ends; these are their UTF-8
  encodings.
\<close>

definition unicode_spaces :: "bytes list" where
  "unicode_spaces =
     [[0x09], [0x0A], [0x0B], [0x0C], [0x0D], [0x20], [0xC2, 0x85], [0xC2, 0xA0], [0xE1, 0x9A, 0x80],
      [0xE2, 0x80, 0x80], [0xE2, 0x80, 0x81], [0xE2, 0x80, 0x82], [0xE2, 0x80, 0x83], [0xE2, 0x80, 0x84],
      [0xE2, 0x80, 0x85], [0xE2, 0x80, 0x86], [0xE2, 0x80, 0x87], [0xE2, 0x80, 0x88], [0xE2, 0x80, 0x89],
      [0xE2, 0x80, 0x8A], [0xE2, 0x80, 0xA8], [0xE2, 0x80, 0xA9], [0xE2, 0x80, 0xAF], [0xE2, 0x81, 0x9F],
      [0xE3, 0x80, 0x80]]"

definition starts_with :: "bytes \<Rightarrow> bytes \<Rightarrow> bool" where
  "starts_with s p = (take (length p) s = p)"

definition ends_with :: "bytes \<Rightarrow> bytes \<Rightarrow> bool" where
  "ends_with s p = (length p \<le> length s \<and> drop (length s - length p) s = p)"

function trim_prefixes :: "bytes list \<Rightarrow> bytes \<Rightarrow> bytes" where
  "trim_prefixes ps s =
     (case find (\<lambda>p. p \<noteq> [] \<and> starts_with s p) ps of None \<Rightarrow> s
      | Some p \<Rightarrow> trim_prefixes ps (drop (length p) s))"
  by pat_completeness auto
termination
proof (relation "measure (\<lambda>(ps, s). length s)", goal_cases)
  case (2 ps s p)
  then have "p \<noteq> []" "take (length p) s = p" by (auto simp: find_Some_iff starts_with_def)
  then have "0 < length p" "length p \<le> length s" by (simp, metis length_take min.absorb_iff2 min.commute)
  then show ?case by (cases "length s") auto
qed simp

declare trim_prefixes.simps [simp del]

definition TrimSpace :: "bytes \<Rightarrow> bytes" where
  "TrimSpace s = rev (trim_prefixes (map rev unicode_spaces) (rev (trim_prefixes unicode_spaces s)))"

text \<open>A string that starts and ends with a visible ASCII character has nothing to trim.\<close>

definition visible :: "byte \<Rightarrow> bool" where
  "visible b \<longleftrightarrow> 0x21 \<le> b \<and> b \<le> 0x7E"

definition plain :: "bytes \<Rightarrow> bool" where
  "plain s \<longleftrightarrow> s \<noteq> [] \<and> visible (hd s) \<and> visible (last s)"

lemma trim_prefixes_stop: "(\<And>p. p \<in> set ps \<Longrightarrow> p \<noteq> [] \<Longrightarrow> \<not> starts_with s p) \<Longrightarrow> trim_prefixes ps s = s"
  by (subst trim_prefixes.simps) (auto simp: find_None_iff split: option.split dest!: find_SomeD)

lemma not_visible_heads:
  "\<forall>p \<in> set unicode_spaces. p \<noteq> [] \<and> \<not> visible (hd p) \<and> \<not> visible (last p)"
  by (simp add: unicode_spaces_def visible_def word_le_nat_alt)

lemma starts_with_hd: "\<lbrakk>starts_with s p; p \<noteq> []\<rbrakk> \<Longrightarrow> s \<noteq> [] \<and> hd s = hd p"
  by (cases s; cases p) (auto simp: starts_with_def)

lemma TrimSpace_plain [simp]: "plain s \<Longrightarrow> TrimSpace s = s"
proof -
  assume s: "plain s"
  have left: "trim_prefixes unicode_spaces s = s"
    using s not_visible_heads starts_with_hd by (intro trim_prefixes_stop) (metis plain_def)
  have "\<not> starts_with (rev s) (rev p)" if "p \<in> set unicode_spaces" for p
    using starts_with_hd [of "rev s" "rev p"] that s not_visible_heads by (auto simp: plain_def hd_rev)
  then have "trim_prefixes (map rev unicode_spaces) (rev s) = rev s"
    by (intro trim_prefixes_stop) auto
  then show ?thesis by (simp add: TrimSpace_def left)
qed

lemma TrimSpace_Nil [simp]: "TrimSpace [] = []"
proof -
  have "trim_prefixes ps [] = []" for ps
    by (rule trim_prefixes_stop) (simp add: starts_with_def)
  then show ?thesis by (simp add: TrimSpace_def)
qed

section \<open>Searching and splitting\<close>

fun contains :: "bytes \<Rightarrow> bytes \<Rightarrow> bool" where
  "contains [] p = (p = [])"
| "contains (x # s) p = (starts_with (x # s) p \<or> contains s p)"

text \<open>\<^verbatim>\<open>strings.Split\<close> and \<^verbatim>\<open>strings.Cut\<close> with a one-byte separator, and \<^verbatim>\<open>strings.Join\<close>.\<close>

fun split_on :: "byte \<Rightarrow> bytes \<Rightarrow> bytes list" where
  "split_on c [] = [[]]"
| "split_on c (x # s) =
     (if x = c then [] # split_on c s
      else case split_on c s of [] \<Rightarrow> [[x]] | p # ps \<Rightarrow> (x # p) # ps)"

definition cut_on :: "byte \<Rightarrow> bytes \<Rightarrow> bytes \<times> bytes \<times> bool" where
  "cut_on c s =
     (let a = takeWhile (\<lambda>b. b \<noteq> c) s in
      if a = s then (s, [], False) else (a, drop (Suc (length a)) s, True))"

fun join_on :: "byte \<Rightarrow> bytes list \<Rightarrow> bytes" where
  "join_on c [] = []"
| "join_on c [p] = p"
| "join_on c (p # q # ps) = p @ c # join_on c (q # ps)"

lemma split_on_nonempty [simp]: "split_on c s \<noteq> []"
  by (induction s) (auto split: list.split)

lemma split_on_append: "c \<notin> set p \<Longrightarrow> split_on c (p @ c # s) = p # split_on c s"
  by (induction p) auto

lemma split_on_self: "c \<notin> set p \<Longrightarrow> split_on c p = [p]"
  by (induction p) auto

lemma split_join: "\<lbrakk>ps \<noteq> []; \<forall>p \<in> set ps. c \<notin> set p\<rbrakk> \<Longrightarrow> split_on c (join_on c ps) = ps"
  by (induction c ps rule: join_on.induct) (simp_all add: split_on_append split_on_self)

lemma join_on_ends:
  "\<lbrakk>ps \<noteq> []; [] \<notin> set ps\<rbrakk> \<Longrightarrow> join_on c ps \<noteq> [] \<and> hd (join_on c ps) = hd (hd ps) \<and> last (join_on c ps) = last (last ps)"
  by (induction c ps rule: join_on.induct) (auto simp: hd_append)

lemma cut_on_found: "c \<notin> set a \<Longrightarrow> cut_on c (a @ c # s) = (a, s, True)"
  by (simp add: cut_on_def takeWhile_append takeWhile_eq_all_conv)

lemma cut_on_missing: "c \<notin> set s \<Longrightarrow> cut_on c s = (s, [], False)"
  by (auto simp: cut_on_def Let_def takeWhile_eq_all_conv)

section \<open>Decimal numbers\<close>

fun nat_digits :: "nat \<Rightarrow> bytes" where
  "nat_digits n = (if n < 10 then [of_nat (48 + n)] else nat_digits (n div 10) @ [of_nat (48 + n mod 10)])"

declare nat_digits.simps [simp del]

definition is_digit :: "byte \<Rightarrow> bool" where
  "is_digit b \<longleftrightarrow> 0x30 \<le> b \<and> b \<le> 0x39"

definition digits_value :: "bytes \<Rightarrow> nat" where
  "digits_value s = foldl (\<lambda>n b. n * 10 + (unat b - 48)) 0 s"

text \<open>\<^verbatim>\<open>strconv.ParseUint\<close> in base ten; any error is \<open>None\<close>.\<close>

definition ParseUint :: "nat \<Rightarrow> bytes \<Rightarrow> nat option" where
  "ParseUint bits s =
     (if s = [] \<or> \<not> list_all is_digit s \<or> 2 ^ bits \<le> digits_value s then None else Some (digits_value s))"

lemma unat_digit: "n < 10 \<Longrightarrow> unat (of_nat (48 + n) :: byte) = 48 + n"
  by (rule unat_of_nat_small) simp

lemma is_digit_of_nat: "n < 10 \<Longrightarrow> is_digit (of_nat (48 + n))"
  using unat_digit [of n] by (simp add: is_digit_def word_le_nat_alt)

lemma digits_value_snoc: "digits_value (s @ [b]) = digits_value s * 10 + (unat b - 48)"
  by (simp add: digits_value_def)

lemma nat_digits_ok: "nat_digits n \<noteq> [] \<and> list_all is_digit (nat_digits n) \<and> digits_value (nat_digits n) = n"
proof (induction n rule: nat_digits.induct)
  case (1 n)
  show ?case
  proof (cases "n < 10")
    case True
    then show ?thesis
      using is_digit_of_nat [of n] unat_digit [of n] by (simp add: nat_digits.simps [of n] digits_value_def)
  next
    case False
    then show ?thesis
      using 1 is_digit_of_nat [of "n mod 10"] unat_digit [of "n mod 10"]
      by (simp add: nat_digits.simps [of n] digits_value_snoc)
  qed
qed

lemma ParseUint_digits [simp]: "n < 2 ^ bits \<Longrightarrow> ParseUint bits (nat_digits n) = Some n"
  using nat_digits_ok [of n] by (simp add: ParseUint_def)

lemma digit_visible: "is_digit b \<Longrightarrow> visible b"
  by (auto simp: is_digit_def visible_def word_le_nat_alt)

lemma nat_digits_plain: "plain (nat_digits n)"
  using nat_digits_ok [of n] by (auto simp: plain_def list_all_iff digit_visible)

lemma nat_digits_only: "\<not> is_digit c \<Longrightarrow> c \<notin> set (nat_digits n)"
  using nat_digits_ok [of n] by (auto simp: list_all_iff)

section \<open>String maps\<close>

type_synonym metadata = "(bytes \<times> bytes) list"

fun md_put :: "bytes \<Rightarrow> 'v \<Rightarrow> (bytes \<times> 'v) list \<Rightarrow> (bytes \<times> 'v) list" where
  "md_put k v [] = [(k, v)]"
| "md_put k v ((k', v') # m) =
     (if k < k' then (k, v) # (k', v') # m else if k = k' then (k, v) # m else (k', v') # md_put k v m)"

definition md_delete :: "bytes \<Rightarrow> (bytes \<times> 'v) list \<Rightarrow> (bytes \<times> 'v) list" where
  "md_delete k m = filter (\<lambda>e. fst e \<noteq> k) m"

text \<open>A missing key reads as the empty string.\<close>

definition md_get :: "metadata \<Rightarrow> bytes \<Rightarrow> bytes" where
  "md_get m k = (case map_of m k of None \<Rightarrow> [] | Some v \<Rightarrow> v)"

definition md_ok :: "(bytes \<times> 'v) list \<Rightarrow> bool" where
  "md_ok m = sorted_wrt (<) (map fst m)"

lemma md_ok_Nil [simp]: "md_ok []"
  by (simp add: md_ok_def)

lemma md_put_keys: "fst ` set (md_put k v m) = insert k (fst ` set m)"
  by (induction k v m rule: md_put.induct) auto

lemma md_put_ok [simp]: "md_ok m \<Longrightarrow> md_ok (md_put k v m)"
proof (induction m)
  case (Cons e m)
  obtain k' v' where e: "e = (k', v')" by fastforce
  have "md_ok m" using Cons.prems by (simp add: md_ok_def)
  moreover have "\<forall>x \<in> fst ` set (md_put k v m). k' < x" if "k' < k"
    unfolding md_put_keys using Cons.prems that by (auto simp: md_ok_def e)
  ultimately show ?case
    using Cons by (auto simp: e md_ok_def image_iff not_less order_le_less)
qed (simp add: md_ok_def)

lemma map_of_md_put: "map_of (md_put k v m) q = (if q = k then Some v else map_of m q)"
  by (induction m) auto

lemma map_of_md_delete: "map_of (md_delete k m) q = (if q = k then None else map_of m q)"
  by (induction m) (auto simp: md_delete_def)

lemma md_get_put [simp]: "md_get (md_put k v m) q = (if q = k then v else md_get m q)"
  by (simp add: md_get_def map_of_md_put)

lemma md_get_delete [simp]: "md_get (md_delete k m) q = (if q = k then [] else md_get m q)"
  by (simp add: md_get_def map_of_md_delete)

lemma md_ok_distinct: "md_ok m \<Longrightarrow> distinct (map fst m)"
  by (auto simp: md_ok_def strict_sorted_iff)

text \<open>A map is determined by its lookups.\<close>

lemma md_eqI:
  assumes "md_ok m" "md_ok m'" "\<And>k. map_of m k = map_of m' k" shows "m = m'"
proof (rule map_sorted_distinct_set_unique [where f = fst])
  show *: "sorted (map fst m)" "distinct (map fst m)" "sorted (map fst m')" "distinct (map fst m')"
    using assms(1,2) by (auto simp: md_ok_def strict_sorted_iff)
  have "map_of m = map_of m'" using assms(3) by blast
  then show set: "set m = set m'" using * map_of_inject_set by blast
  show "inj_on fst (set m \<union> set m')" using *(2) by (simp add: set [symmetric] distinct_map)
qed

lemma md_delete_ok [simp]: "md_ok m \<Longrightarrow> md_ok (md_delete k m)"
  by (induction m) (auto simp: md_ok_def md_delete_def)

lemma md_put_last: "\<forall>e \<in> set m. fst e < k \<Longrightarrow> md_put k v m = m @ [(k, v)]"
  by (induction m) auto

lemma md_rebuild: "md_ok (acc @ m) \<Longrightarrow> foldl (\<lambda>m (k, v). md_put k v m) acc m = acc @ m"
proof (induction m arbitrary: acc)
  case (Cons e m)
  obtain k v where e: "e = (k, v)" by fastforce
  have "md_put k v acc = acc @ [e]"
    using Cons.prems by (intro md_put_last [of acc k v, folded e]) (auto simp: md_ok_def sorted_wrt_append e)
  then show ?case using Cons.IH [of "acc @ [e]"] Cons.prems by (simp add: e)
qed simp

end
