(* ===== verification/Control_Fragments.thy ===== *)
theory Control_Fragments
  imports LZ4 "HOL-Library.Multiset"
begin

text \<open>
  Control message fragmentation of \<^verbatim>\<open>internal/wusp/control_fragments.go\<close>: splitting a control payload
  into datagrams, the 23-byte fragment header, its validation, and reassembly from fragments that
  arrive in any order. Errors are values of \<open>usp_error\<close>; a nil slice is the empty list.
\<close>

datatype usp_error =
    ValidationError string
  | ErrUSPTransportMalformed string
  | ErrUSPTransportUnsupported byte
  | ErrDecompress wusp_error

definition WUSPMaxDatagramPayload :: int where "WUSPMaxDatagramPayload = 1200"
definition uspControlFragmentVersion :: byte where "uspControlFragmentVersion = 1"
definition uspControlFragmentMagic :: byte where "uspControlFragmentMagic = 0x54"
definition uspControlFragmentHeaderSize :: nat where "uspControlFragmentHeaderSize = 23"
definition MaxUSPControlMessageSize :: nat where "MaxUSPControlMessageSize = 16777216"
definition MaxUSPControlFragmentCount :: nat where "MaxUSPControlFragmentCount = 65536"

record usp_fragment =
  fr_MessageID :: u64
  fr_Index :: u32
  fr_Count :: u32
  fr_RawSize :: u32
  fr_Compressed :: bool
  fr_Data :: bytes

definition validateUSPControlFragment :: "usp_fragment \<Rightarrow> usp_error option" where
  "validateUSPControlFragment f =
     (if fr_MessageID f = 0 then Some (ValidationError ''control fragment message id required'')
      else if fr_Count f = 0 then Some (ValidationError ''control fragment count required'')
      else if MaxUSPControlFragmentCount < unat (fr_Count f)
        then Some (ValidationError ''control fragment count too large'')
      else if MaxUSPControlMessageSize < unat (fr_RawSize f)
        then Some (ValidationError ''control fragment raw size too large'')
      else if fr_Count f \<le> fr_Index f
        then Some (ValidationError ''control fragment index out of range'')
      else if fr_Data f = [] then Some (ValidationError ''control fragment missing payload'')
      else if fr_Compressed f \<and> fr_RawSize f = 0
        then Some (ValidationError ''compressed control fragment missing raw size'')
      else None)"

definition EncodeUSPControlFragment :: "usp_fragment \<Rightarrow> usp_error + bytes" where
  "EncodeUSPControlFragment f =
     (case validateUSPControlFragment f of Some e \<Rightarrow> Inl e
      | None \<Rightarrow>
        Inr ([uspControlFragmentMagic, uspControlFragmentVersion, if fr_Compressed f then 1 else 0] @
             put_le 8 (fr_MessageID f) @ put_le 4 (fr_Index f) @ put_le 4 (fr_Count f) @
             put_le 4 (fr_RawSize f) @ fr_Data f))"

datatype decoded_fragment = NotFragment | FragmentError usp_error | Fragment usp_fragment

definition DecodeUSPControlFragment :: "bytes \<Rightarrow> decoded_fragment" where
  "DecodeUSPControlFragment d =
     (if d = [] \<or> d ! 0 \<noteq> uspControlFragmentMagic then NotFragment
      else if length d < uspControlFragmentHeaderSize
        then FragmentError (ErrUSPTransportMalformed ''control fragment payload too short'')
      else if d ! 1 \<noteq> uspControlFragmentVersion then FragmentError (ErrUSPTransportUnsupported (d ! 1))
      else let f =
          \<lparr>fr_MessageID = get_le (slice 3 11 d), fr_Index = get_le (slice 11 15 d),
           fr_Count = get_le (slice 15 19 d), fr_RawSize = get_le (slice 19 23 d),
           fr_Compressed = (d ! 2 AND 1 \<noteq> 0), fr_Data = drop 23 d\<rparr>
        in case validateUSPControlFragment f of Some e \<Rightarrow> FragmentError e | None \<Rightarrow> Fragment f)"

text \<open>Compression of control payloads is switched off in the source; decompression is not.\<close>

definition compressUSPControlPayload :: "bytes \<Rightarrow> bytes option" where
  "compressUSPControlPayload d = None"

definition decompressUSPControlPayload :: "bytes \<Rightarrow> nat \<Rightarrow> usp_error + bytes" where
  "decompressUSPControlPayload d rawSize =
     (case lz4_decompress d rawSize of Inl e \<Rightarrow> Inl (ErrDecompress e) | Inr r \<Rightarrow> Inr r)"

fun encode_frames :: "usp_fragment list \<Rightarrow> usp_error + bytes list" where
  "encode_frames [] = Inr []"
| "encode_frames (f # fs) =
     (case EncodeUSPControlFragment f of Inl e \<Rightarrow> Inl e
      | Inr frame \<Rightarrow> (case encode_frames fs of Inl e \<Rightarrow> Inl e | Inr frames \<Rightarrow> Inr (frame # frames)))"

text \<open>
  The fragments of the loop of \<^verbatim>\<open>FragmentUSPControlPayload\<close>, for \<open>index\<close> from 0 below the \<^verbatim>\<open>uint32\<close>
  count.
\<close>

definition control_fragments :: "bytes \<Rightarrow> u64 \<Rightarrow> u32 \<Rightarrow> bool \<Rightarrow> nat \<Rightarrow> usp_fragment list" where
  "control_fragments wire mid rawSize compressed fps =
     (let n = of_nat ((length wire + fps - 1) div fps) :: u32;
          count = (if n = 0 then 1 else n)
      in map (\<lambda>i. \<lparr>fr_MessageID = mid, fr_Index = of_nat i, fr_Count = count, fr_RawSize = rawSize,
                    fr_Compressed = compressed,
                    fr_Data = slice (i * fps) (min (i * fps + fps) (length wire)) wire\<rparr>)
           [0..<unat count])"

definition fragment_payload_size :: "int \<Rightarrow> nat" where
  "fragment_payload_size maxDatagramPayload =
     nat ((if maxDatagramPayload < int uspControlFragmentHeaderSize + 1 then WUSPMaxDatagramPayload
           else maxDatagramPayload) - int uspControlFragmentHeaderSize)"

definition FragmentUSPControlPayload :: "bytes \<Rightarrow> u64 \<Rightarrow> int \<Rightarrow> usp_error + bytes list" where
  "FragmentUSPControlPayload payload mid maxDatagramPayload =
     (if payload = [] then Inl (ValidationError ''control payload missing bytes'')
      else if mid = 0 then Inl (ValidationError ''control fragment message id required'')
      else let fps = fragment_payload_size maxDatagramPayload in
        (case compressUSPControlPayload payload of
           Some wire \<Rightarrow> encode_frames (control_fragments wire mid (of_nat (length payload)) True fps)
         | None \<Rightarrow> encode_frames (control_fragments payload mid 0 False fps)))"

fun order_fragments ::
    "usp_fragment \<Rightarrow> usp_fragment list \<Rightarrow> bytes list \<Rightarrow> nat \<Rightarrow> usp_error + (bytes list \<times> nat)" where
  "order_fragments first [] ordered totalSize = Inr (ordered, totalSize)"
| "order_fragments first (f # fs) ordered totalSize =
     (case validateUSPControlFragment f of Some e \<Rightarrow> Inl e
      | None \<Rightarrow>
        if fr_MessageID f \<noteq> fr_MessageID first \<or> fr_Count f \<noteq> fr_Count first \<or>
           fr_Compressed f \<noteq> fr_Compressed first \<or> fr_RawSize f \<noteq> fr_RawSize first
        then Inl (ErrUSPTransportMalformed ''mixed control fragment assembly'')
        else if ordered ! unat (fr_Index f) \<noteq> []
        then Inl (ErrUSPTransportMalformed ''duplicate control fragment index'')
        else order_fragments first fs (ordered[unat (fr_Index f) := fr_Data f]) (totalSize + length (fr_Data f)))"

definition ReassembleUSPControlFragments :: "usp_fragment list \<Rightarrow> usp_error + bytes" where
  "ReassembleUSPControlFragments fs =
     (case fs of [] \<Rightarrow> Inl (ValidationError ''missing control fragments'')
      | first # _ \<Rightarrow>
        (case validateUSPControlFragment first of Some e \<Rightarrow> Inl e
         | None \<Rightarrow>
           if of_nat (length fs) \<noteq> fr_Count first
           then Inl (ErrUSPTransportMalformed ''control fragment count mismatch'')
           else (case order_fragments first fs (replicate (unat (fr_Count first)) []) 0 of Inl e \<Rightarrow> Inl e
                 | Inr (ordered, totalSize) \<Rightarrow>
                   if MaxUSPControlMessageSize < totalSize
                   then Inl (ErrUSPTransportMalformed ''control message too large'')
                   else if [] \<in> set ordered
                   then Inl (ErrUSPTransportMalformed ''missing control fragment index'')
                   else if \<not> fr_Compressed first then Inr (concat ordered)
                   else if fr_RawSize first = 0
                   then Inl (ErrUSPTransportMalformed ''compressed control fragments missing raw size'')
                   else decompressUSPControlPayload (concat ordered) (unat (fr_RawSize first)))))"

section \<open>The fragment header\<close>

lemma validate_None_iff:
  "validateUSPControlFragment f = None \<longleftrightarrow>
     fr_MessageID f \<noteq> 0 \<and> fr_Count f \<noteq> 0 \<and> unat (fr_Count f) \<le> MaxUSPControlFragmentCount \<and>
     unat (fr_RawSize f) \<le> MaxUSPControlMessageSize \<and> fr_Index f < fr_Count f \<and> fr_Data f \<noteq> [] \<and>
     (fr_Compressed f \<longrightarrow> fr_RawSize f \<noteq> 0)"
  by (auto simp: validateUSPControlFragment_def)

lemma decode_encode_fragment:
  assumes "EncodeUSPControlFragment f = Inr frame"
  shows "DecodeUSPControlFragment frame = Fragment f"
proof -
  from assms have valid: "validateUSPControlFragment f = None"
    and frame: "frame = [uspControlFragmentMagic, uspControlFragmentVersion, if fr_Compressed f then 1 else 0] @
      put_le 8 (fr_MessageID f) @ put_le 4 (fr_Index f) @ put_le 4 (fr_Count f) @
      put_le 4 (fr_RawSize f) @ fr_Data f"
    by (auto simp: EncodeUSPControlFragment_def split: option.splits)
  show ?thesis
    using valid unfolding frame
    by (cases f)
      (auto simp: DecodeUSPControlFragment_def uspControlFragmentHeaderSize_def slice_def codec_rt Let_def)
qed

lemma encode_decode_fragment:
  assumes "DecodeUSPControlFragment d = Fragment f"
  shows "EncodeUSPControlFragment f = Inr (take 2 d @ [d ! 2 AND 1] @ drop 3 d)"
proof -
  from assms have len: "23 \<le> length d" and valid: "validateUSPControlFragment f = None"
    and f: "f = \<lparr>fr_MessageID = get_le (slice 3 11 d), fr_Index = get_le (slice 11 15 d),
           fr_Count = get_le (slice 15 19 d), fr_RawSize = get_le (slice 19 23 d),
           fr_Compressed = (d ! 2 AND 1 \<noteq> 0), fr_Data = drop 23 d\<rparr>"
    and hd: "d ! 0 = uspControlFragmentMagic" "d ! 1 = uspControlFragmentVersion"
    by (auto simp: DecodeUSPControlFragment_def uspControlFragmentHeaderSize_def Let_def
        split: if_splits option.splits)
  have bytes: "drop 3 d = slice 3 11 d @ slice 11 15 d @ slice 15 19 d @ slice 19 23 d @ drop 23 d"
    by (simp flip: drop_slice_split)
  have two: "take 2 d = [d ! 0, d ! 1]"
    using len by (cases d; cases "tl d") auto
  have flag: "(if d ! 2 AND 1 \<noteq> 0 then 1 else 0) = d ! 2 AND 1"
    by (simp add: and_one_eq)
  show ?thesis
    using valid len put_le_get_le [where 'a = 64 and bs = "slice 3 11 d"]
      put_le_get_le [where 'a = 32 and bs = "slice 11 15 d"]
      put_le_get_le [where 'a = 32 and bs = "slice 15 19 d"]
      put_le_get_le [where 'a = 32 and bs = "slice 19 23 d"]
    unfolding bytes two EncodeUSPControlFragment_def by (simp add: f hd hd(2) [unfolded One_nat_def] flag)
qed

interpretation control_frame: wire_codec
    "\<lambda>f. validateUSPControlFragment f = None"
    "\<lambda>f. case EncodeUSPControlFragment f of Inl _ \<Rightarrow> [] | Inr d \<Rightarrow> d"
    "\<lambda>d. case DecodeUSPControlFragment d of Fragment f \<Rightarrow> Some f | _ \<Rightarrow> None"
proof (unfold_locales, goal_cases)
  case (1 f)
  then obtain d where "EncodeUSPControlFragment f = Inr d" by (auto simp: EncodeUSPControlFragment_def)
  then show ?case using decode_encode_fragment by simp
qed

text \<open>
  The fragment header codec: encoding refuses exactly the fragments that fail validation and with
  the validation's error; what it encodes decodes to the same fragment; and a datagram that decodes
  to a fragment encodes back to itself up to the unused flag bits.
\<close>

theorem fragment_codec:
  "(EncodeUSPControlFragment f = Inl e \<longleftrightarrow> validateUSPControlFragment f = Some e) \<and>
   (EncodeUSPControlFragment f = Inr d \<longrightarrow> DecodeUSPControlFragment d = Fragment f) \<and>
   (DecodeUSPControlFragment b = Fragment g \<longrightarrow>
      EncodeUSPControlFragment g = Inr (take 2 b @ [b ! 2 AND 1] @ drop 3 b) \<and> validateUSPControlFragment g = None)"
proof -
  have "validateUSPControlFragment g = None" if "DecodeUSPControlFragment b = Fragment g"
    using that by (auto simp: DecodeUSPControlFragment_def Let_def split: if_splits option.splits)
  then show ?thesis
    using decode_encode_fragment [of f d] encode_decode_fragment [of b g]
    by (simp add: EncodeUSPControlFragment_def split: option.split)
qed

theorem fragment_codec_witness:
  "\<exists>d. EncodeUSPControlFragment \<lparr>fr_MessageID = 1, fr_Index = 0, fr_Count = 1, fr_RawSize = 0, fr_Compressed = False,
      fr_Data = [1, 2]\<rparr> = Inr d \<and>
     DecodeUSPControlFragment d = Fragment \<lparr>fr_MessageID = 1, fr_Index = 0, fr_Count = 1, fr_RawSize = 0,
      fr_Compressed = False, fr_Data = [1, 2]\<rparr>"
proof -
  let ?f = "\<lparr>fr_MessageID = 1, fr_Index = 0, fr_Count = 1, fr_RawSize = 0, fr_Compressed = False, fr_Data = [1, 2]\<rparr>"
  have "validateUSPControlFragment ?f = None"
    by (simp add: validateUSPControlFragment_def MaxUSPControlFragmentCount_def MaxUSPControlMessageSize_def)
  then obtain d where d: "EncodeUSPControlFragment ?f = Inr d" by (simp add: EncodeUSPControlFragment_def)
  with fragment_codec [of ?f "ValidationError []" d "[]" ?f] show ?thesis by blast
qed

section \<open>Reassembly\<close>

definition same_header :: "usp_fragment \<Rightarrow> usp_fragment \<Rightarrow> bool" where
  "same_header first f \<longleftrightarrow>
     fr_MessageID f = fr_MessageID first \<and> fr_Count f = fr_Count first \<and>
     fr_Compressed f = fr_Compressed first \<and> fr_RawSize f = fr_RawSize first"

text \<open>What the loop leaves in slot \<open>i\<close>: the data of the fragment with that index, if there is one.\<close>

definition slot_data :: "usp_fragment list \<Rightarrow> nat \<Rightarrow> bytes" where
  "slot_data fs i = (case find (\<lambda>f. unat (fr_Index f) = i) fs of Some f \<Rightarrow> fr_Data f | None \<Rightarrow> [])"

lemma order_fragments_ok:
  assumes "\<forall>f \<in> set fs. validateUSPControlFragment f = None \<and> same_header first f"
    and "distinct (map fr_Index fs)" "length ordered = unat (fr_Count first)"
    and "\<forall>f \<in> set fs. ordered ! unat (fr_Index f) = []"
  shows "order_fragments first fs ordered n =
    Inr (map (\<lambda>i. if slot_data fs i \<noteq> [] then slot_data fs i else ordered ! i) [0..<length ordered],
         n + sum_list (map (length \<circ> fr_Data) fs))"
  using assms
proof (induction fs arbitrary: ordered n)
  case Nil
  then show ?case using map_nth [of ordered] by (simp add: slot_data_def)
next
  case (Cons f fs)
  let ?i = "unat (fr_Index f)"
  have i: "?i < length ordered" and data: "fr_Data f \<noteq> []"
    using Cons.prems by (auto simp: validate_None_iff same_header_def word_less_nat_alt)
  have ne: "unat (fr_Index g) \<noteq> ?i" if "g \<in> set fs" for g
    using Cons.prems(2) that by (metis distinct.simps(2) image_eqI list.map(2) list.set_map word_unat_eq_iff)
  have "order_fragments first fs (ordered[?i := fr_Data f]) (n + length (fr_Data f)) =
    Inr (map (\<lambda>i. if slot_data fs i \<noteq> [] then slot_data fs i else ordered[?i := fr_Data f] ! i)
          [0..<length (ordered[?i := fr_Data f])],
         n + length (fr_Data f) + sum_list (map (length \<circ> fr_Data) fs))"
    using Cons.prems ne [THEN not_sym] by (intro Cons.IH) auto
  moreover have "slot_data fs ?i = []"
    using ne by (auto simp: slot_data_def find_None_iff split: option.split dest!: find_SomeD)
  ultimately show ?case
    using Cons.prems i data
    by (auto simp: same_header_def slot_data_def add.assoc nth_list_update comp_def)
qed

lemma slot_data_mset:
  assumes "mset fs = mset gs" "distinct (map fr_Index gs)"
  shows "slot_data fs i = slot_data gs i"
proof -
  have set: "set fs = set gs" using assms(1) by (rule mset_eq_setD)
  have uniq: "f = g" if "f \<in> set gs" "g \<in> set gs" "fr_Index f = fr_Index g" for f g
    using assms(2) that by (auto simp: distinct_map inj_on_def)
  show ?thesis
    unfolding slot_data_def
    by (auto simp: find_None_iff set word_unat_eq_iff split: option.split dest!: find_SomeD
        intro!: arg_cong [of _ _ fr_Data] uniq)
qed

lemma reassemble_permuted:
  assumes perm: "mset fs = mset gs" and gs: "gs \<noteq> []" "\<forall>g \<in> set gs. validateUSPControlFragment g = None"
    and hdr: "\<forall>g \<in> set gs. \<forall>f \<in> set gs. same_header f g" and idx: "map (\<lambda>g. unat (fr_Index g)) gs = [0..<length gs]"
    and cnt: "\<forall>g \<in> set gs. unat (fr_Count g) = length gs" and raw: "\<forall>g \<in> set gs. \<not> fr_Compressed g"
    and cap: "sum_list (map (length \<circ> fr_Data) gs) \<le> MaxUSPControlMessageSize"
  shows "ReassembleUSPControlFragments fs = Inr (concat (map fr_Data gs))"
proof -
  from perm have set: "set fs = set gs" and len: "length fs = length gs"
    by (auto dest: mset_eq_setD mset_eq_length)
  with gs(1) obtain first rest where fs: "fs = first # rest" by (cases fs) auto
  have "distinct (map unat (map fr_Index gs))" using idx by (simp add: comp_def)
  then have dg: "distinct (map fr_Index gs)" using distinct_map by blast
  have "mset (map fr_Index fs) = mset (map fr_Index gs)" using perm by simp
  then have df: "distinct (map fr_Index fs)" using dg mset_eq_imp_distinct_iff by blast
  have nth_idx: "unat (fr_Index (gs ! i)) = i" if "i < length gs" for i
    using that arg_cong [OF idx, of "\<lambda>l. l ! i"] by simp
  have slot: "slot_data fs i = fr_Data (gs ! i)" if "i < length gs" for i
  proof -
    have "find (\<lambda>g. unat (fr_Index g) = i) gs = Some (gs ! i)"
      using that unfolding find_Some_iff by (intro exI [of _ i]) (simp add: nth_idx)
    then show ?thesis using slot_data_mset [OF perm dg, of i] by (simp add: slot_data_def)
  qed
  have data: "fr_Data (gs ! i) \<noteq> []" if "i < length gs" for i
    using gs(2) that by (auto simp: validate_None_iff)
  have in_gs: "first \<in> set gs" using set fs by auto
  have n: "unat (fr_Count first) = length gs" using cnt in_gs by blast
  have idx_bound: "unat (fr_Index g) < length gs" if "g \<in> set gs" for g
    using gs(2) cnt that unfolding validate_None_iff word_less_nat_alt by metis
  have "sum_list (map (length \<circ> fr_Data) fs) = sum_list (map (length \<circ> fr_Data) gs)"
    using perm by (metis mset_map sum_mset_sum_list)
  moreover have "map (\<lambda>i. if slot_data fs i \<noteq> [] then slot_data fs i else replicate (length gs) [] ! i) [0..<length gs]
      = map fr_Data gs"
    by (rule nth_equalityI) (simp_all add: slot data)
  moreover have "order_fragments first fs (replicate (length gs) []) 0 =
      Inr (map (\<lambda>i. if slot_data fs i \<noteq> [] then slot_data fs i else replicate (length gs) [] ! i)
            [0..<length (replicate (length gs) ([] :: bytes))],
           0 + sum_list (map (length \<circ> fr_Data) fs))"
    using gs(2) hdr in_gs df n idx_bound by (intro order_fragments_ok) (auto simp: set)
  ultimately have loop: "order_fragments first fs (replicate (length gs) []) 0 =
      Inr (map fr_Data gs, sum_list (map (length \<circ> fr_Data) gs))"
    by simp
  have "of_nat (length fs) = fr_Count first"
    unfolding len n [symmetric] by simp
  moreover have "[] \<notin> set (map fr_Data gs)" using gs(2) by (auto simp: validate_None_iff)
  moreover have "validateUSPControlFragment first = None" "\<not> fr_Compressed first"
    using gs(2) raw in_gs by auto
  ultimately show ?thesis
    using loop cap n fs by (simp add: ReassembleUSPControlFragments_def)
qed

section \<open>Splitting and reassembling\<close>

lemma encode_frames_Inr:
  "encode_frames fs = Inr frames \<Longrightarrow>
     map DecodeUSPControlFragment frames = map Fragment fs \<and>
     (\<forall>f \<in> set fs. validateUSPControlFragment f = None)"
proof (induction fs arbitrary: frames)
  case (Cons f fs)
  then show ?case
    by (auto simp: EncodeUSPControlFragment_def decode_encode_fragment split: sum.splits option.splits)
qed simp

lemma encode_frames_ok:
  "\<forall>f \<in> set fs. validateUSPControlFragment f = None \<Longrightarrow>
     \<exists>frames. encode_frames fs = Inr frames \<and> length frames = length fs \<and>
       (\<forall>b. (\<forall>f \<in> set fs. length (fr_Data f) \<le> b) \<longrightarrow>
          (\<forall>frame \<in> set frames. length frame \<le> uspControlFragmentHeaderSize + b))"
  by (induction fs)
    (auto simp: EncodeUSPControlFragment_def uspControlFragmentHeaderSize_def)

lemma chunk_bounds:
  assumes "0 < fps" "i < (n + fps - 1) div fps"
  shows "i * fps < (n :: nat)"
proof -
  have "Suc i * fps \<le> (n + fps - 1) div fps * fps" using assms(2) by (intro mult_le_mono1) simp
  also have "\<dots> \<le> n + fps - 1" by (rule div_times_less_eq_dividend)
  finally show ?thesis using assms(1) by simp
qed

lemma concat_chunks:
  "concat (map (\<lambda>i. slice (i * fps) (min (i * fps + fps) (length w)) w) [0..<k]) = take (k * fps) w"
proof (induction k)
  case (Suc k)
  have "take (k * fps) w @ slice (k * fps) (min (k * fps + fps) (length w)) w = take (k * fps + fps) w"
    by (auto simp: slice_def take_add min_def)
  then show ?case using Suc by (simp add: add.commute)
qed simp

lemma chunk_count:
  assumes "0 < fps" shows "(n :: nat) \<le> (n + fps - 1) div fps * fps"
proof -
  have "n + fps - 1 < (n + fps - 1) div fps * fps + fps"
    using dividend_less_div_times [OF assms, of "n + fps - 1"] by simp
  then show ?thesis using assms by simp
qed

lemma control_fragments_shape:
  assumes w: "w \<noteq> []" and fps: "0 < fps" and mid: "mid \<noteq> 0"
    and k: "k = (length w + fps - 1) div fps" "k \<le> MaxUSPControlFragmentCount"
  defines "gs \<equiv> control_fragments w mid 0 False fps"
  shows "gs \<noteq> []" "\<forall>g \<in> set gs. validateUSPControlFragment g = None \<and> length (fr_Data g) \<le> fps"
    "\<forall>g \<in> set gs. \<forall>f \<in> set gs. same_header f g" "map (\<lambda>g. unat (fr_Index g)) gs = [0..<length gs]"
    "\<forall>g \<in> set gs. unat (fr_Count g) = length gs" "\<forall>g \<in> set gs. \<not> fr_Compressed g"
    "concat (map fr_Data gs) = w" "length gs = k"
proof -
  have k0: "0 < k" using w fps unfolding k(1) by (cases w) (auto simp: div_greater_zero_iff)
  have un: "unat (of_nat i :: u32) = i" if "i \<le> k" for i
    using k(2) that by (intro unat_of_nat_small) (simp add: MaxUSPControlFragmentCount_def)
  have nz: "(of_nat k :: u32) \<noteq> 0" using un [of k] k0 by (metis less_irrefl unat_0 order_refl)
  have gs: "gs = map (\<lambda>i. \<lparr>fr_MessageID = mid, fr_Index = of_nat i, fr_Count = of_nat k, fr_RawSize = 0,
      fr_Compressed = False, fr_Data = slice (i * fps) (min (i * fps + fps) (length w)) w\<rparr>) [0..<k]"
    using nz un unfolding gs_def control_fragments_def k(1) [symmetric] Let_def by simp
  show "gs \<noteq> []" "length gs = k" using k0 by (simp_all add: gs)
  show "\<forall>g \<in> set gs. \<forall>f \<in> set gs. same_header f g" "\<forall>g \<in> set gs. \<not> fr_Compressed g"
    "\<forall>g \<in> set gs. unat (fr_Count g) = length gs"
    by (auto simp: gs same_header_def un)
  show "map (\<lambda>g. unat (fr_Index g)) gs = [0..<length gs]"
    by (rule nth_equalityI) (auto simp: gs un)
  have "slice (i * fps) (min (i * fps + fps) (length w)) w \<noteq> []" if "i < k" for i
    using chunk_bounds [OF fps, of i "length w"] that fps k(1) by (auto simp: slice_def)
  then show "\<forall>g \<in> set gs. validateUSPControlFragment g = None \<and> length (fr_Data g) \<le> fps"
    using k(2) mid nz by (auto simp: gs validate_None_iff un word_less_nat_alt)
  show "concat (map fr_Data gs) = w"
    using chunk_count [OF fps, of "length w"] by (simp add: gs comp_def concat_chunks k(1))
qed

lemma fragment_payload_size_pos: "0 < fragment_payload_size m"
  by (simp add: fragment_payload_size_def uspControlFragmentHeaderSize_def WUSPMaxDatagramPayload_def)

lemma fragment_frames:
  fixes payload :: bytes and mid :: u64 and maxDatagramPayload :: int
  defines "fps \<equiv> fragment_payload_size maxDatagramPayload"
  defines "gs \<equiv> control_fragments payload mid 0 False fps"
  assumes "payload \<noteq> []" "mid \<noteq> 0" "(length payload + fps - 1) div fps \<le> MaxUSPControlFragmentCount"
  shows "\<exists>frames. FragmentUSPControlPayload payload mid maxDatagramPayload = Inr frames \<and>
     length frames = (length payload + fps - 1) div fps \<and>
     (\<forall>frame \<in> set frames. length frame \<le> uspControlFragmentHeaderSize + fps) \<and>
     map DecodeUSPControlFragment frames = map Fragment gs"
proof -
  have fps: "0 < fps" by (simp add: fps_def fragment_payload_size_pos)
  note shape = control_fragments_shape [OF assms(3) fps assms(4) refl assms(5), folded gs_def]
  obtain frames where frames: "encode_frames gs = Inr frames" "length frames = length gs"
    "\<forall>frame \<in> set frames. length frame \<le> uspControlFragmentHeaderSize + fps"
    using encode_frames_ok [of gs] shape(2) by blast
  have "FragmentUSPControlPayload payload mid maxDatagramPayload = Inr frames"
    using assms(3,4) frames(1)
    by (simp add: FragmentUSPControlPayload_def compressUSPControlPayload_def gs_def flip: fps_def)
  then show ?thesis
    using frames encode_frames_Inr [OF frames(1)] shape(8) by simp
qed

lemma control_fragments_reassemble:
  assumes "w \<noteq> []" "0 < fps" "mid \<noteq> 0" "(length w + fps - 1) div fps \<le> MaxUSPControlFragmentCount"
    "length w \<le> MaxUSPControlMessageSize" "mset arrived = mset (control_fragments w mid 0 False fps)"
  shows "ReassembleUSPControlFragments arrived = Inr w"
proof -
  note shape = control_fragments_shape [OF assms(1-3) refl assms(4)]
  have "sum_list (map (length \<circ> fr_Data) (control_fragments w mid 0 False fps)) \<le> MaxUSPControlMessageSize"
    using arg_cong [OF shape(7), of length] assms(5) by (simp add: length_concat)
  then show ?thesis
    using reassemble_permuted [OF assms(6) shape(1) _ shape(3,4,5,6)] shape(2,7) by simp
qed

text \<open>
  C30. A non-empty control payload of at most 16 MiB with a non-zero message id that needs at most
  65536 fragments is split without error; every datagram fits the budget (the requested one, or 1200
  bytes when the request has no room for a header and a byte of data), every datagram decodes to a
  fragment, and reassembling the decoded fragments in any order of arrival gives the payload back.
\<close>

theorem fragment_reassemble:
  fixes payload :: bytes and maxDatagramPayload :: int
  defines "fps \<equiv> fragment_payload_size maxDatagramPayload"
  assumes "payload \<noteq> []" "mid \<noteq> 0" "length payload \<le> MaxUSPControlMessageSize"
    "(length payload + fps - 1) div fps \<le> MaxUSPControlFragmentCount"
  shows "\<exists>frames fragments. FragmentUSPControlPayload payload mid maxDatagramPayload = Inr frames \<and>
     length frames = (length payload + fps - 1) div fps \<and>
     (\<forall>frame \<in> set frames. length frame \<le> uspControlFragmentHeaderSize + fps) \<and>
     map DecodeUSPControlFragment frames = map Fragment fragments \<and>
     (\<forall>arrived. mset arrived = mset fragments \<longrightarrow> ReassembleUSPControlFragments arrived = Inr payload)"
  using fragment_frames [OF assms(2,3), of maxDatagramPayload, folded fps_def, OF assms(5)]
    control_fragments_reassemble [OF assms(2) _ assms(3,5,4)] fragment_payload_size_pos fps_def
  by metis

theorem fragment_reassemble_witness:
  "\<exists>frames fragments. FragmentUSPControlPayload [1, 2, 3] 1 25 = Inr frames \<and> length frames = 2 \<and>
     map DecodeUSPControlFragment frames = map Fragment fragments \<and>
     (\<forall>arrived. mset arrived = mset fragments \<longrightarrow> ReassembleUSPControlFragments arrived = Inr [1, 2, 3])"
proof -
  have fps: "fragment_payload_size 25 = 2"
    by (simp add: fragment_payload_size_def uspControlFragmentHeaderSize_def)
  show ?thesis
    using fragment_reassemble [of "[1, 2, 3]" 1 25]
    unfolding fps by (auto simp: MaxUSPControlMessageSize_def MaxUSPControlFragmentCount_def)
qed

lemma order_fragments_InrD:
  assumes "order_fragments first fs ordered n = Inr (ordered', n')"
    and "length ordered = unat (fr_Count first)"
  shows "n' = n + sum_list (map (length \<circ> fr_Data) fs) \<and>
     (\<forall>f \<in> set fs. validateUSPControlFragment f = None \<and> same_header first f) \<and>
     length ordered' = length ordered \<and> (\<forall>f \<in> set fs. ordered ! unat (fr_Index f) = []) \<and>
     distinct (map fr_Index fs) \<and>
     (\<forall>i < length ordered. ordered ! i \<noteq> [] \<longrightarrow> ordered' ! i = ordered ! i) \<and>
     (\<forall>f \<in> set fs. ordered' ! unat (fr_Index f) = fr_Data f) \<and>
     length (concat ordered') = length (concat ordered) + sum_list (map (length \<circ> fr_Data) fs)"
  using assms
proof (induction fs arbitrary: ordered n)
  case (Cons f fs)
  let ?i = "unat (fr_Index f)"
  from Cons.prems(1) have v: "validateUSPControlFragment f = None" and h: "same_header first f"
    and e: "ordered ! ?i = []"
    and run: "order_fragments first fs (ordered[?i := fr_Data f]) (n + length (fr_Data f)) = Inr (ordered', n')"
    by (auto simp: same_header_def split: option.splits if_splits)
  have i: "?i < length ordered" and d: "fr_Data f \<noteq> []"
    using v h Cons.prems(2) by (auto simp: validate_None_iff same_header_def word_less_nat_alt)
  note IH = Cons.IH [OF run, simplified length_list_update, OF Cons.prems(2)]
  then have kept: "\<And>j. \<lbrakk>j < length ordered; ordered[?i := fr_Data f] ! j \<noteq> []\<rbrakk> \<Longrightarrow>
      ordered' ! j = ordered[?i := fr_Data f] ! j"
    and free: "\<And>g. g \<in> set fs \<Longrightarrow> ordered[?i := fr_Data f] ! unat (fr_Index g) = []"
    using Cons.prems(2) by simp_all
  have ne: "unat (fr_Index g) \<noteq> ?i" if "g \<in> set fs" for g
    using free that i d by (metis nth_list_update_eq)
  have len: "length (concat (ordered[?i := fr_Data f])) = length (concat ordered) + length (fr_Data f)"
    using i e by (simp add: length_concat map_update sum_list_update)
  have "fr_Index f \<notin> fr_Index ` set fs" using ne by fastforce
  moreover have "ordered ! unat (fr_Index g) = []" if "g \<in> set fs" for g
    using free ne [OF that] that by (metis nth_list_update_neq)
  moreover have "ordered' ! ?i = fr_Data f" using kept [of ?i] i d by simp
  moreover have "ordered' ! j = ordered ! j" if "j < length ordered" "ordered ! j \<noteq> []" for j
    using kept [of j] that e by (cases "j = ?i") simp_all
  ultimately show ?case using IH v h e len Cons.prems(2) by simp
qed simp

lemma reassemble_InrD:
  assumes "ReassembleUSPControlFragments fs = Inr payload"
  shows "\<exists>ordered n. order_fragments (hd fs) fs (replicate (unat (fr_Count (hd fs))) []) 0 = Inr (ordered, n) \<and>
    n \<le> MaxUSPControlMessageSize \<and> [] \<notin> set ordered \<and> unat (fr_RawSize (hd fs)) \<le> MaxUSPControlMessageSize \<and>
    (if fr_Compressed (hd fs) then decompressUSPControlPayload (concat ordered) (unat (fr_RawSize (hd fs))) = Inr payload
     else payload = concat ordered)"
  using assms
  by (auto simp: ReassembleUSPControlFragments_def validate_None_iff
      split: list.splits option.splits if_splits sum.splits)

text \<open>
  Whatever fragments arrive, a reassembled control message is at most 16 MiB long: the bytes of
  the fragments together stay within the cap, every fragment agrees with the first one on message id,
  count, raw size and compression, no index occurs twice, and an uncompressed message is the
  concatenation of the fragments' data in index order.
\<close>

theorem reassemble_sound:
  assumes "ReassembleUSPControlFragments fs = Inr payload"
  shows "length payload \<le> MaxUSPControlMessageSize \<and>
     sum_list (map (length \<circ> fr_Data) fs) \<le> MaxUSPControlMessageSize \<and>
     (\<forall>f \<in> set fs. validateUSPControlFragment f = None \<and> same_header (hd fs) f) \<and>
     distinct (map fr_Index fs) \<and>
     (\<not> fr_Compressed (hd fs) \<longrightarrow>
        payload = concat (map (slot_data fs) [0..<unat (fr_Count (hd fs))]))"
proof -
  let ?n = "unat (fr_Count (hd fs))"
  obtain ordered n where 1: "order_fragments (hd fs) fs (replicate ?n []) 0 = Inr (ordered, n)"
      "n \<le> MaxUSPControlMessageSize" "unat (fr_RawSize (hd fs)) \<le> MaxUSPControlMessageSize"
    and res: "if fr_Compressed (hd fs)
      then decompressUSPControlPayload (concat ordered) (unat (fr_RawSize (hd fs))) = Inr payload
      else payload = concat ordered"
    using reassemble_InrD [OF assms] by blast
  note inv = order_fragments_InrD [OF 1(1) length_replicate]
  have "length payload \<le> MaxUSPControlMessageSize"
    using res inv 1
    by (auto simp: decompressUSPControlPayload_def split: if_splits sum.splits dest!: lz4_decompress_size)
  moreover have "ordered = map (slot_data fs) [0..<?n]"
    using order_fragments_ok [of fs "hd fs" "replicate ?n []" 0] inv 1(1)
    by (auto intro!: map_cong)
  ultimately show ?thesis using inv 1 res by auto
qed

theorem reassemble_sound_witness:
  "ReassembleUSPControlFragments [\<lparr>fr_MessageID = 1, fr_Index = 0, fr_Count = 1, fr_RawSize = 0,
     fr_Compressed = False, fr_Data = [1, 2]\<rparr>] = Inr [1, 2] \<and> length [1 :: byte, 2] \<le> MaxUSPControlMessageSize"
proof -
  have run: "ReassembleUSPControlFragments [\<lparr>fr_MessageID = 1, fr_Index = 0, fr_Count = 1, fr_RawSize = 0,
     fr_Compressed = False, fr_Data = [1, 2]\<rparr>] = Inr [1, 2]"
    by (simp add: ReassembleUSPControlFragments_def validateUSPControlFragment_def MaxUSPControlFragmentCount_def
        MaxUSPControlMessageSize_def)
  from run reassemble_sound [OF run] show ?thesis by simp
qed

end
