(* ===== verification/Usp_Metadata.thy ===== *)
theory Usp_Metadata
  imports Go_Strings Control_Fragments
begin

text \<open>
  The metadata that travels with USP requests and responses: the helpers of
  \<^verbatim>\<open>internal/wusp/usp_transport.go\<close> (response size, sequences, queue policy, operation targets) and the
  read replay protocol of \<^verbatim>\<open>internal/wusp/read_replay.go\<close>, by which a controller asks for the fragments
  of a reply it has not received. The maps are never shared here: every \<^verbatim>\<open>With\<close> helper clones its
  argument, which on association lists is the identity.
\<close>

type_synonym usp_method = byte

abbreviation (input) USPAgentMethodGet :: usp_method where "USPAgentMethodGet \<equiv> 1"
abbreviation (input) USPAgentMethodSet :: usp_method where "USPAgentMethodSet \<equiv> 2"
abbreviation (input) USPAgentMethodAdd :: usp_method where "USPAgentMethodAdd \<equiv> 3"
abbreviation (input) USPAgentMethodDelete :: usp_method where "USPAgentMethodDelete \<equiv> 4"
abbreviation (input) USPAgentMethodGetInstances :: usp_method where "USPAgentMethodGetInstances \<equiv> 5"
abbreviation (input) USPAgentMethodOperate :: usp_method where "USPAgentMethodOperate \<equiv> 6"
abbreviation (input) USPAgentMethodNotify :: usp_method where "USPAgentMethodNotify \<equiv> 7"
abbreviation (input) USPAgentMethodGetSupportedDM :: usp_method where "USPAgentMethodGetSupportedDM \<equiv> 8"
abbreviation (input) USPAgentMethodGetSupportedProtocol :: usp_method where "USPAgentMethodGetSupportedProtocol \<equiv> 9"
abbreviation (input) USPAgentMethodUpload :: usp_method where "USPAgentMethodUpload \<equiv> 10"
abbreviation (input) USPAgentMethodDownload :: usp_method where "USPAgentMethodDownload \<equiv> 11"

record validation_error =
  ve_Path :: bytes
  ve_Reason :: string

section \<open>Fragment index sets\<close>

definition maxResendFragmentRanges :: nat where "maxResendFragmentRanges = 256"

definition flush_range :: "u32 \<Rightarrow> u32 \<Rightarrow> bytes \<Rightarrow> bytes" where
  "flush_range start prev b =
     b @ (if b \<noteq> [] then [0x2C] else []) @ nat_digits (unat start) @
     (if prev \<noteq> start then 0x2D # nat_digits (unat prev) else [])"

fun format_ranges :: "u32 \<Rightarrow> u32 \<Rightarrow> u32 list \<Rightarrow> bytes \<Rightarrow> bytes" where
  "format_ranges start prev [] b = flush_range start prev b"
| "format_ranges start prev (index # rest) b =
     (if index = prev then format_ranges start prev rest b
      else if index = prev + 1 then format_ranges start index rest b
      else format_ranges index index rest (flush_range start prev b))"

definition FormatFragmentIndexSet :: "u32 list \<Rightarrow> bytes" where
  "FormatFragmentIndexSet indices =
     (case sort indices of [] \<Rightarrow> [] | i # rest \<Rightarrow> format_ranges i i rest [])"

definition add_range :: "nat \<Rightarrow> nat \<Rightarrow> u32 set \<Rightarrow> u32 set" where
  "add_range start end out = foldl (\<lambda>s index. insert (of_nat index) s) out [start..<Suc end]"

definition parse_range :: "bytes \<Rightarrow> u32 set \<Rightarrow> validation_error + u32 set" where
  "parse_range raw out =
     (let part = TrimSpace raw; invalid = (\<lambda>r. Inl \<lparr>ve_Path = [], ve_Reason = r\<rparr>) in
      if part = [] then Inr out
      else case cut_on 0x2D part of (lo, hi, found) \<Rightarrow>
        (case ParseUint 32 (TrimSpace lo) of None \<Rightarrow> invalid ''invalid resend fragment index''
         | Some start \<Rightarrow>
           (case (if found then ParseUint 32 (TrimSpace hi) else Some start) of
              None \<Rightarrow> invalid ''invalid resend fragment range''
            | Some end \<Rightarrow>
              if end < start then invalid ''invalid resend fragment range''
              else if MaxUSPControlFragmentCount \<le> end then invalid ''resend fragment index too large''
              else Inr (add_range start end out))))"

fun parse_ranges :: "bytes list \<Rightarrow> u32 set \<Rightarrow> validation_error + u32 set" where
  "parse_ranges [] out = Inr out"
| "parse_ranges (p # ps) out = (case parse_range p out of Inl e \<Rightarrow> Inl e | Inr out' \<Rightarrow> parse_ranges ps out')"

definition ParseFragmentIndexSet :: "bytes \<Rightarrow> validation_error + u32 set" where
  "ParseFragmentIndexSet raw =
     (let parts = split_on 0x2C (TrimSpace raw) in
      if maxResendFragmentRanges < length parts
      then Inl \<lparr>ve_Path = [], ve_Reason = ''too many resend fragment ranges''\<rparr>
      else parse_ranges parts {})"

section \<open>Read replay\<close>

definition MetadataKeyReadReplay :: bytes where "MetadataKeyReadReplay = ascii ''wusp.read_replay''"
definition MetadataKeyResendFragments :: bytes where "MetadataKeyResendFragments = ascii ''wusp.resend_fragments''"
definition readReplayEnabled :: bytes where "readReplayEnabled = ascii ''1''"
definition readReplayMiss :: bytes where "readReplayMiss = ascii ''miss''"

definition WithReadReplay :: "metadata \<Rightarrow> metadata" where
  "WithReadReplay md = md_put MetadataKeyReadReplay readReplayEnabled md"

definition WithReadReplayMiss :: "metadata \<Rightarrow> metadata" where
  "WithReadReplayMiss md = md_put MetadataKeyReadReplay readReplayMiss md"

definition SupportsReadReplay :: "metadata \<Rightarrow> bool" where
  "SupportsReadReplay md =
     (let value = TrimSpace (md_get md MetadataKeyReadReplay) in value = readReplayEnabled \<or> value = readReplayMiss)"

definition IsReadReplayMiss :: "metadata \<Rightarrow> bool" where
  "IsReadReplayMiss md = (TrimSpace (md_get md MetadataKeyReadReplay) = readReplayMiss)"

definition IsReadReplayMethod :: "usp_method \<Rightarrow> bool" where
  "IsReadReplayMethod m = (m = USPAgentMethodGet \<or> m = USPAgentMethodGetInstances)"

definition WithResendFragments :: "metadata \<Rightarrow> u32 list \<Rightarrow> metadata" where
  "WithResendFragments md indices =
     (if indices = [] then md_delete MetadataKeyResendFragments md
      else md_put MetadataKeyResendFragments (FormatFragmentIndexSet indices) md)"

definition ResendFragments :: "metadata \<Rightarrow> u32 set option" where
  "ResendFragments md =
     (let raw = TrimSpace (md_get md MetadataKeyResendFragments) in
      if raw = [] then None
      else case ParseFragmentIndexSet raw of Inl _ \<Rightarrow> None
        | Inr s \<Rightarrow> if s = {} then None else Some s)"

section \<open>Sequences, response size and queue policy\<close>

definition MetadataKeyResponseMaxControlPayload :: bytes where
  "MetadataKeyResponseMaxControlPayload = ascii ''wusp.response_max_control_payload''"
definition MetadataKeyRequestSequence :: bytes where "MetadataKeyRequestSequence = ascii ''wusp.request_sequence''"
definition MetadataKeyResponseSequence :: bytes where "MetadataKeyResponseSequence = ascii ''wusp.response_sequence''"
definition MetadataKeyQueuePolicy :: bytes where "MetadataKeyQueuePolicy = ascii ''wusp.queue_policy''"
definition MetadataKeyOperationCommandPath :: bytes where
  "MetadataKeyOperationCommandPath = ascii ''wusp.operation_command_path''"
definition QueuePolicyAction :: bytes where "QueuePolicyAction = ascii ''action''"

text \<open>\<^verbatim>\<open>strconv.Atoi\<close> on a 64-bit platform.\<close>

definition Atoi :: "bytes \<Rightarrow> int option" where
  "Atoi s =
     (let neg = (s \<noteq> [] \<and> hd s = 0x2D); ds = (if s \<noteq> [] \<and> (hd s = 0x2D \<or> hd s = 0x2B) then tl s else s) in
      if ds = [] \<or> \<not> list_all is_digit ds then None
      else if neg then (if 2 ^ 63 < digits_value ds then None else Some (- int (digits_value ds)))
      else (if 2 ^ 63 \<le> digits_value ds then None else Some (int (digits_value ds))))"

definition WithResponseMaxControlPayload :: "metadata \<Rightarrow> int \<Rightarrow> metadata" where
  "WithResponseMaxControlPayload md maxPayload =
     (if maxPayload \<le> 0 then md
      else md_put MetadataKeyResponseMaxControlPayload (nat_digits (nat maxPayload)) md)"

definition RequestedResponseMaxControlPayload :: "metadata \<Rightarrow> int \<Rightarrow> int" where
  "RequestedResponseMaxControlPayload md fallback =
     (let fallback = (if fallback \<le> 0 then WUSPMaxDatagramPayload else fallback);
          value = TrimSpace (md_get md MetadataKeyResponseMaxControlPayload) in
      if md = [] \<or> value = [] then fallback
      else case Atoi value of None \<Rightarrow> fallback
        | Some parsed \<Rightarrow>
          if parsed < int uspControlFragmentHeaderSize + 1 then fallback
          else if WUSPMaxDatagramPayload < parsed then WUSPMaxDatagramPayload else parsed)"

definition parseMetadataUint :: "metadata \<Rightarrow> bytes \<Rightarrow> u64 option" where
  "parseMetadataUint md key =
     (if md = [] then None
      else let value = TrimSpace (md_get md key) in
        if value = [] then None
        else case ParseUint 64 value of None \<Rightarrow> None
          | Some parsed \<Rightarrow> if parsed = 0 then None else Some (of_nat parsed))"

definition WithRequestSequence :: "metadata \<Rightarrow> u64 \<Rightarrow> metadata" where
  "WithRequestSequence md sequence =
     (if sequence = 0 then md else md_put MetadataKeyRequestSequence (nat_digits (unat sequence)) md)"

definition RequestSequence :: "metadata \<Rightarrow> u64 option" where
  "RequestSequence md = parseMetadataUint md MetadataKeyRequestSequence"

definition WithResponseSequence :: "metadata \<Rightarrow> u64 \<Rightarrow> metadata" where
  "WithResponseSequence md sequence =
     (if sequence = 0 then md else md_put MetadataKeyResponseSequence (nat_digits (unat sequence)) md)"

definition ResponseSequence :: "metadata \<Rightarrow> u64 option" where
  "ResponseSequence md = parseMetadataUint md MetadataKeyResponseSequence"

text \<open>\<^verbatim>\<open>ResponseMetadataForRequest\<close>, given the metadata of the request.\<close>

definition ResponseMetadataForRequest :: "metadata \<Rightarrow> metadata" where
  "ResponseMetadataForRequest req_Metadata =
     (case RequestSequence req_Metadata of Some sequence \<Rightarrow> WithResponseSequence [] sequence | None \<Rightarrow> [])"

definition WithQueuePolicy :: "metadata \<Rightarrow> bytes \<Rightarrow> metadata" where
  "WithQueuePolicy md policy =
     (let policy = TrimSpace policy in if policy = [] then md else md_put MetadataKeyQueuePolicy policy md)"

definition QueuePolicy :: "metadata \<Rightarrow> bytes" where
  "QueuePolicy md = (if md = [] then [] else TrimSpace (md_get md MetadataKeyQueuePolicy))"

definition IsWUSPActionMethod :: "usp_method \<Rightarrow> bool" where
  "IsWUSPActionMethod m \<longleftrightarrow>
     m \<in> {USPAgentMethodSet, USPAgentMethodAdd, USPAgentMethodDelete, USPAgentMethodOperate,
          USPAgentMethodNotify, USPAgentMethodUpload, USPAgentMethodDownload}"

definition ShouldQueueUSPRequest :: "usp_method \<Rightarrow> metadata \<Rightarrow> bool" where
  "ShouldQueueUSPRequest req_Method req_Metadata \<longleftrightarrow>
     IsWUSPActionMethod req_Method \<or> QueuePolicy req_Metadata = QueuePolicyAction"

section \<open>Operation targets\<close>

text \<open>\<^verbatim>\<open>strings.LastIndex\<close> of a one-byte string.\<close>

definition last_index :: "byte \<Rightarrow> bytes \<Rightarrow> int" where
  "last_index c s = (case dropWhile (\<lambda>b. b \<noteq> c) (rev s) of [] \<Rightarrow> - 1 | _ # r \<Rightarrow> int (length r))"

definition OperationTarget :: "bytes \<Rightarrow> validation_error + (bytes \<times> bytes)" where
  "OperationTarget raw =
     (let path = TrimSpace raw in
      if path = [] then Inl \<lparr>ve_Path = [], ve_Reason = ''operate requires a command path''\<rparr>
      else if ends_with path (ascii ''.'') then Inr (path, [])
      else if \<not> ends_with path (ascii ''()'')
        then Inl \<lparr>ve_Path = path, ve_Reason = ''operate command path must end with '' @ [CHR 0x27] @ ''()'' @ [CHR 0x27]\<rparr>
      else let commandName = take (length path - 2) path; separator = last_index 0x2E commandName in
        if separator \<le> 0 \<or> separator = int (length commandName) - 1
        then Inl \<lparr>ve_Path = path, ve_Reason = ''operate command path must include an object path''\<rparr>
        else Inr (take (nat separator + 1) commandName, path))"

definition WithOperationCommandPath :: "metadata \<Rightarrow> bytes \<Rightarrow> metadata" where
  "WithOperationCommandPath md raw =
     (let commandPath = TrimSpace raw in
      if commandPath = [] then md else md_put MetadataKeyOperationCommandPath commandPath md)"

definition OperationCommandPath :: "bytes \<Rightarrow> metadata \<Rightarrow> validation_error + bytes" where
  "OperationCommandPath raw md =
     (let objectPath = TrimSpace raw; commandPath = TrimSpace (md_get md MetadataKeyOperationCommandPath) in
      if commandPath = [] then Inr objectPath
      else case OperationTarget commandPath of Inl e \<Rightarrow> Inl e
        | Inr (expectedObjectPath, normalizedCommandPath) \<Rightarrow>
          if expectedObjectPath \<noteq> objectPath
          then Inl \<lparr>ve_Path = commandPath,
                     ve_Reason = ''operate command path does not belong to request object path''\<rparr>
          else Inr normalizedCommandPath)"

section \<open>The range list as runs of consecutive indices\<close>

fun runs :: "nat \<Rightarrow> nat \<Rightarrow> nat list \<Rightarrow> (nat \<times> nat) list" where
  "runs s p [] = [(s, p)]"
| "runs s p (i # js) =
     (if i = p then runs s p js else if i = Suc p then runs s i js else (s, p) # runs i i js)"

fun range_text :: "nat \<times> nat \<Rightarrow> bytes" where
  "range_text (a, b) = nat_digits a @ (if b \<noteq> a then 0x2D # nat_digits b else [])"

abbreviation range_set :: "(nat \<times> nat) list \<Rightarrow> nat set" where
  "range_set rs \<equiv> (\<Union>(a, b) \<in> set rs. {a..b})"

lemma runs_nonempty [simp]: "runs s p js \<noteq> []"
  by (induction s p js rule: runs.induct) auto

lemma word_suc_iff: "p < i \<Longrightarrow> i = p + 1 \<longleftrightarrow> unat i = Suc (unat (p :: 'a::len word))"
proof -
  assume "p < i"
  then have "p \<noteq> - 1" using word_order.extremum_strict by blast
  then have "1 + p \<noteq> 0" by (metis add.inverse_unique)
  then have "unat (p + 1) = Suc (unat p)" by (metis add.commute unatSuc)
  then show ?thesis by (metis word_unat_eq_iff)
qed

lemma format_ranges_runs:
  "sorted (p # js) \<Longrightarrow>
     format_ranges s p js b =
       b @ (if b \<noteq> [] then [0x2C] else []) @ join_on 0x2C (map range_text (runs (unat s) (unat p) (map unat js)))"
proof (induction s p js b rule: format_ranges.induct)
  case (1 s p b)
  then show ?case by (auto simp: flush_range_def word_unat_eq_iff)
next
  case (2 s p i js b)
  have le: "p \<le> i" "sorted (i # js)" "sorted (p # js)" using "2.prems" by auto
  have suc: "i = p + 1 \<longleftrightarrow> unat i = Suc (unat p)" if "i \<noteq> p"
    using le(1) that by (intro word_suc_iff) simp
  have ne: "flush_range s p b \<noteq> []" by (simp add: flush_range_def nat_digits_ok)
  consider "i = p" | "i \<noteq> p" "i = p + 1" | "i \<noteq> p" "i \<noteq> p + 1" by blast
  then show ?case
  proof cases
    case 3
    then have "unat i \<noteq> unat p" "unat i \<noteq> Suc (unat p)"
      using suc by (auto simp: word_unat_eq_iff)
    moreover obtain r rs where "runs (unat i) (unat i) (map unat js) = r # rs"
      using runs_nonempty by (meson neq_Nil_conv)
    ultimately show ?thesis
      using "2.IH"(3) [OF 3 le(2)] 3 ne by (auto simp: flush_range_def word_unat_eq_iff)
  qed (use "2.IH"(1,2) le suc in \<open>auto simp: word_unat_eq_iff\<close>)
qed

lemma runs_sets:
  "\<lbrakk>sorted (p # js); s \<le> p\<rbrakk> \<Longrightarrow> range_set (runs s p js) = {s..p} \<union> set js"
proof (induction s p js rule: runs.induct)
  case (2 s p i js)
  consider "i = p" | "i = Suc p" | "Suc p < i" using "2.prems" by force
  then show ?case
  proof cases
    case 2
    then have "range_set (runs s i js) = {s..Suc p} \<union> set js" using "2.IH"(2) "2.prems" by simp
    moreover have "{s..Suc p} = insert (Suc p) {s..p}" using "2.prems"(2) by auto
    ultimately show ?thesis using 2 by auto
  qed (use "2.IH" "2.prems" in auto)
qed simp

lemma runs_ordered: "s \<le> p \<Longrightarrow> \<forall>(a, b) \<in> set (runs s p js). a \<le> b"
  by (induction s p js rule: runs.induct) auto

lemma runs_count:
  "sorted (p # js) \<Longrightarrow>
     length (runs s p js) = Suc (card {i \<in> set js. p < i \<and> i - 1 \<notin> insert p (set js)})"
proof (induction s p js rule: runs.induct)
  case (2 s p i js)
  let ?A = "\<lambda>p js. {i \<in> set js. p < i \<and> i - 1 \<notin> insert p (set js)}"
  consider "i = p" | "i = Suc p" | "Suc p < i" using "2.prems" by force
  then show ?case
  proof cases
    case 1
    then have "?A p (i # js) = ?A p js" by auto
    then show ?thesis using 1 "2.IH"(1) "2.prems" by simp
  next
    case 2
    then have "?A p (i # js) = ?A i js" using "2.prems" by auto
    then show ?thesis using 2 "2.IH"(2) "2.prems" by simp
  next
    case 3
    then have "?A p (i # js) = insert i (?A i js)" "i \<notin> ?A i js" using "2.prems" by auto
    then have "card (?A p (i # js)) = Suc (card (?A i js))" by (simp only:) simp
    then show ?thesis using 3 "2.IH"(3) "2.prems" by simp
  qed
qed simp

lemma range_text_plain: "plain (range_text r)"
  using nat_digits_plain by (cases r) (auto simp: plain_def)

lemma range_text_no_comma: "0x2C \<notin> set (range_text r)"
proof -
  have "\<not> is_digit 0x2C" by (simp add: is_digit_def word_le_nat_alt)
  then show ?thesis using nat_digits_only by (cases r) auto
qed

lemma add_range_set: "add_range a b out = out \<union> of_nat ` {a..b}"
proof -
  have "foldl (\<lambda>s i. insert (of_nat i) s) out xs = out \<union> of_nat ` set xs" for xs
    by (induction xs arbitrary: out) auto
  then show ?thesis by (simp add: add_range_def atLeastLessThanSuc_atLeastAtMost del: upt_Suc)
qed

lemma parse_range_text:
  assumes "a \<le> b" "b < 2 ^ 32"
  shows "parse_range (range_text (a, b)) out =
           (if b < MaxUSPControlFragmentCount then Inr (out \<union> of_nat ` {a..b})
            else Inl \<lparr>ve_Path = [], ve_Reason = ''resend fragment index too large''\<rparr>)"
proof -
  have dash: "0x2D \<notin> set (nat_digits n)" for n
    by (rule nat_digits_only) (simp add: is_digit_def word_le_nat_alt)
  have "cut_on 0x2D (range_text (a, b)) = (if a = b then (nat_digits a, [], False) else (nat_digits a, nat_digits b, True))"
    using dash by (simp add: cut_on_found cut_on_missing)
  moreover have "range_text (a, b) \<noteq> []" using range_text_plain plain_def by blast
  ultimately show ?thesis
    using assms by (auto simp: parse_range_def Let_def range_text_plain nat_digits_plain add_range_set simp del: range_text.simps)
qed

lemma parse_ranges_text:
  "\<forall>(a, b) \<in> set rs. a \<le> b \<and> b < 2 ^ 32 \<Longrightarrow>
     parse_ranges (map range_text rs) out =
       (if \<forall>(a, b) \<in> set rs. b < MaxUSPControlFragmentCount then Inr (out \<union> of_nat ` range_set rs)
        else Inl \<lparr>ve_Path = [], ve_Reason = ''resend fragment index too large''\<rparr>)"
proof (induction rs arbitrary: out)
  case (Cons r rs)
  obtain a b where r: "r = (a, b)" by fastforce
  then show ?case
    using Cons parse_range_text [of a b out] by (auto simp: image_Un Un_assoc simp del: range_text.simps)
qed simp


definition index_runs :: "u32 list \<Rightarrow> (nat \<times> nat) list" where
  "index_runs indices = (case sort (map unat indices) of [] \<Rightarrow> [] | i # rest \<Rightarrow> runs i i rest)"

lemma sort_map_unat: "sort (map unat ws) = map unat (sort (ws :: 'a::len word list))"
proof (rule properties_for_sort)
  show "mset (map unat (sort ws)) = mset (map unat ws)" by simp
  have "sorted_wrt (\<lambda>x y. unat x \<le> unat y) (sort ws)"
    by (rule sorted_wrt_mono_rel [OF _ sorted_sort]) (simp add: word_le_nat_alt)
  then show "sorted (map unat (sort ws))" by (simp add: sorted_wrt_map)
qed

lemma sort_Cons: "ws \<noteq> [] \<Longrightarrow> \<exists>i js. sort ws = i # js \<and> sorted (i # js) \<and> set (i # js) = set ws"
  by (metis neq_Nil_conv set_empty2 set_sort sorted_sort)

lemma FormatFragmentIndexSet_runs:
  assumes "ws \<noteq> []"
  shows "FormatFragmentIndexSet ws = join_on 0x2C (map range_text (index_runs ws)) \<and> index_runs ws \<noteq> []"
proof -
  obtain i js where s: "sort ws = i # js" "sorted (i # js)" using sort_Cons [OF assms] by blast
  then show ?thesis
    using format_ranges_runs [OF s(2), of i "[]"]
    by (simp add: FormatFragmentIndexSet_def index_runs_def sort_map_unat)
qed

lemma index_runs_facts:
  assumes "ws \<noteq> []"
  shows "range_set (index_runs ws) = unat ` set ws"
    and "\<forall>(a, b) \<in> set (index_runs ws). a \<le> b"
    and "length (index_runs ws) = card {i \<in> set ws. \<forall>j \<in> set ws. unat i \<noteq> Suc (unat j)}"
proof -
  obtain i js where s: "sort ws = i # js" "sorted (i # js)" "set (i # js) = set ws"
    using sort_Cons [OF assms] by blast
  define ks where "ks = map unat js"
  have runs: "index_runs ws = runs (unat i) (unat i) ks"
    by (simp add: index_runs_def sort_map_unat s ks_def)
  have sorted: "sorted (unat i # ks)"
    using sorted_sort [of "map unat ws"] unfolding sort_map_unat s(1) by (simp add: ks_def)
  have set: "insert (unat i) (set ks) = unat ` set ws"
    unfolding s(3) [symmetric] by (simp add: ks_def)
  show "range_set (index_runs ws) = unat ` set ws"
    using runs_sets [OF sorted, of "unat i"] set by (simp add: runs)
  show "\<forall>(a, b) \<in> set (index_runs ws). a \<le> b" unfolding runs by (rule runs_ordered) simp
  let ?S = "{k \<in> unat ` set ws. \<forall>j \<in> unat ` set ws. k \<noteq> Suc j}"
  have "?S = insert (unat i) {k \<in> set ks. unat i < k \<and> k - 1 \<notin> insert (unat i) (set ks)}"
  proof -
    have "k - 1 \<notin> insert (unat i) (set ks) \<longleftrightarrow> (\<forall>j \<in> insert (unat i) (set ks). k \<noteq> Suc j)" if "unat i < k" for k
      using that by (metis Suc_pred' diff_Suc_1 gr_implies_not0 gr0I One_nat_def)
    moreover have "unat i \<noteq> Suc j" if "j \<in> insert (unat i) (set ks)" for j using that sorted by auto
    ultimately have "k \<in> ?S \<longleftrightarrow> k \<in> insert (unat i) {k \<in> set ks. unat i < k \<and> k - 1 \<notin> insert (unat i) (set ks)}" for k
      unfolding set [symmetric] using sorted by (cases "unat i < k") auto
    then show ?thesis by blast
  qed
  then have "length (index_runs ws) = card ?S" using runs_count [OF sorted] by (simp add: runs)
  also have "?S = unat ` {i \<in> set ws. \<forall>j \<in> set ws. unat i \<noteq> Suc (unat j)}" by auto
  finally show "length (index_runs ws) = card {i \<in> set ws. \<forall>j \<in> set ws. unat i \<noteq> Suc (unat j)}"
    by (simp add: card_image inj_on_def word_unat_eq_iff)
qed

lemma ParseFragmentIndexSet_Format:
  assumes "ws \<noteq> []"
  shows "ParseFragmentIndexSet (FormatFragmentIndexSet ws) =
           (if maxResendFragmentRanges < length (index_runs ws)
            then Inl \<lparr>ve_Path = [], ve_Reason = ''too many resend fragment ranges''\<rparr>
            else if \<forall>i \<in> set ws. unat i < MaxUSPControlFragmentCount then Inr (set ws)
            else Inl \<lparr>ve_Path = [], ve_Reason = ''resend fragment index too large''\<rparr>)"
    and "plain (FormatFragmentIndexSet ws)"
proof -
  let ?rs = "index_runs ws"
  note facts = index_runs_facts [OF assms] FormatFragmentIndexSet_runs [OF assms]
  have nonempty: "[] \<notin> set (map range_text ?rs)" using range_text_plain plain_def by force
  then show pl: "plain (FormatFragmentIndexSet ws)"
    using join_on_ends [of "map range_text ?rs" "0x2C"] facts(4) range_text_plain
    by (auto simp: plain_def hd_map last_map simp del: range_text.simps)
  have in_set: "b \<in> unat ` set ws" if "(a, b) \<in> set ?rs" for a b using that facts(1,2) by fastforce
  have low: "\<forall>(a, b) \<in> set ?rs. a \<le> b \<and> b < 2 ^ 32"
  proof -
    have "unat w < 2 ^ 32" for w :: u32 using unsigned_less [of w] by simp
    then show ?thesis using facts(2) in_set by fastforce
  qed
  have small: "(\<forall>(a, b) \<in> set ?rs. b < N) \<longleftrightarrow> (\<forall>i \<in> set ws. unat i < N)" for N
  proof
    assume b: "\<forall>(a, b) \<in> set ?rs. b < N"
    show "\<forall>i \<in> set ws. unat i < N"
    proof
      fix i assume "i \<in> set ws"
      then have "unat i \<in> range_set ?rs" unfolding facts(1) by simp
      then show "unat i < N" using b by fastforce
    qed
  qed (use in_set in fastforce)
  have image: "of_nat ` range_set ?rs = set ws" unfolding facts(1) by (simp add: image_image)
  have "split_on 0x2C (FormatFragmentIndexSet ws) = map range_text ?rs"
    unfolding conjunct1 [OF facts(4)] using facts(4) range_text_no_comma by (intro split_join) auto
  then show "ParseFragmentIndexSet (FormatFragmentIndexSet ws) =
           (if maxResendFragmentRanges < length (index_runs ws)
            then Inl \<lparr>ve_Path = [], ve_Reason = ''too many resend fragment ranges''\<rparr>
            else if \<forall>i \<in> set ws. unat i < MaxUSPControlFragmentCount then Inr (set ws)
            else Inl \<lparr>ve_Path = [], ve_Reason = ''resend fragment index too large''\<rparr>)"
    using parse_ranges_text [OF low, of "{}"] pl by (simp add: ParseFragmentIndexSet_def small image)
qed

text \<open>
  The fragment indices a controller asks for arrive: from the metadata that \<^verbatim>\<open>WithResendFragments\<close>
  makes of a list of indices, in any order and with any repetitions, \<^verbatim>\<open>ResendFragments\<close> recovers exactly
  their set when the list is not empty, every index is below 65536 and the indices form at most 256 runs
  of consecutive numbers; otherwise it asks for the whole reply.
\<close>
theorem resend_fragments_roundtrip:
  "ResendFragments (WithResendFragments md indices) =
     (if indices \<noteq> [] \<and> (\<forall>i \<in> set indices. unat i < 65536) \<and>
         card {i \<in> set indices. \<forall>j \<in> set indices. unat i \<noteq> Suc (unat j)} \<le> 256
      then Some (set indices) else None)"
proof (cases "indices = []")
  case False
  have "FormatFragmentIndexSet indices \<noteq> []" using ParseFragmentIndexSet_Format(2) [OF False] by (simp add: plain_def)
  then show ?thesis
    using False ParseFragmentIndexSet_Format [OF False]
    by (simp add: ResendFragments_def WithResendFragments_def maxResendFragmentRanges_def
        MaxUSPControlFragmentCount_def index_runs_facts(3) [OF False] not_le not_less)
qed (simp add: ResendFragments_def WithResendFragments_def)


theorem resend_fragments_roundtrip_witness:
  "ResendFragments (WithResendFragments [] [7, 1, 2, 3, 3]) = Some {1, 2, 3, 7}"
proof -
  let ?A = "{i \<in> set [7, 1, 2, 3, 3 :: u32]. \<forall>j \<in> set [7, 1, 2, 3, 3 :: u32]. unat i \<noteq> Suc (unat j)}"
  have "card ?A \<le> card (set [7, 1, 2, 3, 3 :: u32])" by (rule card_mono) auto
  also have "\<dots> \<le> length [7, 1, 2, 3, 3 :: u32]" by (rule card_length)
  finally have "card ?A \<le> 256" by simp
  then show ?thesis using resend_fragments_roundtrip [of "[]" "[7, 1, 2, 3, 3]"] by auto
qed

section \<open>Properties of the helpers\<close>

lemma md_put_nonempty [simp]: "md_put k v md \<noteq> []"
  by (cases "(k, v, md)" rule: md_put.cases) (auto split: if_splits)

lemma md_get_Nil [simp]: "md_get [] k = []"
  by (simp add: md_get_def)

lemma parseMetadataUint_put:
  "parseMetadataUint (md_put key (nat_digits (unat n)) md) key = (if n = 0 then None else Some n)"
proof -
  have "unat n < 2 ^ 64" using unsigned_less [of n] by simp
  moreover have "nat_digits (unat n) \<noteq> []" using nat_digits_ok by blast
  ultimately show ?thesis by (simp add: parseMetadataUint_def nat_digits_plain unat_eq_zero)
qed

lemma parseMetadataUint_nonzero: "parseMetadataUint md key \<noteq> Some 0"
proof
  assume "parseMetadataUint md key = Some 0"
  then obtain n where n: "ParseUint 64 (TrimSpace (md_get md key)) = Some n" "n \<noteq> 0" "(of_nat n :: u64) = 0"
    by (auto simp: parseMetadataUint_def Let_def split: if_splits option.splits)
  then have "n < 2 ^ 64" by (auto simp: ParseUint_def split: if_splits)
  then show False using n(2,3) unat_of_nat_small [where 'a = 64 and n = n] by simp
qed

text \<open>
  A response echoes the sequence number of its request: whatever the other metadata, the sequence the
  controller stamped on a request is the one it reads from the metadata the agent makes for the response,
  and a request without a usable sequence gets a response without one.
\<close>
theorem response_sequence_echo:
  "ResponseSequence (ResponseMetadataForRequest (WithRequestSequence md n)) =
     (if n = 0 then RequestSequence md else Some n)"
proof -
  have echo: "ResponseSequence (ResponseMetadataForRequest m) = RequestSequence m" for m
    using parseMetadataUint_put [of MetadataKeyResponseSequence _ "[]"] parseMetadataUint_nonzero [of m]
    by (auto simp: ResponseMetadataForRequest_def ResponseSequence_def RequestSequence_def WithResponseSequence_def
        parseMetadataUint_def [of "[]"] split: option.split)
  then show ?thesis
    using parseMetadataUint_put [of MetadataKeyRequestSequence n md]
    by (simp add: WithRequestSequence_def RequestSequence_def)
qed

lemma Atoi_digits: "n < 2 ^ 63 \<Longrightarrow> Atoi (nat_digits n) = Some (int n)"
proof -
  assume n: "n < 2 ^ 63"
  note d = nat_digits_ok [of n]
  have "is_digit (hd (nat_digits n))" using d by (auto simp: list_all_iff)
  then have "hd (nat_digits n) \<noteq> 0x2D" "hd (nat_digits n) \<noteq> 0x2B" by (auto simp: is_digit_def word_le_nat_alt)
  then show ?thesis using d n by (simp add: Atoi_def)
qed

text \<open>
  The size a controller asks for: an agent answers with datagrams of the requested size, capped at 1200
  bytes, when the request is at least one byte above the fragment header, and with its own default
  otherwise; whatever the metadata says, the size is that default or lies between 24 and 1200 bytes.
\<close>
theorem response_payload_negotiation:
  assumes "n < 2 ^ 63"
  shows "RequestedResponseMaxControlPayload (WithResponseMaxControlPayload md n) f =
           (if n \<le> 0 then RequestedResponseMaxControlPayload md f
            else if n < 24 then (if f \<le> 0 then 1200 else f) else min n 1200) \<and>
         (RequestedResponseMaxControlPayload md f = (if f \<le> 0 then 1200 else f) \<or>
          RequestedResponseMaxControlPayload md f \<in> {24..1200})"
proof (rule conjI)
  show "RequestedResponseMaxControlPayload md f = (if f \<le> 0 then 1200 else f) \<or>
         RequestedResponseMaxControlPayload md f \<in> {24..1200}"
    by (auto simp: RequestedResponseMaxControlPayload_def Let_def WUSPMaxDatagramPayload_def
        uspControlFragmentHeaderSize_def split: option.split)
  show "RequestedResponseMaxControlPayload (WithResponseMaxControlPayload md n) f =
           (if n \<le> 0 then RequestedResponseMaxControlPayload md f
            else if n < 24 then (if f \<le> 0 then 1200 else f) else min n 1200)"
  proof (cases "n \<le> 0")
    case False
    have "Atoi (nat_digits (nat n)) = Some n" using Atoi_digits [of "nat n"] assms False by simp
    moreover have "nat_digits (nat n) \<noteq> []" using nat_digits_ok by blast
    ultimately show ?thesis
      using False by (simp add: RequestedResponseMaxControlPayload_def WithResponseMaxControlPayload_def nat_digits_plain
          WUSPMaxDatagramPayload_def uspControlFragmentHeaderSize_def Let_def)
  qed (simp add: WithResponseMaxControlPayload_def)
qed

theorem response_payload_negotiation_witness:
  "RequestedResponseMaxControlPayload (WithResponseMaxControlPayload [] 9000) 0 = 1200 \<and>
   RequestedResponseMaxControlPayload (WithResponseMaxControlPayload [] 512) 0 = 512"
  using response_payload_negotiation [of 9000 "[]" 0] response_payload_negotiation [of 512 "[]" 0] by simp

lemma last_index_split:
  assumes "0 \<le> last_index c s"
  shows "s = take (nat (last_index c s) + 1) s @ drop (nat (last_index c s) + 1) s"
    and "last (take (nat (last_index c s) + 1) s) = c" "nat (last_index c s) < length s"
    and "c \<notin> set (drop (nat (last_index c s) + 1) s)"
proof -
  obtain r where r: "dropWhile (\<lambda>b. b \<noteq> c) (rev s) = c # r"
    using assms hd_dropWhile [of "\<lambda>b. b \<noteq> c" "rev s"]
    by (cases "dropWhile (\<lambda>b. b \<noteq> c) (rev s)") (auto simp: last_index_def)
  let ?t = "rev (takeWhile (\<lambda>b. b \<noteq> c) (rev s))"
  have s: "s = rev r @ c # ?t"
    by (metis r append.assoc append_Cons append_Nil rev.simps(2) rev_append rev_rev_ident takeWhile_dropWhile_id)
  have i: "nat (last_index c s) = length r" by (simp add: last_index_def r)
  have t: "take (length r + 1) s = rev r @ [c]" "drop (length r + 1) s = ?t"
    by (subst s, simp)+
  show "last (take (nat (last_index c s) + 1) s) = c" unfolding i t by simp
  show "c \<notin> set (drop (nat (last_index c s) + 1) s)"
    unfolding i t by (auto dest: set_takeWhileD)
  show "nat (last_index c s) < length s" unfolding i by (subst s) simp
qed simp

lemma ends_with_append: "ends_with s p \<Longrightarrow> s = take (length s - length p) s @ p"
  by (metis append_take_drop_id ends_with_def)

text \<open>
  An Operate command never runs against another object: when \<^verbatim>\<open>OperationCommandPath\<close> accepts a
  request, the command is the object path itself because the metadata names none, or it is the object
  path followed by a command name without dots and a pair of parentheses, or the metadata repeats the
  object path and the command is empty.
\<close>
theorem operation_command_belongs:
  assumes "OperationCommandPath obj md = Inr command"
  shows "(TrimSpace (md_get md MetadataKeyOperationCommandPath) = [] \<and> command = TrimSpace obj) \<or>
         (TrimSpace (TrimSpace (md_get md MetadataKeyOperationCommandPath)) = TrimSpace obj \<and> command = []) \<or>
         (\<exists>name. name \<noteq> [] \<and> 0x2E \<notin> set name \<and> last (TrimSpace obj) = 0x2E \<and>
            command = TrimSpace obj @ name @ ascii ''()'')"
proof (cases "TrimSpace (md_get md MetadataKeyOperationCommandPath) = []")
  case False
  define c where "c = TrimSpace (TrimSpace (md_get md MetadataKeyOperationCommandPath))"
  have target: "OperationTarget (TrimSpace (md_get md MetadataKeyOperationCommandPath)) = Inr (TrimSpace obj, command)"
    using assms False by (auto simp: OperationCommandPath_def Let_def split: sum.splits if_splits)
  show ?thesis
  proof (cases "ends_with c (ascii ''.'')")
    case True
    then show ?thesis using target
      by (auto simp: OperationTarget_def Let_def c_def [symmetric] simp del: ascii_simps split: if_splits)
  next
    case dot: False
    define n where "n = take (length c - 2) c"
    have par: "ends_with c (ascii ''()'')" and sep: "0 < last_index 0x2E n" "last_index 0x2E n \<noteq> int (length n) - 1"
      and obj: "TrimSpace obj = take (nat (last_index 0x2E n) + 1) n" and command: "command = c"
      using target dot unfolding OperationTarget_def Let_def c_def [symmetric] n_def [symmetric]
      by (auto simp del: ascii_simps split: if_splits)
    note split = last_index_split [of "0x2E" n]
    have "c = n @ ascii ''()''" using ends_with_append [OF par] by (simp add: n_def numeral_2_eq_2)
    moreover have "drop (nat (last_index 0x2E n) + 1) n \<noteq> []" using sep split(3) by simp
    ultimately show ?thesis using split(2,4) sep(1) unfolding obj command
      by (metis append.assoc append_take_drop_id less_imp_le)
  qed
qed (use assms in \<open>simp add: OperationCommandPath_def\<close>)

definition ex_command :: metadata where
  "ex_command = WithOperationCommandPath [] (ascii ''Device.X.Reset()'')"

theorem operation_command_belongs_witness:
  "\<exists>name. ascii ''Device.X.Reset()'' = TrimSpace (ascii ''Device.X.'') @ name @ ascii ''()''"
proof -
  have pl: "plain (ascii ''Device.X.Reset()'')" "plain (ascii ''Device.X.'')"
    by (simp_all add: plain_def visible_def word_le_nat_alt)
  have get: "md_get ex_command MetadataKeyOperationCommandPath = ascii ''Device.X.Reset()''"
    unfolding ex_command_def WithOperationCommandPath_def Let_def TrimSpace_plain [OF pl(1)] by simp (simp add: md_get_def)
  moreover have "OperationTarget (ascii ''Device.X.Reset()'') = Inr (ascii ''Device.X.'', ascii ''Device.X.Reset()'')"
    using pl by (simp add: OperationTarget_def ends_with_def last_index_def)
  ultimately have run: "OperationCommandPath (ascii ''Device.X.'') ex_command = Inr (ascii ''Device.X.Reset()'')"
    using pl by (simp add: OperationCommandPath_def)
  show ?thesis
    using operation_command_belongs [OF run] unfolding get TrimSpace_plain [OF pl(1)] TrimSpace_plain [OF pl(2)] by auto
qed

end
