(* ===== verification/Message_Validation.thy ===== *)
theory Message_Validation
  imports Wusp_Frame Usp_Metadata
begin

text \<open>
  Validation of messages against the device schema, \<^verbatim>\<open>ValidateMessageFast\<close> and what it calls in
  \<^verbatim>\<open>internal/wusp/methods.go\<close>. The schema is data generated from the Broadband Forum model: a registry and an
  index from parameter paths to parameter definitions. A compiled regular expression is represented by
  its \<^verbatim>\<open>MatchString\<close> function, and \<^verbatim>\<open>net.ParseCIDR\<close> by the predicate that it succeeds. A \<^verbatim>\<open>float64\<close> is its
  IEEE bit pattern. The reason of a validation error is the format string without its arguments.
\<close>

datatype param_type =
    TypeString | TypeInt | TypeUnsignedInt | TypeLong | TypeUnsignedLong | TypeBoolean | TypeDateTime
  | TypeBase64 | TypeHexBinary | TypeDecimal | TypeIPv4Address | TypeIPv6Address | TypeIPv4Prefix
  | TypeIPv6Prefix | TypeMACAddress | TypeAlias | TypeStatsCounter | TypePathRef | TypeList

record limits =
  l_Min :: "int option"
  l_Max :: "int option"
  l_MinF :: "u64 option"
  l_MaxF :: "u64 option"
  l_MinLength :: int
  l_MaxLength :: int
  l_MinItems :: int
  l_MaxItems :: int

record param_info =
  pi_Type :: param_type
  pi_Limits :: limits
  pi_enumSet :: "bytes list"
  pi_pattern :: "(bytes \<Rightarrow> bool) option"
  pi_expectsBase64String :: bool
  pi_listPathRef :: bool
  pi_listCIDR :: bool

record schema =
  sc_registry :: registry
  sc_safeParamIndex :: "bytes \<rightharpoonup> param_info"
  sc_ParseCIDR :: "bytes \<Rightarrow> bool"

section \<open>Values by tag\<close>

fun value_Tag :: "wvalue \<Rightarrow> byte" where
  "value_Tag VNull = 0x00"
| "value_Tag VFalse = 0x01"
| "value_Tag VTrue = 0x02"
| "value_Tag (VUint n) = 0x03"
| "value_Tag (VInt n) = 0x04"
| "value_Tag (VFloat f) = 0x05"
| "value_Tag (VString b) = 0x06"
| "value_Tag (VBytes b) = 0x07"
| "value_Tag (VTime n) = 0x08"
| "value_Tag (VIP4 b) = 0x09"
| "value_Tag (VIP6 b) = 0x0A"
| "value_Tag (VIP4Pfx b) = 0x0B"
| "value_Tag (VIP6Pfx b) = 0x0C"
| "value_Tag (VMAC b) = 0x0D"
| "value_Tag (VList vs) = 0x0E"

text \<open>The accessors read the field of the Go struct whatever the tag; a field that the tag leaves out is zero.\<close>

fun AsUint :: "wvalue \<Rightarrow> u64" where
  "AsUint (VUint n) = n"
| "AsUint (VInt n) = n"
| "AsUint (VTime n) = n"
| "AsUint _ = 0"

definition AsInt :: "wvalue \<Rightarrow> int" where
  "AsInt v = sint (AsUint v)"

fun AsFloat :: "wvalue \<Rightarrow> u64" where
  "AsFloat (VFloat f) = f"
| "AsFloat _ = 0"

fun AsBytes :: "wvalue \<Rightarrow> bytes" where
  "AsBytes (VString b) = b"
| "AsBytes (VBytes b) = b"
| "AsBytes (VIP4 b) = b"
| "AsBytes (VIP6 b) = b"
| "AsBytes (VIP4Pfx b) = b"
| "AsBytes (VIP6Pfx b) = b"
| "AsBytes (VMAC b) = b"
| "AsBytes _ = []"

definition AsString :: "wvalue \<Rightarrow> bytes" where
  "AsString v = AsBytes v"

fun AsList :: "wvalue \<Rightarrow> wvalue list" where
  "AsList (VList vs) = vs"
| "AsList _ = []"

definition TagForParamType :: "param_type \<Rightarrow> byte" where
  "TagForParamType pt =
     (case pt of TypeBoolean \<Rightarrow> 0x01 | TypeInt \<Rightarrow> 0x04 | TypeLong \<Rightarrow> 0x04
      | TypeUnsignedInt \<Rightarrow> 0x03 | TypeUnsignedLong \<Rightarrow> 0x03 | TypeStatsCounter \<Rightarrow> 0x03
      | TypeDecimal \<Rightarrow> 0x05 | TypeBase64 \<Rightarrow> 0x07 | TypeHexBinary \<Rightarrow> 0x07 | TypeDateTime \<Rightarrow> 0x08
      | TypeIPv4Address \<Rightarrow> 0x09 | TypeIPv6Address \<Rightarrow> 0x0A | TypeIPv4Prefix \<Rightarrow> 0x0B
      | TypeIPv6Prefix \<Rightarrow> 0x0C | TypeMACAddress \<Rightarrow> 0x0D | TypeList \<Rightarrow> 0x0E
      | _ \<Rightarrow> 0x06)"

definition tagMatchesParamType :: "param_type \<Rightarrow> byte \<Rightarrow> bool" where
  "tagMatchesParamType pt tag =
     (if pt = TypeBoolean then tag = 0x01 \<or> tag = 0x02 else tag = TagForParamType pt)"

section \<open>Floating-point comparison\<close>

text \<open>
  The order of finite IEEE doubles is the order of their sign and magnitude bits; the two zeros are
  equal. \<open>float_of_int64\<close> is Go's conversion \<^verbatim>\<open>float64(i)\<close>, which rounds to nearest, ties to even.
\<close>

definition float_special :: "u64 \<Rightarrow> bool" where
  "float_special f \<longleftrightarrow> f AND 0x7FF0000000000000 = 0x7FF0000000000000"

definition float_nan :: "u64 \<Rightarrow> bool" where
  "float_nan f \<longleftrightarrow> float_special f \<and> f AND 0x000FFFFFFFFFFFFF \<noteq> 0"

definition float_key :: "u64 \<Rightarrow> int" where
  "float_key f = (if bit f 63 then - uint (take_bit 63 f) else uint f)"

definition float_less :: "u64 \<Rightarrow> u64 \<Rightarrow> bool" where
  "float_less f g \<longleftrightarrow> \<not> float_nan f \<and> \<not> float_nan g \<and> float_key f < float_key g"

fun bit_length :: "nat \<Rightarrow> nat" where
  "bit_length n = (if n = 0 then 0 else Suc (bit_length (n div 2)))"

declare bit_length.simps [simp del]

definition round_mantissa :: "nat \<Rightarrow> nat \<Rightarrow> nat" where
  "round_mantissa m e =
     (if e \<le> 52 then m * 2 ^ (52 - e)
      else let q = m div 2 ^ (e - 52); r = m mod 2 ^ (e - 52); half = 2 ^ (e - 53) in
        if half < r \<or> (r = half \<and> odd q) then Suc q else q)"

definition float_of_int64 :: "int \<Rightarrow> u64" where
  "float_of_int64 i =
     (if i = 0 then 0
      else let m = nat \<bar>i\<bar>; e = bit_length m - 1 in
        (if i < 0 then push_bit 63 1 else 0) OR of_nat ((e + 1022) * 2 ^ 52 + round_mantissa m e))"

section \<open>Limits\<close>

type_synonym verdict = "validation_error option"

abbreviation reject :: "bytes \<Rightarrow> string \<Rightarrow> verdict" where
  "reject path reason \<equiv> Some \<lparr>ve_Path = path, ve_Reason = reason\<rparr>"

definition validateUnsignedLimits :: "bytes \<Rightarrow> limits \<Rightarrow> u64 \<Rightarrow> verdict" where
  "validateUnsignedLimits path l v =
     (if (case l_Min l of Some m \<Rightarrow> v < word_of_int m | None \<Rightarrow> False)
      then reject path ''value %d is below minimum %d''
      else if (case l_Max l of Some m \<Rightarrow> word_of_int m < v | None \<Rightarrow> False)
      then reject path ''value %d is above maximum %d'' else None)"

definition validateSignedLimits :: "bytes \<Rightarrow> limits \<Rightarrow> int \<Rightarrow> verdict" where
  "validateSignedLimits path l v =
     (if (case l_Min l of Some m \<Rightarrow> v < m | None \<Rightarrow> False) then reject path ''value %d is below minimum %d''
      else if (case l_Max l of Some m \<Rightarrow> m < v | None \<Rightarrow> False) then reject path ''value %d is above maximum %d''
      else None)"

definition validateDecimalLimits :: "bytes \<Rightarrow> limits \<Rightarrow> u64 \<Rightarrow> verdict" where
  "validateDecimalLimits path l v =
     (if float_special v then reject path ''decimal value must be finite''
      else if (case l_MinF l of Some m \<Rightarrow> float_less v m | None \<Rightarrow> False)
      then reject path ''value %f is below minimum %f''
      else if (case l_MaxF l of Some m \<Rightarrow> float_less m v | None \<Rightarrow> False)
      then reject path ''value %f is above maximum %f''
      else if (case l_Min l of Some m \<Rightarrow> float_less v (float_of_int64 m) | None \<Rightarrow> False)
      then reject path ''value %f is below minimum %d''
      else if (case l_Max l of Some m \<Rightarrow> float_less (float_of_int64 m) v | None \<Rightarrow> False)
      then reject path ''value %f is above maximum %d'' else None)"

definition validateBinaryLimits :: "bytes \<Rightarrow> limits \<Rightarrow> int \<Rightarrow> verdict" where
  "validateBinaryLimits path l rawLen =
     (if 0 < l_MinLength l \<and> rawLen < l_MinLength l then reject path ''raw length %d is below minimum %d''
      else if 0 < l_MaxLength l \<and> l_MaxLength l < rawLen then reject path ''raw length %d is above maximum %d''
      else None)"

text \<open>
  \<^verbatim>\<open>base64.StdEncoding.DecodeString\<close> succeeds: without the line breaks it skips, the string is a whole
  number of quanta of the alphabet, the last one padded by at most two equal signs.
\<close>

definition base64_char :: "byte \<Rightarrow> bool" where
  "base64_char b \<longleftrightarrow>
     (0x41 \<le> b \<and> b \<le> 0x5A) \<or> (0x61 \<le> b \<and> b \<le> 0x7A) \<or> is_digit b \<or> b = 0x2B \<or> b = 0x2F"

definition base64_ok :: "bytes \<Rightarrow> bool" where
  "base64_ok s =
     (let t = filter (\<lambda>b. b \<noteq> 0x0A \<and> b \<noteq> 0x0D) s; c = takeWhile (\<lambda>b. b \<noteq> 0x3D) t; p = dropWhile (\<lambda>b. b \<noteq> 0x3D) t in
      length t mod 4 = 0 \<and> list_all base64_char c \<and> p \<in> {[], [0x3D], [0x3D, 0x3D]})"

definition validateStringValueFast :: "bytes \<Rightarrow> param_info \<Rightarrow> bytes \<Rightarrow> bool \<Rightarrow> verdict" where
  "validateStringValueFast path info v checkLength =
     (let l = pi_Limits info in
      if checkLength \<and> 0 < l_MinLength l \<and> int (length v) < l_MinLength l
      then reject path ''length %d is below minimum %d''
      else if checkLength \<and> 0 < l_MaxLength l \<and> l_MaxLength l < int (length v)
      then reject path ''length %d is above maximum %d''
      else if pi_enumSet info \<noteq> [] \<and> v \<notin> set (pi_enumSet info)
      then reject path ''value %q is not in the allowed enum set''
      else if (case pi_pattern info of Some match \<Rightarrow> \<not> match v | None \<Rightarrow> False)
      then reject path ''value %q does not match %q''
      else if pi_expectsBase64String info \<and> v \<noteq> [] \<and> \<not> base64_ok v
      then reject path ''value is not valid base64'' else None)"


text \<open>
  The loop over the items of a list: \<open>i\<close> is the index of the next item, \<open>n\<close> is \<^verbatim>\<open>totalStringLen\<close> and \<open>strings\<close> is
  \<^verbatim>\<open>allStrings\<close>.
\<close>

fun validate_items :: "(bytes \<Rightarrow> bool) \<Rightarrow> bytes \<Rightarrow> param_info \<Rightarrow> nat \<Rightarrow> int \<Rightarrow> bool \<Rightarrow> wvalue list \<Rightarrow> validation_error + (int \<times> bool)" where
  "validate_items cidr path info i n strings [] = Inr (n, strings)"
| "validate_items cidr path info i n strings (item # items) =
     (if value_Tag item = 0x00 \<or> value_Tag item = 0x0E
      then Inl \<lparr>ve_Path = path, ve_Reason = ''list item %d has unsupported tag %s''\<rparr>
      else if value_Tag item \<noteq> 0x06 then
        (if pi_enumSet info \<noteq> [] \<or> pi_pattern info \<noteq> None \<or> pi_listPathRef info \<or> pi_listCIDR info
         then Inl \<lparr>ve_Path = path, ve_Reason = ''list item %d must be a string''\<rparr>
         else validate_items cidr path info (Suc i) n False items)
      else
        (let v = AsString item; n = n + int (length v) + (if 0 < i then 1 else 0) in
         case validateStringValueFast path info v False of Some e \<Rightarrow> Inl e
         | None \<Rightarrow>
           if pi_listPathRef info \<and> v = [] then Inl \<lparr>ve_Path = path, ve_Reason = ''list item %d must not be empty''\<rparr>
           else if pi_listCIDR info \<and> v \<noteq> [] \<and> \<not> cidr v
           then Inl \<lparr>ve_Path = path, ve_Reason = ''list item %d is not a valid CIDR''\<rparr>
           else validate_items cidr path info (Suc i) n strings items))"

definition validateListValueFast :: "(bytes \<Rightarrow> bool) \<Rightarrow> bytes \<Rightarrow> param_info \<Rightarrow> wvalue list \<Rightarrow> verdict" where
  "validateListValueFast cidr path info items =
     (let l = pi_Limits info in
      if 0 < l_MinItems l \<and> int (length items) < l_MinItems l
      then reject path ''list has %d items, below minimum %d''
      else if 0 < l_MaxItems l \<and> l_MaxItems l < int (length items)
      then reject path ''list has %d items, above maximum %d''
      else case validate_items cidr path info 0 0 True items of Inl e \<Rightarrow> Some e
        | Inr (totalStringLen, allStrings) \<Rightarrow>
          if allStrings \<and> 0 < l_MinLength l \<and> totalStringLen < l_MinLength l
          then reject path ''list length %d is below minimum %d''
          else if allStrings \<and> 0 < l_MaxLength l \<and> l_MaxLength l < totalStringLen
          then reject path ''list length %d is above maximum %d'' else None)"

definition validateValueFast :: "(bytes \<Rightarrow> bool) \<Rightarrow> bytes \<Rightarrow> param_info \<Rightarrow> wvalue \<Rightarrow> verdict" where
  "validateValueFast cidr path info v =
     (let l = pi_Limits info; b = AsBytes v in
      case pi_Type info of
        TypeBoolean \<Rightarrow> None
      | TypeUnsignedInt \<Rightarrow> validateUnsignedLimits path l (AsUint v)
      | TypeUnsignedLong \<Rightarrow> validateUnsignedLimits path l (AsUint v)
      | TypeStatsCounter \<Rightarrow> validateUnsignedLimits path l (AsUint v)
      | TypeInt \<Rightarrow> validateSignedLimits path l (AsInt v)
      | TypeLong \<Rightarrow> validateSignedLimits path l (AsInt v)
      | TypeDecimal \<Rightarrow> validateDecimalLimits path l (AsFloat v)
      | TypeDateTime \<Rightarrow> None
      | TypeBase64 \<Rightarrow> validateBinaryLimits path l (int (length b))
      | TypeHexBinary \<Rightarrow> validateBinaryLimits path l (int (length b))
      | TypeIPv4Address \<Rightarrow> if length b \<noteq> 4 then reject path ''invalid IPv4 value length'' else None
      | TypeIPv6Address \<Rightarrow> if length b \<noteq> 16 then reject path ''invalid IPv6 value length'' else None
      | TypeIPv4Prefix \<Rightarrow> if length b \<noteq> 5 \<or> 32 < b ! 4 then reject path ''invalid IPv4 prefix value'' else None
      | TypeIPv6Prefix \<Rightarrow> if length b \<noteq> 17 \<or> 128 < b ! 16 then reject path ''invalid IPv6 prefix value'' else None
      | TypeMACAddress \<Rightarrow> if length b \<noteq> 6 then reject path ''invalid MAC value length'' else None
      | TypeList \<Rightarrow> validateListValueFast cidr path info (AsList v)
      | _ \<Rightarrow> validateStringValueFast path info (AsString v) True)"

section \<open>Parameters and messages\<close>

definition isNumericPathSegment :: "bytes \<Rightarrow> bool" where
  "isNumericPathSegment part \<longleftrightarrow> part \<noteq> [] \<and> list_all is_digit part"

definition canonicalParamPath :: "bytes \<Rightarrow> bytes" where
  "canonicalParamPath path =
     (if path = [] then []
      else join_on 0x2E (map (\<lambda>part.
             if part = [] \<or> part = ascii ''{i}'' then part
             else if isNumericPathSegment part then ascii ''{i}'' else part) (split_on 0x2E path)))"

definition lookupSafeParam :: "('z schema_scheme) \<Rightarrow> bytes \<Rightarrow> (param_info \<times> bytes) option" where
  "lookupSafeParam S path =
     (case sc_safeParamIndex S path of Some info \<Rightarrow> Some (info, path)
      | None \<Rightarrow> map_option (\<lambda>info. (info, canonicalParamPath path)) (sc_safeParamIndex S (canonicalParamPath path)))"

definition ValidateFieldFast :: "('z schema_scheme) \<Rightarrow> wfield \<Rightarrow> verdict" where
  "ValidateFieldFast S f =
     (case lookupSafeParam S (f_Path f) of None \<Rightarrow> reject (f_Path f) ''unknown parameter path''
      | Some (info, canonicalPath) \<Rightarrow>
        if f_id f \<noteq> 0 \<and> canonicalPath \<noteq> f_Path f
        then reject (f_Path f) ''instance paths must be encoded inline (field id must be 0)''
        else if f_id f \<noteq> 0 \<and> (case IDFor (sc_registry S) canonicalPath of Some i \<Rightarrow> f_id f \<noteq> i | None \<Rightarrow> False)
        then reject (f_Path f) ''field id %d does not match registry id %d''
        else if value_Tag (f_Val f) = 0x00 then None
        else if \<not> tagMatchesParamType (pi_Type info) (value_Tag (f_Val f))
        then reject (f_Path f) ''tag %s does not match parameter type %s''
        else validateValueFast (sc_ParseCIDR S) (f_Path f) info (f_Val f))"

fun validate_fields :: "('z schema_scheme) \<Rightarrow> bytes set \<Rightarrow> wfield list \<Rightarrow> verdict" where
  "validate_fields S seen [] = None"
| "validate_fields S seen (f # fs) =
     (if f_Path f = [] then reject [] ''field[%d] has empty path''
      else if f_Path f \<in> seen then reject (f_Path f) ''duplicate field path''
      else case ValidateFieldFast S f of Some e \<Rightarrow> Some e | None \<Rightarrow> validate_fields S (insert (f_Path f) seen) fs)"

definition ValidateMessageFast :: "('z schema_scheme) \<Rightarrow> wmessage \<Rightarrow> verdict" where
  "ValidateMessageFast S m = validate_fields S {} (m_Fields m)"


section \<open>What a conforming value is\<close>

text \<open>
  The reference: a value conforms to a parameter definition when it has the constructor of the type and
  respects the limits, the numbers compared as integers. The table gives limits as signed 64-bit
  integers; for an unsigned parameter a negative one stands for its two's complement, so a negative
  maximum excludes nothing a signed limit could exclude. The length of a list of strings is the length of
  the strings joined by commas.
\<close>

definition unsigned_bound :: "int \<Rightarrow> int" where
  "unsigned_bound m = (if m < 0 then m + 2 ^ 64 else m)"

definition within :: "int option \<Rightarrow> int option \<Rightarrow> int \<Rightarrow> bool" where
  "within lo hi v \<longleftrightarrow> (\<forall>m. lo = Some m \<longrightarrow> m \<le> v) \<and> (\<forall>m. hi = Some m \<longrightarrow> v \<le> m)"

definition length_ok :: "limits \<Rightarrow> int \<Rightarrow> bool" where
  "length_ok l n \<longleftrightarrow> (0 < l_MinLength l \<longrightarrow> l_MinLength l \<le> n) \<and> (0 < l_MaxLength l \<longrightarrow> n \<le> l_MaxLength l)"

definition decimal_ok :: "limits \<Rightarrow> u64 \<Rightarrow> bool" where
  "decimal_ok l v \<longleftrightarrow> \<not> float_special v \<and>
     (\<forall>m. l_MinF l = Some m \<or> m \<in> float_of_int64 ` set_option (l_Min l) \<longrightarrow> \<not> float_less v m) \<and>
     (\<forall>m. l_MaxF l = Some m \<or> m \<in> float_of_int64 ` set_option (l_Max l) \<longrightarrow> \<not> float_less m v)"

definition string_ok :: "param_info \<Rightarrow> bytes \<Rightarrow> bool" where
  "string_ok info s \<longleftrightarrow> (pi_enumSet info = [] \<or> s \<in> set (pi_enumSet info)) \<and>
     (\<forall>match. pi_pattern info = Some match \<longrightarrow> match s) \<and> (pi_expectsBase64String info \<longrightarrow> s = [] \<or> base64_ok s)"

definition free_form :: "param_info \<Rightarrow> bool" where
  "free_form info \<longleftrightarrow>
     pi_enumSet info = [] \<and> pi_pattern info = None \<and> \<not> pi_listPathRef info \<and> \<not> pi_listCIDR info"

fun item_ok :: "(bytes \<Rightarrow> bool) \<Rightarrow> param_info \<Rightarrow> wvalue \<Rightarrow> bool" where
  "item_ok cidr info VNull = False"
| "item_ok cidr info (VList _) = False"
| "item_ok cidr info (VString s) =
     (string_ok info s \<and> (pi_listPathRef info \<longrightarrow> s \<noteq> []) \<and> (pi_listCIDR info \<longrightarrow> s = [] \<or> cidr s))"
| "item_ok cidr info _ = free_form info"

definition is_string :: "wvalue \<Rightarrow> bool" where
  "is_string v \<longleftrightarrow> value_Tag v = 0x06"

definition list_ok :: "(bytes \<Rightarrow> bool) \<Rightarrow> param_info \<Rightarrow> wvalue list \<Rightarrow> bool" where
  "list_ok cidr info vs \<longleftrightarrow>
     (let l = pi_Limits info; n = int (length vs) in
      (0 < l_MinItems l \<longrightarrow> l_MinItems l \<le> n) \<and> (0 < l_MaxItems l \<longrightarrow> n \<le> l_MaxItems l) \<and>
      list_all (item_ok cidr info) vs \<and>
      (list_all is_string vs \<longrightarrow> length_ok l (int (length (join_on 0x2C (map AsString vs))))))"

definition value_ok :: "(bytes \<Rightarrow> bool) \<Rightarrow> param_info \<Rightarrow> wvalue \<Rightarrow> bool" where
  "value_ok cidr info v =
     (let l = pi_Limits info;
          natural = (\<exists>n. v = VUint n \<and> within (map_option unsigned_bound (l_Min l)) (map_option unsigned_bound (l_Max l)) (uint n));
          integer = (\<exists>n. v = VInt n \<and> within (l_Min l) (l_Max l) (sint n));
          binary = (\<exists>b. v = VBytes b \<and> length_ok l (int (length b)));
          text = (\<exists>b. v = VString b \<and> length_ok l (int (length b)) \<and> string_ok info b)
      in case pi_Type info of
           TypeBoolean \<Rightarrow> v = VFalse \<or> v = VTrue
         | TypeUnsignedInt \<Rightarrow> natural | TypeUnsignedLong \<Rightarrow> natural | TypeStatsCounter \<Rightarrow> natural
         | TypeInt \<Rightarrow> integer | TypeLong \<Rightarrow> integer
         | TypeDecimal \<Rightarrow> \<exists>f. v = VFloat f \<and> decimal_ok l f
         | TypeDateTime \<Rightarrow> \<exists>n. v = VTime n
         | TypeBase64 \<Rightarrow> binary | TypeHexBinary \<Rightarrow> binary
         | TypeIPv4Address \<Rightarrow> \<exists>b. v = VIP4 b \<and> length b = 4
         | TypeIPv6Address \<Rightarrow> \<exists>b. v = VIP6 b \<and> length b = 16
         | TypeIPv4Prefix \<Rightarrow> \<exists>a n. v = VIP4Pfx (a @ [n]) \<and> length a = 4 \<and> n \<le> 32
         | TypeIPv6Prefix \<Rightarrow> \<exists>a n. v = VIP6Pfx (a @ [n]) \<and> length a = 16 \<and> n \<le> 128
         | TypeMACAddress \<Rightarrow> \<exists>b. v = VMAC b \<and> length b = 6
         | TypeList \<Rightarrow> \<exists>vs. v = VList vs \<and> list_ok cidr info vs
         | _ \<Rightarrow> text)"

definition conforms :: "('z schema_scheme) \<Rightarrow> wfield \<Rightarrow> bool" where
  "conforms S f \<longleftrightarrow>
     (\<exists>info c. lookupSafeParam S (f_Path f) = Some (info, c) \<and>
        (f_id f \<noteq> 0 \<longrightarrow> c = f_Path f \<and> IDFor (sc_registry S) c \<in> {None, Some (f_id f)}) \<and>
        (f_Val f = VNull \<or> value_ok (sc_ParseCIDR S) info (f_Val f)))"

section \<open>The checks accept exactly the conforming values\<close>

lemma validate_items_ok:
  "list_all (item_ok cidr info) vs \<Longrightarrow>
     validate_items cidr path info i n strings vs =
       Inr (n + (\<Sum>v \<leftarrow> filter is_string vs. int (length (AsString v))) +
              int (length (filter is_string (if i = 0 then tl vs else vs))), strings \<and> list_all is_string vs)"
proof (induction vs arbitrary: i n strings)
  case (Cons v vs)
  then show ?case
    by (cases v) (auto simp: validateStringValueFast_def string_ok_def is_string_def free_form_def AsString_def
        Let_def split: option.split)
qed simp

lemma validate_items_bad:
  "\<not> list_all (item_ok cidr info) vs \<Longrightarrow> \<exists>e. validate_items cidr path info i n strings vs = Inl e"
proof (induction vs arbitrary: i n strings)
  case (Cons v vs)
  then show ?case
    by (cases v) (auto simp: validateStringValueFast_def string_ok_def is_string_def free_form_def AsString_def
        Let_def split: option.split)
qed simp

lemma join_length: "int (length (join_on c ps)) = (\<Sum>p \<leftarrow> ps. int (length p)) + int (length (tl ps))"
  by (induction c ps rule: join_on.induct) auto

lemma validateListValueFast_iff: "validateListValueFast cidr path info vs = None \<longleftrightarrow> list_ok cidr info vs"
proof (cases "list_all (item_ok cidr info) vs")
  case True
  have "int (length (join_on 0x2C (map AsString vs))) =
          (\<Sum>v \<leftarrow> filter is_string vs. int (length (AsString v))) + int (length (filter is_string (tl vs)))"
    if "list_all is_string vs"
  proof -
    have "filter is_string vs = vs" "filter is_string (tl vs) = tl vs"
      using that by (auto simp: list_all_iff filter_id_conv dest: list.set_sel(2) [rotated]) (metis list.sel(2) list.set_sel(2))
    then show ?thesis by (simp add: join_length map_tl o_def)
  qed
  then show ?thesis
    using True by (auto simp: validateListValueFast_def list_ok_def Let_def validate_items_ok [OF True] length_ok_def)
next
  case False
  then obtain e where "validate_items cidr path info 0 0 True vs = Inl e" using validate_items_bad by blast
  then show ?thesis using False by (auto simp: validateListValueFast_def list_ok_def Let_def)
qed


definition limits_ok :: "limits \<Rightarrow> bool" where
  "limits_ok l \<longleftrightarrow> (\<forall>m \<in> set_option (l_Min l) \<union> set_option (l_Max l). - (2 ^ 63) \<le> m \<and> m < 2 ^ 63)"

definition schema_ok :: "('z schema_scheme) \<Rightarrow> bool" where
  "schema_ok S \<longleftrightarrow> (\<forall>info \<in> ran (sc_safeParamIndex S). limits_ok (pi_Limits info))"

lemma uint_limit: "\<lbrakk>- (2 ^ 63) \<le> m; m < 2 ^ 63\<rbrakk> \<Longrightarrow> uint (word_of_int m :: u64) = unsigned_bound m"
proof -
  assume m: "- (2 ^ 63) \<le> m" "m < (2 ^ 63 :: int)"
  have "m mod 2 ^ 64 = unsigned_bound m"
  proof (cases "m < 0")
    case True
    then have "(m + 2 ^ 64) mod 2 ^ 64 = m + 2 ^ 64" using m by (intro mod_pos_pos_trivial) auto
    then show ?thesis using True by (simp add: unsigned_bound_def)
  qed (use m in \<open>simp add: unsigned_bound_def\<close>)
  then show ?thesis by (simp add: uint_word_of_int)
qed

lemma validateUnsignedLimits_iff:
  "limits_ok l \<Longrightarrow> validateUnsignedLimits path l v = None \<longleftrightarrow>
     within (map_option unsigned_bound (l_Min l)) (map_option unsigned_bound (l_Max l)) (uint v)"
  by (auto simp: validateUnsignedLimits_def within_def limits_ok_def word_less_def uint_limit not_less split: option.splits)

lemma validateSignedLimits_iff: "validateSignedLimits path l v = None \<longleftrightarrow> within (l_Min l) (l_Max l) v"
  by (auto simp: validateSignedLimits_def within_def split: option.splits)

lemma validateDecimalLimits_iff: "validateDecimalLimits path l v = None \<longleftrightarrow> decimal_ok l v"
  by (auto simp: validateDecimalLimits_def decimal_ok_def split: option.splits)

lemma validateBinaryLimits_iff: "validateBinaryLimits path l n = None \<longleftrightarrow> length_ok l n"
  by (auto simp: validateBinaryLimits_def length_ok_def)

lemma validateStringValueFast_iff:
  "validateStringValueFast path info v True = None \<longleftrightarrow> length_ok (pi_Limits info) (int (length v)) \<and> string_ok info v"
  by (auto simp: validateStringValueFast_def string_ok_def length_ok_def Let_def split: option.splits)

lemmas verdict_iffs = validateUnsignedLimits_iff validateSignedLimits_iff validateDecimalLimits_iff
  validateBinaryLimits_iff validateStringValueFast_iff validateListValueFast_iff

lemma prefix_iff: "length b = Suc n \<and> b ! n \<le> k \<longleftrightarrow> (\<exists>a m. b = a @ [m] \<and> length a = n \<and> m \<le> k)"
proof
  assume l: "length b = Suc n \<and> b ! n \<le> k"
  then have "b = take n b @ [b ! n]" by (metis lessI order_refl take_Suc_conv_app_nth take_all)
  moreover have "length (take n b) = n" using l by simp
  ultimately show "\<exists>a m. b = a @ [m] \<and> length a = n \<and> m \<le> k" using l by blast
qed (auto simp: nth_append)

lemma prefix_lengths:
  "(length b = 5 \<and> b ! 4 \<le> k) \<longleftrightarrow> (\<exists>a m. b = a @ [m] \<and> length a = 4 \<and> m \<le> k)"
  "(length b = 17 \<and> b ! 16 \<le> k) \<longleftrightarrow> (\<exists>a m. b = a @ [m] \<and> length a = 16 \<and> m \<le> k)"
  using prefix_iff [of b 4 k] prefix_iff [of b 16 k] by simp_all

lemma validateValueFast_iff:
  assumes "limits_ok (pi_Limits info)" "tagMatchesParamType (pi_Type info) (value_Tag v)"
  shows "validateValueFast cidr path info v = None \<longleftrightarrow> value_ok cidr info v"
  using assms
  by (cases "pi_Type info"; cases v; simp add: validateValueFast_def value_ok_def tagMatchesParamType_def
      TagForParamType_def verdict_iffs Let_def AsInt_def AsString_def not_less prefix_lengths [symmetric]; auto simp: not_le)

lemma value_ok_tag: "value_ok cidr info v \<Longrightarrow> tagMatchesParamType (pi_Type info) (value_Tag v)"
  by (cases "pi_Type info") (auto simp: value_ok_def tagMatchesParamType_def TagForParamType_def Let_def)

lemma tag_null_iff: "value_Tag v = 0 \<longleftrightarrow> v = VNull"
  by (cases v) auto

lemma lookupSafeParam_ok: "\<lbrakk>schema_ok S; lookupSafeParam S p = Some (info, c)\<rbrakk> \<Longrightarrow> limits_ok (pi_Limits info)"
  by (auto simp: schema_ok_def lookupSafeParam_def ran_def split: option.splits)

lemma ValidateFieldFast_iff: "schema_ok S \<Longrightarrow> ValidateFieldFast S f = None \<longleftrightarrow> conforms S f"
proof (cases "lookupSafeParam S (f_Path f)")
  case (Some r)
  assume S: "schema_ok S"
  obtain info c where r: "r = (info, c)" by fastforce
  have l: "limits_ok (pi_Limits info)" using lookupSafeParam_ok [OF S] Some r by blast
  have ids: "(case IDFor (sc_registry S) c of None \<Rightarrow> False | Some i \<Rightarrow> f_id f \<noteq> i) \<longleftrightarrow>
    IDFor (sc_registry S) c \<notin> {None, Some (f_id f)}" by (auto split: option.split)
  show ?thesis
  proof (cases "tagMatchesParamType (pi_Type info) (value_Tag (f_Val f))")
    case True
    then show ?thesis
      using validateValueFast_iff [OF l True, of "sc_ParseCIDR S" "f_Path f"] Some r
      by (auto simp: ValidateFieldFast_def conforms_def ids tag_null_iff)
  next
    case False
    then have "\<not> value_ok (sc_ParseCIDR S) info (f_Val f)" using value_ok_tag by blast
    then show ?thesis using False Some r by (auto simp: ValidateFieldFast_def conforms_def ids tag_null_iff)
  qed
qed (simp add: ValidateFieldFast_def conforms_def)

lemma validate_fields_iff:
  "schema_ok S \<Longrightarrow> validate_fields S seen fs = None \<longleftrightarrow>
     distinct (map f_Path fs) \<and> (\<forall>f \<in> set fs. f_Path f \<noteq> [] \<and> f_Path f \<notin> seen \<and> conforms S f)"
proof (induction fs arbitrary: seen)
  case (Cons f fs)
  then show ?case using ValidateFieldFast_iff [of S f] by (auto simp: image_iff split: option.split)
qed simp

text \<open>
  C23. \<^verbatim>\<open>ValidateMessageFast\<close> accepts a message exactly when its paths are non-empty and distinct and every
  field conforms to the schema: the path is known directly or as an instance of a template, a field id
  appears only on a directly known path and agrees with the registry, and the value is null or has the
  type of the parameter and respects its limits.
\<close>
theorem message_validation_exact:
  assumes "schema_ok S"
  shows "ValidateMessageFast S m = None \<longleftrightarrow>
           distinct (map f_Path (m_Fields m)) \<and> (\<forall>f \<in> set (m_Fields m). f_Path f \<noteq> [] \<and> conforms S f)"
  using validate_fields_iff [OF assms, of "{}"] by (simp add: ValidateMessageFast_def)


section \<open>Instance paths\<close>

text \<open>\<open>instantiate parts ns\<close> fills the successive \<^verbatim>\<open>{i}\<close> segments of a template with instance numbers.\<close>

fun instantiate :: "bytes list \<Rightarrow> nat list \<Rightarrow> bytes list" where
  "instantiate [] ns = []"
| "instantiate (p # ps) ns =
     (if p = ascii ''{i}'' then (case ns of n # ns' \<Rightarrow> nat_digits n # instantiate ps ns' | [] \<Rightarrow> p # instantiate ps [])
      else p # instantiate ps ns)"

definition template :: "bytes list \<Rightarrow> bool" where
  "template parts \<longleftrightarrow> (\<forall>p \<in> set parts. 0x2E \<notin> set p \<and> \<not> isNumericPathSegment p) \<and> join_on 0x2E parts \<noteq> []"

definition canonical_part :: "bytes \<Rightarrow> bytes" where
  "canonical_part part =
     (if part = [] \<or> part = ascii ''{i}'' then part else if isNumericPathSegment part then ascii ''{i}'' else part)"

lemma canonicalParamPath_parts:
  "\<lbrakk>\<forall>p \<in> set ps. 0x2E \<notin> set p; ps \<noteq> []; join_on 0x2E ps \<noteq> []\<rbrakk> \<Longrightarrow>
     canonicalParamPath (join_on 0x2E ps) = join_on 0x2E (map canonical_part ps)"
  by (simp add: canonicalParamPath_def split_join canonical_part_def [abs_def])

lemma digits_segment: "isNumericPathSegment (nat_digits n)" "0x2E \<notin> set (nat_digits n)"
  using nat_digits_ok [of n] nat_digits_only [of "0x2E" n]
  by (simp_all add: isNumericPathSegment_def is_digit_def word_le_nat_alt)

lemma canonical_part_digits: "canonical_part (nat_digits n) = ascii ''{i}''"
proof -
  have "\<not> isNumericPathSegment (ascii ''{i}'')" by (simp add: isNumericPathSegment_def is_digit_def word_le_nat_alt)
  then show ?thesis using digits_segment(1) [of n] by (auto simp: canonical_part_def isNumericPathSegment_def simp del: ascii_simps)
qed

lemma instantiate_no_dot:
  "\<forall>p \<in> set ps. 0x2E \<notin> set p \<Longrightarrow> \<forall>p \<in> set (instantiate ps ns). 0x2E \<notin> set p"
  by (induction ps ns rule: instantiate.induct) (auto simp: digits_segment(2) simp del: ascii_simps split: list.split)

lemma instantiate_canonical:
  "\<forall>p \<in> set ps. \<not> isNumericPathSegment p \<Longrightarrow> map canonical_part (instantiate ps ns) = ps"
proof (induction ps ns rule: instantiate.induct)
  case (2 p ps ns)
  have "canonical_part p = p" "canonical_part (ascii ''{i}'') = ascii ''{i}''"
    using "2.prems" by (simp_all add: canonical_part_def)
  then show ?case using "2.IH" "2.prems"
    by (cases ns) (simp_all add: canonical_part_digits del: ascii_simps)
qed simp

lemma join_on_empty: "join_on c ps = [] \<longleftrightarrow> ps = [] \<or> ps = [[]]"
  by (cases "(c, ps)" rule: join_on.cases) auto

text \<open>
  An instance of a template path is looked up as the template: filling the \<^verbatim>\<open>{i}\<close> segments of a
  template with any instance numbers gives a path whose canonical form is the template, so unless the
  instance path is itself in the index, its definition is the template's.
\<close>
theorem instance_path_lookup:
  assumes "template parts" "sc_safeParamIndex S (join_on 0x2E (instantiate parts ns)) = None"
  shows "canonicalParamPath (join_on 0x2E (instantiate parts ns)) = join_on 0x2E parts \<and>
         lookupSafeParam S (join_on 0x2E (instantiate parts ns)) =
           map_option (\<lambda>info. (info, join_on 0x2E parts)) (sc_safeParamIndex S (join_on 0x2E parts))"
proof -
  have parts: "\<forall>p \<in> set parts. 0x2E \<notin> set p \<and> \<not> isNumericPathSegment p" "join_on 0x2E parts \<noteq> []"
    using assms(1) by (auto simp: template_def)
  then have "parts \<noteq> []" by auto
  then have "canonicalParamPath (join_on 0x2E (instantiate parts ns)) = join_on 0x2E parts"
  proof -
    have canonical: "map canonical_part (instantiate parts ns) = parts"
      using parts(1) by (intro instantiate_canonical) simp
    moreover have "instantiate parts ns \<noteq> []" "join_on 0x2E (instantiate parts ns) \<noteq> []"
      using canonical \<open>parts \<noteq> []\<close> parts(2) by (auto simp: join_on_empty canonical_part_def)
    ultimately show ?thesis
      using instantiate_no_dot [of parts ns] parts(1) by (simp add: canonicalParamPath_parts)
  qed
  then show ?thesis using assms(2) by (simp add: lookupSafeParam_def)
qed

definition ex_limits :: limits where
  "ex_limits = \<lparr>l_Min = Some 1, l_Max = Some (-1), l_MinF = None, l_MaxF = None, l_MinLength = 0, l_MaxLength = 0,
     l_MinItems = 0, l_MaxItems = 0\<rparr>"

definition ex_info :: param_info where
  "ex_info = \<lparr>pi_Type = TypeUnsignedInt, pi_Limits = ex_limits, pi_enumSet = [], pi_pattern = None,
     pi_expectsBase64String = False, pi_listPathRef = False, pi_listCIDR = False\<rparr>"

definition ex_template :: "bytes list" where
  "ex_template = [ascii ''X'', ascii ''{i}'', ascii ''MTU'']"

definition ex_schema :: schema where
  "ex_schema = \<lparr>sc_registry = buildRegistry [], sc_safeParamIndex = [join_on 0x2E ex_template \<mapsto> ex_info],
     sc_ParseCIDR = (\<lambda>_. False)\<rparr>"

definition ex_mtu :: wmessage where
  "ex_mtu = \<lparr>m_DeviceID = [], m_Timestamp = time_zero,
     m_Fields = [\<lparr>f_id = 0, f_Path = ascii ''X.7.MTU'', f_Val = VUint 1500\<rparr>]\<rparr>"

lemma ex_schema_ok: "schema_ok ex_schema"
  by (simp add: schema_ok_def ex_schema_def ex_info_def ex_limits_def limits_ok_def ran_def)

lemma ex_template_ok: "template ex_template"
  by (simp add: template_def ex_template_def isNumericPathSegment_def is_digit_def word_le_nat_alt)

lemma ex_instance: "join_on 0x2E (instantiate ex_template [7]) = ascii ''X.7.MTU''"
  by (simp add: ex_template_def nat_digits.simps)

theorem instance_path_lookup_witness:
  "lookupSafeParam ex_schema (join_on 0x2E (instantiate ex_template [7])) = Some (ex_info, join_on 0x2E ex_template)"
proof -
  have "sc_safeParamIndex ex_schema (join_on 0x2E (instantiate ex_template [7])) = None"
    unfolding ex_instance by (simp add: ex_schema_def ex_template_def)
  from instance_path_lookup [OF ex_template_ok this] show ?thesis by (simp add: ex_schema_def)
qed

theorem message_validation_exact_witness:
  "ValidateMessageFast ex_schema ex_mtu = None \<and> conforms ex_schema \<lparr>f_id = 0, f_Path = ascii ''X.7.MTU'', f_Val = VUint 1500\<rparr>"
proof -
  have "canonicalParamPath (ascii ''X.7.MTU'') = join_on 0x2E ex_template"
    by (simp add: canonicalParamPath_def ex_template_def isNumericPathSegment_def is_digit_def word_le_nat_alt)
  then have "lookupSafeParam ex_schema (ascii ''X.7.MTU'') = Some (ex_info, join_on 0x2E ex_template)"
    by (simp add: lookupSafeParam_def ex_schema_def ex_template_def)
  then have "ValidateMessageFast ex_schema ex_mtu = None"
    by (simp add: ValidateMessageFast_def ex_mtu_def ValidateFieldFast_def ex_info_def tagMatchesParamType_def
        TagForParamType_def validateValueFast_def validateUnsignedLimits_def ex_limits_def del: ascii_simps) simp
  then show ?thesis using message_validation_exact [OF ex_schema_ok, of ex_mtu] by (simp add: ex_mtu_def)
qed

end
