(* ===== verification/Usp_Wire.thy ===== *)
theory Usp_Wire
  imports Message_Validation
begin

text \<open>
  The wire primitives of \<^verbatim>\<open>internal/wusp/usp_transport.go\<close>: the buffer writers, the reader and the size
  estimates. A writer is the bytes it appends; a reader takes the unread bytes and returns a value and
  the bytes after it, or an error. \<^verbatim>\<open>make([]T, 0, count)\<close> panics when the slice would exceed the address
  space of a 64-bit platform (\<^verbatim>\<open>maxAlloc\<close> of the Go runtime); the panic is the error value \<open>PanicMakeslice\<close>.
  A Go \<^verbatim>\<open>int\<close> or \<^verbatim>\<open>int64\<close> is an \<open>int\<close>.
\<close>

datatype transport_error =
    TransportMalformed string
  | TransportUnsupported byte
  | TransportMethodRequired
  | TransportInvalid validation_error
  | TransportFrame wusp_error
  | TransportUnexpectedEOF
  | PanicMakeslice

record transfer_request =
  tq_Path :: bytes
  tq_URI :: bytes
  tq_Filename :: bytes
  tq_ContentType :: bytes
  tq_Payload :: bytes
  tq_Metadata :: metadata

record transfer_result =
  ts_Path :: bytes
  ts_URI :: bytes
  ts_Bytes :: int
  ts_Metadata :: metadata

record broadband_model =
  bm_ID :: bytes
  bm_Name :: bytes
  bm_ModelVersion :: bytes
  bm_FirstVersion :: bytes
  bm_LatestVersion :: bytes
  bm_Source :: bytes
  bm_SourceURL :: bytes
  bm_ObjectCount :: int
  bm_ParamCount :: int

record supported_object =
  so_Path :: bytes
  so_MultiInstance :: bool
  so_SinceVersion :: bytes

record supported_param =
  sp_Path :: bytes
  sp_Type :: bytes
  sp_Access :: bytes
  sp_SinceVersion :: bytes

record supported_dm =
  dm_RootDataModelVersion :: bytes
  dm_Models :: "broadband_model list"
  dm_Objects :: "supported_object list"
  dm_Params :: "supported_param list"

record protocol_info =
  po_Name :: bytes
  po_Version :: u64
  po_Methods :: "bytes list"
  po_Compression :: "bytes list"
  po_ControlTransport :: bytes
  po_TransferTransport :: bytes
  po_MaxControlPayload :: u64
  po_RecommendedChunkSize :: u64
  po_TunnelOnly :: bool
  po_ReliableTransfer :: bool

record transport_header =
  h_Version :: byte
  h_Kind :: byte
  h_Method :: usp_method
  h_Flags :: byte
  h_ID :: u64

definition uspTransportVersion :: byte where "uspTransportVersion = 1"
definition uspTransportKindRequest :: byte where "uspTransportKindRequest = 1"
definition uspTransportKindResponse :: byte where "uspTransportKindResponse = 2"

section \<open>Writers\<close>

definition writeHeader :: "transport_header \<Rightarrow> bytes" where
  "writeHeader h = [h_Version h, h_Kind h, h_Method h, h_Flags h] @ put_le 8 (h_ID h)"

definition writeUvarint :: "u64 \<Rightarrow> bytes" where
  "writeUvarint v = putUvarint v"

definition writeString :: "bytes \<Rightarrow> bytes" where
  "writeString v = writeUvarint (of_nat (length v)) @ v"

definition writeBytes :: "bytes \<Rightarrow> bytes" where
  "writeBytes v = writeUvarint (of_nat (length v)) @ v"

text \<open>A count and the items, the shape of every list on the wire.\<close>

definition write_list :: "('a \<Rightarrow> bytes) \<Rightarrow> 'a list \<Rightarrow> bytes" where
  "write_list wr xs = writeUvarint (of_nat (length xs)) @ concat (map wr xs)"

definition writeStringList :: "bytes list \<Rightarrow> bytes" where
  "writeStringList vs = write_list writeString vs"

definition writeUint64List :: "u64 list \<Rightarrow> bytes" where
  "writeUint64List vs = write_list writeUvarint vs"

definition writePathSelector :: "u64 \<times> u64 list \<Rightarrow> bytes" where
  "writePathSelector s = writeUvarint (fst s) @ writeUint64List (snd s)"

text \<open>The instances of the \<open>i\<close>-th code; none when \<^verbatim>\<open>pathInstances\<close> is too short.\<close>

definition selector_instances :: "u64 list list \<Rightarrow> nat \<Rightarrow> u64 list" where
  "selector_instances pathInstances i = (if i < length pathInstances then pathInstances ! i else [])"

definition selectors :: "u64 list \<Rightarrow> u64 list list \<Rightarrow> (u64 \<times> u64 list) list" where
  "selectors pathCodes pathInstances =
     map (\<lambda>i. (pathCodes ! i, selector_instances pathInstances i)) [0..<length pathCodes]"

definition writePathSelectors :: "u64 list \<Rightarrow> u64 list list \<Rightarrow> bytes" where
  "writePathSelectors pathCodes pathInstances = write_list writePathSelector (selectors pathCodes pathInstances)"

definition writeMetadata :: "metadata \<Rightarrow> bytes" where
  "writeMetadata md = write_list (\<lambda>e. writeString (fst e) @ writeString (snd e)) md"

definition writeTransferRequest :: "transfer_request \<Rightarrow> bytes" where
  "writeTransferRequest r =
     writeString (tq_Path r) @ writeString (tq_URI r) @ writeString (tq_Filename r) @
     writeString (tq_ContentType r) @ writeBytes (tq_Payload r) @ writeMetadata (tq_Metadata r)"

definition writeTransferResult :: "transfer_result \<Rightarrow> bytes" where
  "writeTransferResult r =
     writeString (ts_Path r) @ writeString (ts_URI r) @ writeUvarint (word_of_int (ts_Bytes r)) @
     writeMetadata (ts_Metadata r)"

definition writeBool :: "bool \<Rightarrow> bytes" where
  "writeBool v = writeUvarint (if v then 1 else 0)"

definition writeBroadbandDataModel :: "broadband_model \<Rightarrow> bytes" where
  "writeBroadbandDataModel m =
     writeString (bm_ID m) @ writeString (bm_Name m) @ writeString (bm_ModelVersion m) @
     writeString (bm_FirstVersion m) @ writeString (bm_LatestVersion m) @ writeString (bm_Source m) @
     writeString (bm_SourceURL m) @ writeUvarint (word_of_int (bm_ObjectCount m)) @
     writeUvarint (word_of_int (bm_ParamCount m))"

definition write_object :: "supported_object \<Rightarrow> bytes" where
  "write_object ob = writeString (so_Path ob) @ writeBool (so_MultiInstance ob) @ writeString (so_SinceVersion ob)"

definition write_param :: "supported_param \<Rightarrow> bytes" where
  "write_param p =
     writeString (sp_Path p) @ writeString (sp_Type p) @ writeString (sp_Access p) @ writeString (sp_SinceVersion p)"

definition writeSupportedDataModel :: "supported_dm \<Rightarrow> bytes" where
  "writeSupportedDataModel m =
     writeString (dm_RootDataModelVersion m) @ write_list writeBroadbandDataModel (dm_Models m) @
     write_list write_object (dm_Objects m) @ write_list write_param (dm_Params m)"

definition writeProtocolInfo :: "protocol_info \<Rightarrow> bytes" where
  "writeProtocolInfo i =
     writeString (po_Name i) @ writeUvarint (po_Version i) @ writeStringList (po_Methods i) @
     writeStringList (po_Compression i) @ writeString (po_ControlTransport i) @
     writeString (po_TransferTransport i) @ writeUvarint (po_MaxControlPayload i) @
     writeUvarint (po_RecommendedChunkSize i) @ writeBool (po_TunnelOnly i) @ writeBool (po_ReliableTransfer i)"

section \<open>Size estimates\<close>

function estimateUvarintSize :: "u64 \<Rightarrow> nat" where
  "estimateUvarintSize v = (if 0x80 \<le> v then Suc (estimateUvarintSize (drop_bit 7 v)) else 1)"
  by pat_completeness auto
termination
proof (relation "measure unat", goal_cases)
  case (2 v)
  then have "128 \<le> unat v" by (simp add: word_le_nat_alt)
  moreover have "unat (drop_bit 7 v) = unat v div 128"
    by (simp only: unat_drop_bit_eq) (simp add: drop_bit_eq_div)
  ultimately show ?case by simp
qed simp

declare estimateUvarintSize.simps [simp del]

definition estimateStringSize :: "bytes \<Rightarrow> nat" where
  "estimateStringSize v = estimateUvarintSize (of_nat (length v)) + length v"

definition estimateBlobSize :: "bytes \<Rightarrow> nat" where
  "estimateBlobSize v = estimateUvarintSize (of_nat (length v)) + length v"

definition estimateStringListSize :: "bytes list \<Rightarrow> nat" where
  "estimateStringListSize vs = estimateUvarintSize (of_nat (length vs)) + sum_list (map estimateStringSize vs)"

definition estimateUint64ListSize :: "u64 list \<Rightarrow> nat" where
  "estimateUint64ListSize vs = estimateUvarintSize (of_nat (length vs)) + sum_list (map estimateUvarintSize vs)"

definition estimatePathSelectorsSize :: "u64 list \<Rightarrow> u64 list list \<Rightarrow> nat" where
  "estimatePathSelectorsSize pathCodes pathInstances =
     (if pathCodes = [] then 0
      else estimateUvarintSize (of_nat (length pathCodes)) +
        (\<Sum>i \<leftarrow> [0..<length pathCodes]. estimateUvarintSize (pathCodes ! i) +
           (if i < length pathInstances then estimateUint64ListSize (pathInstances ! i) else estimateUvarintSize 0)))"

definition estimatePathSelectorSize :: "u64 \<Rightarrow> u64 list \<Rightarrow> nat" where
  "estimatePathSelectorSize code instances =
     (if code = 0 \<and> instances = [] then 0 else estimateUvarintSize code + estimateUint64ListSize instances)"

definition estimateMetadataSize :: "metadata \<Rightarrow> nat" where
  "estimateMetadataSize md =
     estimateUvarintSize (of_nat (length md)) +
     (\<Sum>e \<leftarrow> md. estimateStringSize (fst e) + estimateStringSize (snd e))"

definition estimateTransferRequestSize :: "transfer_request \<Rightarrow> nat" where
  "estimateTransferRequestSize r =
     estimateStringSize (tq_Path r) + estimateStringSize (tq_URI r) + estimateStringSize (tq_Filename r) +
     estimateStringSize (tq_ContentType r) + estimateBlobSize (tq_Payload r) + estimateMetadataSize (tq_Metadata r)"

definition estimateTransferResultSize :: "transfer_result \<Rightarrow> nat" where
  "estimateTransferResultSize r =
     estimateStringSize (ts_Path r) + estimateStringSize (ts_URI r) +
     estimateUvarintSize (word_of_int (ts_Bytes r)) + estimateMetadataSize (ts_Metadata r)"

definition estimateBroadbandDataModelSize :: "broadband_model \<Rightarrow> nat" where
  "estimateBroadbandDataModelSize m =
     estimateStringSize (bm_ID m) + estimateStringSize (bm_Name m) + estimateStringSize (bm_ModelVersion m) +
     estimateStringSize (bm_FirstVersion m) + estimateStringSize (bm_LatestVersion m) +
     estimateStringSize (bm_Source m) + estimateStringSize (bm_SourceURL m) +
     estimateUvarintSize (word_of_int (bm_ObjectCount m)) + estimateUvarintSize (word_of_int (bm_ParamCount m))"

definition estimateSupportedDataModelSize :: "supported_dm \<Rightarrow> nat" where
  "estimateSupportedDataModelSize m =
     estimateStringSize (dm_RootDataModelVersion m) + estimateUvarintSize (of_nat (length (dm_Models m))) +
     sum_list (map estimateBroadbandDataModelSize (dm_Models m)) +
     estimateUvarintSize (of_nat (length (dm_Objects m))) +
     (\<Sum>ob \<leftarrow> dm_Objects m. estimateStringSize (so_Path ob) + 1 + estimateStringSize (so_SinceVersion ob)) +
     estimateUvarintSize (of_nat (length (dm_Params m))) +
     (\<Sum>p \<leftarrow> dm_Params m. estimateStringSize (sp_Path p) + estimateStringSize (sp_Type p) +
        estimateStringSize (sp_Access p) + estimateStringSize (sp_SinceVersion p))"

definition estimateProtocolInfoSize :: "protocol_info \<Rightarrow> nat" where
  "estimateProtocolInfoSize i =
     estimateStringSize (po_Name i) + estimateUvarintSize (po_Version i) + estimateStringListSize (po_Methods i) +
     estimateStringListSize (po_Compression i) + estimateStringSize (po_ControlTransport i) +
     estimateStringSize (po_TransferTransport i) + estimateUvarintSize (po_MaxControlPayload i) +
     estimateUvarintSize (po_RecommendedChunkSize i) + 2"

fun estimateValueEncodedSize :: "wvalue \<Rightarrow> nat" where
  "estimateValueEncodedSize (VUint n) = 1 + estimateUvarintSize n"
| "estimateValueEncodedSize (VInt n) = 1 + estimateUvarintSize (zigzag n)"
| "estimateValueEncodedSize (VTime n) = 1 + estimateUvarintSize (zigzag n)"
| "estimateValueEncodedSize (VFloat f) = 1 + 8"
| "estimateValueEncodedSize (VString b) = 1 + estimateBlobSize b"
| "estimateValueEncodedSize (VBytes b) = 1 + estimateBlobSize b"
| "estimateValueEncodedSize (VIP4 b) = 1 + 4"
| "estimateValueEncodedSize (VIP6 b) = 1 + 16"
| "estimateValueEncodedSize (VIP4Pfx b) = 1 + 5"
| "estimateValueEncodedSize (VIP6Pfx b) = 1 + 17"
| "estimateValueEncodedSize (VMAC b) = 1 + 6"
| "estimateValueEncodedSize (VList vs) =
     1 + estimateUvarintSize (of_nat (length vs)) + sum_list (map estimateValueEncodedSize vs)"
| "estimateValueEncodedSize _ = 1"

section \<open>Readers\<close>

type_synonym 'a reader = "bytes \<Rightarrow> transport_error + ('a \<times> bytes)"

definition rret :: "'a \<Rightarrow> 'a reader" where
  "rret x r = Inr (x, r)"

definition rbind :: "'a reader \<Rightarrow> ('a \<Rightarrow> 'b reader) \<Rightarrow> 'b reader" where
  "rbind rd f r = (case rd r of Inl e \<Rightarrow> Inl e | Inr (x, r') \<Rightarrow> f x r')"

definition rfail :: "transport_error \<Rightarrow> 'a reader" where
  "rfail e r = Inl e"

definition remainingAllZero :: "bytes \<Rightarrow> bool" where
  "remainingAllZero r = list_all (\<lambda>b. b = 0) r"

definition readHeader :: "transport_header reader" where
  "readHeader d =
     (if length d < 12 then Inl (TransportMalformed ''payload too short'')
      else if d ! 0 \<noteq> uspTransportVersion then Inl (TransportUnsupported (d ! 0))
      else Inr (\<lparr>h_Version = d ! 0, h_Kind = d ! 1, h_Method = d ! 2, h_Flags = d ! 3, h_ID = get_le (slice 4 12 d)\<rparr>,
                drop 12 d))"

definition tr_readUvarint :: "u64 reader" where
  "tr_readUvarint r = (case readUvarint r of Inl _ \<Rightarrow> Inl (TransportMalformed ''bad varint'') | Inr p \<Rightarrow> Inr p)"

definition readBytes :: "bytes reader" where
  "readBytes = rbind tr_readUvarint (\<lambda>n r.
     if length r < unat n then Inl (TransportMalformed ''short blob'') else Inr (take (unat n) r, drop (unat n) r))"

definition readString :: "bytes reader" where
  "readString = readBytes"

fun read_items :: "'a reader \<Rightarrow> nat \<Rightarrow> 'a list reader" where
  "read_items rd 0 = rret []"
| "read_items rd (Suc n) = rbind rd (\<lambda>x. rbind (read_items rd n) (\<lambda>xs. rret (x # xs)))"

definition maxAlloc :: nat where "maxAlloc = 2 ^ 48"

text \<open>A counted list whose slice is allocated up front with \<open>elem\<close> bytes for each item.\<close>

definition read_list :: "nat \<Rightarrow> 'a reader \<Rightarrow> 'a list reader" where
  "read_list elem rd = rbind tr_readUvarint (\<lambda>count.
     if maxAlloc < unat count * elem then rfail PanicMakeslice else read_items rd (unat count))"

definition readStringList :: "bytes list reader" where
  "readStringList = read_list 16 readString"

definition readUint64List :: "u64 list reader" where
  "readUint64List = read_list 8 tr_readUvarint"

definition readPathSelector :: "(u64 \<times> u64 list) reader" where
  "readPathSelector = rbind tr_readUvarint (\<lambda>code. rbind readUint64List (\<lambda>instances. rret (code, instances)))"

text \<open>The wider of the two slices, of 24-byte slice headers, decides whether the allocation panics.\<close>

definition readPathSelectors :: "(u64 list \<times> u64 list list) reader" where
  "readPathSelectors = rbind (read_list 24 readPathSelector) (\<lambda>ss. rret (map fst ss, map snd ss))"

text \<open>
  The map is made with the count as a size hint, which the runtime ignores when it is too large. A later
  entry replaces an earlier one with the same key.
\<close>

definition read_entry :: "(bytes \<times> bytes) reader" where
  "read_entry = rbind readString (\<lambda>key. rbind readString (\<lambda>v. rret (key, v)))"

definition readMetadata :: "metadata reader" where
  "readMetadata = rbind tr_readUvarint (\<lambda>count.
     rbind (read_items read_entry (unat count)) (\<lambda>es. rret (foldl (\<lambda>m (k, v). md_put k v m) [] es)))"

definition readTransferRequest :: "transfer_request reader" where
  "readTransferRequest =
     rbind readString (\<lambda>path. rbind readString (\<lambda>uri. rbind readString (\<lambda>filename. rbind readString (\<lambda>contentType.
     rbind readBytes (\<lambda>payload. rbind readMetadata (\<lambda>md.
       rret \<lparr>tq_Path = path, tq_URI = uri, tq_Filename = filename, tq_ContentType = contentType,
             tq_Payload = payload, tq_Metadata = md\<rparr>))))))"

definition readInt64AsUvarint :: "int reader" where
  "readInt64AsUvarint = rbind tr_readUvarint (\<lambda>v.
     if 2 ^ 63 \<le> unat v then rfail TransportUnexpectedEOF else rret (int (unat v)))"

definition readTransferResult :: "transfer_result reader" where
  "readTransferResult =
     rbind readString (\<lambda>path. rbind readString (\<lambda>uri. rbind readInt64AsUvarint (\<lambda>n. rbind readMetadata (\<lambda>md.
       rret \<lparr>ts_Path = path, ts_URI = uri, ts_Bytes = n, ts_Metadata = md\<rparr>))))"

definition readBool :: "bool reader" where
  "readBool = rbind tr_readUvarint (\<lambda>v. rret (v \<noteq> 0))"

definition readBroadbandDataModel :: "broadband_model reader" where
  "readBroadbandDataModel =
     rbind readString (\<lambda>i. rbind readString (\<lambda>name. rbind readString (\<lambda>modelVersion.
     rbind readString (\<lambda>firstVersion. rbind readString (\<lambda>latestVersion. rbind readString (\<lambda>source.
     rbind readString (\<lambda>sourceURL. rbind tr_readUvarint (\<lambda>objectCount. rbind tr_readUvarint (\<lambda>paramCount.
       rret \<lparr>bm_ID = i, bm_Name = name, bm_ModelVersion = modelVersion, bm_FirstVersion = firstVersion,
             bm_LatestVersion = latestVersion, bm_Source = source, bm_SourceURL = sourceURL,
             bm_ObjectCount = sint objectCount, bm_ParamCount = sint paramCount\<rparr>)))))))))"

definition read_object :: "supported_object reader" where
  "read_object = rbind readString (\<lambda>path. rbind readBool (\<lambda>multi. rbind readString (\<lambda>since.
     rret \<lparr>so_Path = path, so_MultiInstance = multi, so_SinceVersion = since\<rparr>)))"

definition read_param :: "supported_param reader" where
  "read_param = rbind readString (\<lambda>path. rbind readString (\<lambda>paramType. rbind readString (\<lambda>acc. rbind readString (\<lambda>since.
     rret \<lparr>sp_Path = path, sp_Type = paramType, sp_Access = acc, sp_SinceVersion = since\<rparr>))))"

definition readSupportedDataModel :: "supported_dm reader" where
  "readSupportedDataModel =
     rbind readString (\<lambda>root. rbind (read_list 128 readBroadbandDataModel) (\<lambda>models.
     rbind (read_list 40 read_object) (\<lambda>objects. rbind (read_list 64 read_param) (\<lambda>params.
       rret \<lparr>dm_RootDataModelVersion = root, dm_Models = models, dm_Objects = objects, dm_Params = params\<rparr>))))"

definition readProtocolInfo :: "protocol_info reader" where
  "readProtocolInfo =
     rbind readString (\<lambda>name. rbind tr_readUvarint (\<lambda>version. rbind readStringList (\<lambda>methods.
     rbind readStringList (\<lambda>compression. rbind readString (\<lambda>controlTransport. rbind readString (\<lambda>transferTransport.
     rbind tr_readUvarint (\<lambda>maxControlPayload. rbind tr_readUvarint (\<lambda>chunkSize.
     rbind readBool (\<lambda>tunnelOnly. rbind readBool (\<lambda>reliableTransfer.
       rret \<lparr>po_Name = name, po_Version = version, po_Methods = methods, po_Compression = compression,
             po_ControlTransport = controlTransport, po_TransferTransport = transferTransport,
             po_MaxControlPayload = maxControlPayload, po_RecommendedChunkSize = chunkSize,
             po_TunnelOnly = tunnelOnly, po_ReliableTransfer = reliableTransfer\<rparr>))))))))))"


section \<open>Reading back what was written\<close>

lemma rbind_step: "rd r = Inr (x, r') \<Longrightarrow> rbind rd f r = f x r'"
  by (simp add: rbind_def)

lemma rret_apply [simp]: "rret x r = Inr (x, r)"
  by (simp add: rret_def)

text \<open>
  The contract of a reader and a writer of one kind of item: on the items that satisfy \<open>ok\<close>, reading
  consumes exactly what was written. Counted lists of such items then have the same contract as long as
  the slice for them can be allocated.
\<close>

locale stream_codec =
  fixes rd :: "'a reader" and wr :: "'a \<Rightarrow> bytes" and ok :: "'a \<Rightarrow> bool"
  assumes rd_wr: "ok x \<Longrightarrow> rd (wr x @ r) = Inr (x, r)"
begin

lemma items: "list_all ok xs \<Longrightarrow> read_items rd (length xs) (concat (map wr xs) @ r) = Inr (xs, r)"
  by (induction xs) (simp_all add: rbind_def rd_wr)

lemma bind: "ok x \<Longrightarrow> rbind rd f (wr x @ r) = f x r"
  by (simp add: rbind_def rd_wr)

lemma bind_items:
  "list_all ok xs \<Longrightarrow> rbind (read_items rd (length xs)) f (concat (map wr xs) @ r) = f xs r"
  by (rule rbind_step) (rule items)

lemma injective: "\<lbrakk>ok x; ok y; wr x = wr y\<rbrakk> \<Longrightarrow> x = y"
  by (metis Inr_inject prod.inject rd_wr)

end

lemma tr_readUvarint_write: "tr_readUvarint (writeUvarint v @ r) = Inr (v, r)"
  by (simp add: tr_readUvarint_def writeUvarint_def readUvarint_put)

interpretation num: stream_codec tr_readUvarint writeUvarint "\<lambda>_. True"
  by unfold_locales (simp add: tr_readUvarint_write)

abbreviation fits :: "'a list \<Rightarrow> bool" where
  "fits xs \<equiv> length xs < 2 ^ 64"

lemma readBytes_write: "fits v \<Longrightarrow> readBytes (writeBytes v @ r) = Inr (v, r)"
  by (simp add: readBytes_def writeBytes_def num.bind unat_of_nat_small)

interpretation blob: stream_codec readBytes writeBytes fits
  by unfold_locales (simp add: readBytes_write)

interpretation str: stream_codec readString writeString fits
  by unfold_locales (use readBytes_write in \<open>simp add: readString_def writeString_def writeBytes_def\<close>)

text \<open>A list whose slice of \<open>elem\<close>-byte items can be allocated.\<close>

definition allocatable :: "nat \<Rightarrow> 'a list \<Rightarrow> bool" where
  "allocatable elem xs \<longleftrightarrow> length xs * elem \<le> maxAlloc"

context stream_codec
begin

lemma lists:
  assumes "list_all ok xs" "allocatable elem xs" "0 < elem"
  shows "read_list elem rd (write_list wr xs @ r) = Inr (xs, r)"
proof -
  have "length xs \<le> length xs * elem" using assms(3) by simp
  then have "length xs \<le> 2 ^ 48" using assms(2) unfolding allocatable_def maxAlloc_def by (rule order_trans)
  then have "length xs < 2 ^ 64" by simp
  then have "unat (of_nat (length xs) :: u64) = length xs" by (simp add: unat_of_nat_small)
  then show ?thesis
    using assms by (simp add: read_list_def write_list_def num.bind allocatable_def items)
qed

lemma bind_lists:
  "\<lbrakk>list_all ok xs; allocatable elem xs; 0 < elem\<rbrakk> \<Longrightarrow> rbind (read_list elem rd) f (write_list wr xs @ r) = f xs r"
  by (rule rbind_step) (rule lists)

end


lemma length_selectors [simp]: "length (selectors codes insts) = length codes"
  by (simp add: selectors_def)

lemma selectors_codes [simp]: "map fst (selectors codes insts) = codes"
  by (simp add: selectors_def o_def map_nth)

lemma selectors_instances: "length insts = length codes \<Longrightarrow> map snd (selectors codes insts) = insts"
  by (rule nth_equalityI) (simp_all add: selectors_def selector_instances_def)

definition selector_ok :: "u64 \<times> u64 list \<Rightarrow> bool" where
  "selector_ok s = allocatable 8 (snd s)"

interpretation sel: stream_codec readPathSelector writePathSelector selector_ok
  by unfold_locales
    (simp add: readPathSelector_def writePathSelector_def readUint64List_def writeUint64List_def selector_ok_def
      num.bind num.bind_lists list.pred_True)

interpretation strings: stream_codec readStringList writeStringList "\<lambda>vs. list_all fits vs \<and> allocatable 16 vs"
  by unfold_locales (simp add: readStringList_def writeStringList_def str.lists)

lemma readPathSelectors_write:
  "\<lbrakk>list_all selector_ok (selectors codes insts); allocatable 24 codes\<rbrakk> \<Longrightarrow>
     readPathSelectors (writePathSelectors codes insts @ r) = Inr ((codes, map snd (selectors codes insts)), r)"
  by (simp add: readPathSelectors_def writePathSelectors_def sel.bind_lists allocatable_def)

interpretation entry: stream_codec read_entry "\<lambda>e. writeString (fst e) @ writeString (snd e)" "\<lambda>e. fits (fst e) \<and> fits (snd e)"
  by unfold_locales (simp add: read_entry_def str.bind)

definition metadata_ok :: "metadata \<Rightarrow> bool" where
  "metadata_ok md \<longleftrightarrow> md_ok md \<and> fits md \<and> list_all (\<lambda>e. fits (fst e) \<and> fits (snd e)) md"

interpretation md: stream_codec readMetadata writeMetadata metadata_ok
proof
  fix md r assume ok: "metadata_ok md"
  then have "unat (of_nat (length md) :: u64) = length md" by (simp add: metadata_ok_def unat_of_nat_small)
  moreover have "foldl (\<lambda>m (k, v). md_put k v m) [] md = md" using ok md_rebuild [of "[]" md] by (simp add: metadata_ok_def)
  ultimately show "readMetadata (writeMetadata md @ r) = Inr (md, r)"
    using ok by (simp add: readMetadata_def writeMetadata_def write_list_def num.bind metadata_ok_def entry.bind_items)
qed

interpretation flag: stream_codec readBool writeBool "\<lambda>_. True"
  by unfold_locales (simp add: readBool_def writeBool_def num.bind)

definition transfer_request_ok :: "transfer_request \<Rightarrow> bool" where
  "transfer_request_ok r \<longleftrightarrow> fits (tq_Path r) \<and> fits (tq_URI r) \<and> fits (tq_Filename r) \<and> fits (tq_ContentType r) \<and>
     fits (tq_Payload r) \<and> metadata_ok (tq_Metadata r)"

lemmas wire_binds = num.bind str.bind blob.bind strings.bind sel.bind md.bind flag.bind

interpretation treq: stream_codec readTransferRequest writeTransferRequest transfer_request_ok
  by unfold_locales (simp add: readTransferRequest_def writeTransferRequest_def transfer_request_ok_def wire_binds)

definition transfer_result_ok :: "transfer_result \<Rightarrow> bool" where
  "transfer_result_ok r \<longleftrightarrow> fits (ts_Path r) \<and> fits (ts_URI r) \<and> 0 \<le> ts_Bytes r \<and> ts_Bytes r < 2 ^ 63 \<and>
     metadata_ok (ts_Metadata r)"

lemma readInt64AsUvarint_write:
  assumes "0 \<le> n" "n < 2 ^ 63"
  shows "readInt64AsUvarint (writeUvarint (word_of_int n) @ r) = Inr (n, r)"
proof -
  have "unat (word_of_int n :: u64) = nat n"
  proof -
    have "uint (word_of_int n :: u64) = n" using assms uint_limit [of n] by (simp add: unsigned_bound_def)
    then show ?thesis by (simp only: unat_eq_nat_uint)
  qed
  then show ?thesis using assms by (simp add: readInt64AsUvarint_def num.bind le_nat_iff)
qed

interpretation int64: stream_codec readInt64AsUvarint "\<lambda>n. writeUvarint (word_of_int n)" "\<lambda>n. 0 \<le> n \<and> n < 2 ^ 63"
  by unfold_locales (simp add: readInt64AsUvarint_write)

interpretation tres: stream_codec readTransferResult writeTransferResult transfer_result_ok
  by unfold_locales
    (simp add: readTransferResult_def writeTransferResult_def transfer_result_ok_def wire_binds
      int64.bind)

definition model_ok :: "broadband_model \<Rightarrow> bool" where
  "model_ok m \<longleftrightarrow> fits (bm_ID m) \<and> fits (bm_Name m) \<and> fits (bm_ModelVersion m) \<and> fits (bm_FirstVersion m) \<and>
     fits (bm_LatestVersion m) \<and> fits (bm_Source m) \<and> fits (bm_SourceURL m) \<and>
     bm_ObjectCount m \<in> {- (2 ^ 63)..<2 ^ 63} \<and> bm_ParamCount m \<in> {- (2 ^ 63)..<2 ^ 63}"

lemma sint_of_int64: "i \<in> {- (2 ^ 63)..<2 ^ 63} \<Longrightarrow> sint (word_of_int i :: u64) = i"
  by (simp add: sint_sbintrunc' signed_take_bit_int_eq_self)

interpretation model: stream_codec readBroadbandDataModel writeBroadbandDataModel model_ok
  by unfold_locales (simp add: readBroadbandDataModel_def writeBroadbandDataModel_def model_ok_def wire_binds sint_of_int64)

interpretation object: stream_codec read_object write_object "\<lambda>ob. fits (so_Path ob) \<and> fits (so_SinceVersion ob)"
  by unfold_locales (simp add: read_object_def write_object_def wire_binds)

interpretation param: stream_codec read_param write_param
  "\<lambda>p. fits (sp_Path p) \<and> fits (sp_Type p) \<and> fits (sp_Access p) \<and> fits (sp_SinceVersion p)"
  by unfold_locales (simp add: read_param_def write_param_def wire_binds)

definition supported_dm_ok :: "supported_dm \<Rightarrow> bool" where
  "supported_dm_ok m \<longleftrightarrow> fits (dm_RootDataModelVersion m) \<and>
     list_all model_ok (dm_Models m) \<and> allocatable 128 (dm_Models m) \<and>
     list_all (\<lambda>ob. fits (so_Path ob) \<and> fits (so_SinceVersion ob)) (dm_Objects m) \<and> allocatable 40 (dm_Objects m) \<and>
     list_all (\<lambda>p. fits (sp_Path p) \<and> fits (sp_Type p) \<and> fits (sp_Access p) \<and> fits (sp_SinceVersion p)) (dm_Params m) \<and>
     allocatable 64 (dm_Params m)"

interpretation dm: stream_codec readSupportedDataModel writeSupportedDataModel supported_dm_ok
  by unfold_locales
    (simp add: readSupportedDataModel_def writeSupportedDataModel_def supported_dm_ok_def wire_binds
      model.bind_lists object.bind_lists param.bind_lists)

definition protocol_info_ok :: "protocol_info \<Rightarrow> bool" where
  "protocol_info_ok i \<longleftrightarrow> fits (po_Name i) \<and> list_all fits (po_Methods i) \<and> allocatable 16 (po_Methods i) \<and>
     list_all fits (po_Compression i) \<and> allocatable 16 (po_Compression i) \<and> fits (po_ControlTransport i) \<and>
     fits (po_TransferTransport i)"

interpretation proto: stream_codec readProtocolInfo writeProtocolInfo protocol_info_ok
  by unfold_locales (simp add: readProtocolInfo_def writeProtocolInfo_def protocol_info_ok_def wire_binds)


section \<open>The estimates are exact\<close>

named_theorems sizes \<open>lengths of encodings as size estimates\<close>

lemma length_writeUvarint [sizes]: "length (writeUvarint v) = estimateUvarintSize v"
  unfolding writeUvarint_def
proof (induction v rule: putUvarint.induct)
  case (1 v)
  then show ?case by (simp add: putUvarint.simps [of v] estimateUvarintSize.simps [of v])
qed

lemma length_writeString [sizes]: "length (writeString v) = estimateStringSize v"
  by (simp add: writeString_def estimateStringSize_def sizes)

lemma length_writeBytes [sizes]: "length (writeBytes v) = estimateBlobSize v"
  by (simp add: writeBytes_def estimateBlobSize_def sizes)

lemma length_write_list [sizes]:
  "length (write_list wr xs) = estimateUvarintSize (of_nat (length xs)) + (\<Sum>x \<leftarrow> xs. length (wr x))"
  by (simp add: write_list_def sizes length_concat o_def)

lemma length_writeStringList [sizes]: "length (writeStringList vs) = estimateStringListSize vs"
  by (simp add: writeStringList_def estimateStringListSize_def sizes)

lemma length_writeUint64List [sizes]: "length (writeUint64List vs) = estimateUint64ListSize vs"
  by (simp add: writeUint64List_def estimateUint64ListSize_def sizes)

lemma length_writeMetadata [sizes]: "length (writeMetadata md) = estimateMetadataSize md"
  by (simp add: writeMetadata_def estimateMetadataSize_def sizes)

lemma length_writePathSelector [sizes]:
  "length (writePathSelector s) = estimateUvarintSize (fst s) + estimateUint64ListSize (snd s)"
  by (simp add: writePathSelector_def sizes)

lemma estimateUvarintSize_small [simp]: "v < 0x80 \<Longrightarrow> estimateUvarintSize v = 1"
proof -
  assume "v < 0x80"
  then have "\<not> 0x80 \<le> v" by (simp only: not_le)
  then show ?thesis by (subst estimateUvarintSize.simps) (simp only: if_False)
qed

lemma length_writePathSelectors [sizes]:
  "length (writePathSelectors codes insts) = (if codes = [] then 1 else estimatePathSelectorsSize codes insts)"
proof -
  have "length (writePathSelectors codes insts) = estimateUvarintSize (of_nat (length codes)) +
      (\<Sum>i \<leftarrow> [0..<length codes]. estimateUvarintSize (codes ! i) + estimateUint64ListSize (selector_instances insts i))"
    by (simp add: writePathSelectors_def sizes) (simp add: selectors_def o_def)
  moreover have "estimateUint64ListSize (selector_instances insts i) =
      (if i < length insts then estimateUint64ListSize (insts ! i) else estimateUvarintSize 0)" for i
    by (simp add: selector_instances_def estimateUint64ListSize_def)
  ultimately show ?thesis by (simp add: estimatePathSelectorsSize_def)
qed

lemma length_writeBool [sizes]: "length (writeBool b) = 1"
  by (simp add: writeBool_def sizes word_less_nat_alt)

lemma length_write_transfers [sizes]:
  "length (writeTransferRequest q) = estimateTransferRequestSize q"
  "length (writeTransferResult t) = estimateTransferResultSize t"
  by (simp_all add: writeTransferRequest_def estimateTransferRequestSize_def writeTransferResult_def
      estimateTransferResultSize_def sizes)

lemma length_writeBroadbandDataModel [sizes]:
  "length (writeBroadbandDataModel m) = estimateBroadbandDataModelSize m"
  by (simp add: writeBroadbandDataModel_def estimateBroadbandDataModelSize_def sizes)

lemma length_writeSupportedDataModel [sizes]:
  "length (writeSupportedDataModel m) = estimateSupportedDataModelSize m"
  by (simp add: writeSupportedDataModel_def estimateSupportedDataModelSize_def write_object_def write_param_def sizes
      add.assoc)

lemma length_writeProtocolInfo [sizes]: "length (writeProtocolInfo i) = estimateProtocolInfoSize i"
  by (simp add: writeProtocolInfo_def estimateProtocolInfoSize_def sizes)

lemma length_encodeValue: "wf_value v \<Longrightarrow> length (encodeValue v) = estimateValueEncodedSize v"
proof (induction v rule: encodeValue.induct)
  case (15 vs)
  then have "(\<Sum>x \<leftarrow> vs. length (encodeValue x)) = sum_list (map estimateValueEncodedSize vs)"
    by (intro arg_cong [where f = sum_list] map_cong) (auto simp: list_all_iff)
  then show ?case using length_writeUvarint by (simp add: length_concat o_def writeUvarint_def)
qed (use length_writeUvarint length_writeBytes in
  \<open>auto simp: writeZigzag_def writeBlob_def writeUvarint_def writeBytes_def estimateBlobSize_def\<close>)

end
