(* ===== verification/Net_Addr.thy ===== *)
theory Net_Addr
  imports Wan_Prelude
begin

text \<open>
  The parts of Go's packages \<^verbatim>\<open>net\<close> and \<^verbatim>\<open>net/netip\<close> the components use. A \<^verbatim>\<open>net.IP\<close> is a byte
  slice of length 4 or 16; the nil slice is the empty list (an empty but non-nil slice is produced
  nowhere in the modelled code). A \<^verbatim>\<open>net.UDPAddr\<close> is an address and a port; the modelled code never
  sets its zone. \<^verbatim>\<open>UDPAddr.String\<close> is used as a map key only, on normalised addresses, where it is
  injective, so \<open>udp_key\<close> is the pair it prints.
\<close>

section \<open>net.IP\<close>

type_synonym ip = bytes

definition v4InV6Prefix :: bytes where
  "v4InV6Prefix = [0, 0, 0, 0, 0, 0, 0, 0, 0, 0, 255, 255]"

definition To4 :: "ip \<Rightarrow> ip" where
  "To4 a =
     (if length a = 4 then a
      else if length a = 16 \<and> take 12 a = v4InV6Prefix then drop 12 a
      else [])"

definition To16 :: "ip \<Rightarrow> ip" where
  "To16 a =
     (if length a = 4 then v4InV6Prefix @ a
      else if length a = 16 then a
      else [])"

definition ip_Equal :: "ip \<Rightarrow> ip \<Rightarrow> bool" where
  "ip_Equal a x =
     (if length a = length x then a = x
      else if length a = 4 \<and> length x = 16 then take 12 x = v4InV6Prefix \<and> a = drop 12 x
      else if length a = 16 \<and> length x = 4 then take 12 a = v4InV6Prefix \<and> drop 12 a = x
      else False)"

definition IPv4zero :: ip where
  "IPv4zero = v4InV6Prefix @ [0, 0, 0, 0]"

definition IPv4bcast :: ip where
  "IPv4bcast = v4InV6Prefix @ [255, 255, 255, 255]"

definition IPv6unspecified :: ip where
  "IPv6unspecified = replicate 16 0"

definition IPv6loopback :: ip where
  "IPv6loopback = replicate 15 0 @ [1]"

definition IsUnspecified :: "ip \<Rightarrow> bool" where
  "IsUnspecified a = (ip_Equal a IPv4zero \<or> ip_Equal a IPv6unspecified)"

definition IsLoopback :: "ip \<Rightarrow> bool" where
  "IsLoopback a = (if To4 a \<noteq> [] then To4 a ! 0 = 127 else ip_Equal a IPv6loopback)"

definition IsPrivate :: "ip \<Rightarrow> bool" where
  "IsPrivate a =
     (let a4 = To4 a in
      if a4 \<noteq> []
      then a4 ! 0 = 10 \<or> (a4 ! 0 = 172 \<and> a4 ! 1 AND 0xf0 = 16) \<or> (a4 ! 0 = 192 \<and> a4 ! 1 = 168)
      else length a = 16 \<and> a ! 0 AND 0xfe = 0xfc)"

definition IsMulticast :: "ip \<Rightarrow> bool" where
  "IsMulticast a =
     (if To4 a \<noteq> [] then To4 a ! 0 AND 0xf0 = 0xe0 else length a = 16 \<and> a ! 0 = 0xff)"

definition IsLinkLocalUnicast :: "ip \<Rightarrow> bool" where
  "IsLinkLocalUnicast a =
     (if To4 a \<noteq> [] then To4 a ! 0 = 169 \<and> To4 a ! 1 = 254
      else length a = 16 \<and> a ! 0 = 0xfe \<and> a ! 1 AND 0xc0 = 0x80)"

definition IsGlobalUnicast :: "ip \<Rightarrow> bool" where
  "IsGlobalUnicast a =
     ((length a = 4 \<or> length a = 16) \<and> \<not> ip_Equal a IPv4bcast \<and> \<not> IsUnspecified a \<and>
      \<not> IsLoopback a \<and> \<not> IsMulticast a \<and> \<not> IsLinkLocalUnicast a)"

lemma length_v4InV6Prefix [simp]: "length v4InV6Prefix = 12"
  by (simp add: v4InV6Prefix_def)

lemma length_To4: "To4 a \<noteq> [] \<Longrightarrow> length (To4 a) = 4"
  by (auto simp: To4_def split: if_splits)

lemma To4_length4 [simp]: "length a = 4 \<Longrightarrow> To4 a = a"
  by (simp add: To4_def)

lemma To4_idem [simp]: "To4 (To4 a) = To4 a"
  by (simp add: To4_def)

lemma length_To16: "To16 a \<noteq> [] \<Longrightarrow> length (To16 a) = 16"
  by (auto simp: To16_def split: if_splits)

lemma To16_eq_Nil_iff: "To16 a = [] \<longleftrightarrow> length a \<noteq> 4 \<and> length a \<noteq> 16"
  by (auto simp: To16_def)

lemma To4_To16: "length a = 4 \<or> length a = 16 \<Longrightarrow> To4 (To16 a) = To4 a"
  by (auto simp: To4_def To16_def)

lemma To16_To4: "To4 a \<noteq> [] \<Longrightarrow> To16 (To4 a) = To16 a"
  by (auto simp: To4_def To16_def split: if_splits) (metis append_take_drop_id)

lemma ip_Equal_refl [simp]: "ip_Equal a a"
  by (simp add: ip_Equal_def)

lemma ip_Equal_sym: "ip_Equal a b \<longleftrightarrow> ip_Equal b a"
  by (auto simp: ip_Equal_def)

section \<open>net.UDPAddr\<close>

record udp_addr =
  addr_IP :: ip
  addr_Port :: int

definition udp_zero :: udp_addr where
  "udp_zero = \<lparr>addr_IP = [], addr_Port = 0\<rparr>"

definition udp_key :: "udp_addr \<Rightarrow> ip \<times> int" where
  "udp_key a = ((if To4 (addr_IP a) \<noteq> [] then To4 (addr_IP a) else addr_IP a), addr_Port a)"

definition normalizeUDPAddr :: "udp_addr \<Rightarrow> udp_addr" where
  "normalizeUDPAddr a =
     (if To4 (addr_IP a) \<noteq> [] then a\<lparr>addr_IP := To4 (addr_IP a)\<rparr>
      else if To16 (addr_IP a) \<noteq> [] then a\<lparr>addr_IP := To16 (addr_IP a)\<rparr>
      else a)"

lemma normalizeUDPAddr_Port [simp]: "addr_Port (normalizeUDPAddr a) = addr_Port a"
  by (simp add: normalizeUDPAddr_def)

lemma normalizeUDPAddr_IP:
  "addr_IP (normalizeUDPAddr a) = (if To4 (addr_IP a) \<noteq> [] then To4 (addr_IP a) else addr_IP a)"
  by (auto simp: normalizeUDPAddr_def To16_def To4_def split: if_splits)

lemma normalizeUDPAddr_eq:
  "normalizeUDPAddr a = \<lparr>addr_IP = fst (udp_key a), addr_Port = snd (udp_key a)\<rparr>"
  by (cases a) (auto simp: normalizeUDPAddr_def udp_key_def To16_def To4_def)

lemma normalizeUDPAddr_idem [simp]: "normalizeUDPAddr (normalizeUDPAddr a) = normalizeUDPAddr a"
  by (simp add: normalizeUDPAddr_eq) (simp add: udp_key_def)

lemma udp_key_normalize [simp]: "udp_key (normalizeUDPAddr a) = udp_key a"
  by (simp add: udp_key_def normalizeUDPAddr_IP)

lemma normalize_eq_iff_key:
  fixes a b :: udp_addr
  shows "normalizeUDPAddr a = normalizeUDPAddr b \<longleftrightarrow> udp_key a = udp_key b"
  by (auto simp: normalizeUDPAddr_eq prod_eq_iff)

end
