(* ===== verification/Value_Text.thy ===== *)
theory Value_Text
  imports Message_Validation Net_Addr
begin

text \<open>
  \<^verbatim>\<open>ValueToString\<close> of \<^verbatim>\<open>internal/wusp/interface.go\<close>, the text of a value, with the formatting functions of the
  standard library it calls. \<^verbatim>\<open>strconv.FormatFloat(f, 'f', -1, 64)\<close>, the shortest decimal that reads back as
  \<open>f\<close>, is the argument \<open>FormatFloat\<close>. A time is a signed number of nanoseconds since 1970, so its year has
  four digits.
\<close>

section \<open>Numbers, addresses and times\<close>

definition FormatInt :: "int \<Rightarrow> bytes" where
  "FormatInt n = (if n < 0 then 0x2D # nat_digits (nat (- n)) else nat_digits (nat n))"

definition hex_digit :: "nat \<Rightarrow> byte" where
  "hex_digit n = (if n < 10 then of_nat (48 + n) else of_nat (87 + n))"

definition hex_byte :: "byte \<Rightarrow> bytes" where
  "hex_byte b = [hex_digit (unat b div 16), hex_digit (unat b mod 16)]"

definition hex_EncodeToString :: "bytes \<Rightarrow> bytes" where
  "hex_EncodeToString b = concat (map hex_byte b)"

fun hex_digits :: "nat \<Rightarrow> bytes" where
  "hex_digits n = (if n < 16 then [hex_digit n] else hex_digits (n div 16) @ [hex_digit (n mod 16)])"

declare hex_digits.simps [simp del]

definition HardwareAddr_String :: "bytes \<Rightarrow> bytes" where
  "HardwareAddr_String b = join_on 0x3A (map hex_byte b)"

text \<open>
  \<^verbatim>\<open>net.IP.String\<close>: dotted for IPv4, otherwise hexadecimal groups, where the first of the longest runs of two
  or more zero groups is written as two colons.
\<close>

fun groups :: "bytes \<Rightarrow> nat list" where
  "groups (a # b # bs) = (unat a * 256 + unat b) # groups bs"
| "groups _ = []"

definition zero_run :: "nat list \<Rightarrow> nat \<Rightarrow> nat" where
  "zero_run gs i = length (takeWhile (\<lambda>g. g = 0) (drop i gs))"

definition longest_run :: "nat list \<Rightarrow> nat \<times> nat" where
  "longest_run gs = foldl (\<lambda>(start, n) i. if n < zero_run gs i then (i, zero_run gs i) else (start, n)) (0, 0) [0..<length gs]"

definition ip6_text :: "nat list \<Rightarrow> bytes" where
  "ip6_text gs =
     (let (start, n) = longest_run gs in
      if n < 2 then join_on 0x3A (map hex_digits gs)
      else join_on 0x3A (map hex_digits (take start gs)) @ [0x3A, 0x3A] @ join_on 0x3A (map hex_digits (drop (start + n) gs)))"

definition IP_String :: "ip \<Rightarrow> bytes" where
  "IP_String a =
     (if length a \<noteq> 4 \<and> length a \<noteq> 16 then (if a = [] then ascii ''<nil>'' else 0x3F # hex_EncodeToString a)
      else if To4 a \<noteq> [] then join_on 0x2E (map (\<lambda>b. nat_digits (unat b)) (To4 a))
      else ip6_text (groups a))"

text \<open>The proleptic Gregorian date of a day counted from 1970-01-01.\<close>

definition civil_date :: "int \<Rightarrow> int \<times> int \<times> int" where
  "civil_date days =
     (let z = days + 719468; era = z div 146097; doe = z mod 146097;
          yoe = (doe - doe div 1460 + doe div 36524 - doe div 146096) div 365;
          doy = doe - (365 * yoe + yoe div 4 - yoe div 100);
          mp = (5 * doy + 2) div 153; d = doy - (153 * mp + 2) div 5 + 1; m = (if mp < 10 then mp + 3 else mp - 9) in
      (yoe + era * 400 + (if m \<le> 2 then 1 else 0), m, d))"

definition padded :: "nat \<Rightarrow> int \<Rightarrow> bytes" where
  "padded w n = (let s = nat_digits (nat n) in replicate (w - length s) 0x30 @ s)"

definition Format_RFC3339 :: "u64 \<Rightarrow> bytes" where
  "Format_RFC3339 nanos =
     (let secs = sint nanos div 1000000000; rest = secs mod 86400; (y, m, d) = civil_date (secs div 86400) in
      padded 4 y @ [0x2D] @ padded 2 m @ [0x2D] @ padded 2 d @ [0x54] @ padded 2 (rest div 3600) @ [0x3A] @
      padded 2 (rest div 60 mod 60) @ [0x3A] @ padded 2 (rest mod 60) @ [0x5A])"

section \<open>Values\<close>

definition AsIP4 :: "wvalue \<Rightarrow> ip" where
  "AsIP4 v = (if length (AsBytes v) \<noteq> 4 then [] else AsBytes v)"

definition AsIP6 :: "wvalue \<Rightarrow> ip" where
  "AsIP6 v = (if length (AsBytes v) \<noteq> 16 then [] else AsBytes v)"

fun ValueToString :: "(u64 \<Rightarrow> bytes) \<Rightarrow> wvalue \<Rightarrow> bytes" where
  "ValueToString FormatFloat VNull = []"
| "ValueToString FormatFloat VFalse = ascii ''false''"
| "ValueToString FormatFloat VTrue = ascii ''true''"
| "ValueToString FormatFloat (VUint n) = nat_digits (unat n)"
| "ValueToString FormatFloat (VInt n) = FormatInt (sint n)"
| "ValueToString FormatFloat (VFloat f) = FormatFloat f"
| "ValueToString FormatFloat (VString b) = b"
| "ValueToString FormatFloat (VTime n) = Format_RFC3339 n"
| "ValueToString FormatFloat (VIP4 b) = (if AsIP4 (VIP4 b) \<noteq> [] then IP_String (AsIP4 (VIP4 b)) else [])"
| "ValueToString FormatFloat (VIP6 b) = (if AsIP6 (VIP6 b) \<noteq> [] then IP_String (AsIP6 (VIP6 b)) else [])"
| "ValueToString FormatFloat (VMAC b) = HardwareAddr_String b"
| "ValueToString FormatFloat (VBytes b) = hex_EncodeToString b"
| "ValueToString FormatFloat (VList vs) = join_on 0x2C (map (ValueToString FormatFloat) vs)"
| "ValueToString FormatFloat v = AsString v"

end
