(* ===== verification/Usp_Transport.thy ===== *)
theory Usp_Transport
  imports Usp_Wire Value_Text
begin

text \<open>
  USP requests and responses on the wire, \<^verbatim>\<open>internal/wusp/usp_transport.go\<close>: compaction of paths to
  selectors, validation, \<^verbatim>\<open>EncodeUSPAgentRequest\<close>, \<^verbatim>\<open>DecodeUSPAgentRequest\<close> and the same for responses. The
  runtime device model enters as its two operations \<^verbatim>\<open>SelectorForPath\<close> and \<^verbatim>\<open>PathForSelector\<close> (both
  undefined everywhere when there is no model); they are fields of the transport schema, as is the printing
  of floating-point numbers. Go's \<^verbatim>\<open>nil\<close> slices and maps are empty lists. Encoding clears the field ids of the
  caller's message in place; the encoded request carries that message.
\<close>

record transport_schema = schema +
  sc_SelectorForPath :: "bytes \<Rightarrow> (u64 \<times> u64 list) option"
  sc_PathForSelector :: "u64 \<times> u64 list \<Rightarrow> bytes option"
  sc_FormatFloat :: "u64 \<Rightarrow> bytes"

record usp_request =
  rq_ID :: u64
  rq_Method :: usp_method
  rq_Paths :: "bytes list"
  rq_PathCodes :: "u64 list"
  rq_PathInstances :: "u64 list list"
  rq_ObjectPath :: bytes
  rq_ObjectCode :: u64
  rq_ObjectInstances :: "u64 list"
  rq_Message :: "wmessage option"
  rq_Transfer :: "transfer_request option"
  rq_Metadata :: metadata

record usp_response =
  rs_ID :: u64
  rs_Method :: usp_method
  rs_Paths :: "bytes list"
  rs_PathCodes :: "u64 list"
  rs_PathInstances :: "u64 list list"
  rs_ObjectPath :: bytes
  rs_ObjectCode :: u64
  rs_ObjectInstances :: "u64 list"
  rs_Message :: "wmessage option"
  rs_Transfer :: "transfer_result option"
  rs_Metadata :: metadata
  rs_SupportedDataModel :: "supported_dm option"
  rs_Protocol :: "protocol_info option"
  rs_Error :: bytes

section \<open>Selectors\<close>

fun resolve_selectors :: "transport_schema \<Rightarrow> bytes list \<Rightarrow> (u64 \<times> u64 list) list option" where
  "resolve_selectors S [] = Some []"
| "resolve_selectors S (path # paths) =
     (case sc_SelectorForPath S path of None \<Rightarrow> None
      | Some s \<Rightarrow> if fst s = 0 then None else map_option ((#) s) (resolve_selectors S paths))"

definition strictResolvedPathSelectors :: "transport_schema \<Rightarrow> bytes list \<Rightarrow> (u64 list \<times> u64 list list) option" where
  "strictResolvedPathSelectors S paths =
     (if paths = [] then None else map_option (\<lambda>ss. (map fst ss, map snd ss)) (resolve_selectors S paths))"

definition strictResolvedObjectCode :: "transport_schema \<Rightarrow> bytes \<Rightarrow> (u64 \<times> u64 list) option" where
  "strictResolvedObjectCode S path =
     (case sc_SelectorForPath S path of None \<Rightarrow> None | Some s \<Rightarrow> if fst s = 0 then None else Some s)"

text \<open>The steps that requests and responses share, on the path fields alone.\<close>

definition compact_paths :: "transport_schema \<Rightarrow> bytes list \<times> u64 list \<times> u64 list list \<Rightarrow> bytes list \<times> u64 list \<times> u64 list list" where
  "compact_paths S p =
     (case p of (paths, codes, insts) \<Rightarrow>
        if codes = [] \<and> paths \<noteq> [] then
          (case strictResolvedPathSelectors S paths of Some (codes', insts') \<Rightarrow> ([], codes', insts')
           | None \<Rightarrow> p)
        else p)"

definition compact_object :: "transport_schema \<Rightarrow> bytes \<times> u64 \<times> u64 list \<Rightarrow> bytes \<times> u64 \<times> u64 list" where
  "compact_object S ob =
     (case ob of (path, code, insts) \<Rightarrow>
        if code = 0 \<and> TrimSpace path \<noteq> [] then
          (case strictResolvedObjectCode S path of Some (code', insts') \<Rightarrow> ([], code', insts') | None \<Rightarrow> ob)
        else ob)"

definition resolve_paths :: "transport_schema \<Rightarrow> bytes list \<Rightarrow> u64 list \<Rightarrow> u64 list list \<Rightarrow> bytes list" where
  "resolve_paths S paths codes insts =
     (if paths = [] \<and> codes \<noteq> [] then List.map_filter (sc_PathForSelector S) (selectors codes insts) else paths)"

definition resolve_object :: "transport_schema \<Rightarrow> bytes \<Rightarrow> u64 \<Rightarrow> u64 list \<Rightarrow> bytes" where
  "resolve_object S path code insts =
     (if path = [] \<and> code \<noteq> 0 then (case sc_PathForSelector S (code, insts) of Some p \<Rightarrow> p | None \<Rightarrow> path) else path)"

definition compactRequestSelectors :: "transport_schema \<Rightarrow> usp_request \<Rightarrow> usp_request" where
  "compactRequestSelectors S q =
     (case compact_paths S (rq_Paths q, rq_PathCodes q, rq_PathInstances q) of (paths, codes, insts) \<Rightarrow>
      case (if rq_Method q \<noteq> USPAgentMethodOperate
            then compact_object S (rq_ObjectPath q, rq_ObjectCode q, rq_ObjectInstances q)
            else (rq_ObjectPath q, rq_ObjectCode q, rq_ObjectInstances q)) of (op, oc, oi) \<Rightarrow>
      q\<lparr>rq_Paths := paths, rq_PathCodes := codes, rq_PathInstances := insts,
        rq_ObjectPath := op, rq_ObjectCode := oc, rq_ObjectInstances := oi\<rparr>)"

definition compactResponseSelectors :: "transport_schema \<Rightarrow> usp_response \<Rightarrow> usp_response" where
  "compactResponseSelectors S q =
     (case compact_paths S (rs_Paths q, rs_PathCodes q, rs_PathInstances q) of (paths, codes, insts) \<Rightarrow>
      case compact_object S (rs_ObjectPath q, rs_ObjectCode q, rs_ObjectInstances q) of (op, oc, oi) \<Rightarrow>
      q\<lparr>rs_Paths := paths, rs_PathCodes := codes, rs_PathInstances := insts,
        rs_ObjectPath := op, rs_ObjectCode := oc, rs_ObjectInstances := oi\<rparr>)"

definition resolveFastRequestPaths :: "transport_schema \<Rightarrow> usp_request \<Rightarrow> usp_request" where
  "resolveFastRequestPaths S q =
     q\<lparr>rq_Paths := resolve_paths S (rq_Paths q) (rq_PathCodes q) (rq_PathInstances q),
       rq_ObjectPath := resolve_object S (rq_ObjectPath q) (rq_ObjectCode q) (rq_ObjectInstances q)\<rparr>"

definition resolveFastResponsePaths :: "transport_schema \<Rightarrow> usp_response \<Rightarrow> usp_response" where
  "resolveFastResponsePaths S q =
     q\<lparr>rs_Paths := resolve_paths S (rs_Paths q) (rs_PathCodes q) (rs_PathInstances q),
       rs_ObjectPath := resolve_object S (rs_ObjectPath q) (rs_ObjectCode q) (rs_ObjectInstances q)\<rparr>"

section \<open>Validation\<close>

abbreviation invalid :: "bytes \<Rightarrow> string \<Rightarrow> transport_error option" where
  "invalid path reason \<equiv> Some (TransportInvalid \<lparr>ve_Path = path, ve_Reason = reason\<rparr>)"

definition isObjectPath :: "bytes \<Rightarrow> bool" where
  "isObjectPath path = ends_with (TrimSpace path) (ascii ''.'')"

definition validateTransferRequest :: "transport_schema \<Rightarrow> transfer_request \<Rightarrow> verdict" where
  "validateTransferRequest S r =
     (if TrimSpace (tq_Path r) = [] then reject [] ''transfer path is required''
      else if \<not> isObjectPath (tq_Path r) \<and> lookupSafeParam S (tq_Path r) = None
      then reject (tq_Path r) ''unknown transfer path'' else None)"

definition validateUnknownOperateInputField :: "transport_schema \<Rightarrow> bytes \<Rightarrow> wfield \<Rightarrow> verdict" where
  "validateUnknownOperateInputField S objectPath f =
     (let path = TrimSpace (f_Path f); obj = TrimSpace objectPath in
      if path \<noteq> f_Path f then reject (f_Path f) ''operation input path contains surrounding whitespace''
      else if \<not> starts_with path (ascii ''Device.'') then reject path ''operation input path must be rooted at Device.''
      else if contains path (ascii ''{i}'') then reject path ''operation input path must use a concrete instance''
      else if ends_with path (ascii ''()'') then reject path ''operation input cannot be a command path''
      else if obj \<noteq> [] \<and> \<not> contains obj (ascii ''{i}'') \<and> \<not> starts_with path obj
      then reject path ''operation input path does not belong to request object path''
      else if 512 < length path then reject path ''operation input path is too long''
      else if 16384 < length (ValueToString (sc_FormatFloat S) (f_Val f)) then reject path ''operation input value is too large''
      else None)"

definition isUnknownParameterValidationError :: "validation_error \<Rightarrow> bool" where
  "isUnknownParameterValidationError e = (ve_Reason e = ''unknown parameter path'')"

fun validate_operate_fields :: "transport_schema \<Rightarrow> bytes \<Rightarrow> bytes set \<Rightarrow> wfield list \<Rightarrow> verdict" where
  "validate_operate_fields S obj seen [] = None"
| "validate_operate_fields S obj seen (f # fs) =
     (if f_Path f = [] then reject [] ''field[%d] has empty path''
      else if f_Path f \<in> seen then reject (f_Path f) ''duplicate field path''
      else let seen = insert (f_Path f) seen in
        case ValidateFieldFast S f of None \<Rightarrow> validate_operate_fields S obj seen fs
        | Some e \<Rightarrow>
          if \<not> isUnknownParameterValidationError e then Some e
          else (case validateUnknownOperateInputField S obj f of Some e \<Rightarrow> Some e
                | None \<Rightarrow> validate_operate_fields S obj seen fs))"

definition validateOperateInputMessage :: "transport_schema \<Rightarrow> bytes \<Rightarrow> wmessage \<Rightarrow> verdict" where
  "validateOperateInputMessage S objectPath m = validate_operate_fields S objectPath {} (m_Fields m)"

definition validateUSPAgentRequestMessage :: "transport_schema \<Rightarrow> usp_request \<Rightarrow> verdict" where
  "validateUSPAgentRequestMessage S q =
     (case rq_Message q of None \<Rightarrow> None
      | Some m \<Rightarrow> if rq_Method q = USPAgentMethodOperate then validateOperateInputMessage S (rq_ObjectPath q) m
                  else ValidateMessageFast S m)"

definition validate_method :: "transport_schema \<Rightarrow> usp_request \<Rightarrow> transport_error option" where
  "validate_method S q =
     (let m = rq_Method q; noObject = (TrimSpace (rq_ObjectPath q) = [] \<and> rq_ObjectCode q = 0) in
      if m = USPAgentMethodSet then
        (if (case rq_Message q of None \<Rightarrow> True | Some msg \<Rightarrow> m_Fields msg = []) then invalid [] ''set request missing fields'' else None)
      else if m = USPAgentMethodAdd then (if noObject then invalid [] ''add request missing object path'' else None)
      else if m = USPAgentMethodDelete then
        (if rq_Paths q = [] \<and> rq_PathCodes q = [] then invalid [] ''delete request missing paths'' else None)
      else if m = USPAgentMethodOperate \<or> m = USPAgentMethodNotify then
        (if noObject then invalid [] ''request missing object path''
         else if m = USPAgentMethodOperate \<and> TrimSpace (rq_ObjectPath q) \<noteq> [] then
           (case OperationCommandPath (rq_ObjectPath q) (rq_Metadata q) of Inl e \<Rightarrow> Some (TransportInvalid e) | Inr _ \<Rightarrow> None)
         else None)
      else if m = USPAgentMethodUpload \<or> m = USPAgentMethodDownload then
        (if rq_Transfer q = None then invalid [] ''transfer request missing transfer block'' else None)
      else None)"

definition validateUSPAgentRequest :: "transport_schema \<Rightarrow> usp_request \<Rightarrow> transport_error option" where
  "validateUSPAgentRequest S q =
     (if rq_Method q = 0 then Some TransportMethodRequired
      else if \<exists>p \<in> set (rq_Paths q). TrimSpace p = [] then invalid [] ''request contains empty path''
      else if 0 \<in> set (rq_PathCodes q) then invalid [] ''request contains zero path code''
      else if rq_PathInstances q \<noteq> [] \<and> length (rq_PathInstances q) \<noteq> length (rq_PathCodes q)
      then invalid [] ''request path selector metadata length mismatch''
      else if TrimSpace (rq_ObjectPath q) \<noteq> [] \<and> \<not> isObjectPath (rq_ObjectPath q)
      then invalid (rq_ObjectPath q) (''request object path must end with '' @ [CHR 0x27, CHR 0x2E, CHR 0x27])
      else if rq_ObjectCode q = 0 \<and> rq_ObjectInstances q \<noteq> []
      then invalid [] ''request object selector instances without object code''
      else if rq_ObjectCode q = 0 \<and> rq_PathCodes q = [] \<and> rq_Paths q = [] \<and>
              (rq_Method q = USPAgentMethodDelete \<or> rq_Method q = USPAgentMethodGetInstances)
      then invalid [] ''request missing path selector''
      else case validateUSPAgentRequestMessage S q of Some e \<Rightarrow> Some (TransportInvalid e)
      | None \<Rightarrow>
        (case (case rq_Transfer q of None \<Rightarrow> None | Some t \<Rightarrow> validateTransferRequest S t) of
           Some e \<Rightarrow> Some (TransportInvalid e)
         | None \<Rightarrow> validate_method S q))"

definition validateUSPAgentResponse :: "usp_response \<Rightarrow> transport_error option" where
  "validateUSPAgentResponse q =
     (if rs_Method q = 0 then Some TransportMethodRequired
      else if \<exists>p \<in> set (rs_Paths q). TrimSpace p = [] then invalid [] ''response contains empty path''
      else if 0 \<in> set (rs_PathCodes q) then invalid [] ''response contains zero path code''
      else if rs_PathInstances q \<noteq> [] \<and> length (rs_PathInstances q) \<noteq> length (rs_PathCodes q)
      then invalid [] ''response path selector metadata length mismatch''
      else if TrimSpace (rs_ObjectPath q) \<noteq> [] \<and> \<not> isObjectPath (rs_ObjectPath q)
      then invalid (rs_ObjectPath q) (''response object path must end with '' @ [CHR 0x27, CHR 0x2E, CHR 0x27])
      else if rs_ObjectCode q = 0 \<and> rs_ObjectInstances q \<noteq> []
      then invalid [] ''response object selector instances without object code''
      else None)"

section \<open>Nested messages\<close>

definition shouldCompressNestedMessage :: "wmessage \<Rightarrow> bool" where
  "shouldCompressNestedMessage m \<longleftrightarrow>
     8 \<le> length (m_Fields m) \<or>
     (\<exists>k < length (m_Fields m). 512 < length (m_DeviceID m) + 16 +
        (\<Sum>f \<leftarrow> take (Suc k) (m_Fields m). length (f_Path f) + estimateValueEncodedSize (f_Val f) + 3))"

definition encodeMessageValidated :: "transport_schema \<Rightarrow> wmessage \<Rightarrow> bool \<Rightarrow> bytes" where
  "encodeMessageValidated S m compress =
     frame_Encode (sc_registry S) \<lparr>o_Compress = compress, o_IncludeDeviceID = True, o_IncludeTimestamp = True\<rparr> m"

definition encodeNestedValidatedMessage :: "transport_schema \<Rightarrow> wmessage \<Rightarrow> bytes" where
  "encodeNestedValidatedMessage S m = encodeMessageValidated S m (shouldCompressNestedMessage m)"

definition DecodeMessageLenient :: "transport_schema \<Rightarrow> bytes \<Rightarrow> transport_error + wmessage" where
  "DecodeMessageLenient S data = (case frame_Decode (sc_registry S) True data of Inl e \<Rightarrow> Inl (TransportFrame e) | Inr m \<Rightarrow> Inr m)"

definition DecodeMessage :: "transport_schema \<Rightarrow> bytes \<Rightarrow> transport_error + wmessage" where
  "DecodeMessage S data =
     (case DecodeMessageLenient S data of Inl e \<Rightarrow> Inl e
      | Inr m \<Rightarrow> (case ValidateMessageFast S m of Some e \<Rightarrow> Inl (TransportInvalid e) | None \<Rightarrow> Inr m))"

definition decodeUSPAgentRequestMessage :: "transport_schema \<Rightarrow> usp_method \<Rightarrow> bytes \<Rightarrow> transport_error + wmessage" where
  "decodeUSPAgentRequestMessage S method data =
     (if method = USPAgentMethodOperate then DecodeMessageLenient S data else DecodeMessage S data)"


section \<open>Requests\<close>

definition flag_if :: "bool \<Rightarrow> nat \<Rightarrow> byte" where
  "flag_if b k = (if b then push_bit k 1 else 0)"

definition request_flags :: "usp_request \<Rightarrow> byte" where
  "request_flags q =
     flag_if (rq_Message q \<noteq> None) 0 OR flag_if (rq_Transfer q \<noteq> None) 1 OR
     flag_if (TrimSpace (rq_ObjectPath q) \<noteq> []) 2 OR flag_if (rq_Metadata q \<noteq> []) 3 OR
     flag_if (rq_PathCodes q \<noteq> []) 4 OR flag_if (rq_ObjectCode q \<noteq> 0) 5"

definition write_request :: "transport_schema \<Rightarrow> usp_request \<Rightarrow> bytes" where
  "write_request S q =
     (let nestedFrame = (case rq_Message q of None \<Rightarrow> [] | Some m \<Rightarrow> encodeNestedValidatedMessage S m) in
      writeHeader \<lparr>h_Version = uspTransportVersion, h_Kind = uspTransportKindRequest, h_Method = rq_Method q,
        h_Flags = request_flags q, h_ID = rq_ID q\<rparr> @
      writeStringList (rq_Paths q) @
      (if TrimSpace (rq_ObjectPath q) \<noteq> [] then writeString (rq_ObjectPath q) else []) @
      (if rq_PathCodes q \<noteq> [] then writePathSelectors (rq_PathCodes q) (rq_PathInstances q) else []) @
      (if rq_ObjectCode q \<noteq> 0 then writePathSelector (rq_ObjectCode q, rq_ObjectInstances q) else []) @
      (if nestedFrame \<noteq> [] then writeBytes nestedFrame else []) @
      (case rq_Transfer q of None \<Rightarrow> [] | Some t \<Rightarrow> writeTransferRequest t) @
      (if rq_Metadata q \<noteq> [] then writeMetadata (rq_Metadata q) else []))"

definition prepare_request :: "transport_schema \<Rightarrow> usp_request \<Rightarrow> usp_request" where
  "prepare_request S q =
     (let q = compactRequestSelectors S q in q\<lparr>rq_Message := map_option ResetAllFieldIDs (rq_Message q)\<rparr>)"

definition EncodeUSPAgentRequest :: "transport_schema \<Rightarrow> usp_request \<Rightarrow> transport_error + bytes" where
  "EncodeUSPAgentRequest S q =
     (let q = prepare_request S q in
      case validateUSPAgentRequest S q of Some e \<Rightarrow> Inl e | None \<Rightarrow> Inr (write_request S q))"

definition estimateUSPAgentRequestSize :: "usp_request \<Rightarrow> bytes \<Rightarrow> nat" where
  "estimateUSPAgentRequestSize q nestedFrame =
     12 + estimateStringListSize (rq_Paths q) +
     (if rq_ObjectPath q \<noteq> [] then estimateStringSize (rq_ObjectPath q) else 0) +
     (if rq_PathCodes q \<noteq> [] then estimatePathSelectorsSize (rq_PathCodes q) (rq_PathInstances q) else 0) +
     (if rq_ObjectCode q \<noteq> 0 then estimatePathSelectorSize (rq_ObjectCode q) (rq_ObjectInstances q) else 0) +
     (if nestedFrame \<noteq> [] then estimateBlobSize nestedFrame else 0) +
     (case rq_Transfer q of None \<Rightarrow> 0 | Some t \<Rightarrow> estimateTransferRequestSize t) +
     estimateMetadataSize (rq_Metadata q)"

text \<open>A part of the payload that a flag announces; without the flag the field keeps its zero value.\<close>

definition ropt :: "bool \<Rightarrow> 'a \<Rightarrow> 'a reader \<Rightarrow> 'a reader" where
  "ropt b z rd = (if b then rd else rret z)"

definition rlift :: "transport_error + 'a \<Rightarrow> 'a reader" where
  "rlift res = (case res of Inl e \<Rightarrow> rfail e | Inr x \<Rightarrow> rret x)"

definition read_request :: "transport_schema \<Rightarrow> usp_request reader" where
  "read_request S =
     rbind readHeader (\<lambda>h.
     if h_Kind h \<noteq> uspTransportKindRequest then rfail (TransportMalformed ''unexpected request kind %d'')
     else
     rbind readStringList (\<lambda>paths.
     rbind (ropt (bit (h_Flags h) 2) [] readString) (\<lambda>objectPath.
     rbind (ropt (bit (h_Flags h) 4) ([], []) readPathSelectors) (\<lambda>(codes, insts).
     rbind (ropt (bit (h_Flags h) 5) (0, []) readPathSelector) (\<lambda>(oc, oi).
     rbind (ropt (bit (h_Flags h) 0) None (rbind readBytes (\<lambda>msgFrame.
              rbind (rlift (decodeUSPAgentRequestMessage S (h_Method h) msgFrame)) (\<lambda>m. rret (Some m))))) (\<lambda>msg.
     rbind (ropt (bit (h_Flags h) 1) None (rbind readTransferRequest (\<lambda>t. rret (Some t)))) (\<lambda>transfer.
     rbind (ropt (bit (h_Flags h) 3) [] readMetadata) (\<lambda>md.
       rret \<lparr>rq_ID = h_ID h, rq_Method = h_Method h, rq_Paths = paths, rq_PathCodes = codes, rq_PathInstances = insts,
             rq_ObjectPath = objectPath, rq_ObjectCode = oc, rq_ObjectInstances = oi, rq_Message = msg,
             rq_Transfer = transfer, rq_Metadata = md\<rparr>))))))))"

definition DecodeUSPAgentRequest :: "transport_schema \<Rightarrow> bytes \<Rightarrow> transport_error + usp_request" where
  "DecodeUSPAgentRequest S data =
     (case read_request S data of Inl e \<Rightarrow> Inl e
      | Inr (q, r) \<Rightarrow>
        if \<not> remainingAllZero r then Inl (TransportMalformed ''trailing request data'')
        else let q = resolveFastRequestPaths S q in
          (case validateUSPAgentRequest S q of Some e \<Rightarrow> Inl e | None \<Rightarrow> Inr q))"

section \<open>Responses\<close>

definition selectors_present :: "usp_response \<Rightarrow> bool" where
  "selectors_present q \<longleftrightarrow> rs_PathCodes q \<noteq> [] \<or> rs_ObjectCode q \<noteq> 0 \<or> rs_ObjectInstances q \<noteq> []"

definition response_flags :: "usp_response \<Rightarrow> byte" where
  "response_flags q =
     flag_if (rs_Message q \<noteq> None) 0 OR flag_if (rs_Transfer q \<noteq> None) 1 OR flag_if (rs_Paths q \<noteq> []) 2 OR
     flag_if (TrimSpace (rs_ObjectPath q) \<noteq> []) 3 OR flag_if (rs_Metadata q \<noteq> []) 4 OR
     flag_if (rs_SupportedDataModel q \<noteq> None) 5 OR flag_if (rs_Protocol q \<noteq> None) 6 OR
     flag_if (selectors_present q) 7"

definition write_response :: "transport_schema \<Rightarrow> usp_response \<Rightarrow> bytes" where
  "write_response S q =
     (let nestedFrame = (case rs_Message q of None \<Rightarrow> [] | Some m \<Rightarrow> encodeNestedValidatedMessage S m) in
      writeHeader \<lparr>h_Version = uspTransportVersion, h_Kind = uspTransportKindResponse, h_Method = rs_Method q,
        h_Flags = response_flags q, h_ID = rs_ID q\<rparr> @
      writeString (rs_Error q) @
      (if rs_Paths q \<noteq> [] then writeStringList (rs_Paths q) else []) @
      (if TrimSpace (rs_ObjectPath q) \<noteq> [] then writeString (rs_ObjectPath q) else []) @
      (if nestedFrame \<noteq> [] then writeBytes nestedFrame else []) @
      (case rs_Transfer q of None \<Rightarrow> [] | Some t \<Rightarrow> writeTransferResult t) @
      (if rs_Metadata q \<noteq> [] then writeMetadata (rs_Metadata q) else []) @
      (if selectors_present q
       then writePathSelectors (rs_PathCodes q) (rs_PathInstances q) @
            writePathSelector (rs_ObjectCode q, rs_ObjectInstances q) else []) @
      (case rs_SupportedDataModel q of None \<Rightarrow> [] | Some m \<Rightarrow> writeSupportedDataModel m) @
      (case rs_Protocol q of None \<Rightarrow> [] | Some i \<Rightarrow> writeProtocolInfo i))"

definition prepare_response :: "transport_schema \<Rightarrow> usp_response \<Rightarrow> usp_response" where
  "prepare_response S q =
     (let q = compactResponseSelectors S q in q\<lparr>rs_Message := map_option ResetAllFieldIDs (rs_Message q)\<rparr>)"

definition EncodeUSPAgentResponse :: "transport_schema \<Rightarrow> usp_response \<Rightarrow> transport_error + bytes" where
  "EncodeUSPAgentResponse S q =
     (let q = prepare_response S q in
      case validateUSPAgentResponse q of Some e \<Rightarrow> Inl e | None \<Rightarrow> Inr (write_response S q))"

definition estimateUSPAgentResponseSize :: "usp_response \<Rightarrow> bytes \<Rightarrow> nat" where
  "estimateUSPAgentResponseSize q nestedFrame =
     12 + estimateStringSize (rs_Error q) +
     (if rs_Paths q \<noteq> [] then estimateStringListSize (rs_Paths q) else 0) +
     (if rs_ObjectPath q \<noteq> [] then estimateStringSize (rs_ObjectPath q) else 0) +
     (if nestedFrame \<noteq> [] then estimateBlobSize nestedFrame else 0) +
     (case rs_Transfer q of None \<Rightarrow> 0 | Some t \<Rightarrow> estimateTransferResultSize t) +
     estimateMetadataSize (rs_Metadata q) +
     estimatePathSelectorsSize (rs_PathCodes q) (rs_PathInstances q) +
     estimatePathSelectorSize (rs_ObjectCode q) (rs_ObjectInstances q) +
     (case rs_SupportedDataModel q of None \<Rightarrow> 0 | Some m \<Rightarrow> estimateSupportedDataModelSize m) +
     (case rs_Protocol q of None \<Rightarrow> 0 | Some i \<Rightarrow> estimateProtocolInfoSize i)"

definition read_response :: "transport_schema \<Rightarrow> usp_response reader" where
  "read_response S =
     rbind readHeader (\<lambda>h.
     if h_Kind h \<noteq> uspTransportKindResponse then rfail (TransportMalformed ''unexpected response kind %d'')
     else
     rbind readString (\<lambda>err.
     rbind (ropt (bit (h_Flags h) 2) [] readStringList) (\<lambda>paths.
     rbind (ropt (bit (h_Flags h) 3) [] readString) (\<lambda>objectPath.
     rbind (ropt (bit (h_Flags h) 0) None (rbind readBytes (\<lambda>msgFrame.
              rbind (rlift (DecodeMessage S msgFrame)) (\<lambda>m. rret (Some m))))) (\<lambda>msg.
     rbind (ropt (bit (h_Flags h) 1) None (rbind readTransferResult (\<lambda>t. rret (Some t)))) (\<lambda>transfer.
     rbind (ropt (bit (h_Flags h) 4) [] readMetadata) (\<lambda>md.
     rbind (ropt (bit (h_Flags h) 7) ([], []) readPathSelectors) (\<lambda>(codes, insts).
     rbind (ropt (bit (h_Flags h) 7) (0, []) readPathSelector) (\<lambda>(oc, oi).
     rbind (ropt (bit (h_Flags h) 5) None (rbind readSupportedDataModel (\<lambda>m. rret (Some m)))) (\<lambda>dm.
     rbind (ropt (bit (h_Flags h) 6) None (rbind readProtocolInfo (\<lambda>i. rret (Some i)))) (\<lambda>proto.
       rret \<lparr>rs_ID = h_ID h, rs_Method = h_Method h, rs_Paths = paths, rs_PathCodes = codes, rs_PathInstances = insts,
             rs_ObjectPath = objectPath, rs_ObjectCode = oc, rs_ObjectInstances = oi, rs_Message = msg,
             rs_Transfer = transfer, rs_Metadata = md, rs_SupportedDataModel = dm, rs_Protocol = proto,
             rs_Error = err\<rparr>)))))))))))"

definition DecodeUSPAgentResponse :: "transport_schema \<Rightarrow> bytes \<Rightarrow> transport_error + usp_response" where
  "DecodeUSPAgentResponse S data =
     (case read_response S data of Inl e \<Rightarrow> Inl e
      | Inr (q, r) \<Rightarrow>
        if \<not> remainingAllZero r then Inl (TransportMalformed ''trailing response data'')
        else let q = resolveFastResponsePaths S q in
          (case validateUSPAgentResponse q of Some e \<Rightarrow> Inl e | None \<Rightarrow> Inr q))"

end
