(* ===== verification/Usp_Roundtrip.thy ===== *)
theory Usp_Roundtrip
  imports Usp_Transport
begin

text \<open>
  Requests and responses survive the transport: reading undoes writing part by part, the selectors lead
  back to the paths, and the receiver's validation accepts what the sender's accepted. The size estimates
  bound the encodings, and the counts on the wire are the one thing the readers do not check.
\<close>

section \<open>Headers and flags\<close>

lemma bit_flag_if: "k < 8 \<Longrightarrow> bit (flag_if b k) n \<longleftrightarrow> b \<and> n = k"
  by (auto simp: flag_if_def bit_exp_iff)

lemma request_flag_bits:
  "bit (request_flags q) 0 \<longleftrightarrow> rq_Message q \<noteq> None"
  "bit (request_flags q) 1 \<longleftrightarrow> rq_Transfer q \<noteq> None"
  "bit (request_flags q) 2 \<longleftrightarrow> TrimSpace (rq_ObjectPath q) \<noteq> []"
  "bit (request_flags q) 3 \<longleftrightarrow> rq_Metadata q \<noteq> []"
  "bit (request_flags q) 4 \<longleftrightarrow> rq_PathCodes q \<noteq> []"
  "bit (request_flags q) 5 \<longleftrightarrow> rq_ObjectCode q \<noteq> 0"
  unfolding request_flags_def by (simp_all add: bit_or_iff bit_flag_if del: bit_0)

lemma response_flag_bits:
  "bit (response_flags q) 0 \<longleftrightarrow> rs_Message q \<noteq> None"
  "bit (response_flags q) 1 \<longleftrightarrow> rs_Transfer q \<noteq> None"
  "bit (response_flags q) 2 \<longleftrightarrow> rs_Paths q \<noteq> []"
  "bit (response_flags q) 3 \<longleftrightarrow> TrimSpace (rs_ObjectPath q) \<noteq> []"
  "bit (response_flags q) 4 \<longleftrightarrow> rs_Metadata q \<noteq> []"
  "bit (response_flags q) 5 \<longleftrightarrow> rs_SupportedDataModel q \<noteq> None"
  "bit (response_flags q) 6 \<longleftrightarrow> rs_Protocol q \<noteq> None"
  "bit (response_flags q) 7 \<longleftrightarrow> selectors_present q"
  unfolding response_flags_def by (simp_all add: bit_or_iff bit_flag_if del: bit_0)

interpretation hdr: stream_codec readHeader writeHeader "\<lambda>h. h_Version h = uspTransportVersion"
proof
  fix h :: transport_header and r assume "h_Version h = uspTransportVersion"
  then show "readHeader (writeHeader h @ r) = Inr (h, r)"
    by (simp add: readHeader_def writeHeader_def slice_def get_le_put_le nth_append eval_nat_numeral)
qed

text \<open>Parts that a flag announces, in the form the encoders write them.\<close>

lemma ropt_bind:
  "(b \<Longrightarrow> rd (w @ r) = Inr (x, r)) \<Longrightarrow> rbind (ropt b z rd) f ((if b then w else []) @ r) = f (if b then x else z) r"
  by (auto simp: ropt_def rbind_def)

context stream_codec
begin

lemma opt: "(b \<Longrightarrow> ok x) \<Longrightarrow> rbind (ropt b z rd) f ((if b then wr x else []) @ r) = f (if b then x else z) r"
  by (rule ropt_bind) (rule rd_wr)

lemma opt_some:
  "(\<And>t. ot = Some t \<Longrightarrow> ok t) \<Longrightarrow>
     rbind (ropt (ot \<noteq> None) None (rbind rd (\<lambda>t. rret (Some t)))) f ((case ot of None \<Rightarrow> [] | Some t \<Rightarrow> wr t) @ r) = f ot r"
  by (cases ot) (auto simp: ropt_def rbind_def rd_wr)

end

lemma path_selectors_opt:
  "\<lbrakk>list_all selector_ok (selectors codes insts); allocatable 24 codes\<rbrakk> \<Longrightarrow>
     rbind (ropt (codes \<noteq> []) ([], []) readPathSelectors) f ((if codes \<noteq> [] then writePathSelectors codes insts else []) @ r) =
     f (codes, map snd (selectors codes insts)) r"
  by (subst ropt_bind, rule readPathSelectors_write) (auto simp: selectors_def)

lemma path_selector_opt:
  "allocatable 8 insts \<Longrightarrow>
     rbind (ropt (code \<noteq> 0) (0, []) readPathSelector) f ((if code \<noteq> 0 then writePathSelector (code, insts) else []) @ r) =
     f (code, if code \<noteq> 0 then insts else []) r"
  by (subst sel.opt) (auto simp: selector_ok_def)

section \<open>Nested messages\<close>

definition nested_options :: "wmessage \<Rightarrow> encode_options" where
  "nested_options m = \<lparr>o_Compress = shouldCompressNestedMessage m, o_IncludeDeviceID = True, o_IncludeTimestamp = True\<rparr>"

text \<open>A message that the frame codec can carry with its field ids cleared.\<close>

definition message_fits :: "transport_schema \<Rightarrow> wmessage \<Rightarrow> bool" where
  "message_fits S m \<longleftrightarrow>
     wf_message (sc_registry S) m \<and> length (encode_payload (nested_options m) m) \<le> maxDecodedPayload \<and>
     fits (encodeNestedValidatedMessage S m)"

lemma DecodeMessageLenient_nested:
  assumes "message_fits S m" shows "DecodeMessageLenient S (encodeNestedValidatedMessage S m) = Inr m"
proof -
  have "carried (nested_options m) m = m" by (simp add: carried_def nested_options_def)
  then show ?thesis
    using frame_Decode_Encode [of "sc_registry S" m "nested_options m" True] assms
    by (simp add: DecodeMessageLenient_def encodeNestedValidatedMessage_def encodeMessageValidated_def
        message_fits_def nested_options_def)
qed

lemma DecodeMessage_nested:
  "message_fits S m \<Longrightarrow> DecodeMessage S (encodeNestedValidatedMessage S m) =
     (case ValidateMessageFast S m of None \<Rightarrow> Inr m | Some e \<Rightarrow> Inl (TransportInvalid e))"
  by (simp add: DecodeMessage_def DecodeMessageLenient_nested)

lemma nested_nonempty [simp]: "encodeNestedValidatedMessage S m \<noteq> []"
  by (auto simp: encodeNestedValidatedMessage_def encodeMessageValidated_def frame_Encode_def Let_def split: option.split prod.split)


lemma message_opt:
  assumes "\<And>m. om = Some m \<Longrightarrow> message_fits S m \<and> dec (encodeNestedValidatedMessage S m) = Inr m"
  shows "rbind (ropt (om \<noteq> None) None (rbind readBytes (\<lambda>d. rbind (rlift (dec d)) (\<lambda>m. rret (Some m))))) f
           ((if (case om of None \<Rightarrow> [] | Some m \<Rightarrow> encodeNestedValidatedMessage S m) \<noteq> []
             then writeBytes (case om of None \<Rightarrow> [] | Some m \<Rightarrow> encodeNestedValidatedMessage S m) else []) @ r) = f om r"
proof (cases om)
  case (Some m)
  have "fits (encodeNestedValidatedMessage S m)" using assms [OF Some] by (simp add: message_fits_def)
  then show ?thesis using assms [OF Some] Some by (simp add: ropt_def blob.bind rlift_def rbind_def [of "rbind _ _"] rbind_def [of "rret _"])
qed (simp add: ropt_def rbind_def)

lemma message_refused:
  assumes "om = Some m" "message_fits S m" "dec (encodeNestedValidatedMessage S m) = Inl e"
  shows "rbind (ropt (om \<noteq> None) None (rbind readBytes (\<lambda>d. rbind (rlift (dec d)) (\<lambda>m. rret (Some m))))) f
           ((if (case om of None \<Rightarrow> [] | Some m \<Rightarrow> encodeNestedValidatedMessage S m) \<noteq> []
             then writeBytes (case om of None \<Rightarrow> [] | Some m \<Rightarrow> encodeNestedValidatedMessage S m) else []) @ r) = Inl e"
proof -
  have "fits (encodeNestedValidatedMessage S m)" using assms(2) by (simp add: message_fits_def)
  then show ?thesis using assms(1,3) by (simp add: ropt_def blob.bind rlift_def rfail_def rbind_def [of "rbind _ _"] rbind_def [of "rfail _"])
qed

section \<open>Requests\<close>

definition request_fits :: "transport_schema \<Rightarrow> usp_request \<Rightarrow> bool" where
  "request_fits S q \<longleftrightarrow>
     list_all fits (rq_Paths q) \<and> allocatable 16 (rq_Paths q) \<and> fits (rq_ObjectPath q) \<and>
     list_all selector_ok (selectors (rq_PathCodes q) (rq_PathInstances q)) \<and> allocatable 24 (rq_PathCodes q) \<and>
     allocatable 8 (rq_ObjectInstances q) \<and>
     (\<forall>m. rq_Message q = Some m \<longrightarrow> message_fits S m) \<and>
     (\<forall>t. rq_Transfer q = Some t \<longrightarrow> transfer_request_ok t) \<and> metadata_ok (rq_Metadata q)"

definition delivered_request :: "usp_request \<Rightarrow> usp_request" where
  "delivered_request q =
     q\<lparr>rq_PathInstances := map snd (selectors (rq_PathCodes q) (rq_PathInstances q)),
       rq_ObjectPath := (if TrimSpace (rq_ObjectPath q) \<noteq> [] then rq_ObjectPath q else []),
       rq_ObjectInstances := (if rq_ObjectCode q \<noteq> 0 then rq_ObjectInstances q else [])\<rparr>"

lemma delivered_request_fields:
  "delivered_request q =
     \<lparr>rq_ID = rq_ID q, rq_Method = rq_Method q, rq_Paths = rq_Paths q, rq_PathCodes = rq_PathCodes q,
      rq_PathInstances = map snd (selectors (rq_PathCodes q) (rq_PathInstances q)),
      rq_ObjectPath = (if TrimSpace (rq_ObjectPath q) \<noteq> [] then rq_ObjectPath q else []), rq_ObjectCode = rq_ObjectCode q,
      rq_ObjectInstances = (if rq_ObjectCode q \<noteq> 0 then rq_ObjectInstances q else []), rq_Message = rq_Message q,
      rq_Transfer = rq_Transfer q, rq_Metadata = (if rq_Metadata q \<noteq> [] then rq_Metadata q else [])\<rparr>"
  by (cases q) (simp add: delivered_request_def)

lemma read_request_write:
  assumes fits: "request_fits S q"
    and valid: "\<And>m. \<lbrakk>rq_Message q = Some m; rq_Method q \<noteq> USPAgentMethodOperate\<rbrakk> \<Longrightarrow> ValidateMessageFast S m = None"
  shows "read_request S (write_request S q @ r) = Inr (delivered_request q, r)"
proof -
  have msg: "message_fits S m \<and> decodeUSPAgentRequestMessage S (rq_Method q) (encodeNestedValidatedMessage S m) = Inr m"
    if "rq_Message q = Some m" for m
    using fits valid [OF that] that
    by (auto simp: request_fits_def decodeUSPAgentRequestMessage_def DecodeMessage_nested DecodeMessageLenient_nested)
  have parts: "list_all fits (rq_Paths q)" "allocatable 16 (rq_Paths q)" "fits (rq_ObjectPath q)"
    "list_all selector_ok (selectors (rq_PathCodes q) (rq_PathInstances q))" "allocatable 24 (rq_PathCodes q)"
    "allocatable 8 (rq_ObjectInstances q)" "metadata_ok (rq_Metadata q)"
    and transfer: "\<And>t. rq_Transfer q = Some t \<Longrightarrow> transfer_request_ok t"
    using fits by (auto simp: request_fits_def)
  show ?thesis
    unfolding read_request_def write_request_def Let_def append_assoc using parts
    by (subst hdr.bind, simp)
      (simp add: strings.bind request_flag_bits str.opt path_selectors_opt path_selector_opt message_opt [OF msg]
        treq.opt_some [OF transfer] md.opt delivered_request_fields
        del: bit_0 One_nat_def not_None_eq split del: if_split cong: if_cong)
qed


text \<open>The receiver accepts what the sender accepted, once the resolved paths are fit to be paths.\<close>

lemma validate_operate_trim:
  "TrimSpace obj = TrimSpace obj' \<Longrightarrow> validate_operate_fields S obj seen fs = validate_operate_fields S obj' seen fs"
proof (induction fs arbitrary: seen)
  case (Cons f fs)
  have "validateUnknownOperateInputField S obj f = validateUnknownOperateInputField S obj' f"
    using Cons.prems by (simp only: validateUnknownOperateInputField_def)
  then show ?case using Cons by (simp only: validate_operate_fields.simps Let_def)
qed simp

lemma validate_delivered:
  assumes valid: "validateUSPAgentRequest S p = None"
    and paths: "\<forall>x \<in> set (rq_Paths d). TrimSpace x \<noteq> []"
    and object: "TrimSpace (rq_ObjectPath d) \<noteq> [] \<longrightarrow> isObjectPath (rq_ObjectPath d)"
    and operate: "rq_Method p = USPAgentMethodOperate \<longrightarrow> rq_ObjectCode p = 0"
    and d: "d = resolveFastRequestPaths S (delivered_request p)"
  shows "validateUSPAgentRequest S d = None"
proof -
  have same: "rq_Method d = rq_Method p" "rq_PathCodes d = rq_PathCodes p" "rq_ObjectCode d = rq_ObjectCode p"
    "rq_Message d = rq_Message p" "rq_Transfer d = rq_Transfer p" "rq_Metadata d = rq_Metadata p"
    "length (rq_PathInstances d) = length (rq_PathCodes p)"
    "rq_ObjectCode p = 0 \<Longrightarrow> rq_ObjectInstances d = []"
    "rq_PathCodes p = [] \<Longrightarrow> rq_Paths d = rq_Paths p"
    by (simp_all add: d resolveFastRequestPaths_def delivered_request_def resolve_paths_def)
  have trim: "TrimSpace (rq_ObjectPath d) = TrimSpace (rq_ObjectPath p)" if "rq_ObjectCode p = 0"
    using that by (simp add: d resolveFastRequestPaths_def delivered_request_def resolve_object_def)
  have command: "OperationCommandPath (rq_ObjectPath d) md = OperationCommandPath (rq_ObjectPath p) md"
    if "rq_ObjectCode p = 0" for md
    using trim [OF that] by (simp add: OperationCommandPath_def)
  have message: "validateUSPAgentRequestMessage S d = validateUSPAgentRequestMessage S p"
    using operate validate_operate_trim [OF trim]
    by (auto simp: validateUSPAgentRequestMessage_def same validateOperateInputMessage_def split: option.split)
  have "validate_method S p = None"
    using valid by (simp add: validateUSPAgentRequest_def split: if_splits option.splits)
  then have "validate_method S d = None"
    using operate trim command same(9)
    by (cases "rq_ObjectCode p = 0") (auto simp: validate_method_def Let_def same split: if_splits)
  then show ?thesis
    using valid paths object same(7,8,9)
    by (simp add: validateUSPAgentRequest_def message same(1-6) split: if_splits option.splits) auto
qed


section \<open>Paths and selectors\<close>

text \<open>A path whose selector, when it has one, leads back to it.\<close>

definition reversible :: "transport_schema \<Rightarrow> bytes \<Rightarrow> bool" where
  "reversible S p \<longleftrightarrow> (\<forall>s. sc_SelectorForPath S p = Some s \<longrightarrow> fst s \<noteq> 0 \<longrightarrow> sc_PathForSelector S s = Some p)"

lemma resolve_selectors_back:
  "\<lbrakk>resolve_selectors S ps = Some ss; \<forall>p \<in> set ps. reversible S p\<rbrakk> \<Longrightarrow>
     List.map_filter (sc_PathForSelector S) ss = ps \<and> length ss = length ps"
proof (induction ps arbitrary: ss)
  case (Cons p ps)
  then show ?case
    by (auto simp: reversible_def List.map_filter_simps split: option.splits if_splits)
qed (simp add: List.map_filter_simps)

lemma selectors_pairs: "selectors (map fst ss) (map snd ss) = ss"
  by (rule nth_equalityI) (simp_all add: selectors_def selector_instances_def)

lemma compact_resolve_paths:
  assumes "compact_paths S (ps, [], []) = (ps', codes, insts)" "\<forall>p \<in> set ps. reversible S p"
  shows "resolve_paths S ps' codes (map snd (selectors codes insts)) = ps"
proof (cases "resolve_selectors S ps")
  case (Some ss)
  then show ?thesis
    using assms resolve_selectors_back [OF Some assms(2)] selectors_pairs [of ss]
    by (auto simp: compact_paths_def strictResolvedPathSelectors_def resolve_paths_def split: if_splits)
qed (use assms in \<open>auto simp: compact_paths_def strictResolvedPathSelectors_def resolve_paths_def split: if_splits\<close>)

lemma compact_resolve_object:
  assumes "compact_object S (op, 0, []) = (op', code, insts)" "TrimSpace op \<noteq> [] \<longrightarrow> reversible S op"
  shows "resolve_object S (if TrimSpace op' \<noteq> [] then op' else []) code (if code \<noteq> 0 then insts else []) =
           (if TrimSpace op \<noteq> [] then op else [])"
proof (cases "strictResolvedObjectCode S op")
  case (Some s)
  then have "sc_SelectorForPath S op = Some s" "fst s \<noteq> 0"
    by (auto simp: strictResolvedObjectCode_def split: option.splits if_splits)
  then show ?thesis using assms Some
    by (cases s) (auto simp: compact_object_def resolve_object_def reversible_def split: if_splits)
qed (use assms in \<open>auto simp: compact_object_def resolve_object_def split: if_splits\<close>)

text \<open>A request or response that names its targets by paths, each of which the device model can undo.\<close>

definition addressed :: "transport_schema \<Rightarrow> bytes list \<Rightarrow> bytes \<Rightarrow> bool" where
  "addressed S paths op \<longleftrightarrow> (\<forall>p \<in> set paths. TrimSpace p \<noteq> [] \<and> reversible S p) \<and>
     (TrimSpace op \<noteq> [] \<longrightarrow> isObjectPath op \<and> reversible S op)"

definition request_by_path :: "transport_schema \<Rightarrow> usp_request \<Rightarrow> bool" where
  "request_by_path S q \<longleftrightarrow> rq_PathCodes q = [] \<and> rq_PathInstances q = [] \<and> rq_ObjectCode q = 0 \<and>
     rq_ObjectInstances q = [] \<and> addressed S (rq_Paths q) (rq_ObjectPath q)"

lemma prepared_request:
  assumes "request_by_path S q"
  defines "p \<equiv> prepare_request S q"
  defines "d \<equiv> resolveFastRequestPaths S (delivered_request p)"
  shows "rq_ID d = rq_ID q" "rq_Method d = rq_Method q" "rq_Paths d = rq_Paths q"
    "rq_ObjectPath d = (if TrimSpace (rq_ObjectPath q) \<noteq> [] then rq_ObjectPath q else [])"
    "rq_Message d = map_option ResetAllFieldIDs (rq_Message q)" "rq_Transfer d = rq_Transfer q"
    "rq_Metadata d = rq_Metadata q" "rq_Method p = USPAgentMethodOperate \<longrightarrow> rq_ObjectCode p = 0"
proof -
  have q: "rq_PathCodes q = []" "rq_PathInstances q = []" "rq_ObjectCode q = 0" "rq_ObjectInstances q = []"
    "\<forall>p \<in> set (rq_Paths q). reversible S p" "TrimSpace (rq_ObjectPath q) \<noteq> [] \<longrightarrow> reversible S (rq_ObjectPath q)"
    using assms(1) by (auto simp: request_by_path_def addressed_def)
  obtain ps codes insts where c: "compact_paths S (rq_Paths q, [], []) = (ps, codes, insts)"
    by (metis prod_cases3)
  obtain op oc oi where ob: "(if rq_Method q \<noteq> USPAgentMethodOperate then compact_object S (rq_ObjectPath q, 0, [])
      else (rq_ObjectPath q, 0, [])) = (op, oc, oi)"
    by (metis prod_cases3)
  have p: "p = q\<lparr>rq_Paths := ps, rq_PathCodes := codes, rq_PathInstances := insts, rq_ObjectPath := op,
      rq_ObjectCode := oc, rq_ObjectInstances := oi, rq_Message := map_option ResetAllFieldIDs (rq_Message q)\<rparr>"
    unfolding p_def prepare_request_def compactRequestSelectors_def Let_def q(1-4) c ob by simp
  show "rq_Paths d = rq_Paths q"
    using compact_resolve_paths [OF c q(5)] by (simp add: d_def resolveFastRequestPaths_def delivered_request_def p)
  show "rq_ObjectPath d = (if TrimSpace (rq_ObjectPath q) \<noteq> [] then rq_ObjectPath q else [])"
  proof (cases "rq_Method q = USPAgentMethodOperate")
    case True
    then show ?thesis using ob by (simp add: d_def resolveFastRequestPaths_def delivered_request_def p resolve_object_def)
  next
    case False
    then have "compact_object S (rq_ObjectPath q, 0, []) = (op, oc, oi)" using ob by simp
    from compact_resolve_object [OF this q(6)] show ?thesis
      by (simp add: d_def resolveFastRequestPaths_def delivered_request_def p split del: if_split cong: if_cong)
  qed
  show "rq_Method p = USPAgentMethodOperate \<longrightarrow> rq_ObjectCode p = 0" using ob by (auto simp: p)
qed (simp_all add: d_def resolveFastRequestPaths_def delivered_request_def p_def prepare_request_def
  compactRequestSelectors_def Let_def split: prod.split)


lemma request_read_back:
  assumes "request_by_path S q" "request_fits S (prepare_request S q)" "EncodeUSPAgentRequest S q = Inr data"
    "remainingAllZero pad"
  shows "DecodeUSPAgentRequest S (data @ pad) =
           Inr (resolveFastRequestPaths S (delivered_request (prepare_request S q)))"
proof -
  define p where "p = prepare_request S q"
  have valid: "validateUSPAgentRequest S p = None" and data: "data = write_request S p"
    using assms(3) by (auto simp: EncodeUSPAgentRequest_def Let_def p_def split: option.splits)
  have msg: "ValidateMessageFast S m = None" if "rq_Message p = Some m" "rq_Method p \<noteq> USPAgentMethodOperate" for m
    using valid that by (simp add: validateUSPAgentRequest_def validateUSPAgentRequestMessage_def split: if_splits option.splits)
  have read: "read_request S (data @ pad) = Inr (delivered_request p, pad)"
    unfolding data using assms(2) msg by (intro read_request_write) (simp_all add: p_def)
  define d where "d = resolveFastRequestPaths S (delivered_request p)"
  note facts = prepared_request [OF assms(1), folded p_def, folded d_def]
  have "validateUSPAgentRequest S d = None"
    using facts assms(1) by (intro validate_delivered [OF valid _ _ _ d_def])
      (auto simp: request_by_path_def addressed_def)
  then show ?thesis
    using read assms(4) by (simp add: DecodeUSPAgentRequest_def d_def [symmetric] p_def [symmetric])
qed

text \<open>
  C19. A request survives the transport: when the encoder accepts a request that names its targets by
  paths, each of which the device model can undo, and whose parts fit their length fields, the decoder
  returns a request with the same id, method, paths, object path, transfer and metadata, and the same
  message with its field ids cleared, also when the datagram is padded with zero bytes.
\<close>
theorem request_roundtrip:
  assumes "request_by_path S q" "request_fits S (prepare_request S q)" "EncodeUSPAgentRequest S q = Inr data"
    "remainingAllZero pad"
  shows "\<exists>q'. DecodeUSPAgentRequest S (data @ pad) = Inr q' \<and>
           rq_ID q' = rq_ID q \<and> rq_Method q' = rq_Method q \<and> rq_Paths q' = rq_Paths q \<and>
           rq_ObjectPath q' = (if TrimSpace (rq_ObjectPath q) \<noteq> [] then rq_ObjectPath q else []) \<and>
           rq_Message q' = map_option ResetAllFieldIDs (rq_Message q) \<and>
           rq_Transfer q' = rq_Transfer q \<and> rq_Metadata q' = rq_Metadata q"
  using request_read_back [OF assms] prepared_request(1-7) [OF assms(1)] by blast


section \<open>Responses\<close>

definition response_fits :: "transport_schema \<Rightarrow> usp_response \<Rightarrow> bool" where
  "response_fits S q \<longleftrightarrow>
     fits (rs_Error q) \<and> list_all fits (rs_Paths q) \<and> allocatable 16 (rs_Paths q) \<and> fits (rs_ObjectPath q) \<and>
     list_all selector_ok (selectors (rs_PathCodes q) (rs_PathInstances q)) \<and> allocatable 24 (rs_PathCodes q) \<and>
     allocatable 8 (rs_ObjectInstances q) \<and>
     (\<forall>m. rs_Message q = Some m \<longrightarrow> message_fits S m) \<and>
     (\<forall>t. rs_Transfer q = Some t \<longrightarrow> transfer_result_ok t) \<and> metadata_ok (rs_Metadata q) \<and>
     (\<forall>m. rs_SupportedDataModel q = Some m \<longrightarrow> supported_dm_ok m) \<and>
     (\<forall>i. rs_Protocol q = Some i \<longrightarrow> protocol_info_ok i)"

definition delivered_response :: "usp_response \<Rightarrow> usp_response" where
  "delivered_response q =
     q\<lparr>rs_PathInstances := map snd (selectors (rs_PathCodes q) (rs_PathInstances q)),
       rs_ObjectPath := (if TrimSpace (rs_ObjectPath q) \<noteq> [] then rs_ObjectPath q else [])\<rparr>"

lemma delivered_response_fields:
  "delivered_response q =
     \<lparr>rs_ID = rs_ID q, rs_Method = rs_Method q, rs_Paths = (if rs_Paths q \<noteq> [] then rs_Paths q else []),
      rs_PathCodes = rs_PathCodes q, rs_PathInstances = map snd (selectors (rs_PathCodes q) (rs_PathInstances q)),
      rs_ObjectPath = (if TrimSpace (rs_ObjectPath q) \<noteq> [] then rs_ObjectPath q else []), rs_ObjectCode = rs_ObjectCode q,
      rs_ObjectInstances = rs_ObjectInstances q, rs_Message = rs_Message q, rs_Transfer = rs_Transfer q,
      rs_Metadata = (if rs_Metadata q \<noteq> [] then rs_Metadata q else []),
      rs_SupportedDataModel = rs_SupportedDataModel q, rs_Protocol = rs_Protocol q, rs_Error = rs_Error q\<rparr>"
  by (cases q) (simp add: delivered_response_def)

lemma both_selectors_opt:
  assumes "list_all selector_ok (selectors codes insts)" "allocatable 24 codes" "allocatable 8 oi"
    "\<not> b \<Longrightarrow> codes = [] \<and> oc = 0 \<and> oi = []"
  shows "rbind (ropt b ([], []) readPathSelectors) (\<lambda>(c, i). rbind (ropt b (0, []) readPathSelector) (g c i))
           ((if b then writePathSelectors codes insts @ writePathSelector (oc, oi) else []) @ r) =
         g codes (map snd (selectors codes insts)) (oc, oi) r"
proof (cases b)
  case True
  have "selector_ok (oc, oi)" using assms(3) by (simp add: selector_ok_def)
  with True show ?thesis
    by (simp only: ropt_def if_True append_assoc rbind_step [of readPathSelectors, OF readPathSelectors_write [OF assms(1,2)]]
        sel.bind prod.case)
next
  case False
  then show ?thesis using assms(4) by (simp add: ropt_def rbind_def selectors_def)
qed

text \<open>The encoder sends any message; the decoder validates it.\<close>

definition response_refusal :: "transport_schema \<Rightarrow> usp_response \<Rightarrow> validation_error option" where
  "response_refusal S q = Option.bind (rs_Message q) (\<lambda>m. ValidateMessageFast S (ResetAllFieldIDs m))"

lemma read_response_write:
  assumes "response_fits S q"
  shows "read_response S (write_response S q @ r) =
    (case Option.bind (rs_Message q) (ValidateMessageFast S) of None \<Rightarrow> Inr (delivered_response q, r) | Some e \<Rightarrow> Inl (TransportInvalid e))"
proof -
  have parts: "fits (rs_Error q)" "list_all fits (rs_Paths q)" "allocatable 16 (rs_Paths q)" "fits (rs_ObjectPath q)"
    "list_all selector_ok (selectors (rs_PathCodes q) (rs_PathInstances q))" "allocatable 24 (rs_PathCodes q)"
    "allocatable 8 (rs_ObjectInstances q)" "metadata_ok (rs_Metadata q)"
    and transfer: "\<And>t. rs_Transfer q = Some t \<Longrightarrow> transfer_result_ok t"
    and model: "\<And>m. rs_SupportedDataModel q = Some m \<Longrightarrow> supported_dm_ok m"
    and protocol: "\<And>i. rs_Protocol q = Some i \<Longrightarrow> protocol_info_ok i"
    and message: "\<And>m. rs_Message q = Some m \<Longrightarrow> message_fits S m"
    using assms by (auto simp: response_fits_def)
  have absent: "rs_PathCodes q = [] \<and> rs_ObjectCode q = 0 \<and> rs_ObjectInstances q = []" if "\<not> selectors_present q"
    using that by (simp add: selectors_present_def)
  show ?thesis
  proof (cases "Option.bind (rs_Message q) (ValidateMessageFast S)")
    case None
    have msg: "message_fits S m \<and> DecodeMessage S (encodeNestedValidatedMessage S m) = Inr m" if "rs_Message q = Some m" for m
      using message [OF that] None that by (simp add: DecodeMessage_nested)
    have "read_response S (write_response S q @ r) = Inr (delivered_response q, r)"
      unfolding read_response_def write_response_def Let_def append_assoc using parts
      by (subst hdr.bind, simp)
        (simp add: str.bind response_flag_bits strings.opt str.opt both_selectors_opt [OF _ _ _ absent] message_opt [OF msg]
          tres.opt_some [OF transfer] md.opt dm.opt_some [OF model] proto.opt_some [OF protocol] delivered_response_fields
          uspTransportKindResponse_def del: bit_0 One_nat_def not_None_eq split del: if_split cong: if_cong)
    then show ?thesis by (simp add: None)
  next
    case (Some e)
    then obtain m where m: "rs_Message q = Some m" "ValidateMessageFast S m = Some e" by (auto simp: bind_eq_Some_conv)
    then have dec: "DecodeMessage S (encodeNestedValidatedMessage S m) = Inl (TransportInvalid e)"
      using message [OF m(1)] by (simp add: DecodeMessage_nested)
    have "read_response S (write_response S q @ r) = Inl (TransportInvalid e)"
      unfolding read_response_def write_response_def Let_def append_assoc using parts
      by (subst hdr.bind, simp)
        (simp add: str.bind response_flag_bits strings.opt str.opt message_refused [OF m(1) message [OF m(1)], where dec = "DecodeMessage S", OF dec]
          uspTransportKindResponse_def del: bit_0 One_nat_def not_None_eq split del: if_split cong: if_cong)
    then show ?thesis by (simp add: Some)
  qed
qed


definition response_by_path :: "transport_schema \<Rightarrow> usp_response \<Rightarrow> bool" where
  "response_by_path S q \<longleftrightarrow> rs_PathCodes q = [] \<and> rs_PathInstances q = [] \<and> rs_ObjectCode q = 0 \<and>
     rs_ObjectInstances q = [] \<and> addressed S (rs_Paths q) (rs_ObjectPath q)"

lemma resolve_object_unused: "resolve_object S p c (if c \<noteq> 0 then i else []) = resolve_object S p c i"
  by (simp add: resolve_object_def)

lemma prepared_response:
  assumes "response_by_path S q"
  defines "p \<equiv> prepare_response S q"
  defines "d \<equiv> resolveFastResponsePaths S (delivered_response p)"
  shows "rs_ID d = rs_ID q" "rs_Method d = rs_Method q" "rs_Paths d = rs_Paths q"
    "rs_ObjectPath d = (if TrimSpace (rs_ObjectPath q) \<noteq> [] then rs_ObjectPath q else [])"
    "rs_Message d = map_option ResetAllFieldIDs (rs_Message q)" "rs_Transfer d = rs_Transfer q"
    "rs_Metadata d = rs_Metadata q" "rs_SupportedDataModel d = rs_SupportedDataModel q"
    "rs_Protocol d = rs_Protocol q" "rs_Error d = rs_Error q"
proof -
  have q: "rs_PathCodes q = []" "rs_PathInstances q = []" "rs_ObjectCode q = 0" "rs_ObjectInstances q = []"
    "\<forall>p \<in> set (rs_Paths q). reversible S p" "TrimSpace (rs_ObjectPath q) \<noteq> [] \<longrightarrow> reversible S (rs_ObjectPath q)"
    using assms(1) by (auto simp: response_by_path_def addressed_def)
  obtain ps codes insts where c: "compact_paths S (rs_Paths q, [], []) = (ps, codes, insts)"
    by (metis prod_cases3)
  obtain op oc oi where ob: "compact_object S (rs_ObjectPath q, 0, []) = (op, oc, oi)"
    by (metis prod_cases3)
  have p: "p = q\<lparr>rs_Paths := ps, rs_PathCodes := codes, rs_PathInstances := insts, rs_ObjectPath := op,
      rs_ObjectCode := oc, rs_ObjectInstances := oi, rs_Message := map_option ResetAllFieldIDs (rs_Message q)\<rparr>"
    unfolding p_def prepare_response_def compactResponseSelectors_def Let_def q(1-4) c ob by simp
  show "rs_Paths d = rs_Paths q"
    using compact_resolve_paths [OF c q(5)] by (simp add: d_def resolveFastResponsePaths_def delivered_response_def p)
  show "rs_ObjectPath d = (if TrimSpace (rs_ObjectPath q) \<noteq> [] then rs_ObjectPath q else [])"
    using compact_resolve_object [OF ob q(6)] unfolding resolve_object_unused
    by (simp add: d_def resolveFastResponsePaths_def delivered_response_def p split del: if_split cong: if_cong)
qed (simp_all add: d_def resolveFastResponsePaths_def delivered_response_def p_def prepare_response_def
  compactResponseSelectors_def Let_def split: prod.split)

lemma response_read_back:
  assumes "response_by_path S q" "response_fits S (prepare_response S q)" "EncodeUSPAgentResponse S q = Inr data"
    "remainingAllZero pad"
  shows "DecodeUSPAgentResponse S (data @ pad) =
    (case response_refusal S q of None \<Rightarrow> Inr (resolveFastResponsePaths S (delivered_response (prepare_response S q)))
     | Some e \<Rightarrow> Inl (TransportInvalid e))"
proof -
  define p where "p = prepare_response S q"
  have valid: "validateUSPAgentResponse p = None" and data: "data = write_response S p"
    using assms(3) by (auto simp: EncodeUSPAgentResponse_def Let_def p_def split: option.splits)
  have refusal: "Option.bind (rs_Message p) (ValidateMessageFast S) = response_refusal S q"
    by (cases "rs_Message q") (simp_all add: p_def response_refusal_def prepare_response_def compactResponseSelectors_def Let_def case_prod_unfold)
  have read: "read_response S (data @ pad) =
      (case response_refusal S q of None \<Rightarrow> Inr (delivered_response p, pad) | Some e \<Rightarrow> Inl (TransportInvalid e))"
    unfolding data refusal [symmetric] using assms(2) by (intro read_response_write) (simp add: p_def)
  define d where "d = resolveFastResponsePaths S (delivered_response p)"
  note facts = prepared_response [OF assms(1), folded p_def, folded d_def]
  have same: "rs_Method d = rs_Method p" "rs_PathCodes d = rs_PathCodes p" "rs_ObjectCode d = rs_ObjectCode p"
    "rs_ObjectInstances d = rs_ObjectInstances p" "length (rs_PathInstances d) = length (rs_PathCodes p)"
    by (simp_all add: d_def resolveFastResponsePaths_def delivered_response_def)
  have "\<forall>x \<in> set (rs_Paths d). TrimSpace x \<noteq> []"
    and "TrimSpace (rs_ObjectPath d) \<noteq> [] \<longrightarrow> isObjectPath (rs_ObjectPath d)"
    using assms(1) unfolding facts by (auto simp: response_by_path_def addressed_def)
  then have "validateUSPAgentResponse d = None"
    using valid by (simp add: validateUSPAgentResponse_def same split: if_splits) auto
  then show ?thesis
    using read assms(4) by (simp add: DecodeUSPAgentResponse_def d_def [symmetric] p_def [symmetric] split: option.split)
qed

text \<open>
  C21. What becomes of a response on the transport. When the encoder accepts a response that names its targets by
  paths, each of which the device model can undo, and whose parts fit their length fields, then exactly one of two things
  happens, also when the datagram is padded with zero bytes. If the schema accepts the message of the response, or there
  is none, the decoder returns a response with the same id, method, error text, paths, object path, transfer result, metadata,
  data model and protocol information, and the same message with its field ids cleared. If the schema refuses the
  message, which the encoder does not check, the decoder fails with that verdict and the response is lost.
\<close>
theorem response_roundtrip:
  assumes "response_by_path S q" "response_fits S (prepare_response S q)" "EncodeUSPAgentResponse S q = Inr data"
    "remainingAllZero pad"
  shows "case response_refusal S q of
      Some e \<Rightarrow> DecodeUSPAgentResponse S (data @ pad) = Inl (TransportInvalid e)
    | None \<Rightarrow> \<exists>q'. DecodeUSPAgentResponse S (data @ pad) = Inr q' \<and>
           rs_ID q' = rs_ID q \<and> rs_Method q' = rs_Method q \<and> rs_Error q' = rs_Error q \<and> rs_Paths q' = rs_Paths q \<and>
           rs_ObjectPath q' = (if TrimSpace (rs_ObjectPath q) \<noteq> [] then rs_ObjectPath q else []) \<and>
           rs_Message q' = map_option ResetAllFieldIDs (rs_Message q) \<and>
           rs_Transfer q' = rs_Transfer q \<and> rs_Metadata q' = rs_Metadata q \<and>
           rs_SupportedDataModel q' = rs_SupportedDataModel q \<and> rs_Protocol q' = rs_Protocol q"
  using response_read_back [OF assms] prepared_response [OF assms(1)] by (auto split: option.split)

section \<open>Sizes and counts\<close>

lemma length_writeHeader [sizes]: "length (writeHeader h) = 12"
  by (simp add: writeHeader_def)

text \<open>
  The buffer sizes are right: the estimate for a request is the length of its encoding, plus one byte
  when there is no metadata and plus the size of a blank object path, which is not sent, so a request is
  encoded without growing the buffer.
\<close>
theorem request_estimate_exact:
  "estimateUSPAgentRequestSize q (case rq_Message q of None \<Rightarrow> [] | Some m \<Rightarrow> encodeNestedValidatedMessage S m) =
     length (write_request S q) + (if rq_Metadata q = [] then 1 else 0) +
     (if rq_ObjectPath q \<noteq> [] \<and> TrimSpace (rq_ObjectPath q) = [] then estimateStringSize (rq_ObjectPath q) else 0)"
  by (auto simp: estimateUSPAgentRequestSize_def write_request_def Let_def sizes estimateMetadataSize_def [of "[]"]
      estimatePathSelectorSize_def split: option.split)

text \<open>
  C31. A count on the wire is not checked against the bytes that follow: a request or a response of about
  twenty bytes whose first list claims more items than a slice can hold makes the decoder panic instead
  of returning an error, whatever the schema, the method and the rest of the datagram.
\<close>
theorem transport_count_panics:
  assumes "maxAlloc < unat cnt * 16"
  shows "DecodeUSPAgentRequest S ([1, 1, m, 0] @ put_le 8 (i :: u64) @ putUvarint cnt @ rest) = Inl PanicMakeslice \<and>
         DecodeUSPAgentResponse S ([1, 2, m, 4] @ put_le 8 i @ [0] @ putUvarint cnt @ rest) = Inl PanicMakeslice"
proof
  have strings: "readStringList (putUvarint cnt @ rest) = Inl PanicMakeslice"
    using assms by (simp add: readStringList_def read_list_def num.bind [unfolded writeUvarint_def] rfail_def)
  have header: "readHeader ([1, k, m, f] @ put_le 8 i @ t) =
      Inr (\<lparr>h_Version = 1, h_Kind = k, h_Method = m, h_Flags = f, h_ID = i\<rparr>, t)" for k f t
    using hdr.rd_wr [of "\<lparr>h_Version = 1, h_Kind = k, h_Method = m, h_Flags = f, h_ID = i\<rparr>" t]
    by (simp add: writeHeader_def uspTransportVersion_def)
  show "DecodeUSPAgentRequest S ([1, 1, m, 0] @ put_le 8 i @ putUvarint cnt @ rest) = Inl PanicMakeslice"
    unfolding DecodeUSPAgentRequest_def read_request_def rbind_def header
    by (simp add: uspTransportKindRequest_def strings)
  have zero: "readString ([0] @ t) = Inr ([], t)" for t
    using str.rd_wr [of "[]" t] by (simp add: writeString_def writeUvarint_def putUvarint.simps word_le_nat_alt)
  have two: "bit (4 :: byte) 2" by (simp add: bit_numeral_rec)
  show "DecodeUSPAgentResponse S ([1, 2, m, 4] @ put_le 8 i @ [0] @ putUvarint cnt @ rest) = Inl PanicMakeslice"
    unfolding DecodeUSPAgentResponse_def read_response_def rbind_def header zero
    by (simp add: uspTransportKindResponse_def ropt_def two strings zero [simplified])
qed

section \<open>Examples\<close>

definition ex_path :: bytes where "ex_path = ascii ''X.7.MTU''"
definition ex_object :: bytes where "ex_object = ascii ''X.7.''"

definition ex_transport :: transport_schema where
  "ex_transport = schema.extend ex_schema
     \<lparr>sc_SelectorForPath = [ex_path \<mapsto> (5, [7])], sc_PathForSelector = [(5, [7]) \<mapsto> ex_path], sc_FormatFloat = (\<lambda>_. [])\<rparr>"

theorem transport_count_panics_witness:
  "DecodeUSPAgentResponse ex_transport ([1, 2, 1, 4] @ put_le 8 (7 :: u64) @ [0] @ putUvarint 0x4000000000000000) =
     Inl PanicMakeslice"
  using transport_count_panics [of "0x4000000000000000" ex_transport 1 7 "[]"] by (simp add: maxAlloc_def)

definition ex_request :: usp_request where
  "ex_request = \<lparr>rq_ID = 42, rq_Method = 1, rq_Paths = [ex_path], rq_PathCodes = [], rq_PathInstances = [], rq_ObjectPath = [],
     rq_ObjectCode = 0, rq_ObjectInstances = [], rq_Message = None, rq_Transfer = None, rq_Metadata = [(ex_object, ex_path)]\<rparr>"

definition ex_response :: usp_response where
  "ex_response = \<lparr>rs_ID = 42, rs_Method = 5, rs_Paths = [ex_path], rs_PathCodes = [], rs_PathInstances = [], rs_ObjectPath = ex_object,
     rs_ObjectCode = 0, rs_ObjectInstances = [], rs_Message = None, rs_Transfer = None, rs_Metadata = [(ex_object, ex_path)],
     rs_SupportedDataModel = None, rs_Protocol = None, rs_Error = []\<rparr>"

lemma ex_paths:
  "TrimSpace ex_path = ex_path" "TrimSpace ex_object = ex_object" "ex_path \<noteq> []" "ex_object \<noteq> []" "length ex_path = 7"
  "length ex_object = 4" "ends_with ex_object [0x2E]" "ex_object \<noteq> ex_path"
proof -
  have "plain ex_path" "plain ex_object" by (simp_all add: ex_path_def ex_object_def plain_def visible_def word_le_nat_alt)
  then show "TrimSpace ex_path = ex_path" "TrimSpace ex_object = ex_object" by simp_all
qed (simp_all add: ex_path_def ex_object_def ends_with_def)

lemma ex_transport_fields:
  "sc_SelectorForPath ex_transport = [ex_path \<mapsto> (5, [7])]" "sc_PathForSelector ex_transport = [(5, [7]) \<mapsto> ex_path]"
  by (simp_all add: ex_transport_def schema.extend_def)

lemma ex_addressed: "addressed ex_transport [ex_path] []" "addressed ex_transport [ex_path] ex_object"
  by (simp_all add: addressed_def reversible_def ex_transport_fields isObjectPath_def ex_paths)

lemma ex_prepared:
  "prepare_request ex_transport ex_request =
     ex_request\<lparr>rq_Paths := [], rq_PathCodes := [5], rq_PathInstances := [[7]]\<rparr>"
  "prepare_response ex_transport ex_response =
     ex_response\<lparr>rs_Paths := [], rs_PathCodes := [5], rs_PathInstances := [[7]]\<rparr>"
  by (simp_all add: prepare_request_def prepare_response_def compactRequestSelectors_def compactResponseSelectors_def
      compact_paths_def compact_object_def strictResolvedPathSelectors_def strictResolvedObjectCode_def
      ex_request_def ex_response_def ex_transport_fields ex_paths)

lemma ex_fits:
  "request_fits ex_transport (prepare_request ex_transport ex_request)"
  "response_fits ex_transport (prepare_response ex_transport ex_response)"
  unfolding ex_prepared
  by (simp_all add: request_fits_def response_fits_def ex_request_def ex_response_def allocatable_def maxAlloc_def
      selectors_def selector_instances_def selector_ok_def metadata_ok_def md_ok_def ex_paths)

theorem request_roundtrip_witness:
  "\<exists>data q. EncodeUSPAgentRequest ex_transport ex_request = Inr data \<and>
     DecodeUSPAgentRequest ex_transport (data @ [0, 0]) = Inr q \<and> rq_Paths q = [ex_path] \<and> rq_Metadata q = [(ex_object, ex_path)]"
proof -
  have "validateUSPAgentRequest ex_transport (prepare_request ex_transport ex_request) = None"
    unfolding ex_prepared by (simp add: validateUSPAgentRequest_def validateUSPAgentRequestMessage_def validate_method_def ex_request_def)
  then obtain data where data: "EncodeUSPAgentRequest ex_transport ex_request = Inr data"
    by (simp add: EncodeUSPAgentRequest_def)
  moreover have "request_by_path ex_transport ex_request"
    by (simp add: request_by_path_def ex_request_def ex_addressed)
  moreover have "remainingAllZero [0, 0]" by (simp add: remainingAllZero_def)
  ultimately have "\<exists>q. DecodeUSPAgentRequest ex_transport (data @ [0, 0]) = Inr q \<and> rq_Paths q = rq_Paths ex_request \<and>
      rq_Metadata q = rq_Metadata ex_request"
    using request_roundtrip [OF _ ex_fits(1)] by blast
  then show ?thesis using data by (auto simp: ex_request_def)
qed

text \<open>A response with a field that the schema does not know is sent, and refused on arrival.\<close>

definition ex_stray :: wmessage where
  "ex_stray = \<lparr>m_DeviceID = [], m_Timestamp = time_zero, m_Fields = [\<lparr>f_id = 0, f_Path = ascii ''Q'', f_Val = VUint 1\<rparr>]\<rparr>"

definition ex_lost :: usp_response where
  "ex_lost = ex_response\<lparr>rs_Message := Some ex_stray\<rparr>"

lemma ex_stray_refused: "response_refusal ex_transport ex_lost = reject (ascii ''Q'') ''unknown parameter path''"
  by (simp add: response_refusal_def ex_lost_def ex_stray_def ResetAllFieldIDs_def ValidateMessageFast_def ValidateFieldFast_def
      lookupSafeParam_def ex_transport_def schema.extend_def ex_schema_def ex_template_def canonicalParamPath_def)

lemma ex_stray_fits: "message_fits ex_transport (ResetAllFieldIDs ex_stray)"
proof -
  let ?m = "ResetAllFieldIDs ex_stray"
  have m: "?m = ex_stray" by (simp add: ex_stray_def ResetAllFieldIDs_def)
  have wf: "wf_message (sc_registry ex_transport) ex_stray"
    by (simp add: wf_message_def ex_stray_def wf_field_def maxValueNesting_def IsZero_def)
  have small: "\<not> shouldCompressNestedMessage ex_stray"
    by (simp add: shouldCompressNestedMessage_def ex_stray_def)
  then have payload: "length (encode_payload (nested_options ex_stray) ex_stray) \<le> 100"
    by (simp add: encode_payload_def nested_options_def ex_stray_def writeBlob_def encodeField_def putUvarint.simps word_le_nat_alt IsZero_def)
  have "encodeNestedValidatedMessage ex_transport ex_stray = frame_Encode (sc_registry ex_transport) (nested_options ex_stray) ex_stray"
    by (simp add: encodeNestedValidatedMessage_def encodeMessageValidated_def nested_options_def)
  then have "length (encodeNestedValidatedMessage ex_transport ex_stray) = 8 + length (encode_payload (nested_options ex_stray) ex_stray)"
    using small by (simp add: frame_Encode_def Let_def nested_options_def)
  then show ?thesis using wf payload by (simp add: m message_fits_def maxDecodedPayload_def)
qed

lemma ex_lost_fits: "response_fits ex_transport (prepare_response ex_transport ex_lost)"
proof -
  have "prepare_response ex_transport ex_lost = (prepare_response ex_transport ex_response)\<lparr>rs_Message := Some (ResetAllFieldIDs ex_stray)\<rparr>"
    by (simp add: prepare_response_def compactResponseSelectors_def ex_lost_def Let_def case_prod_unfold)
  then show ?thesis using ex_fits(2) ex_stray_fits by (simp add: response_fits_def)
qed

lemma ex_encoded: "\<exists>data. EncodeUSPAgentResponse ex_transport (ex_response\<lparr>rs_Message := om\<rparr>) = Inr data"
proof -
  have "validateUSPAgentResponse (prepare_response ex_transport (ex_response\<lparr>rs_Message := om\<rparr>)) = None"
    using ex_prepared(2)
    by (simp add: validateUSPAgentResponse_def prepare_response_def compactResponseSelectors_def Let_def case_prod_unfold
      compact_paths_def compact_object_def strictResolvedPathSelectors_def strictResolvedObjectCode_def
      ex_response_def ex_transport_fields isObjectPath_def ex_paths)
  then show ?thesis by (simp add: EncodeUSPAgentResponse_def)
qed

theorem response_roundtrip_witness:
  "(\<exists>data q. EncodeUSPAgentResponse ex_transport ex_response = Inr data \<and>
     DecodeUSPAgentResponse ex_transport (data @ [0]) = Inr q \<and> rs_Paths q = [ex_path] \<and> rs_ObjectPath q = ex_object) \<and>
   (\<exists>data. EncodeUSPAgentResponse ex_transport ex_lost = Inr data \<and>
     DecodeUSPAgentResponse ex_transport (data @ [0]) = Inl (TransportInvalid (the (reject (ascii ''Q'') ''unknown parameter path''))))"
proof
  have pad: "remainingAllZero [0]" by (simp add: remainingAllZero_def)
  obtain data where data: "EncodeUSPAgentResponse ex_transport ex_response = Inr data"
    using ex_encoded [of None] by (auto simp: ex_response_def)
  have "response_by_path ex_transport ex_response"
    by (simp add: response_by_path_def ex_response_def ex_addressed)
  then have "\<exists>q. DecodeUSPAgentResponse ex_transport (data @ [0]) = Inr q \<and> rs_Paths q = rs_Paths ex_response \<and>
      rs_ObjectPath q = (if TrimSpace (rs_ObjectPath ex_response) \<noteq> [] then rs_ObjectPath ex_response else [])"
    using response_roundtrip [OF _ ex_fits(2) data pad] by (force simp: response_refusal_def ex_response_def)
  then show "\<exists>data q. EncodeUSPAgentResponse ex_transport ex_response = Inr data \<and>
     DecodeUSPAgentResponse ex_transport (data @ [0]) = Inr q \<and> rs_Paths q = [ex_path] \<and> rs_ObjectPath q = ex_object"
    using data by (auto simp: ex_response_def ex_paths)
  obtain lost where lost: "EncodeUSPAgentResponse ex_transport ex_lost = Inr lost" using ex_encoded by (auto simp: ex_lost_def)
  have "response_by_path ex_transport ex_lost"
    by (simp add: response_by_path_def ex_lost_def ex_response_def ex_addressed)
  from response_roundtrip [OF this ex_lost_fits lost pad] lost
  show "\<exists>data. EncodeUSPAgentResponse ex_transport ex_lost = Inr data \<and>
     DecodeUSPAgentResponse ex_transport (data @ [0]) = Inl (TransportInvalid (the (reject (ascii ''Q'') ''unknown parameter path'')))"
    by (simp add: ex_stray_refused)
qed

end
