(* ===== verification/Control_Replay.thy ===== *)
theory Control_Replay
  imports Usp_Roundtrip "HOL-Library.Multiset"
begin

text \<open>
  The replay store of the agent runtime (\<^verbatim>\<open>internal/agent/usp.go\<close>): the first arrival of a request runs it
  under a ticket, a retry waits for the original and is answered with the same frames, and a read reply is
  kept for a short time so that single fragments can be sent again. The store is guarded by one mutex, so
  its operations are steps; \<^verbatim>\<open>beginControlReplay\<close> gives up the mutex while it waits and is two steps. A
  channel is a number, and closing one that is already closed sets \<open>cr_panic\<close>. The order in which \<^verbatim>\<open>range\<close>
  visits the map only matters for which of several oldest entries comes first; the argument \<open>visit\<close> of the
  operations rotates the list of entries, which brings any of them to the front; while the store is trimmed the
  rotation is chosen anew for every pass. \<^verbatim>\<open>sha256.Sum256\<close> is the argument
  \<open>sha\<close>.
\<close>

type_synonym replay_key = "bytes \<times> u64 \<times> u64"

record replay_entry =
  re_fingerprint :: bytes
  re_frames :: "bytes list"
  re_bytes :: int
  re_read :: bool
  re_ready :: nat
  re_expiresAt :: time

type_synonym replay_map = "(replay_key \<times> replay_entry) list"

record replay_ticket =
  tk_key :: replay_key
  tk_fingerprint :: bytes

record replay_store =
  cr_entries :: replay_map
  cr_closed :: "nat list"
  cr_next :: nat
  cr_panic :: bool

definition wuspControlReplayTTL :: duration where "wuspControlReplayTTL = 2 * minute"
definition wuspControlReplayMaxEntries :: nat where "wuspControlReplayMaxEntries = 256"
definition wuspReadReplayTTL :: duration where "wuspReadReplayTTL = 30 * second"
definition wuspReadReplayMaxBytes :: int where "wuspReadReplayMaxBytes = 2097152"
definition wuspReadReplayMaxReply :: int where "wuspReadReplayMaxReply = 524288"

datatype begin_error =
    FingerprintFailed transport_error
  | IdentityReused
  | WaitCancelled
  | NoReplayableResponse
  | ReadReplayMissed
  | QueueFull

datatype replay_answer =
    NotTracked
  | Granted replay_ticket
  | WaitFor nat replay_key
  | ReplayFrames "bytes list"
  | BeginFailed begin_error
  | NoAnswer

definition replayableWUSPControlMethod :: "usp_method \<Rightarrow> bool" where
  "replayableWUSPControlMethod m \<longleftrightarrow> IsReadReplayMethod m \<or>
     m \<in> {USPAgentMethodSet, USPAgentMethodAdd, USPAgentMethodDelete, USPAgentMethodOperate, USPAgentMethodNotify}"

definition wuspControlRequestFingerprint ::
  "(bytes \<Rightarrow> bytes) \<Rightarrow> transport_schema \<Rightarrow> usp_request \<Rightarrow> transport_error + bytes" where
  "wuspControlRequestFingerprint sha S q =
     (let semantic = q\<lparr>rq_Metadata := md_delete MetadataKeyResendFragments
                        (md_delete MetadataKeyResponseMaxControlPayload (rq_Metadata q))\<rparr> in
      case EncodeUSPAgentRequest S semantic of Inl e \<Rightarrow> Inl e | Inr payload \<Rightarrow> Inr (sha payload))"

definition prune_replay :: "time \<Rightarrow> replay_map \<Rightarrow> replay_map" where
  "prune_replay now es = filter (\<lambda>e. \<not> re_expiresAt (snd e) < now) es"

text \<open>The entry with the earliest expiry among those that satisfy \<open>P\<close>, the first one visited among equals.\<close>

definition oldest_entry :: "(replay_key \<times> replay_entry \<Rightarrow> bool) \<Rightarrow> replay_map \<Rightarrow> (replay_key \<times> replay_entry) option" where
  "oldest_entry P es =
     foldl (\<lambda>acc e. if \<not> P e then acc
                    else case acc of None \<Rightarrow> Some e
                      | Some a \<Rightarrow> if re_expiresAt (snd e) < re_expiresAt (snd a) then Some e else acc) None es"

definition request_key :: "bytes \<Rightarrow> usp_request \<Rightarrow> replay_key" where
  "request_key peer q = (peer, rq_ID q, case RequestSequence (rq_Metadata q) of Some n \<Rightarrow> n | None \<Rightarrow> 0)"

definition grant :: "time \<Rightarrow> replay_key \<Rightarrow> bytes \<Rightarrow> usp_method \<Rightarrow> replay_store \<Rightarrow> replay_answer \<times> replay_store" where
  "grant now key fp m s =
     (Granted \<lparr>tk_key = key, tk_fingerprint = fp\<rparr>,
      s\<lparr>cr_entries := AList.update key \<lparr>re_fingerprint = fp, re_frames = [], re_bytes = 0, re_read = IsReadReplayMethod m,
          re_ready = cr_next s, re_expiresAt = now + wuspControlReplayTTL\<rparr> (cr_entries s),
        cr_next := Suc (cr_next s)\<rparr>)"

text \<open>\<^verbatim>\<open>beginControlReplay\<close> up to the point where it grants a ticket, fails or waits for the original.\<close>

definition beginControlReplay ::
  "(bytes \<Rightarrow> bytes) \<Rightarrow> transport_schema \<Rightarrow> nat \<Rightarrow> time \<Rightarrow> bytes \<Rightarrow> usp_request \<Rightarrow> replay_store \<Rightarrow> replay_answer \<times> replay_store" where
  "beginControlReplay sha S visit now peer q s =
     (if \<not> replayableWUSPControlMethod (rq_Method q) then (NotTracked, s)
      else case wuspControlRequestFingerprint sha S q of Inl e \<Rightarrow> (BeginFailed (FingerprintFailed e), s)
      | Inr fp \<Rightarrow>
        let key = request_key peer q; s = s\<lparr>cr_entries := prune_replay now (cr_entries s)\<rparr> in
        case map_of (cr_entries s) key of
          Some entry \<Rightarrow>
            if re_fingerprint entry \<noteq> fp then (BeginFailed IdentityReused, s) else (WaitFor (re_ready entry) key, s)
        | None \<Rightarrow>
            if ResendFragments (rq_Metadata q) \<noteq> None \<and> IsReadReplayMethod (rq_Method q)
            then (BeginFailed ReadReplayMissed, s)
            else if wuspControlReplayMaxEntries \<le> length (cr_entries s) then
              (case oldest_entry (\<lambda>e. re_frames (snd e) \<noteq> []) (rotate visit (cr_entries s)) of
                 None \<Rightarrow> (BeginFailed QueueFull, s)
               | Some oldest \<Rightarrow>
                 grant now key fp (rq_Method q) (s\<lparr>cr_entries := AList.delete (fst oldest) (cr_entries s)\<rparr>))
            else grant now key fp (rq_Method q) s)"

text \<open>
  The rest of \<^verbatim>\<open>beginControlReplay\<close> for a retry: its context has ended (\<open>ended\<close>), the channel it waits for is
  closed, or it goes on waiting. When both cases of the \<^verbatim>\<open>select\<close> are ready either may be taken.
\<close>

definition resumeControlReplay :: "bool \<Rightarrow> nat \<Rightarrow> replay_key \<Rightarrow> usp_method \<Rightarrow> replay_store \<Rightarrow> replay_answer" where
  "resumeControlReplay ended ready key m s =
     (if ended then BeginFailed WaitCancelled
      else if ready \<notin> set (cr_closed s) then WaitFor ready key
      else case map_of (cr_entries s) key of
        Some entry \<Rightarrow>
          if re_frames entry = []
          then BeginFailed (if IsReadReplayMethod m then ReadReplayMissed else NoReplayableResponse)
          else ReplayFrames (re_frames entry)
      | None \<Rightarrow> BeginFailed (if IsReadReplayMethod m then ReadReplayMissed else NoReplayableResponse))"

definition close_channel :: "nat \<Rightarrow> replay_store \<Rightarrow> replay_store" where
  "close_channel c s =
     (if c \<in> set (cr_closed s) then s\<lparr>cr_panic := True\<rparr> else s\<lparr>cr_closed := c # cr_closed s\<rparr>)"

definition kept_read :: "replay_key \<times> replay_entry \<Rightarrow> bool" where
  "kept_read e \<longleftrightarrow> re_read (snd e) \<and> re_frames (snd e) \<noteq> []"

definition read_bytes :: "replay_map \<Rightarrow> int" where
  "read_bytes es = assoc_sum (\<lambda>e. if kept_read e then re_bytes (snd e) else 0) es"

lemma delete_filter: "AList.delete k es = filter (\<lambda>e. fst e \<noteq> k) es"
  by (induction es) auto

lemma oldest_entry_SomeD: "oldest_entry P es = Some e \<Longrightarrow> e \<in> set es \<and> P e"
proof -
  have "foldl (\<lambda>acc e. if \<not> P e then acc else case acc of None \<Rightarrow> Some e
      | Some a \<Rightarrow> if re_expiresAt (snd e) < re_expiresAt (snd a) then Some e else acc) acc es = Some e
    \<Longrightarrow> acc = Some e \<or> e \<in> set es \<and> P e" for acc
    by (induction es arbitrary: acc) (fastforce split: if_splits option.splits)+
  then show "oldest_entry P es = Some e \<Longrightarrow> e \<in> set es \<and> P e" unfolding oldest_entry_def by blast
qed

function trimReadReplayLocked :: "(nat \<Rightarrow> nat) \<Rightarrow> replay_key \<Rightarrow> replay_map \<Rightarrow> replay_map" where
  "trimReadReplayLocked visit keep es =
     (if read_bytes es \<le> wuspReadReplayMaxBytes then es
      else case oldest_entry (\<lambda>e. kept_read e \<and> fst e \<noteq> keep) (rotate (visit (length es)) es) of None \<Rightarrow> es
        | Some oldest \<Rightarrow> trimReadReplayLocked visit keep (AList.delete (fst oldest) es))"
  by pat_completeness auto
termination
proof (relation "measure (\<lambda>(_, _, es). length es)", goal_cases)
  case (2 visit keep es oldest)
  then have "oldest \<in> set es" using oldest_entry_SomeD [of _ "rotate (visit (length es)) es"] by auto
  then have "length (filter (\<lambda>e. fst e \<noteq> fst oldest) es) < length es"
    by (intro length_filter_less) auto
  then show ?case by (simp add: delete_filter)
qed simp

declare trimReadReplayLocked.simps [simp del]

definition frames_size :: "bytes list \<Rightarrow> int" where
  "frames_size frames = (\<Sum>f \<leftarrow> frames. int (length f))"

definition completeControlReplay ::
  "(nat \<Rightarrow> nat) \<Rightarrow> time \<Rightarrow> replay_ticket option \<Rightarrow> bytes list \<Rightarrow> replay_store \<Rightarrow> replay_store" where
  "completeControlReplay visit now ticket frames s =
     (case ticket of None \<Rightarrow> s
      | Some t \<Rightarrow>
        if frames = [] then s
        else case map_of (cr_entries s) (tk_key t) of None \<Rightarrow> s
          | Some entry \<Rightarrow>
            if re_fingerprint entry \<noteq> tk_fingerprint t \<or> re_frames entry \<noteq> [] then s
            else if re_read entry \<and> wuspReadReplayMaxReply < frames_size frames
            then close_channel (re_ready entry) (s\<lparr>cr_entries := AList.delete (tk_key t) (cr_entries s)\<rparr>)
            else
              let entry' = entry\<lparr>re_frames := frames, re_bytes := frames_size frames,
                    re_expiresAt := now + (if re_read entry then wuspReadReplayTTL else wuspControlReplayTTL)\<rparr>;
                  s' = close_channel (re_ready entry) (s\<lparr>cr_entries := AList.update (tk_key t) entry' (cr_entries s)\<rparr>) in
              if re_read entry then s'\<lparr>cr_entries := trimReadReplayLocked visit (tk_key t) (cr_entries s')\<rparr> else s')"

definition abortControlReplay :: "replay_ticket option \<Rightarrow> replay_store \<Rightarrow> replay_store" where
  "abortControlReplay ticket s =
     (case ticket of None \<Rightarrow> s
      | Some t \<Rightarrow>
        (case map_of (cr_entries s) (tk_key t) of None \<Rightarrow> s
         | Some entry \<Rightarrow>
           if re_fingerprint entry \<noteq> tk_fingerprint t \<or> re_frames entry \<noteq> [] then s
           else close_channel (re_ready entry) (s\<lparr>cr_entries := AList.delete (tk_key t) (cr_entries s)\<rparr>)))"

definition selectControlFrames :: "bytes list \<Rightarrow> u32 set \<Rightarrow> bytes list" where
  "selectControlFrames frames want =
     filter (\<lambda>frame. case DecodeUSPControlFragment frame of Fragment f \<Rightarrow> fr_Index f \<in> want | _ \<Rightarrow> True) frames"

definition fragmentControlPayload :: "usp_request \<Rightarrow> bytes \<Rightarrow> usp_error + bytes list" where
  "fragmentControlPayload q payload =
     FragmentUSPControlPayload payload (rq_ID q) (RequestedResponseMaxControlPayload (rq_Metadata q) WUSPMaxDatagramPayload)"

section \<open>Runs\<close>

datatype replay_step =
    is_Begin: Begin nat time bytes usp_request
  | Resume bool nat replay_key usp_method
  | Complete "nat \<Rightarrow> nat" time "replay_ticket option" "bytes list"
  | Abort "replay_ticket option"

fun replay_run_step :: "(bytes \<Rightarrow> bytes) \<Rightarrow> transport_schema \<Rightarrow> replay_store \<Rightarrow> replay_step \<Rightarrow> replay_answer \<times> replay_store" where
  "replay_run_step sha S s (Begin visit now peer q) = beginControlReplay sha S visit now peer q s"
| "replay_run_step sha S s (Resume ended ready key m) = (resumeControlReplay ended ready key m s, s)"
| "replay_run_step sha S s (Complete visit now t frames) = (NoAnswer, completeControlReplay visit now t frames s)"
| "replay_run_step sha S s (Abort t) = (NoAnswer, abortControlReplay t s)"

definition empty_store :: replay_store where
  "empty_store = \<lparr>cr_entries = [], cr_closed = [], cr_next = 0, cr_panic = False\<rparr>"


section \<open>The invariant of the store\<close>

text \<open>
  Keys and channels are distinct, there are at most 256 entries, an entry has frames exactly when its channel
  is closed, the kept read replies take at most 512 KiB each and 2 MiB together, and no channel was ever
  closed twice.
\<close>

definition entry_ok :: "nat list \<Rightarrow> nat \<Rightarrow> replay_entry \<Rightarrow> bool" where
  "entry_ok closed next e \<longleftrightarrow> re_ready e < next \<and> (re_frames e = [] \<longleftrightarrow> re_ready e \<notin> set closed) \<and>
     (re_frames e \<noteq> [] \<longrightarrow> re_bytes e = frames_size (re_frames e)) \<and>
     (re_read e \<and> re_frames e \<noteq> [] \<longrightarrow> re_bytes e \<le> wuspReadReplayMaxReply)"

definition map_ok :: "nat list \<Rightarrow> nat \<Rightarrow> replay_map \<Rightarrow> bool" where
  "map_ok closed next es \<longleftrightarrow> distinct (map fst es) \<and> distinct (map (re_ready \<circ> snd) es) \<and>
     (\<forall>e \<in> set es. entry_ok closed next (snd e))"

definition replay_inv :: "replay_store \<Rightarrow> bool" where
  "replay_inv s \<longleftrightarrow> map_ok (cr_closed s) (cr_next s) (cr_entries s) \<and>
     length (cr_entries s) \<le> wuspControlReplayMaxEntries \<and> read_bytes (cr_entries s) \<le> wuspReadReplayMaxBytes \<and>
     (\<forall>c \<in> set (cr_closed s). c < cr_next s) \<and> \<not> cr_panic s"

lemma frames_size_nonneg: "0 \<le> frames_size fs"
  by (induction fs) (auto simp: frames_size_def)

lemma kept_nonneg: "map_ok cl n es \<Longrightarrow> e \<in> set es \<Longrightarrow> 0 \<le> (if kept_read e then re_bytes (snd e) else 0)"
  using frames_size_nonneg by (auto simp: map_ok_def entry_ok_def kept_read_def)

lemma map_ok_filter: "map_ok cl n es \<Longrightarrow> map_ok cl n (filter P es)"
  by (auto simp: map_ok_def distinct_map_filter)

lemma read_bytes_filter: "map_ok cl n es \<Longrightarrow> read_bytes (filter P es) \<le> read_bytes es"
  unfolding read_bytes_def by (rule assoc_sum_filter_le) (rule kept_nonneg)

lemma replay_inv_filter [inv_intros]:
  assumes "replay_inv s" shows "replay_inv (s\<lparr>cr_entries := filter P (cr_entries s)\<rparr>)"
proof -
  have "map_ok (cr_closed s) (cr_next s) (cr_entries s)" using assms by (simp add: replay_inv_def)
  from map_ok_filter [OF this, of P] read_bytes_filter [OF this, of P] show ?thesis
    using assms order_trans [OF length_filter_le [of P "cr_entries s"]] unfolding replay_inv_def by auto
qed

lemma trim_filter: "\<exists>P. trimReadReplayLocked visit keep es = filter P es"
proof (induction visit keep es rule: trimReadReplayLocked.induct)
  case (1 visit keep es)
  show ?case
  proof (cases "read_bytes es \<le> wuspReadReplayMaxBytes \<or> oldest_entry (\<lambda>e. kept_read e \<and> fst e \<noteq> keep) (rotate (visit (length es)) es) = None")
    case True
    then have "trimReadReplayLocked visit keep es = filter (\<lambda>_. True) es" by (auto simp: trimReadReplayLocked.simps [of _ _ es])
    then show ?thesis by blast
  next
    case False
    then obtain v where v: "oldest_entry (\<lambda>e. kept_read e \<and> fst e \<noteq> keep) (rotate (visit (length es)) es) = Some v" by auto
    then obtain P where "trimReadReplayLocked visit keep (AList.delete (fst v) es) = filter P (AList.delete (fst v) es)"
      using "1.IH" False by blast
    then show ?thesis using False v
      by (auto simp: trimReadReplayLocked.simps [of _ _ es] delete_filter intro: exI [of _ "\<lambda>e. P e \<and> fst e \<noteq> fst v"])
  qed
qed

lemma oldest_entry_None: "oldest_entry P es = None \<Longrightarrow> e \<in> set es \<Longrightarrow> \<not> P e"
proof -
  let ?f = "\<lambda>acc e. if \<not> P e then acc else case acc of None \<Rightarrow> Some e
      | Some a \<Rightarrow> if re_expiresAt (snd e) < re_expiresAt (snd a) then Some e else acc"
  have keep: "foldl ?f (Some a) es \<noteq> None" for a es
    by (induction es arbitrary: a) (auto split: if_splits)
  have "foldl ?f None es = None \<Longrightarrow> e \<in> set es \<Longrightarrow> \<not> P e"
  proof (induction es)
    case (Cons x xs)
    then show ?case using keep [of x xs] by (cases "P x") auto
  qed simp
  then show "oldest_entry P es = None \<Longrightarrow> e \<in> set es \<Longrightarrow> \<not> P e" unfolding oldest_entry_def by blast
qed

text \<open>Trimming ends within the total: when nothing but the reply just kept is left, that one fits.\<close>

lemma read_bytes_only:
  assumes "map_ok cl n es" "\<forall>e \<in> set es. kept_read e \<longrightarrow> fst e = keep"
  shows "read_bytes es \<le> wuspReadReplayMaxReply"
  using assms
proof (induction es)
  case (Cons e es)
  have ok: "map_ok cl n es" using Cons.prems(1) by (simp add: map_ok_def)
  show ?case
  proof (cases "kept_read e")
    case True
    have "\<not> kept_read x" if "x \<in> set es" for x
      using that Cons.prems True by (auto simp: map_ok_def image_iff)
    then have "read_bytes es = 0" unfolding read_bytes_def by (induction es) auto
    then show ?thesis using True Cons.prems(1) by (auto simp: read_bytes_def map_ok_def entry_ok_def kept_read_def)
  next
    case False
    then show ?thesis using Cons.IH [OF ok] Cons.prems(2) by (simp add: read_bytes_def)
  qed
qed (simp add: read_bytes_def wuspReadReplayMaxReply_def)

lemma trim_bound: "map_ok cl n es \<Longrightarrow> read_bytes (trimReadReplayLocked visit keep es) \<le> wuspReadReplayMaxBytes"
proof (induction visit keep es rule: trimReadReplayLocked.induct)
  case (1 visit keep es)
  show ?case
  proof (cases "read_bytes es \<le> wuspReadReplayMaxBytes")
    case False
    show ?thesis
    proof (cases "oldest_entry (\<lambda>e. kept_read e \<and> fst e \<noteq> keep) (rotate (visit (length es)) es)")
      case None
      then have "\<forall>e \<in> set es. kept_read e \<longrightarrow> fst e = keep"
        using oldest_entry_None [OF None] by auto
      then have "read_bytes es \<le> wuspReadReplayMaxReply" using read_bytes_only "1.prems" by blast
      then show ?thesis using False by (simp add: wuspReadReplayMaxReply_def wuspReadReplayMaxBytes_def)
    next
      case (Some v)
      then show ?thesis
        using "1.IH" [OF False Some] False map_ok_filter [OF "1.prems"]
        by (simp add: trimReadReplayLocked.simps [of _ _ es] delete_filter)
    qed
  qed (simp add: trimReadReplayLocked.simps [of _ _ es])
qed


lemma update_absent: "map_of es k = None \<Longrightarrow> AList.update k v es = es @ [(k, v)]"
  by (induction es) (auto split: if_splits)

lemma grant_inv [inv_intros]:
  assumes "replay_inv s" "map_of (cr_entries s) key = None" "length (cr_entries s) < wuspControlReplayMaxEntries"
  shows "replay_inv (snd (grant now key fp m s))"
proof -
  have fresh: "re_ready (snd e) < cr_next s" if "e \<in> set (cr_entries s)" for e
    using assms(1) that by (auto simp: replay_inv_def map_ok_def entry_ok_def)
  have "cr_next s \<notin> (re_ready \<circ> snd) ` set (cr_entries s)" using fresh by fastforce
  moreover have "entry_ok (cr_closed s) (Suc (cr_next s)) (snd e)" if "e \<in> set (cr_entries s)" for e
    using assms(1) that by (auto simp: replay_inv_def map_ok_def entry_ok_def)
  moreover have "cr_next s \<notin> set (cr_closed s)" using assms(1) by (auto simp: replay_inv_def)
  moreover have "key \<notin> fst ` set (cr_entries s)" using assms(2) by (simp add: map_of_eq_None_iff)
  moreover have "read_bytes (cr_entries s @ [(key, e)]) = read_bytes (cr_entries s)" if "re_frames e = []" for e
    using that by (simp add: read_bytes_def assoc_sum_def kept_read_def)
  ultimately show ?thesis
    using assms(1,3) fresh unfolding replay_inv_def grant_def map_ok_def update_absent [OF assms(2)]
    by (auto simp: entry_ok_def less_Suc_eq)
qed

lemma begin_inv [inv_intros]:
  assumes inv: "replay_inv s" shows "replay_inv (snd (beginControlReplay sha S visit now peer q s))"
proof -
  let ?s = "s\<lparr>cr_entries := prune_replay now (cr_entries s)\<rparr>"
  have pruned: "replay_inv ?s" unfolding prune_replay_def by (rule replay_inv_filter [OF inv])
  have evict: "replay_inv (snd (grant now key fp m (?s\<lparr>cr_entries := AList.delete (fst v) (cr_entries ?s)\<rparr>)))"
    if "oldest_entry P (rotate visit (cr_entries ?s)) = Some v" "map_of (cr_entries ?s) key = None" for P v key fp m
  proof (rule grant_inv)
    have v: "v \<in> set (cr_entries ?s)" using oldest_entry_SomeD [OF that(1)] by simp
    show "replay_inv (?s\<lparr>cr_entries := AList.delete (fst v) (cr_entries ?s)\<rparr>)"
      unfolding delete_filter by (rule replay_inv_filter [OF pruned])
    show "map_of (cr_entries (?s\<lparr>cr_entries := AList.delete (fst v) (cr_entries ?s)\<rparr>)) key = None"
      using that(2) by (simp add: delete_conv')
    have "length (AList.delete (fst v) (cr_entries ?s)) < length (cr_entries ?s)"
      unfolding delete_filter using v by (intro length_filter_less) auto
    then show "length (cr_entries (?s\<lparr>cr_entries := AList.delete (fst v) (cr_entries ?s)\<rparr>)) < wuspControlReplayMaxEntries"
      using pruned unfolding replay_inv_def by simp
  qed
  have plain: "replay_inv (snd (grant now key fp m ?s))"
    if "map_of (cr_entries ?s) key = None" "\<not> wuspControlReplayMaxEntries \<le> length (cr_entries ?s)" for key fp m
    using grant_inv [OF pruned that(1)] that(2) by simp
  show ?thesis
    unfolding beginControlReplay_def Let_def
    using inv pruned evict plain by (simp split: sum.split option.split del: not_None_eq)
qed


text \<open>Closing the channel of one entry leaves the state of all others as it is.\<close>

lemma other_entries:
  assumes "map_ok cl n es" "map_of es k = Some e" "x \<in> set es" "fst x \<noteq> k"
  shows "entry_ok (re_ready e # cl) n (snd x)"
proof -
  have e: "(k, e) \<in> set es" using assms(2) by (rule map_of_SomeD)
  have inj: "inj_on (re_ready \<circ> snd) (set es)" using assms(1) by (simp add: map_ok_def distinct_map)
  have "re_ready (snd x) \<noteq> re_ready e"
  proof
    assume "re_ready (snd x) = re_ready e"
    then have "x = (k, e)" using inj_onD [OF inj _ assms(3) e] by simp
    then show False using assms(4) by simp
  qed
  moreover have "entry_ok cl n (snd x)" using assms(1,3) by (simp add: map_ok_def)
  ultimately show ?thesis by (auto simp: entry_ok_def)
qed

lemma in_update_iff:
  "distinct (map fst es) \<Longrightarrow> x \<in> set (AList.update k v es) \<longleftrightarrow> x = (k, v) \<or> x \<in> set es \<and> fst x \<noteq> k"
  by (induction es) (auto simp: image_iff)

lemma update_ready:
  "\<lbrakk>map_of es k = Some e; re_ready e' = re_ready e\<rbrakk> \<Longrightarrow>
     map (re_ready \<circ> snd) (AList.update k e' es) = map (re_ready \<circ> snd) es \<and>
     map fst (AList.update k e' es) = map fst es"
  by (induction es) (auto split: if_splits)

lemma map_ok_update:
  assumes ok: "map_ok cl n es" and e: "map_of es k = Some e" "re_frames e = []"
    and e': "re_ready e' = re_ready e" "re_frames e' \<noteq> []" "re_bytes e' = frames_size (re_frames e')"
      "re_read e' \<longrightarrow> re_bytes e' \<le> wuspReadReplayMaxReply"
  shows "map_ok (re_ready e # cl) n (AList.update k e' es)"
proof -
  have d: "distinct (map fst es)" using ok by (simp add: map_ok_def)
  have "entry_ok cl n e" using map_of_SomeD [OF e(1)] ok by (force simp: map_ok_def)
  then have "entry_ok (re_ready e # cl) n e'" using e' by (auto simp: entry_ok_def)
  then have "\<forall>x \<in> set (AList.update k e' es). entry_ok (re_ready e # cl) n (snd x)"
    using other_entries [OF ok e(1)] by (auto simp: in_update_iff [OF d])
  then show ?thesis
    using ok update_ready [OF e(1) e'(1)] by (simp only: map_ok_def)
qed

lemma map_ok_delete:
  assumes ok: "map_ok cl n es" and e: "map_of es k = Some e"
  shows "map_ok (re_ready e # cl) n (AList.delete k es)"
  using map_ok_filter [OF ok, of "\<lambda>x. fst x \<noteq> k"] other_entries [OF ok e]
  unfolding map_ok_def delete_filter by auto

lemma close_delete_inv:
  assumes inv: "replay_inv s" and e: "map_of (cr_entries s) k = Some e" "re_frames e = []"
  shows "replay_inv (close_channel (re_ready e) (s\<lparr>cr_entries := AList.delete k (cr_entries s)\<rparr>))"
proof -
  have ok: "map_ok (cr_closed s) (cr_next s) (cr_entries s)" using inv by (simp add: replay_inv_def)
  have "entry_ok (cr_closed s) (cr_next s) e" using map_of_SomeD [OF e(1)] ok by (force simp: map_ok_def)
  then have "re_ready e \<notin> set (cr_closed s)" "re_ready e < cr_next s" using e(2) by (auto simp: entry_ok_def)
  moreover have "replay_inv (s\<lparr>cr_entries := AList.delete k (cr_entries s)\<rparr>)"
    unfolding delete_filter by (rule replay_inv_filter [OF inv])
  ultimately show ?thesis
    using map_ok_delete [OF ok e(1)] by (simp add: replay_inv_def close_channel_def)
qed

lemma abort_inv [inv_intros]: "replay_inv s \<Longrightarrow> replay_inv (abortControlReplay t s)"
  using close_delete_inv by (auto simp: abortControlReplay_def split: option.split)

lemma read_bytes_update:
  assumes "distinct (map fst es)" "map_of es k = Some e" "\<not> re_read e'" "\<not> re_read e"
  shows "read_bytes (AList.update k e' es) = read_bytes es"
  using assms unfolding read_bytes_def by (simp add: assoc_sum_update kept_read_def)

lemma complete_inv [inv_intros]:
  assumes inv: "replay_inv s" shows "replay_inv (completeControlReplay visit now t frames s)"
proof (cases t)
  case (Some tk)
  show ?thesis
  proof (cases "frames = [] \<or> map_of (cr_entries s) (tk_key tk) = None")
    case False
    then obtain e where e: "map_of (cr_entries s) (tk_key tk) = Some e" and fs: "frames \<noteq> []" by auto
    let ?k = "tk_key tk" and ?big = "re_read e \<and> wuspReadReplayMaxReply < frames_size frames"
    let ?e = "e\<lparr>re_frames := frames, re_bytes := frames_size frames,
      re_expiresAt := now + (if re_read e then wuspReadReplayTTL else wuspControlReplayTTL)\<rparr>"
    have ok: "map_ok (cr_closed s) (cr_next s) (cr_entries s)" using inv by (simp add: replay_inv_def)
    have d: "distinct (map fst (cr_entries s))" using ok by (simp add: map_ok_def)
    have fill: "replay_inv (completeControlReplay visit now t frames s)"
      if "re_frames e = []" "re_fingerprint e = tk_fingerprint tk" "\<not> ?big"
    proof -
      let ?es = "AList.update ?k ?e (cr_entries s)"
      have "entry_ok (cr_closed s) (cr_next s) e" using map_of_SomeD [OF e] ok by (force simp: map_ok_def)
      then have ready: "re_ready e \<notin> set (cr_closed s)" "re_ready e < cr_next s" using that(1) by (auto simp: entry_ok_def)
      have ok': "map_ok (re_ready e # cr_closed s) (cr_next s) ?es"
        using ok e that fs by (intro map_ok_update) auto
      have len: "length ?es = length (cr_entries s)"
      proof (rule map_eq_imp_length_eq)
        show "map fst ?es = map fst (cr_entries s)" using update_ready [OF e, of ?e] by simp
      qed
      have s': "completeControlReplay visit now t frames s =
          s\<lparr>cr_entries := (if re_read e then trimReadReplayLocked visit ?k ?es else ?es), cr_closed := re_ready e # cr_closed s\<rparr>"
        using Some e fs that ready by (simp add: completeControlReplay_def close_channel_def)
      show ?thesis
      proof (cases "re_read e")
        case True
        obtain P where P: "trimReadReplayLocked visit ?k ?es = filter P ?es" using trim_filter by blast
        then have "map_ok (re_ready e # cr_closed s) (cr_next s) (trimReadReplayLocked visit ?k ?es)"
          "length (trimReadReplayLocked visit ?k ?es) \<le> length (cr_entries s)"
          using map_ok_filter [OF ok', of P] length_filter_le [of P ?es] len by simp_all
        then show ?thesis
          using inv True trim_bound [OF ok', of visit ?k] ready unfolding s' replay_inv_def by auto
      next
        case False
        then show ?thesis
          using inv ok' len read_bytes_update [OF d e, of ?e] ready unfolding s' replay_inv_def by auto
      qed
    qed
    show ?thesis
      using fill close_delete_inv [OF inv e] inv Some e fs by (auto simp: completeControlReplay_def)
  qed (use Some inv in \<open>auto simp: completeControlReplay_def\<close>)
qed (use inv in \<open>simp add: completeControlReplay_def\<close>)


lemma replay_run_inv: "replay_inv s \<Longrightarrow> replay_inv (snd (replay_run_step sha S s e))"
  by (cases e) (auto intro: inv_intros)

interpretation store: event_system "\<lambda>s e. snd (replay_run_step sha S s e)" empty_store replay_inv for sha S
proof
  show "replay_inv empty_store"
    by (simp add: replay_inv_def empty_store_def map_ok_def read_bytes_def wuspReadReplayMaxBytes_def)
qed (rule replay_run_inv)

lemma store_reachable: "replay_inv (foldl (\<lambda>s e. snd (replay_run_step sha S s e)) empty_store es)"
  using store.run_inv [of sha S es] by (simp add: store.run_def)

lemma read_bytes_frames:
  "map_ok cl n es \<Longrightarrow> (\<Sum>e \<leftarrow> filter kept_read es. frames_size (re_frames (snd e))) = read_bytes es"
proof (induction es)
  case (Cons e es)
  have "map_ok cl n es" "kept_read e \<longrightarrow> re_bytes (snd e) = frames_size (re_frames (snd e))"
    using Cons.prems by (auto simp: map_ok_def entry_ok_def kept_read_def)
  then show ?case using Cons.IH by (simp add: read_bytes_def)
qed (simp add: read_bytes_def)

lemma trim_keeps:
  "\<lbrakk>distinct (map fst es); map_of es k = Some e; \<not> kept_read (k, e)\<rbrakk> \<Longrightarrow> map_of (trimReadReplayLocked visit keep es) k = Some e"
proof (induction visit keep es rule: trimReadReplayLocked.induct)
  case (1 visit keep es)
  show ?case
  proof (cases "oldest_entry (\<lambda>e. kept_read e \<and> fst e \<noteq> keep) (rotate (visit (length es)) es)")
    case (Some v)
    then have v: "v \<in> set es" "kept_read v" using oldest_entry_SomeD [OF Some] by auto
    have "fst v \<noteq> k"
    proof
      assume "fst v = k"
      then have "v = (k, e)" using map_of_entry [OF "1.prems"(1,2) v(1)] by simp
      then show False using v(2) "1.prems"(3) by simp
    qed
    then have "map_of (AList.delete (fst v) es) k = Some e" "distinct (map fst (AList.delete (fst v) es))"
      using "1.prems" by (simp_all add: delete_conv' distinct_delete)
    then show ?thesis using "1.IH" [OF _ Some] "1.prems" Some by (simp add: trimReadReplayLocked.simps [of _ _ es])
  qed (use "1.prems" in \<open>simp add: trimReadReplayLocked.simps [of _ _ es]\<close>)
qed

lemma close_channel_entries [simp]: "cr_entries (close_channel c s) = cr_entries s"
  by (simp add: close_channel_def)

lemma closed_channel [simp]: "c \<in> set (cr_closed (close_channel c s))"
  by (simp add: close_channel_def)

text \<open>What a step may take out of the store.\<close>

lemma begin_keeps:
  assumes "replay_inv s" "map_of (cr_entries s) k = Some e" "\<not> re_expiresAt e < now"
    "re_frames e = [] \<or> length (cr_entries s) < wuspControlReplayMaxEntries"
  shows "map_of (cr_entries (snd (beginControlReplay sha S visit now peer q s))) k = Some e"
proof -
  let ?es = "prune_replay now (cr_entries s)"
  have d: "distinct (map fst (cr_entries s))" using assms(1) by (simp add: replay_inv_def map_ok_def)
  then have kept: "map_of ?es k = Some e" "distinct (map fst ?es)"
    using assms(2,3) by (simp_all add: prune_replay_def map_of_filter distinct_map_filter)
  have evict: "fst v \<noteq> k"
    if "oldest_entry (\<lambda>e. re_frames (snd e) \<noteq> []) (rotate visit ?es) = Some v" "wuspControlReplayMaxEntries \<le> length ?es" for v
  proof
    assume "fst v = k"
    moreover have "v \<in> set ?es" "re_frames (snd v) \<noteq> []" using oldest_entry_SomeD [OF that(1)] by auto
    ultimately have "v = (k, e)" "re_frames e \<noteq> []" using map_of_entry [OF kept(2,1), of v] by auto
    moreover have "length ?es \<le> length (cr_entries s)" by (simp add: prune_replay_def)
    ultimately show False using assms(4) that(2) by simp
  qed
  have granted: "map_of (cr_entries (snd (grant now key fp m s'))) k = Some e" if "key \<noteq> k" "map_of (cr_entries s') k = Some e" for key fp m s'
    using that by (simp add: grant_def update_conv')
  have other: "map_of ?es key = None \<Longrightarrow> key \<noteq> k" for key using kept(1) by auto
  have after: "map_of (AList.delete (fst v) ?es) k = Some e"
    if "oldest_entry (\<lambda>e. re_frames (snd e) \<noteq> []) (rotate visit ?es) = Some v" "wuspControlReplayMaxEntries \<le> length ?es" for v
    using evict [OF that] kept(1) by (simp add: delete_conv')
  show ?thesis
    unfolding beginControlReplay_def Let_def
    using assms(2) kept(1) by (simp split: sum.split option.split del: not_None_eq) (intro allI impI conjI granted other; auto simp: kept dest: after)
qed

text \<open>Whoever waits for a reply is told when the entry of the reply goes, unless the entry expires.\<close>

lemma step_releases:
  assumes "replay_inv s" "map_of (cr_entries s) k = Some e" "re_frames e = []"
    "map_of (cr_entries (snd (replay_run_step sha S s x))) k \<noteq> Some e"
  shows "re_ready e \<in> set (cr_closed (snd (replay_run_step sha S s x))) \<or> (\<exists>visit now peer q. x = Begin visit now peer q \<and> re_expiresAt e < now)"
proof (cases x)
  case (Begin visit now peer q)
  then show ?thesis using begin_keeps [OF assms(1,2), of now sha S visit peer q] assms(3,4) by auto
next
  case (Complete visit now t frames)
  have d: "distinct (map fst (cr_entries s))" using assms(1) by (simp add: replay_inv_def map_ok_def)
  have trim: "map_of (trimReadReplayLocked visit k' (AList.update k' e' (cr_entries s))) k = Some e" if "k' \<noteq> k" for k' e'
    using that assms(2,3) d by (intro trim_keeps) (simp_all add: update_conv' distinct_update kept_read_def)
  show ?thesis
  proof (cases "\<exists>tk. t = Some tk \<and> tk_key tk = k")
    case True
    then show ?thesis using assms(2-4) Complete by (auto simp: completeControlReplay_def Let_def split: if_splits)
  next
    case False
    have "map_of (cr_entries (completeControlReplay visit now t frames s)) k = Some e"
      using False assms(2) trim by (cases t) (simp_all add: completeControlReplay_def Let_def update_conv' delete_conv' split: option.split)
    then show ?thesis using assms(4) Complete by simp
  qed
next
  case (Abort t)
  then show ?thesis using assms(2-4) by (auto simp: abortControlReplay_def delete_conv' split: option.splits if_splits)
qed (use assms in simp)

text \<open>
  C27. Whatever requests, retries, completions and aborts arrive in whatever order, the replay store holds at most 256
  entries with distinct keys, the read replies it keeps take at most 2 MiB together, and no channel is ever closed
  twice, which would panic. The channel of an entry is closed exactly when the reply of the entry is there. And no waiting
  retry is forgotten: when a step takes an entry without a reply out of the store or gives it a reply, it closes the
  channel of the entry, so that an abort, or a reply that is too large to keep, releases whoever waits; the
  exception is an entry that \<^verbatim>\<open>beginControlReplay\<close> drops because it has expired.
\<close>
theorem replay_store_bounded:
  fixes sha S es defines "s \<equiv> foldl (\<lambda>s e. snd (replay_run_step sha S s e)) empty_store es"
  defines "s' x \<equiv> snd (replay_run_step sha S s x)"
  shows "length (cr_entries s) \<le> 256 \<and> distinct (map fst (cr_entries s)) \<and>
         (\<Sum>e \<leftarrow> filter (\<lambda>e. re_read (snd e)) (cr_entries s). frames_size (re_frames (snd e))) \<le> 2097152 \<and>
         list_all (\<lambda>e. (re_frames (snd e) = []) = (re_ready (snd e) \<notin> set (cr_closed s))) (cr_entries s) \<and>
         \<not> cr_panic s \<and>
         (map_of (cr_entries s) k = Some e \<and> re_frames e = [] \<and> map_of (cr_entries (s' x)) k \<noteq> Some e \<longrightarrow>
            re_ready e \<in> set (cr_closed (s' x)) \<or> (\<exists>visit now peer q. x = Begin visit now peer q \<and> re_expiresAt e < now))"
proof -
  have inv: "replay_inv s" unfolding s_def by (rule store_reachable)
  then have ok: "map_ok (cr_closed s) (cr_next s) (cr_entries s)" by (simp add: replay_inv_def)
  have "(\<Sum>e \<leftarrow> filter (\<lambda>e. re_read (snd e)) es. frames_size (re_frames (snd e))) =
      (\<Sum>e \<leftarrow> filter kept_read es. frames_size (re_frames (snd e)))" for es
    by (induction es) (auto simp: kept_read_def frames_size_def)
  then have "(\<Sum>e \<leftarrow> filter (\<lambda>e. re_read (snd e)) (cr_entries s). frames_size (re_frames (snd e))) \<le> 2097152"
    using inv read_bytes_frames [OF ok] by (simp add: replay_inv_def wuspReadReplayMaxBytes_def)
  moreover have "re_ready e \<in> set (cr_closed (s' x)) \<or> (\<exists>visit now peer q. x = Begin visit now peer q \<and> re_expiresAt e < now)"
    if "map_of (cr_entries s) k = Some e" "re_frames e = []" "map_of (cr_entries (s' x)) k \<noteq> Some e"
    using step_releases [OF inv that(1,2)] that(3) by (simp add: s'_def)
  ultimately show ?thesis
    using inv ok by (auto simp: replay_inv_def map_ok_def entry_ok_def list_all_iff wuspControlReplayMaxEntries_def)
qed

section \<open>Actions run once\<close>

text \<open>
  The store holds the entry of an action: under the key \<open>k\<close>, with the fingerprint, channel and reply of the
  ticket, at least until two minutes after \<open>t\<close>.
\<close>

definition held :: "replay_key \<Rightarrow> time \<Rightarrow> bytes \<Rightarrow> nat \<Rightarrow> bytes list \<Rightarrow> replay_store \<Rightarrow> bool" where
  "held k t fp c reply s \<longleftrightarrow>
     (\<exists>e. map_of (cr_entries s) k = Some e \<and> \<not> re_read e \<and> t + wuspControlReplayTTL \<le> re_expiresAt e \<and>
          re_fingerprint e = fp \<and> re_ready e = c \<and> re_frames e = reply)"

text \<open>
  The steps that may follow: requests that arrive within two minutes, completions that do not go back in time,
  and aborts of other requests.
\<close>

fun undisturbed :: "replay_key \<Rightarrow> time \<Rightarrow> replay_step \<Rightarrow> bool" where
  "undisturbed k t (Begin _ now _ _) = (t \<le> now \<and> now \<le> t + wuspControlReplayTTL)"
| "undisturbed k t (Complete _ now _ _) = (t \<le> now)"
| "undisturbed k t (Abort (Some tk)) = (tk_key tk \<noteq> k)"
| "undisturbed k t _ = True"

text \<open>The frames of the first completion of a ticket.\<close>

fun first_reply :: "replay_ticket \<Rightarrow> bytes list \<Rightarrow> replay_step list \<Rightarrow> bytes list" where
  "first_reply tk reply [] = reply"
| "first_reply tk reply (Complete _ _ t frames # es) =
     first_reply tk (if reply = [] \<and> t = Some tk then frames else reply) es"
| "first_reply tk reply (_ # es) = first_reply tk reply es"

lemma length_update_le: "length (AList.update k v es) \<le> Suc (length es)"
  by (induction es) auto

lemma begin_held:
  assumes "replay_inv s" "held k t fp c reply s" "t \<le> now" "now \<le> t + wuspControlReplayTTL"
    "reply = [] \<or> length (cr_entries s) < wuspControlReplayMaxEntries"
  shows "held k t fp c reply (snd (beginControlReplay sha S visit now peer q s))"
proof -
  obtain e where e: "map_of (cr_entries s) k = Some e" "\<not> re_read e" "t + wuspControlReplayTTL \<le> re_expiresAt e"
      "re_fingerprint e = fp \<and> re_ready e = c \<and> re_frames e = reply"
    using assms(2) by (auto simp: held_def)
  then have "map_of (cr_entries (snd (beginControlReplay sha S visit now peer q s))) k = Some e"
    using assms(4,5) by (intro begin_keeps [OF assms(1)]) auto
  then show ?thesis using e by (auto simp: held_def)
qed

lemma begin_length: "length (cr_entries (snd (beginControlReplay sha S visit now peer q s))) \<le> Suc (length (cr_entries s))"
proof -
  let ?es = "prune_replay now (cr_entries s)"
  have len: "length ?es \<le> length (cr_entries s)" by (simp add: prune_replay_def)
  have "length (AList.update x y ?es) \<le> Suc (length (cr_entries s))" for x y
    using length_update_le [of x y ?es] len by linarith
  moreover have "length (AList.update x y (AList.delete z ?es)) \<le> Suc (length (cr_entries s))" for x y z
    using length_update_le [of x y "AList.delete z ?es"] length_filter_le [of "\<lambda>e. fst e \<noteq> z" ?es] len
    unfolding delete_filter by linarith
  ultimately show ?thesis
    using len unfolding beginControlReplay_def grant_def Let_def by (auto split: sum.split option.split)
qed

lemma complete_length: "length (cr_entries (completeControlReplay visit now t frames s)) \<le> length (cr_entries s)"
proof -
  have upd: "length (AList.update k v es) = length es" if "map_of es k = Some e" for k v es and e :: replay_entry
    using that by (induction es) (auto split: if_splits)
  have trim: "length (trimReadReplayLocked visit k es) \<le> length es" for k es
    using trim_filter [of visit k es] by auto
  show ?thesis
    using order_trans [OF trim] by (auto simp: completeControlReplay_def Let_def delete_filter upd split: option.split)
qed

lemma complete_held:
  assumes inv: "replay_inv s" and h: "held k t fp c reply s" and "t \<le> now"
  shows "held k t fp c
    (if reply = [] \<and> tk = Some \<lparr>tk_key = k, tk_fingerprint = fp\<rparr> then frames else reply)
    (completeControlReplay visit now tk frames s)"
proof -
  obtain e where e: "map_of (cr_entries s) k = Some e" "\<not> re_read e" "t + wuspControlReplayTTL \<le> re_expiresAt e"
      "re_fingerprint e = fp" "re_ready e = c" "re_frames e = reply"
    using h by (auto simp: held_def)
  have d: "distinct (map fst (cr_entries s))" using inv by (simp add: replay_inv_def map_ok_def)
  show ?thesis
  proof (cases "tk = Some \<lparr>tk_key = k, tk_fingerprint = fp\<rparr>")
    case True
    then show ?thesis using e \<open>t \<le> now\<close> by (auto simp: completeControlReplay_def held_def Let_def update_conv')
  next
    case False
    have trim: "map_of (trimReadReplayLocked visit k' (AList.update k' e' (cr_entries s))) k = Some e" if "k' \<noteq> k" for k' e'
      using that e d by (intro trim_keeps) (simp_all add: update_conv' distinct_update kept_read_def)
    have "map_of (cr_entries (completeControlReplay visit now tk frames s)) k = Some e"
    proof (cases tk)
      case (Some tk')
      then have "tk_key tk' \<noteq> k \<or> tk_fingerprint tk' \<noteq> fp" using False by (cases tk') auto
      then show ?thesis
      proof (cases "tk_key tk' = k")
        case False
        then show ?thesis
          using Some e trim [OF False] by (simp add: completeControlReplay_def Let_def update_conv' delete_conv' split: option.split)
      qed (use Some e in \<open>auto simp: completeControlReplay_def\<close>)
    qed (use e in \<open>simp add: completeControlReplay_def\<close>)
    then show ?thesis using False e by (auto simp: held_def)
  qed
qed

lemma abort_held:
  assumes "held k t fp c reply s" "undisturbed k t (Abort tk)"
  shows "held k t fp c reply (abortControlReplay tk s) \<and> length (cr_entries (abortControlReplay tk s)) \<le> length (cr_entries s)"
  using assms length_filter_le [of "\<lambda>e. fst e \<noteq> tk_key (the tk)" "cr_entries s"]
  by (cases tk) (auto simp: abortControlReplay_def held_def delete_conv' delete_filter [symmetric] split: option.split)

lemma first_reply_kept: "reply \<noteq> [] \<Longrightarrow> first_reply tk reply es = reply"
  by (induction tk reply es rule: first_reply.induct) auto

lemma run_held:
  fixes k fp defines "tk \<equiv> \<lparr>tk_key = k, tk_fingerprint = fp\<rparr>"
  assumes "replay_inv s" "held k t fp c reply s" "list_all (undisturbed k t) es"
    "first_reply tk reply es = [] \<or> length (cr_entries s) + length (filter is_Begin es) \<le> wuspControlReplayMaxEntries"
  shows "held k t fp c (first_reply tk reply es) (foldl (\<lambda>s e. snd (replay_run_step sha S s e)) s es)"
  using assms(2-)
proof (induction es arbitrary: s reply)
  case (Cons x es)
  note inv = replay_run_inv [OF Cons.prems(1), of sha S x]
  show ?case
  proof (cases x)
    case (Begin visit now peer q)
    have "reply = [] \<or> length (cr_entries s) < wuspControlReplayMaxEntries"
      using Cons.prems(4) first_reply_kept [of reply tk es] by (cases "reply = []") (auto simp: Begin)
    then have "held k t fp c reply (snd (beginControlReplay sha S visit now peer q s))"
      using Cons.prems(3) by (intro begin_held [OF Cons.prems(1,2)]) (auto simp: Begin)
    then show ?thesis
      using Cons.IH [OF inv] Cons.prems(3,4) begin_length [of sha S visit now peer q s] by (auto simp: Begin)
  next
    case (Complete visit now t' frames)
    let ?r = "if reply = [] \<and> t' = Some tk then frames else reply"
    have "held k t fp c ?r (completeControlReplay visit now t' frames s)"
      unfolding tk_def by (rule complete_held [OF Cons.prems(1,2)]) (use Cons.prems(3) Complete in simp)
    then show ?thesis
      using Cons.IH [OF inv, of ?r] Cons.prems(3,4) complete_length [of visit now t' frames s] by (auto simp: Complete)
  next
    case (Abort t')
    then show ?thesis using Cons.IH [OF inv] abort_held [OF Cons.prems(2), of t'] Cons.prems(3,4) by auto
  next
    case (Resume ended ready key m)
    then show ?thesis using Cons.IH [OF inv] Cons.prems(2-4) by simp
  qed
qed simp

lemma granted_held:
  assumes "beginControlReplay sha S visit t peer q s = (Granted tk, s')" "\<not> IsReadReplayMethod (rq_Method q)"
  shows "held (tk_key tk) t (tk_fingerprint tk) (cr_next s) [] s'"
  using assms unfolding beginControlReplay_def Let_def
  by (auto simp: grant_def held_def update_conv' split: if_splits sum.splits option.splits)

text \<open>
  C17. An action runs once. Once the first arrival of a Set, Add, Delete, Operate or Notify is granted, then for two
  minutes, whatever other requests, completions and aborts follow, no arrival under the same peer, request id and
  sequence is granted again: the same request waits for the original and is answered with exactly the frames of its
  first completion, and different data under the same identity is refused. Two things end this protection, and the
  hypotheses exclude them: the abort of the action's own ticket, and, once the action has its reply, so many later arrivals that the 256
  places of the store do not suffice for them, since then the oldest replies are evicted. An action that has no reply yet is
  protected however full the store is.
\<close>
theorem actions_run_once:
  fixes sha S es es'
  defines "s \<equiv> foldl (\<lambda>s e. snd (replay_run_step sha S s e)) empty_store es"
  defines "s'' s' \<equiv> foldl (\<lambda>s e. snd (replay_run_step sha S s e)) s' es'"
  assumes "beginControlReplay sha S visit t peer q s = (Granted tk, s')" "\<not> IsReadReplayMethod (rq_Method q)"
    "list_all (undisturbed (tk_key tk) t) es'"
    "first_reply tk [] es' = [] \<or> length (cr_entries s') + length (filter is_Begin es') \<le> wuspControlReplayMaxEntries"
    "replayableWUSPControlMethod (rq_Method q')" "request_key peer' q' = tk_key tk"
    "wuspControlRequestFingerprint sha S q' = Inr fp" "now \<le> t + wuspControlReplayTTL"
  shows "fst (beginControlReplay sha S visit' now peer' q' (s'' s')) =
           (if fp = tk_fingerprint tk then WaitFor (cr_next s) (tk_key tk) else BeginFailed IdentityReused) \<and>
         resumeControlReplay False (cr_next s) (tk_key tk) m (s'' s') =
           (if first_reply tk [] es' = [] then WaitFor (cr_next s) (tk_key tk) else ReplayFrames (first_reply tk [] es'))"
proof -
  have "replay_inv s" unfolding s_def by (rule store_reachable)
  then have inv: "replay_inv s'" using begin_inv [of s sha S visit t peer q] assms(3) by simp
  have inv': "replay_inv (s'' s')" unfolding s''_def by (rule store.foldl_inv [OF inv])
  have "held (tk_key tk) t (tk_fingerprint tk) (cr_next s) (first_reply tk [] es') (s'' s')"
    using run_held [OF inv granted_held [OF assms(3,4)] assms(5), of sha S] assms(6) unfolding s''_def by (cases tk) simp
  then obtain e where e: "map_of (cr_entries (s'' s')) (tk_key tk) = Some e" "t + wuspControlReplayTTL \<le> re_expiresAt e"
      "re_fingerprint e = tk_fingerprint tk" "re_ready e = cr_next s" "re_frames e = first_reply tk [] es'"
    by (auto simp: held_def)
  have ok: "map_ok (cr_closed (s'' s')) (cr_next (s'' s')) (cr_entries (s'' s'))" using inv' by (simp add: replay_inv_def)
  then have "entry_ok (cr_closed (s'' s')) (cr_next (s'' s')) e" using map_of_SomeD [OF e(1)] by (force simp: map_ok_def)
  moreover have "map_of (prune_replay now (cr_entries (s'' s'))) (tk_key tk) = Some e"
    using e ok assms(10) by (simp add: prune_replay_def map_of_filter map_ok_def)
  ultimately show ?thesis
    using e assms(7-9) by (auto simp: beginControlReplay_def resumeControlReplay_def entry_ok_def)
qed

definition ex_delete :: usp_request where
  "ex_delete = ex_request\<lparr>rq_Method := USPAgentMethodDelete, rq_Metadata := []\<rparr>"

lemma ex_delete_encoded: "\<exists>data. EncodeUSPAgentRequest ex_transport ex_delete = Inr data"
proof -
  have "prepare_request ex_transport ex_delete =
      ex_delete\<lparr>rq_Paths := [], rq_PathCodes := [5], rq_PathInstances := [[7]]\<rparr>"
    by (simp add: prepare_request_def compactRequestSelectors_def compact_paths_def compact_object_def
        strictResolvedPathSelectors_def strictResolvedObjectCode_def ex_delete_def ex_request_def ex_transport_fields ex_paths)
  then have "validateUSPAgentRequest ex_transport (prepare_request ex_transport ex_delete) = None"
    by (simp add: validateUSPAgentRequest_def validateUSPAgentRequestMessage_def validate_method_def ex_delete_def
        ex_request_def)
  then show ?thesis by (simp add: EncodeUSPAgentRequest_def)
qed

theorem actions_run_once_witness:
  "\<exists>data. let tk = \<lparr>tk_key = ([1], 42, 0), tk_fingerprint = data\<rparr>;
       run = foldl (\<lambda>s e. snd (replay_run_step id ex_transport s e)) empty_store in
     fst (beginControlReplay id ex_transport 0 0 [1] ex_delete (run [])) = Granted tk \<and>
     fst (beginControlReplay id ex_transport 0 5 [1] ex_delete
       (run [Begin 0 0 [1] ex_delete, Complete id 3 (Some tk) [[7]], Complete id 4 (Some tk) [[8]]])) = WaitFor 0 (tk_key tk) \<and>
     resumeControlReplay False 0 (tk_key tk) USPAgentMethodDelete
       (run [Begin 0 0 [1] ex_delete, Complete id 3 (Some tk) [[7]], Complete id 4 (Some tk) [[8]]]) = ReplayFrames [[7]]"
proof -
  obtain data where data: "EncodeUSPAgentRequest ex_transport ex_delete = Inr data" using ex_delete_encoded by blast
  let ?tk = "\<lparr>tk_key = ([1], 42, 0), tk_fingerprint = data\<rparr>"
  let ?es = "[Complete id 3 (Some ?tk) [[7]], Complete id 4 (Some ?tk) [[8]]]"
  have fp: "wuspControlRequestFingerprint id ex_transport ex_delete = Inr data"
    using data by (simp add: wuspControlRequestFingerprint_def md_delete_def ex_delete_def)
  have key: "request_key [1] ex_delete = ([1], 42, 0)"
    by (simp add: request_key_def ex_delete_def ex_request_def RequestSequence_def parseMetadataUint_def md_get_def)
  have m: "replayableWUSPControlMethod (rq_Method ex_delete)" "\<not> IsReadReplayMethod (rq_Method ex_delete)"
    by (simp_all add: ex_delete_def replayableWUSPControlMethod_def IsReadReplayMethod_def)
  obtain s' where s': "beginControlReplay id ex_transport 0 0 [1] ex_delete empty_store = (Granted ?tk, s')"
      "length (cr_entries s') = 1"
    using m fp key by (auto simp: beginControlReplay_def prune_replay_def empty_store_def grant_def
        wuspControlReplayMaxEntries_def Let_def)
  have "fst (beginControlReplay id ex_transport 0 5 [1] ex_delete
           (foldl (\<lambda>s e. snd (replay_run_step id ex_transport s e)) s' ?es)) =
         (if data = tk_fingerprint ?tk then WaitFor (cr_next empty_store) (tk_key ?tk) else BeginFailed IdentityReused) \<and>
       resumeControlReplay False (cr_next empty_store) (tk_key ?tk) USPAgentMethodDelete
           (foldl (\<lambda>s e. snd (replay_run_step id ex_transport s e)) s' ?es) =
         (if first_reply ?tk [] ?es = [] then WaitFor (cr_next empty_store) (tk_key ?tk) else ReplayFrames (first_reply ?tk [] ?es))"
    using actions_run_once [of id ex_transport 0 0 "[1]" ex_delete "[]" ?tk s' ?es ex_delete "[1]" data 5 0 USPAgentMethodDelete]
      m fp key s' by (simp add: wuspControlReplayMaxEntries_def wuspControlReplayTTL_def)
  then show ?thesis using s'(1) by (auto simp: Let_def empty_store_def intro!: exI [of _ data])
qed

theorem replay_store_bounded_witness:
  "\<exists>data. let s = snd (beginControlReplay id ex_transport 0 0 [1] ex_delete empty_store);
      s' = abortControlReplay (Some \<lparr>tk_key = ([1], 42, 0), tk_fingerprint = data\<rparr>) s in
    cr_closed s = [] \<and> length (cr_entries s) = 1 \<and> cr_entries s' = [] \<and> 0 \<in> set (cr_closed s')"
proof -
  obtain data where data: "EncodeUSPAgentRequest ex_transport ex_delete = Inr data" using ex_delete_encoded by blast
  let ?tk = "\<lparr>tk_key = ([1], 42, 0), tk_fingerprint = data\<rparr>"
  define s where "s = snd (beginControlReplay id ex_transport 0 0 [1] ex_delete empty_store)"
  define e where "e = \<lparr>re_fingerprint = data, re_frames = [], re_bytes = 0, re_read = False, re_ready = 0, re_expiresAt = wuspControlReplayTTL\<rparr>"
  have fp: "wuspControlRequestFingerprint id ex_transport ex_delete = Inr data"
    using data by (simp add: wuspControlRequestFingerprint_def md_delete_def ex_delete_def)
  have key: "request_key [1] ex_delete = ([1], 42, 0)"
    by (simp add: request_key_def ex_delete_def ex_request_def RequestSequence_def parseMetadataUint_def md_get_def)
  have m: "replayableWUSPControlMethod (rq_Method ex_delete)" "\<not> IsReadReplayMethod (rq_Method ex_delete)"
    by (simp_all add: ex_delete_def replayableWUSPControlMethod_def IsReadReplayMethod_def)
  have s: "cr_entries s = [(([1], 42, 0), e)]" "cr_closed s = []"
    using m fp key by (simp_all add: s_def e_def beginControlReplay_def prune_replay_def empty_store_def grant_def
        wuspControlReplayMaxEntries_def Let_def)
  have gone: "cr_entries (abortControlReplay (Some ?tk) s) = []" by (simp add: abortControlReplay_def s e_def)
  have "re_ready e \<in> set (cr_closed (abortControlReplay (Some ?tk) s))"
    using replay_store_bounded [of id ex_transport "[Begin 0 0 [1] ex_delete]" "([1], 42, 0)" e "Abort (Some ?tk)"] s gone
    by (simp add: s_def e_def)
  then show ?thesis using s gone by (intro exI [of _ data]) (simp add: Let_def s_def e_def)
qed

section \<open>Sending fragments again\<close>

lemma select_fragments:
  "map DecodeUSPControlFragment frames = map Fragment gs \<Longrightarrow>
     map DecodeUSPControlFragment (selectControlFrames frames want) = map Fragment (filter (\<lambda>g. fr_Index g \<in> want) gs)"
proof (induction frames arbitrary: gs)
  case (Cons frame frames)
  then show ?case by (cases gs) (auto simp: selectControlFrames_def)
qed (simp add: selectControlFrames_def)

text \<open>
  C34. A lost fragment costs one fragment: when a controller holds the fragments of a reply whose indices it does
  not ask for, the frames that \<^verbatim>\<open>selectControlFrames\<close> picks out of the kept reply for the indices of its resend
  request are exactly the missing ones, and both together, in any order, reassemble to the reply.
\<close>
theorem resend_completes:
  assumes "payload \<noteq> []" "rq_ID q \<noteq> 0" "length payload \<le> MaxUSPControlMessageSize"
    "fps = fragment_payload_size (RequestedResponseMaxControlPayload (rq_Metadata q) WUSPMaxDatagramPayload)"
    "(length payload + fps - 1) div fps \<le> MaxUSPControlFragmentCount"
    "ResendFragments (rq_Metadata retry) = Some want"
    "fragmentControlPayload q payload = Inr frames" "map DecodeUSPControlFragment frames = map Fragment fragments"
    "map DecodeUSPControlFragment (selectControlFrames frames want) = map Fragment again"
    "mset arrived = mset (filter (\<lambda>f. fr_Index f \<notin> the (ResendFragments (rq_Metadata retry))) fragments) + mset again"
  shows "ReassembleUSPControlFragments arrived = Inr payload \<and>
         length again = length (filter (\<lambda>f. fr_Index f \<in> want) fragments)"
proof -
  let ?gs = "control_fragments payload (rq_ID q) 0 False fps"
  have fps: "0 < fps" by (simp add: assms(4) fragment_payload_size_pos)
  have "map Fragment fragments = map Fragment ?gs"
    using fragment_frames [OF assms(1,2), of "RequestedResponseMaxControlPayload (rq_Metadata q) WUSPMaxDatagramPayload"]
      assms(4,5,7,8) by (auto simp: fragmentControlPayload_def)
  then have gs: "fragments = ?gs" by (rule map_injective) (simp add: inj_def)
  have "map Fragment again = map Fragment (filter (\<lambda>f. fr_Index f \<in> want) fragments)"
    using select_fragments [OF assms(8), of want] assms(9) by simp
  then have again: "again = filter (\<lambda>f. fr_Index f \<in> want) fragments" by (rule map_injective) (simp add: inj_def)
  have "mset arrived = mset fragments"
    using assms(6,10) multiset_partition [of "mset fragments" "\<lambda>f. fr_Index f \<in> want"] by (simp add: again add.commute)
  then show ?thesis
    using control_fragments_reassemble [OF assms(1) fps assms(2,5,3)] again by (simp add: gs)
qed

theorem resend_completes_witness:
  "\<exists>a b f g. fragmentControlPayload ex_delete (replicate 1200 7) = Inr [a, b] \<and>
     DecodeUSPControlFragment a = Fragment f \<and> DecodeUSPControlFragment b = Fragment g \<and>
     ResendFragments (WithResendFragments [] [1]) = Some {1} \<and>
     selectControlFrames [a, b] {1} = [b] \<and> ReassembleUSPControlFragments [g, f] = Inr (replicate 1200 7)"
proof -
  let ?p = "replicate 1200 (7 :: byte)" and ?retry = "ex_delete\<lparr>rq_Metadata := WithResendFragments [] [1]\<rparr>"
  have budget: "RequestedResponseMaxControlPayload (rq_Metadata ex_delete) WUSPMaxDatagramPayload = 1200"
    by (simp add: RequestedResponseMaxControlPayload_def ex_delete_def WUSPMaxDatagramPayload_def)
  have fps: "fragment_payload_size 1200 = 1177"
    by (simp add: fragment_payload_size_def uspControlFragmentHeaderSize_def)
  have "index_runs [1] = [(1, 1)]" by (simp add: index_runs_def)
  then have "ParseFragmentIndexSet (FormatFragmentIndexSet [1]) = Inr {1}" "plain (FormatFragmentIndexSet [1])"
    using ParseFragmentIndexSet_Format [of "[1]"] by (simp_all add: maxResendFragmentRanges_def MaxUSPControlFragmentCount_def)
  then have want: "ResendFragments (rq_Metadata ?retry) = Some {1}"
    by (simp add: ResendFragments_def WithResendFragments_def md_get_def plain_def [THEN iffD1, THEN conjunct1])
  obtain frames where frames: "FragmentUSPControlPayload ?p 42 1200 = Inr frames" "length frames = 2"
      "map DecodeUSPControlFragment frames = map Fragment (control_fragments ?p 42 0 False 1177)"
    using fragment_frames [of ?p 42 1200] unfolding fps by (auto simp: MaxUSPControlFragmentCount_def)
  then obtain a b where ab: "frames = [a, b]" by (auto simp: numeral_2_eq_2 length_Suc_conv)
  obtain f g where fg: "control_fragments ?p 42 0 False 1177 = [f, g]" "fr_Index f = 0" "fr_Index g = 1"
    by (simp add: control_fragments_def Let_def upt_rec)
  have dec: "DecodeUSPControlFragment a = Fragment f" "DecodeUSPControlFragment b = Fragment g"
    using frames(3) by (simp_all add: ab fg(1))
  have sel: "selectControlFrames [a, b] {1} = [b]" using fg by (simp add: selectControlFrames_def dec)
  have fr: "fragmentControlPayload ex_delete ?p = Inr [a, b]"
    using frames(1) by (simp add: fragmentControlPayload_def budget ab) (simp add: ex_delete_def ex_request_def)
  have "ReassembleUSPControlFragments [g, f] = Inr ?p \<and> length [g] = length (filter (\<lambda>f. fr_Index f \<in> {1}) [f, g])"
  proof (rule resend_completes [where fps = 1177, OF _ _ _ _ _ want fr])
    show "map DecodeUSPControlFragment (selectControlFrames [a, b] {1}) = map Fragment [g]" using sel dec by simp
    show "mset [g, f] = mset (filter (\<lambda>f. fr_Index f \<notin> the (ResendFragments (rq_Metadata ?retry))) [f, g]) + mset [g]"
      unfolding want by (simp add: fg)
    show "rq_ID ex_delete \<noteq> 0" by (simp add: ex_delete_def ex_request_def)
  qed (simp_all add: budget fps dec MaxUSPControlMessageSize_def MaxUSPControlFragmentCount_def)
  then show ?thesis using fr dec sel want by auto
qed

end
