(* ===== verification/P2P_Message.thy ===== *)
theory P2P_Message
  imports Net_Addr
begin

text \<open>
  The P2P coordination messages of \<^verbatim>\<open>internal/device/wireguard-go/device/p2p_message.go\<close>: the fixed
  84-byte header with its variable payload (\<open>Encode\<close>, \<open>DecodeP2PMessage\<close>), the address accessors,
  and the candidate list \<^verbatim>\<open>WPC1\<close> appended to payloads (\<open>EncodeP2PCandidatePayload\<close>,
  \<open>DecodeP2PCandidatePayload\<close>). Fixed-size arrays are byte lists; \<open>wf_p2p_message\<close> is what Go's array
  types guarantee about their lengths.
\<close>

definition p2pCandidatePayloadMagic :: bytes where
  "p2pCandidatePayloadMagic = [0x57, 0x50, 0x43, 0x31]"

definition p2pCandidateAddrLen :: nat where
  "p2pCandidateAddrLen = 18"

definition P2PSubtypeRegister :: byte where "P2PSubtypeRegister = 1"
definition P2PSubtypeRegisterAck :: byte where "P2PSubtypeRegisterAck = 2"
definition P2PSubtypePeerList :: byte where "P2PSubtypePeerList = 3"
definition P2PSubtypePunchRequest :: byte where "P2PSubtypePunchRequest = 4"
definition P2PSubtypePunchRelay :: byte where "P2PSubtypePunchRelay = 5"
definition P2PSubtypePunchPacket :: byte where "P2PSubtypePunchPacket = 6"
definition P2PSubtypeHeartbeat :: byte where "P2PSubtypeHeartbeat = 7"
definition P2PSubtypePeerNames :: byte where "P2PSubtypePeerNames = 8"

lemmas subtype_defs =
  P2PSubtypeRegister_def P2PSubtypeRegisterAck_def P2PSubtypePeerList_def P2PSubtypePunchRequest_def
  P2PSubtypePunchRelay_def P2PSubtypePunchPacket_def P2PSubtypeHeartbeat_def P2PSubtypePeerNames_def

record p2p_message =
  msg_Subtype :: byte
  msg_PublicKey :: bytes
  msg_LocalIP :: bytes
  msg_LocalPort :: u16
  msg_ObservedIP :: bytes
  msg_ObservedPort :: u16
  msg_TargetID :: u32
  msg_Nonce :: bytes
  msg_Payload :: bytes

definition wf_p2p_message :: "p2p_message \<Rightarrow> bool" where
  "wf_p2p_message m \<longleftrightarrow>
     length (msg_PublicKey m) = 32 \<and> length (msg_LocalIP m) = 16 \<and>
     length (msg_ObservedIP m) = 16 \<and> length (msg_Nonce m) = 8"

definition zero_message :: "byte \<Rightarrow> p2p_message" where
  "zero_message st =
     \<lparr>msg_Subtype = st, msg_PublicKey = replicate 32 0, msg_LocalIP = replicate 16 0, msg_LocalPort = 0,
      msg_ObservedIP = replicate 16 0, msg_ObservedPort = 0, msg_TargetID = 0,
      msg_Nonce = replicate 8 0, msg_Payload = []\<rparr>"

definition Encode :: "p2p_message \<Rightarrow> bytes" where
  "Encode m =
     [msg_Subtype m, 0, 0, 0] @ msg_PublicKey m @ msg_LocalIP m @ put_be 2 (msg_LocalPort m) @
     msg_ObservedIP m @ put_be 2 (msg_ObservedPort m) @ put_be 4 (msg_TargetID m) @
     msg_Nonce m @ msg_Payload m"

definition DecodeP2PMessage :: "bytes \<Rightarrow> p2p_message option" where
  "DecodeP2PMessage d =
     (if length d < 84 then None
      else Some
        \<lparr>msg_Subtype = d ! 0,
         msg_PublicKey = slice 4 36 d,
         msg_LocalIP = slice 36 52 d,
         msg_LocalPort = get_be (slice 52 54 d),
         msg_ObservedIP = slice 54 70 d,
         msg_ObservedPort = get_be (slice 70 72 d),
         msg_TargetID = get_be (slice 72 76 d),
         msg_Nonce = slice 76 84 d,
         msg_Payload = drop 84 d\<rparr>)"

definition LocalAddr :: "p2p_message \<Rightarrow> udp_addr" where
  "LocalAddr m = \<lparr>addr_IP = msg_LocalIP m, addr_Port = uint (msg_LocalPort m)\<rparr>"

definition ObservedAddr :: "p2p_message \<Rightarrow> udp_addr" where
  "ObservedAddr m = \<lparr>addr_IP = msg_ObservedIP m, addr_Port = uint (msg_ObservedPort m)\<rparr>"

definition SetLocalAddr :: "udp_addr option \<Rightarrow> p2p_message \<Rightarrow> p2p_message" where
  "SetLocalAddr addr m =
     (case addr of None \<Rightarrow> m
      | Some a \<Rightarrow> m\<lparr>msg_LocalIP := copy_into (msg_LocalIP m) (To16 (addr_IP a)),
                    msg_LocalPort := word_of_int (addr_Port a)\<rparr>)"

definition SetObservedAddr :: "udp_addr option \<Rightarrow> p2p_message \<Rightarrow> p2p_message" where
  "SetObservedAddr addr m =
     (case addr of None \<Rightarrow> m
      | Some a \<Rightarrow> m\<lparr>msg_ObservedIP := copy_into (msg_ObservedIP m) (To16 (addr_IP a)),
                    msg_ObservedPort := word_of_int (addr_Port a)\<rparr>)"

section \<open>Candidate payloads\<close>

text \<open>
  The loop of \<^verbatim>\<open>EncodeP2PCandidatePayload\<close>: \<open>seen\<close> is the set of keys already written, \<open>n\<close> the count
  byte \<^verbatim>\<open>buf[4]\<close> and \<open>body\<close> the bytes after it.
\<close>

fun encode_candidates :: "udp_addr list \<Rightarrow> (ip \<times> int) set \<Rightarrow> byte \<Rightarrow> bytes \<Rightarrow> byte \<times> bytes" where
  "encode_candidates [] seen n body = (n, body)"
| "encode_candidates (c # cs) seen n body =
     (if addr_Port c \<le> 0 then encode_candidates cs seen n body
      else let a = To16 (addr_IP c); key = udp_key \<lparr>addr_IP = a, addr_Port = addr_Port c\<rparr> in
        if a = [] then encode_candidates cs seen n body
        else if key \<in> seen then encode_candidates cs seen n body
        else if n = 255 then (n, body)
        else encode_candidates cs (insert key seen) (n + 1)
               (body @ a @ put_be 2 (word_of_int (addr_Port c) :: u16)))"

definition EncodeP2PCandidatePayload :: "udp_addr list \<Rightarrow> bytes" where
  "EncodeP2PCandidatePayload cs =
     (if cs = [] then []
      else let (n, body) = encode_candidates cs {} 0 [] in
        if n = 0 then [] else p2pCandidatePayloadMagic @ [n] @ body)"

definition AppendP2PCandidatePayload :: "bytes \<Rightarrow> udp_addr list \<Rightarrow> bytes" where
  "AppendP2PCandidatePayload pre cs =
     (let e = EncodeP2PCandidatePayload cs in if e = [] then pre else pre @ e)"

definition decode_candidate :: "bytes \<Rightarrow> nat \<Rightarrow> udp_addr list" where
  "decode_candidate p pos =
     (let raw = slice pos (pos + 16) p;
          port = uint (get_be (slice (pos + 16) (pos + 18) p) :: u16);
          rawIP = (if To4 raw \<noteq> [] then To4 raw else raw)
      in if port > 0 \<and> To16 rawIP \<noteq> [] then [\<lparr>addr_IP = rawIP, addr_Port = port\<rparr>] else [])"

fun decode_candidates :: "bytes \<Rightarrow> nat \<Rightarrow> nat \<Rightarrow> udp_addr list" where
  "decode_candidates p 0 pos = []"
| "decode_candidates p (Suc k) pos =
     decode_candidate p pos @ decode_candidates p k (pos + p2pCandidateAddrLen)"

definition DecodeP2PCandidatePayload :: "bytes \<Rightarrow> int \<Rightarrow> udp_addr list" where
  "DecodeP2PCandidatePayload p offset =
     (let o' = nat offset in
      if offset < 0 \<or> length p < o' + 5 \<or> slice o' (o' + 4) p \<noteq> p2pCandidatePayloadMagic then []
      else let count = unat (p ! (o' + 4)); pos = o' + 5 in
        if length p < pos + count * p2pCandidateAddrLen then []
        else decode_candidates p count pos)"

section \<open>The header codec\<close>

lemma wf_zero_message [simp]: "wf_p2p_message (zero_message st)"
  by (simp add: wf_p2p_message_def zero_message_def)

lemma wf_SetLocalAddr [simp]: "wf_p2p_message (SetLocalAddr a m) = wf_p2p_message m"
  by (auto simp: wf_p2p_message_def SetLocalAddr_def split: option.split)

lemma wf_SetObservedAddr [simp]: "wf_p2p_message (SetObservedAddr a m) = wf_p2p_message m"
  by (auto simp: wf_p2p_message_def SetObservedAddr_def split: option.split)

lemma length_Encode: "wf_p2p_message m \<Longrightarrow> length (Encode m) = 84 + length (msg_Payload m)"
  by (simp add: Encode_def wf_p2p_message_def)

lemma decode_encode_message:
  assumes "wf_p2p_message m"
  shows "DecodeP2PMessage (Encode m) = Some m"
proof -
  have len: "length (Encode m) = 84 + length (msg_Payload m)"
    using assms by (rule length_Encode)
  show ?thesis
    using assms len
    by (cases m) (simp add: DecodeP2PMessage_def wf_p2p_message_def Encode_def slice_0_append codec_rt
        slice_def take_Cons' nth_append)
qed

lemma encode_decode_message:
  assumes "DecodeP2PMessage d = Some m"
  shows "Encode m = take 1 d @ [0, 0, 0] @ drop 4 d" and "wf_p2p_message m"
proof -
  from assms have len: "84 \<le> length d"
    by (simp add: DecodeP2PMessage_def split: if_splits)
  have bytes: "drop 4 d = slice 4 36 d @ slice 36 52 d @ slice 52 54 d @ slice 54 70 d @
      slice 70 72 d @ slice 72 76 d @ slice 76 84 d @ drop 84 d"
    by (simp flip: drop_slice_split)
  from len have hd: "take 1 d = [d ! 0]"
    by (cases d) auto
  show "Encode m = take 1 d @ [0, 0, 0] @ drop 4 d" and "wf_p2p_message m"
    using assms len unfolding bytes hd
    by (auto simp: DecodeP2PMessage_def Encode_def wf_p2p_message_def put_get_u16 put_get_u32)
qed

lemma decode_None: "DecodeP2PMessage d = None \<longleftrightarrow> length d < 84"
  by (simp add: DecodeP2PMessage_def)

interpretation p2p_header: wire_codec wf_p2p_message Encode DecodeP2PMessage
  by unfold_locales (rule decode_encode_message)

text \<open>
  The coordination message codec: a message decodes from its encoding, different messages have
  different encodings, exactly the datagrams shorter than the 84-byte header are refused, and
  encoding what was decoded gives the datagram back up to the three reserved bytes.
\<close>

theorem p2p_message_roundtrip:
  "(wf_p2p_message m \<longrightarrow> DecodeP2PMessage (Encode m) = Some m) \<and>
   (wf_p2p_message m \<and> wf_p2p_message n \<longrightarrow> (Encode m = Encode n \<longleftrightarrow> m = n)) \<and>
   (DecodeP2PMessage d = None \<longleftrightarrow> length d < 84) \<and>
   (DecodeP2PMessage d = Some k \<longrightarrow> wf_p2p_message k \<and> Encode k = take 1 d @ [0, 0, 0] @ drop 4 d)"
  using p2p_header.dec_enc [of m] p2p_header.enc_eq_iff [of m n] encode_decode_message [of d k]
  by (simp add: decode_None)

theorem p2p_message_roundtrip_witness:
  "DecodeP2PMessage (Encode (zero_message P2PSubtypeRegister)) = Some (zero_message P2PSubtypeRegister)"
  using p2p_message_roundtrip [of "zero_message P2PSubtypeRegister" "zero_message P2PSubtypeRegister" "[]"
      "zero_message P2PSubtypeRegister"]
  by simp

section \<open>The candidate codec\<close>

definition valid_candidate :: "udp_addr \<Rightarrow> bool" where
  "valid_candidate c \<longleftrightarrow> 0 < addr_Port c \<and> To16 (addr_IP c) \<noteq> []"

definition candidate_bytes :: "udp_addr \<Rightarrow> bytes" where
  "candidate_bytes c = To16 (addr_IP c) @ put_be 2 (word_of_int (addr_Port c) :: u16)"

definition fresh_candidates :: "udp_addr list \<Rightarrow> (ip \<times> int) set \<Rightarrow> udp_addr list" where
  "fresh_candidates cs seen =
     filter (\<lambda>c. udp_key c \<notin> seen) (nub (map normalizeUDPAddr (filter valid_candidate cs)))"

lemma udp_key_To16:
  "To16 (addr_IP c) \<noteq> [] \<Longrightarrow> udp_key \<lparr>addr_IP = To16 (addr_IP c), addr_Port = addr_Port c\<rparr> = udp_key c"
  by (auto simp: udp_key_def To4_def To16_def split: if_splits)

lemma candidate_bytes_normalize:
  "valid_candidate c \<Longrightarrow> candidate_bytes (normalizeUDPAddr c) = candidate_bytes c"
  by (auto simp: candidate_bytes_def normalizeUDPAddr_IP To16_To4)

lemma length_candidate_bytes: "valid_candidate c \<Longrightarrow> length (candidate_bytes c) = 18"
  by (auto simp: candidate_bytes_def valid_candidate_def dest: length_To16)

lemma valid_normalize [simp]: "valid_candidate (normalizeUDPAddr c) = valid_candidate c"
  by (auto simp: valid_candidate_def normalizeUDPAddr_IP To16_To4)

lemma fresh_candidates_Nil [simp]: "fresh_candidates [] seen = []"
  by (simp add: fresh_candidates_def)

lemma fresh_candidates_Cons:
  "fresh_candidates (c # cs) seen =
     (if valid_candidate c \<and> udp_key c \<notin> seen
      then normalizeUDPAddr c # fresh_candidates cs (insert (udp_key c) seen)
      else fresh_candidates cs seen)"
proof -
  have norm: "filter (\<lambda>x. x \<noteq> normalizeUDPAddr c \<and> udp_key x \<notin> seen)
        (nub (map normalizeUDPAddr (filter valid_candidate cs)))
      = filter (\<lambda>x. udp_key x \<noteq> udp_key c \<and> udp_key x \<notin> seen)
        (nub (map normalizeUDPAddr (filter valid_candidate cs)))"
    by (rule filter_cong) (auto simp: normalize_eq_iff_key)
  show ?thesis
    by (auto simp: fresh_candidates_def norm [simplified conj_commute] conj_commute intro!: filter_cong)
qed

lemma valid_fresh_candidates: "c \<in> set (fresh_candidates cs seen) \<Longrightarrow> valid_candidate c"
  by (auto simp: fresh_candidates_def)

lemma encode_candidates_eq:
  "unat n + k = 255 \<Longrightarrow> encode_candidates cs seen n body =
     (let ks = take k (fresh_candidates cs seen)
      in (n + of_nat (length ks), body @ concat (map candidate_bytes ks)))"
proof (induction cs arbitrary: seen n body k)
  case (Cons c cs)
  show ?case
  proof (cases "valid_candidate c \<and> udp_key c \<notin> seen")
    case False
    with Cons show ?thesis
      by (auto simp: fresh_candidates_Cons valid_candidate_def udp_key_To16 Let_def)
  next
    case new: True
    show ?thesis
    proof (cases "n = 255")
      case True
      with Cons.prems have "k = 0" by simp
      with True new show ?thesis
        by (simp add: valid_candidate_def udp_key_To16 Let_def)
    next
      case False
      then have "unat n \<noteq> unat (255 :: byte)"
        by (simp only: word_unat_eq_iff) simp
      then have lt: "unat n < 255"
        using unsigned_less [of n, where 'a = nat] by simp
      then have n: "unat (n + 1) = unat n + 1"
        by (simp add: unat_word_ariths)
      from lt Cons.prems obtain j where k: "k = Suc j"
        by (cases k) auto
      have "encode_candidates (c # cs) seen n body =
          encode_candidates cs (insert (udp_key c) seen) (n + 1) (body @ candidate_bytes c)"
        using new False by (simp add: valid_candidate_def udp_key_To16 Let_def candidate_bytes_def)
      also have "\<dots> = (let ks = take j (fresh_candidates cs (insert (udp_key c) seen))
          in (n + 1 + of_nat (length ks), (body @ candidate_bytes c) @ concat (map candidate_bytes ks)))"
        using Cons.prems n k by (intro Cons.IH) simp
      finally show ?thesis
        using new k by (simp add: fresh_candidates_Cons Let_def candidate_bytes_normalize ac_simps)
    qed
  qed
qed simp

lemma decode_candidate_bytes:
  assumes "valid_candidate c" "addr_Port c < 65536" "normalizeUDPAddr c = c"
  shows "decode_candidate (pre @ candidate_bytes c @ suf) (length pre) = [c]"
proof -
  have len: "length (To16 (addr_IP c)) = 16"
    using assms(1) by (auto simp: valid_candidate_def dest: length_To16)
  have ip: "(if To4 (To16 (addr_IP c)) \<noteq> [] then To4 (To16 (addr_IP c)) else To16 (addr_IP c)) = addr_IP c"
    using assms(1,3) normalizeUDPAddr_IP [of c]
    by (auto simp: valid_candidate_def To4_def To16_def split: if_splits)
  have port: "uint (word_of_int (addr_Port c) :: u16) = addr_Port c"
    using assms(1,2) by (simp add: valid_candidate_def uint_word_of_int)
  have nonnil: "To16 (addr_IP c) \<noteq> []"
    using assms(1) by (simp add: valid_candidate_def)
  have "slice (length pre) (length pre + 16) (pre @ candidate_bytes c @ suf) = To16 (addr_IP c)"
    using len by (simp add: candidate_bytes_def slice_def)
  moreover have "slice (length pre + 16) (length pre + 18) (pre @ candidate_bytes c @ suf)
      = put_be 2 (word_of_int (addr_Port c) :: u16)"
    using len by (simp add: candidate_bytes_def slice_def)
  ultimately show ?thesis
    using port nonnil assms(1)
    unfolding decode_candidate_def Let_def by (simp only: ip codec_rt) (simp add: valid_candidate_def)
qed

lemma decode_candidates_concat:
  "\<lbrakk>\<And>c. c \<in> set ks \<Longrightarrow> valid_candidate c \<and> addr_Port c < 65536 \<and> normalizeUDPAddr c = c\<rbrakk> \<Longrightarrow>
     decode_candidates (pre @ concat (map candidate_bytes ks)) (length ks) (length pre) = ks"
proof (induction ks arbitrary: pre)
  case (Cons c ks)
  then have len: "length (candidate_bytes c) = 18"
    by (simp add: length_candidate_bytes)
  have "decode_candidates ((pre @ candidate_bytes c) @ concat (map candidate_bytes ks)) (length ks)
      (length (pre @ candidate_bytes c)) = ks"
    using Cons.prems by (intro Cons.IH) simp
  then show ?case
    using Cons.prems decode_candidate_bytes [of c pre "concat (map candidate_bytes ks)"] len
    by (simp add: p2pCandidateAddrLen_def)
qed simp

lemma length_concat_candidate_bytes:
  "(\<And>c. c \<in> set ks \<Longrightarrow> valid_candidate c) \<Longrightarrow> length (concat (map candidate_bytes ks)) = 18 * length ks"
  by (induction ks) (auto simp: length_candidate_bytes)

lemma EncodeP2PCandidatePayload_eq:
  "EncodeP2PCandidatePayload cs =
     (let ks = take 255 (fresh_candidates cs {}) in
      if ks = [] then []
      else p2pCandidatePayloadMagic @ [of_nat (length ks)] @ concat (map candidate_bytes ks))"
proof -
  let ?ks = "take 255 (fresh_candidates cs {})"
  have "unat (of_nat (length ?ks) :: byte) = length ?ks"
    by (simp add: unat_of_nat)
  then have zero: "of_nat (length ?ks) = (0 :: byte) \<longleftrightarrow> ?ks = []"
    unfolding word_unat_eq_iff by (simp only: unsigned_0 length_0_conv)
  have loop: "encode_candidates cs {} 0 [] = (of_nat (length ?ks), concat (map candidate_bytes ?ks))"
    by (subst encode_candidates_eq [of _ 255]) (simp_all add: Let_def)
  show ?thesis
    unfolding EncodeP2PCandidatePayload_def Let_def loop prod.case zero
    by (cases "cs = []") simp_all
qed

text \<open>
  Decoding a candidate payload appended after any prefix gives back the valid candidates in
  order, each once (first occurrence), in normal form, and at most 255 of them: nothing else is
  ever announced or read.
\<close>

theorem candidate_payload_roundtrip:
  assumes "\<And>c. c \<in> set cs \<Longrightarrow> addr_Port c < 65536"
  shows "DecodeP2PCandidatePayload (AppendP2PCandidatePayload pre cs) (int (length pre)) =
    take 255 (nub (map normalizeUDPAddr (filter valid_candidate cs)))"
proof -
  let ?ks = "take 255 (fresh_candidates cs {})"
  have ks: "?ks = take 255 (nub (map normalizeUDPAddr (filter valid_candidate cs)))"
    by (simp add: fresh_candidates_def)
  have good: "valid_candidate c \<and> addr_Port c < 65536 \<and> normalizeUDPAddr c = c" if "c \<in> set ?ks" for c
    using that assms by (auto simp: fresh_candidates_def dest!: in_set_takeD)
  have cnt: "unat (of_nat (length ?ks) :: byte) = length ?ks"
    by (simp add: unat_of_nat)
  have body: "length (concat (map candidate_bytes ?ks)) = length ?ks * 18"
    using good by (subst length_concat_candidate_bytes) auto
  show ?thesis
  proof (cases "?ks = []")
    case True
    then show ?thesis
      by (simp add: AppendP2PCandidatePayload_def EncodeP2PCandidatePayload_eq
          DecodeP2PCandidatePayload_def flip: ks)
  next
    case False
    let ?h = "pre @ p2pCandidatePayloadMagic @ [of_nat (length ?ks)]"
    let ?p = "?h @ concat (map candidate_bytes ?ks)"
    have p: "AppendP2PCandidatePayload pre cs = ?p"
      using False by (simp add: AppendP2PCandidatePayload_def EncodeP2PCandidatePayload_eq Let_def)
    have hd: "slice (length pre) (length pre + 4) ?p = p2pCandidatePayloadMagic"
      and cb: "?p ! (length pre + 4) = of_nat (length ?ks)" and hl: "length ?h = length pre + 5"
      by (simp_all add: p2pCandidatePayloadMagic_def slice_def nth_append)
    have dec: "decode_candidates ?p (length ?ks) (length ?h) = ?ks"
      using good by (rule decode_candidates_concat)
    have len: "length ?p = length pre + 5 + length ?ks * 18"
      using body hl by (simp only: length_append)
    show ?thesis
      unfolding p DecodeP2PCandidatePayload_def Let_def nat_int hd cb cnt
      using dec len by (simp only: hl p2pCandidateAddrLen_def) (simp add: ks)
  qed
qed

theorem candidate_payload_roundtrip_witness:
  "DecodeP2PCandidatePayload (AppendP2PCandidatePayload [7] [\<lparr>addr_IP = [1, 2, 3, 4], addr_Port = 9\<rparr>]) 1 =
     [\<lparr>addr_IP = [1, 2, 3, 4], addr_Port = 9\<rparr>]"
proof -
  have "valid_candidate \<lparr>addr_IP = [1, 2, 3, 4], addr_Port = 9\<rparr>"
    "normalizeUDPAddr \<lparr>addr_IP = [1, 2, 3, 4], addr_Port = 9\<rparr> = \<lparr>addr_IP = [1, 2, 3, 4], addr_Port = 9\<rparr>"
    by (simp_all add: valid_candidate_def normalizeUDPAddr_def To16_def To4_def)
  then show ?thesis
    using candidate_payload_roundtrip [of "[\<lparr>addr_IP = [1, 2, 3, 4], addr_Port = 9\<rparr>]" "[7]"] by simp
qed

end
