(* ===== verification/P2P_Nat.thy ===== *)
theory P2P_Nat
  imports Net_Addr
begin

text \<open>
  NAT classification and punch planning: \<^verbatim>\<open>p2p_nat.go\<close> and the address helpers of \<^verbatim>\<open>p2p_client.go\<close>
  (both in \<^verbatim>\<open>internal/device/wireguard-go/device\<close>). It holds the P2P session record, which addresses a
  client announces, which it punches and in which order, which ports it sprays, and the pacing of a
  spray over punch rounds with the client-wide limiter.
\<close>

section \<open>Punch addresses\<close>

definition isUsablePunchAddr :: "udp_addr \<Rightarrow> bool" where
  "isUsablePunchAddr a =
     (if addr_Port a \<le> 0 \<or> addr_IP a = [] then False
      else let ip = (if To4 (addr_IP a) \<noteq> [] then To4 (addr_IP a) else addr_IP a) in \<not> IsUnspecified ip)"

definition isAssignedOverlayAddr :: "udp_addr \<Rightarrow> ip \<Rightarrow> bool" where
  "isAssignedOverlayAddr candidate assignedIP =
     (if assignedIP = [] \<or> ip_Equal assignedIP IPv4zero then False
      else let candidateIP = (if To4 (addr_IP candidate) \<noteq> [] then To4 (addr_IP candidate) else addr_IP candidate);
               assigned = (if To4 assignedIP \<noteq> [] then To4 assignedIP else assignedIP)
           in ip_Equal candidateIP assigned)"

definition isPublicInternetPunchAddr :: "udp_addr \<Rightarrow> bool" where
  "isPublicInternetPunchAddr a =
     (if \<not> isUsablePunchAddr a then False
      else let ip = (if To4 (addr_IP a) \<noteq> [] then To4 (addr_IP a) else addr_IP a)
           in IsGlobalUnicast ip \<and> \<not> IsPrivate ip \<and> \<not> IsLoopback ip \<and> \<not> IsLinkLocalUnicast ip)"

definition isPublicIPv4PunchAddr :: "udp_addr \<Rightarrow> bool" where
  "isPublicIPv4PunchAddr a = (To4 (addr_IP a) \<noteq> [] \<and> isPublicInternetPunchAddr a)"

definition appendPunchCandidate :: "udp_addr list \<Rightarrow> udp_addr \<Rightarrow> ip \<Rightarrow> udp_addr list" where
  "appendPunchCandidate candidates candidate0 assignedIP =
     (let candidate = normalizeUDPAddr candidate0 in
      if \<not> isUsablePunchAddr candidate \<or> isAssignedOverlayAddr candidate assignedIP then candidates
      else if udp_key candidate \<in> udp_key ` set candidates then candidates
      else candidates @ [candidate])"

definition sanitizePunchTargets :: "udp_addr list \<Rightarrow> ip \<Rightarrow> udp_addr list" where
  "sanitizePunchTargets candidates assignedIP =
     foldl (\<lambda>out c. appendPunchCandidate out c assignedIP) [] candidates"

definition p2pMaxPredictedTargets :: nat where "p2pMaxPredictedTargets = 16"

fun predict_ports :: "udp_addr list \<Rightarrow> udp_addr \<Rightarrow> ip \<Rightarrow> nat \<Rightarrow> int list \<Rightarrow> udp_addr list" where
  "predict_ports candidates base assignedIP limit [] = candidates"
| "predict_ports candidates base assignedIP limit (delta # deltas) =
     (if limit \<le> length candidates then candidates
      else let port = addr_Port base + delta in
        if port \<le> 0 \<or> 65535 < port then predict_ports candidates base assignedIP limit deltas
        else predict_ports
               (appendPunchCandidate candidates \<lparr>addr_IP = addr_IP base, addr_Port = port\<rparr> assignedIP)
               base assignedIP limit deltas)"

definition appendPortPredictionCandidates ::
    "udp_addr list \<Rightarrow> udp_addr \<Rightarrow> ip \<Rightarrow> nat \<Rightarrow> udp_addr list" where
  "appendPortPredictionCandidates candidates base assignedIP limit =
     (if \<not> isPublicIPv4PunchAddr base then candidates
      else predict_ports candidates base assignedIP limit [1, -1, 2, -2, 3, -3, 5, -5, 8, -8, 13, -13])"

section \<open>Sessions and punch targets\<close>

type_synonym pubkey = bytes
type_synonym nonce = bytes

text \<open>The done channel of a session is the flag whether it has been closed.\<close>

record p2p_session =
  se_TargetID :: u32
  se_TargetPubKey :: pubkey
  se_LocalAddr :: udp_addr
  se_ObservedAddr :: udp_addr
  se_CandidateAddrs :: "udp_addr list"
  se_AssignedIP :: ip
  se_Nonce :: nonce
  se_Established :: bool
  se_Promoting :: bool
  se_done :: bool
  se_altNonce :: nonce
  se_hasAltNonce :: bool
  se_createdAt :: time
  se_promotedAt :: time
  se_lastReply :: time

definition acceptsNonce :: "p2p_session \<Rightarrow> nonce \<Rightarrow> bool" where
  "acceptsNonce s nonce = (nonce = se_Nonce s \<or> (se_hasAltNonce s \<and> nonce = se_altNonce s))"

fun predict_all :: "udp_addr list \<Rightarrow> udp_addr list \<Rightarrow> ip \<Rightarrow> nat \<Rightarrow> udp_addr list" where
  "predict_all targets [] assignedIP limit = targets"
| "predict_all targets (base # bases) assignedIP limit =
     (if length targets < limit
      then predict_all (appendPortPredictionCandidates targets base assignedIP limit) bases assignedIP limit
      else targets)"

definition buildPunchTargets :: "p2p_session \<Rightarrow> bool \<Rightarrow> udp_addr list" where
  "buildPunchTargets s predict =
     (let all0 = sanitizePunchTargets (se_CandidateAddrs s) (se_AssignedIP s);
          all1 = appendPunchCandidate all0 (se_ObservedAddr s) (se_AssignedIP s);
          all = appendPunchCandidate all1 (se_LocalAddr s) (se_AssignedIP s);
          v6 = filter (\<lambda>a. To4 (addr_IP a) = []) all;
          v4 = filter (\<lambda>a. To4 (addr_IP a) \<noteq> []) all;
          targets = v6 @ v4
      in if \<not> predict then targets
         else predict_all targets v4 (se_AssignedIP s) (length v6 + p2pMaxPredictedTargets))"

section \<open>NAT classes\<close>

datatype natClass = natClassUnknown | natClassPublic | natClassMapped | natClassPreserving | natClassRewriting

fun natClass_String :: "natClass \<Rightarrow> string" where
  "natClass_String natClassPublic = ''public''"
| "natClass_String natClassMapped = ''port-mapped''"
| "natClass_String natClassPreserving = ''port-preserving''"
| "natClass_String natClassRewriting = ''port-rewriting''"
| "natClass_String natClassUnknown = ''unknown''"

definition easy :: "natClass \<Rightarrow> bool" where
  "easy n = (n = natClassPublic \<or> n = natClassMapped \<or> n = natClassPreserving)"

definition stableSource :: "natClass \<Rightarrow> bool" where
  "stableSource n = (n = natClassPublic \<or> n = natClassPreserving)"

text \<open>
  The loop of \<^verbatim>\<open>classifyNAT\<close> over the candidates: \<open>None\<close> when one of them shows a port mapping, otherwise
  the listen port found.
\<close>

fun candidate_listen_port :: "udp_addr \<Rightarrow> int \<Rightarrow> udp_addr list \<Rightarrow> int option" where
  "candidate_listen_port observed listenPort [] = Some listenPort"
| "candidate_listen_port observed listenPort (c # cs) =
     (let candidate = normalizeUDPAddr c in
      if addr_Port candidate \<le> 0 \<or>
         (ip_Equal (addr_IP candidate) (addr_IP observed) \<and> addr_Port candidate = addr_Port observed)
      then candidate_listen_port observed listenPort cs
      else if isPublicIPv4PunchAddr candidate then None
      else candidate_listen_port observed (if listenPort \<le> 0 then addr_Port candidate else listenPort) cs)"

definition classifyNAT :: "udp_addr \<Rightarrow> udp_addr \<Rightarrow> udp_addr list \<Rightarrow> natClass" where
  "classifyNAT observed0 local0 candidates =
     (let observed = normalizeUDPAddr observed0 in
      if \<not> isPublicIPv4PunchAddr observed then natClassUnknown
      else let local = normalizeUDPAddr local0 in
        if ip_Equal (addr_IP local) (addr_IP observed) \<and> addr_Port local = addr_Port observed then natClassPublic
        else case candidate_listen_port observed (addr_Port local) candidates of
            None \<Rightarrow> natClassMapped
          | Some listenPort \<Rightarrow>
            if listenPort \<le> 0 then natClassUnknown
            else if addr_Port observed = listenPort then natClassPreserving
            else natClassRewriting)"

section \<open>Port spraying\<close>

definition p2pSprayFirstPorts :: nat where "p2pSprayFirstPorts = 128"
definition p2pSprayPorts :: nat where "p2pSprayPorts = 256"
definition p2pSprayMaxAttempts :: int where "p2pSprayMaxAttempts = 4"
definition p2pSprayDelay :: duration where "p2pSprayDelay = 1500 * millisecond"
definition p2pSprayInterval :: duration where "p2pSprayInterval = 6 * second"
definition p2pSpraySweeps :: int where "p2pSpraySweeps = 2"
definition p2pSprayPerRound :: nat where "p2pSprayPerRound = 32"
definition p2pSprayMinPort :: int where "p2pSprayMinPort = 1024"

text \<open>The closure \<^verbatim>\<open>add\<close>: the ports listed so far and the ports to skip.\<close>

definition spray_add :: "nat \<Rightarrow> int \<Rightarrow> int list \<times> int set \<Rightarrow> int list \<times> int set" where
  "spray_add n port s =
     (if port < p2pSprayMinPort \<or> 65535 < port \<or> n \<le> length (fst s) then s
      else if port \<in> snd s then s
      else (fst s @ [port], insert port (snd s)))"

function spray_loop :: "int \<Rightarrow> nat \<Rightarrow> nat \<Rightarrow> nat \<Rightarrow> nat \<Rightarrow> int list \<times> int set \<Rightarrow> int list" where
  "spray_loop base n back_n d below s =
     (if length (fst s) < n \<and> d \<le> 65535
      then let s1 = spray_add n (base + int d) s in
        if below < back_n \<and> p2pSprayMinPort \<le> base - int d
        then let s2 = spray_add n (base - int d) s1
             in spray_loop base n back_n (d + 1) (below + (length (fst s2) - length (fst s1))) s2
        else spray_loop base n back_n (d + 1) below s1
      else fst s)"
  by pat_completeness auto
termination by (relation "measure (\<lambda>(_, _, _, d, _, _). 65536 - d)") auto

declare spray_loop.simps [simp del]

definition sprayPorts :: "udp_addr \<Rightarrow> nat \<Rightarrow> nat \<Rightarrow> udp_addr list \<Rightarrow> udp_addr list" where
  "sprayPorts base0 n back_n exclude =
     (let base = normalizeUDPAddr base0;
          skip = insert (addr_Port base)
            (set (map addr_Port (filter (\<lambda>a. ip_Equal (addr_IP a) (addr_IP base)) exclude)))
      in map (\<lambda>port. \<lparr>addr_IP = addr_IP base, addr_Port = port\<rparr>)
           (spray_loop (addr_Port base) n back_n 1 0 ([], skip)))"

record punch_plan =
  pl_self :: natClass
  pl_peer :: natClass
  pl_targets :: "udp_addr list"
  pl_spray :: "udp_addr list"
  pl_sweeps :: int

definition planPunch :: "p2p_session \<Rightarrow> natClass \<Rightarrow> int \<Rightarrow> punch_plan" where
  "planPunch s self attempts =
     (let peer = classifyNAT (se_ObservedAddr s) (se_LocalAddr s) (se_CandidateAddrs s);
          spray = (peer = natClassRewriting \<and> stableSource self \<and> attempts < p2pSprayMaxAttempts);
          targets = buildPunchTargets s (\<not> easy peer \<and> \<not> spray);
          n = (if 0 < attempts then p2pSprayPorts else p2pSprayFirstPorts);
          back_n = (if 0 < attempts then p2pSprayPorts div 2 else p2pSprayFirstPorts div 4);
          ports = (if spray then sprayPorts (se_ObservedAddr s) n back_n targets else [])
      in \<lparr>pl_self = self, pl_peer = peer, pl_targets = targets, pl_spray = ports,
          pl_sweeps = (if ports \<noteq> [] then p2pSpraySweeps else 0)\<rparr>)"

section \<open>Pacing\<close>

text \<open>
  A spray in progress. The limiter is shared by all sprays of a client, so the operations take and
  return it. \<^verbatim>\<open>newPunchSpray\<close> never returns nil and the operations are called on its result only.
\<close>

record punch_spray =
  sp_size :: nat
  sp_sweeps :: int
  sp_next :: nat
  sp_nextAt :: time
  sp_active :: bool

definition newPunchSpray :: "nat \<Rightarrow> int \<Rightarrow> time \<Rightarrow> punch_spray" where
  "newPunchSpray n sweeps start =
     \<lparr>sp_size = n, sp_sweeps = (if n = 0 then 0 else sweeps), sp_next = 0,
      sp_nextAt = start + p2pSprayDelay, sp_active = False\<rparr>"

definition spray_release :: "punch_spray \<times> bool \<Rightarrow> punch_spray \<times> bool" where
  "spray_release sl = (if sp_active (fst sl) then ((fst sl)\<lparr>sp_active := False\<rparr>, False) else sl)"

definition spray_sweep :: "time \<Rightarrow> punch_spray \<times> bool \<Rightarrow> (nat \<times> nat) \<times> (punch_spray \<times> bool)" where
  "spray_sweep now sl =
     (let s = fst sl; lo = sp_next s; hi = min (lo + p2pSprayPerRound) (sp_size s); s1 = s\<lparr>sp_next := hi\<rparr>
      in ((lo, hi),
          if hi = sp_size s
          then spray_release (s1\<lparr>sp_sweeps := sp_sweeps s - 1, sp_nextAt := now + p2pSprayInterval\<rparr>, snd sl)
          else (s1, snd sl)))"

definition spray_step :: "time \<Rightarrow> bool \<Rightarrow> punch_spray \<times> bool \<Rightarrow> (nat \<times> nat) \<times> (punch_spray \<times> bool)" where
  "spray_step now promoted sl =
     (let s = fst sl; limiter = snd sl in
      if sp_sweeps s \<le> 0 then ((0, 0), sl)
      else if promoted then ((0, 0), spray_release (s\<lparr>sp_sweeps := 0\<rparr>, limiter))
      else if \<not> sp_active s then
        (if now < sp_nextAt s \<or> limiter then ((0, 0), sl)
         else spray_sweep now (s\<lparr>sp_active := True, sp_next := 0\<rparr>, True))
      else spray_sweep now sl)"

definition p2pPunchInterval :: "int \<Rightarrow> duration" where
  "p2pPunchInterval round =
     (if round < 5 then 45 * millisecond
      else if round < 25 then (90 + (round * 17) mod 45) * millisecond
      else (220 + (round * 29) mod 90) * millisecond)"

definition p2pRetryBaseDelay :: duration where "p2pRetryBaseDelay = 5 * second"
definition p2pRetryMaxDelay :: duration where "p2pRetryMaxDelay = minute"

definition p2pRetryDelay :: "int \<Rightarrow> duration" where
  "p2pRetryDelay attempts =
     (if attempts \<le> 0 then p2pRetryBaseDelay
      else let delay = p2pRetryBaseDelay * 2 ^ nat (min attempts 3)
           in if p2pRetryMaxDelay < delay then p2pRetryMaxDelay else delay)"

section \<open>Announced candidates\<close>

definition to_lower :: "char \<Rightarrow> char" where
  "to_lower c = (if (65::nat) \<le> of_char c \<and> of_char c \<le> (90::nat) then char_of (of_char c + (32::nat)) else c)"

definition HasPrefix :: "string \<Rightarrow> string \<Rightarrow> bool" where
  "HasPrefix s prefix = (take (length prefix) s = prefix)"

record p2p_iface =
  if_name :: string
  if_flags :: u64
  if_ips :: "ip list"

definition FlagUp :: u64 where "FlagUp = 1"
definition FlagLoopback :: u64 where "FlagLoopback = 4"
definition p2pMaxIPv6Candidates :: nat where "p2pMaxIPv6Candidates = 2"

definition p2pSkippedInterfacePrefixes :: "string list" where
  "p2pSkippedInterfacePrefixes = [''utun'', ''ipsec'', ''bridge'', ''tailscale'', ''wg'']"

text \<open>\<open>skipPPP\<close> is \<^verbatim>\<open>p2pSkipPPP\<close>: true where the system is neither Linux nor Android. Names are ASCII.\<close>

definition isSkippedCandidateInterface :: "bool \<Rightarrow> string \<Rightarrow> string \<Rightarrow> bool" where
  "isSkippedCandidateInterface skipPPP name ownTun =
     (if name = [] then False
      else if ownTun \<noteq> [] \<and> name = ownTun then True
      else let lower = map to_lower name in
        (skipPPP \<and> HasPrefix lower ''ppp'') \<or> list_ex (HasPrefix lower) p2pSkippedInterfacePrefixes)"

definition in_shared_address_space :: "ip \<Rightarrow> bool" where
  "in_shared_address_space a = (length a = 4 \<and> a ! 0 = 100 \<and> a ! 1 AND 0xc0 = 64)"

definition in_service_continuity :: "ip \<Rightarrow> bool" where
  "in_service_continuity a = (length a = 4 \<and> a ! 0 = 192 \<and> a ! 1 = 0 \<and> a ! 2 = 0 \<and> a ! 3 AND 0xf8 = 0)"

definition isUsefulLocalCandidateIP :: "ip \<Rightarrow> bool" where
  "isUsefulLocalCandidateIP ip0 =
     (if ip0 = [] then False
      else let ip = (if To4 ip0 \<noteq> [] then To4 ip0 else To16 ip0) in
        if ip = [] then False
        else if IsUnspecified ip \<or> IsLoopback ip \<or> IsMulticast ip \<or> IsLinkLocalUnicast ip then False
        else \<not> (in_shared_address_space ip \<or> in_service_continuity ip))"

definition isUniqueLocalIPv6 :: "ip \<Rightarrow> bool" where
  "isUniqueLocalIPv6 ip = (To4 ip = [] \<and> To16 ip \<noteq> [] \<and> To16 ip ! 0 AND 0xfe = 0xfc)"

fun append_ipv6 :: "udp_addr list \<Rightarrow> nat \<Rightarrow> int \<Rightarrow> ip list \<Rightarrow> udp_addr list" where
  "append_ipv6 candidates ipv6 port [] = candidates"
| "append_ipv6 candidates ipv6 port (ip # ips) =
     (if p2pMaxIPv6Candidates \<le> ipv6 then candidates
      else let c = appendPunchCandidate candidates \<lparr>addr_IP = ip, addr_Port = port\<rparr> []
           in append_ipv6 c (ipv6 + (length c - length candidates)) port ips)"

definition eligible_ips :: "bool \<Rightarrow> p2p_iface list \<Rightarrow> string \<Rightarrow> ip list" where
  "eligible_ips skipPPP ifaces ownTun =
     concat (map (\<lambda>i. filter isUsefulLocalCandidateIP (if_ips i))
       (filter (\<lambda>i. \<not> (if_flags i AND FlagUp = 0 \<or> if_flags i AND FlagLoopback \<noteq> 0 \<or>
                         isSkippedCandidateInterface skipPPP (if_name i) ownTun)) ifaces))"

definition filterLocalCandidates ::
    "bool \<Rightarrow> ip \<Rightarrow> ip \<Rightarrow> p2p_iface list \<Rightarrow> string \<Rightarrow> int \<Rightarrow> udp_addr list" where
  "filterLocalCandidates skipPPP defaultIP defaultIP6 ifaces ownTun port =
     (let eligible = eligible_ips skipPPP ifaces ownTun;
          c0 = (if defaultIP = [] then []
                else case find (\<lambda>ip. ip_Equal ip defaultIP) eligible of None \<Rightarrow> []
                     | Some ip \<Rightarrow> appendPunchCandidate [] \<lparr>addr_IP = ip, addr_Port = port\<rparr> []);
          v4 = filter (\<lambda>ip. To4 ip \<noteq> []) eligible;
          v6 = filter (\<lambda>ip. To4 ip = []) eligible;
          isDefault = (\<lambda>ip. defaultIP6 \<noteq> [] \<and> ip_Equal ip defaultIP6);
          c1 = foldl (\<lambda>c ip. appendPunchCandidate c \<lparr>addr_IP = ip, addr_Port = port\<rparr> []) c0 v4
      in append_ipv6 c1 0 port
           (filter isDefault v6 @
            filter (\<lambda>ip. \<not> isDefault ip \<and> \<not> isUniqueLocalIPv6 ip) v6 @
            filter (\<lambda>ip. \<not> isDefault ip \<and> isUniqueLocalIPv6 ip) v6))"

section \<open>Targets are usable, distinct and never the overlay address\<close>

definition good_targets :: "ip \<Rightarrow> udp_addr list \<Rightarrow> bool" where
  "good_targets assignedIP xs \<longleftrightarrow> distinct (map udp_key xs) \<and>
     (\<forall>a \<in> set xs. normalizeUDPAddr a = a \<and> isUsablePunchAddr a \<and> \<not> isAssignedOverlayAddr a assignedIP)"

lemma good_Nil [simp]: "good_targets ip []"
  by (simp add: good_targets_def)

lemma append_good [inv_intros]: "good_targets ip xs \<Longrightarrow> good_targets ip (appendPunchCandidate xs c ip)"
  by (auto simp: good_targets_def appendPunchCandidate_def Let_def)

lemma append_mono: "\<exists>ys. appendPunchCandidate xs c ip = xs @ ys \<and> length ys \<le> 1"
  by (auto simp: appendPunchCandidate_def Let_def)

lemma append_keys:
  "udp_key ` set (appendPunchCandidate xs c ip) =
     udp_key ` set xs \<union> (if isUsablePunchAddr (normalizeUDPAddr c) \<and> \<not> isAssignedOverlayAddr (normalizeUDPAddr c) ip
                         then {udp_key c} else {})"
  by (auto simp: appendPunchCandidate_def Let_def)

lemma sanitize_good: "good_targets ip xs \<Longrightarrow> good_targets ip (foldl (\<lambda>out c. appendPunchCandidate out c ip) xs cs)"
  by (induction cs arbitrary: xs) (auto intro: append_good)

lemma sanitize_keys:
  "udp_key ` set (foldl (\<lambda>out c. appendPunchCandidate out c ip) xs cs) =
     udp_key ` set xs \<union> udp_key ` {c \<in> set cs. isUsablePunchAddr (normalizeUDPAddr c) \<and>
       \<not> isAssignedOverlayAddr (normalizeUDPAddr c) ip}"
  by (induction cs arbitrary: xs) (auto simp: append_keys)

lemma predict_ports_good:
  "\<lbrakk>good_targets ip xs; length xs \<le> limit\<rbrakk> \<Longrightarrow>
     good_targets ip (predict_ports xs base ip limit ds) \<and>
     length (predict_ports xs base ip limit ds) \<le> limit \<and>
     (\<exists>ys. predict_ports xs base ip limit ds = xs @ ys \<and> (\<forall>y \<in> set ys. addr_IP y = addr_IP (normalizeUDPAddr base)))"
proof (induction ds arbitrary: xs)
  case (Cons d ds)
  let ?c = "\<lparr>addr_IP = addr_IP base, addr_Port = addr_Port base + d\<rparr>"
  let ?xs = "appendPunchCandidate xs ?c ip"
  have ext: "\<exists>ys. ?xs = xs @ ys \<and> (\<forall>y \<in> set ys. addr_IP y = addr_IP (normalizeUDPAddr base))"
    by (auto simp: appendPunchCandidate_def Let_def normalizeUDPAddr_IP)
  show ?case
  proof (cases "limit \<le> length xs")
    case False
    then have "length ?xs \<le> limit" using append_mono [of xs ?c ip] by auto
    then show ?thesis
      using Cons.IH [of ?xs] Cons.IH [of xs] Cons.prems append_good [OF Cons.prems(1), of ?c] ext
      by (auto simp: Let_def)
  qed (use Cons.prems in simp)
qed simp

lemma predict_all_good:
  "\<lbrakk>good_targets ip xs; \<forall>b \<in> set bs. To4 (addr_IP b) \<noteq> []\<rbrakk> \<Longrightarrow>
     good_targets ip (predict_all xs bs ip limit) \<and>
     length (predict_all xs bs ip limit) \<le> max limit (length xs) \<and>
     (\<exists>ys. predict_all xs bs ip limit = xs @ ys \<and> (\<forall>y \<in> set ys. To4 (addr_IP y) \<noteq> []))"
proof (induction bs arbitrary: xs)
  case (Cons b bs)
  show ?case
  proof (cases "length xs < limit \<and> isPublicIPv4PunchAddr b")
    case True
    let ?xs = "predict_ports xs b ip limit [1, -1, 2, -2, 3, -3, 5, -5, 8, -8, 13, -13]"
    have "length xs \<le> limit" using True by simp
    note p = predict_ports_good [OF Cons.prems(1) this, of b "[1, -1, 2, -2, 3, -3, 5, -5, 8, -8, 13, -13]"]
    then obtain ys where "?xs = xs @ ys" "\<forall>y \<in> set ys. To4 (addr_IP y) \<noteq> []"
      using Cons.prems(2) by (auto simp: normalizeUDPAddr_IP)
    moreover have "predict_all xs (b # bs) ip limit = predict_all ?xs bs ip limit"
      using True by (simp add: appendPortPredictionCandidates_def)
    ultimately show ?thesis
      using Cons.IH [of ?xs] Cons.prems(2) p True by (auto simp: max_def)
  next
    case False
    then show ?thesis
      using Cons.IH [OF Cons.prems(1)] Cons.prems by (auto simp: appendPortPredictionCandidates_def max_def)
  qed
qed simp

definition ex_session :: p2p_session where
  "ex_session = \<lparr>se_TargetID = 7, se_TargetPubKey = replicate 32 5,
     se_LocalAddr = \<lparr>addr_IP = [192, 168, 1, 5], addr_Port = 51820\<rparr>,
     se_ObservedAddr = \<lparr>addr_IP = [1, 2, 3, 4], addr_Port = 9000\<rparr>, se_CandidateAddrs = [],
     se_AssignedIP = [10, 0, 0, 9], se_Nonce = [1, 2, 3, 4, 5, 6, 7, 8], se_Established = False, se_Promoting = False,
     se_done = False, se_altNonce = replicate 8 0, se_hasAltNonce = False, se_createdAt = 0,
     se_promotedAt = time_zero, se_lastReply = time_zero\<rparr>"

text \<open>
  The punch targets of a session: pairwise different normalised addresses, IPv6 before IPv4, each
  with a positive port and a specified address, never the peer's overlay address (a punch sent there
  would loop into the tunnel), and every usable address of the session is among them. Port prediction
  only adds IPv4 targets, and never lets the IPv4 targets grow beyond 16 unless the session itself
  brought more.
\<close>

theorem punch_targets_ok:
  fixes s predict
  defines "targets \<equiv> buildPunchTargets s predict" and "own \<equiv> buildPunchTargets s False"
  shows "good_targets (se_AssignedIP s) targets \<and>
    (\<exists>v6 v4. targets = v6 @ v4 \<and> (\<forall>a \<in> set v6. To4 (addr_IP a) = []) \<and> (\<forall>a \<in> set v4. To4 (addr_IP a) \<noteq> []) \<and>
       length v4 \<le> max p2pMaxPredictedTargets (length own - length v6)) \<and>
    (\<forall>c \<in> set (se_CandidateAddrs s @ [se_ObservedAddr s, se_LocalAddr s]).
       isUsablePunchAddr (normalizeUDPAddr c) \<and> \<not> isAssignedOverlayAddr (normalizeUDPAddr c) (se_AssignedIP s)
       \<longrightarrow> udp_key c \<in> udp_key ` set targets)"
proof -
  let ?ip = "se_AssignedIP s"
  define all where "all = appendPunchCandidate (appendPunchCandidate (sanitizePunchTargets (se_CandidateAddrs s) ?ip)
    (se_ObservedAddr s) ?ip) (se_LocalAddr s) ?ip"
  define v6 where "v6 = filter (\<lambda>a. To4 (addr_IP a) = []) all"
  define v4 where "v4 = filter (\<lambda>a. To4 (addr_IP a) \<noteq> []) all"
  have own: "own = v6 @ v4"
    by (simp add: own_def buildPunchTargets_def Let_def v6_def v4_def all_def)
  have targets: "targets = (if predict then predict_all own v4 ?ip (length v6 + p2pMaxPredictedTargets) else own)"
    unfolding own by (simp add: targets_def buildPunchTargets_def Let_def v6_def v4_def all_def)
  have good_all: "good_targets ?ip all"
    unfolding all_def sanitizePunchTargets_def by (intro append_good sanitize_good good_Nil)
  then have good: "good_targets ?ip own"
    unfolding own v6_def v4_def good_targets_def by (auto simp: distinct_map inj_on_def)
  have set_own: "set own = set all" by (auto simp: own v6_def v4_def)
  have v4: "\<forall>b \<in> set v4. To4 (addr_IP b) \<noteq> []" and v6: "\<forall>b \<in> set v6. To4 (addr_IP b) = []"
    by (simp_all add: v4_def v6_def)
  note p = predict_all_good [OF good v4, of "length v6 + p2pMaxPredictedTargets"]
  then obtain ys where ys: "targets = v6 @ (v4 @ ys)" "\<forall>y \<in> set ys. To4 (addr_IP y) \<noteq> []"
      "length (v4 @ ys) \<le> max p2pMaxPredictedTargets (length own - length v6)"
    using targets own by (cases predict) auto
  have "good_targets ?ip targets" using targets good p by simp
  moreover have "udp_key c \<in> udp_key ` set targets"
    if "c \<in> set (se_CandidateAddrs s @ [se_ObservedAddr s, se_LocalAddr s])"
      "isUsablePunchAddr (normalizeUDPAddr c)" "\<not> isAssignedOverlayAddr (normalizeUDPAddr c) ?ip" for c
  proof -
    have "udp_key c \<in> udp_key ` set all"
      using that unfolding all_def sanitizePunchTargets_def append_keys sanitize_keys by auto
    then show ?thesis using set_own ys(1) own by auto
  qed
  moreover have "\<forall>a \<in> set (v4 @ ys). To4 (addr_IP a) \<noteq> []" using ys(2) v4 by auto
  ultimately show ?thesis using ys(1,3) v6 by (intro conjI exI [of _ v6] exI [of _ "v4 @ ys"] ballI impI) auto
qed

theorem punch_targets_ok_witness:
  "isUsablePunchAddr (normalizeUDPAddr (se_ObservedAddr ex_session)) \<and>
   udp_key (se_ObservedAddr ex_session) \<in> udp_key ` set (buildPunchTargets ex_session False)"
proof -
  have "isUsablePunchAddr (normalizeUDPAddr (se_ObservedAddr ex_session))"
    "\<not> isAssignedOverlayAddr (normalizeUDPAddr (se_ObservedAddr ex_session)) (se_AssignedIP ex_session)"
    by code_simp+
  then show ?thesis
    using bspec [OF conjunct2 [OF conjunct2 [OF punch_targets_ok [of ex_session False]]], of "se_ObservedAddr ex_session"]
    by auto
qed

section \<open>Sprayed ports\<close>

text \<open>What the loop has listed when it is about to look at distance \<open>d\<close>.\<close>

definition spray_inv :: "int \<Rightarrow> nat \<Rightarrow> nat \<Rightarrow> int set \<Rightarrow> nat \<Rightarrow> nat \<Rightarrow> int list \<times> int set \<Rightarrow> bool" where
  "spray_inv base n back_n skip d below s \<longleftrightarrow>
     length (fst s) \<le> n \<and> distinct (fst s) \<and> snd s = skip \<union> set (fst s) \<and> set (fst s) \<inter> skip = {} \<and>
     (\<forall>p \<in> set (fst s). p2pSprayMinPort \<le> p \<and> p \<le> 65535 \<and> \<bar>p - base\<bar> \<le> int d) \<and>
     sorted (map (\<lambda>p. \<bar>p - base\<bar>) (fst s)) \<and>
     length (filter (\<lambda>p. p < base) (fst s)) = below \<and> below \<le> back_n"

definition above_listed :: "int \<Rightarrow> nat \<Rightarrow> int set \<Rightarrow> nat \<Rightarrow> int list \<times> int set \<Rightarrow> bool" where
  "above_listed base n skip d s \<longleftrightarrow>
     (length (fst s) < n \<longrightarrow> (\<forall>p. base < p \<and> p \<le> base + int d \<and> p2pSprayMinPort \<le> p \<and> p \<le> 65535 \<and> p \<notin> skip
        \<longrightarrow> p \<in> set (fst s)))"

lemma spray_add_inv:
  assumes "spray_inv base n back_n skip d below s" "\<bar>port - base\<bar> = int d" "port < base \<longrightarrow> below < back_n"
  shows "spray_inv base n back_n skip d
    (below + (if port < base then length (fst (spray_add n port s)) - length (fst s) else 0)) (spray_add n port s)"
  using assms by (auto simp: spray_inv_def spray_add_def sorted_append)

lemma spray_inv_mono: "spray_inv base n back_n skip d below s \<Longrightarrow> spray_inv base n back_n skip (Suc d) below s"
  by (fastforce simp: spray_inv_def)

lemma spray_add_grows: "set (fst s) \<subseteq> set (fst (spray_add n port s))" "length (fst s) \<le> length (fst (spray_add n port s))"
  by (auto simp: spray_add_def)

lemma spray_add_above:
  assumes "above_listed base n skip d s" "spray_inv base n back_n skip (Suc d) below s"
  shows "above_listed base n skip (Suc d) (spray_add n (base + int (Suc d)) s)"
proof -
  let ?q = "base + int (Suc d)" and ?s = "spray_add n (base + int (Suc d)) s"
  have "p \<in> set (fst ?s)" if "length (fst ?s) < n" "base < p" "p \<le> ?q" "p2pSprayMinPort \<le> p" "p \<le> 65535" "p \<notin> skip" for p
  proof (cases "p = ?q")
    case True
    then show ?thesis
      using that assms(2) spray_add_grows(2) [of s n ?q] by (auto simp: spray_add_def spray_inv_def)
  next
    case False
    then show ?thesis
      using that assms(1) spray_add_grows [of s n ?q] by (auto simp: above_listed_def)
  qed
  then show ?thesis by (simp add: above_listed_def)
qed

lemma above_grows: "above_listed base n skip d s \<Longrightarrow> above_listed base n skip d (spray_add n port s)"
  using spray_add_grows [of s n port] unfolding above_listed_def by (meson order.strict_trans1 subsetD)

lemma spray_loop_ok:
  "\<lbrakk>spray_inv base n back_n skip d below s; above_listed base n skip d s; 0 \<le> base; d \<le> 65535\<rbrakk> \<Longrightarrow>
     \<exists>d' below' s'. spray_loop base n back_n (Suc d) below s = fst s' \<and>
       spray_inv base n back_n skip d' below' s' \<and> above_listed base n skip d' s' \<and>
       (length (fst s') < n \<longrightarrow> 65535 \<le> d')"
proof (induction "65535 - d" arbitrary: d below s)
  case 0
  then have "spray_loop base n back_n (Suc d) below s = fst s" by (subst spray_loop.simps) simp
  then show ?case using 0 by (intro exI [of _ d] exI [of _ below] exI [of _ s]) simp
next
  case (Suc k)
  show ?case
  proof (cases "length (fst s) < n")
    case True
    let ?s1 = "spray_add n (base + int (Suc d)) s"
    let ?s2 = "spray_add n (base - int (Suc d)) ?s1"
    have i0: "spray_inv base n back_n skip (Suc d) below s" using Suc.prems(1) by (rule spray_inv_mono)
    have i1: "spray_inv base n back_n skip (Suc d) below ?s1"
      using spray_add_inv [OF i0, of "base + int (Suc d)"] by simp
    have a1: "above_listed base n skip (Suc d) ?s1" using Suc.prems(2) i0 by (rule spray_add_above)
    have k: "k = 65535 - Suc d" "Suc d \<le> 65535" using Suc.hyps(2) by auto
    show ?thesis
    proof (cases "below < back_n \<and> p2pSprayMinPort \<le> base - int (Suc d)")
      case b: True
      have i2: "spray_inv base n back_n skip (Suc d) (below + (length (fst ?s2) - length (fst ?s1))) ?s2"
        using spray_add_inv [OF i1, of "base - int (Suc d)"] b by simp
      have a2: "above_listed base n skip (Suc d) ?s2" using a1 by (rule above_grows)
      show ?thesis
        using Suc.hyps(1) [OF k(1) i2 a2 Suc.prems(3) k(2)] True b k(2)
        by (subst spray_loop.simps) (simp add: Let_def)
    next
      case b: False
      then show ?thesis
        using Suc.hyps(1) [OF k(1) i1 a1 Suc.prems(3) k(2)] True k(2)
        by (subst spray_loop.simps) (auto simp: Let_def)
    qed
  next
    case False
    then have "spray_loop base n back_n (Suc d) below s = fst s" by (subst spray_loop.simps) simp
    then show ?thesis using Suc.prems False by (intro exI [of _ d] exI [of _ below] exI [of _ s]) simp
  qed
qed

lemma sprayPorts_ok:
  fixes base n back_n exclude
  defines "b \<equiv> normalizeUDPAddr base"
  defines "ports \<equiv> map addr_Port (sprayPorts base n back_n exclude)"
  assumes "0 \<le> addr_Port base"
  shows "sprayPorts base n back_n exclude = map (\<lambda>p. \<lparr>addr_IP = addr_IP b, addr_Port = p\<rparr>) ports"
    and "length ports \<le> n" "distinct ports" "\<forall>p \<in> set ports. p2pSprayMinPort \<le> p \<and> p \<le> 65535 \<and> p \<noteq> addr_Port base"
    and "\<forall>a \<in> set exclude. ip_Equal (addr_IP a) (addr_IP b) \<longrightarrow> addr_Port a \<notin> set ports"
    and "length (filter (\<lambda>p. p < addr_Port base) ports) \<le> back_n"
    and "sorted (map (\<lambda>p. \<bar>p - addr_Port base\<bar>) ports)"
    and "length ports < n \<longrightarrow> (\<forall>p. addr_Port base < p \<and> p2pSprayMinPort \<le> p \<and> p \<le> 65535 \<and>
      (\<forall>a \<in> set exclude. ip_Equal (addr_IP a) (addr_IP b) \<longrightarrow> addr_Port a \<noteq> p) \<longrightarrow> p \<in> set ports)"
proof -
  define skip where "skip = insert (addr_Port b)
    (set (map addr_Port (filter (\<lambda>a. ip_Equal (addr_IP a) (addr_IP b)) exclude)))"
  have "spray_inv (addr_Port b) n back_n skip 0 0 ([], skip)" "above_listed (addr_Port b) n skip 0 ([], skip)"
    by (auto simp: spray_inv_def above_listed_def)
  from spray_loop_ok [OF this] assms(3) obtain d' below' s' where
    s': "spray_loop (addr_Port b) n back_n 1 0 ([], skip) = fst s'" "spray_inv (addr_Port b) n back_n skip d' below' s'"
      "above_listed (addr_Port b) n skip d' s'" "length (fst s') < n \<longrightarrow> 65535 \<le> d'"
    by (auto simp: b_def)
  have run: "sprayPorts base n back_n exclude = map (\<lambda>p. \<lparr>addr_IP = addr_IP b, addr_Port = p\<rparr>) (fst s')"
    using s'(1) by (simp add: sprayPorts_def Let_def b_def skip_def)
  then have ports: "ports = fst s'" by (simp add: ports_def comp_def)
  show "sprayPorts base n back_n exclude = map (\<lambda>p. \<lparr>addr_IP = addr_IP b, addr_Port = p\<rparr>) ports"
    using run ports by simp
  show "length ports \<le> n" "distinct ports" "\<forall>p \<in> set ports. p2pSprayMinPort \<le> p \<and> p \<le> 65535 \<and> p \<noteq> addr_Port base"
    "\<forall>a \<in> set exclude. ip_Equal (addr_IP a) (addr_IP b) \<longrightarrow> addr_Port a \<notin> set ports"
    "length (filter (\<lambda>p. p < addr_Port base) ports) \<le> back_n"
    "sorted (map (\<lambda>p. \<bar>p - addr_Port base\<bar>) ports)"
    using s'(2) unfolding ports by (auto simp: spray_inv_def skip_def b_def)
  show "length ports < n \<longrightarrow> (\<forall>p. addr_Port base < p \<and> p2pSprayMinPort \<le> p \<and> p \<le> 65535 \<and>
      (\<forall>a \<in> set exclude. ip_Equal (addr_IP a) (addr_IP b) \<longrightarrow> addr_Port a \<noteq> p) \<longrightarrow> p \<in> set ports)"
    using s'(3,4) assms(3) unfolding ports by (auto simp: above_listed_def skip_def b_def)
qed

text \<open>
  C35. The spray of a punch plan: ports are sprayed only towards a port-rewriting peer, only by a side
  whose source is stable, and only in its first four attempts. At most 128 ports (256 in later
  attempts) on the peer's observed address are sprayed, nearest first, none twice, none below 1024,
  none that is already a target, at most a quarter (later half) of them below the observed port; and
  when fewer are listed, every port above the observed one is covered.
\<close>

theorem plan_spray_ok:
  fixes s self attempts
  defines "plan \<equiv> planPunch s self attempts"
  defines "base \<equiv> normalizeUDPAddr (se_ObservedAddr s)"
  defines "ports \<equiv> map addr_Port (pl_spray plan)"
  defines "n \<equiv> if 0 < attempts then 256 else 128"
  defines "below \<equiv> length (filter (\<lambda>p. p < addr_Port base) ports)"
  assumes "0 \<le> addr_Port (se_ObservedAddr s)"
  shows "(pl_spray plan \<noteq> [] \<longrightarrow>
       pl_peer plan = natClassRewriting \<and> stableSource self \<and> attempts < p2pSprayMaxAttempts) \<and>
    pl_sweeps plan = (if pl_spray plan = [] then 0 else 2) \<and>
    (\<forall>a \<in> set (pl_spray plan). addr_IP a = addr_IP base) \<and>
    length ports \<le> n \<and> distinct ports \<and> (\<forall>p \<in> set ports. 1024 \<le> p \<and> p \<le> 65535) \<and>
    set (pl_spray plan) \<inter> set (pl_targets plan) = {} \<and>
    below \<le> (if 0 < attempts then 128 else 32) \<and> sorted (map (\<lambda>p. \<bar>p - addr_Port base\<bar>) ports) \<and>
    (pl_peer plan = natClassRewriting \<and> stableSource self \<and> attempts < p2pSprayMaxAttempts \<and> length ports < n \<longrightarrow>
       (\<forall>p. addr_Port base < p \<and> 1024 \<le> p \<and> p \<le> 65535 \<and>
          (\<forall>a \<in> set (pl_targets plan). ip_Equal (addr_IP a) (addr_IP base) \<longrightarrow> addr_Port a \<noteq> p) \<longrightarrow> p \<in> set ports))"
proof (cases "pl_peer plan = natClassRewriting \<and> stableSource self \<and> attempts < p2pSprayMaxAttempts")
  case True
  let ?b = "if 0 < attempts then 128 else 32"
  have spray: "pl_spray plan = sprayPorts (se_ObservedAddr s) n ?b (pl_targets plan)"
    using True by (simp add: plan_def planPunch_def Let_def n_def p2pSprayPorts_def p2pSprayFirstPorts_def)
  note ok = sprayPorts_ok [OF assms(6), where n = n and back_n = ?b and exclude = "pl_targets plan", folded base_def, folded spray, folded ports_def]
  have "set (pl_spray plan) \<inter> set (pl_targets plan) = {}"
    using ok(1,5) by auto
  moreover have "pl_sweeps plan = (if pl_spray plan = [] then 0 else 2)"
    using True by (simp add: plan_def planPunch_def Let_def p2pSpraySweeps_def)
  moreover have "\<forall>a \<in> set (pl_spray plan). addr_IP a = addr_IP base"
    using ok(1) by (metis (no_types, lifting) imageE list.set_map udp_addr.select_convs(1))
  ultimately show ?thesis
    using True ok(2-) unfolding below_def p2pSprayMinPort_def base_def normalizeUDPAddr_Port by blast
next
  case False
  then have "pl_spray plan = []" by (auto simp: plan_def planPunch_def Let_def)
  moreover have "pl_sweeps plan = 0" using False by (auto simp: plan_def planPunch_def Let_def)
  ultimately show ?thesis using False by (auto simp: ports_def below_def)
qed

theorem plan_spray_ok_witness:
  "pl_peer (planPunch ex_session natClassPreserving 0) = natClassRewriting \<and>
   length (pl_spray (planPunch ex_session natClassPreserving 0)) \<le> 128 \<and>
   distinct (map addr_Port (pl_spray (planPunch ex_session natClassPreserving 0)))"
proof -
  have "classifyNAT (se_ObservedAddr ex_session) (se_LocalAddr ex_session) (se_CandidateAddrs ex_session) = natClassRewriting"
    by code_simp
  then have "pl_peer (planPunch ex_session natClassPreserving 0) = natClassRewriting"
    by (simp add: planPunch_def Let_def)
  moreover have "0 \<le> addr_Port (se_ObservedAddr ex_session)" by (simp add: ex_session_def)
  note ok = plan_spray_ok [OF this, of natClassPreserving 0]
  from ok have "length (pl_spray (planPunch ex_session natClassPreserving 0)) \<le> 128" by (simp only: length_map) simp
  moreover from ok have "distinct (map addr_Port (pl_spray (planPunch ex_session natClassPreserving 0)))" by blast
  ultimately show ?thesis by blast
qed

section \<open>One spray at a time\<close>

text \<open>
  All sprays of a client with the shared limiter. \<open>pc_sent\<close> counts the packets each spray has sent and
  \<open>pc_budget\<close> is what it may send: sweeps times ports. A punch job that returns releases its spray, by
  the deferred call in \<^verbatim>\<open>holePunch\<close>, and steps it no more: \<open>pc_finished\<close>.
\<close>

record pacing =
  pc_sprays :: "punch_spray list"
  pc_limiter :: bool
  pc_sent :: "nat list"
  pc_budget :: "nat list"
  pc_finished :: "nat set"

datatype pacing_event = NewSpray nat int time | StepSpray nat time bool | FinishSpray nat

definition set_spray :: "pacing \<Rightarrow> nat \<Rightarrow> punch_spray \<times> bool \<Rightarrow> nat \<Rightarrow> pacing" where
  "set_spray c i sl sent = c\<lparr>pc_sprays := (pc_sprays c)[i := fst sl], pc_limiter := snd sl,
     pc_sent := (pc_sent c)[i := pc_sent c ! i + sent]\<rparr>"

fun pacing_step :: "pacing \<Rightarrow> pacing_event \<Rightarrow> pacing" where
  "pacing_step c (NewSpray n sweeps start) =
     c\<lparr>pc_sprays := pc_sprays c @ [newPunchSpray n sweeps start], pc_sent := pc_sent c @ [0],
       pc_budget := pc_budget c @ [nat sweeps * n]\<rparr>"
| "pacing_step c (StepSpray i now promoted) =
     (if i < length (pc_sprays c) \<and> i \<notin> pc_finished c
      then let ((lo, hi), sl) = spray_step now promoted (pc_sprays c ! i, pc_limiter c)
           in set_spray c i sl (hi - lo)
      else c)"
| "pacing_step c (FinishSpray i) =
     (if i < length (pc_sprays c)
      then set_spray (c\<lparr>pc_finished := insert i (pc_finished c)\<rparr>) i (spray_release (pc_sprays c ! i, pc_limiter c)) 0
      else c)"

definition no_sprays :: pacing where
  "no_sprays = \<lparr>pc_sprays = [], pc_limiter = False, pc_sent = [], pc_budget = [], pc_finished = {}\<rparr>"

definition spray_ok :: "punch_spray \<Rightarrow> bool" where
  "spray_ok s \<longleftrightarrow> (sp_active s \<longrightarrow> 0 < sp_sweeps s \<and> sp_next s < sp_size s) \<and> (0 < sp_sweeps s \<longrightarrow> 0 < sp_size s)"

definition remaining :: "punch_spray \<Rightarrow> nat" where
  "remaining s = nat (sp_sweeps s) * sp_size s - (if sp_active s then sp_next s else 0)"

definition pacing_inv :: "pacing \<Rightarrow> bool" where
  "pacing_inv c \<longleftrightarrow> length (pc_sent c) = length (pc_sprays c) \<and> length (pc_budget c) = length (pc_sprays c) \<and>
     length (filter sp_active (pc_sprays c)) = of_bool (pc_limiter c) \<and>
     pc_finished c \<subseteq> {..<length (pc_sprays c)} \<and>
     (\<forall>i < length (pc_sprays c). spray_ok (pc_sprays c ! i) \<and>
        pc_sent c ! i + (if i \<in> pc_finished c then 0 else remaining (pc_sprays c ! i)) \<le> pc_budget c ! i)"

lemma release_ok:
  assumes "spray_ok s" "sp_active s \<longrightarrow> lim" "spray_release (s, lim) = (s', lim')"
  shows "spray_ok s' \<and> \<not> sp_active s' \<and> of_bool lim' + (of_bool (sp_active s) :: nat) = of_bool lim \<and>
    sp_sweeps s' = sp_sweeps s \<and> sp_size s' = sp_size s"
  using assms by (auto simp: spray_release_def spray_ok_def split: if_splits)

lemma sweep_ok:
  assumes "spray_ok s" "sp_active s" "lim" "spray_sweep now (s, lim) = ((lo, hi), (s', lim'))"
  shows "spray_ok s' \<and> lo \<le> hi \<and> hi \<le> sp_size s \<and> hi - lo \<le> 32 \<and> (hi - lo) + remaining s' \<le> remaining s \<and>
    of_bool lim' = (of_bool (sp_active s') :: nat)"
proof -
  obtain k where k: "nat (sp_sweeps s) = Suc k"
    using assms(1,2) by (cases "nat (sp_sweeps s)") (auto simp: spray_ok_def)
  have "sp_next s < sp_size s" using assms(1,2) by (simp add: spray_ok_def)
  then show ?thesis
    using assms k
    by (auto simp: spray_sweep_def Let_def spray_release_def spray_ok_def remaining_def p2pSprayPerRound_def
        nat_diff_distrib min_def split: if_splits)
qed

lemma spray_step_ok:
  assumes "spray_ok s" "sp_active s \<longrightarrow> lim" "spray_step now promoted (s, lim) = ((lo, hi), (s', lim'))"
  shows "spray_ok s' \<and> lo \<le> hi \<and> hi \<le> sp_size s \<and> hi - lo \<le> 32 \<and> (hi - lo) + remaining s' \<le> remaining s \<and>
    of_bool lim' + (of_bool (sp_active s) :: nat) = of_bool lim + of_bool (sp_active s')"
proof -
  consider "sp_sweeps s \<le> 0 \<or> (\<not> promoted \<and> \<not> sp_active s \<and> (now < sp_nextAt s \<or> lim))"
    | "0 < sp_sweeps s" "promoted" | "0 < sp_sweeps s" "\<not> promoted" "\<not> sp_active s" "\<not> lim" "sp_nextAt s \<le> now"
    | "0 < sp_sweeps s" "\<not> promoted" "sp_active s" by linarith
  then show ?thesis
  proof cases
    case 1
    then have "((lo, hi), (s', lim')) = ((0, 0), (s, lim))"
      using assms(1,3) by (auto simp: spray_step_def spray_ok_def split: if_splits)
    then show ?thesis using assms(1) by simp
  next
    case 2
    then show ?thesis
      using assms by (auto simp: spray_step_def spray_release_def spray_ok_def remaining_def split: if_splits)
  next
    case 3
    let ?s = "s\<lparr>sp_active := True, sp_next := 0\<rparr>"
    have "spray_ok ?s" using assms(1) 3 by (simp add: spray_ok_def)
    moreover have "spray_sweep now (?s, True) = ((lo, hi), (s', lim'))" using assms(3) 3 by (simp add: spray_step_def)
    moreover have "remaining ?s = remaining s" using 3 by (simp add: remaining_def)
    ultimately show ?thesis using sweep_ok [of ?s True now lo hi s' lim'] 3 by auto
  next
    case 4
    then have "spray_sweep now (s, lim) = ((lo, hi), (s', lim'))" using assms(3) by (simp add: spray_step_def)
    then show ?thesis using sweep_ok [of s lim now lo hi s' lim'] assms 4 by auto
  qed
qed

lemma length_filter_update:
  "i < length xs \<Longrightarrow> length (filter P (xs[i := x])) + of_bool (P (xs ! i)) = length (filter P xs) + of_bool (P x)"
proof (induction xs arbitrary: i)
  case (Cons y ys)
  then show ?case by (cases i) auto
qed simp

lemma active_limited:
  assumes "pacing_inv c" "i < length (pc_sprays c)" "sp_active (pc_sprays c ! i)"
  shows "pc_limiter c"
proof -
  have "pc_sprays c ! i \<in> set (filter sp_active (pc_sprays c))" using assms(2,3) by simp
  then have "0 < length (filter sp_active (pc_sprays c))" by (metis length_pos_if_in_set)
  then show ?thesis using assms(1) by (cases "pc_limiter c") (auto simp: pacing_inv_def)
qed

lemma set_spray_inv:
  assumes "pacing_inv c" "i < length (pc_sprays c)" "spray_ok s'"
    "sent + (if i \<in> pc_finished c then 0 else remaining s') \<le>
       (if i \<in> pc_finished c then 0 else remaining (pc_sprays c ! i))"
    "of_bool lim' + (of_bool (sp_active (pc_sprays c ! i)) :: nat) = of_bool (pc_limiter c) + of_bool (sp_active s')"
  shows "pacing_inv (set_spray c i (s', lim') sent)"
  using assms length_filter_update [OF assms(2), of sp_active s']
  by (fastforce simp: pacing_inv_def set_spray_def nth_list_update)

interpretation pacing: event_system pacing_step no_sprays pacing_inv
proof unfold_locales
  show "pacing_inv no_sprays" by (simp add: pacing_inv_def no_sprays_def)
  show "pacing_inv (pacing_step c e)" if inv: "pacing_inv c" for c e
  proof (cases e)
    case (NewSpray n sweeps start)
    then show ?thesis
      using inv by (auto simp: pacing_inv_def nth_append newPunchSpray_def spray_ok_def remaining_def less_Suc_eq)
  next
    case (StepSpray i now promoted)
    show ?thesis
    proof (cases "i < length (pc_sprays c) \<and> i \<notin> pc_finished c")
      case i: True
      obtain lo hi s' lim' where step: "spray_step now promoted (pc_sprays c ! i, pc_limiter c) = ((lo, hi), (s', lim'))"
        by (metis surj_pair)
      have "spray_ok (pc_sprays c ! i)" using inv i by (simp add: pacing_inv_def)
      note ok = spray_step_ok [OF this _ step] active_limited [OF inv conjunct1 [OF i]]
      then have "pacing_inv (set_spray c i (s', lim') (hi - lo))" using inv i by (intro set_spray_inv) auto
      then show ?thesis using i step StepSpray by simp
    qed (use StepSpray inv in auto)
  next
    case (FinishSpray i)
    show ?thesis
    proof (cases "i < length (pc_sprays c)")
      case i: True
      let ?c = "c\<lparr>pc_finished := insert i (pc_finished c)\<rparr>"
      obtain s' lim' where rel: "spray_release (pc_sprays c ! i, pc_limiter c) = (s', lim')" by (metis surj_pair)
      have "spray_ok (pc_sprays c ! i)" using inv i by (simp add: pacing_inv_def)
      note ok = release_ok [OF this _ rel] active_limited [OF inv i]
      have "pacing_inv ?c" using inv i by (fastforce simp: pacing_inv_def)
      then have "pacing_inv (set_spray ?c i (s', lim') 0)"
        using ok i by (intro set_spray_inv) auto
      then show ?thesis using i rel FinishSpray by simp
    qed (use FinishSpray inv in auto)
  qed
qed

text \<open>
  C36. However the punch rounds of several peers interleave, at most one spray of a client is active at
  a time (the limiter is taken exactly while one is), no round sends more than 32 spray packets, every
  index sent is a port of the plan, and a spray never sends more packets than sweeps times ports.
\<close>

theorem spray_pacing:
  fixes es defines "c \<equiv> foldl pacing_step no_sprays es"
  shows "length (filter sp_active (pc_sprays c)) = of_bool (pc_limiter c) \<and>
    (\<forall>i < length (pc_sprays c). pc_sent c ! i \<le> pc_budget c ! i) \<and>
    (\<forall>i < length (pc_sprays c). \<forall>now promoted.
       let ((lo, hi), _) = spray_step now promoted (pc_sprays c ! i, pc_limiter c)
       in lo \<le> hi \<and> hi \<le> sp_size (pc_sprays c ! i) \<and> hi - lo \<le> 32)"
proof -
  have inv: "pacing_inv c" using pacing.run_inv [of es] by (simp add: pacing.run_def c_def)
  have "let ((lo, hi), _) = spray_step now promoted (pc_sprays c ! i, pc_limiter c)
       in lo \<le> hi \<and> hi \<le> sp_size (pc_sprays c ! i) \<and> hi - lo \<le> 32" if i: "i < length (pc_sprays c)" for i now promoted
  proof -
    obtain lo hi s' lim' where step: "spray_step now promoted (pc_sprays c ! i, pc_limiter c) = ((lo, hi), (s', lim'))"
      by (metis surj_pair)
    have "spray_ok (pc_sprays c ! i)" using inv i by (simp add: pacing_inv_def)
    then show ?thesis using spray_step_ok [OF _ _ step] active_limited [OF inv i] step by simp
  qed
  then show ?thesis using inv by (fastforce simp: pacing_inv_def)
qed

theorem spray_pacing_witness:
  "pc_sent (foldl pacing_step no_sprays [NewSpray 40 2 0, StepSpray 0 (minute) False]) = [32] \<and>
   pc_sent (foldl pacing_step no_sprays [NewSpray 40 2 0, StepSpray 0 (minute) False]) ! 0 \<le>
     pc_budget (foldl pacing_step no_sprays [NewSpray 40 2 0, StepSpray 0 (minute) False]) ! 0"
proof -
  let ?c = "foldl pacing_step no_sprays [NewSpray 40 2 0, StepSpray 0 (minute) False]"
  have run: "pc_sent ?c = [32]" "length (pc_sprays ?c) = 1"
    by (simp_all add: no_sprays_def newPunchSpray_def spray_step_def spray_sweep_def set_spray_def Let_def p2pSprayPerRound_def p2pSprayDelay_def)
  then show ?thesis using spray_pacing [of "[NewSpray 40 2 0, StepSpray 0 (minute) False]"] by simp
qed

section \<open>What a client announces\<close>

lemma append_IPs:
  "addr_IP ` set (appendPunchCandidate xs c ip) \<subseteq> addr_IP ` set xs \<union> {addr_IP (normalizeUDPAddr c)}"
  by (auto simp: appendPunchCandidate_def Let_def)

definition v6_count :: "udp_addr list \<Rightarrow> nat" where
  "v6_count xs = length (filter (\<lambda>a. To4 (addr_IP a) = []) xs)"

lemma v6_count_append:
  "v6_count (appendPunchCandidate xs c ip) =
     v6_count xs + (if To4 (addr_IP c) = [] then length (appendPunchCandidate xs c ip) - length xs else 0)"
  by (auto simp: appendPunchCandidate_def Let_def v6_count_def normalizeUDPAddr_IP)

lemma append_ipv6_ok:
  "\<lbrakk>v6_count xs = k; k \<le> 2; good_targets [] xs; \<forall>ip \<in> set ips. To4 ip = []\<rbrakk> \<Longrightarrow>
     v6_count (append_ipv6 xs k port ips) \<le> 2 \<and> good_targets [] (append_ipv6 xs k port ips) \<and>
     addr_IP ` set (append_ipv6 xs k port ips) \<subseteq> addr_IP ` set xs \<union> set ips \<and>
     (\<exists>ys. append_ipv6 xs k port ips = xs @ ys)"
proof (induction ips arbitrary: xs k)
  case (Cons ip ips)
  let ?c = "\<lparr>addr_IP = ip, addr_Port = port\<rparr>"
  let ?xs = "appendPunchCandidate xs ?c []" and ?k = "k + (length (appendPunchCandidate xs ?c []) - length xs)"
  show ?case
  proof (cases "2 \<le> k")
    case True
    then show ?thesis using Cons.prems by (auto simp: p2pMaxIPv6Candidates_def)
  next
    case False
    have k: "v6_count ?xs = ?k" using Cons.prems by (simp add: v6_count_append)
    obtain ys where ys: "?xs = xs @ ys" "length ys \<le> 1" using append_mono by blast
    have "?k \<le> 2" using False ys by simp
    then have IH: "v6_count (append_ipv6 ?xs ?k port ips) \<le> 2 \<and> good_targets [] (append_ipv6 ?xs ?k port ips) \<and>
        addr_IP ` set (append_ipv6 ?xs ?k port ips) \<subseteq> addr_IP ` set ?xs \<union> set ips \<and>
        (\<exists>ys. append_ipv6 ?xs ?k port ips = ?xs @ ys)"
      using Cons.prems(4) by (intro Cons.IH [OF k _ append_good [OF Cons.prems(3)]]) simp_all
    have "addr_IP (normalizeUDPAddr ?c) = ip" using Cons.prems(4) by (simp add: normalizeUDPAddr_IP)
    then have "addr_IP ` set ?xs \<subseteq> addr_IP ` set xs \<union> {ip}" using append_IPs [of xs ?c "[]"] by simp
    moreover have "append_ipv6 xs k port (ip # ips) = append_ipv6 ?xs ?k port ips"
      using False by (simp add: p2pMaxIPv6Candidates_def Let_def)
    ultimately show ?thesis using IH ys(1) by (simp only: list.set append_assoc) blast
  qed
qed auto

lemma append_v4_ok:
  "\<lbrakk>v6_count xs = 0; good_targets [] xs; \<forall>ip \<in> set ips. To4 ip \<noteq> []\<rbrakk> \<Longrightarrow>
     v6_count (foldl (\<lambda>c ip. appendPunchCandidate c \<lparr>addr_IP = ip, addr_Port = port\<rparr> []) xs ips) = 0 \<and>
     good_targets [] (foldl (\<lambda>c ip. appendPunchCandidate c \<lparr>addr_IP = ip, addr_Port = port\<rparr> []) xs ips) \<and>
     addr_IP ` set (foldl (\<lambda>c ip. appendPunchCandidate c \<lparr>addr_IP = ip, addr_Port = port\<rparr> []) xs ips)
       \<subseteq> addr_IP ` set xs \<union> To4 ` set ips \<and>
     (\<exists>ys. foldl (\<lambda>c ip. appendPunchCandidate c \<lparr>addr_IP = ip, addr_Port = port\<rparr> []) xs ips = xs @ ys)"
proof (induction ips arbitrary: xs)
  case (Cons ip ips)
  let ?c = "\<lparr>addr_IP = ip, addr_Port = port\<rparr>"
  let ?xs = "appendPunchCandidate xs ?c []"
  obtain ys where ys: "?xs = xs @ ys" using append_mono by blast
  have "v6_count ?xs = 0" using Cons.prems by (simp add: v6_count_append)
  note IH = Cons.IH [OF this append_good [OF Cons.prems(2)]]
  have "addr_IP (normalizeUDPAddr ?c) = To4 ip" using Cons.prems(3) by (simp add: normalizeUDPAddr_IP)
  then have "addr_IP ` set ?xs \<subseteq> addr_IP ` set xs \<union> {To4 ip}" using append_IPs [of xs ?c "[]"] by simp
  then show ?case
    using IH Cons.prems(3) ys unfolding foldl_Cons by (simp only: list.set append_assoc image_insert) blast
qed simp

text \<open>
  The candidates a client announces: usable, pairwise different, at most two of them IPv6, each the
  address of an interface that is up, not loopback, not the own tunnel and not another tunnel, and
  none of them loopback, link-local, multicast, carrier-grade-NAT or service-continuity space.
\<close>

theorem local_candidates_ok:
  fixes skipPPP :: bool and defaultIP defaultIP6 :: ip and ifaces :: "p2p_iface list" and ownTun :: string and port :: int
  assumes "defaultIP = [] \<or> length defaultIP = 4"
  defines "cs \<equiv> filterLocalCandidates skipPPP defaultIP defaultIP6 ifaces ownTun port"
  shows "good_targets [] cs \<and> v6_count cs \<le> 2 \<and>
    (\<forall>a \<in> set cs. \<exists>i \<in> set ifaces. \<exists>ip \<in> set (if_ips i).
       addr_IP a = (if To4 ip \<noteq> [] then To4 ip else ip) \<and> isUsefulLocalCandidateIP ip \<and>
       if_flags i AND FlagUp \<noteq> 0 \<and> if_flags i AND FlagLoopback = 0 \<and>
       \<not> isSkippedCandidateInterface skipPPP (if_name i) ownTun)"
proof -
  define el where "el = eligible_ips skipPPP ifaces ownTun"
  define c0 where "c0 = (if defaultIP = [] then []
                else case find (\<lambda>ip. ip_Equal ip defaultIP) el of None \<Rightarrow> []
                     | Some ip \<Rightarrow> appendPunchCandidate [] \<lparr>addr_IP = ip, addr_Port = port\<rparr> [])"
  define c1 where "c1 = foldl (\<lambda>c ip. appendPunchCandidate c \<lparr>addr_IP = ip, addr_Port = port\<rparr> []) c0
    (filter (\<lambda>ip. To4 ip \<noteq> []) el)"
  have v4eq: "To4 ip \<noteq> []" if "ip_Equal ip defaultIP" "defaultIP \<noteq> []" for ip
    using that assms by (auto simp: ip_Equal_def To4_def split: if_splits)
  have c0: "v6_count c0 = 0 \<and> good_targets [] c0 \<and> addr_IP ` set c0 \<subseteq> To4 ` {ip \<in> set el. To4 ip \<noteq> []}"
  proof (cases "defaultIP = [] \<or> find (\<lambda>ip. ip_Equal ip defaultIP) el = None")
    case True
    then have "c0 = []" by (auto simp: c0_def)
    then show ?thesis by (simp add: v6_count_def)
  next
    case False
    then obtain ip where ip: "find (\<lambda>ip. ip_Equal ip defaultIP) el = Some ip" "defaultIP \<noteq> []" by auto
    then have el: "ip \<in> set el" "To4 ip \<noteq> []" using v4eq by (auto dest!: find_SomeD)
    have "c0 = foldl (\<lambda>c ip. appendPunchCandidate c \<lparr>addr_IP = ip, addr_Port = port\<rparr> []) [] [ip]"
      using ip by (simp add: c0_def)
    then show ?thesis using append_v4_ok [of "[]" "[ip]" port] el by (fastforce simp: v6_count_def)
  qed
  have "\<forall>ip \<in> set (filter (\<lambda>ip. To4 ip \<noteq> []) el). To4 ip \<noteq> []" by simp
  note v4 = append_v4_ok [OF conjunct1 [OF c0] conjunct1 [OF conjunct2 [OF c0]] this, of port, folded c1_def]
  then have c1: "v6_count c1 = 0 \<and> good_targets [] c1 \<and> addr_IP ` set c1 \<subseteq> To4 ` {ip \<in> set el. To4 ip \<noteq> []}"
    using c0 unfolding set_filter by blast
  obtain v6 where cs: "cs = append_ipv6 c1 0 port v6" and v6: "set v6 \<subseteq> {ip \<in> set el. To4 ip = []}"
    by (rule that, unfold cs_def filterLocalCandidates_def Let_def el_def [symmetric] c0_def [symmetric] c1_def [symmetric],
        rule refl) auto
  have fin: "good_targets [] cs \<and> v6_count cs \<le> 2 \<and> addr_IP ` set cs \<subseteq> addr_IP ` set c1 \<union> set v6"
    using append_ipv6_ok [of c1 0 v6 port] c1 v6 cs by auto
  have src: "\<exists>i \<in> set ifaces. ip \<in> set (if_ips i) \<and> isUsefulLocalCandidateIP ip \<and> if_flags i AND FlagUp \<noteq> 0 \<and>
      if_flags i AND FlagLoopback = 0 \<and> \<not> isSkippedCandidateInterface skipPPP (if_name i) ownTun" if "ip \<in> set el" for ip
    using that by (auto simp: el_def eligible_ips_def)
  have "\<exists>ip \<in> set el. addr_IP a = (if To4 ip \<noteq> [] then To4 ip else ip)" if "a \<in> set cs" for a
  proof -
    have "addr_IP a \<in> To4 ` {ip \<in> set el. To4 ip \<noteq> []} \<or> addr_IP a \<in> set v6" using fin c1 that by blast
    then consider ip where "addr_IP a = To4 ip" "ip \<in> set el" "To4 ip \<noteq> []" | "addr_IP a \<in> set v6" by blast
    then show ?thesis
    proof cases
      case 2
      then show ?thesis using v6 by (intro bexI [of _ "addr_IP a"]) auto
    qed auto
  qed
  then show ?thesis using fin src by (meson)
qed

theorem local_candidates_ok_witness:
  "filterLocalCandidates False [192, 168, 1, 2] [] [\<lparr>if_name = ''eth0'', if_flags = 1, if_ips = [[192, 168, 1, 2]]\<rparr>] ''wan0'' 9 =
     [\<lparr>addr_IP = [192, 168, 1, 2], addr_Port = 9\<rparr>] \<and>
   good_targets [] [\<lparr>addr_IP = [192, 168, 1, 2], addr_Port = 9\<rparr>]"
proof -
  have run: "filterLocalCandidates False [192, 168, 1, 2] [] [\<lparr>if_name = ''eth0'', if_flags = 1, if_ips = [[192, 168, 1, 2]]\<rparr>] ''wan0'' 9 =
     [\<lparr>addr_IP = [192, 168, 1, 2], addr_Port = 9\<rparr>]"
    by code_simp
  have "[192, 168, 1, 2] = [] \<or> length [192 :: byte, 168, 1, 2] = 4" by simp
  note local_candidates_ok [OF this, of False "[]" "[\<lparr>if_name = ''eth0'', if_flags = 1, if_ips = [[192, 168, 1, 2]]\<rparr>]" "''wan0''" 9]
  then show ?thesis unfolding run by blast
qed

text \<open>
  Retry delays stay between 5 and 40 seconds (the minute the source caps them at is never reached) and
  never shrink with more attempts; the pause
  between punch rounds stays between 45 and 310 milliseconds.
\<close>

theorem retry_delay_bounds:
  "5 * second \<le> p2pRetryDelay n \<and> p2pRetryDelay n \<le> 40 * second \<and>
   (m \<le> n \<longrightarrow> p2pRetryDelay m \<le> p2pRetryDelay n) \<and>
   45 * millisecond \<le> p2pPunchInterval r \<and> p2pPunchInterval r < 310 * millisecond"
proof -
  have cases: "p2pRetryDelay n = (if n \<le> 0 then 5 * second else if n = 1 then 10 * second
      else if n = 2 then 20 * second else 40 * second)" for n
  proof -
    consider "n \<le> 0" | "n = 1" | "n = 2" | "3 \<le> n" by linarith
    then show ?thesis
      by cases (simp_all add: p2pRetryDelay_def p2pRetryBaseDelay_def p2pRetryMaxDelay_def Let_def)
  qed
  have "0 \<le> (r * 17) mod 45" "(r * 17) mod 45 < 45" "0 \<le> (r * 29) mod 90" "(r * 29) mod 90 < 90" by simp_all
  then show ?thesis by (auto simp: cases p2pPunchInterval_def)
qed

theorem retry_delay_bounds_witness: "p2pRetryDelay 1 \<le> p2pRetryDelay 2"
  using retry_delay_bounds [of 2 1 0] by simp

end
