(* ===== verification/P2P_State.thy ===== *)
theory P2P_State
  imports P2P_Message P2P_Nat
begin

text \<open>
  The state of the P2P client, \<^verbatim>\<open>P2PClient\<close> of
  \<^verbatim>\<open>internal/device/wireguard-go/device/p2p_client.go\<close>, and the operations under its mutex that keep its
  indexes: sessions, nonces, retry gates, the key index and the destination index.

  Pointers to discovered peers, sessions and gates are kept as references into heaps, because the code
  compares sessions by pointer, keeps pointers across critical sections and shares a gate between two
  tables. A range over the map of peers visits it in an order Go leaves open; the operations that do so
  take the order as an argument. The endpoint the device's bind parses is its UDP address.
\<close>

section \<open>State\<close>

datatype P2PState = P2PStateDiscovered | P2PStateTrying | P2PStateEstablished | P2PStateFailed

type_synonym pref = nat
type_synonym sref = nat
type_synonym gref = nat
type_synonym wgpeer = nat

record discovered_peer =
  dp_ID :: u32
  dp_PublicKey :: pubkey
  dp_LocalAddr :: udp_addr
  dp_ObservedAddr :: udp_addr
  dp_CandidateAddrs :: "udp_addr list"
  dp_NATType :: byte
  dp_P2PCapable :: bool
  dp_State :: P2PState
  dp_Endpoint :: "udp_addr option"
  dp_RelayPeer :: "wgpeer option"
  dp_LastUsed :: time
  dp_LastSeen :: time
  dp_EstablishedAt :: time
  dp_AssignedIP :: ip
  dp_PunchAttempts :: int
  dp_lastTxBytes :: u64
  dp_lastTxAt :: time

definition zero_key :: pubkey where "zero_key = replicate 32 0"

definition new_peer :: "u32 \<Rightarrow> discovered_peer" where
  "new_peer i =
     \<lparr>dp_ID = i, dp_PublicKey = zero_key, dp_LocalAddr = udp_zero, dp_ObservedAddr = udp_zero,
      dp_CandidateAddrs = [], dp_NATType = 0, dp_P2PCapable = False, dp_State = P2PStateDiscovered,
      dp_Endpoint = None, dp_RelayPeer = None, dp_LastUsed = time_zero, dp_LastSeen = time_zero,
      dp_EstablishedAt = time_zero, dp_AssignedIP = [], dp_PunchAttempts = 0, dp_lastTxBytes = 0,
      dp_lastTxAt = time_zero\<rparr>"

record punch_job =
  pj_peerID :: u32
  pj_session :: sref
  pj_packet :: bytes
  pj_targets :: "udp_addr list"
  pj_spray :: "udp_addr list"
  pj_sweeps :: int

record promotion_job =
  jb_peerID :: u32
  jb_session :: sref
  jb_publicKey :: pubkey
  jb_assignedIP :: ip
  jb_endpoint :: udp_addr
  jb_relayPeer :: "wgpeer option"
  jb_startedAt :: time

datatype control_event = ControlMessage p2p_message | ControlPunch bytes udp_addr

text \<open>What the client asks of the WireGuard device, in order.\<close>

datatype p2p_effect =
    SendControl wgpeer p2p_message
  | SendDatagram bytes udp_addr
  | IpcPrepare pubkey udp_addr bool
  | IpcKeepalive pubkey
  | IpcActivate pubkey ip
  | IpcAllowedIP pubkey ip
  | RemovePeer pubkey
  | EnableRoaming wgpeer
  | SendKeepalive wgpeer
  | AddPeerRoute ip

record p2p_client =
  cl_myID :: u32
  cl_myPublicKey :: pubkey
  cl_serverPeerKey :: pubkey
  cl_localAddr :: udp_addr
  cl_observedAddr :: udp_addr
  cl_registered :: "udp_addr list"
  cl_extraCandidates :: "udp_addr list"
  cl_reregister :: bool
  cl_lastRegister :: int
  cl_peers :: "u32 \<rightharpoonup> pref"
  cl_pheap :: "pref \<Rightarrow> discovered_peer"
  cl_pnext :: pref
  cl_sessions :: "u32 \<rightharpoonup> sref"
  cl_sheap :: "sref \<Rightarrow> p2p_session"
  cl_snext :: sref
  cl_sessionByNonce :: "nonce \<rightharpoonup> sref"
  cl_peerKeyIndex :: "pubkey \<rightharpoonup> u32"
  cl_attemptGates :: "u32 \<rightharpoonup> gref"
  cl_gates :: "gref \<Rightarrow> int"
  cl_gnext :: gref
  cl_destinations :: "ip \<rightharpoonup> u32 \<times> gref"
  cl_closed :: bool
  cl_controlQueue :: "control_event list"
  cl_attemptQueue :: "u32 list"
  cl_punchQueue :: "punch_job list"
  cl_promotionQueue :: "promotion_job list"
  cl_droppedControl :: u64
  cl_droppedAttempts :: u64
  cl_effects :: "p2p_effect list"

text \<open>
  What the client reads from the rest of the device when it runs a handler: the WireGuard peers by key,
  their last handshake and transmitted bytes, the peer that routes an address, whether a configuration
  is accepted, the parsed endpoint of an address, the listen port and the interface candidates, and
  the two cryptographic functions (X25519 with the own static key, keyed BLAKE2s).
\<close>

record p2p_env =
  env_LookupPeer :: "pubkey \<Rightarrow> wgpeer option"
  env_remoteStatic :: "wgpeer \<Rightarrow> pubkey"
  env_anyPeer :: "wgpeer option"
  env_lastHandshakeNano :: "wgpeer \<Rightarrow> int"
  env_txBytes :: "wgpeer \<Rightarrow> u64"
  env_allowedips :: "ip \<Rightarrow> wgpeer option"
  env_IpcSet :: "p2p_effect \<Rightarrow> bool"
  env_routeHandler :: bool
  env_ParseEndpoint :: "udp_addr \<Rightarrow> udp_addr option"
  env_port :: int
  env_localCandidates :: "udp_addr list"
  env_sharedSecret :: "pubkey \<Rightarrow> bytes option"
  env_mac :: "bytes \<Rightarrow> bytes \<Rightarrow> bytes"

definition key_IsZero :: "pubkey \<Rightarrow> bool" where "key_IsZero k = (k = zero_key)"

definition upd_peer :: "pref \<Rightarrow> (discovered_peer \<Rightarrow> discovered_peer) \<Rightarrow> p2p_client \<Rightarrow> p2p_client" where
  "upd_peer p f c = c\<lparr>cl_pheap := (cl_pheap c)(p := f (cl_pheap c p))\<rparr>"

definition upd_session :: "sref \<Rightarrow> (p2p_session \<Rightarrow> p2p_session) \<Rightarrow> p2p_client \<Rightarrow> p2p_client" where
  "upd_session s f c = c\<lparr>cl_sheap := (cl_sheap c)(s := f (cl_sheap c s))\<rparr>"

definition alloc_peer :: "discovered_peer \<Rightarrow> p2p_client \<Rightarrow> p2p_client" where
  "alloc_peer d c =
     c\<lparr>cl_peers := (cl_peers c)(dp_ID d \<mapsto> cl_pnext c), cl_pheap := (cl_pheap c)(cl_pnext c := d),
       cl_pnext := Suc (cl_pnext c)\<rparr>"

definition new_gate :: "u32 \<Rightarrow> p2p_client \<Rightarrow> p2p_client" where
  "new_gate i c =
     c\<lparr>cl_attemptGates := (cl_attemptGates c)(i \<mapsto> cl_gnext c), cl_gates := (cl_gates c)(cl_gnext c := 0),
       cl_gnext := Suc (cl_gnext c)\<rparr>"

definition store_gate :: "u32 \<Rightarrow> int \<Rightarrow> p2p_client \<Rightarrow> p2p_client" where
  "store_gate i v c =
     (case cl_attemptGates c i of None \<Rightarrow> c | Some g \<Rightarrow> c\<lparr>cl_gates := (cl_gates c)(g := v)\<rparr>)"

definition emit :: "p2p_effect \<Rightarrow> p2p_client \<Rightarrow> p2p_client" where
  "emit e c = c\<lparr>cl_effects := cl_effects c @ [e]\<rparr>"

section \<open>Operations under the mutex\<close>

definition signalDone :: "sref \<Rightarrow> p2p_client \<Rightarrow> p2p_client" where
  "signalDone s = upd_session s (\<lambda>x. x\<lparr>se_done := True\<rparr>)"

definition delete_nonce_if :: "nonce \<Rightarrow> sref \<Rightarrow> p2p_client \<Rightarrow> p2p_client" where
  "delete_nonce_if n s c =
     (if cl_sessionByNonce c n = Some s
      then c\<lparr>cl_sessionByNonce := (cl_sessionByNonce c)(n := None)\<rparr> else c)"

definition forgetSessionLocked :: "u32 \<Rightarrow> sref \<Rightarrow> p2p_client \<Rightarrow> p2p_client" where
  "forgetSessionLocked peerID s c =
     (let c1 = (if cl_sessions c peerID = Some s
                then c\<lparr>cl_sessions := (cl_sessions c)(peerID := None)\<rparr> else c);
          c2 = delete_nonce_if (se_Nonce (cl_sheap c s)) s c1
      in if se_hasAltNonce (cl_sheap c s) then delete_nonce_if (se_altNonce (cl_sheap c s)) s c2 else c2)"

definition discardSessionLocked :: "u32 \<Rightarrow> p2p_client \<Rightarrow> p2p_client" where
  "discardSessionLocked peerID c =
     (case cl_sessions c peerID of None \<Rightarrow> c
      | Some s \<Rightarrow> signalDone s (forgetSessionLocked peerID s c))"

definition setRetryGateLocked :: "pref \<Rightarrow> p2p_client \<Rightarrow> p2p_client" where
  "setRetryGateLocked p c =
     (let peer = cl_pheap c p
      in store_gate (dp_ID peer) (UnixNano (dp_LastUsed peer + p2pRetryDelay (dp_PunchAttempts peer))) c)"

definition udpAddrMoved :: "udp_addr \<Rightarrow> udp_addr \<Rightarrow> bool" where
  "udpAddrMoved prev next =
     (if addr_IP prev = [] \<or> IsUnspecified (addr_IP prev) \<or> addr_Port prev = 0 then False
      else \<not> ip_Equal (addr_IP prev) (addr_IP next) \<or> addr_Port prev \<noteq> addr_Port next)"

definition ipv4Netip :: "ip \<Rightarrow> ip option" where
  "ipv4Netip a = (if To4 a = [] then None else Some (To4 a))"

definition active :: "discovered_peer \<Rightarrow> bool" where
  "active d = (dp_State d = P2PStateTrying \<or> dp_State d = P2PStateEstablished)"

text \<open>
  One iteration of \<^verbatim>\<open>rebuildIndexesLocked\<close>; \<open>ki\<close> and \<open>di\<close> are the key index and the destination index
  under construction.
\<close>

definition rebuild_one ::
    "u32 \<Rightarrow> p2p_client \<times> (pubkey \<rightharpoonup> u32) \<times> (ip \<rightharpoonup> u32 \<times> gref) \<Rightarrow>
       p2p_client \<times> (pubkey \<rightharpoonup> u32) \<times> (ip \<rightharpoonup> u32 \<times> gref)" where
  "rebuild_one i r =
     (case r of (c, ki, di) \<Rightarrow>
        case cl_peers c i of None \<Rightarrow> r
        | Some p \<Rightarrow>
          let d = cl_pheap c p;
              ki1 = (if key_IsZero (dp_PublicKey d) then ki else ki(dp_PublicKey d \<mapsto> dp_ID d))
          in if \<not> dp_P2PCapable d \<or> active d \<or>
                (\<not> key_IsZero (cl_serverPeerKey c) \<and> dp_PublicKey d = cl_serverPeerKey c)
             then (c, ki1, di)
             else case ipv4Netip (dp_AssignedIP d) of None \<Rightarrow> (c, ki1, di)
               | Some addr \<Rightarrow>
                 let c1 = (if cl_attemptGates c (dp_ID d) = None then new_gate (dp_ID d) c else c)
                 in (c1, ki1, di(addr \<mapsto> (dp_ID d, the (cl_attemptGates c1 (dp_ID d))))))"

definition rebuildIndexesLocked :: "u32 list \<Rightarrow> p2p_client \<Rightarrow> p2p_client" where
  "rebuildIndexesLocked order c =
     (case fold rebuild_one order (c, Map.empty, Map.empty) of
        (c1, ki, di) \<Rightarrow> c1\<lparr>cl_peerKeyIndex := ki, cl_destinations := di\<rparr>)"

definition renumberPeerLocked :: "pubkey \<Rightarrow> u32 \<Rightarrow> p2p_client \<Rightarrow> bool \<times> p2p_client" where
  "renumberPeerLocked publicKey newID c =
     (if key_IsZero publicKey then (False, c)
      else case cl_peerKeyIndex c publicKey of None \<Rightarrow> (False, c)
      | Some oldID \<Rightarrow>
        if oldID = newID then (False, c)
        else
          let c1 = c\<lparr>cl_peerKeyIndex := (cl_peerKeyIndex c)(publicKey := None)\<rparr> in
          case cl_peers c oldID of None \<Rightarrow> (False, c1)
          | Some old \<Rightarrow>
            if dp_PublicKey (cl_pheap c old) \<noteq> publicKey then (False, c1)
            else
              let c2 = discardSessionLocked oldID c1;
                  c3 = (if cl_peers c2 newID \<noteq> None then discardSessionLocked newID c2 else c2);
                  c4 = upd_peer old (\<lambda>d. d\<lparr>dp_State := (if dp_State d = P2PStateTrying then P2PStateDiscovered
                                                      else dp_State d), dp_ID := newID\<rparr>)
                         (c3\<lparr>cl_peers := (cl_peers c3)(oldID := None, newID \<mapsto> old)\<rparr>);
                  c5 = (case cl_attemptGates c4 oldID of None \<Rightarrow> c4
                        | Some g \<Rightarrow> c4\<lparr>cl_attemptGates := (cl_attemptGates c4)(newID \<mapsto> g, oldID := None)\<rparr>)
              in (True, c5\<lparr>cl_peerKeyIndex := (cl_peerKeyIndex c5)(publicKey \<mapsto> newID)\<rparr>))"

definition p2pPeerForgetAfter :: duration where "p2pPeerForgetAfter = 10 * minute"

definition unlisted :: "time \<Rightarrow> discovered_peer \<Rightarrow> bool" where
  "unlisted now d =
     (\<not> (active d \<or> IsZero (dp_LastSeen d) \<or> time_Sub now (dp_LastSeen d) \<le> p2pPeerForgetAfter))"

definition forget_peer :: "time \<Rightarrow> u32 \<Rightarrow> bool \<times> p2p_client \<Rightarrow> bool \<times> p2p_client" where
  "forget_peer now i r =
     (case r of (changed, c) \<Rightarrow>
        case cl_peers c i of None \<Rightarrow> r
        | Some p \<Rightarrow>
          if unlisted now (cl_pheap c p)
          then let c1 = discardSessionLocked i c
               in (True, c1\<lparr>cl_peers := (cl_peers c1)(i := None),
                             cl_attemptGates := (cl_attemptGates c1)(i := None)\<rparr>)
          else r)"

definition forgetUnlistedPeersLocked :: "time \<Rightarrow> u32 list \<Rightarrow> p2p_client \<Rightarrow> bool \<times> p2p_client" where
  "forgetUnlistedPeersLocked now order c = fold (forget_peer now) order (False, c)"

text \<open>Marking a peer failed: the four lines the handlers share.\<close>

definition mark_failed :: "time \<Rightarrow> discovered_peer \<Rightarrow> discovered_peer" where
  "mark_failed now d =
     d\<lparr>dp_State := P2PStateFailed, dp_LastUsed := now, dp_PunchAttempts := dp_PunchAttempts d + 1\<rparr>"

definition failPunchSessionIfCurrentLocked ::
    "pref option \<Rightarrow> sref option \<Rightarrow> time \<Rightarrow> u32 list \<Rightarrow> p2p_client \<Rightarrow> bool \<times> p2p_client" where
  "failPunchSessionIfCurrentLocked peer session now order c =
     (case (peer, session) of
        (Some p, Some s) \<Rightarrow>
          if se_Established (cl_sheap c s) \<or> dp_State (cl_pheap c p) = P2PStateEstablished then (False, c)
          else if cl_sessions c (dp_ID (cl_pheap c p)) \<noteq> Some s then (False, c)
          else (True,
            rebuildIndexesLocked order
              (signalDone s
                (forgetSessionLocked (dp_ID (cl_pheap c p)) s
                  (setRetryGateLocked p (upd_peer p (mark_failed now) c)))))
      | _ \<Rightarrow> (False, c))"

end
