(* ===== verification/P2P_Client.thy ===== *)
theory P2P_Client
  imports P2P_State
begin

text \<open>
  The handlers of the P2P client, \<^verbatim>\<open>internal/device/wireguard-go/device/p2p_client.go\<close>: the bounded queues,
  registration, the peer list, attempts, punch relays, punches, promotion of a punched path to a direct
  WireGuard peer, and maintenance. Every critical section of a handler is a function of its own, so that
  the sections of concurrent handlers can interleave; a handler that runs alone is their composition.
  \<open>now\<close> is the time a section reads, \<open>order\<close> the order in which it ranges over the peers, \<open>env\<close> what it
  reads from the device.
\<close>

section \<open>Queues\<close>

definition p2pControlQueueSize :: nat where "p2pControlQueueSize = 256"
definition p2pAttemptQueueSize :: nat where "p2pAttemptQueueSize = 256"
definition p2pPunchQueueSize :: nat where "p2pPunchQueueSize = 128"
definition p2pPromotionQueueSize :: nat where "p2pPromotionQueueSize = 128"

text \<open>
  Go's select picks any ready case: with the context cancelled and room in the queue either may be
  taken. \<open>closing\<close> is that choice; it is ignored while the context is live.
\<close>

definition enqueue_control :: "bool \<Rightarrow> control_event \<Rightarrow> p2p_client \<Rightarrow> bool \<times> p2p_client" where
  "enqueue_control closing e c =
     (if cl_closed c \<and> (closing \<or> p2pControlQueueSize \<le> length (cl_controlQueue c)) then (False, c)
      else if length (cl_controlQueue c) < p2pControlQueueSize
      then (True, c\<lparr>cl_controlQueue := cl_controlQueue c @ [e]\<rparr>)
      else (False, c\<lparr>cl_droppedControl := cl_droppedControl c + 1\<rparr>))"

definition EnqueueMessage :: "bool \<Rightarrow> p2p_message option \<Rightarrow> p2p_client \<Rightarrow> bool \<times> p2p_client" where
  "EnqueueMessage closing msg c =
     (case msg of None \<Rightarrow> (False, c) | Some m \<Rightarrow> enqueue_control closing (ControlMessage m) c)"

definition EnqueuePunch :: "bool \<Rightarrow> bytes \<Rightarrow> udp_addr option \<Rightarrow> p2p_client \<Rightarrow> bool \<times> p2p_client" where
  "EnqueuePunch closing packet addr c =
     (case addr of None \<Rightarrow> (False, c)
      | Some a \<Rightarrow>
        if length packet \<noteq> 41 then (False, c)
        else enqueue_control closing (ControlPunch packet (normalizeUDPAddr a)) c)"

definition queueP2PAttempt :: "bool \<Rightarrow> u32 \<Rightarrow> p2p_client \<Rightarrow> bool \<times> p2p_client" where
  "queueP2PAttempt closing peerID c =
     (if cl_closed c \<and> (closing \<or> p2pAttemptQueueSize \<le> length (cl_attemptQueue c)) then (False, c)
      else if length (cl_attemptQueue c) < p2pAttemptQueueSize
      then (True, c\<lparr>cl_attemptQueue := cl_attemptQueue c @ [peerID]\<rparr>)
      else (False, c\<lparr>cl_droppedAttempts := cl_droppedAttempts c + 1\<rparr>))"

definition enqueuePunchJob :: "bool \<Rightarrow> punch_job \<Rightarrow> p2p_client \<Rightarrow> bool \<times> p2p_client" where
  "enqueuePunchJob closing job c =
     (if cl_closed c \<and> (closing \<or> p2pPunchQueueSize \<le> length (cl_punchQueue c)) then (False, c)
      else if length (cl_punchQueue c) < p2pPunchQueueSize
      then (True, c\<lparr>cl_punchQueue := cl_punchQueue c @ [job]\<rparr>)
      else (False, c))"

definition enqueue_promotion :: "bool \<Rightarrow> promotion_job \<Rightarrow> p2p_client \<Rightarrow> bool \<times> p2p_client" where
  "enqueue_promotion closing job c =
     (if cl_closed c \<and> (closing \<or> p2pPromotionQueueSize \<le> length (cl_promotionQueue c)) then (False, c)
      else if length (cl_promotionQueue c) < p2pPromotionQueueSize
      then (True, c\<lparr>cl_promotionQueue := cl_promotionQueue c @ [job]\<rparr>)
      else (False, c))"

definition NewP2PClient :: "pubkey \<Rightarrow> pubkey list \<Rightarrow> (pref \<Rightarrow> discovered_peer) \<Rightarrow> (sref \<Rightarrow> p2p_session) \<Rightarrow> p2p_client" where
  "NewP2PClient publicKey serverKeys ph sh =
     \<lparr>cl_myID = 0, cl_myPublicKey = publicKey,
      cl_serverPeerKey = (case serverKeys of [] \<Rightarrow> zero_key | k # _ \<Rightarrow> k),
      cl_localAddr = udp_zero, cl_observedAddr = udp_zero, cl_registered = [], cl_extraCandidates = [],
      cl_reregister = False, cl_lastRegister = 0, cl_peers = Map.empty, cl_pheap = ph, cl_pnext = 0,
      cl_sessions = Map.empty, cl_sheap = sh, cl_snext = 0, cl_sessionByNonce = Map.empty,
      cl_peerKeyIndex = Map.empty, cl_attemptGates = Map.empty, cl_gates = (\<lambda>_. 0), cl_gnext = 0,
      cl_destinations = Map.empty, cl_closed = False, cl_controlQueue = [], cl_attemptQueue = [],
      cl_punchQueue = [], cl_promotionQueue = [], cl_droppedControl = 0, cl_droppedAttempts = 0, cl_effects = []\<rparr>"

text \<open>\<^verbatim>\<open>Close\<close> cancels the context and signals every session in the map, in some order.\<close>

definition close_client :: "u32 list \<Rightarrow> p2p_client \<Rightarrow> p2p_client" where
  "close_client order c =
     fold (\<lambda>i c. case cl_sessions c i of None \<Rightarrow> c | Some s \<Rightarrow> signalDone s c) order (c\<lparr>cl_closed := True\<rparr>)"

section \<open>Talking to the coordinator\<close>

definition sendToServer :: "p2p_env \<Rightarrow> p2p_message \<Rightarrow> p2p_client \<Rightarrow> p2p_client" where
  "sendToServer env msg c =
     (case (if key_IsZero (cl_serverPeerKey c) then None else env_LookupPeer env (cl_serverPeerKey c)) of
        Some serverPeer \<Rightarrow> emit (SendControl serverPeer msg) c
      | None \<Rightarrow>
        (case env_anyPeer env of None \<Rightarrow> c
         | Some serverPeer \<Rightarrow>
           emit (SendControl serverPeer msg)
             (if key_IsZero (cl_serverPeerKey c)
              then c\<lparr>cl_serverPeerKey := env_remoteStatic env serverPeer\<rparr> else c)))"

definition isCoordinatorPeer :: "p2p_env \<Rightarrow> wgpeer option \<Rightarrow> p2p_client \<Rightarrow> bool" where
  "isCoordinatorPeer env peer c =
     (case peer of None \<Rightarrow> False
      | Some p \<Rightarrow> \<not> key_IsZero (cl_serverPeerKey c) \<and> cl_serverPeerKey c = env_remoteStatic env p)"

definition SetExtraCandidates :: "udp_addr list \<Rightarrow> p2p_client \<Rightarrow> p2p_client" where
  "SetExtraCandidates addrs c = c\<lparr>cl_extraCandidates := addrs, cl_reregister := True\<rparr>"

definition register :: "p2p_env \<Rightarrow> time \<Rightarrow> p2p_client \<Rightarrow> p2p_client" where
  "register env now c =
     (let candidates = foldl (\<lambda>cs a. appendPunchCandidate cs a []) (env_localCandidates env) (cl_extraCandidates c);
          localAddr = (case candidates of [] \<Rightarrow> \<lparr>addr_IP = IPv4zero, addr_Port = env_port env\<rparr> | a # _ \<Rightarrow> a);
          msg = SetLocalAddr (Some localAddr)
            ((zero_message P2PSubtypeRegister)\<lparr>msg_Payload := EncodeP2PCandidatePayload candidates,
                                                msg_PublicKey := cl_myPublicKey c\<rparr>)
      in sendToServer env msg
           (c\<lparr>cl_localAddr := localAddr, cl_registered := candidates, cl_lastRegister := UnixNano now\<rparr>))"

definition p2pReregisterInterval :: duration where "p2pReregisterInterval = 60 * second"

definition registerDue :: "time \<Rightarrow> p2p_client \<Rightarrow> bool \<times> p2p_client" where
  "registerDue now c =
     (if cl_myID c = 0 then (True, c)
      else if cl_reregister c then (True, c\<lparr>cl_reregister := False\<rparr>)
      else (p2pReregisterInterval \<le> time_Sub now (cl_lastRegister c), c))"

definition requestPeerList :: "p2p_env \<Rightarrow> p2p_client \<Rightarrow> p2p_client" where
  "requestPeerList env c =
     sendToServer env ((zero_message P2PSubtypePeerList)\<lparr>msg_PublicKey := cl_myPublicKey c\<rparr>) c"

definition handleRegisterAck :: "p2p_env \<Rightarrow> p2p_message \<Rightarrow> p2p_client \<Rightarrow> p2p_client" where
  "handleRegisterAck env msg c =
     requestPeerList env
       (c\<lparr>cl_myID := msg_TargetID msg, cl_observedAddr := normalizeUDPAddr (ObservedAddr msg)\<rparr>)"

section \<open>The peer list\<close>

definition p2pMaxPeerListEntries :: nat where "p2pMaxPeerListEntries = 4096"

record list_entry =
  le_peerID :: u32
  le_publicKey :: pubkey
  le_localAddr :: udp_addr
  le_observedAddr :: udp_addr
  le_NATType :: byte
  le_capable :: bool
  le_assignedIP :: ip

definition parse_entry :: "bytes \<Rightarrow> nat \<Rightarrow> list_entry" where
  "parse_entry d off =
     \<lparr>le_peerID = get_be (slice off (off + 4) d),
      le_publicKey = slice (off + 4) (off + 36) d,
      le_localAddr = normalizeUDPAddr \<lparr>addr_IP = slice (off + 36) (off + 52) d,
        addr_Port = int (unat (get_be (slice (off + 52) (off + 54) d) :: u16))\<rparr>,
      le_observedAddr = normalizeUDPAddr \<lparr>addr_IP = slice (off + 54) (off + 70) d,
        addr_Port = int (unat (get_be (slice (off + 70) (off + 72) d) :: u16))\<rparr>,
      le_NATType = d ! (off + 72),
      le_capable = (d ! (off + 73) = 1),
      le_assignedIP = slice (off + 74) (off + 78) d\<rparr>"

text \<open>A recycled ID must not replace an active session: such an entry is skipped.\<close>

definition recycled :: "list_entry \<Rightarrow> p2p_client \<Rightarrow> bool" where
  "recycled e c =
     (case cl_peers c (le_peerID e) of None \<Rightarrow> False
      | Some p \<Rightarrow> \<not> key_IsZero (dp_PublicKey (cl_pheap c p)) \<and> \<not> key_IsZero (le_publicKey e) \<and>
                   dp_PublicKey (cl_pheap c p) \<noteq> le_publicKey e \<and> active (cl_pheap c p))"

text \<open>The peer the entry is for; a failed one whose address moved starts afresh.\<close>

definition entry_peer :: "time \<Rightarrow> list_entry \<Rightarrow> p2p_client \<Rightarrow> bool \<times> pref \<times> p2p_client" where
  "entry_peer now e c =
     (case cl_peers c (le_peerID e) of
        None \<Rightarrow> (False, cl_pnext c, alloc_peer ((new_peer (le_peerID e))\<lparr>dp_LastUsed := now\<rparr>) c)
      | Some p \<Rightarrow>
        if dp_State (cl_pheap c p) = P2PStateFailed \<and>
           udpAddrMoved (dp_ObservedAddr (cl_pheap c p)) (le_observedAddr e)
        then (True, p, store_gate (le_peerID e) 0
               (upd_peer p (\<lambda>d. d\<lparr>dp_State := P2PStateDiscovered, dp_PunchAttempts := 0\<rparr>) c))
        else (False, p, c))"

definition list_peer :: "time \<Rightarrow> list_entry \<Rightarrow> p2p_client \<times> bool \<times> u32 list \<Rightarrow> p2p_client \<times> bool \<times> u32 list" where
  "list_peer now e st =
     (case st of (c, renumbered, retry) \<Rightarrow>
        if recycled e c then st
        else
          let (moved, c1) = renumberPeerLocked (le_publicKey e) (le_peerID e) c;
              (again, p, c2) = entry_peer now e c1;
              c3 = upd_peer p (\<lambda>d. d\<lparr>dp_PublicKey := le_publicKey e, dp_LocalAddr := le_localAddr e,
                     dp_ObservedAddr := le_observedAddr e, dp_NATType := le_NATType e,
                     dp_P2PCapable := le_capable e, dp_AssignedIP := le_assignedIP e, dp_LastSeen := now\<rparr>) c2;
              c4 = (if cl_attemptGates c3 (le_peerID e) = None then new_gate (le_peerID e) c3 else c3);
              c5 = (if key_IsZero (le_publicKey e) then c4
                    else c4\<lparr>cl_peerKeyIndex := (cl_peerKeyIndex c4)(le_publicKey e \<mapsto> le_peerID e)\<rparr>)
          in (c5, renumbered \<or> moved, if again then retry @ [le_peerID e] else retry))"

definition handlePeerList :: "bool \<Rightarrow> p2p_message \<Rightarrow> time \<Rightarrow> u32 list \<Rightarrow> p2p_client \<Rightarrow> p2p_client" where
  "handlePeerList closing msg now order c =
     (let d = msg_Payload msg in
      if length d < 4 then c
      else let count = unat (get_be (slice 0 4 d) :: u32) in
        if p2pMaxPeerListEntries < count \<or> length d < 4 + count * 78 then c
        else case fold (\<lambda>i. list_peer now (parse_entry d (4 + 78 * i))) [0..<count] (c, False, []) of
          (c1, renumbered, retry) \<Rightarrow>
            let c2 = rebuildIndexesLocked order c1;
                c3 = (if renumbered then c2\<lparr>cl_reregister := True\<rparr> else c2)
            in fold (\<lambda>i c. snd (queueP2PAttempt closing i c)) retry c3)"

section \<open>Attempts\<close>

definition p2pAttemptGateInterval :: duration where "p2pAttemptGateInterval = 2 * second"

text \<open>
  The hot path: the lookup and the compare-and-swap of the gate are atomic each; a lost race returns
  without effect and is not modelled as a step.
\<close>

definition ObserveDestination :: "bool \<Rightarrow> bytes \<Rightarrow> time \<Rightarrow> p2p_client \<Rightarrow> p2p_client" where
  "ObserveDestination closing dst now c =
     (if length dst \<noteq> 4 \<and> length dst \<noteq> 16 then c
      else case cl_destinations c dst of None \<Rightarrow> c
      | Some (peerID, g) \<Rightarrow>
        if UnixNano now < cl_gates c g then c
        else
          let c1 = c\<lparr>cl_gates := (cl_gates c)(g := UnixNano (now + p2pAttemptGateInterval))\<rparr>;
              (queued, c2) = queueP2PAttempt closing peerID c1
          in if queued then c2 else c2\<lparr>cl_gates := (cl_gates c2)(g := UnixNano now)\<rparr>)"

definition punch_request :: "p2p_env \<Rightarrow> u32 \<Rightarrow> p2p_client \<Rightarrow> p2p_client" where
  "punch_request env peerID c =
     sendToServer env ((zero_message P2PSubtypePunchRequest)\<lparr>msg_TargetID := peerID, msg_PublicKey := cl_myPublicKey c\<rparr>) c"

definition tryP2PByID :: "p2p_env \<Rightarrow> u32 \<Rightarrow> time \<Rightarrow> u32 list \<Rightarrow> p2p_client \<Rightarrow> bool \<times> p2p_client" where
  "tryP2PByID env peerID now order c =
     (case cl_peers c peerID of None \<Rightarrow> (False, c)
      | Some p \<Rightarrow>
        let d = cl_pheap c p;
            start = (True, punch_request env peerID
              (rebuildIndexesLocked order
                (upd_peer p (\<lambda>d. d\<lparr>dp_State := P2PStateTrying, dp_LastUsed := now\<rparr>) c)))
        in if \<not> dp_P2PCapable d \<or> key_IsZero (dp_PublicKey d) \<or> length (To4 (dp_AssignedIP d)) \<noteq> 4 \<or>
              dp_PublicKey d = cl_serverPeerKey c
           then (False, c)
           else (case dp_State d of
               P2PStateEstablished \<Rightarrow> (True, c)
             | P2PStateTrying \<Rightarrow> (True, c)
             | P2PStateFailed \<Rightarrow>
               let retryAt = dp_LastUsed d + p2pRetryDelay (dp_PunchAttempts d) in
               if now < retryAt then (False, store_gate (dp_ID d) (UnixNano retryAt) c) else start
             | P2PStateDiscovered \<Rightarrow> start))"

section \<open>Routes and configuration\<close>

record direct_teardown =
  td_publicKey :: pubkey
  td_assignedIP :: ip
  td_relayPeer :: "wgpeer option"

definition relayPeerForIP :: "p2p_env \<Rightarrow> ip \<Rightarrow> p2p_client \<Rightarrow> wgpeer option" where
  "relayPeerForIP env ip c =
     (case (if key_IsZero (cl_serverPeerKey c) then None else env_LookupPeer env (cl_serverPeerKey c)) of
        Some serverPeer \<Rightarrow> Some serverPeer
      | None \<Rightarrow> if To4 ip \<noteq> [] then env_allowedips env (To4 ip) else None)"

definition restoreRelayRoute :: "p2p_env \<Rightarrow> ip \<Rightarrow> wgpeer option \<Rightarrow> p2p_client \<Rightarrow> p2p_client" where
  "restoreRelayRoute env ip relayPeer c =
     (case relayPeer of None \<Rightarrow> c
      | Some r \<Rightarrow>
        if To4 ip = [] \<or> ip_Equal ip IPv4zero then c
        else if env_LookupPeer env (env_remoteStatic env r) \<noteq> Some r then c
        else emit (IpcAllowedIP (env_remoteStatic env r) (To4 ip)) c)"

definition teardownDirect :: "p2p_env \<Rightarrow> direct_teardown \<Rightarrow> p2p_client \<Rightarrow> p2p_client" where
  "teardownDirect env t c =
     (if key_IsZero (td_publicKey t) then c
      else let c1 = emit (RemovePeer (td_publicKey t)) c;
               relayPeer = (case td_relayPeer t of Some r \<Rightarrow> Some r | None \<Rightarrow> relayPeerForIP env (td_assignedIP t) c1)
           in restoreRelayRoute env (td_assignedIP t) relayPeer c1)"

definition selfNATLocked :: "p2p_client \<Rightarrow> natClass" where
  "selfNATLocked c = classifyNAT (cl_observedAddr c) (cl_localAddr c) (cl_registered c)"

definition parsePunchTargets :: "p2p_env \<Rightarrow> udp_addr list \<Rightarrow> udp_addr list" where
  "parsePunchTargets env targets = List.map_filter (env_ParseEndpoint env) targets"

section \<open>Punch packets\<close>

definition MessageP2PType :: u32 where "MessageP2PType = 6"

definition makePunchPacket :: "p2p_env \<Rightarrow> p2p_session \<Rightarrow> bytes" where
  "makePunchPacket env s =
     (if key_IsZero (se_TargetPubKey s) then []
      else case env_sharedSecret env (se_TargetPubKey s) of None \<Rightarrow> []
      | Some ss \<Rightarrow>
        copy_into (replicate 41 0) ([P2PSubtypePunchPacket] @ se_Nonce s @ env_mac env ss (se_Nonce s)))"

definition makeOuterPunchPacket :: "p2p_env \<Rightarrow> p2p_session \<Rightarrow> bytes" where
  "makeOuterPunchPacket env s =
     (let raw = makePunchPacket env s in if raw = [] then [] else put_le 4 MessageP2PType @ raw)"

definition verifyPunchMAC :: "p2p_env \<Rightarrow> bytes \<Rightarrow> pubkey \<Rightarrow> bool" where
  "verifyPunchMAC env packet targetPubKey =
     (if length packet \<noteq> 41 \<or> packet ! 0 \<noteq> P2PSubtypePunchPacket then False
      else case env_sharedSecret env targetPubKey of None \<Rightarrow> False
      | Some ss \<Rightarrow> env_mac env ss (slice 1 9 packet) = drop 9 packet)"

definition verifyPunchPacket :: "p2p_env \<Rightarrow> bytes \<Rightarrow> p2p_session \<Rightarrow> bool" where
  "verifyPunchPacket env packet s =
     (if length packet \<noteq> 41 \<or> packet ! 0 \<noteq> P2PSubtypePunchPacket then False
      else if \<not> acceptsNonce s (slice 1 9 packet) then False
      else verifyPunchMAC env packet (se_TargetPubKey s))"

section \<open>Punch relays\<close>

definition p2pNonceGrace :: duration where "p2pNonceGrace = 2 * second"
definition p2pEstablishedRelayGrace :: duration where "p2pEstablishedRelayGrace = 5 * second"

text \<open>The peer the relay is for, moved to the relayed ID or created.\<close>

definition relay_peer :: "p2p_message \<Rightarrow> time \<Rightarrow> p2p_client \<Rightarrow> pref \<times> p2p_client" where
  "relay_peer msg now c =
     (let i = msg_TargetID msg; key = msg_PublicKey msg;
          existing = cl_peers c i;
          c1 = (if \<not> key_IsZero key \<and>
                   (case existing of None \<Rightarrow> True
                    | Some p \<Rightarrow> key_IsZero (dp_PublicKey (cl_pheap c p)) \<or> dp_PublicKey (cl_pheap c p) = key)
                then snd (renumberPeerLocked key i c) else c);
          c2 = (if cl_peers c1 i = None then alloc_peer ((new_peer i)\<lparr>dp_P2PCapable := True\<rparr>) c1 else c1);
          p = the (cl_peers c2 i)
      in (p, upd_peer p (\<lambda>d. d\<lparr>dp_LastSeen := now\<rparr>) c2))"

definition relay_failed :: "pref \<Rightarrow> time \<Rightarrow> u32 list \<Rightarrow> p2p_client \<Rightarrow> p2p_client" where
  "relay_failed p now order c =
     rebuildIndexesLocked order (setRetryGateLocked p (upd_peer p (mark_failed now) c))"

text \<open>A second relay for the same pair joins the young session: its nonce is accepted as well.\<close>

definition joins :: "p2p_message \<Rightarrow> time \<Rightarrow> pubkey \<Rightarrow> p2p_client \<Rightarrow> sref option" where
  "joins msg now key c =
     (case cl_sessions c (msg_TargetID msg) of None \<Rightarrow> None
      | Some s \<Rightarrow>
        if time_Sub now (se_createdAt (cl_sheap c s)) < p2pNonceGrace \<and> se_TargetPubKey (cl_sheap c s) = key
        then Some s else None)"

definition join_session :: "nonce \<Rightarrow> sref \<Rightarrow> p2p_client \<Rightarrow> p2p_client" where
  "join_session n s c =
     (let x = cl_sheap c s in
      if se_Nonce x \<noteq> n \<and> \<not> (se_hasAltNonce x \<and> se_altNonce x = n)
      then let c1 = (if se_hasAltNonce x
                     then c\<lparr>cl_sessionByNonce := (cl_sessionByNonce c)(se_altNonce x := None)\<rparr> else c);
               c2 = upd_session s (\<lambda>x. x\<lparr>se_altNonce := n, se_hasAltNonce := True\<rparr>) c1
           in c2\<lparr>cl_sessionByNonce := (cl_sessionByNonce c2)(n \<mapsto> s)\<rparr>
      else c)"

definition relay_session :: "p2p_message \<Rightarrow> time \<Rightarrow> discovered_peer \<Rightarrow> p2p_session" where
  "relay_session msg now d =
     \<lparr>se_TargetID = msg_TargetID msg, se_TargetPubKey = dp_PublicKey d, se_LocalAddr = dp_LocalAddr d,
      se_ObservedAddr = dp_ObservedAddr d, se_CandidateAddrs = dp_CandidateAddrs d,
      se_AssignedIP = dp_AssignedIP d, se_Nonce = msg_Nonce msg, se_Established = False,
      se_Promoting = False, se_done = False, se_altNonce = replicate 8 0, se_hasAltNonce = False,
      se_createdAt = now, se_promotedAt = time_zero, se_lastReply = time_zero\<rparr>"

definition relay_update :: "p2p_message \<Rightarrow> time \<Rightarrow> discovered_peer \<Rightarrow> discovered_peer" where
  "relay_update msg now d =
     (let assigned = take 4 (msg_Payload msg);
          ip = (if 4 \<le> length (msg_Payload msg) \<and> \<not> ip_Equal assigned IPv4zero then assigned else dp_AssignedIP d)
      in d\<lparr>dp_AssignedIP := ip, dp_LocalAddr := normalizeUDPAddr (LocalAddr msg),
           dp_ObservedAddr := normalizeUDPAddr (ObservedAddr msg),
           dp_CandidateAddrs := sanitizePunchTargets (DecodeP2PCandidatePayload (msg_Payload msg) 4) ip,
           dp_LastUsed := now, dp_State := P2PStateTrying\<rparr>)"

definition start_session :: "p2p_message \<Rightarrow> time \<Rightarrow> pref \<Rightarrow> u32 list \<Rightarrow> p2p_client \<Rightarrow> sref \<times> p2p_client" where
  "start_session msg now p order c =
     (let i = msg_TargetID msg;
          c1 = upd_peer p (relay_update msg now) c;
          x = relay_session msg now (cl_pheap c1 p);
          c2 = discardSessionLocked i c1;
          s = cl_snext c2;
          c3 = c2\<lparr>cl_sheap := (cl_sheap c2)(s := x), cl_snext := Suc s,
                  cl_sessions := (cl_sessions c2)(i \<mapsto> s),
                  cl_sessionByNonce := (cl_sessionByNonce c2)(se_Nonce x \<mapsto> s),
                  cl_peerKeyIndex := (cl_peerKeyIndex c2)(se_TargetPubKey x \<mapsto> i)\<rparr>
      in (s, rebuildIndexesLocked order c3))"

datatype relay_result =
    RelayIgnored | RelayFailed | RelayJoined
  | RelayStarted pref sref "direct_teardown option" natClass int

text \<open>The first critical section of \<^verbatim>\<open>handlePunchRelay\<close>.\<close>

definition relay_commit :: "p2p_message \<Rightarrow> time \<Rightarrow> u32 list \<Rightarrow> p2p_client \<Rightarrow> relay_result \<times> p2p_client" where
  "relay_commit msg now order c0 =
     (let key = msg_PublicKey msg; (p, c) = relay_peer msg now c0; d = cl_pheap c p;
          est = (dp_State d = P2PStateEstablished)
      in if est \<and> (time_Sub now (dp_EstablishedAt d) < p2pEstablishedRelayGrace \<or>
                    (\<not> key_IsZero key \<and> dp_PublicKey d \<noteq> key))
         then (RelayIgnored, c)
         else
           let teardown = (if est then Some \<lparr>td_publicKey = dp_PublicKey d, td_assignedIP = dp_AssignedIP d,
                                              td_relayPeer = dp_RelayPeer d\<rparr> else None);
               c1 = (if est then upd_peer p (\<lambda>d. d\<lparr>dp_Endpoint := None, dp_RelayPeer := None,
                                                     dp_State := P2PStateTrying\<rparr>) c else c)
           in if \<not> key_IsZero key \<and> \<not> key_IsZero (dp_PublicKey d) \<and> dp_PublicKey d \<noteq> key
              then (RelayFailed, relay_failed p now order c1)
              else
                let c2 = (if \<not> key_IsZero key \<and> key_IsZero (dp_PublicKey d)
                          then upd_peer p (\<lambda>d. d\<lparr>dp_PublicKey := key\<rparr>) c1 else c1);
                    k = dp_PublicKey (cl_pheap c2 p)
                in if key_IsZero k \<or> (\<not> key_IsZero (cl_serverPeerKey c2) \<and> k = cl_serverPeerKey c2)
                   then (RelayFailed, relay_failed p now order c2)
                   else (case (if teardown = None then joins msg now k c2 else None) of
                       Some s \<Rightarrow>
                         (RelayJoined, upd_peer p (\<lambda>d. d\<lparr>dp_LastUsed := now\<rparr>) (join_session (msg_Nonce msg) s c2))
                     | None \<Rightarrow>
                       let (s, c3) = start_session msg now p order c2
                       in (RelayStarted p s teardown (selfNATLocked c3) (dp_PunchAttempts (cl_pheap c3 p)), c3)))"

definition relay_job :: "p2p_env \<Rightarrow> p2p_message \<Rightarrow> sref \<Rightarrow> p2p_session \<Rightarrow> natClass \<Rightarrow> int \<Rightarrow> punch_job" where
  "relay_job env msg s x self attempts =
     (let plan = planPunch x self attempts
      in \<lparr>pj_peerID = msg_TargetID msg, pj_session = s, pj_packet = makeOuterPunchPacket env x,
          pj_targets = parsePunchTargets env (pl_targets plan), pj_spray = parsePunchTargets env (pl_spray plan),
          pj_sweeps = pl_sweeps plan\<rparr>)"

text \<open>
  The rest of the handler, when nothing runs in between: teardown, planning and queueing of the job; a
  job that cannot be scheduled fails the session. \<open>now2\<close> and \<open>order2\<close> belong to that last section.
\<close>

definition handlePunchRelay ::
    "p2p_env \<Rightarrow> bool \<Rightarrow> p2p_message \<Rightarrow> time \<Rightarrow> u32 list \<Rightarrow> time \<Rightarrow> u32 list \<Rightarrow> p2p_client \<Rightarrow> p2p_client" where
  "handlePunchRelay env closing msg now order now2 order2 c =
     (case relay_commit msg now order c of
        (RelayStarted p s teardown self attempts, c1) \<Rightarrow>
          let c2 = (case teardown of None \<Rightarrow> c1 | Some t \<Rightarrow> teardownDirect env t c1);
              job = relay_job env msg s (cl_sheap c1 s) self attempts;
              (ok, c3) = (if pj_packet job = [] \<or> pj_targets job = [] then (False, c2)
                          else enqueuePunchJob closing job c2)
          in if ok then c3 else snd (failPunchSessionIfCurrentLocked (Some p) (Some s) now2 order2 c3)
      | (_, c1) \<Rightarrow> c1)"

section \<open>Promotion\<close>

definition p2pPunchReplyInterval :: duration where "p2pPunchReplyInterval = 100 * millisecond"
definition p2pResponderFallback :: duration where "p2pResponderFallback = 3 * second"
definition p2pHandshakeTimeout :: duration where "p2pHandshakeTimeout = 20 * second"
definition p2pPunchTimeout :: duration where "p2pPunchTimeout = 18 * second"

fun bytes_less :: "bytes \<Rightarrow> bytes \<Rightarrow> bool" where
  "bytes_less _ [] = False"
| "bytes_less [] (_ # _) = True"
| "bytes_less (x # xs) (y # ys) = (x < y \<or> (x = y \<and> bytes_less xs ys))"

definition initiatesHandshake :: "pubkey \<Rightarrow> p2p_client \<Rightarrow> bool" where
  "initiatesHandshake remote c = bytes_less (cl_myPublicKey c) remote"

definition prepareDirectPeer :: "p2p_env \<Rightarrow> pubkey \<Rightarrow> ip \<Rightarrow> udp_addr \<Rightarrow> p2p_client \<Rightarrow> bool \<times> p2p_client" where
  "prepareDirectPeer env pubKey assignedIP endpoint c =
     (if key_IsZero pubKey \<or> To4 assignedIP = [] \<or> ip_Equal assignedIP IPv4zero then (False, c)
      else if \<not> key_IsZero (cl_serverPeerKey c) \<and> pubKey = cl_serverPeerKey c then (False, c)
      else
        let initiate = initiatesHandshake pubKey c; conf = IpcPrepare pubKey endpoint initiate;
            c1 = emit conf c
        in if \<not> env_IpcSet env conf then (False, c1)
           else (True, case env_LookupPeer env pubKey of None \<Rightarrow> c1
                 | Some w \<Rightarrow> let c2 = emit (EnableRoaming w) c1
                              in if initiate then emit (SendKeepalive w) c2 else c2))"

definition activateDirectPeer :: "p2p_env \<Rightarrow> pubkey \<Rightarrow> ip \<Rightarrow> p2p_client \<Rightarrow> bool \<times> p2p_client" where
  "activateDirectPeer env pubKey assignedIP c =
     (if To4 assignedIP = [] \<or> ip_Equal assignedIP IPv4zero then (False, c)
      else
        let conf = IpcActivate pubKey (To4 assignedIP); c1 = emit conf c
        in if \<not> env_IpcSet env conf then (False, c1)
           else (True, if env_routeHandler env then emit (AddPeerRoute (To4 assignedIP)) c1 else c1))"

definition startDirectKeepalive :: "pubkey \<Rightarrow> p2p_client \<Rightarrow> p2p_client" where
  "startDirectKeepalive pubKey = emit (IpcKeepalive pubKey)"

definition peer_established :: "u32 \<Rightarrow> p2p_client \<Rightarrow> bool" where
  "peer_established i c =
     (case cl_peers c i of None \<Rightarrow> False | Some p \<Rightarrow> dp_State (cl_pheap c p) = P2PStateEstablished)"

definition dropOrphanCandidate :: "p2p_env \<Rightarrow> promotion_job \<Rightarrow> p2p_client \<Rightarrow> p2p_client" where
  "dropOrphanCandidate env job c =
     (if key_IsZero (jb_publicKey job) then c
      else
        let owned0 = (cl_sessions c (jb_peerID job) \<noteq> None \<or> peer_established (jb_peerID job) c);
            owned = (owned0 \<or>
              (case cl_peerKeyIndex c (jb_publicKey job) of None \<Rightarrow> False
               | Some i \<Rightarrow> i \<noteq> jb_peerID job \<and> (cl_sessions c i \<noteq> None \<or> peer_established i c)))
        in if owned then c
           else restoreRelayRoute env (jb_assignedIP job) (jb_relayPeer job) (emit (RemovePeer (jb_publicKey job)) c))"

text \<open>The critical section of \<^verbatim>\<open>failDirectPromotion\<close>, and the whole function.\<close>

definition fail_promotion_commit :: "promotion_job \<Rightarrow> time \<Rightarrow> u32 list \<Rightarrow> p2p_client \<Rightarrow> bool \<times> p2p_client" where
  "fail_promotion_commit job now order c =
     (case cl_peers c (jb_peerID job) of None \<Rightarrow> (False, c)
      | Some p \<Rightarrow>
        if cl_sessions c (jb_peerID job) = Some (jb_session job) \<and> dp_State (cl_pheap c p) \<noteq> P2PStateEstablished
        then (True, rebuildIndexesLocked order
               (forgetSessionLocked (jb_peerID job) (jb_session job)
                 (setRetryGateLocked p (upd_peer p (mark_failed now) c))))
        else (False, c))"

definition failDirectPromotion :: "p2p_env \<Rightarrow> promotion_job \<Rightarrow> time \<Rightarrow> u32 list \<Rightarrow> p2p_client \<Rightarrow> p2p_client" where
  "failDirectPromotion env job now order c =
     (let (removeCandidate, c1) = fail_promotion_commit job now order c;
          c2 = signalDone (jb_session job) c1
      in if removeCandidate \<and> \<not> key_IsZero (jb_publicKey job)
         then restoreRelayRoute env (jb_assignedIP job) (jb_relayPeer job) (emit (RemovePeer (jb_publicKey job)) c2)
         else dropOrphanCandidate env job c2)"

section \<open>Punches\<close>

text \<open>The read section of \<^verbatim>\<open>HandlePunch\<close>: the current session that accepts the nonce.\<close>

definition punch_lookup :: "bytes \<Rightarrow> p2p_client \<Rightarrow> (sref \<times> pubkey) option" where
  "punch_lookup packet c =
     (case cl_sessionByNonce c (slice 1 9 packet) of None \<Rightarrow> None
      | Some s \<Rightarrow>
        let x = cl_sheap c s in
        if cl_sessions c (se_TargetID x) = Some s \<and> acceptsNonce x (slice 1 9 packet) \<and>
           cl_peers c (se_TargetID x) \<noteq> None
        then Some (s, se_TargetPubKey x) else None)"

text \<open>The write section: whether to reply, and the promotion to start, if any.\<close>

definition punch_commit ::
    "sref \<Rightarrow> udp_addr \<Rightarrow> time \<Rightarrow> p2p_client \<Rightarrow> (bool \<times> promotion_job option) option \<times> p2p_client" where
  "punch_commit s endpoint now c =
     (let x = cl_sheap c s in
      case cl_peers c (se_TargetID x) of None \<Rightarrow> (None, c)
      | Some p \<Rightarrow>
        if cl_sessions c (se_TargetID x) \<noteq> Some s \<or> dp_State (cl_pheap c p) = P2PStateEstablished then (None, c)
        else
          let c1 = upd_peer p (\<lambda>d. d\<lparr>dp_LastUsed := now\<rparr>) c;
              reply = (p2pPunchReplyInterval \<le> time_Sub now (se_lastReply x));
              c2 = (if reply then upd_session s (\<lambda>x. x\<lparr>se_lastReply := now\<rparr>) c1 else c1);
              d = cl_pheap c2 p
          in if se_Promoting x then (Some (reply, None), c2)
             else (Some (reply, Some \<lparr>jb_peerID = dp_ID d, jb_session = s, jb_publicKey = dp_PublicKey d,
                      jb_assignedIP = dp_AssignedIP d, jb_endpoint = endpoint, jb_relayPeer = None, jb_startedAt = now\<rparr>),
                   upd_session s (\<lambda>x. x\<lparr>se_Established := True, se_Promoting := True, se_promotedAt := now\<rparr>) c2))"

definition HandlePunch ::
    "p2p_env \<Rightarrow> bool \<Rightarrow> bytes \<Rightarrow> udp_addr option \<Rightarrow> time \<Rightarrow> time \<Rightarrow> u32 list \<Rightarrow> p2p_client \<Rightarrow> p2p_client" where
  "HandlePunch env closing packet addr now now2 order2 c =
     (case addr of None \<Rightarrow> c
      | Some a \<Rightarrow>
        if length packet \<noteq> 41 \<or> packet ! 0 \<noteq> P2PSubtypePunchPacket then c
        else case punch_lookup packet c of None \<Rightarrow> c
        | Some (s, targetPubKey) \<Rightarrow>
          if \<not> verifyPunchMAC env packet targetPubKey then c
          else case env_ParseEndpoint env a of None \<Rightarrow> c
          | Some endpoint \<Rightarrow>
            (case punch_commit s endpoint now c of
               (None, c1) \<Rightarrow> c1
             | (Some (reply, promotion), c1) \<Rightarrow>
               let c2 = (if reply then emit (SendDatagram (put_le 4 MessageP2PType @ packet) endpoint) c1 else c1)
               in case promotion of None \<Rightarrow> c2
                  | Some job0 \<Rightarrow>
                    let job = job0\<lparr>jb_relayPeer := relayPeerForIP env (jb_assignedIP job0) c2\<rparr>;
                        (ok, c3) = prepareDirectPeer env (jb_publicKey job) (jb_assignedIP job) endpoint c2
                    in if \<not> ok then failDirectPromotion env job now2 order2 c3
                       else let (queued, c4) = enqueue_promotion closing job c3
                            in if queued then c4 else failDirectPromotion env job now2 order2 c4))"

text \<open>
  One tick of the loop of \<^verbatim>\<open>validateAndPromote\<close>. \<open>initiate\<close> is its local flag; \<open>now\<close> and \<open>order\<close> belong
  to the section that commits, \<open>tick\<close> is the time read for the fallback.
\<close>

datatype promotion_tick = PromotionWaiting bool | PromotionEnded

definition promotion_current :: "promotion_job \<Rightarrow> p2p_client \<Rightarrow> bool" where
  "promotion_current job c =
     (case cl_peers c (jb_peerID job) of None \<Rightarrow> False
      | Some p \<Rightarrow> dp_State (cl_pheap c p) = P2PStateTrying \<and> cl_sessions c (jb_peerID job) = Some (jb_session job))"

definition promotion_commit :: "promotion_job \<Rightarrow> time \<Rightarrow> u32 list \<Rightarrow> p2p_client \<Rightarrow> bool \<times> p2p_client" where
  "promotion_commit job now order c =
     (if promotion_current job c
      then (True, rebuildIndexesLocked order
             (forgetSessionLocked (jb_peerID job) (jb_session job)
               (upd_peer (the (cl_peers c (jb_peerID job)))
                 (\<lambda>d. d\<lparr>dp_State := P2PStateEstablished, dp_Endpoint := Some (jb_endpoint job),
                        dp_RelayPeer := jb_relayPeer job, dp_EstablishedAt := now, dp_LastUsed := now,
                        dp_PunchAttempts := 0\<rparr>) c)))
      else (False, c))"

definition promotion_finish :: "p2p_env \<Rightarrow> promotion_job \<Rightarrow> time \<Rightarrow> u32 list \<Rightarrow> p2p_client \<Rightarrow> p2p_client" where
  "promotion_finish env job now order c =
     (let (committed, c1) = promotion_commit job now order c;
          c2 = signalDone (jb_session job) c1
      in if committed then c2
         else restoreRelayRoute env (jb_assignedIP job) (jb_relayPeer job) (emit (RemovePeer (jb_publicKey job)) c2))"

definition validate_tick ::
    "p2p_env \<Rightarrow> promotion_job \<Rightarrow> bool \<Rightarrow> time \<Rightarrow> time \<Rightarrow> u32 list \<Rightarrow> p2p_client \<Rightarrow> promotion_tick \<times> p2p_client" where
  "validate_tick env job initiate tick now order c =
     (case env_LookupPeer env (jb_publicKey job) of
        None \<Rightarrow> (PromotionWaiting initiate, c)
      | Some w \<Rightarrow>
        if env_lastHandshakeNano env w < UnixNano (jb_startedAt job)
        then (if \<not> initiate \<and> jb_startedAt job + p2pResponderFallback < tick
              then (PromotionWaiting True, startDirectKeepalive (jb_publicKey job) c)
              else (PromotionWaiting initiate, c))
        else if \<not> promotion_current job c then (PromotionEnded, dropOrphanCandidate env job c)
        else
          let (ok, c1) = activateDirectPeer env (jb_publicKey job) (jb_assignedIP job) c
          in if \<not> ok then (PromotionEnded, failDirectPromotion env job now order c1)
             else (PromotionEnded, promotion_finish env job now order c1))"

section \<open>The punch loop\<close>

text \<open>
  What a round of \<^verbatim>\<open>holePunch\<close> does when the deadline has passed: a session being promoted extends the
  deadline, any other session fails. The result says whether the loop goes on and with which deadline.
\<close>

definition punch_deadline ::
    "punch_job \<Rightarrow> time \<Rightarrow> time \<Rightarrow> u32 list \<Rightarrow> p2p_client \<Rightarrow> time option \<times> p2p_client" where
  "punch_deadline job deadline now order c =
     (if now \<le> deadline then (Some deadline, c)
      else let x = cl_sheap c (pj_session job) in
        if se_Promoting x
        then let extended = se_promotedAt x + (p2pHandshakeTimeout + second)
             in (if extended < now then None else Some extended, c)
        else (None, snd (failPunchSessionIfCurrentLocked (cl_peers c (pj_peerID job)) (Some (pj_session job)) now order c)))"

definition punch_round ::
    "punch_job \<Rightarrow> time \<Rightarrow> time \<Rightarrow> u32 list \<Rightarrow> punch_spray \<times> bool \<Rightarrow> p2p_client \<Rightarrow>
       time option \<times> (punch_spray \<times> bool) \<times> p2p_client" where
  "punch_round job deadline now order spray c =
     (if cl_closed c \<or> se_done (cl_sheap c (pj_session job)) then (None, spray_release spray, c)
      else case punch_deadline job deadline now order c of
          (None, c1) \<Rightarrow> (None, spray_release spray, c1)
        | (Some d, c1) \<Rightarrow>
          let c2 = fold (\<lambda>t. emit (SendDatagram (pj_packet job) t)) (pj_targets job) c1
          in if pj_spray job = [] then (Some d, spray, c2)
             else case spray_step now (se_Promoting (cl_sheap c2 (pj_session job))) spray of
               ((lo, hi), spray1) \<Rightarrow>
                 (Some d, spray1, fold (\<lambda>t. emit (SendDatagram (pj_packet job) t)) (slice lo hi (pj_spray job)) c2))"

section \<open>Maintenance\<close>

definition p2pStalledAttemptTTL :: duration where "p2pStalledAttemptTTL = 30 * second"
definition p2pDirectStaleAfter :: duration where "p2pDirectStaleAfter = 4 * minute"
definition p2pDirectKeepalive :: duration where "p2pDirectKeepalive = 12 * second"

definition directKeepaliveDue :: "u64 \<Rightarrow> time \<Rightarrow> discovered_peer \<Rightarrow> bool \<times> discovered_peer" where
  "directKeepaliveDue txBytes now d =
     (if txBytes \<noteq> dp_lastTxBytes d \<or> IsZero (dp_lastTxAt d)
      then (False, d\<lparr>dp_lastTxBytes := txBytes, dp_lastTxAt := now\<rparr>)
      else if time_Sub now (dp_lastTxAt d) < p2pDirectKeepalive then (False, d)
      else (True, d\<lparr>dp_lastTxAt := now\<rparr>))"

record maintenance =
  mt_client :: p2p_client
  mt_remove :: "direct_teardown list"
  mt_keepalive :: "wgpeer list"
  mt_changed :: bool

definition maintain_peer :: "p2p_env \<Rightarrow> time \<Rightarrow> u32 \<Rightarrow> maintenance \<Rightarrow> maintenance" where
  "maintain_peer env now i m =
     (let c = mt_client m in
      case cl_peers c i of None \<Rightarrow> m
      | Some p \<Rightarrow>
        let d = cl_pheap c p in
        (case dp_State d of
           P2PStateTrying \<Rightarrow>
             if p2pStalledAttemptTTL < time_Sub now (dp_LastUsed d)
             then m\<lparr>mt_client := discardSessionLocked i (setRetryGateLocked p (upd_peer p (mark_failed now) c)),
                    mt_changed := True\<rparr>
             else m
         | P2PStateEstablished \<Rightarrow>
             let wg = env_LookupPeer env (dp_PublicKey d);
                 lastHandshake = (case wg of None \<Rightarrow> 0 | Some w \<Rightarrow> env_lastHandshakeNano env w);
                 (due, d1) = (case wg of None \<Rightarrow> (False, d) | Some w \<Rightarrow> directKeepaliveDue (env_txBytes env w) now d);
                 c1 = upd_peer p (\<lambda>_. d1) c;
                 m1 = m\<lparr>mt_client := c1, mt_keepalive := mt_keepalive m @ (if due then [the wg] else [])\<rparr>
             in if lastHandshake = 0 \<or> p2pDirectStaleAfter < time_Sub now lastHandshake
                then m1\<lparr>mt_client := setRetryGateLocked p
                          (upd_peer p (\<lambda>d. (mark_failed now d)\<lparr>dp_Endpoint := None\<rparr>) c1),
                        mt_remove := mt_remove m @ [\<lparr>td_publicKey = dp_PublicKey d, td_assignedIP = dp_AssignedIP d,
                                                      td_relayPeer = dp_RelayPeer d\<rparr>],
                        mt_changed := True\<rparr>
                else m1
         | _ \<Rightarrow> m))"

text \<open>The critical section of a tick, and the whole tick of \<^verbatim>\<open>maintenanceLoop\<close>.\<close>

definition maintenance_commit ::
    "p2p_env \<Rightarrow> time \<Rightarrow> u32 list \<Rightarrow> u32 list \<Rightarrow> u32 list \<Rightarrow> p2p_client \<Rightarrow> maintenance" where
  "maintenance_commit env now order order2 order3 c =
     (let (changed, c1) = forgetUnlistedPeersLocked now order c;
          m = fold (maintain_peer env now) order2
                \<lparr>mt_client = c1, mt_remove = [], mt_keepalive = [], mt_changed = changed\<rparr>
      in if mt_changed m then m\<lparr>mt_client := rebuildIndexesLocked order3 (mt_client m)\<rparr> else m)"

definition maintenance_tick ::
    "p2p_env \<Rightarrow> time \<Rightarrow> time \<Rightarrow> u32 list \<Rightarrow> u32 list \<Rightarrow> u32 list \<Rightarrow> p2p_client \<Rightarrow> p2p_client" where
  "maintenance_tick env t now order order2 order3 c =
     (let (due, c1) = registerDue t c;
          c2 = (if due then register env t c1 else c1)
      in if cl_myID c = 0 then c2
         else
           let m = maintenance_commit env now order order2 order3 (requestPeerList env c2);
               c3 = fold (teardownDirect env) (mt_remove m) (mt_client m);
               c4 = fold (\<lambda>w. emit (SendKeepalive w)) (mt_keepalive m) c3
           in c4\<lparr>cl_droppedControl := 0, cl_droppedAttempts := 0\<rparr>)"

section \<open>Reading the state\<close>

definition GetEndpoint :: "u32 \<Rightarrow> p2p_client \<Rightarrow> udp_addr option" where
  "GetEndpoint peerID c =
     (case cl_peers c peerID of None \<Rightarrow> None
      | Some p \<Rightarrow> if dp_State (cl_pheap c p) = P2PStateEstablished then dp_Endpoint (cl_pheap c p) else None)"

definition GetEndpointForPeer :: "pubkey \<Rightarrow> p2p_client \<Rightarrow> udp_addr option" where
  "GetEndpointForPeer pk c =
     (case cl_peerKeyIndex c pk of None \<Rightarrow> None | Some i \<Rightarrow> GetEndpoint i c)"

end
