(* ===== verification/P2P_Invariant.thy ===== *)
theory P2P_Invariant
  imports P2P_Client
begin

text \<open>
  What holds of the P2P client in every interleaving of its workers: peers carry the ID they are filed
  under, a session is filed under its target and never beside an established path, the nonce index only
  knows current sessions, the key index only knows listed peers, the queues are bounded, and only a
  current promotion establishes a path.
\<close>

section \<open>The invariant\<close>

definition core_inv :: "p2p_client \<Rightarrow> bool" where
  "core_inv c \<longleftrightarrow>
     (\<forall>i p. cl_peers c i = Some p \<longrightarrow> dp_ID (cl_pheap c p) = i \<and> p < cl_pnext c) \<and>
     (\<forall>i s. cl_sessions c i = Some s \<longrightarrow>
        se_TargetID (cl_sheap c s) = i \<and> s < cl_snext c \<and>
        (\<exists>p. cl_peers c i = Some p \<and> dp_State (cl_pheap c p) \<noteq> P2PStateEstablished)) \<and>
     (\<forall>n s. cl_sessionByNonce c n = Some s \<longrightarrow>
        acceptsNonce (cl_sheap c s) n \<and> cl_sessions c (se_TargetID (cl_sheap c s)) = Some s)"

definition key_inv :: "p2p_client \<Rightarrow> bool" where
  "key_inv c \<longleftrightarrow>
     (\<forall>k i. cl_peerKeyIndex c k = Some i \<longrightarrow>
        \<not> key_IsZero k \<and> (\<exists>p. cl_peers c i = Some p \<and> dp_PublicKey (cl_pheap c p) = k))"

definition queue_inv :: "p2p_client \<Rightarrow> bool" where
  "queue_inv c \<longleftrightarrow>
     length (cl_controlQueue c) \<le> p2pControlQueueSize \<and> length (cl_attemptQueue c) \<le> p2pAttemptQueueSize \<and>
     length (cl_punchQueue c) \<le> p2pPunchQueueSize \<and> length (cl_promotionQueue c) \<le> p2pPromotionQueueSize"

text \<open>The parts of the state the three invariants read.\<close>

definition core_of where
  "core_of c = (cl_peers c, cl_pheap c, cl_pnext c, cl_sessions c, cl_sheap c, cl_snext c, cl_sessionByNonce c)"

definition queues_of where
  "queues_of c = (cl_controlQueue c, cl_attemptQueue c, cl_punchQueue c, cl_promotionQueue c)"

lemma core_cong: "core_of c = core_of d \<Longrightarrow> core_inv c = core_inv d"
  by (simp add: core_of_def core_inv_def)

lemma key_cong: "\<lbrakk>core_of c = core_of d; cl_peerKeyIndex c = cl_peerKeyIndex d\<rbrakk> \<Longrightarrow> key_inv c = key_inv d"
  by (simp add: core_of_def key_inv_def)

lemma queue_cong: "queues_of c = queues_of d \<Longrightarrow> queue_inv c = queue_inv d"
  by (simp add: queues_of_def queue_inv_def)

section \<open>Frames\<close>

lemma core_of_simps [simp]:
  "core_of (new_gate i c) = core_of c" "core_of (emit e c) = core_of c"
  "core_of (c\<lparr>cl_gates := g\<rparr>) = core_of c" "core_of (c\<lparr>cl_reregister := b\<rparr>) = core_of c"
  "core_of (c\<lparr>cl_peerKeyIndex := ki\<rparr>) = core_of c" "core_of (c\<lparr>cl_destinations := di\<rparr>) = core_of c"
  "core_of (c\<lparr>cl_controlQueue := q1\<rparr>) = core_of c" "core_of (c\<lparr>cl_attemptQueue := q2\<rparr>) = core_of c"
  "core_of (c\<lparr>cl_punchQueue := q3\<rparr>) = core_of c" "core_of (c\<lparr>cl_promotionQueue := q4\<rparr>) = core_of c"
  "core_of (c\<lparr>cl_droppedControl := n1\<rparr>) = core_of c" "core_of (c\<lparr>cl_droppedAttempts := n2\<rparr>) = core_of c"
  "core_of (c\<lparr>cl_serverPeerKey := k\<rparr>) = core_of c" "core_of (c\<lparr>cl_localAddr := a\<rparr>) = core_of c"
  "core_of (c\<lparr>cl_observedAddr := a\<rparr>) = core_of c" "core_of (c\<lparr>cl_registered := l\<rparr>) = core_of c"
  "core_of (c\<lparr>cl_extraCandidates := l\<rparr>) = core_of c" "core_of (c\<lparr>cl_lastRegister := t\<rparr>) = core_of c"
  "core_of (c\<lparr>cl_myID := i\<rparr>) = core_of c" "core_of (c\<lparr>cl_closed := b\<rparr>) = core_of c"
  "core_of (c\<lparr>cl_attemptGates := ag\<rparr>) = core_of c"
  by (simp_all add: core_of_def new_gate_def emit_def)

lemma index_simps [simp]:
  "cl_peerKeyIndex (new_gate i c) = cl_peerKeyIndex c" "cl_peerKeyIndex (emit e c) = cl_peerKeyIndex c"
  "cl_peerKeyIndex (upd_peer p f c) = cl_peerKeyIndex c" "cl_peerKeyIndex (upd_session s g c) = cl_peerKeyIndex c"
  "cl_peerKeyIndex (alloc_peer d c) = cl_peerKeyIndex c" "cl_peerKeyIndex (signalDone s c) = cl_peerKeyIndex c"
  "cl_peerKeyIndex (delete_nonce_if n s c) = cl_peerKeyIndex c"
  by (simp_all add: new_gate_def emit_def upd_peer_def upd_session_def alloc_peer_def signalDone_def delete_nonce_if_def)

lemma queues_simps [simp]:
  "queues_of (new_gate i c) = queues_of c" "queues_of (emit e c) = queues_of c"
  "queues_of (upd_peer p f c) = queues_of c" "queues_of (upd_session s g c) = queues_of c"
  "queues_of (alloc_peer d c) = queues_of c" "queues_of (signalDone s c) = queues_of c"
  "queues_of (delete_nonce_if n s c) = queues_of c" "queues_of (c\<lparr>cl_gates := g1\<rparr>) = queues_of c"
  "queues_of (c\<lparr>cl_reregister := b\<rparr>) = queues_of c" "queues_of (c\<lparr>cl_peerKeyIndex := ki\<rparr>) = queues_of c"
  "queues_of (c\<lparr>cl_destinations := di\<rparr>) = queues_of c" "queues_of (c\<lparr>cl_serverPeerKey := k\<rparr>) = queues_of c"
  "queues_of (c\<lparr>cl_peers := ps\<rparr>) = queues_of c" "queues_of (c\<lparr>cl_sessions := ss\<rparr>) = queues_of c"
  "queues_of (c\<lparr>cl_attemptGates := ag\<rparr>) = queues_of c" "queues_of (c\<lparr>cl_sessionByNonce := sn\<rparr>) = queues_of c"
  "queues_of (c\<lparr>cl_sheap := sh\<rparr>) = queues_of c" "queues_of (c\<lparr>cl_snext := sx\<rparr>) = queues_of c"
  "queues_of (c\<lparr>cl_droppedControl := n1\<rparr>) = queues_of c" "queues_of (c\<lparr>cl_droppedAttempts := n2\<rparr>) = queues_of c"
  "queues_of (c\<lparr>cl_localAddr := a\<rparr>) = queues_of c" "queues_of (c\<lparr>cl_observedAddr := a\<rparr>) = queues_of c"
  "queues_of (c\<lparr>cl_registered := l\<rparr>) = queues_of c" "queues_of (c\<lparr>cl_extraCandidates := l\<rparr>) = queues_of c"
  "queues_of (c\<lparr>cl_lastRegister := t\<rparr>) = queues_of c" "queues_of (c\<lparr>cl_myID := i\<rparr>) = queues_of c"
  "queues_of (c\<lparr>cl_closed := b\<rparr>) = queues_of c"
  by (simp_all add: queues_of_def new_gate_def emit_def upd_peer_def upd_session_def alloc_peer_def signalDone_def
      delete_nonce_if_def)

lemma store_gate_frame [simp]:
  "core_of (store_gate i v c) = core_of c" "cl_peerKeyIndex (store_gate i v c) = cl_peerKeyIndex c"
  "queues_of (store_gate i v c) = queues_of c"
  by (simp_all add: store_gate_def split: option.split)

lemma setRetryGate_frame [simp]:
  "core_of (setRetryGateLocked p c) = core_of c" "cl_peerKeyIndex (setRetryGateLocked p c) = cl_peerKeyIndex c"
  "queues_of (setRetryGateLocked p c) = queues_of c"
  by (simp_all add: setRetryGateLocked_def Let_def)

lemma forget_frame [simp]:
  "cl_peerKeyIndex (forgetSessionLocked i s c) = cl_peerKeyIndex c" "queues_of (forgetSessionLocked i s c) = queues_of c"
  by (simp_all add: forgetSessionLocked_def Let_def)

lemma discard_frame [simp]:
  "cl_peerKeyIndex (discardSessionLocked i c) = cl_peerKeyIndex c" "queues_of (discardSessionLocked i c) = queues_of c"
  by (simp_all add: discardSessionLocked_def split: option.split)

lemma rebuild_one_frame:
  "\<lbrakk>rebuild_one i (c, ki, di) = (c', ki', di')\<rbrakk> \<Longrightarrow> core_of c' = core_of c \<and> queues_of c' = queues_of c"
  by (auto simp: rebuild_one_def Let_def split: option.splits if_splits)

lemma rebuild_fold_frame:
  "fold rebuild_one order (c, ki, di) = (c', ki', di') \<Longrightarrow> core_of c' = core_of c \<and> queues_of c' = queues_of c"
proof (induction order arbitrary: c ki di)
  case (Cons i order)
  obtain c1 ki1 di1 where one: "rebuild_one i (c, ki, di) = (c1, ki1, di1)" by (metis surj_pair)
  then show ?case using Cons.IH [of c1 ki1 di1] Cons.prems rebuild_one_frame [OF one] by simp
qed simp

lemma rebuild_frame [simp]:
  "core_of (rebuildIndexesLocked order c) = core_of c" "queues_of (rebuildIndexesLocked order c) = queues_of c"
proof -
  obtain c' ki di where f: "fold rebuild_one order (c, Map.empty, Map.empty) = (c', ki, di)" by (metis surj_pair)
  show "core_of (rebuildIndexesLocked order c) = core_of c" "queues_of (rebuildIndexesLocked order c) = queues_of c"
    using rebuild_fold_frame [OF f] by (simp_all add: rebuildIndexesLocked_def f)
qed

lemma sendToServer_frame [simp]:
  "core_of (sendToServer env m c) = core_of c" "cl_peerKeyIndex (sendToServer env m c) = cl_peerKeyIndex c"
  "queues_of (sendToServer env m c) = queues_of c"
  by (simp_all add: sendToServer_def split: option.split)

lemma restore_frame [simp]:
  "core_of (restoreRelayRoute env ip r c) = core_of c" "cl_peerKeyIndex (restoreRelayRoute env ip r c) = cl_peerKeyIndex c"
  "queues_of (restoreRelayRoute env ip r c) = queues_of c"
  by (simp_all add: restoreRelayRoute_def split: option.split)

lemma teardown_frame [simp]:
  "core_of (teardownDirect env t c) = core_of c" "cl_peerKeyIndex (teardownDirect env t c) = cl_peerKeyIndex c"
  "queues_of (teardownDirect env t c) = queues_of c"
  by (simp_all add: teardownDirect_def Let_def)

lemma dropOrphan_frame [simp]:
  "core_of (dropOrphanCandidate env j c) = core_of c" "cl_peerKeyIndex (dropOrphanCandidate env j c) = cl_peerKeyIndex c"
  "queues_of (dropOrphanCandidate env j c) = queues_of c"
  by (simp_all add: dropOrphanCandidate_def Let_def)

lemma prepare_frame [simp]:
  "core_of (snd (prepareDirectPeer env k ip e c)) = core_of c"
  "cl_peerKeyIndex (snd (prepareDirectPeer env k ip e c)) = cl_peerKeyIndex c"
  "queues_of (snd (prepareDirectPeer env k ip e c)) = queues_of c"
  by (simp_all add: prepareDirectPeer_def Let_def split: option.split)

lemma activate_frame [simp]:
  "core_of (snd (activateDirectPeer env k ip c)) = core_of c"
  "cl_peerKeyIndex (snd (activateDirectPeer env k ip c)) = cl_peerKeyIndex c"
  "queues_of (snd (activateDirectPeer env k ip c)) = queues_of c"
  by (simp_all add: activateDirectPeer_def Let_def)

section \<open>The core operations keep the invariant\<close>

lemma core_upd_peer:
  assumes "core_inv c" "\<And>d. dp_ID (f d) = dp_ID d"
    "\<And>d. dp_State (f d) = P2PStateEstablished \<Longrightarrow> dp_State d = P2PStateEstablished"
  shows "core_inv (upd_peer p f c)"
  using assms unfolding core_inv_def upd_peer_def by (simp; metis)

lemma core_upd_session:
  assumes "core_inv c" "\<And>x. se_TargetID (f x) = se_TargetID x" "\<And>x n. acceptsNonce x n \<Longrightarrow> acceptsNonce (f x) n"
  shows "core_inv (upd_session s f c)"
  using assms unfolding core_inv_def upd_session_def by simp

lemma core_signalDone: "core_inv c \<Longrightarrow> core_inv (signalDone s c)"
  unfolding signalDone_def by (rule core_upd_session) (auto simp: acceptsNonce_def)

lemma core_peerD: "\<lbrakk>core_inv c; cl_peers c i = Some p\<rbrakk> \<Longrightarrow> dp_ID (cl_pheap c p) = i \<and> p < cl_pnext c"
  by (simp add: core_inv_def)

lemma core_sessionD:
  "\<lbrakk>core_inv c; cl_sessions c i = Some s\<rbrakk> \<Longrightarrow> se_TargetID (cl_sheap c s) = i \<and> s < cl_snext c \<and>
     (\<exists>p. cl_peers c i = Some p \<and> dp_State (cl_pheap c p) \<noteq> P2PStateEstablished)"
  by (simp add: core_inv_def)

lemma core_nonceD:
  "\<lbrakk>core_inv c; cl_sessionByNonce c n = Some s\<rbrakk> \<Longrightarrow>
     acceptsNonce (cl_sheap c s) n \<and> cl_sessions c (se_TargetID (cl_sheap c s)) = Some s"
  by (simp add: core_inv_def)

lemma core_no_peer: "\<lbrakk>core_inv c; cl_peers c i = None\<rbrakk> \<Longrightarrow> cl_sessions c i = None"
  by (cases "cl_sessions c i") (auto dest: core_sessionD)

lemma core_established:
  "\<lbrakk>core_inv c; cl_peers c i = Some p; dp_State (cl_pheap c p) = P2PStateEstablished\<rbrakk> \<Longrightarrow> cl_sessions c i = None"
  by (cases "cl_sessions c i") (auto dest: core_sessionD)

lemma core_peer_inj: "\<lbrakk>core_inv c; cl_peers c i = Some p; cl_peers c j = Some p\<rbrakk> \<Longrightarrow> i = j"
  by (auto dest: core_peerD)

lemma core_alloc_peer:
  assumes "core_inv c" "dp_State d \<noteq> P2PStateEstablished" "cl_peers c (dp_ID d) = None"
  shows "core_inv (alloc_peer d c)"
proof -
  have ne: "cl_peers c i \<noteq> Some (cl_pnext c)" for i using core_peerD [OF assms(1)] by blast
  have no: "cl_sessions c (dp_ID d) = None" using assms(1,3) by (rule core_no_peer)
  show ?thesis
    unfolding core_inv_def
  proof (intro conjI allI impI)
    fix i s assume "cl_sessions (alloc_peer d c) i = Some s"
    then have "cl_sessions c i = Some s" "i \<noteq> dp_ID d" using no by (auto simp: alloc_peer_def)
    then show "\<exists>p. cl_peers (alloc_peer d c) i = Some p \<and> dp_State (cl_pheap (alloc_peer d c) p) \<noteq> P2PStateEstablished"
      using core_sessionD [OF assms(1)] ne by (fastforce simp: alloc_peer_def)
  qed (use assms(1) ne in \<open>auto simp: alloc_peer_def split: if_splits dest: core_peerD core_sessionD core_nonceD\<close>)
qed

lemma forget_fields:
  assumes "core_inv c" "cl_sessions c i = Some s"
  shows "cl_sessions (forgetSessionLocked i s c) = (cl_sessions c)(i := None)"
    "cl_sessionByNonce (forgetSessionLocked i s c) n = (if cl_sessionByNonce c n = Some s then None else cl_sessionByNonce c n)"
    "cl_sheap (forgetSessionLocked i s c) = cl_sheap c" "cl_snext (forgetSessionLocked i s c) = cl_snext c"
    "cl_peers (forgetSessionLocked i s c) = cl_peers c" "cl_pheap (forgetSessionLocked i s c) = cl_pheap c"
    "cl_pnext (forgetSessionLocked i s c) = cl_pnext c"
  using assms unfolding forgetSessionLocked_def delete_nonce_if_def core_inv_def acceptsNonce_def Let_def
  by auto

lemma core_forget:
  assumes "core_inv c" "cl_sessions c i = Some s"
  shows "core_inv (forgetSessionLocked i s c)"
proof -
  have "se_TargetID (cl_sheap c t) = i \<Longrightarrow> cl_sessionByNonce c n = Some t \<Longrightarrow> t = s" for t n
    using assms unfolding core_inv_def by fastforce
  then show ?thesis
    using assms(1) unfolding core_inv_def forget_fields [OF assms] by (auto split: if_splits)
qed

lemma core_discard: "core_inv c \<Longrightarrow> core_inv (discardSessionLocked i c)"
  unfolding discardSessionLocked_def
  by (auto split: option.split intro: core_signalDone core_forget)

lemma discard_fields:
  assumes "core_inv c"
  shows "cl_sessions (discardSessionLocked i c) = (cl_sessions c)(i := None)"
    "cl_peers (discardSessionLocked i c) = cl_peers c" "cl_pheap (discardSessionLocked i c) = cl_pheap c"
    "cl_pnext (discardSessionLocked i c) = cl_pnext c" "cl_snext (discardSessionLocked i c) = cl_snext c"
  using assms forget_fields [OF assms]
  by (auto simp: discardSessionLocked_def signalDone_def upd_session_def fun_upd_idem split: option.split)

section \<open>Steps that keep the core\<close>

text \<open>
  \<open>keeps\<close> says that an operation preserves the core invariant and establishes no path; the operations
  compose.
\<close>

definition no_new_path :: "p2p_client \<Rightarrow> p2p_client \<Rightarrow> bool" where
  "no_new_path c c' \<longleftrightarrow> (\<forall>p. dp_State (cl_pheap c' p) = P2PStateEstablished \<longrightarrow> dp_State (cl_pheap c p) = P2PStateEstablished)"

definition keeps :: "p2p_client \<Rightarrow> p2p_client \<Rightarrow> bool" where
  "keeps c c' \<longleftrightarrow> (core_inv c \<longrightarrow> core_inv c') \<and> (core_inv c \<longrightarrow> no_new_path c c')"

lemma keeps_refl [simp]: "keeps c c"
  by (simp add: keeps_def no_new_path_def)

lemma keeps_trans [trans]: "\<lbrakk>keeps a b; keeps b c\<rbrakk> \<Longrightarrow> keeps a c"
  by (auto simp: keeps_def no_new_path_def)

lemma keeps_core_of: "core_of c' = core_of c \<Longrightarrow> keeps c c'"
  by (auto simp: keeps_def no_new_path_def core_of_def core_inv_def)

lemma keeps_after: "\<lbrakk>core_of c' = core_of b; keeps a b\<rbrakk> \<Longrightarrow> keeps a c'"
  using keeps_core_of keeps_trans by blast

lemma keeps_upd_peer:
  "\<lbrakk>\<And>d. dp_ID (f d) = dp_ID d; \<And>d. dp_State (f d) = P2PStateEstablished \<Longrightarrow> dp_State d = P2PStateEstablished\<rbrakk>
     \<Longrightarrow> keeps c (upd_peer p f c)"
  by (auto simp: keeps_def no_new_path_def intro: core_upd_peer) (auto simp: upd_peer_def split: if_splits)

lemma keeps_upd_session:
  "\<lbrakk>\<And>x. se_TargetID (f x) = se_TargetID x; \<And>x n. acceptsNonce x n \<Longrightarrow> acceptsNonce (f x) n\<rbrakk> \<Longrightarrow> keeps c (upd_session s f c)"
  by (auto simp: keeps_def no_new_path_def intro: core_upd_session) (auto simp: upd_session_def)

lemma keeps_signalDone: "keeps c (signalDone s c)"
  unfolding signalDone_def by (rule keeps_upd_session) (auto simp: acceptsNonce_def)

lemma keeps_alloc:
  "\<lbrakk>dp_State d \<noteq> P2PStateEstablished; cl_peers c (dp_ID d) = None\<rbrakk> \<Longrightarrow> keeps c (alloc_peer d c)"
  by (auto simp: keeps_def no_new_path_def intro: core_alloc_peer) (auto simp: alloc_peer_def split: if_splits)

lemma keeps_discard: "keeps c (discardSessionLocked i c)"
  unfolding keeps_def no_new_path_def using core_discard discard_fields(3) by auto

lemma keeps_forget: "cl_sessions c i = Some s \<Longrightarrow> keeps c (forgetSessionLocked i s c)"
  unfolding keeps_def no_new_path_def using core_forget forget_fields(6) by auto

lemma keeps_mark_failed: "keeps c (upd_peer p (mark_failed now) c)"
  by (rule keeps_upd_peer) (simp_all add: mark_failed_def)

lemma core_move:
  assumes "core_inv c" "cl_peers c old = Some p" "cl_sessions c old = None" "cl_sessions c new = None" "old \<noteq> new"
    "\<And>d. dp_ID (f d) = new"
  shows "core_inv (upd_peer p f (c\<lparr>cl_peers := (cl_peers c)(old := None, new \<mapsto> p)\<rparr>))" (is "core_inv ?c")
proof -
  have other: "q \<noteq> p" if "cl_peers c i = Some q" "i \<noteq> old" for i q
    using core_peer_inj [OF assms(1) assms(2)] that by blast
  have p: "p < cl_pnext c" using core_peerD [OF assms(1,2)] by simp
  have fields: "cl_pheap ?c = (cl_pheap c)(p := f (cl_pheap c p))" "cl_peers ?c = (cl_peers c)(old := None, new \<mapsto> p)"
    "cl_sessions ?c = cl_sessions c" "cl_sheap ?c = cl_sheap c" "cl_snext ?c = cl_snext c" "cl_pnext ?c = cl_pnext c"
    "cl_sessionByNonce ?c = cl_sessionByNonce c"
    by (simp_all add: upd_peer_def)
  have "\<exists>q. cl_peers ?c i = Some q \<and> dp_State (cl_pheap ?c q) \<noteq> P2PStateEstablished"
    if s: "cl_sessions c i = Some s" for i s
  proof -
    have "i \<noteq> old" "i \<noteq> new" using s assms(3,4) by auto
    moreover obtain q where "cl_peers c i = Some q" "dp_State (cl_pheap c q) \<noteq> P2PStateEstablished"
      using core_sessionD [OF assms(1) s] by blast
    ultimately show ?thesis using other unfolding fields by auto
  qed
  moreover have "dp_ID (cl_pheap ?c q) = i \<and> q < cl_pnext c" if "cl_peers ?c i = Some q" for i q
    using that assms(5,6) other p core_peerD [OF assms(1)] unfolding fields by (auto split: if_splits)
  ultimately show ?thesis
    using core_sessionD [OF assms(1)] core_nonceD [OF assms(1)] unfolding core_inv_def fields(3-) by blast
qed

lemma renumber_unfold:
  assumes "fst (renumberPeerLocked k new c)" "core_inv c"
  obtains old p where "cl_peerKeyIndex c k = Some old" "old \<noteq> new" "cl_peers c old = Some p" "\<not> key_IsZero k"
    "dp_PublicKey (cl_pheap c p) = k"
    "core_of (snd (renumberPeerLocked k new c)) =
       core_of (upd_peer p (\<lambda>d. d\<lparr>dp_State := (if dp_State d = P2PStateTrying then P2PStateDiscovered else dp_State d), dp_ID := new\<rparr>)
         ((discardSessionLocked new (discardSessionLocked old c))\<lparr>cl_peers := (cl_peers c)(old := None, new \<mapsto> p)\<rparr>))"
    "cl_peerKeyIndex (snd (renumberPeerLocked k new c)) = (cl_peerKeyIndex c)(k \<mapsto> new)"
proof -
  from assms(1) obtain old p where k: "\<not> key_IsZero k" "cl_peerKeyIndex c k = Some old" "old \<noteq> new"
      "cl_peers c old = Some p" "dp_PublicKey (cl_pheap c p) = k"
    by (auto simp: renumberPeerLocked_def Let_def split: option.splits if_splits)
  let ?c1 = "c\<lparr>cl_peerKeyIndex := (cl_peerKeyIndex c)(k := None)\<rparr>"
  let ?d = "discardSessionLocked old ?c1"
  have core1: "core_inv ?c1" using assms(2) core_cong [of ?c1 c] by simp
  have cored: "core_inv ?d" using core1 by (rule core_discard)
  have none: "discardSessionLocked new ?d = ?d" if "cl_peers ?d new = None"
    using core_no_peer [OF cored that] by (simp add: discardSessionLocked_def)
  have c3: "(if cl_peers ?d new \<noteq> None then discardSessionLocked new ?d else ?d) = discardSessionLocked new ?d"
    using none by auto
  have frame: "discardSessionLocked i (c'\<lparr>cl_peerKeyIndex := ki\<rparr>) = (discardSessionLocked i c')\<lparr>cl_peerKeyIndex := ki\<rparr>" for i c' ki
    by (simp add: discardSessionLocked_def forgetSessionLocked_def delete_nonce_if_def signalDone_def upd_session_def Let_def
        split: option.split)
  have peers: "cl_peers (discardSessionLocked new ?d) = cl_peers c"
    using discard_fields(2) [OF cored] discard_fields(2) [OF core1] by simp
  have eq: "snd (renumberPeerLocked k new c) =
     (let c4 = upd_peer p (\<lambda>d. d\<lparr>dp_State := (if dp_State d = P2PStateTrying then P2PStateDiscovered else dp_State d), dp_ID := new\<rparr>)
        ((discardSessionLocked new ?d)\<lparr>cl_peers := (cl_peers c)(old := None, new \<mapsto> p)\<rparr>);
          c5 = (case cl_attemptGates c4 old of None \<Rightarrow> c4
                        | Some g \<Rightarrow> c4\<lparr>cl_attemptGates := (cl_attemptGates c4)(new \<mapsto> g, old := None)\<rparr>)
      in c5\<lparr>cl_peerKeyIndex := (cl_peerKeyIndex c5)(k \<mapsto> new)\<rparr>)"
    unfolding renumberPeerLocked_def Let_def
    by (simp only: k c3 peers if_False option.case simp_thms snd_conv)
  show thesis
  proof (rule that [OF k(2,3,4,1,5)])
    show "core_of (snd (renumberPeerLocked k new c)) =
       core_of (upd_peer p (\<lambda>d. d\<lparr>dp_State := (if dp_State d = P2PStateTrying then P2PStateDiscovered else dp_State d), dp_ID := new\<rparr>)
         ((discardSessionLocked new (discardSessionLocked old c))\<lparr>cl_peers := (cl_peers c)(old := None, new \<mapsto> p)\<rparr>))"
      unfolding eq frame by (simp add: Let_def core_of_def upd_peer_def split: option.split)
    show "cl_peerKeyIndex (snd (renumberPeerLocked k new c)) = (cl_peerKeyIndex c)(k \<mapsto> new)"
      unfolding eq by (simp add: Let_def split: option.split)
  qed
qed

lemma renumber_False:
  "\<not> fst (renumberPeerLocked k new c) \<Longrightarrow> core_of (snd (renumberPeerLocked k new c)) = core_of c \<and>
     (\<forall>k'. cl_peerKeyIndex (snd (renumberPeerLocked k new c)) k' = cl_peerKeyIndex c k' \<or>
           cl_peerKeyIndex (snd (renumberPeerLocked k new c)) k' = None)"
  by (auto simp: renumberPeerLocked_def Let_def split: option.splits if_splits)

lemma keeps_renumber: "keeps c (snd (renumberPeerLocked k new c))"
proof (cases "fst (renumberPeerLocked k new c) \<and> core_inv c")
  case True
  then obtain old p where *: "old \<noteq> new" "cl_peers c old = Some p"
      "core_of (snd (renumberPeerLocked k new c)) =
       core_of (upd_peer p (\<lambda>d. d\<lparr>dp_State := (if dp_State d = P2PStateTrying then P2PStateDiscovered else dp_State d), dp_ID := new\<rparr>)
         ((discardSessionLocked new (discardSessionLocked old c))\<lparr>cl_peers := (cl_peers c)(old := None, new \<mapsto> p)\<rparr>))"
    by (elim conjE) (erule (1) renumber_unfold, blast)
  let ?d = "discardSessionLocked new (discardSessionLocked old c)"
  have c1: "core_inv (discardSessionLocked old c)" and cd: "core_inv ?d" using True by (simp_all add: core_discard)
  have f: "cl_peers ?d = cl_peers c" "cl_pheap ?d = cl_pheap c" "cl_sessions ?d old = None" "cl_sessions ?d new = None"
    using discard_fields [OF c1, of new] discard_fields [OF conjunct2 [OF True], of old] by simp_all
  have "core_inv (upd_peer p (\<lambda>d. d\<lparr>dp_State := (if dp_State d = P2PStateTrying then P2PStateDiscovered else dp_State d), dp_ID := new\<rparr>)
         (?d\<lparr>cl_peers := (cl_peers ?d)(old := None, new \<mapsto> p)\<rparr>))"
    using *(1,2) f by (intro core_move [OF cd]) simp_all
  then have "core_inv (snd (renumberPeerLocked k new c))" using core_cong [OF *(3)] f(1) by simp
  moreover have "no_new_path c (snd (renumberPeerLocked k new c))"
    using *(3) f(2) by (auto simp: no_new_path_def core_of_def upd_peer_def split: if_splits)
  ultimately show ?thesis by (simp add: keeps_def)
next
  case False
  then show ?thesis using renumber_False [of k new c] keeps_core_of by (auto simp: keeps_def)
qed

lemma new_peer_state [simp]: "dp_State (new_peer i) = P2PStateDiscovered" "dp_ID (new_peer i) = i"
  by (simp_all add: new_peer_def)

lemma keeps_entry_peer: "keeps c (snd (snd (entry_peer now e c)))"
proof (cases "cl_peers c (le_peerID e)")
  case None
  then show ?thesis by (simp add: entry_peer_def keeps_alloc)
next
  case (Some p)
  have "keeps c (store_gate (le_peerID e) 0 (upd_peer p (\<lambda>d. d\<lparr>dp_State := P2PStateDiscovered, dp_PunchAttempts := 0\<rparr>) c))"
    by (rule keeps_after [OF store_gate_frame(1) keeps_upd_peer]) simp_all
  then show ?thesis using Some by (simp add: entry_peer_def)
qed

lemma keeps_list_peer: "keeps (fst st) (fst (list_peer now e st))"
proof -
  obtain c renumbered retry where st: "st = (c, renumbered, retry)" by (metis surj_pair)
  obtain moved c1 where r: "renumberPeerLocked (le_publicKey e) (le_peerID e) c = (moved, c1)" by fastforce
  obtain again p c2 where ep: "entry_peer now e c1 = (again, p, c2)" by (metis surj_pair)
  have "keeps c c1" using keeps_renumber [of c "le_publicKey e" "le_peerID e"] r by simp
  also have "keeps c1 c2" using keeps_entry_peer [of c1 now e] ep by simp
  also have "keeps c2 (upd_peer p (\<lambda>d. d\<lparr>dp_PublicKey := le_publicKey e, dp_LocalAddr := le_localAddr e,
                     dp_ObservedAddr := le_observedAddr e, dp_NATType := le_NATType e,
                     dp_P2PCapable := le_capable e, dp_AssignedIP := le_assignedIP e, dp_LastSeen := now\<rparr>) c2)"
    by (rule keeps_upd_peer) simp_all
  finally show ?thesis
    by (auto simp: st list_peer_def r ep Let_def intro: keeps_after [rotated])
qed

lemma keeps_list_fold: "keeps (fst st) (fst (fold (\<lambda>i. list_peer now (f i)) is st))"
proof (induction "is" arbitrary: st)
  case (Cons i "is")
  then show ?case using keeps_trans [OF keeps_list_peer Cons.IH] by simp
qed simp

lemma queueP2PAttempt_core [simp]: "core_of (snd (queueP2PAttempt closing i c)) = core_of c"
  "cl_peerKeyIndex (snd (queueP2PAttempt closing i c)) = cl_peerKeyIndex c"
  by (simp_all add: queueP2PAttempt_def)

lemma queue_retry_core [simp]:
  "core_of (fold (\<lambda>i c. snd (queueP2PAttempt closing i c)) is c) = core_of c"
  "cl_peerKeyIndex (fold (\<lambda>i c. snd (queueP2PAttempt closing i c)) is c) = cl_peerKeyIndex c"
  by (induction "is" arbitrary: c) auto

lemma keeps_handlePeerList: "keeps c (handlePeerList closing msg now order c)"
proof -
  let ?d = "msg_Payload msg" and ?n = "unat (get_be (slice 0 4 (msg_Payload msg)) :: u32)"
  obtain c1 b r where f: "fold (\<lambda>i. list_peer now (parse_entry ?d (4 + 78 * i))) [0..<?n] (c, False, []) = (c1, b, r)"
    by (metis surj_pair)
  have "keeps c c1" using keeps_list_fold [of "(c, False, [])" now "\<lambda>i. parse_entry ?d (4 + 78 * i)" "[0..<?n]"] f by simp
  then show ?thesis by (auto simp: handlePeerList_def Let_def f intro!: keeps_after [of _ c1])
qed

section \<open>The key index\<close>

definition keys_listed :: "p2p_client \<Rightarrow> (pubkey \<rightharpoonup> u32) \<Rightarrow> bool" where
  "keys_listed c ki \<longleftrightarrow>
     (\<forall>k j. ki k = Some j \<longrightarrow> \<not> key_IsZero k \<and> (\<exists>p. cl_peers c j = Some p \<and> dp_PublicKey (cl_pheap c p) = k))"

lemma key_inv_listed: "key_inv c \<longleftrightarrow> keys_listed c (cl_peerKeyIndex c)"
  by (simp add: key_inv_def keys_listed_def)

lemma listed_cong: "core_of c = core_of d \<Longrightarrow> keys_listed c ki = keys_listed d ki"
  by (simp add: keys_listed_def core_of_def)

lemma rebuild_one_keys:
  assumes "rebuild_one i (c, ki, di) = (c', ki', di')" "core_inv c" "keys_listed c ki"
  shows "keys_listed c ki'"
  using assms core_peerD [OF assms(2), of i]
  by (fastforce simp: keys_listed_def rebuild_one_def Let_def split: option.splits if_splits)

lemma rebuild_fold_keys:
  "\<lbrakk>fold rebuild_one order (c, ki, di) = (c', ki', di'); core_inv c; keys_listed c ki\<rbrakk> \<Longrightarrow> keys_listed c ki'"
proof (induction order arbitrary: c ki di)
  case (Cons i order)
  obtain c1 ki1 di1 where one: "rebuild_one i (c, ki, di) = (c1, ki1, di1)" by (metis surj_pair)
  have same: "core_of c1 = core_of c" using rebuild_one_frame [OF one] by simp
  have "keys_listed c1 ki'"
    using Cons.IH [of c1 ki1 di1] Cons.prems(1,2) one core_cong [OF same] listed_cong [OF same]
      rebuild_one_keys [OF one Cons.prems(2,3)] by simp
  then show ?case using listed_cong [OF same] by simp
qed simp

lemma rebuild_keys:
  assumes "core_inv c" shows "key_inv (rebuildIndexesLocked order c)"
proof -
  obtain c' ki di where f: "fold rebuild_one order (c, Map.empty, Map.empty) = (c', ki, di)" by (metis surj_pair)
  have "keys_listed c Map.empty" by (simp add: keys_listed_def)
  then have "keys_listed c ki" using rebuild_fold_keys [OF f assms] by blast
  then have "keys_listed (rebuildIndexesLocked order c) ki" using listed_cong [OF rebuild_frame(1)] by blast
  then show ?thesis by (simp add: key_inv_listed rebuildIndexesLocked_def f)
qed

lemma key_upd_peer: "\<lbrakk>key_inv c; \<And>d. dp_PublicKey (f d) = dp_PublicKey d\<rbrakk> \<Longrightarrow> key_inv (upd_peer p f c)"
  by (fastforce simp: key_inv_def upd_peer_def)

lemma key_same_peers:
  "\<lbrakk>key_inv c; cl_peerKeyIndex c' = cl_peerKeyIndex c; cl_peers c' = cl_peers c; cl_pheap c' = cl_pheap c\<rbrakk> \<Longrightarrow> key_inv c'"
  by (simp add: key_inv_def)

lemma key_renumber:
  assumes inv: "core_inv c" "key_inv c"
    and new: "\<forall>q. cl_peers c new = Some q \<longrightarrow> key_IsZero (dp_PublicKey (cl_pheap c q)) \<or> dp_PublicKey (cl_pheap c q) = k"
  shows "key_inv (snd (renumberPeerLocked k new c))"
proof (cases "fst (renumberPeerLocked k new c)")
  case True
  then obtain old p where *: "cl_peerKeyIndex c k = Some old" "old \<noteq> new" "cl_peers c old = Some p" "\<not> key_IsZero k"
      "dp_PublicKey (cl_pheap c p) = k"
      "core_of (snd (renumberPeerLocked k new c)) =
       core_of (upd_peer p (\<lambda>d. d\<lparr>dp_State := (if dp_State d = P2PStateTrying then P2PStateDiscovered else dp_State d), dp_ID := new\<rparr>)
         ((discardSessionLocked new (discardSessionLocked old c))\<lparr>cl_peers := (cl_peers c)(old := None, new \<mapsto> p)\<rparr>))"
      "cl_peerKeyIndex (snd (renumberPeerLocked k new c)) = (cl_peerKeyIndex c)(k \<mapsto> new)"
    using inv(1) by (rule renumber_unfold)
  let ?c = "snd (renumberPeerLocked k new c)"
  have heap: "cl_pheap (discardSessionLocked new (discardSessionLocked old c)) = cl_pheap c"
    using discard_fields(3) [OF core_discard [OF inv(1)]] discard_fields(3) [OF inv(1)] by simp
  have peers: "cl_peers ?c = (cl_peers c)(old := None, new \<mapsto> p)"
    and keys: "dp_PublicKey (cl_pheap ?c q) = dp_PublicKey (cl_pheap c q)" for q
    using *(6) heap by (simp_all add: core_of_def upd_peer_def)
  have "\<not> key_IsZero k' \<and> (\<exists>q. cl_peers ?c i = Some q \<and> dp_PublicKey (cl_pheap ?c q) = k')"
    if k': "cl_peerKeyIndex ?c k' = Some i" for k' i
  proof (cases "k' = k")
    case True
    then have "i = new" using k' *(7) by simp
    then show ?thesis using True *(4,5) keys unfolding peers by auto
  next
    case False
    then have old: "cl_peerKeyIndex c k' = Some i" using k' *(7) by simp
    then obtain q where q: "\<not> key_IsZero k'" "cl_peers c i = Some q" "dp_PublicKey (cl_pheap c q) = k'"
      using inv(2) by (auto simp: key_inv_def)
    have "i \<noteq> old" using q False *(3,5) by auto
    moreover have "i \<noteq> new" using q False new by auto
    ultimately show ?thesis using q by (simp add: peers keys)
  qed
  then show ?thesis by (simp add: key_inv_def)
next
  case False
  let ?c = "snd (renumberPeerLocked k new c)"
  have same: "core_of ?c = core_of c" using renumber_False [OF False] by simp
  have "cl_peerKeyIndex ?c k' = Some i \<Longrightarrow> cl_peerKeyIndex c k' = Some i" for k' i
    using renumber_False [OF False] by (metis option.distinct(1))
  then show ?thesis
    using inv(2) listed_cong [OF same] unfolding key_inv_listed keys_listed_def by metis
qed

section \<open>Punch relays\<close>

lemma core_new_session:
  assumes "core_inv c" "cl_sessions c i = None" "cl_peers c i = Some p" "dp_State (cl_pheap c p) \<noteq> P2PStateEstablished"
    "se_TargetID x = i"
  shows "core_inv (c\<lparr>cl_sheap := (cl_sheap c)(cl_snext c := x), cl_snext := Suc (cl_snext c),
    cl_sessions := (cl_sessions c)(i \<mapsto> cl_snext c), cl_sessionByNonce := (cl_sessionByNonce c)(se_Nonce x \<mapsto> cl_snext c)\<rparr>)"
proof -
  have nonce: "t < cl_snext c \<and> se_TargetID (cl_sheap c t) \<noteq> i \<and> acceptsNonce (cl_sheap c t) n \<and>
      cl_sessions c (se_TargetID (cl_sheap c t)) = Some t" if "cl_sessionByNonce c n = Some t" for n t
  proof -
    have n: "acceptsNonce (cl_sheap c t) n" "cl_sessions c (se_TargetID (cl_sheap c t)) = Some t"
      using core_nonceD [OF assms(1) that] by simp_all
    then show ?thesis using core_sessionD [OF assms(1) n(2)] assms(2) by auto
  qed
  have sess: "t < cl_snext c \<and> se_TargetID (cl_sheap c t) = j \<and>
      (\<exists>p. cl_peers c j = Some p \<and> dp_State (cl_pheap c p) \<noteq> P2PStateEstablished)" if "cl_sessions c j = Some t" for j t
    using core_sessionD [OF assms(1) that] by simp
  have new: "acceptsNonce x (se_Nonce x)" by (simp add: acceptsNonce_def)
  show ?thesis
    unfolding core_inv_def
  proof (intro conjI allI impI)
  qed (use assms nonce sess new core_peerD [OF assms(1)] in
      \<open>fastforce simp: less_Suc_eq split: if_splits\<close>)+
qed

lemma core_join:
  assumes "core_inv c" "cl_sessions c i = Some s"
  shows "core_inv (join_session n s c)"
proof -
  let ?x = "cl_sheap c s" and ?x' = "(cl_sheap c s)\<lparr>se_altNonce := n, se_hasAltNonce := True\<rparr>"
  let ?m = "(if se_hasAltNonce (cl_sheap c s) then (cl_sessionByNonce c)(se_altNonce (cl_sheap c s) := None)
    else cl_sessionByNonce c)"
  have s: "cl_sessions c (se_TargetID ?x) = Some s" using core_sessionD [OF assms] assms(2) by simp
  have m: "acceptsNonce (((cl_sheap c)(s := ?x')) t) k \<and>
      cl_sessions c (se_TargetID (((cl_sheap c)(s := ?x')) t)) = Some t" if "(?m(n \<mapsto> s)) k = Some t" for k t
    using that s core_nonceD [OF assms(1), of k t] by (auto simp: acceptsNonce_def split: if_splits)
  have p: "(cl_sessions c j = Some t \<longrightarrow> se_TargetID (((cl_sheap c)(s := ?x')) t) = j \<and> t < cl_snext c \<and>
      (\<exists>p. cl_peers c j = Some p \<and> dp_State (cl_pheap c p) \<noteq> P2PStateEstablished))" for j t
    using core_sessionD [OF assms(1)] by auto
  show ?thesis
  proof (cases "se_Nonce ?x \<noteq> n \<and> \<not> (se_hasAltNonce ?x \<and> se_altNonce ?x = n)")
    case True
    have "core_of (join_session n s c) =
        core_of (c\<lparr>cl_sheap := (cl_sheap c)(s := ?x'), cl_sessionByNonce := ?m(n \<mapsto> s)\<rparr>)"
      using True by (simp add: join_session_def Let_def upd_session_def core_of_def)
    moreover have "core_inv (c\<lparr>cl_sheap := (cl_sheap c)(s := ?x'), cl_sessionByNonce := ?m(n \<mapsto> s)\<rparr>)"
      using m p core_peerD [OF assms(1)] unfolding core_inv_def by simp
    ultimately show ?thesis using core_cong by blast
  next
    case False
    then have "join_session n s c = c" by (auto simp: join_session_def Let_def)
    then show ?thesis using assms(1) by simp
  qed
qed

lemma join_fields [simp]:
  "cl_pheap (join_session n s c) = cl_pheap c" "cl_peers (join_session n s c) = cl_peers c"
  "cl_peerKeyIndex (join_session n s c) = cl_peerKeyIndex c" "queues_of (join_session n s c) = queues_of c"
  by (simp_all add: join_session_def upd_session_def Let_def queues_of_def)

lemma keeps_join: "cl_sessions c i = Some s \<Longrightarrow> keeps c (join_session n s c)"
  by (simp add: keeps_def no_new_path_def core_join)

text \<open>Both index invariants together.\<close>

definition good :: "p2p_client \<Rightarrow> bool" where
  "good c \<longleftrightarrow> core_inv c \<and> key_inv c"

lemma good_frame: "\<lbrakk>good c; core_of c' = core_of c; cl_peerKeyIndex c' = cl_peerKeyIndex c\<rbrakk> \<Longrightarrow> good c'"
  using core_cong key_cong by (metis good_def)

lemma good_rebuild: "core_inv c \<Longrightarrow> good (rebuildIndexesLocked order c)"
  using core_cong [OF rebuild_frame(1)] rebuild_keys by (simp add: good_def)

lemma keeps_core: "\<lbrakk>keeps c c'; core_inv c\<rbrakk> \<Longrightarrow> core_inv c'"
  by (simp add: keeps_def)

lemma good_upd_peer:
  assumes "good c" "\<And>d. dp_ID (f d) = dp_ID d" "\<And>d. dp_PublicKey (f d) = dp_PublicKey d"
    "\<And>d. dp_State (f d) = P2PStateEstablished \<Longrightarrow> dp_State d = P2PStateEstablished"
  shows "good (upd_peer p f c)"
  using assms core_upd_peer [of c f p] key_upd_peer [of c f p] by (simp add: good_def)

lemma key_alloc:
  assumes "good c" "cl_peers c (dp_ID d) = None" shows "key_inv (alloc_peer d c)"
  unfolding key_inv_def
proof (intro allI impI)
  fix k i assume "cl_peerKeyIndex (alloc_peer d c) k = Some i"
  then obtain p where p: "\<not> key_IsZero k" "cl_peers c i = Some p" "dp_PublicKey (cl_pheap c p) = k"
    using assms(1) by (auto simp: good_def key_inv_def)
  then have "p < cl_pnext c" "i \<noteq> dp_ID d" using assms core_peerD [of c i p] by (auto simp: good_def)
  then show "\<not> key_IsZero k \<and> (\<exists>p. cl_peers (alloc_peer d c) i = Some p \<and> dp_PublicKey (cl_pheap (alloc_peer d c) p) = k)"
    using p by (simp add: alloc_peer_def)
qed

lemma relay_peer_ok:
  assumes "good c" "relay_peer msg now c = (p, c')"
  shows "good c' \<and> keeps c c' \<and> cl_peers c' (msg_TargetID msg) = Some p"
proof -
  let ?i = "msg_TargetID msg" and ?k = "msg_PublicKey msg"
  define b where "b \<longleftrightarrow> \<not> key_IsZero ?k \<and> (case cl_peers c ?i of None \<Rightarrow> True
    | Some p \<Rightarrow> key_IsZero (dp_PublicKey (cl_pheap c p)) \<or> dp_PublicKey (cl_pheap c p) = ?k)"
  define c1 where "c1 = (if b then snd (renumberPeerLocked ?k ?i c) else c)"
  define c2 where "c2 = (if cl_peers c1 ?i = None then alloc_peer ((new_peer ?i)\<lparr>dp_P2PCapable := True\<rparr>) c1 else c1)"
  have "relay_peer msg now c = (the (cl_peers c2 ?i), upd_peer (the (cl_peers c2 ?i)) (\<lambda>d. d\<lparr>dp_LastSeen := now\<rparr>) c2)"
    unfolding relay_peer_def Let_def b_def [symmetric] c1_def [symmetric] c2_def [symmetric] by (rule refl)
  then have eq: "p = the (cl_peers c2 ?i)" "c' = upd_peer p (\<lambda>d. d\<lparr>dp_LastSeen := now\<rparr>) c2"
    using assms(2) by simp_all
  have k1: "keeps c c1" by (simp add: c1_def keeps_renumber)
  have g1: "good c1"
    using assms(1) keeps_core [OF keeps_renumber, of c ?k ?i] key_renumber [of c ?i ?k]
    by (auto simp: c1_def b_def good_def split: option.splits)
  have k2: "keeps c1 c2" by (simp add: c2_def keeps_alloc)
  have "key_inv c2" using g1 key_alloc [of c1 "(new_peer ?i)\<lparr>dp_P2PCapable := True\<rparr>"] by (simp add: c2_def good_def)
  then have "good c2" using keeps_core [OF k2] g1 by (simp add: good_def)
  then have "good c'" unfolding eq(2) by (rule good_upd_peer) simp_all
  moreover have "keeps c2 c'" unfolding eq(2) by (rule keeps_upd_peer) simp_all
  then have "keeps c c'" using k1 k2 keeps_trans by blast
  moreover have "cl_peers c2 ?i \<noteq> None" by (auto simp: c2_def alloc_peer_def)
  then have "cl_peers c' ?i = Some p" unfolding eq(2) by (auto simp: eq(1) upd_peer_def)
  ultimately show ?thesis by simp
qed

text \<open>\<open>fine\<close> is \<open>keeps\<close> with the key index: what every critical section but the promotion satisfies.\<close>

definition fine :: "p2p_client \<Rightarrow> p2p_client \<Rightarrow> bool" where
  "fine c c' \<longleftrightarrow> (good c \<longrightarrow> good c' \<and> no_new_path c c')"

lemma fine_refl [simp]: "fine c c"
  by (simp add: fine_def no_new_path_def)

lemma fine_trans [trans]: "\<lbrakk>fine a b; fine b c\<rbrakk> \<Longrightarrow> fine a c"
  by (auto simp: fine_def no_new_path_def)

lemma fine_frame: "\<lbrakk>core_of c' = core_of c; cl_peerKeyIndex c' = cl_peerKeyIndex c\<rbrakk> \<Longrightarrow> fine c c'"
  using good_frame by (auto simp: fine_def no_new_path_def core_of_def)

lemma fine_after: "\<lbrakk>core_of c' = core_of b; cl_peerKeyIndex c' = cl_peerKeyIndex b; fine a b\<rbrakk> \<Longrightarrow> fine a c'"
  using fine_frame fine_trans by blast

lemma no_new_path_cong: "core_of b = core_of b' \<Longrightarrow> no_new_path a b = no_new_path a b'"
  by (simp add: no_new_path_def core_of_def)

lemma fine_rebuild: "keeps c c' \<Longrightarrow> fine c (rebuildIndexesLocked order c')"
  using good_rebuild [of c' order] no_new_path_cong [OF rebuild_frame(1)] unfolding fine_def keeps_def good_def by blast

lemma fine_keeps: "\<lbrakk>keeps c c'; good c \<Longrightarrow> key_inv c'\<rbrakk> \<Longrightarrow> fine c c'"
  by (auto simp: fine_def keeps_def good_def)

lemma fine_upd_peer:
  "\<lbrakk>\<And>d. dp_ID (f d) = dp_ID d; \<And>d. dp_PublicKey (f d) = dp_PublicKey d;
    \<And>d. dp_State (f d) = P2PStateEstablished \<Longrightarrow> dp_State d = P2PStateEstablished\<rbrakk> \<Longrightarrow> fine c (upd_peer p f c)"
  by (rule fine_keeps [OF keeps_upd_peer]) (auto simp: good_def intro: key_upd_peer)

lemma fine_upd_session:
  "\<lbrakk>\<And>x. se_TargetID (f x) = se_TargetID x; \<And>x n. acceptsNonce x n \<Longrightarrow> acceptsNonce (f x) n\<rbrakk> \<Longrightarrow> fine c (upd_session s f c)"
  by (rule fine_keeps [OF keeps_upd_session]) (auto simp: good_def upd_session_def intro: key_same_peers)

lemma fine_signalDone: "fine c (signalDone s c)"
  unfolding signalDone_def by (rule fine_upd_session) (auto simp: acceptsNonce_def)

lemma keeps_relay_failed: "fine c (relay_failed p now order c)"
  unfolding relay_failed_def by (intro fine_rebuild keeps_after [OF setRetryGate_frame(1)] keeps_mark_failed)

lemma relay_update_simps [simp]:
  "dp_ID (relay_update msg now d) = dp_ID d" "dp_State (relay_update msg now d) = P2PStateTrying"
  "dp_PublicKey (relay_update msg now d) = dp_PublicKey d"
  by (simp_all add: relay_update_def Let_def)

lemma fine_start_session:
  assumes "cl_peers c (msg_TargetID msg) = Some p"
  shows "fine c (snd (start_session msg now p order c))"
proof -
  let ?i = "msg_TargetID msg"
  let ?c1 = "upd_peer p (relay_update msg now) c"
  let ?x = "relay_session msg now (cl_pheap ?c1 p)" and ?c2 = "discardSessionLocked ?i ?c1"
  let ?c3 = "?c2\<lparr>cl_sheap := (cl_sheap ?c2)(cl_snext ?c2 := ?x), cl_snext := Suc (cl_snext ?c2),
    cl_sessions := (cl_sessions ?c2)(?i \<mapsto> cl_snext ?c2), cl_sessionByNonce := (cl_sessionByNonce ?c2)(se_Nonce ?x \<mapsto> cl_snext ?c2)\<rparr>"
  have k12: "keeps c ?c2" by (rule keeps_trans [OF keeps_upd_peer keeps_discard]) simp_all
  have k1: "keeps c ?c1" by (rule keeps_upd_peer) simp_all
  have "keeps c ?c3"
    unfolding keeps_def
  proof (intro conjI impI)
    assume core: "core_inv c"
    have core1: "core_inv ?c1" and core2: "core_inv ?c2" using k1 k12 core by (simp_all add: keeps_def)
    have f: "cl_sessions ?c2 ?i = None" "cl_peers ?c2 = cl_peers c" "cl_pheap ?c2 = cl_pheap ?c1"
      using discard_fields [OF core1, of ?i] by (simp_all add: upd_peer_def)
    show "core_inv ?c3"
      using assms f by (intro core_new_session [OF core2, of ?i p]) (simp_all add: upd_peer_def relay_session_def)
    show "no_new_path c ?c3" using k12 core by (simp add: keeps_def no_new_path_def)
  qed
  moreover have "snd (start_session msg now p order c) = rebuildIndexesLocked order
      (?c3\<lparr>cl_peerKeyIndex := (cl_peerKeyIndex ?c2)(se_TargetPubKey ?x \<mapsto> ?i)\<rparr>)"
    by (simp add: start_session_def Let_def)
  ultimately show ?thesis using fine_rebuild keeps_after [OF core_of_simps(5)] by simp
qed

lemma key_set_key:
  assumes "good c" "key_IsZero (dp_PublicKey (cl_pheap c p))"
  shows "key_inv (upd_peer p (\<lambda>d. d\<lparr>dp_PublicKey := k\<rparr>) c)"
  using assms unfolding good_def key_inv_def upd_peer_def by fastforce

lemma fine_set_key:
  "key_IsZero (dp_PublicKey (cl_pheap c p)) \<Longrightarrow> fine c (upd_peer p (\<lambda>d. d\<lparr>dp_PublicKey := k\<rparr>) c)"
  by (rule fine_keeps [OF keeps_upd_peer key_set_key]) simp_all

lemma fine_join: "cl_sessions c i = Some s \<Longrightarrow> fine c (join_session n s c)"
  by (rule fine_keeps [OF keeps_join]) (auto simp: good_def intro: key_same_peers)

lemma upd_peer_fields [simp]:
  "cl_peers (upd_peer p f c) = cl_peers c" "cl_sessions (upd_peer p f c) = cl_sessions c"
  "cl_pheap (upd_peer p f c) p = f (cl_pheap c p)"
  by (simp_all add: upd_peer_def)

lemma fine_relay_commit: "fine c0 (snd (relay_commit msg now order c0))"
proof (cases "good c0")
  case True
  obtain p c where rp: "relay_peer msg now c0 = (p, c)" by fastforce
  have r: "good c" "keeps c0 c" "cl_peers c (msg_TargetID msg) = Some p" using relay_peer_ok [OF True rp] by simp_all
  have f0: "fine c0 c" using r by (simp add: fine_def keeps_def True good_def)
  define d where "d = cl_pheap c p"
  define est where "est \<longleftrightarrow> dp_State d = P2PStateEstablished"
  define c1 where "c1 = (if est then upd_peer p (\<lambda>d. d\<lparr>dp_Endpoint := None, dp_RelayPeer := None,
                                                     dp_State := P2PStateTrying\<rparr>) c else c)"
  define c2 where "c2 = (if \<not> key_IsZero (msg_PublicKey msg) \<and> key_IsZero (dp_PublicKey d)
                          then upd_peer p (\<lambda>d. d\<lparr>dp_PublicKey := msg_PublicKey msg\<rparr>) c1 else c1)"
  have "fine c (upd_peer p (\<lambda>d. d\<lparr>dp_Endpoint := None, dp_RelayPeer := None, dp_State := P2PStateTrying\<rparr>) c)"
    by (rule fine_upd_peer) simp_all
  then have c1: "fine c c1" "cl_peers c1 = cl_peers c" "dp_PublicKey (cl_pheap c1 p) = dp_PublicKey d"
    by (simp_all add: c1_def d_def)
  have c2: "fine c1 c2" "cl_peers c2 = cl_peers c" by (simp_all add: c2_def c1 fine_set_key)
  have fc1: "fine c0 c1" using f0 c1(1) by (rule fine_trans)
  have fc2: "fine c0 c2" using fc1 c2(1) by (rule fine_trans)
  have start: "fine c0 (snd (start_session msg now p order c2))"
    using fc2 fine_start_session [of c2 msg p now order] r(3) c2(2) fine_trans by simp
  have join: "fine c0 (upd_peer p (\<lambda>d. d\<lparr>dp_LastUsed := now\<rparr>) (join_session (msg_Nonce msg) s c2))"
    if "joins msg now k c2 = Some s" for k s
  proof -
    have "cl_sessions c2 (msg_TargetID msg) = Some s"
      using that by (auto simp: joins_def split: option.splits if_splits)
    then have "fine c0 (join_session (msg_Nonce msg) s c2)" using fc2 fine_join fine_trans by blast
    then show ?thesis by (rule fine_trans [OF _ fine_upd_peer]) simp_all
  qed
  have fail: "fine c0 (relay_failed p now order b)" if "fine c0 b" for b
    using that keeps_relay_failed fine_trans by blast
  show ?thesis
    unfolding relay_commit_def Let_def rp prod.case d_def [symmetric] est_def [symmetric] c1_def [symmetric] c2_def [symmetric]
    using f0 fail [OF fc1] fail [OF fc2] start join
    by (auto split: option.split simp: split_beta)
qed (simp add: fine_def)

section \<open>Failing, promoting, maintaining\<close>

lemma fine_failPunch: "fine c (snd (failPunchSessionIfCurrentLocked peer session now order c))"
proof (cases "\<exists>p s. peer = Some p \<and> session = Some s \<and> cl_sessions c (dp_ID (cl_pheap c p)) = Some s")
  case True
  then obtain p s where ps: "peer = Some p" "session = Some s" "cl_sessions c (dp_ID (cl_pheap c p)) = Some s" by blast
  let ?b = "setRetryGateLocked p (upd_peer p (mark_failed now) c)" and ?i = "dp_ID (cl_pheap c p)"
  have "keeps c ?b" by (intro keeps_after [OF setRetryGate_frame(1)] keeps_mark_failed)
  also have "cl_sessions ?b ?i = Some s"
    using ps(3) setRetryGate_frame(1) [of p "upd_peer p (mark_failed now) c"] by (simp add: core_of_def)
  then have "keeps ?b (forgetSessionLocked ?i s ?b)" by (rule keeps_forget)
  also have "keeps (forgetSessionLocked ?i s ?b) (signalDone s (forgetSessionLocked ?i s ?b))" by (rule keeps_signalDone)
  finally show ?thesis using ps by (auto simp: failPunchSessionIfCurrentLocked_def intro: fine_rebuild)
next
  case False
  then have "snd (failPunchSessionIfCurrentLocked peer session now order c) = c"
    by (auto simp: failPunchSessionIfCurrentLocked_def split: option.splits)
  then show ?thesis by simp
qed

lemma fine_fail_promotion_commit: "fine c (snd (fail_promotion_commit job now order c))"
proof (cases "\<exists>p. cl_peers c (jb_peerID job) = Some p \<and> cl_sessions c (jb_peerID job) = Some (jb_session job)")
  case True
  then obtain p where p: "cl_peers c (jb_peerID job) = Some p" "cl_sessions c (jb_peerID job) = Some (jb_session job)" by blast
  let ?b = "setRetryGateLocked p (upd_peer p (mark_failed now) c)"
  have "keeps c ?b" by (intro keeps_after [OF setRetryGate_frame(1)] keeps_mark_failed)
  also have "cl_sessions ?b (jb_peerID job) = Some (jb_session job)"
    using p(2) setRetryGate_frame(1) [of p "upd_peer p (mark_failed now) c"] by (simp add: core_of_def)
  then have "keeps ?b (forgetSessionLocked (jb_peerID job) (jb_session job) ?b)" by (rule keeps_forget)
  finally show ?thesis using p by (auto simp: fail_promotion_commit_def intro: fine_rebuild)
next
  case False
  then have "snd (fail_promotion_commit job now order c) = c"
    by (auto simp: fail_promotion_commit_def split: option.splits)
  then show ?thesis by simp
qed

lemma fine_failDirectPromotion: "fine c (failDirectPromotion env job now order c)"
proof -
  obtain r c1 where f: "fail_promotion_commit job now order c = (r, c1)" by fastforce
  have "fine c (signalDone (jb_session job) c1)"
    using fine_fail_promotion_commit [of c job now order] f fine_trans [OF _ fine_signalDone] by simp
  then show ?thesis by (auto simp: failDirectPromotion_def f Let_def intro: fine_after [rotated 2])
qed

lemma fine_punch_commit: "fine c (snd (punch_commit s e now c))"
proof -
  have reply: "fine b (upd_session s (\<lambda>x. x\<lparr>se_lastReply := now\<rparr>) b)" for b
    by (rule fine_upd_session) (simp_all add: acceptsNonce_def)
  have promote: "fine b (upd_session s (\<lambda>x. x\<lparr>se_Established := True, se_Promoting := True, se_promotedAt := now\<rparr>) b)" for b
    by (rule fine_upd_session) (simp_all add: acceptsNonce_def)
  have touch: "fine c (upd_peer p (\<lambda>d. d\<lparr>dp_LastUsed := now\<rparr>) c)" for p by (rule fine_upd_peer) simp_all
  show ?thesis
    using touch fine_trans [OF touch reply] fine_trans [OF touch promote] fine_trans [OF fine_trans [OF touch reply] promote]
    by (auto simp: punch_commit_def Let_def split: option.split)
qed

lemma enqueue_frames [simp]:
  "core_of (snd (enqueue_promotion closing j c)) = core_of c"
  "cl_peerKeyIndex (snd (enqueue_promotion closing j c)) = cl_peerKeyIndex c"
  "core_of (snd (enqueuePunchJob closing pj c)) = core_of c"
  "cl_peerKeyIndex (snd (enqueuePunchJob closing pj c)) = cl_peerKeyIndex c"
  "core_of (snd (enqueue_control closing ev c)) = core_of c"
  "cl_peerKeyIndex (snd (enqueue_control closing ev c)) = cl_peerKeyIndex c"
  by (simp_all add: enqueue_promotion_def enqueuePunchJob_def enqueue_control_def)

lemma fine_HandlePunch: "fine c (HandlePunch env closing packet addr now now2 order2 c)"
proof (cases "HandlePunch env closing packet addr now now2 order2 c = c")
  case False
  then obtain a s k e where *: "addr = Some a" "length packet = 41" "packet ! 0 = P2PSubtypePunchPacket"
      "punch_lookup packet c = Some (s, k)" "verifyPunchMAC env packet k" "env_ParseEndpoint env a = Some e"
    by (auto simp: HandlePunch_def split: option.splits if_splits)
  obtain r c1 where pc: "punch_commit s e now c = (r, c1)" by fastforce
  have f1: "fine c c1" using fine_punch_commit [of c s e now] pc by simp
  define c2 where "c2 reply = (if reply then emit (SendDatagram (put_le 4 MessageP2PType @ packet) e) c1 else c1)" for reply
  have f2: "fine c (c2 reply)" for reply by (rule fine_after [OF _ _ f1]) (simp_all add: c2_def)
  have prep: "fine c (snd (prepareDirectPeer env kk ip e (c2 reply)))" for kk ip reply by (rule fine_after [OF _ _ f2]) simp_all
  have queue: "fine c (snd (enqueue_promotion closing j (snd (prepareDirectPeer env kk ip e (c2 reply)))))" for kk ip reply j
    by (rule fine_after [OF _ _ prep]) simp_all
  show ?thesis
    using f1 f2 prep queue fine_trans [OF prep fine_failDirectPromotion] fine_trans [OF queue fine_failDirectPromotion]
    by (auto simp: HandlePunch_def * pc c2_def [symmetric] Let_def split_beta split: option.split)
qed simp

lemma handlePunchRelay_fine: "fine c (handlePunchRelay env closing msg now order now2 order2 c)"
proof -
  obtain r c1 where rc: "relay_commit msg now order c = (r, c1)" by fastforce
  have f1: "fine c c1" using fine_relay_commit [of c msg now order] rc by simp
  show ?thesis
  proof (cases r)
    case (RelayStarted p s teardown self attempts)
    define c2 where "c2 = (case teardown of None \<Rightarrow> c1 | Some t \<Rightarrow> teardownDirect env t c1)"
    have f2: "fine c c2" by (rule fine_after [OF _ _ f1]) (simp_all add: c2_def split: option.split)
    have f3: "fine c (snd (enqueuePunchJob closing j c2))" for j by (rule fine_after [OF _ _ f2]) simp_all
    show ?thesis
      using f2 f3 fine_trans [OF f2 fine_failPunch] fine_trans [OF f3 fine_failPunch]
      by (auto simp: handlePunchRelay_def rc RelayStarted Let_def c2_def [symmetric] split_beta)
  qed (use f1 in \<open>simp_all add: handlePunchRelay_def rc\<close>)
qed

lemma core_remove_peer:
  assumes "core_inv c" "cl_sessions c i = None" shows "core_inv (c\<lparr>cl_peers := (cl_peers c)(i := None)\<rparr>)"
proof -
  have "\<exists>p. ((cl_peers c)(i := None)) j = Some p \<and> dp_State (cl_pheap c p) \<noteq> P2PStateEstablished"
    if "cl_sessions c j = Some s" for j s
    using core_sessionD [OF assms(1) that] assms(2) that by auto
  then show ?thesis
    using core_peerD [OF assms(1)] core_sessionD [OF assms(1)] core_nonceD [OF assms(1)]
    unfolding core_inv_def by (simp split: if_splits)
qed

lemma keeps_forget_peer: "keeps (snd r) (snd (forget_peer now i r)) \<and> (fst r \<longrightarrow> fst (forget_peer now i r)) \<and>
    (\<not> fst (forget_peer now i r) \<longrightarrow> snd (forget_peer now i r) = snd r)"
proof -
  obtain ch c where r: "r = (ch, c)" by fastforce
  let ?d = "discardSessionLocked i c"
  have "keeps c (?d\<lparr>cl_peers := (cl_peers ?d)(i := None), cl_attemptGates := g\<rparr>)" for g
    unfolding keeps_def
  proof (intro conjI impI)
    assume core: "core_inv c"
    have "core_inv (?d\<lparr>cl_peers := (cl_peers ?d)(i := None)\<rparr>)"
      using core by (intro core_remove_peer core_discard) (simp_all add: discard_fields)
    then show "core_inv (?d\<lparr>cl_peers := (cl_peers ?d)(i := None), cl_attemptGates := g\<rparr>)"
      using core_cong [OF core_of_simps(21)] by blast
    show "no_new_path c (?d\<lparr>cl_peers := (cl_peers ?d)(i := None), cl_attemptGates := g\<rparr>)"
      using keeps_discard [of c i] core by (simp add: keeps_def no_new_path_def)
  qed
  then show ?thesis by (auto simp: r forget_peer_def Let_def split: option.split)
qed

lemma forgetUnlisted_ok:
  "keeps c (snd (forgetUnlistedPeersLocked now order c)) \<and>
   (\<not> fst (forgetUnlistedPeersLocked now order c) \<longrightarrow> snd (forgetUnlistedPeersLocked now order c) = c)"
proof -
  have "keeps (snd r) (snd (fold (forget_peer now) order r)) \<and> (fst r \<longrightarrow> fst (fold (forget_peer now) order r)) \<and>
    (\<not> fst (fold (forget_peer now) order r) \<longrightarrow> snd (fold (forget_peer now) order r) = snd r)" for r
  proof (induction order arbitrary: r)
    case (Cons i order)
    let ?r = "forget_peer now i r"
    have "keeps (snd r) (snd (fold (forget_peer now) order ?r))"
      using keeps_trans [OF conjunct1 [OF keeps_forget_peer] conjunct1 [OF Cons.IH]] .
    then show ?case using Cons.IH [of ?r] keeps_forget_peer [of r now i] by auto
  qed simp
  then show ?thesis unfolding forgetUnlistedPeersLocked_def by (metis fst_conv snd_conv)
qed

lemma directKeepalive_frame [simp]:
  "dp_ID (snd (directKeepaliveDue tx now d)) = dp_ID d" "dp_PublicKey (snd (directKeepaliveDue tx now d)) = dp_PublicKey d"
  "dp_State (snd (directKeepaliveDue tx now d)) = dp_State d"
  by (simp_all add: directKeepaliveDue_def)

lemma upd_peer_const: "upd_peer p (\<lambda>_. g (cl_pheap c p)) c = upd_peer p g c"
  by (simp add: upd_peer_def)

text \<open>What the loop over the peers keeps: the core always, the key index too unless it has to be rebuilt.\<close>

definition maintained :: "p2p_client \<Rightarrow> maintenance \<Rightarrow> bool" where
  "maintained c m \<longleftrightarrow> keeps c (mt_client m) \<and> (\<not> mt_changed m \<longrightarrow> fine c (mt_client m))"

lemma maintained_peer:
  assumes "maintained c m" shows "maintained c (maintain_peer env now i m)"
proof (cases "cl_peers (mt_client m) i")
  case None
  then show ?thesis using assms by (simp add: maintain_peer_def)
next
  case (Some p)
  let ?b = "mt_client m" and ?d = "cl_pheap (mt_client m) p"
  have kb: "keeps c ?b" using assms by (simp add: maintained_def)
  show ?thesis
  proof (cases "dp_State ?d")
    case P2PStateTrying
    have "keeps ?b (discardSessionLocked i (setRetryGateLocked p (upd_peer p (mark_failed now) ?b)))"
      by (intro keeps_trans [OF keeps_after [OF setRetryGate_frame(1) keeps_mark_failed] keeps_discard])
    then show ?thesis
      using assms keeps_trans [OF kb] by (simp add: maintain_peer_def Some P2PStateTrying maintained_def Let_def)
  next
    case P2PStateEstablished
    define g where "g = (\<lambda>d. case env_LookupPeer env (dp_PublicKey ?d) of None \<Rightarrow> d
      | Some w \<Rightarrow> snd (directKeepaliveDue (env_txBytes env w) now d))"
    let ?c1 = "upd_peer p g ?b"
    have g: "dp_ID (g d) = dp_ID d" "dp_PublicKey (g d) = dp_PublicKey d" "dp_State (g d) = dp_State d" for d
      by (simp_all add: g_def split: option.split)
    have f1: "fine ?b ?c1" by (rule fine_upd_peer) (simp_all add: g)
    have k1: "keeps ?b ?c1" by (rule keeps_upd_peer) (simp_all add: g)
    have k2: "keeps ?c1 (setRetryGateLocked p (upd_peer p (\<lambda>d. (mark_failed now d)\<lparr>dp_Endpoint := None\<rparr>) ?c1))"
      by (rule keeps_after [OF setRetryGate_frame(1) keeps_upd_peer]) (simp_all add: mark_failed_def)
    have c1: "upd_peer p (\<lambda>_. snd (case env_LookupPeer env (dp_PublicKey ?d) of None \<Rightarrow> (False, ?d)
        | Some w \<Rightarrow> directKeepaliveDue (env_txBytes env w) now ?d)) ?b = ?c1"
      by (simp add: g_def upd_peer_def split: option.split)
    have "maintained c (m\<lparr>mt_client := ?c1, mt_keepalive := x\<rparr>)" for x
      using assms keeps_trans [OF kb k1] fine_trans [OF _ f1] by (simp add: maintained_def)
    moreover have "keeps c (setRetryGateLocked p (upd_peer p (\<lambda>d. (mark_failed now d)\<lparr>dp_Endpoint := None\<rparr>) ?c1))"
      using keeps_trans [OF keeps_trans [OF kb k1] k2] .
    ultimately show ?thesis
      by (simp add: maintain_peer_def Some P2PStateEstablished Let_def split_beta c1) (simp add: maintained_def)
  qed (use assms in \<open>simp_all add: maintain_peer_def Some\<close>)
qed

lemma fine_maintenance_commit: "fine c (mt_client (maintenance_commit env now order order2 order3 c))"
proof -
  obtain ch c1 where f: "forgetUnlistedPeersLocked now order c = (ch, c1)" by fastforce
  let ?m0 = "\<lparr>mt_client = c1, mt_remove = [], mt_keepalive = [], mt_changed = ch\<rparr>"
  have "maintained c ?m0" using forgetUnlisted_ok [of c now order] f by (auto simp: maintained_def)
  then have "maintained c (fold (maintain_peer env now) order2 ?m0)"
    by (induction order2 rule: rev_induct) (simp_all add: maintained_peer)
  then show ?thesis by (auto simp: maintenance_commit_def f Let_def maintained_def intro: fine_rebuild)
qed

lemma fine_handlePeerList: "fine c (handlePeerList closing msg now order c)"
proof -
  let ?d = "msg_Payload msg" and ?n = "unat (get_be (slice 0 4 (msg_Payload msg)) :: u32)"
  obtain c1 b r where f: "fold (\<lambda>i. list_peer now (parse_entry ?d (4 + 78 * i))) [0..<?n] (c, False, []) = (c1, b, r)"
    by (metis surj_pair)
  have "keeps c c1" using keeps_list_fold [of "(c, False, [])" now "\<lambda>i. parse_entry ?d (4 + 78 * i)" "[0..<?n]"] f by simp
  then have "fine c (rebuildIndexesLocked order c1)" by (rule fine_rebuild)
  then show ?thesis by (auto simp: handlePeerList_def Let_def f intro: fine_after [rotated 2])
qed

lemma fine_tryP2P: "fine c (snd (tryP2PByID env i now order c))"
proof -
  have "fine c (rebuildIndexesLocked order (upd_peer p (\<lambda>d. d\<lparr>dp_State := P2PStateTrying, dp_LastUsed := now\<rparr>) c))" for p
    by (intro fine_rebuild keeps_upd_peer) simp_all
  then have start: "fine c (punch_request env i
      (rebuildIndexesLocked order (upd_peer p (\<lambda>d. d\<lparr>dp_State := P2PStateTrying, dp_LastUsed := now\<rparr>) c)))" for p
    by (rule fine_after [rotated 2]) (simp_all add: punch_request_def)
  have gate: "fine c (store_gate j v c)" for j v by (rule fine_frame) simp_all
  show ?thesis using start gate by (auto simp: tryP2PByID_def Let_def split: option.split P2PState.split)
qed

lemma fine_close: "fine c (close_client order c)"
proof -
  have "fine b (fold (\<lambda>i c. case cl_sessions c i of None \<Rightarrow> c | Some s \<Rightarrow> signalDone s c) order b)" for b
  proof (induction order arbitrary: b)
    case (Cons i order)
    have "fine b (case cl_sessions b i of None \<Rightarrow> b | Some s \<Rightarrow> signalDone s b)"
      by (auto split: option.split intro: fine_signalDone)
    then show ?case using fine_trans [OF _ Cons.IH] by simp
  qed simp
  then have rest: "fine (c\<lparr>cl_closed := True\<rparr>) (close_client order c)" unfolding close_client_def .
  have "fine c (c\<lparr>cl_closed := True\<rparr>)" by (rule fine_frame) simp_all
  then show ?thesis using rest by (rule fine_trans)
qed

lemma core_upd_idle:
  assumes "core_inv c" "cl_sessions c (dp_ID (cl_pheap c p)) = None" "\<And>d. dp_ID (f d) = dp_ID d"
  shows "core_inv (upd_peer p f c)"
proof -
  have "\<exists>q. cl_peers c i = Some q \<and> q \<noteq> p \<and> dp_State (cl_pheap c q) \<noteq> P2PStateEstablished"
    if "cl_sessions c i = Some s" for i s
    using core_sessionD [OF assms(1) that] core_peerD [OF assms(1)] assms(2) that by fastforce
  then show ?thesis
    using core_peerD [OF assms(1)] core_sessionD [OF assms(1)] core_nonceD [OF assms(1)] assms(3)
    unfolding core_inv_def upd_peer_def by (simp split: if_splits) metis
qed

lemma forget_upd_peer: "forgetSessionLocked i s (upd_peer p f c) = upd_peer p f (forgetSessionLocked i s c)"
proof -
  have nonce: "delete_nonce_if n s (upd_peer p f b) = upd_peer p f (delete_nonce_if n s b)" for n b
    by (simp add: delete_nonce_if_def upd_peer_def)
  have sess: "(upd_peer p f b)\<lparr>cl_sessions := m\<rparr> = upd_peer p f (b\<lparr>cl_sessions := m\<rparr>)" for b m
    by (simp add: upd_peer_def)
  have heap: "cl_sheap (upd_peer p f b) = cl_sheap b" for b by (simp add: upd_peer_def)
  show ?thesis
    unfolding forgetSessionLocked_def Let_def heap upd_peer_fields(2) sess
    by (cases "cl_sessions c i = Some s") (simp_all add: nonce)
qed

lemma promotion_ok:
  assumes "good c"
  shows "good (snd (promotion_commit job now order c)) \<and>
    (\<forall>q. dp_State (cl_pheap (snd (promotion_commit job now order c)) q) = P2PStateEstablished \<longrightarrow>
       dp_State (cl_pheap c q) = P2PStateEstablished \<or>
       (promotion_current job c \<and> cl_peers c (jb_peerID job) = Some q))"
proof (cases "promotion_current job c")
  case True
  then obtain p where p: "cl_peers c (jb_peerID job) = Some p" "cl_sessions c (jb_peerID job) = Some (jb_session job)"
    by (auto simp: promotion_current_def split: option.splits)
  let ?f = "\<lambda>d. d\<lparr>dp_State := P2PStateEstablished, dp_Endpoint := Some (jb_endpoint job),
                        dp_RelayPeer := jb_relayPeer job, dp_EstablishedAt := now, dp_LastUsed := now,
                        dp_PunchAttempts := 0\<rparr>"
  let ?c1 = "forgetSessionLocked (jb_peerID job) (jb_session job) c"
  have core: "core_inv c" using assms by (simp add: good_def)
  note ff = forget_fields [OF core p(2)]
  have run: "snd (promotion_commit job now order c) = rebuildIndexesLocked order (upd_peer p ?f ?c1)"
    using True p by (simp add: promotion_commit_def forget_upd_peer)
  have "core_inv ?c1" using core p(2) by (rule core_forget)
  then have "core_inv (upd_peer p ?f ?c1)"
    using core_peerD [OF core p(1)] by (intro core_upd_idle) (simp_all add: ff)
  then have "good (snd (promotion_commit job now order c))" unfolding run by (rule good_rebuild)
  moreover have "cl_pheap (rebuildIndexesLocked order (upd_peer p ?f ?c1)) = (cl_pheap c)(p := ?f (cl_pheap c p))"
    using rebuild_frame(1) [of order "upd_peer p ?f ?c1"] ff by (simp add: core_of_def upd_peer_def)
  ultimately show ?thesis using True p(1) unfolding run by simp
qed (use assms in \<open>simp add: promotion_commit_def\<close>)

section \<open>Queues stay bounded\<close>

lemma queue_frame: "\<lbrakk>queue_inv c; queues_of c' = queues_of c\<rbrakk> \<Longrightarrow> queue_inv c'"
  using queue_cong by blast

lemma enqueue_bounded:
  "queue_inv c \<Longrightarrow> queue_inv (snd (enqueue_control closing ev c))"
  "queue_inv c \<Longrightarrow> queue_inv (snd (queueP2PAttempt closing i c))"
  "queue_inv c \<Longrightarrow> queue_inv (snd (enqueuePunchJob closing pj c))"
  "queue_inv c \<Longrightarrow> queue_inv (snd (enqueue_promotion closing j c))"
  by (auto simp: queue_inv_def enqueue_control_def queueP2PAttempt_def enqueuePunchJob_def enqueue_promotion_def)

lemma retry_bounded: "queue_inv c \<Longrightarrow> queue_inv (fold (\<lambda>i c. snd (queueP2PAttempt closing i c)) is c)"
  by (induction "is" arbitrary: c) (auto intro: enqueue_bounded)

lemma renumber_queues [simp]: "queues_of (snd (renumberPeerLocked k i c)) = queues_of c"
  by (simp add: renumberPeerLocked_def Let_def split: option.split)

lemma entry_queues [simp]: "queues_of (snd (snd (entry_peer now e c))) = queues_of c"
  by (simp add: entry_peer_def split: option.split)

lemma list_peer_queues: "queues_of (fst (list_peer now e st)) = queues_of (fst st)"
proof -
  obtain c b r where st: "st = (c, b, r)" by (metis surj_pair)
  obtain moved c1 where r: "renumberPeerLocked (le_publicKey e) (le_peerID e) c = (moved, c1)" by fastforce
  obtain again p c2 where ep: "entry_peer now e c1 = (again, p, c2)" by (metis surj_pair)
  show ?thesis
    using renumber_queues [of "le_publicKey e" "le_peerID e" c] entry_queues [of now e c1]
    by (simp add: st list_peer_def r ep Let_def)
qed

lemma list_fold_queues: "queues_of (fst (fold (\<lambda>i. list_peer now (f i)) is st)) = queues_of (fst st)"
  by (induction "is" arbitrary: st) (simp_all add: list_peer_queues)

lemma relay_peer_queues: "queues_of (snd (relay_peer msg now c)) = queues_of c"
  by (simp add: relay_peer_def Let_def)

lemma relay_queues [simp]:
  "queues_of (relay_failed p now order c) = queues_of c" "queues_of (snd (start_session msg now p order c)) = queues_of c"
  by (simp_all add: relay_failed_def start_session_def Let_def)

lemma relay_commit_queues: "queues_of (snd (relay_commit msg now order c)) = queues_of c"
proof -
  obtain p c1 where rp: "relay_peer msg now c = (p, c1)" by fastforce
  have "queues_of c1 = queues_of c" using relay_peer_queues [of msg now c] rp by simp
  then show ?thesis
    by (auto simp: relay_commit_def Let_def rp split_beta split: option.split)
qed

lemma fail_queues [simp]:
  "queues_of (snd (failPunchSessionIfCurrentLocked pr s now order c)) = queues_of c"
  "queues_of (failDirectPromotion env job now order c) = queues_of c"
  "queues_of (snd (promotion_commit job now order c)) = queues_of c"
  "queues_of (snd (punch_commit ss e now c)) = queues_of c"
  "queues_of (promotion_finish env job now order c) = queues_of c"
  by (simp_all add: failPunchSessionIfCurrentLocked_def failDirectPromotion_def fail_promotion_commit_def
      promotion_commit_def promotion_finish_def punch_commit_def Let_def split_beta split: option.split)

lemma forget_peer_queues: "queues_of (snd (forget_peer now i r)) = queues_of (snd r)"
  by (simp add: forget_peer_def split_beta Let_def split: option.split)

lemma maintain_queues: "queues_of (mt_client (maintain_peer env now i m)) = queues_of (mt_client m)"
  by (simp add: maintain_peer_def Let_def split_beta split: option.split P2PState.split)

lemma maintenance_queues: "queues_of (mt_client (maintenance_commit env now o1 o2 o3 c)) = queues_of c"
proof -
  have "queues_of (snd (fold (forget_peer now) o1 r)) = queues_of (snd r)" for r
    by (induction o1 arbitrary: r) (simp_all add: forget_peer_queues)
  moreover have "queues_of (mt_client (fold (maintain_peer env now) o2 m)) = queues_of (mt_client m)" for m
    by (induction o2 arbitrary: m) (simp_all add: maintain_queues)
  ultimately show ?thesis by (simp add: maintenance_commit_def forgetUnlistedPeersLocked_def Let_def split_beta)
qed

lemma HandlePunch_queues:
  assumes "queue_inv c" shows "queue_inv (HandlePunch env closing packet addr now now2 order2 c)"
proof (cases "HandlePunch env closing packet addr now now2 order2 c = c")
  case False
  then obtain a s k e where *: "addr = Some a" "length packet = 41" "packet ! 0 = P2PSubtypePunchPacket"
      "punch_lookup packet c = Some (s, k)" "verifyPunchMAC env packet k" "env_ParseEndpoint env a = Some e"
    by (auto simp: HandlePunch_def split: option.splits if_splits)
  obtain r c1 where pc: "punch_commit s e now c = (r, c1)" by fastforce
  have f1: "queue_inv c1" using queue_frame [OF assms, of c1] fail_queues(4) [of s e now c] pc by simp
  define c2 where "c2 reply = (if reply then emit (SendDatagram (put_le 4 MessageP2PType @ packet) e) c1 else c1)" for reply
  have f2: "queue_inv (c2 reply)" for reply by (rule queue_frame [OF f1]) (simp add: c2_def)
  have prep: "queue_inv (snd (prepareDirectPeer env kk ip e (c2 reply)))" for kk ip reply by (rule queue_frame [OF f2]) simp
  note queue = enqueue_bounded(4) [OF prep]
  have fail: "queue_inv (failDirectPromotion env j now2 order2 b)" if "queue_inv b" for j b
    by (rule queue_frame [OF that]) simp
  show ?thesis
    using f1 f2 prep queue fail [OF prep] fail [OF queue]
    by (auto simp: HandlePunch_def * pc c2_def [symmetric] Let_def split_beta split: option.split)
qed (use assms in simp)

lemma handlePunchRelay_queues:
  assumes "queue_inv c" shows "queue_inv (handlePunchRelay env closing msg now order now2 order2 c)"
proof -
  obtain r c1 where rc: "relay_commit msg now order c = (r, c1)" by fastforce
  have f1: "queue_inv c1" using queue_frame [OF assms, of c1] relay_commit_queues [of msg now order c] rc by simp
  have fail: "queue_inv (snd (failPunchSessionIfCurrentLocked p s now2 order2 b))" if "queue_inv b" for p s b
    by (rule queue_frame [OF that]) simp
  show ?thesis
  proof (cases r)
    case (RelayStarted p s teardown self attempts)
    define c2 where "c2 = (case teardown of None \<Rightarrow> c1 | Some t \<Rightarrow> teardownDirect env t c1)"
    have f2: "queue_inv c2" by (rule queue_frame [OF f1]) (simp add: c2_def split: option.split)
    note f3 = enqueue_bounded(3) [OF f2]
    show ?thesis
      using f2 f3 fail [OF f2] fail [OF f3]
      by (auto simp: handlePunchRelay_def rc RelayStarted Let_def c2_def [symmetric] split_beta)
  qed (use f1 in \<open>simp_all add: handlePunchRelay_def rc\<close>)
qed

lemma handlePeerList_queues:
  assumes "queue_inv c" shows "queue_inv (handlePeerList closing msg now order c)"
proof -
  let ?d = "msg_Payload msg" and ?n = "unat (get_be (slice 0 4 (msg_Payload msg)) :: u32)"
  obtain c1 b r where f: "fold (\<lambda>i. list_peer now (parse_entry ?d (4 + 78 * i))) [0..<?n] (c, False, []) = (c1, b, r)"
    by (metis surj_pair)
  have q: "queues_of c1 = queues_of c"
    using list_fold_queues [of now "\<lambda>i. parse_entry ?d (4 + 78 * i)" "[0..<?n]" "(c, False, [])"] f by simp
  have "queue_inv (rebuildIndexesLocked order c1)" by (rule queue_frame [OF assms]) (simp add: q)
  moreover have "queue_inv ((rebuildIndexesLocked order c1)\<lparr>cl_reregister := True\<rparr>)" by (rule queue_frame [OF assms]) (simp add: q)
  ultimately show ?thesis using assms by (simp add: handlePeerList_def Let_def f retry_bounded)
qed

end
