(* ===== verification/P2P_Steps.thy ===== *)
theory P2P_Steps
  imports P2P_Invariant
begin

text \<open>
  The P2P client as a system of steps. A step is one critical section of a worker of \<^verbatim>\<open>p2p_client.go\<close>,
  or a whole handler, with any arguments a worker could hold; so every interleaving of the control
  worker, the attempt worker, the punch and promotion workers, the maintenance loop and the packet path
  is a sequence of steps. The properties hold in every state such a sequence reaches.
\<close>

text \<open>\<^verbatim>\<open>HandleMessage\<close>; peer names only label peers and are not part of the state.\<close>

definition HandleMessage ::
    "p2p_env \<Rightarrow> bool \<Rightarrow> p2p_message \<Rightarrow> time \<Rightarrow> u32 list \<Rightarrow> time \<Rightarrow> u32 list \<Rightarrow> p2p_client \<Rightarrow> p2p_client" where
  "HandleMessage env closing msg now order now2 order2 c =
     (if msg_Subtype msg = P2PSubtypeRegisterAck then handleRegisterAck env msg c
      else if msg_Subtype msg = P2PSubtypePeerList then handlePeerList closing msg now order c
      else if msg_Subtype msg = P2PSubtypePunchRelay then handlePunchRelay env closing msg now order now2 order2 c
      else c)"

definition controlWorker :: "p2p_env \<Rightarrow> bool \<Rightarrow> time \<Rightarrow> u32 list \<Rightarrow> time \<Rightarrow> u32 list \<Rightarrow> p2p_client \<Rightarrow> p2p_client" where
  "controlWorker env closing now order now2 order2 c =
     (case cl_controlQueue c of [] \<Rightarrow> c
      | ev # rest \<Rightarrow>
        let c1 = c\<lparr>cl_controlQueue := rest\<rparr> in
        case ev of ControlMessage m \<Rightarrow> HandleMessage env closing m now order now2 order2 c1
        | ControlPunch packet a \<Rightarrow> HandlePunch env closing packet (Some a) now now2 order2 c1)"

definition attemptWorker :: "p2p_env \<Rightarrow> time \<Rightarrow> u32 list \<Rightarrow> p2p_client \<Rightarrow> p2p_client" where
  "attemptWorker env now order c =
     (case cl_attemptQueue c of [] \<Rightarrow> c
      | i # rest \<Rightarrow> snd (tryP2PByID env i now order (c\<lparr>cl_attemptQueue := rest\<rparr>)))"

datatype p2p_event =
    EnqueueMessageEv bool "p2p_message option"
  | EnqueuePunchEv bool bytes "udp_addr option"
  | ControlWorkerEv p2p_env bool time "u32 list" time "u32 list"
  | AttemptWorkerEv p2p_env time "u32 list"
  | TakePunchJobEv
  | TakePromotionEv
  | RelayCommitEv p2p_message time "u32 list"
  | RelayFailEv pref sref time "u32 list"
  | TeardownEv p2p_env direct_teardown
  | PunchQueueEv bool punch_job
  | PunchDeadlineEv punch_job time time "u32 list"
  | PunchCommitEv sref udp_addr time
  | PrepareEv p2p_env pubkey ip udp_addr
  | PromotionQueueEv bool promotion_job
  | FailPromotionEv p2p_env promotion_job time "u32 list"
  | KeepaliveEv pubkey
  | ActivateEv p2p_env pubkey ip
  | PromotionEv p2p_env promotion_job time "u32 list"
  | DropOrphanEv p2p_env promotion_job
  | ObserveEv bool bytes time
  | RegisterEv p2p_env time
  | ExtraCandidatesEv "udp_addr list"
  | MaintainEv p2p_env time "u32 list" "u32 list" "u32 list"
  | MaintenanceTickEv p2p_env time time "u32 list" "u32 list" "u32 list"
  | CloseEv "u32 list"

fun p2p_step :: "p2p_client \<Rightarrow> p2p_event \<Rightarrow> p2p_client" where
  "p2p_step c (EnqueueMessageEv closing msg) = snd (EnqueueMessage closing msg c)"
| "p2p_step c (EnqueuePunchEv closing packet addr) = snd (EnqueuePunch closing packet addr c)"
| "p2p_step c (ControlWorkerEv env closing now order now2 order2) = controlWorker env closing now order now2 order2 c"
| "p2p_step c (AttemptWorkerEv env now order) = attemptWorker env now order c"
| "p2p_step c TakePunchJobEv = c\<lparr>cl_punchQueue := tl (cl_punchQueue c)\<rparr>"
| "p2p_step c TakePromotionEv = c\<lparr>cl_promotionQueue := tl (cl_promotionQueue c)\<rparr>"
| "p2p_step c (RelayCommitEv msg now order) = snd (relay_commit msg now order c)"
| "p2p_step c (RelayFailEv p s now order) = snd (failPunchSessionIfCurrentLocked (Some p) (Some s) now order c)"
| "p2p_step c (TeardownEv env t) = teardownDirect env t c"
| "p2p_step c (PunchQueueEv closing job) = snd (enqueuePunchJob closing job c)"
| "p2p_step c (PunchDeadlineEv job deadline now order) = snd (punch_deadline job deadline now order c)"
| "p2p_step c (PunchCommitEv s e now) = snd (punch_commit s e now c)"
| "p2p_step c (PrepareEv env k ip e) = snd (prepareDirectPeer env k ip e c)"
| "p2p_step c (PromotionQueueEv closing job) = snd (enqueue_promotion closing job c)"
| "p2p_step c (FailPromotionEv env job now order) = failDirectPromotion env job now order c"
| "p2p_step c (KeepaliveEv k) = startDirectKeepalive k c"
| "p2p_step c (ActivateEv env k ip) = snd (activateDirectPeer env k ip c)"
| "p2p_step c (PromotionEv env job now order) = promotion_finish env job now order c"
| "p2p_step c (DropOrphanEv env job) = dropOrphanCandidate env job c"
| "p2p_step c (ObserveEv closing dst now) = ObserveDestination closing dst now c"
| "p2p_step c (RegisterEv env now) = register env now (snd (registerDue now c))"
| "p2p_step c (ExtraCandidatesEv addrs) = SetExtraCandidates addrs c"
| "p2p_step c (MaintainEv env now o1 o2 o3) = mt_client (maintenance_commit env now o1 o2 o3 c)"
| "p2p_step c (MaintenanceTickEv env t now o1 o2 o3) = maintenance_tick env t now o1 o2 o3 c"
| "p2p_step c (CloseEv order) = close_client order c"

section \<open>Steps keep the invariant\<close>

lemma registerDue_frame [simp]:
  "core_of (snd (registerDue now c)) = core_of c" "cl_peerKeyIndex (snd (registerDue now c)) = cl_peerKeyIndex c"
  "queues_of (snd (registerDue now c)) = queues_of c"
  by (simp_all add: registerDue_def)

lemma register_frame [simp]:
  "core_of (register env now c) = core_of c" "cl_peerKeyIndex (register env now c) = cl_peerKeyIndex c"
  "queues_of (register env now c) = queues_of c"
  by (simp_all add: register_def Let_def)

lemma requestPeerList_frame [simp]:
  "core_of (requestPeerList env c) = core_of c" "cl_peerKeyIndex (requestPeerList env c) = cl_peerKeyIndex c"
  "queues_of (requestPeerList env c) = queues_of c"
  by (simp_all add: requestPeerList_def)

lemma registerAck_frame [simp]:
  "core_of (handleRegisterAck env msg c) = core_of c" "cl_peerKeyIndex (handleRegisterAck env msg c) = cl_peerKeyIndex c"
  "queues_of (handleRegisterAck env msg c) = queues_of c"
  by (simp_all add: handleRegisterAck_def)

lemma observe_frame [simp]:
  "core_of (ObserveDestination closing dst now c) = core_of c"
  "cl_peerKeyIndex (ObserveDestination closing dst now c) = cl_peerKeyIndex c"
  by (simp_all add: ObserveDestination_def Let_def split_beta split: option.split)

lemma teardown_fold_frame [simp]:
  "core_of (fold (teardownDirect env) ts c) = core_of c" "cl_peerKeyIndex (fold (teardownDirect env) ts c) = cl_peerKeyIndex c"
  "queues_of (fold (teardownDirect env) ts c) = queues_of c"
  by (induction ts arbitrary: c) simp_all

lemma keepalive_fold_frame [simp]:
  "core_of (fold (\<lambda>w. emit (SendKeepalive w)) ws c) = core_of c"
  "cl_peerKeyIndex (fold (\<lambda>w. emit (SendKeepalive w)) ws c) = cl_peerKeyIndex c"
  "queues_of (fold (\<lambda>w. emit (SendKeepalive w)) ws c) = queues_of c"
  by (induction ws arbitrary: c) simp_all

lemma fine_maintenance_tick: "fine c (maintenance_tick env t now o1 o2 o3 c)"
proof -
  obtain due c1 where rd: "registerDue t c = (due, c1)" by fastforce
  define c2 where "c2 = (if due then register env t c1 else c1)"
  have f1: "core_of c1 = core_of c" "cl_peerKeyIndex c1 = cl_peerKeyIndex c"
    using registerDue_frame [of t c] rd by simp_all
  have f2: "fine c c2" by (rule fine_frame) (simp_all add: c2_def f1)
  have f2': "fine c (requestPeerList env c2)" by (rule fine_after [OF _ _ f2]) simp_all
  define m where "m = maintenance_commit env now o1 o2 o3 (requestPeerList env c2)"
  have fm: "fine c (mt_client m)" unfolding m_def by (rule fine_trans [OF f2' fine_maintenance_commit])
  have "fine c ((fold (\<lambda>w. emit (SendKeepalive w)) (mt_keepalive m) (fold (teardownDirect env) (mt_remove m) (mt_client m)))
      \<lparr>cl_droppedControl := 0, cl_droppedAttempts := 0\<rparr>)"
    by (rule fine_after [OF _ _ fm]) simp_all
  then show ?thesis
    using f2 by (simp add: maintenance_tick_def rd Let_def c2_def [symmetric] m_def [symmetric])
qed

lemma fine_HandleMessage: "fine c (HandleMessage env closing msg now order now2 order2 c)"
  using fine_handlePeerList handlePunchRelay_fine fine_frame [OF registerAck_frame(1,2)]
  by (simp add: HandleMessage_def)

lemma fine_controlWorker: "fine c (controlWorker env closing now order now2 order2 c)"
proof -
  have "fine c (c\<lparr>cl_controlQueue := q\<rparr>)" for q by (rule fine_frame) simp_all
  then show ?thesis
    using fine_trans [OF _ fine_HandleMessage] fine_trans [OF _ fine_HandlePunch]
    by (simp add: controlWorker_def Let_def split: list.split control_event.split)
qed

lemma fine_attemptWorker: "fine c (attemptWorker env now order c)"
proof -
  have "fine c (c\<lparr>cl_attemptQueue := q\<rparr>)" for q by (rule fine_frame) simp_all
  then show ?thesis using fine_trans [OF _ fine_tryP2P] by (simp add: attemptWorker_def split: list.split)
qed

lemma fine_deadline: "fine c (snd (punch_deadline job deadline now order c))"
  using fine_failPunch by (simp add: punch_deadline_def Let_def)

lemma promotion_finish_core:
  "core_of (promotion_finish env job now order c) =
     core_of (signalDone (jb_session job) (snd (promotion_commit job now order c)))"
  "cl_peerKeyIndex (promotion_finish env job now order c) =
     cl_peerKeyIndex (signalDone (jb_session job) (snd (promotion_commit job now order c)))"
  by (simp_all add: promotion_finish_def Let_def split_beta)

lemma good_promotion_finish:
  assumes "good c" shows "good (promotion_finish env job now order c)"
proof -
  have "good (signalDone (jb_session job) (snd (promotion_commit job now order c)))"
    using promotion_ok [OF assms] fine_signalDone by (auto simp: fine_def)
  then show ?thesis by (rule good_frame) (rule promotion_finish_core)+
qed

definition is_promotion :: "p2p_event \<Rightarrow> bool" where
  "is_promotion e = (case e of PromotionEv env job now order \<Rightarrow> True | _ \<Rightarrow> False)"

lemma step_fine: "\<not> is_promotion e \<Longrightarrow> fine c (p2p_step c e)"
proof (cases e)
  case (EnqueueMessageEv closing msg)
  then show ?thesis by (auto simp: EnqueueMessage_def split: option.split intro: fine_frame)
next
  case (EnqueuePunchEv closing packet addr)
  then show ?thesis by (auto simp: EnqueuePunch_def split: option.split intro: fine_frame)
qed (auto simp: is_promotion_def fine_controlWorker fine_attemptWorker fine_relay_commit fine_failPunch
    fine_failDirectPromotion fine_punch_commit fine_maintenance_commit fine_maintenance_tick fine_close fine_deadline
    startDirectKeepalive_def SetExtraCandidates_def intro: fine_frame)

lemma good_step: "good c \<Longrightarrow> good (p2p_step c e)"
proof (cases e)
  case (PromotionEv env job now order)
  then show "good c \<Longrightarrow> ?thesis" by (simp add: good_promotion_finish)
qed (use step_fine [of e c] in \<open>auto simp: is_promotion_def fine_def\<close>)

lemma good_start: "good (NewP2PClient pk sks ph sh)"
  by (simp add: good_def core_inv_def key_inv_def NewP2PClient_def)

interpretation p2p: event_system p2p_step "NewP2PClient pk sks ph sh" good for pk sks ph sh
  by unfold_locales (rule good_start, rule good_step)

section \<open>An example run\<close>

text \<open>One relay for peer 7, the start of a session; the witnesses of the properties use it.\<close>

definition ex_key :: pubkey where "ex_key = replicate 32 5"

definition ex_relay :: p2p_message where
  "ex_relay = (zero_message P2PSubtypePunchRelay)\<lparr>msg_PublicKey := ex_key, msg_TargetID := 7,
     msg_Nonce := [1, 2, 3, 4, 5, 6, 7, 8], msg_Payload := [10, 0, 0, 9]\<rparr>"

definition ex_env :: p2p_env where
  "ex_env = \<lparr>env_LookupPeer = (\<lambda>_. None), env_remoteStatic = (\<lambda>_. zero_key), env_anyPeer = None,
     env_lastHandshakeNano = (\<lambda>_. 0), env_txBytes = (\<lambda>_. 0), env_allowedips = (\<lambda>_. None),
     env_IpcSet = (\<lambda>_. True), env_routeHandler = False, env_ParseEndpoint = Some, env_port = 0,
     env_localCandidates = [], env_sharedSecret = (\<lambda>_. Some []), env_mac = (\<lambda>_ _. replicate 32 1)\<rparr>"

definition ex_start :: p2p_client where
  "ex_start = NewP2PClient zero_key [] (\<lambda>_. new_peer 0) (\<lambda>_. relay_session ex_relay 0 (new_peer 0))"

definition ex_run :: "p2p_event list" where
  "ex_run = [RelayCommitEv ex_relay 0 [7]]"

definition ex_client :: p2p_client where "ex_client = foldl p2p_step ex_start ex_run"

definition ex_job :: promotion_job where
  "ex_job = \<lparr>jb_peerID = 7, jb_session = 0, jb_publicKey = ex_key, jb_assignedIP = [10, 0, 0, 9],
     jb_endpoint = \<lparr>addr_IP = [1, 2, 3, 4], addr_Port = 9\<rparr>, jb_relayPeer = None, jb_startedAt = 0\<rparr>"

definition ex_packet :: bytes where
  "ex_packet = P2PSubtypePunchPacket # [1, 2, 3, 4, 5, 6, 7, 8] @ replicate 32 1"

lemma ex_key_nonzero: "\<not> key_IsZero ex_key" "key_IsZero zero_key" 
  by (simp_all add: ex_key_def key_IsZero_def zero_key_def)

lemmas ex_defs = ex_start_def ex_run_def ex_relay_def NewP2PClient_def relay_commit_def relay_peer_def
  renumberPeerLocked_def alloc_peer_def upd_peer_def new_peer_def zero_message_def start_session_def joins_def
  relay_session_def relay_update_def discardSessionLocked_def rebuildIndexesLocked_def rebuild_one_def
  Let_def active_def ex_key_nonzero

lemma ex_client_eq:
  "cl_peers ex_client = [7 \<mapsto> 0]" "cl_sessions ex_client = [7 \<mapsto> 0]"
  "cl_sessionByNonce ex_client = [[1, 2, 3, 4, 5, 6, 7, 8] \<mapsto> 0]"
  "cl_peerKeyIndex ex_client = [ex_key \<mapsto> 7]" "cl_effects ex_client = []" "cl_attemptGates ex_client = Map.empty"
  "cl_serverPeerKey ex_client = zero_key" "cl_promotionQueue ex_client = []" "\<not> cl_closed ex_client"
  by (simp_all add: ex_client_def ex_defs)

lemma ex_peer_eq:
  "dp_State (cl_pheap ex_client 0) = P2PStateTrying" "dp_PublicKey (cl_pheap ex_client 0) = ex_key"
  "dp_ID (cl_pheap ex_client 0) = 7" "dp_P2PCapable (cl_pheap ex_client 0)" "dp_PunchAttempts (cl_pheap ex_client 0) = 0"
  "dp_LastUsed (cl_pheap ex_client 0) = 0"
  "se_Nonce (cl_sheap ex_client 0) = [1, 2, 3, 4, 5, 6, 7, 8]"
  "se_TargetID (cl_sheap ex_client 0) = 7" "se_TargetPubKey (cl_sheap ex_client 0) = ex_key" 
  "\<not> se_Established (cl_sheap ex_client 0)"  "\<not> se_Promoting (cl_sheap ex_client 0)"
  "\<not> se_hasAltNonce (cl_sheap ex_client 0)"  "se_lastReply (cl_sheap ex_client 0) = time_zero"
  by (simp_all add: ex_client_def ex_defs)

lemma ex_ip: "dp_AssignedIP (cl_pheap ex_client 0) = [10, 0, 0, 9]"
  by (simp add: ex_client_def ex_defs ip_Equal_def IPv4zero_def To4_def)

section \<open>Properties of every interleaving\<close>

text \<open>
  C1. In every state the client can reach, however its workers interleave: a peer carries the ID it is
  filed under (renumbering included); a session is filed under its target's ID, its peer is listed, and
  that peer has no established path, so no punch loop runs beside a direct path; the nonce index holds
  only nonces of current sessions; and the key index maps a key only to the listed peer with that key.
\<close>

theorem p2p_state_consistent:
  fixes es pk sks ph sh defines "c \<equiv> foldl p2p_step (NewP2PClient pk sks ph sh) es"
  shows "(\<forall>i p. cl_peers c i = Some p \<longrightarrow> dp_ID (cl_pheap c p) = i) \<and>
    (\<forall>i s. cl_sessions c i = Some s \<longrightarrow> se_TargetID (cl_sheap c s) = i \<and>
       (\<exists>p. cl_peers c i = Some p \<and> dp_State (cl_pheap c p) \<noteq> P2PStateEstablished)) \<and>
    (\<forall>n s. cl_sessionByNonce c n = Some s \<longrightarrow>
       acceptsNonce (cl_sheap c s) n \<and> cl_sessions c (se_TargetID (cl_sheap c s)) = Some s) \<and>
    (\<forall>k i. cl_peerKeyIndex c k = Some i \<longrightarrow>
       \<not> key_IsZero k \<and> (\<exists>p. cl_peers c i = Some p \<and> dp_PublicKey (cl_pheap c p) = k))"
proof -
  have "good c" using p2p.run_inv [of pk sks ph sh es] by (simp add: p2p.run_def c_def)
  then show ?thesis by (auto simp: good_def core_inv_def key_inv_def)
qed

theorem p2p_state_consistent_witness:
  "cl_sessions (foldl p2p_step (NewP2PClient zero_key [] (\<lambda>_. new_peer 0) (\<lambda>_. relay_session ex_relay 0 (new_peer 0)))
     ex_run) 7 = Some 0 \<and>
   (\<exists>p. cl_peers ex_client 7 = Some p \<and> dp_State (cl_pheap ex_client p) \<noteq> P2PStateEstablished)"
  using p2p_state_consistent [of zero_key "[]" "\<lambda>_. new_peer 0" "\<lambda>_. relay_session ex_relay 0 (new_peer 0)" ex_run,
      folded ex_start_def ex_client_def] ex_client_eq(2)
  by (simp add: ex_start_def [symmetric] ex_client_def [symmetric])

text \<open>
  C13. A peer's path becomes established only by the commit of a promotion whose session is still the
  current one of a peer that is being tried: an obsolete promotion, a relay, a peer list, a punch or a
  maintenance tick never establishes a path.
\<close>

theorem only_current_promotion_establishes:
  fixes es pk sks ph sh defines "c \<equiv> foldl p2p_step (NewP2PClient pk sks ph sh) es"
  assumes "dp_State (cl_pheap (p2p_step c e) p) = P2PStateEstablished" "dp_State (cl_pheap c p) \<noteq> P2PStateEstablished"
  shows "\<exists>env job now order. e = PromotionEv env job now order \<and> cl_peers c (jb_peerID job) = Some p \<and>
    dp_State (cl_pheap c p) = P2PStateTrying \<and> cl_sessions c (jb_peerID job) = Some (jb_session job)"
proof -
  have good: "good c" using p2p.run_inv [of pk sks ph sh es] by (simp add: p2p.run_def c_def)
  have "is_promotion e" using step_fine [of e c] good assms(2,3) by (auto simp: fine_def no_new_path_def)
  then obtain env job now order where e: "e = PromotionEv env job now order"
    by (auto simp: is_promotion_def split: p2p_event.splits)
  have "cl_pheap (p2p_step c e) = cl_pheap (snd (promotion_commit job now order c))"
    using promotion_finish_core(1) [of env job now order c]
    by (simp add: e core_of_def signalDone_def upd_session_def)
  then have "promotion_current job c \<and> cl_peers c (jb_peerID job) = Some p"
    using promotion_ok [OF good, of job now order] assms(2,3) by metis
  then show ?thesis using e by (auto simp: promotion_current_def)
qed

theorem only_current_promotion_establishes_witness:
  "dp_State (cl_pheap (p2p_step ex_client (PromotionEv ex_env ex_job 1 [7])) 0) = P2PStateEstablished \<and>
   cl_sessions ex_client (jb_peerID ex_job) = Some (jb_session ex_job)"
proof -
  have "dp_State (cl_pheap (p2p_step ex_client (PromotionEv ex_env ex_job 1 [7])) 0) = P2PStateEstablished"
    by (simp add: ex_client_def ex_job_def ex_defs promotion_finish_def promotion_commit_def promotion_current_def
        forgetSessionLocked_def delete_nonce_if_def signalDone_def upd_session_def)
  moreover from this have "\<exists>env job now order. PromotionEv ex_env ex_job 1 [7] = PromotionEv env job now order \<and>
      cl_peers ex_client (jb_peerID job) = Some 0 \<and> dp_State (cl_pheap ex_client 0) = P2PStateTrying \<and>
      cl_sessions ex_client (jb_peerID job) = Some (jb_session job)"
    unfolding ex_client_def ex_start_def
    by (rule only_current_promotion_establishes) (simp add: ex_peer_eq(1) [unfolded ex_client_def ex_start_def])
  ultimately show ?thesis by auto
qed

lemma step_queues: "queue_inv c \<Longrightarrow> queue_inv (p2p_step c e)"
proof (cases e)
  case (EnqueueMessageEv closing msg)
  then show "queue_inv c \<Longrightarrow> ?thesis" by (auto simp: EnqueueMessage_def enqueue_bounded split: option.split)
next
  case (EnqueuePunchEv closing packet addr)
  then show "queue_inv c \<Longrightarrow> ?thesis" by (auto simp: EnqueuePunch_def enqueue_bounded split: option.split)
next
  case (ControlWorkerEv env closing now order now2 order2)
  assume inv: "queue_inv c"
  have "queue_inv (c\<lparr>cl_controlQueue := rest\<rparr>)" if "cl_controlQueue c = ev # rest" for ev rest
    using inv that by (simp add: queue_inv_def)
  moreover have "queue_inv (HandleMessage env closing m now order now2 order2 b)" if "queue_inv b" for m b
    using that queue_frame [OF that registerAck_frame(3)] by (simp add: HandleMessage_def handlePeerList_queues handlePunchRelay_queues)
  ultimately show ?thesis
    using inv by (auto simp: ControlWorkerEv controlWorker_def Let_def HandlePunch_queues split: list.split control_event.split)
next
  case (AttemptWorkerEv env now order)
  assume inv: "queue_inv c"
  have tries: "queues_of (snd (tryP2PByID env i now order b)) = queues_of b" for i b
    by (simp add: tryP2PByID_def Let_def punch_request_def split: option.split P2PState.split)
  have "queue_inv (snd (tryP2PByID env i now order (c\<lparr>cl_attemptQueue := rest\<rparr>)))" if "cl_attemptQueue c = i # rest" for i rest
    using inv that by (intro queue_frame [OF _ tries]) (simp add: queue_inv_def)
  then show ?thesis using inv by (auto simp: AttemptWorkerEv attemptWorker_def split: list.split)
next
  case (ObserveEv closing dst now)
  assume inv: "queue_inv c"
  have "queue_inv (snd (queueP2PAttempt closing i (c\<lparr>cl_gates := g\<rparr>)))" for i g
    by (rule enqueue_bounded(2) [OF queue_frame [OF inv]]) simp
  then have q1: "queue_inv (snd (queueP2PAttempt closing i (c\<lparr>cl_gates := g\<rparr>)))" for i g .
  have q2: "queue_inv ((snd (queueP2PAttempt closing i (c\<lparr>cl_gates := g\<rparr>)))\<lparr>cl_gates := h\<rparr>)" for i g h
    by (rule queue_frame [OF q1]) simp
  show ?thesis using q1 q2 inv by (auto simp: ObserveEv ObserveDestination_def Let_def split_beta split: option.split)
next
  case (MaintenanceTickEv env t now o1 o2 o3)
  show "queue_inv c \<Longrightarrow> ?thesis"
    by (erule queue_frame) (simp add: MaintenanceTickEv maintenance_tick_def Let_def split_beta maintenance_queues)
next
  case (CloseEv order)
  have "queues_of (fold (\<lambda>i c. case cl_sessions c i of None \<Rightarrow> c | Some s \<Rightarrow> signalDone s c) order b) = queues_of b" for b
    by (induction order arbitrary: b) (simp_all split: option.split)
  then show "queue_inv c \<Longrightarrow> ?thesis" by (auto simp: CloseEv close_client_def intro: queue_frame)
next
  case TakePunchJobEv
  show "queue_inv c \<Longrightarrow> ?thesis" by (auto simp: TakePunchJobEv queue_inv_def)
next
  case TakePromotionEv
  show "queue_inv c \<Longrightarrow> ?thesis" by (auto simp: TakePromotionEv queue_inv_def)
qed (auto simp: relay_commit_queues maintenance_queues punch_deadline_def Let_def
    startDirectKeepalive_def SetExtraCandidates_def intro: queue_frame enqueue_bounded)

text \<open>
  The queues between the packet path and the workers are bounded in every reachable state: 256
  control events, 256 attempts, 128 punch jobs and 128 promotions, whatever the network sends.
\<close>

theorem p2p_queues_bounded:
  fixes es pk sks ph sh defines "c \<equiv> foldl p2p_step (NewP2PClient pk sks ph sh) es"
  shows "length (cl_controlQueue c) \<le> 256 \<and> length (cl_attemptQueue c) \<le> 256 \<and>
    length (cl_punchQueue c) \<le> 128 \<and> length (cl_promotionQueue c) \<le> 128"
proof -
  have "queue_inv (foldl p2p_step b es)" if "queue_inv b" for b
    using that by (induction es arbitrary: b) (auto intro: step_queues)
  moreover have "queue_inv (NewP2PClient pk sks ph sh)" by (simp add: queue_inv_def NewP2PClient_def)
  ultimately have "queue_inv c" by (simp add: c_def)
  then show ?thesis
    by (simp add: queue_inv_def p2pControlQueueSize_def p2pAttemptQueueSize_def p2pPunchQueueSize_def p2pPromotionQueueSize_def)
qed

section \<open>Authentication of punches\<close>

text \<open>
  C14. A received punch changes nothing at all (no state, no reply, no configuration) unless its MAC
  verifies under the key of a session that is current, belongs to a listed peer without an established
  path, and accepts the packet's nonce.
\<close>

theorem punch_authenticated:
  fixes es pk sks ph sh defines "c \<equiv> foldl p2p_step (NewP2PClient pk sks ph sh) es"
  assumes "HandlePunch env closing packet addr now now2 order2 c \<noteq> c"
  shows "\<exists>i s p. cl_sessions c i = Some s \<and> cl_peers c i = Some p \<and>
    dp_State (cl_pheap c p) \<noteq> P2PStateEstablished \<and> acceptsNonce (cl_sheap c s) (slice 1 9 packet) \<and>
    length packet = 41 \<and> verifyPunchMAC env packet (se_TargetPubKey (cl_sheap c s))"
proof -
  have core: "core_inv c" using p2p.run_inv [of pk sks ph sh es] by (simp add: p2p.run_def c_def good_def)
  from assms(2) obtain s k where l: "punch_lookup packet c = Some (s, k)" "verifyPunchMAC env packet k" "length packet = 41"
    by (auto simp: HandlePunch_def split: option.splits if_splits)
  then have "cl_sessions c (se_TargetID (cl_sheap c s)) = Some s" "acceptsNonce (cl_sheap c s) (slice 1 9 packet)"
      "k = se_TargetPubKey (cl_sheap c s)"
    by (auto simp: punch_lookup_def Let_def split: option.splits if_splits)
  then show ?thesis using core_sessionD [OF core] l by metis
qed

theorem punch_authenticated_witness:
  "HandlePunch ex_env False ex_packet (Some udp_zero) 5 5 [] ex_client \<noteq> ex_client \<and>
   (\<exists>i s. cl_sessions ex_client i = Some s \<and> verifyPunchMAC ex_env ex_packet (se_TargetPubKey (cl_sheap ex_client s)))"
proof -
  have ne: "HandlePunch ex_env False ex_packet (Some udp_zero) 5 5 [] ex_client \<noteq> ex_client"
  proof -
    have "cl_effects (HandlePunch ex_env False ex_packet (Some udp_zero) 5 5 [] ex_client) \<noteq> cl_effects ex_client"
      by (simp add: HandlePunch_def ex_packet_def punch_lookup_def slice_def ex_client_eq ex_peer_eq Let_def acceptsNonce_def
        verifyPunchMAC_def ex_env_def punch_commit_def upd_peer_def upd_session_def ex_ip
        prepareDirectPeer_def ex_key_nonzero To4_def ip_Equal_def IPv4zero_def enqueue_promotion_def emit_def
        p2pPromotionQueueSize_def)
    then show ?thesis by metis
  qed
  from punch_authenticated [of ex_env False ex_packet "Some udp_zero" 5 5 "[]" zero_key "[]" "\<lambda>_. new_peer 0"
      "\<lambda>_. relay_session ex_relay 0 (new_peer 0)" ex_run, folded ex_start_def ex_client_def, OF ne] ne
  show ?thesis by blast
qed

text \<open>
  Both sides of a punch agree: what one side builds for its session, the other side accepts, as soon
  as X25519 gives both the same shared secret, both compute the same 32-byte MAC, and the receiver's
  session targets the sender and accepts the nonce.
\<close>

theorem punch_packet_verifies:
  assumes "env_sharedSecret envA (se_TargetPubKey sA) = Some ss" "env_sharedSecret envB (se_TargetPubKey sB) = Some ss"
    "env_mac envA = env_mac envB" "\<forall>k m. length (env_mac envA k m) = 32"
    "\<not> key_IsZero (se_TargetPubKey sA)" "length (se_Nonce sA) = 8" "acceptsNonce sB (se_Nonce sA)"
  shows "verifyPunchPacket envB (makePunchPacket envA sA) sB \<and>
    makeOuterPunchPacket envA sA = put_le 4 MessageP2PType @ makePunchPacket envA sA"
proof -
  let ?mac = "env_mac envB ss (se_Nonce sA)"
  have len: "length ?mac = 32" using assms(3,4) by metis
  have pkt: "makePunchPacket envA sA = P2PSubtypePunchPacket # se_Nonce sA @ ?mac"
    using assms len by (simp add: makePunchPacket_def copy_into_same_length)
  have nonce: "slice 1 9 (makePunchPacket envA sA) = se_Nonce sA" using assms(6) by (simp add: pkt slice_def)
  have mac: "drop 9 (makePunchPacket envA sA) = ?mac" using assms(6) by (simp add: pkt)
  have "verifyPunchMAC envB (makePunchPacket envA sA) (se_TargetPubKey sB)"
    using assms(2,6) len unfolding verifyPunchMAC_def nonce mac by (simp add: pkt)
  then show ?thesis
    using assms(6,7) len unfolding verifyPunchPacket_def nonce makeOuterPunchPacket_def Let_def by (simp add: pkt)
qed

theorem punch_packet_verifies_witness:
  "verifyPunchPacket ex_env (makePunchPacket ex_env (relay_session ex_relay 0 ((new_peer 7)\<lparr>dp_PublicKey := ex_key\<rparr>)))
     (relay_session ex_relay 0 ((new_peer 7)\<lparr>dp_PublicKey := ex_key\<rparr>))"
proof -
  let ?s = "relay_session ex_relay 0 ((new_peer 7)\<lparr>dp_PublicKey := ex_key\<rparr>)"
  have "env_sharedSecret ex_env (se_TargetPubKey ?s) = Some []" "\<forall>k m. length (env_mac ex_env k m) = 32"
    "\<not> key_IsZero (se_TargetPubKey ?s)" "length (se_Nonce ?s) = 8" "acceptsNonce ?s (se_Nonce ?s)"
    by (simp_all add: ex_env_def ex_relay_def relay_session_def acceptsNonce_def ex_key_nonzero)
  from punch_packet_verifies [OF this(1,1) refl this(2-5)] show ?thesis by simp
qed

section \<open>The destination index\<close>

definition idle_destination :: "p2p_client \<Rightarrow> u32 \<Rightarrow> ip \<Rightarrow> bool" where
  "idle_destination c i addr \<longleftrightarrow>
     (\<exists>p. cl_peers c i = Some p \<and> dp_P2PCapable (cl_pheap c p) \<and> \<not> active (cl_pheap c p) \<and>
        \<not> (\<not> key_IsZero (cl_serverPeerKey c) \<and> dp_PublicKey (cl_pheap c p) = cl_serverPeerKey c) \<and>
        ipv4Netip (dp_AssignedIP (cl_pheap c p)) = Some addr)"

lemma rebuild_one_server: "rebuild_one i (c, ki, di) = (c', ki', di') \<Longrightarrow> cl_serverPeerKey c' = cl_serverPeerKey c"
  by (auto simp: rebuild_one_def Let_def new_gate_def split: option.splits if_splits)

lemma rebuild_one_gates: "rebuild_one i (c, ki, di) = (c', ki', di') \<Longrightarrow> cl_attemptGates c j = Some g \<Longrightarrow> cl_attemptGates c' j = Some g"
  by (auto simp: rebuild_one_def Let_def new_gate_def split: option.splits if_splits)

lemma idle_cong: "\<lbrakk>core_of c = core_of d; cl_serverPeerKey c = cl_serverPeerKey d\<rbrakk> \<Longrightarrow> idle_destination c = idle_destination d"
  by (intro ext) (simp add: idle_destination_def core_of_def)

lemma rebuild_one_destination:
  assumes "rebuild_one i (c, ki, di) = (c', ki', di')" "core_inv c"
  shows "(\<forall>addr. di' addr = di addr \<or> (\<exists>g. di' addr = Some (i, g) \<and> cl_attemptGates c' i = Some g \<and> idle_destination c i addr)) \<and>
    (idle_destination c i addr \<longrightarrow> di' addr \<noteq> None) \<and> (di addr \<noteq> None \<longrightarrow> di' addr \<noteq> None)"
  using assms(1) core_peerD [OF assms(2), of i]
  by (auto simp: rebuild_one_def Let_def idle_destination_def new_gate_def split: option.splits if_splits)

lemma rebuild_fold_destination:
  "\<lbrakk>fold rebuild_one order (c, ki, di) = (c', ki', di'); core_inv c;
    \<forall>addr i g. di addr = Some (i, g) \<longrightarrow> cl_attemptGates c i = Some g \<and> idle_destination c i addr\<rbrakk> \<Longrightarrow>
   (\<forall>addr i g. di' addr = Some (i, g) \<longrightarrow> cl_attemptGates c' i = Some g \<and> idle_destination c i addr) \<and>
   (\<forall>i \<in> set order. \<forall>addr. idle_destination c i addr \<longrightarrow> di' addr \<noteq> None) \<and>
   (\<forall>addr. di addr \<noteq> None \<longrightarrow> di' addr \<noteq> None)"
proof (induction order arbitrary: c ki di)
  case (Cons j order)
  obtain c1 ki1 di1 where one: "rebuild_one j (c, ki, di) = (c1, ki1, di1)" by (metis surj_pair)
  have same: "core_of c1 = core_of c" using rebuild_one_frame [OF one] by simp
  have idle: "idle_destination c1 = idle_destination c" using idle_cong [OF same rebuild_one_server [OF one]] .
  have sound: "\<forall>addr i g. di1 addr = Some (i, g) \<longrightarrow> cl_attemptGates c1 i = Some g \<and> idle_destination c1 i addr"
  proof (intro allI impI)
    fix addr i g assume *: "di1 addr = Some (i, g)"
    have "di1 addr = di addr \<or> (\<exists>g. di1 addr = Some (j, g) \<and> cl_attemptGates c1 j = Some g \<and> idle_destination c j addr)"
      using rebuild_one_destination [OF one Cons.prems(2)] by blast
    then show "cl_attemptGates c1 i = Some g \<and> idle_destination c1 i addr"
      using * Cons.prems(3) rebuild_one_gates [OF one] unfolding idle by (metis option.inject prod.inject)
  qed
  have IH: "(\<forall>addr i g. di' addr = Some (i, g) \<longrightarrow> cl_attemptGates c' i = Some g \<and> idle_destination c1 i addr) \<and>
   (\<forall>i \<in> set order. \<forall>addr. idle_destination c1 i addr \<longrightarrow> di' addr \<noteq> None) \<and>
   (\<forall>addr. di1 addr \<noteq> None \<longrightarrow> di' addr \<noteq> None)"
    using Cons.prems(1,2) one core_cong [OF same] by (intro Cons.IH [OF _ _ sound]) simp_all
  then show ?case
    using rebuild_one_destination [OF one Cons.prems(2)] unfolding idle by auto
qed simp

text \<open>
  The index the packet path reads, in whatever order the peers are visited: an address leads to a
  peer exactly if some listed, capable peer other than the coordinator, neither negotiating nor
  established, has that overlay IPv4 address; and the entry carries that peer's own retry gate.
\<close>

theorem destinations_exact:
  fixes es pk sks ph sh defines "c \<equiv> foldl p2p_step (NewP2PClient pk sks ph sh) es"
  assumes "\<forall>i. cl_peers c i \<noteq> None \<longrightarrow> i \<in> set order"
  defines "r \<equiv> rebuildIndexesLocked order c"
  shows "(cl_destinations r addr = Some (i, g) \<longrightarrow> cl_attemptGates r i = Some g \<and> idle_destination c i addr) \<and>
    (idle_destination c i addr \<longrightarrow> (\<exists>j g. cl_destinations r addr = Some (j, g)))"
proof -
  have core: "core_inv c" using p2p.run_inv [of pk sks ph sh es] by (simp add: p2p.run_def c_def good_def)
  obtain c' ki di where f: "fold rebuild_one order (c, Map.empty, Map.empty) = (c', ki, di)" by (metis surj_pair)
  have "i \<in> set order" if "idle_destination c i addr" using assms(2) that by (auto simp: idle_destination_def)
  moreover have "r = c'\<lparr>cl_peerKeyIndex := ki, cl_destinations := di\<rparr>" by (simp add: r_def rebuildIndexesLocked_def f)
  ultimately show ?thesis
    using rebuild_fold_destination [OF f core] by (cases "di addr") fastforce+
qed

theorem destinations_exact_witness:
  "cl_destinations (rebuildIndexesLocked [7] (p2p_step ex_client (RelayFailEv 0 0 1 [7]))) [10, 0, 0, 9] \<noteq> None"
proof -
  let ?es = "ex_run @ [RelayFailEv 0 0 1 [7]]"
  let ?c = "foldl p2p_step ex_start ?es"
  have peers: "cl_peers ?c = [7 \<mapsto> 0]" and idle: "idle_destination ?c 7 [10, 0, 0, 9]"
    by (simp_all add: ex_defs failPunchSessionIfCurrentLocked_def forgetSessionLocked_def delete_nonce_if_def signalDone_def
        upd_session_def setRetryGateLocked_def store_gate_def mark_failed_def idle_destination_def ipv4Netip_def To4_def
        ip_Equal_def IPv4zero_def new_gate_def)
  from peers have "\<forall>i. cl_peers ?c i \<noteq> None \<longrightarrow> i \<in> set [7]" by simp
  from destinations_exact [OF this [unfolded ex_start_def]] idle show ?thesis
    unfolding ex_client_def ex_start_def by fastforce
qed

section \<open>Backing off\<close>

lemma rebuild_effects [simp]: "cl_effects (rebuildIndexesLocked order c) = cl_effects c"
proof -
  have one: "cl_effects (fst (rebuild_one i r)) = cl_effects (fst r)" for i r
    by (simp add: rebuild_one_def Let_def new_gate_def split_beta split: option.split)
  have "cl_effects (fst (fold rebuild_one order r)) = cl_effects (fst r)" for r
    by (induction order arbitrary: r) (simp_all add: one)
  then show ?thesis by (simp add: rebuildIndexesLocked_def split_beta)
qed

text \<open>
  After a punch attempt of a peer fails, the client asks the coordinator for no new attempt before
  the backoff has passed: until the failure time plus the delay for the increased attempt count, an
  attempt is refused and nothing is sent.
\<close>

theorem failed_attempt_backs_off:
  fixes es pk sks ph sh defines "c \<equiv> foldl p2p_step (NewP2PClient pk sks ph sh) es"
  assumes "cl_peers c i = Some p" "failPunchSessionIfCurrentLocked (Some p) session t order c = (True, c')"
    "now < t + p2pRetryDelay (dp_PunchAttempts (cl_pheap c p) + 1)"
  shows "dp_State (cl_pheap c' p) = P2PStateFailed \<and> cl_sessions c' i = None \<and>
    fst (tryP2PByID env i now order' c') = False \<and> cl_effects (snd (tryP2PByID env i now order' c')) = cl_effects c'"
proof -
  have core: "core_inv c" using p2p.run_inv [of pk sks ph sh es] by (simp add: p2p.run_def c_def good_def)
  have ID: "dp_ID (cl_pheap c p) = i" using core_peerD [OF core assms(2)] by simp
  from assms(3) ID obtain s where s: "session = Some s" "cl_sessions c i = Some s"
    "c' = rebuildIndexesLocked order (signalDone s (forgetSessionLocked i s
            (setRetryGateLocked p (upd_peer p (mark_failed t) c))))"
    by (auto simp: failPunchSessionIfCurrentLocked_def split: option.splits if_splits)
  let ?b = "setRetryGateLocked p (upd_peer p (mark_failed t) c)"
  have b: "core_of ?b = core_of (upd_peer p (mark_failed t) c)" by simp
  have bs: "cl_sessions ?b i = Some s" "core_inv ?b"
    using b s(2) keeps_mark_failed [of c p t] core core_cong [OF b] by (simp_all add: core_of_def keeps_def)
  have c': "cl_peers c' i = Some p" "cl_pheap c' p = mark_failed t (cl_pheap c p)" "cl_sessions c' i = None"
    using rebuild_frame(1) [of order "signalDone s (forgetSessionLocked i s ?b)"] forget_fields [OF bs(2,1)] b assms(2)
    unfolding s(3) by (auto simp: core_of_def signalDone_def upd_session_def)
  have "fst (tryP2PByID env i now order' c') = False \<and> cl_effects (snd (tryP2PByID env i now order' c')) = cl_effects c'"
    using assms(4) by (auto simp: tryP2PByID_def c' mark_failed_def Let_def store_gate_def split: option.split)
  then show ?thesis using c' by (simp add: mark_failed_def)
qed

theorem failed_attempt_backs_off_witness:
  "fst (failPunchSessionIfCurrentLocked (Some 0) (Some 0) 1 [7] ex_client) \<and>
   fst (tryP2PByID ex_env 7 2 [7] (snd (failPunchSessionIfCurrentLocked (Some 0) (Some 0) 1 [7] ex_client))) = False"
proof -
  obtain b c' where f: "failPunchSessionIfCurrentLocked (Some 0) (Some 0) 1 [7] ex_client = (b, c')" by fastforce
  have b: "b = True" using arg_cong [OF f, of fst] by (simp add: failPunchSessionIfCurrentLocked_def ex_peer_eq ex_client_eq)
  have "2 < 1 + p2pRetryDelay (dp_PunchAttempts (cl_pheap ex_client 0) + 1)"
    by (simp add: ex_peer_eq p2pRetryDelay_def p2pRetryBaseDelay_def p2pRetryMaxDelay_def Let_def)
  moreover have "cl_peers ex_client 7 = Some 0" by (simp add: ex_client_eq)
  ultimately show ?thesis
    using failed_attempt_backs_off [where i = 7 and p = 0 and session = "Some 0" and t = 1 and order = "[7]" and c' = c' and
        now = 2 and env = ex_env and order' = "[7]" and pk = zero_key and sks = "[]" and ph = "\<lambda>_. new_peer 0" and
        sh = "\<lambda>_. relay_session ex_relay 0 (new_peer 0)" and es = ex_run, folded ex_start_def ex_client_def] f b by simp
qed

end
