(* ===== verification/Usp_Events.thy ===== *)
theory Usp_Events
  imports Usp_Roundtrip "HOL-Library.Multiset"
begin

text \<open>
  Events of the USP agent (\<^verbatim>\<open>internal/wusp/usp_events.go\<close>): how an event travels as a Notify request, how the
  other side reads it, the subscriptions of a controller and which events they select. A nil map is the
  empty list. \<^verbatim>\<open>eventParamsToMessage\<close> visits a map in any order; the argument \<open>order\<close> of the encoder is that
  order.
\<close>

section \<open>Events\<close>

record event_error =
  ee_Code :: u32
  ee_Message :: bytes

record onboard_info =
  ob_OUI :: bytes
  ob_ProductClass :: bytes
  ob_SerialNumber :: bytes
  ob_Manufacturer :: bytes
  ob_SoftwareVersion :: bytes
  ob_ProtocolVersions :: bytes

record usp_event =
  ev_Type :: byte
  ev_SubscriptionID :: bytes
  ev_ObjPath :: bytes
  ev_EventName :: bytes
  ev_CommandKey :: bytes
  ev_Params :: metadata
  ev_ParamMessage :: "wmessage option"
  ev_ParamValue :: bytes
  ev_Err :: "event_error option"
  ev_OnBoard :: "onboard_info option"

abbreviation (input) USPEventTypeEvent :: byte where "USPEventTypeEvent \<equiv> 1"
abbreviation (input) USPEventTypeValueChange :: byte where "USPEventTypeValueChange \<equiv> 2"
abbreviation (input) USPEventTypeObjectCreation :: byte where "USPEventTypeObjectCreation \<equiv> 3"
abbreviation (input) USPEventTypeObjectDeletion :: byte where "USPEventTypeObjectDeletion \<equiv> 4"
abbreviation (input) USPEventTypeOperationComplete :: byte where "USPEventTypeOperationComplete \<equiv> 5"
abbreviation (input) USPEventTypeOnBoardRequest :: byte where "USPEventTypeOnBoardRequest \<equiv> 6"

definition eventMetaType :: bytes where "eventMetaType = ascii ''event_type''"
definition eventMetaSubID :: bytes where "eventMetaSubID = ascii ''subscription_id''"
definition eventMetaName :: bytes where "eventMetaName = ascii ''event_name''"
definition eventMetaCmdKey :: bytes where "eventMetaCmdKey = ascii ''command_key''"
definition eventMetaParamValue :: bytes where "eventMetaParamValue = ascii ''param_value''"
definition eventMetaErrCode :: bytes where "eventMetaErrCode = ascii ''error_code''"
definition eventMetaErrMsg :: bytes where "eventMetaErrMsg = ascii ''error_message''"
definition eventMetaOUI :: bytes where "eventMetaOUI = ascii ''oui''"
definition eventMetaPC :: bytes where "eventMetaPC = ascii ''product_class''"
definition eventMetaSN :: bytes where "eventMetaSN = ascii ''serial_number''"
definition eventMetaMfg :: bytes where "eventMetaMfg = ascii ''manufacturer''"
definition eventMetaSWVer :: bytes where "eventMetaSWVer = ascii ''software_version''"
definition eventMetaPV :: bytes where "eventMetaPV = ascii ''protocol_versions''"

lemmas event_keys = eventMetaType_def eventMetaSubID_def eventMetaName_def eventMetaCmdKey_def eventMetaParamValue_def
  eventMetaErrCode_def eventMetaErrMsg_def eventMetaOUI_def eventMetaPC_def eventMetaSN_def eventMetaMfg_def
  eventMetaSWVer_def eventMetaPV_def

definition put_given :: "bytes \<Rightarrow> bytes \<Rightarrow> metadata \<Rightarrow> metadata" where
  "put_given k v m = (if v = [] then m else md_put k v m)"

definition eventParamsToMessage :: "(metadata \<Rightarrow> metadata) \<Rightarrow> metadata \<Rightarrow> wmessage option" where
  "eventParamsToMessage order params =
     (if params = [] then None
      else Some \<lparr>m_DeviceID = [], m_Timestamp = time_zero,
        m_Fields = map (\<lambda>(k, v). \<lparr>f_id = 0, f_Path = k, f_Val = VString v\<rparr>) (order params)\<rparr>)"

definition eventMessageToParams :: "transport_schema \<Rightarrow> wmessage option \<Rightarrow> metadata" where
  "eventMessageToParams S msg =
     (case msg of None \<Rightarrow> []
      | Some m \<Rightarrow> foldl (\<lambda>out f. md_put (f_Path f) (ValueToString (sc_FormatFloat S) (f_Val f)) out) [] (m_Fields m))"

definition parentObjectPath :: "bytes \<Rightarrow> bytes" where
  "parentObjectPath path =
     (let path = TrimSpace path; separator = last_index 0x2E path in
      if separator < 0 then [] else take (nat separator + 1) path)"

text \<open>The type-specific metadata and message of the \<^verbatim>\<open>switch\<close> in \<^verbatim>\<open>EncodeEventToRequest\<close>.\<close>

definition event_payload :: "(metadata \<Rightarrow> metadata) \<Rightarrow> usp_event \<Rightarrow> metadata \<Rightarrow> metadata \<times> wmessage option" where
  "event_payload order ev meta =
     (let t = ev_Type ev in
      if t = USPEventTypeEvent then
        (put_given eventMetaName (ev_EventName ev) meta,
         case ev_ParamMessage ev of Some m \<Rightarrow> Some m | None \<Rightarrow> eventParamsToMessage order (ev_Params ev))
      else if t = USPEventTypeValueChange then (md_put eventMetaParamValue (ev_ParamValue ev) meta, None)
      else if t = USPEventTypeObjectCreation then (meta, eventParamsToMessage order (ev_Params ev))
      else if t = USPEventTypeObjectDeletion then (meta, None)
      else if t = USPEventTypeOperationComplete then
        (let meta = put_given eventMetaCmdKey (ev_CommandKey ev) (put_given eventMetaName (ev_EventName ev) meta) in
         case ev_Err ev of
           Some e \<Rightarrow> (put_given eventMetaErrMsg (ee_Message e) (md_put eventMetaErrCode (nat_digits (unat (ee_Code e))) meta), None)
         | None \<Rightarrow> (meta, eventParamsToMessage order (ev_Params ev)))
      else if t = USPEventTypeOnBoardRequest then
        (case ev_OnBoard ev of None \<Rightarrow> (meta, None)
         | Some ob \<Rightarrow>
           (put_given eventMetaPV (ob_ProtocolVersions ob) (put_given eventMetaSWVer (ob_SoftwareVersion ob)
             (put_given eventMetaMfg (ob_Manufacturer ob) (put_given eventMetaSN (ob_SerialNumber ob)
             (put_given eventMetaPC (ob_ProductClass ob) (put_given eventMetaOUI (ob_OUI ob) meta))))), None))
      else (meta, None))"

definition notify_request :: "u64 \<Rightarrow> bytes list \<Rightarrow> bytes \<Rightarrow> wmessage option \<Rightarrow> metadata \<Rightarrow> usp_request" where
  "notify_request rid paths objPath msg meta =
     \<lparr>rq_ID = rid, rq_Method = USPAgentMethodNotify, rq_Paths = paths, rq_PathCodes = [], rq_PathInstances = [],
      rq_ObjectPath = objPath, rq_ObjectCode = 0, rq_ObjectInstances = [], rq_Message = msg, rq_Transfer = None,
      rq_Metadata = meta\<rparr>"

definition EncodeEventToRequest :: "(metadata \<Rightarrow> metadata) \<Rightarrow> usp_event \<Rightarrow> u64 \<Rightarrow> usp_request" where
  "EncodeEventToRequest order ev rid =
     (let meta = put_given eventMetaSubID (ev_SubscriptionID ev) (md_put eventMetaType (nat_digits (unat (ev_Type ev))) []);
          (meta, msg) = event_payload order ev meta;
          objPath = TrimSpace (ev_ObjPath ev);
          (paths, objPath) =
            (if ev_Type ev = USPEventTypeValueChange \<and> objPath \<noteq> [] \<and> \<not> isObjectPath objPath
             then ([objPath], parentObjectPath objPath) else ([], objPath)) in
      if isObjectPath objPath then notify_request rid paths objPath msg meta
      else notify_request rid (if objPath \<noteq> [] then [objPath] else paths) [] msg meta)"

definition read_event :: "transport_schema \<Rightarrow> usp_request \<Rightarrow> byte \<Rightarrow> usp_event" where
  "read_event S q t =
     (let md = md_get (rq_Metadata q);
          objPath =
            (if t = USPEventTypeValueChange \<and> rq_Paths q \<noteq> [] then hd (rq_Paths q)
             else if rq_ObjectPath q = [] \<and> rq_Paths q \<noteq> [] then hd (rq_Paths q)
             else rq_ObjectPath q);
          params = eventMessageToParams S (rq_Message q);
          ev = \<lparr>ev_Type = t, ev_SubscriptionID = md eventMetaSubID, ev_ObjPath = objPath, ev_EventName = [], ev_CommandKey = [],
            ev_Params = [], ev_ParamMessage = None, ev_ParamValue = [], ev_Err = None, ev_OnBoard = None\<rparr> in
      if t = USPEventTypeEvent then ev\<lparr>ev_EventName := md eventMetaName, ev_Params := params\<rparr>
      else if t = USPEventTypeValueChange then ev\<lparr>ev_ParamValue := md eventMetaParamValue\<rparr>
      else if t = USPEventTypeObjectCreation then ev\<lparr>ev_Params := params\<rparr>
      else if t = USPEventTypeObjectDeletion then ev
      else if t = USPEventTypeOperationComplete then
        (let ev = ev\<lparr>ev_EventName := md eventMetaName, ev_CommandKey := md eventMetaCmdKey\<rparr> in
         case map_of (rq_Metadata q) eventMetaErrCode of
           Some codeStr \<Rightarrow>
             ev\<lparr>ev_Err := Some \<lparr>ee_Code = (case ParseUint 32 codeStr of Some n \<Rightarrow> of_nat n | None \<Rightarrow>
                   if codeStr \<noteq> [] \<and> list_all is_digit codeStr then - 1 else 0),
                 ee_Message = md eventMetaErrMsg\<rparr>\<rparr>
         | None \<Rightarrow> ev\<lparr>ev_Params := params\<rparr>)
      else
        ev\<lparr>ev_OnBoard := Some \<lparr>ob_OUI = md eventMetaOUI, ob_ProductClass = md eventMetaPC, ob_SerialNumber = md eventMetaSN,
          ob_Manufacturer = md eventMetaMfg, ob_SoftwareVersion = md eventMetaSWVer, ob_ProtocolVersions = md eventMetaPV\<rparr>\<rparr>)"

definition DecodeEventFromRequest :: "transport_schema \<Rightarrow> usp_request \<Rightarrow> transport_error + usp_event" where
  "DecodeEventFromRequest S q =
     (if rq_Method q \<noteq> USPAgentMethodNotify then Inl (TransportMalformed '''')
      else case map_of (rq_Metadata q) eventMetaType of None \<Rightarrow> Inl (TransportMalformed '''')
      | Some typeStr \<Rightarrow>
        (case Atoi typeStr of None \<Rightarrow> Inl (TransportMalformed '''')
         | Some n \<Rightarrow> if n < 1 \<or> 6 < n then Inl (TransportMalformed '''') else Inr (read_event S q (word_of_int n))))"

definition IsEventNotifyRequest :: "usp_request \<Rightarrow> bool" where
  "IsEventNotifyRequest q \<longleftrightarrow> rq_Method q = USPAgentMethodNotify \<and> map_of (rq_Metadata q) eventMetaType \<noteq> None"

section \<open>Subscriptions\<close>

text \<open>
  Code outside the agent (a handler of a subscription, a platform back end, the sender of notifications) acts on a world
  of type \<open>'w\<close> that the agent only passes along. An error it returns has a text and may or may not be
  \<^verbatim>\<open>ErrUSPPathUnsupported\<close>.
\<close>

record backend_error =
  be_text :: bytes
  be_unsupported :: bool

record 'w usp_subscription =
  sub_ID :: bytes
  sub_Types :: "byte list"
  sub_PathFilter :: "bytes list"
  sub_EventFilter :: "bytes list"
  sub_Handler :: "(usp_event \<Rightarrow> 'w \<Rightarrow> backend_error option \<times> 'w) option"

definition subMetaAction :: bytes where "subMetaAction = ascii ''wusp_action''"
definition subMetaID :: bytes where "subMetaID = ascii ''wusp_sub_id''"
definition subMetaTypes :: bytes where "subMetaTypes = ascii ''wusp_sub_types''"
definition subMetaPaths :: bytes where "subMetaPaths = ascii ''wusp_sub_paths''"
definition subMetaEvents :: bytes where "subMetaEvents = ascii ''wusp_sub_events''"
definition subMetaStatus :: bytes where "subMetaStatus = ascii ''wusp_sub_status''"
definition subActionAdd :: bytes where "subActionAdd = ascii ''subscribe''"
definition subActionRemove :: bytes where "subActionRemove = ascii ''unsubscribe''"

lemmas sub_keys = subMetaAction_def subMetaID_def subMetaTypes_def subMetaPaths_def subMetaEvents_def subMetaStatus_def

definition IsSubscriptionRequest :: "usp_request \<Rightarrow> bool" where
  "IsSubscriptionRequest q \<longleftrightarrow> rq_Method q = USPAgentMethodNotify \<and>
     TrimSpace (md_get (rq_Metadata q) subMetaAction) \<in> {subActionAdd, subActionRemove}"

definition EncodeSubscribeRequest :: "u64 \<Rightarrow> bytes \<Rightarrow> byte list \<Rightarrow> bytes list \<Rightarrow> bytes list \<Rightarrow> usp_request" where
  "EncodeSubscribeRequest rid subID types pathFilter eventFilter =
     (let meta = md_put subMetaID subID (md_put subMetaAction subActionAdd []);
          meta = (if types \<noteq> [] then md_put subMetaTypes (join_on 0x2C (map (\<lambda>t. nat_digits (unat t)) types)) meta else meta);
          meta = (if pathFilter \<noteq> [] then md_put subMetaPaths (join_on 0x2C pathFilter) meta else meta);
          meta = (if eventFilter \<noteq> [] then md_put subMetaEvents (join_on 0x2C eventFilter) meta else meta) in
      notify_request rid [] [] None meta)"

definition EncodeUnsubscribeRequest :: "u64 \<Rightarrow> bytes \<Rightarrow> usp_request" where
  "EncodeUnsubscribeRequest rid subID =
     notify_request rid [] [] None (md_put subMetaID subID (md_put subMetaAction subActionRemove []))"

definition read_types :: "bytes \<Rightarrow> byte list" where
  "read_types typesStr =
     (if typesStr = [] then []
      else concat (map (\<lambda>t. case Atoi (TrimSpace t) of Some n \<Rightarrow> if 1 \<le> n \<and> n \<le> 6 then [word_of_int n] else [] | None \<Rightarrow> [])
        (split_on 0x2C typesStr)))"

definition read_names :: "bytes \<Rightarrow> bytes list" where
  "read_names str = (if str = [] then [] else filter (\<lambda>p. p \<noteq> []) (map TrimSpace (split_on 0x2C str)))"

definition DecodeSubscriptionFromRequest :: "usp_request \<Rightarrow> bytes \<times> 'w usp_subscription" where
  "DecodeSubscriptionFromRequest q =
     (let md = md_get (rq_Metadata q) in
      (TrimSpace (md subMetaAction),
       \<lparr>sub_ID = TrimSpace (md subMetaID), sub_Types = read_types (md subMetaTypes), sub_PathFilter = read_names (md subMetaPaths),
        sub_EventFilter = read_names (md subMetaEvents), sub_Handler = None\<rparr>))"

definition subscriptionMatches :: "'w usp_subscription \<Rightarrow> usp_event \<Rightarrow> bool" where
  "subscriptionMatches sub ev \<longleftrightarrow>
     (sub_Types sub \<noteq> [] \<longrightarrow> ev_Type ev \<in> set (sub_Types sub)) \<and>
     (sub_PathFilter sub \<noteq> [] \<longrightarrow> (\<exists>prefix \<in> set (sub_PathFilter sub). starts_with (ev_ObjPath ev) prefix)) \<and>
     (ev_Type ev = USPEventTypeEvent \<and> sub_EventFilter sub \<noteq> [] \<longrightarrow> ev_EventName ev \<in> set (sub_EventFilter sub))"

section \<open>An event arrives as it was sent\<close>

text \<open>What of an event the other side sees: the fields of its type, the path without surrounding spaces.\<close>

definition delivered_event :: "transport_schema \<Rightarrow> usp_event \<Rightarrow> usp_event" where
  "delivered_event S ev =
     (let t = ev_Type ev;
          base = \<lparr>ev_Type = t, ev_SubscriptionID = ev_SubscriptionID ev, ev_ObjPath = TrimSpace (ev_ObjPath ev), ev_EventName = [],
            ev_CommandKey = [], ev_Params = [], ev_ParamMessage = None, ev_ParamValue = [], ev_Err = None, ev_OnBoard = None\<rparr> in
      if t = 1 then base\<lparr>ev_EventName := ev_EventName ev,
        ev_Params := (case ev_ParamMessage ev of None \<Rightarrow> ev_Params ev | Some m \<Rightarrow> eventMessageToParams S (Some m))\<rparr>
      else if t = 2 then base\<lparr>ev_ParamValue := ev_ParamValue ev\<rparr>
      else if t = 3 then base\<lparr>ev_Params := ev_Params ev\<rparr>
      else if t = 4 then base
      else if t = 5 then base\<lparr>ev_EventName := ev_EventName ev, ev_CommandKey := ev_CommandKey ev, ev_Err := ev_Err ev,
        ev_Params := (if ev_Err ev = None then ev_Params ev else [])\<rparr>
      else base\<lparr>ev_OnBoard := Some (case ev_OnBoard ev of Some ob \<Rightarrow> ob
          | None \<Rightarrow> \<lparr>ob_OUI = [], ob_ProductClass = [], ob_SerialNumber = [], ob_Manufacturer = [], ob_SoftwareVersion = [],
              ob_ProtocolVersions = []\<rparr>)\<rparr>)"

lemma get_put_given [simp]:
  "md_get (put_given k v m) q = (if q = k then (if v = [] then md_get m q else v) else md_get m q)"
  by (simp add: put_given_def)

lemma map_of_put_given: "map_of (put_given k v m) q = (if q = k \<and> v \<noteq> [] then Some v else map_of m q)"
  by (simp add: put_given_def map_of_md_put)

lemma params_roundtrip:
  assumes ok: "md_ok params" and order: "mset (order params) = mset params"
  shows "eventMessageToParams S (eventParamsToMessage order params) = params"
proof (cases "params = []")
  case False
  have fold: "map_of (foldl (\<lambda>out (k, v). md_put k v out) acc xs) q = (case map_of (rev xs) q of Some v \<Rightarrow> Some v | None \<Rightarrow> map_of acc q)"
    for acc q and xs :: metadata
    by (induction xs arbitrary: acc) (auto simp: map_of_md_put map_of_append map_add_def split: option.split)
  have ok_fold: "md_ok acc \<Longrightarrow> md_ok (foldl (\<lambda>out (k, v). md_put k v out) acc xs)" for acc and xs :: metadata
    by (induction xs arbitrary: acc) auto
  have d: "distinct (map fst params)" using ok by (rule md_ok_distinct)
  have "mset (map fst (order params)) = mset (map fst params)" using order by simp
  then have d': "distinct (map fst (order params))" using d mset_eq_imp_distinct_iff by blast
  have "map_of (rev (order params)) = map_of params"
    using d d' order by (intro map_of_eqI) (auto simp: rev_map [symmetric] dest: mset_eq_setD)
  then have "foldl (\<lambda>out (k, v). md_put k v out) [] (order params) = params"
    by (intro md_eqI ok ok_fold) (simp_all add: fold split: option.split)
  moreover have "eventMessageToParams S (eventParamsToMessage order params) = foldl (\<lambda>out (k, v). md_put k v out) [] (order params)"
    using False by (simp add: eventMessageToParams_def eventParamsToMessage_def foldl_map case_prod_unfold)
  ultimately show ?thesis by simp
qed (simp add: eventMessageToParams_def eventParamsToMessage_def)

text \<open>Trimming keeps a visible last character.\<close>

lemma trim_keeps_last:
  "(\<And>p. p \<in> set ps \<Longrightarrow> x \<notin> set p) \<Longrightarrow> \<exists>t. trim_prefixes ps (s @ [x]) = t @ [x]"
proof (induction "length s" arbitrary: s rule: less_induct)
  case less
  show ?case
  proof (cases "find (\<lambda>p. p \<noteq> [] \<and> starts_with (s @ [x]) p) ps")
    case None
    then show ?thesis by (simp add: trim_prefixes.simps [of ps "s @ [x]"])
  next
    case (Some p)
    then have p: "p \<in> set ps" "p \<noteq> []" "starts_with (s @ [x]) p" by (auto dest!: find_SomeD)
    have "length p \<le> length s"
    proof (rule ccontr)
      assume "\<not> length p \<le> length s"
      then have "x \<in> set p" using p(3) by (simp add: starts_with_def) (metis in_set_conv_decomp take_all_iff
            length_append_singleton not_less_eq_eq)
      then show False using less.prems p(1) by blast
    qed
    moreover have "trim_prefixes ps (s @ [x]) = trim_prefixes ps (drop (length p) (s @ [x]))"
      by (subst trim_prefixes.simps) (simp add: Some)
    ultimately show ?thesis using less.hyps [of "drop (length p) s"] less.prems p(2) by (cases p) auto
  qed
qed

lemma TrimSpace_last: "ends_with s (ascii ''.'') \<Longrightarrow> ends_with (TrimSpace s) (ascii ''.'')"
proof -
  assume "ends_with s (ascii ''.'')"
  then obtain s' where s: "s = s' @ [0x2E]"
    by (cases s rule: rev_cases) (auto simp: ends_with_def)
  have "\<forall>p \<in> set unicode_spaces. (0x2E :: byte) \<notin> set p" by (simp add: unicode_spaces_def)
  then obtain t where t: "trim_prefixes unicode_spaces s = t @ [0x2E]"
    using trim_keeps_last [of unicode_spaces "0x2E" s'] s by auto
  have "trim_prefixes (map rev unicode_spaces) (rev (t @ [0x2E])) = rev (t @ [0x2E])"
  proof (rule trim_prefixes_stop)
    fix p assume "p \<in> set (map rev unicode_spaces)" "p \<noteq> []"
    then have "hd p \<noteq> 0x2E" by (auto simp: unicode_spaces_def)
    then show "\<not> starts_with (rev (t @ [0x2E])) p" using starts_with_hd [of "rev (t @ [0x2E])" p] \<open>p \<noteq> []\<close> by auto
  qed
  then show ?thesis using t by (simp add: TrimSpace_def ends_with_def)
qed

lemma parent_object: "parentObjectPath p \<noteq> [] \<Longrightarrow> isObjectPath (parentObjectPath p)"
proof -
  assume ne: "parentObjectPath p \<noteq> []"
  let ?p = "TrimSpace p"
  have sep: "0 \<le> last_index 0x2E ?p" using ne by (auto simp: parentObjectPath_def Let_def split: if_splits)
  have "parentObjectPath p = take (nat (last_index 0x2E ?p) + 1) ?p" using sep by (simp add: parentObjectPath_def Let_def)
  then have "last (parentObjectPath p) = 0x2E" using last_index_split(2) [OF sep] by simp
  then have "ends_with (parentObjectPath p) (ascii ''.'')"
    using ne by (cases "parentObjectPath p" rule: rev_cases) (auto simp: ends_with_def)
  then show ?thesis unfolding isObjectPath_def by (rule TrimSpace_last)
qed

lemma encoded_event:
  "\<exists>meta msg paths op. EncodeEventToRequest order ev rid = notify_request rid paths op msg meta \<and>
     (meta, msg) = event_payload order ev
       (put_given eventMetaSubID (ev_SubscriptionID ev) (md_put eventMetaType (nat_digits (unat (ev_Type ev))) [])) \<and>
     (if ev_Type ev = 2 \<and> paths \<noteq> [] then hd paths else if op = [] \<and> paths \<noteq> [] then hd paths else op) =
       TrimSpace (ev_ObjPath ev)"
proof -
  let ?o = "TrimSpace (ev_ObjPath ev)"
  obtain meta msg where p: "event_payload order ev
      (put_given eventMetaSubID (ev_SubscriptionID ev) (md_put eventMetaType (nat_digits (unat (ev_Type ev))) [])) = (meta, msg)"
    by fastforce
  have no: "\<not> isObjectPath []" by (simp add: isObjectPath_def ends_with_def)
  show ?thesis
  proof (cases "ev_Type ev = 2 \<and> ?o \<noteq> [] \<and> \<not> isObjectPath ?o")
    case True
    show ?thesis
    proof (cases "parentObjectPath ?o = []")
      case None: True
      then have "EncodeEventToRequest order ev rid = notify_request rid [?o] [] msg meta"
        using True p no by (simp add: EncodeEventToRequest_def)
      then show ?thesis using p True by (intro exI conjI) auto
    next
      case False
      then have "EncodeEventToRequest order ev rid = notify_request rid [?o] (parentObjectPath ?o) msg meta"
        using True p parent_object [OF False] by (simp add: EncodeEventToRequest_def Let_def)
      then show ?thesis using p True by (intro exI conjI) auto
    qed
  next
    case False
    then have "EncodeEventToRequest order ev rid =
        (if isObjectPath ?o then notify_request rid [] ?o msg meta
         else notify_request rid (if ?o \<noteq> [] then [?o] else []) [] msg meta)"
      using p by (auto simp: EncodeEventToRequest_def)
    then show ?thesis
    proof (cases "isObjectPath ?o")
      case True
      then have "EncodeEventToRequest order ev rid = notify_request rid [] ?o msg meta"
        using \<open>EncodeEventToRequest order ev rid = _\<close> by simp
      then show ?thesis using p by (intro exI conjI) auto
    next
      case f: False
      then have "EncodeEventToRequest order ev rid = notify_request rid (if ?o \<noteq> [] then [?o] else []) [] msg meta"
        using \<open>EncodeEventToRequest order ev rid = _\<close> by simp
      then show ?thesis using p by (intro exI conjI) (auto split: if_splits)
    qed
  qed
qed

lemma event_keys_distinct:
  "distinct [eventMetaType, eventMetaSubID, eventMetaName, eventMetaCmdKey, eventMetaParamValue, eventMetaErrCode, eventMetaErrMsg,
     eventMetaOUI, eventMetaPC, eventMetaSN, eventMetaMfg, eventMetaSWVer, eventMetaPV]"
  by (simp add: event_keys ascii_def)

lemmas event_key_neq [simp] =
  event_keys_distinct [simplified] distinct_rev [THEN iffD2, OF event_keys_distinct, simplified rev.simps append.simps, simplified]

lemmas event_simps = event_payload_def read_event_def delivered_event_def notify_request_def Let_def map_of_put_given map_of_md_put

lemma event_type_cases:
  assumes "1 \<le> unat t" "unat t \<le> 6" shows "t \<in> {1, 2, 3, 4, 5, 6 :: byte}"
proof -
  have "unat t \<in> {1, 2, 3, 4, 5, 6}" using assms by auto
  then have "(of_nat (unat t) :: byte) \<in> of_nat ` {1, 2, 3, 4, 5, 6}" by blast
  then show ?thesis by simp
qed

lemma md_get_list [simp]: "md_get [] k = []" "md_get ((k', v) # m) k = (if k = k' then v else md_get m k)"
  by (simp_all add: md_get_def)

lemma read_encoded_event:
  assumes t: "ev_Type ev \<in> {1, 2, 3, 4, 5, 6}"
    and rt: "eventMessageToParams S (eventParamsToMessage order (ev_Params ev)) = ev_Params ev"
    and p: "(meta, msg) = event_payload order ev
       (put_given eventMetaSubID (ev_SubscriptionID ev) (md_put eventMetaType (nat_digits (unat (ev_Type ev))) []))"
    and path: "(if ev_Type ev = 2 \<and> paths \<noteq> [] then hd paths else if op = [] \<and> paths \<noteq> [] then hd paths else op) =
       TrimSpace (ev_ObjPath ev)"
  shows "read_event S (notify_request rid paths op msg meta) (ev_Type ev) = delivered_event S ev"
proof -
  have sub: "md_get meta eventMetaSubID = ev_SubscriptionID ev"
    using p by (auto simp: event_payload_def Let_def split: if_splits option.splits)
  have code: "ParseUint 32 (nat_digits (unat c)) = Some (unat c)" for c :: u32
    using unsigned_less [where ?'a = nat, of c] by (intro ParseUint_digits) simp
  consider "ev_Type ev = 1" | "ev_Type ev = 2" | "ev_Type ev = 3" | "ev_Type ev = 4" | "ev_Type ev = 5" | "ev_Type ev = 6"
    using t by blast
  then show ?thesis
    by cases (use p sub path rt in \<open>auto simp: event_simps code nat_digits_ok split: option.splits\<close>)
qed

lemma event_request:
  assumes "1 \<le> unat (ev_Type ev)" "unat (ev_Type ev) \<le> 6" "md_ok (ev_Params ev)" "mset (order (ev_Params ev)) = mset (ev_Params ev)"
  shows "DecodeEventFromRequest S (EncodeEventToRequest order ev rid) = Inr (delivered_event S ev)"
    "rq_ID (EncodeEventToRequest order ev rid) = rid" "IsEventNotifyRequest (EncodeEventToRequest order ev rid)"
proof -
  obtain meta msg paths op where enc: "EncodeEventToRequest order ev rid = notify_request rid paths op msg meta"
    and p: "(meta, msg) = event_payload order ev
       (put_given eventMetaSubID (ev_SubscriptionID ev) (md_put eventMetaType (nat_digits (unat (ev_Type ev))) []))"
    and path: "(if ev_Type ev = 2 \<and> paths \<noteq> [] then hd paths else if op = [] \<and> paths \<noteq> [] then hd paths else op) =
       TrimSpace (ev_ObjPath ev)"
    using encoded_event [of order ev rid] by blast
  have ty: "map_of meta eventMetaType = Some (nat_digits (unat (ev_Type ev)))"
    using p by (auto simp: event_payload_def Let_def map_of_put_given map_of_md_put split: if_splits option.splits)
  have "Atoi (nat_digits (unat (ev_Type ev))) = Some (int (unat (ev_Type ev)))" by (rule Atoi_digits) (use assms(2) in simp)
  moreover have "1 \<le> uint (ev_Type ev)" "uint (ev_Type ev) \<le> 6" using assms(1,2) nat_uint_eq [of "ev_Type ev"] by linarith+
  moreover have "read_event S (notify_request rid paths op msg meta) (ev_Type ev) = delivered_event S ev"
    by (rule read_encoded_event [OF event_type_cases [OF assms(1,2)] params_roundtrip [of "ev_Params ev" order, OF assms(3,4)] p path])
  ultimately show "DecodeEventFromRequest S (EncodeEventToRequest order ev rid) = Inr (delivered_event S ev)"
    using assms(1,2) ty unfolding DecodeEventFromRequest_def enc by (simp add: notify_request_def)
  show "rq_ID (EncodeEventToRequest order ev rid) = rid" "IsEventNotifyRequest (EncodeEventToRequest order ev rid)"
    using ty unfolding enc by (simp_all add: notify_request_def IsEventNotifyRequest_def)
qed

text \<open>
  An event of one of the six types, sent as a Notify request, is read by the other side with the same type,
  subscription and fields of its type, under its path without surrounding spaces: name and arguments of an
  event, the value of a change, the unique keys of a new object, the outcome of an operation (the error, or
  the output arguments), the identity of an onboarding agent. The order in which the arguments are visited
  does not matter.
\<close>
theorem event_roundtrip:
  assumes "1 \<le> unat (ev_Type ev)" "unat (ev_Type ev) \<le> 6" "md_ok (ev_Params ev)" "mset (order (ev_Params ev)) = mset (ev_Params ev)"
  shows "DecodeEventFromRequest S (EncodeEventToRequest order ev rid) = Inr (delivered_event S ev)"
  by (rule event_request(1) [of ev order, OF assms])

definition ex_event :: usp_event where
  "ex_event = \<lparr>ev_Type = 5, ev_SubscriptionID = ascii ''sub-1'', ev_ObjPath = ascii ''Device.'', ev_EventName = ascii ''Reboot()'',
     ev_CommandKey = ascii ''k'', ev_Params = [(ascii ''A'', ascii ''1''), (ascii ''B'', [])], ev_ParamMessage = None, ev_ParamValue = [],
     ev_Err = None, ev_OnBoard = None\<rparr>"

theorem event_roundtrip_witness:
  "DecodeEventFromRequest ex_transport (EncodeEventToRequest rev ex_event 9) = Inr (delivered_event ex_transport ex_event) \<and>
   ev_Params (delivered_event ex_transport ex_event) = [(ascii ''A'', ascii ''1''), (ascii ''B'', [])]"
proof
  show "DecodeEventFromRequest ex_transport (EncodeEventToRequest rev ex_event 9) = Inr (delivered_event ex_transport ex_event)"
    by (rule event_roundtrip) (simp_all add: ex_event_def md_ok_def ascii_def)
  show "ev_Params (delivered_event ex_transport ex_event) = [(ascii ''A'', ascii ''1''), (ascii ''B'', [])]"
    by (simp add: delivered_event_def ex_event_def)
qed

section \<open>Subscriptions over the wire\<close>

lemma sub_keys_distinct: "distinct [subMetaAction, subMetaID, subMetaTypes, subMetaPaths, subMetaEvents, subMetaStatus]"
  by (simp add: sub_keys ascii_def)

lemmas sub_key_neq [simp] =
  sub_keys_distinct [simplified] distinct_rev [THEN iffD2, OF sub_keys_distinct, simplified rev.simps append.simps, simplified]

lemma join_nonempty: "\<lbrakk>ps \<noteq> []; [] \<notin> set ps\<rbrakk> \<Longrightarrow> join_on c ps \<noteq> []"
  using join_on_ends by blast

lemma read_types_join:
  assumes "types \<noteq> []" "\<forall>t \<in> set types. 1 \<le> unat t \<and> unat t \<le> 6"
  shows "read_types (join_on 0x2C (map (\<lambda>t. nat_digits (unat t)) types)) = types"
proof -
  have comma: "(0x2C :: byte) \<notin> set (nat_digits n)" for n by (rule nat_digits_only) (simp add: is_digit_def)
  have split: "split_on 0x2C (join_on 0x2C (map (\<lambda>t. nat_digits (unat t)) types)) = map (\<lambda>t. nat_digits (unat t)) types"
    using assms(1) by (intro split_join) (auto simp: comma)
  have ne: "join_on 0x2C (map (\<lambda>t. nat_digits (unat t)) types) \<noteq> []"
    using assms(1) by (intro join_nonempty) (auto simp: nat_digits_ok dest: sym)
  have one: "(case Atoi (TrimSpace (nat_digits (unat t))) of Some n \<Rightarrow> if 1 \<le> n \<and> n \<le> 6 then [word_of_int n] else [] | None \<Rightarrow> []) = [t]"
    if "t \<in> set types" for t
  proof -
    have b: "1 \<le> unat t" "unat t \<le> 6" using assms(2) that by auto
    then have "1 \<le> uint t" "uint t \<le> 6" using nat_uint_eq [of t] by linarith+
    moreover have "Atoi (nat_digits (unat t)) = Some (int (unat t))" by (rule Atoi_digits) (use b in simp)
    ultimately show ?thesis by (simp add: nat_digits_plain)
  qed
  show ?thesis using ne by (simp add: read_types_def split comp_def one cong: map_cong)
qed

lemma read_names_join:
  "\<lbrakk>ps \<noteq> []; \<forall>p \<in> set ps. plain p \<and> 0x2C \<notin> set p\<rbrakk> \<Longrightarrow> read_names (join_on 0x2C ps) = ps"
  using join_nonempty [of ps "0x2C"]
  by (auto simp: read_names_def split_join plain_def filter_id_conv cong: map_cong)

text \<open>
  A subscription that a controller describes by a request is read back by the agent as it was described:
  the action, the id, the event types, the path prefixes and the event names, where the id and the names
  have no surrounding spaces and the names no commas.
\<close>
theorem subscription_roundtrip:
  assumes "plain subID" "\<forall>t \<in> set types. 1 \<le> unat t \<and> unat t \<le> 6"
    "\<forall>p \<in> set paths. plain p \<and> 0x2C \<notin> set p" "\<forall>e \<in> set events. plain e \<and> 0x2C \<notin> set e"
  shows "IsSubscriptionRequest (EncodeSubscribeRequest rid subID types paths events) \<and>
    DecodeSubscriptionFromRequest (EncodeSubscribeRequest rid subID types paths events) =
      (subActionAdd, \<lparr>sub_ID = subID, sub_Types = types, sub_PathFilter = paths, sub_EventFilter = events, sub_Handler = None\<rparr>)"
proof -
  have action: "TrimSpace subActionAdd = subActionAdd"
    by (rule TrimSpace_plain) (simp add: subActionAdd_def plain_def ascii_def visible_def word_le_nat_alt)
  have "read_types [] = []" "read_names [] = []" by (simp_all add: read_types_def read_names_def)
  then show ?thesis
    using assms action
    by (simp add: EncodeSubscribeRequest_def DecodeSubscriptionFromRequest_def IsSubscriptionRequest_def notify_request_def Let_def
        read_types_join read_names_join)
qed

theorem subscription_roundtrip_witness:
  "DecodeSubscriptionFromRequest (EncodeSubscribeRequest 1 (ascii ''sub-wg'') [2, 3] [ascii ''Device.WireGuard.''] []) =
     (subActionAdd, \<lparr>sub_ID = ascii ''sub-wg'', sub_Types = [2, 3], sub_PathFilter = [ascii ''Device.WireGuard.''], sub_EventFilter = [],
        sub_Handler = None\<rparr>)"
proof -
  have "plain (ascii ''sub-wg'')" "\<forall>t \<in> set [2, 3 :: byte]. 1 \<le> unat t \<and> unat t \<le> 6"
    "\<forall>p \<in> set [ascii ''Device.WireGuard.'']. plain p \<and> 0x2C \<notin> set p" "\<forall>e \<in> set ([] :: bytes list). plain e \<and> 0x2C \<notin> set e"
    by (simp_all add: ascii_def plain_def visible_def word_le_nat_alt)
  then show ?thesis using subscription_roundtrip by blast
qed

text \<open>
  C32. No subscription request reaches the wire: for every id, filter and schema \<^verbatim>\<open>EncodeUSPAgentRequest\<close> refuses
  what \<^verbatim>\<open>EncodeSubscribeRequest\<close> and \<^verbatim>\<open>EncodeUnsubscribeRequest\<close> build, because a Notify request must name an
  object and these name none.
\<close>
theorem subscription_not_sendable:
  "EncodeUSPAgentRequest S (EncodeSubscribeRequest rid subID types paths events) =
     Inl (TransportInvalid \<lparr>ve_Path = [], ve_Reason = ''request missing object path''\<rparr>) \<and>
   EncodeUSPAgentRequest S (EncodeUnsubscribeRequest rid subID) =
     Inl (TransportInvalid \<lparr>ve_Path = [], ve_Reason = ''request missing object path''\<rparr>)"
proof -
  have "EncodeUSPAgentRequest S (notify_request rid [] [] None meta) =
      Inl (TransportInvalid \<lparr>ve_Path = [], ve_Reason = ''request missing object path''\<rparr>)" for meta
    by (simp add: notify_request_def EncodeUSPAgentRequest_def prepare_request_def compactRequestSelectors_def compact_paths_def
        compact_object_def validateUSPAgentRequest_def validate_method_def validateUSPAgentRequestMessage_def Let_def isObjectPath_def)
  then show ?thesis by (simp add: EncodeSubscribeRequest_def EncodeUnsubscribeRequest_def Let_def)
qed

end
