(* ===== verification/Usp_Store.thy ===== *)
theory Usp_Store
  imports Usp_Events
begin

text \<open>
  The parameter store of the USP agent (\<^verbatim>\<open>internal/wusp/usp_agent.go\<close>): the values by path, reading, writing and
  deleting them, object instances, event subscriptions and the emission of events. The stored map is an association
  list sorted by path; \<open>ag_values\<close> and the subscriptions are the state, everything else in the struct is set up
  once. Platform back ends, handlers and the event sender are functions on a world of type \<open>'w\<close>: they may change it and
  answer as they like, but do not call back into the agent. A collector that reports no error returns a message.
  Texts of validation errors keep the formatting verbs of the source.

  The data model tables enter as \<open>data_model\<close>: the objects and parameters in table order, the generated sample
  values by profile and position, the lookup of paths by code. Go visits maps in any order; where that shows (the
  subscriptions and the arguments of an event), \<open>visit_order\<close> gives the order.
\<close>

section \<open>Errors, the data model and the agent\<close>

datatype agent_error =
    PathUnsupported
  | PathNotFound bytes
  | UnknownPathCode u64
  | TransferUnsupported
  | MissingFromRegistry bytes
  | AgentInvalid validation_error
  | BackendFailed backend_error

datatype emit_error = HandlerFailed backend_error | EncodeFailed transport_error | SendFailed backend_error

definition ValidationError_Error :: "validation_error \<Rightarrow> bytes" where
  "ValidationError_Error e =
     (if ve_Path e = [] then ascii ''wusp: invalid message: '' @ ascii (ve_Reason e)
      else ascii ''wusp: invalid '' @ ve_Path e @ ascii '': '' @ ascii (ve_Reason e))"

fun error_text :: "agent_error \<Rightarrow> bytes" where
  "error_text PathUnsupported = ascii ''wusp: path unsupported''"
| "error_text (PathNotFound path) = ascii ''wusp: path not found: '' @ path"
| "error_text (UnknownPathCode code) = ascii ''wusp: path not found: unknown path code '' @ nat_digits (unat code)"
| "error_text TransferUnsupported = ascii ''wusp: transfer handler not configured''"
| "error_text (MissingFromRegistry path) = ascii ''wusp: parameter missing from registry: '' @ path"
| "error_text (AgentInvalid e) = ValidationError_Error e"
| "error_text (BackendFailed e) = be_text e"

abbreviation bad :: "bytes \<Rightarrow> string \<Rightarrow> agent_error" where
  "bad path reason \<equiv> AgentInvalid \<lparr>ve_Path = path, ve_Reason = reason\<rparr>"

type_synonym field_map = "(bytes \<times> wfield) list"

record data_model =
  dm_schema :: transport_schema
  dm_AllDeviceObjects :: "supported_object list"
  dm_AllDeviceParams :: "supported_param list"
  dm_sample :: "bytes \<Rightarrow> nat \<Rightarrow> wvalue"
  dm_PathByCode :: "(u64 \<Rightarrow> bytes option) option"
  dm_RootVersion :: bytes
  dm_BroadbandModels :: "broadband_model list"

record 'w data_setter =
  ds_Set :: "bytes \<Rightarrow> wvalue \<Rightarrow> 'w \<Rightarrow> backend_error option \<times> 'w"
  ds_Delete :: "bytes list \<Rightarrow> 'w \<Rightarrow> backend_error option \<times> 'w"
  ds_Add :: "(bytes \<Rightarrow> wmessage option \<Rightarrow> 'w \<Rightarrow> (backend_error + bytes list) \<times> 'w) option"

type_synonym 'w transfer_handler = "transfer_request \<Rightarrow> 'w \<Rightarrow> (backend_error + transfer_result) \<times> 'w"

record 'w usp_agent =
  ag_nextEventID :: u64
  ag_fillProfile :: bytes
  ag_uploadHandler :: "'w transfer_handler option"
  ag_downloadHandler :: "'w transfer_handler option"
  ag_operateHandler :: "(bytes \<Rightarrow> wmessage option \<Rightarrow> metadata \<Rightarrow> 'w \<Rightarrow> (backend_error + wmessage option) \<times> 'w) option"
  ag_notifyHandler :: "(bytes \<Rightarrow> wmessage option \<Rightarrow> metadata \<Rightarrow> 'w \<Rightarrow> backend_error option \<times> 'w) option"
  ag_collector :: "(bytes list \<Rightarrow> 'w \<Rightarrow> (backend_error + wmessage) \<times> 'w) option"
  ag_setter :: "'w data_setter option"
  ag_values :: field_map
  ag_subscriptions :: "(bytes \<times> 'w usp_subscription) list"
  ag_eventSender :: "(bytes \<Rightarrow> 'w \<Rightarrow> backend_error option \<times> 'w) option"

record 'w visit_order =
  vo_params :: "metadata \<Rightarrow> metadata"
  vo_subscriptions :: "'w usp_subscription list \<Rightarrow> 'w usp_subscription list"

definition message_of :: "wfield list \<Rightarrow> wmessage" where
  "message_of fs = \<lparr>m_DeviceID = [], m_Timestamp = time_zero, m_Fields = fs\<rparr>"

section \<open>Sample values\<close>

definition FillProfileRealistic :: bytes where "FillProfileRealistic = ascii ''realistic''"
definition FillProfileMaxCompressible :: bytes where "FillProfileMaxCompressible = ascii ''max-compressible''"

definition normalizeFillProfile :: "bytes \<Rightarrow> bytes" where
  "normalizeFillProfile profile =
     (if profile = [] \<or> profile = FillProfileRealistic then FillProfileRealistic
      else if profile = FillProfileMaxCompressible then FillProfileMaxCompressible
      else FillProfileRealistic)"

definition coalesceFillProfile :: "bytes \<Rightarrow> bytes \<Rightarrow> bytes" where
  "coalesceFillProfile primary fallback =
     (if normalizeFillProfile primary \<noteq> FillProfileRealistic \<or> primary = FillProfileMaxCompressible then normalizeFillProfile primary
      else if primary = [] then normalizeFillProfile fallback
      else normalizeFillProfile primary)"

definition safeFilledValueForParam :: "data_model \<Rightarrow> supported_param \<Rightarrow> nat \<Rightarrow> bytes \<Rightarrow> wvalue" where
  "safeFilledValueForParam M param index profile =
     (let v = dm_sample M profile index in
      case ValidateFieldFast (dm_schema M) \<lparr>f_id = 0, f_Path = sp_Path param, f_Val = v\<rparr> of Some _ \<Rightarrow> VNull | None \<Rightarrow> v)"

fun filled_fields :: "data_model \<Rightarrow> bytes \<Rightarrow> nat \<Rightarrow> supported_param list \<Rightarrow> agent_error + wfield list" where
  "filled_fields M profile i [] = Inr []"
| "filled_fields M profile i (param # ps) =
     (case IDFor (sc_registry (dm_schema M)) (sp_Path param) of None \<Rightarrow> Inl (MissingFromRegistry (sp_Path param))
      | Some k \<Rightarrow>
        if k = 0 then Inl (MissingFromRegistry (sp_Path param))
        else case filled_fields M profile (Suc i) ps of Inl e \<Rightarrow> Inl e
        | Inr fs \<Rightarrow> Inr (\<lparr>f_id = k, f_Path = sp_Path param, f_Val = safeFilledValueForParam M param i profile\<rparr> # fs))"

definition BuildFilledMessage :: "data_model \<Rightarrow> bytes \<Rightarrow> bytes \<Rightarrow> time \<Rightarrow> agent_error + wmessage" where
  "BuildFilledMessage M profile deviceID timestamp =
     (case filled_fields M (normalizeFillProfile profile) 0 (dm_AllDeviceParams M) of Inl e \<Rightarrow> Inl e
      | Inr fs \<Rightarrow>
        let msg = \<lparr>m_DeviceID = deviceID, m_Timestamp = timestamp, m_Fields = fs\<rparr> in
        case ValidateMessageFast (dm_schema M) msg of Some e \<Rightarrow> Inl (AgentInvalid e) | None \<Rightarrow> Inr msg)"

section \<open>Reading\<close>

definition mergeMessageFields :: "field_map \<Rightarrow> wfield list \<Rightarrow> field_map" where
  "mergeMessageFields values fs = foldl (\<lambda>m f. md_put (f_Path f) f m) values fs"

definition Bootstrap :: "data_model \<Rightarrow> bytes \<Rightarrow> bytes \<Rightarrow> time \<Rightarrow> bool \<Rightarrow> 'w usp_agent \<Rightarrow> agent_error option \<times> 'w usp_agent" where
  "Bootstrap M profile deviceID timestamp overwrite A =
     (case BuildFilledMessage M (coalesceFillProfile profile (ag_fillProfile A)) deviceID timestamp of
        Inl e \<Rightarrow> (Some e, A)
      | Inr msg \<Rightarrow>
        (None, A\<lparr>ag_values := mergeMessageFields (if overwrite then [] else ag_values A) (m_Fields msg)\<rparr>))"

definition sortedStoredFields :: "field_map \<Rightarrow> wfield list" where
  "sortedStoredFields values = sort_key f_Path (map snd values)"

definition buildSnapshotMessage :: "field_map \<Rightarrow> wmessage" where
  "buildSnapshotMessage values = message_of (sortedStoredFields values)"

definition Snapshot :: "'w usp_agent \<Rightarrow> 'w \<Rightarrow> wmessage \<times> 'w" where
  "Snapshot A w =
     (case ag_collector A of None \<Rightarrow> (buildSnapshotMessage (ag_values A), w)
      | Some collect \<Rightarrow>
        (case collect [] w of
           (Inl _, w') \<Rightarrow> (buildSnapshotMessage (ag_values A), w')
         | (Inr msg, w') \<Rightarrow> (buildSnapshotMessage (mergeMessageFields (ag_values A) (m_Fields msg)), w')))"

definition instance_token :: bytes where "instance_token = ascii ''{i}''"

text \<open>The entries beneath an object path; templates only when the path names one.\<close>

definition beneath :: "bytes \<Rightarrow> bytes \<Rightarrow> bool" where
  "beneath path key \<longleftrightarrow> starts_with key path \<and> (contains path instance_token \<or> \<not> contains key instance_token)"

fun get_stored :: "field_map \<Rightarrow> bytes list \<Rightarrow> bytes list \<Rightarrow> agent_error + wfield list" where
  "get_stored values seen [] = Inr []"
| "get_stored values seen (p # ps) =
     (let path = TrimSpace p in
      if path = [] then Inl (bad [] ''empty get path'')
      else if isObjectPath path then
        (let found = filter (\<lambda>(key, f). beneath path key \<and> key \<notin> set seen) values in
         if found = [] then Inl (PathNotFound path)
         else map_sum (\<lambda>e. e) ((@) (map snd found)) (get_stored values (map fst found @ seen) ps))
      else case map_of values path of None \<Rightarrow> Inl (PathNotFound path)
      | Some f \<Rightarrow>
        if path \<in> set seen then get_stored values seen ps
        else map_sum (\<lambda>e. e) ((#) f) (get_stored values (path # seen) ps))"

definition getStored :: "'w usp_agent \<Rightarrow> bytes list \<Rightarrow> agent_error + wmessage" where
  "getStored A paths =
     (if paths = [] then Inr (buildSnapshotMessage (ag_values A))
      else map_sum (\<lambda>e. e) (\<lambda>fs. message_of (sort_key f_Path fs)) (get_stored (ag_values A) [] paths))"

fun filter_values :: "field_map \<Rightarrow> bytes list \<Rightarrow> bytes list \<Rightarrow> agent_error + wfield list" where
  "filter_values values seen [] = Inr []"
| "filter_values values seen (p # ps) =
     (let path = TrimSpace p in
      if path = [] then Inl (bad [] ''empty get path'')
      else if isObjectPath path then
        (let found = filter (\<lambda>f. beneath path (f_Path f) \<and> f_Path f \<notin> set seen) (sortedStoredFields values) in
         map_sum (\<lambda>e. e) ((@) found) (filter_values values (map f_Path found @ seen) ps))
      else case map_of values path of None \<Rightarrow> Inl (PathNotFound path)
      | Some f \<Rightarrow>
        if path \<in> set seen then filter_values values seen ps
        else map_sum (\<lambda>e. e) ((#) f) (filter_values values (path # seen) ps))"

definition filterValuesForPaths :: "field_map \<Rightarrow> bytes list \<Rightarrow> agent_error + wmessage" where
  "filterValuesForPaths values paths =
     map_sum (\<lambda>e. e) (\<lambda>fs. message_of (sort_key f_Path fs)) (filter_values values [] paths)"

definition isWUSPConfigPath :: "bytes \<Rightarrow> bool" where
  "isWUSPConfigPath path = starts_with path (ascii ''Device.WUSP.'')"

definition isExplicitlySetPath :: "bytes \<Rightarrow> bool" where
  "isExplicitlySetPath path = starts_with path (ascii ''Device.RootDataModelVersion'')"

definition overlay :: "field_map \<Rightarrow> field_map \<Rightarrow> field_map" where
  "overlay stored values = foldl (\<lambda>m (path, f). if map_of m path = None \<and> (isWUSPConfigPath path \<or> isExplicitlySetPath path)
     then md_put path f m else m) values stored"

definition GetContext :: "'w usp_agent \<Rightarrow> bytes list \<Rightarrow> 'w \<Rightarrow> (agent_error + wmessage) \<times> 'w" where
  "GetContext A paths w =
     (case ag_collector A of None \<Rightarrow> (getStored A paths, w)
      | Some collect \<Rightarrow>
        (case collect paths w of
           (Inl e, w') \<Rightarrow> (Inl (BackendFailed e), w')
         | (Inr msg, w') \<Rightarrow>
           let values = overlay (ag_values A) (mergeMessageFields [] (m_Fields msg)) in
           (if paths = [] then Inr (buildSnapshotMessage values) else filterValuesForPaths values paths, w')))"

section \<open>Events\<close>

definition Subscribe :: "'w usp_subscription \<Rightarrow> 'w usp_agent \<Rightarrow> agent_error option \<times> 'w usp_agent" where
  "Subscribe sub A =
     (if TrimSpace (sub_ID sub) = [] then (Some (bad [] ''subscription id required''), A)
      else (None, A\<lparr>ag_subscriptions := md_put (sub_ID sub) sub (ag_subscriptions A)\<rparr>))"

definition Unsubscribe :: "bytes \<Rightarrow> 'w usp_agent \<Rightarrow> 'w usp_agent" where
  "Unsubscribe sid A = A\<lparr>ag_subscriptions := md_delete sid (ag_subscriptions A)\<rparr>"

definition SetEventSender :: "(bytes \<Rightarrow> 'w \<Rightarrow> backend_error option \<times> 'w) option \<Rightarrow> 'w usp_agent \<Rightarrow> 'w usp_agent" where
  "SetEventSender sender A = A\<lparr>ag_eventSender := sender\<rparr>"

fun call_handlers :: "usp_event \<Rightarrow> 'w usp_subscription list \<Rightarrow> 'w \<Rightarrow> backend_error option \<times> 'w" where
  "call_handlers ev [] w = (None, w)"
| "call_handlers ev (sub # subs) w =
     (case sub_Handler sub of None \<Rightarrow> call_handlers ev subs w
      | Some handle \<Rightarrow>
        (case handle (ev\<lparr>ev_SubscriptionID := sub_ID sub\<rparr>) w of
           (Some e, w') \<Rightarrow> (Some e, w')
         | (None, w') \<Rightarrow> call_handlers ev subs w'))"

definition sendEventWire ::
  "data_model \<Rightarrow> 'w visit_order \<Rightarrow> (bytes \<Rightarrow> 'w \<Rightarrow> backend_error option \<times> 'w) \<Rightarrow> usp_event \<Rightarrow> u64 \<Rightarrow> 'w \<Rightarrow> emit_error option \<times> u64 \<times> 'w" where
  "sendEventWire M V sender ev n w =
     (let n = n + 1 in
      case EncodeUSPAgentRequest (dm_schema M) (EncodeEventToRequest (vo_params V) ev n) of
        Inl e \<Rightarrow> (Some (EncodeFailed e), n, w)
      | Inr data \<Rightarrow> (case sender data w of (e, w') \<Rightarrow> (map_option SendFailed e, n, w')))"

fun send_each ::
  "data_model \<Rightarrow> 'w visit_order \<Rightarrow> (bytes \<Rightarrow> 'w \<Rightarrow> backend_error option \<times> 'w) \<Rightarrow> usp_event list \<Rightarrow> u64 \<Rightarrow> 'w \<Rightarrow> emit_error option \<times> u64 \<times> 'w"
where
  "send_each M V sender [] n w = (None, n, w)"
| "send_each M V sender (ev # evs) n w =
     (case sendEventWire M V sender ev n w of
        (Some e, n', w') \<Rightarrow> (Some e, n', w')
      | (None, n', w') \<Rightarrow> send_each M V sender evs n' w')"

definition matching_subscriptions :: "'w visit_order \<Rightarrow> 'w usp_agent \<Rightarrow> usp_event \<Rightarrow> 'w usp_subscription list" where
  "matching_subscriptions V A ev = filter (\<lambda>sub. subscriptionMatches sub ev) (vo_subscriptions V (map snd (ag_subscriptions A)))"

definition Emit :: "data_model \<Rightarrow> 'w visit_order \<Rightarrow> usp_event \<Rightarrow> 'w usp_agent \<Rightarrow> 'w \<Rightarrow> emit_error option \<times> 'w usp_agent \<times> 'w" where
  "Emit M V ev A w =
     (let matching = matching_subscriptions V A ev in
      case call_handlers ev matching w of
        (Some e, w1) \<Rightarrow> (Some (HandlerFailed e), A, w1)
      | (None, w1) \<Rightarrow>
        (case ag_eventSender A of None \<Rightarrow> (None, A, w1)
         | Some sender \<Rightarrow>
           (case send_each M V sender
               (if matching = [] then [ev] else map (\<lambda>sub. ev\<lparr>ev_SubscriptionID := sub_ID sub\<rparr>) matching) (ag_nextEventID A) w1 of
              (e, n, w2) \<Rightarrow> (e, A\<lparr>ag_nextEventID := n\<rparr>, w2))))"

definition new_event :: "byte \<Rightarrow> bytes \<Rightarrow> usp_event" where
  "new_event t path = \<lparr>ev_Type = t, ev_SubscriptionID = [], ev_ObjPath = path, ev_EventName = [], ev_CommandKey = [], ev_Params = [],
     ev_ParamMessage = None, ev_ParamValue = [], ev_Err = None, ev_OnBoard = None\<rparr>"

definition EmitValueChange where
  "EmitValueChange M V paramPath newValue = Emit M V ((new_event USPEventTypeValueChange paramPath)\<lparr>ev_ParamValue := newValue\<rparr>)"

definition EmitObjectCreation where
  "EmitObjectCreation M V objPath uniqueKeys = Emit M V ((new_event USPEventTypeObjectCreation objPath)\<lparr>ev_Params := uniqueKeys\<rparr>)"

definition EmitObjectDeletion where
  "EmitObjectDeletion M V objPath = Emit M V (new_event USPEventTypeObjectDeletion objPath)"

definition EmitOperationComplete where
  "EmitOperationComplete M V objPath commandName commandKey outputArgs opErr =
     Emit M V ((new_event USPEventTypeOperationComplete objPath)\<lparr>ev_EventName := commandName, ev_CommandKey := commandKey,
       ev_Params := outputArgs, ev_Err := opErr\<rparr>)"

definition EmitEvent where
  "EmitEvent M V objPath eventName params =
     Emit M V ((new_event USPEventTypeEvent objPath)\<lparr>ev_EventName := eventName, ev_Params := params\<rparr>)"

definition EmitOnBoardRequest where
  "EmitOnBoardRequest M V info = Emit M V ((new_event USPEventTypeOnBoardRequest (ascii ''Device.''))\<lparr>ev_OnBoard := Some info\<rparr>)"

section \<open>Writing and deleting\<close>

fun apply_setter :: "'w data_setter \<Rightarrow> wfield list \<Rightarrow> 'w \<Rightarrow> backend_error option \<times> 'w" where
  "apply_setter ds [] w = (None, w)"
| "apply_setter ds (f # fs) w =
     (case ds_Set ds (TrimSpace (f_Path f)) (f_Val f) w of
        (Some e, w') \<Rightarrow> if be_unsupported e then apply_setter ds fs w' else (Some e, w')
      | (None, w') \<Rightarrow> apply_setter ds fs w')"

definition stored_field :: "registry \<Rightarrow> wfield \<Rightarrow> wfield" where
  "stored_field R f =
     (let path = TrimSpace (f_Path f) in
      case IDFor R path of Some k \<Rightarrow> f\<lparr>f_id := k, f_Path := path\<rparr> | None \<Rightarrow> f\<lparr>f_Path := path\<rparr>)"

definition value_change :: "data_model \<Rightarrow> wfield \<Rightarrow> usp_event" where
  "value_change M f = (new_event USPEventTypeValueChange (f_Path f))\<lparr>ev_EventName := ascii ''ValueChange'',
     ev_ParamValue := ValueToString (sc_FormatFloat (dm_schema M)) (f_Val f)\<rparr>"

fun emit_changes :: "data_model \<Rightarrow> 'w visit_order \<Rightarrow> wfield list \<Rightarrow> 'w usp_agent \<Rightarrow> 'w \<Rightarrow> 'w usp_agent \<times> 'w" where
  "emit_changes M V [] A w = (A, w)"
| "emit_changes M V (f # fs) A w = (case Emit M V (value_change M f) A w of (_, A', w') \<Rightarrow> emit_changes M V fs A' w')"

definition storeFields ::
  "data_model \<Rightarrow> 'w visit_order \<Rightarrow> wfield list \<Rightarrow> bool \<Rightarrow> 'w usp_agent \<Rightarrow> 'w \<Rightarrow> agent_error option \<times> 'w usp_agent \<times> 'w" where
  "storeFields M V fs alreadyValidated A w =
     (if fs = [] then (None, A, w)
      else
        let fs' = (if alreadyValidated then fs else map (\<lambda>f. f\<lparr>f_Path := TrimSpace (f_Path f)\<rparr>) fs) in
        case (if alreadyValidated then None else ValidateMessageFast (dm_schema M) (message_of fs')) of
          Some e \<Rightarrow> (Some (AgentInvalid e), A, w)
        | None \<Rightarrow>
          (case (case ag_setter A of None \<Rightarrow> (None, w) | Some ds \<Rightarrow> apply_setter ds fs' w) of
             (Some e, w1) \<Rightarrow> (Some (BackendFailed e), A, w1)
           | (None, w1) \<Rightarrow>
             let A1 = A\<lparr>ag_values := mergeMessageFields (ag_values A) (map (stored_field (sc_registry (dm_schema M))) fs')\<rparr> in
             case (if ag_eventSender A = None then (A1, w1) else emit_changes M V fs' A1 w1) of (A2, w2) \<Rightarrow> (None, A2, w2)))"

definition agent_Set where
  "agent_Set M V path v = storeFields M V [\<lparr>f_id = 0, f_Path = TrimSpace path, f_Val = v\<rparr>] False"

definition SetBatch where
  "SetBatch M V fs = storeFields M V fs False"

definition deletePathLocked :: "bytes \<Rightarrow> field_map \<Rightarrow> bool \<times> field_map" where
  "deletePathLocked path m =
     (if isObjectPath path then (\<exists>key \<in> set (map fst m). starts_with key path, filter (\<lambda>(key, f). \<not> starts_with key path) m)
      else (map_of m path \<noteq> None, md_delete path m))"

fun delete_paths :: "bool \<Rightarrow> bytes list \<Rightarrow> field_map \<Rightarrow> agent_error option \<times> field_map" where
  "delete_paths handled [] m = (None, m)"
| "delete_paths handled (path # paths) m =
     (case deletePathLocked path m of (removed, m') \<Rightarrow>
        if \<not> removed \<and> \<not> handled then (Some (PathNotFound path), m') else delete_paths handled paths m')"

definition agent_Delete :: "bytes list \<Rightarrow> 'w usp_agent \<Rightarrow> 'w \<Rightarrow> agent_error option \<times> 'w usp_agent \<times> 'w" where
  "agent_Delete paths A w =
     (let normalized = map TrimSpace paths in
      if paths = [] then (None, A, w)
      else if [] \<in> set normalized then (Some (bad [] ''empty delete path''), A, w)
      else case (case ag_setter A of None \<Rightarrow> (None, False, w)
                 | Some ds \<Rightarrow>
                   (case ds_Delete ds normalized w of
                      (None, w') \<Rightarrow> (None, True, w')
                    | (Some e, w') \<Rightarrow> if be_unsupported e then (None, False, w') else (Some e, False, w'))) of
        (Some e, _, w') \<Rightarrow> (Some (BackendFailed e), A, w')
      | (None, handled, w') \<Rightarrow>
        (case delete_paths handled normalized (ag_values A) of (e, m) \<Rightarrow> (e, A\<lparr>ag_values := m\<rparr>, w')))"

section \<open>Objects and instances\<close>

definition trim_dot :: "bytes \<Rightarrow> bytes" where
  "trim_dot s = (if ends_with s (ascii ''.'') then butlast s else s)"

definition token_count :: "bytes \<Rightarrow> nat" where
  "token_count s = length (filter (\<lambda>k. starts_with (drop k s) instance_token) [0..<length s])"

definition splitObjectParts :: "bytes \<Rightarrow> bytes list" where
  "splitObjectParts path = split_on 0x2E (trim_dot (TrimSpace path))"

definition lookupObjectDefinition :: "data_model \<Rightarrow> bytes \<Rightarrow> (supported_object \<times> bytes) option" where
  "lookupObjectDefinition M path =
     (let canonical = canonicalParamPath (TrimSpace path) in
      case find (\<lambda>ob. so_Path ob = canonical) (dm_AllDeviceObjects M) of
        Some ob \<Rightarrow> Some (ob, canonical)
      | None \<Rightarrow>
        (let addCanonical = trim_dot canonical @ ascii ''.{i}.'' in
         map_option (\<lambda>ob. (ob, addCanonical)) (find (\<lambda>ob. so_MultiInstance ob \<and> so_Path ob = addCanonical) (dm_AllDeviceObjects M))))"

fun actual_parts :: "bytes list \<Rightarrow> bytes list \<Rightarrow> bytes list option" where
  "actual_parts [] fieldParts = Some []"
| "actual_parts (ob # obs) [] = None"
| "actual_parts (ob # obs) (p # ps) =
     (if ob = instance_token \<and> isNumericPathSegment p \<or> ob = p then map_option ((#) p) (actual_parts obs ps) else None)"

definition extractActualObjectPath :: "bytes \<Rightarrow> bytes \<Rightarrow> bytes option" where
  "extractActualObjectPath canonicalObjectPath fieldPath =
     (let objectParts = splitObjectParts canonicalObjectPath; fieldParts = split_on 0x2E (TrimSpace fieldPath) in
      if length fieldParts < length objectParts + 1 then None
      else map_option (\<lambda>ps. join_on 0x2E ps @ [0x2E]) (actual_parts objectParts fieldParts))"

definition instancePathsForObject :: "field_map \<Rightarrow> bytes \<Rightarrow> bytes list" where
  "instancePathsForObject values canonicalObjectPath =
     sort (remdups (List.map_filter (extractActualObjectPath canonicalObjectPath) (map fst values)))"

definition hasFieldsWithPrefix :: "field_map \<Rightarrow> bytes \<Rightarrow> bool" where
  "hasFieldsWithPrefix values prefix = (\<exists>path \<in> set (map fst values). starts_with path prefix)"

definition instancePathsForRequest :: "data_model \<Rightarrow> field_map \<Rightarrow> bytes \<Rightarrow> agent_error + bytes list" where
  "instancePathsForRequest M values path =
     (case lookupObjectDefinition M path of
        Some (ob, canonical) \<Rightarrow>
          if so_MultiInstance ob then Inr (instancePathsForObject values canonical)
          else if hasFieldsWithPrefix values canonical then Inr [canonical]
          else Inl (PathNotFound path)
      | None \<Rightarrow>
        if \<not> isObjectPath path then Inl (bad path ''get-instances requires object paths'')
        else let instances = instancePathsForObject values (canonicalParamPath path) in
          if instances = [] then Inl (PathNotFound path) else Inr instances)"

fun instances_of_all :: "data_model \<Rightarrow> field_map \<Rightarrow> bytes list \<Rightarrow> agent_error + bytes list" where
  "instances_of_all M values [] = Inr []"
| "instances_of_all M values (p # ps) =
     (let path = TrimSpace p in
      if path = [] then Inl (bad [] ''empty get-instances path'')
      else case instancePathsForRequest M values path of Inl e \<Rightarrow> Inl e
      | Inr instances \<Rightarrow> map_sum (\<lambda>e. e) ((@) instances) (instances_of_all M values ps))"

definition collectAllMultiInstanceObjectPaths :: "data_model \<Rightarrow> bytes list" where
  "collectAllMultiInstanceObjectPaths M = map so_Path (filter so_MultiInstance (dm_AllDeviceObjects M))"

definition GetInstancesContext :: "data_model \<Rightarrow> 'w usp_agent \<Rightarrow> bytes list \<Rightarrow> 'w \<Rightarrow> (agent_error + bytes list) \<times> 'w" where
  "GetInstancesContext M A paths w =
     (let requested = (if paths = [] then collectAllMultiInstanceObjectPaths M else paths);
          answer = (\<lambda>values. map_sum (\<lambda>e. e) (\<lambda>ps. sort (remdups ps)) (instances_of_all M values requested)) in
      case ag_collector A of None \<Rightarrow> (answer (ag_values A), w)
      | Some collect \<Rightarrow>
        (case collect paths w of
           (Inl e, w') \<Rightarrow> (Inl (BackendFailed e), w')
         | (Inr msg, w') \<Rightarrow> (answer (mergeMessageFields (ag_values A) (m_Fields msg)), w')))"

section \<open>Adding an instance\<close>

text \<open>\<^verbatim>\<open>nextObjectInstance\<close>: the instance values of the request with one place open, then the largest instance in use there.\<close>

fun request_instances :: "bytes \<Rightarrow> (bytes \<times> bytes) list \<Rightarrow> bytes list \<Rightarrow> nat option \<Rightarrow> agent_error + (bytes list \<times> nat option)" where
  "request_instances requestedPath [] vals unresolved = Inr (vals, unresolved)"
| "request_instances requestedPath ((t, r) # parts) vals unresolved =
     (if t = instance_token then
        (if r = instance_token then
           (if unresolved \<noteq> None then Inl (bad requestedPath ''only the final instance token may be unresolved'')
            else request_instances requestedPath parts (vals @ [[]]) (Some (length vals)))
         else if isNumericPathSegment r then request_instances requestedPath parts (vals @ [r]) unresolved
         else Inl (bad requestedPath ''instance segments must be numeric or {i}''))
      else if t \<noteq> r then Inl (bad requestedPath ''object path does not match schema'')
      else request_instances requestedPath parts vals unresolved)"

text \<open>The instance values of an object path, in the places of the tokens of the template.\<close>

definition token_values :: "bytes list \<Rightarrow> bytes list \<Rightarrow> bytes list" where
  "token_values templateParts parts = map snd (filter (\<lambda>(t, p). t = instance_token) (zip templateParts parts))"

definition same_siblings :: "nat \<Rightarrow> bytes list \<Rightarrow> bytes list \<Rightarrow> bool" where
  "same_siblings unresolved vals actual = list_all (\<lambda>k. k = unresolved \<or> vals ! k = actual ! k) [0..<length actual]"

definition parseObjectInstanceAt :: "bytes \<Rightarrow> nat \<Rightarrow> nat option" where
  "parseObjectInstanceAt objectPath instanceOrdinal =
     (let nums = filter isNumericPathSegment (splitObjectParts objectPath) in
      if instanceOrdinal < length nums then ParseUint 63 (nums ! instanceOrdinal) else None)"

definition instance_in_use :: "bytes \<Rightarrow> nat \<Rightarrow> bytes list \<Rightarrow> bytes \<Rightarrow> nat" where
  "instance_in_use canonical unresolved vals path =
     (case extractActualObjectPath canonical path of None \<Rightarrow> 0
      | Some candidate \<Rightarrow>
        if same_siblings unresolved vals (token_values (splitObjectParts canonical) (splitObjectParts candidate))
        then (case parseObjectInstanceAt candidate unresolved of Some n \<Rightarrow> n | None \<Rightarrow> 0) else 0)"

fun fill_tokens :: "bytes list \<Rightarrow> bytes list \<Rightarrow> bytes list" where
  "fill_tokens [] vals = []"
| "fill_tokens (t # ts) vals =
     (if t = instance_token \<and> vals \<noteq> [] then hd vals # fill_tokens ts (tl vals) else t # fill_tokens ts vals)"

definition nextObjectInstance :: "field_map \<Rightarrow> bytes \<Rightarrow> bytes \<Rightarrow> agent_error + (bytes list \<times> bytes)" where
  "nextObjectInstance values requestedPath canonical =
     (let templateParts = splitObjectParts canonical; requestParts = splitObjectParts (TrimSpace requestedPath) in
      if length templateParts \<noteq> length requestParts then Inl (bad requestedPath ''object path shape does not match schema'')
      else case request_instances requestedPath (zip templateParts requestParts) [] None of
        Inl e \<Rightarrow> Inl e
      | Inr (vals, None) \<Rightarrow> Inl (bad requestedPath ''add requires an unresolved {i} token'')
      | Inr (vals, Some unresolved) \<Rightarrow>
        (let maxInstance = foldl (\<lambda>m path. max m (instance_in_use canonical unresolved vals path)) 0 (map fst values);
             next = FormatInt (sint (of_nat (maxInstance + 1) :: u64));
             vals = vals[unresolved := next] in
         Inr (vals, join_on 0x2E (fill_tokens templateParts vals) @ [0x2E])))"

fun materialize :: "bytes list \<Rightarrow> bytes list \<Rightarrow> bytes list \<Rightarrow> bytes list" where
  "materialize (t # ts) (p # ps) vals =
     (if t = instance_token \<and> vals \<noteq> [] then hd vals # materialize ts ps (tl vals) else p # materialize ts ps vals)"
| "materialize ts ps vals = ps"

definition materializePathForInstance :: "bytes \<Rightarrow> bytes \<Rightarrow> bytes list \<Rightarrow> bytes" where
  "materializePathForInstance path canonicalObjectPath instanceValues =
     join_on 0x2E (materialize (split_on 0x2E canonicalObjectPath) (split_on 0x2E path) instanceValues)"

definition buildObjectFieldsForAdd :: "data_model \<Rightarrow> bytes \<Rightarrow> bytes list \<Rightarrow> field_map" where
  "buildObjectFieldsForAdd M canonicalObjectPath instanceValues =
     foldl (\<lambda>m (i, param).
       if starts_with (sp_Path param) canonicalObjectPath then
         (let path = materializePathForInstance (sp_Path param) canonicalObjectPath instanceValues in
          md_put path \<lparr>f_id = 0, f_Path = path, f_Val = safeFilledValueForParam M param i FillProfileRealistic\<rparr> m)
       else m) [] (enumerate 0 (dm_AllDeviceParams M))"

fun add_initial :: "bytes \<Rightarrow> bytes \<Rightarrow> bytes list \<Rightarrow> wfield list \<Rightarrow> field_map \<Rightarrow> agent_error + field_map" where
  "add_initial actual canonical vals [] m = Inr m"
| "add_initial actual canonical vals (f # fs) m =
     (if TrimSpace (f_Path f) = [] then Inl (bad [] ''add payload contains empty field path'')
      else let path = materializePathForInstance (canonicalParamPath (TrimSpace (f_Path f))) canonical vals in
        if \<not> starts_with path (trim_dot actual) then Inl (bad (f_Path f) ''field does not belong to added object'')
        else add_initial actual canonical vals fs (md_put path \<lparr>f_id = 0, f_Path = path, f_Val = f_Val f\<rparr> m))"

text \<open>\<^verbatim>\<open>objectCountParamPath\<close>: the parameter beside the last instance token that counts the instances.\<close>

definition last_token :: "bytes list \<Rightarrow> nat option" where
  "last_token parts = find (\<lambda>i. parts ! i = instance_token) (rev [0..<length parts])"

definition objectCountParamPath :: "data_model \<Rightarrow> bytes \<Rightarrow> bytes option" where
  "objectCountParamPath M objectPath =
     (let parts = splitObjectParts objectPath in
      case last_token parts of None \<Rightarrow> None
      | Some i \<Rightarrow>
        if i = 0 then None
        else let prefix = (if i > 1 then join_on 0x2E (take (i - 1) parts) @ [0x2E] else []);
                 countPath = prefix @ parts ! (i - 1) @ ascii ''NumberOfEntries'' in
          (case lookupSafeParam (dm_schema M) countPath of Some _ \<Rightarrow> Some countPath | None \<Rightarrow> None))"

definition refreshEntryCount :: "data_model \<Rightarrow> bytes \<Rightarrow> 'w usp_agent \<Rightarrow> 'w usp_agent" where
  "refreshEntryCount M objectPath A =
     (case objectCountParamPath M objectPath of None \<Rightarrow> A
      | Some countPath \<Rightarrow>
        A\<lparr>ag_values := md_put countPath
          \<lparr>f_id = 0, f_Path = countPath, f_Val = VUint (of_nat (length (instancePathsForObject (ag_values A) objectPath)))\<rparr> (ag_values A)\<rparr>)"

definition add_in_memory ::
  "data_model \<Rightarrow> 'w visit_order \<Rightarrow> bytes \<Rightarrow> bytes \<Rightarrow> wmessage option \<Rightarrow> 'w usp_agent \<Rightarrow> 'w \<Rightarrow> (agent_error + bytes list) \<times> 'w usp_agent \<times> 'w"
where
  "add_in_memory M V objectPath canonical initial A w =
     (let instanceRequestPath = (if canonicalParamPath objectPath \<noteq> canonical then trim_dot objectPath @ ascii ''.{i}.'' else objectPath) in
      case nextObjectInstance (ag_values A) instanceRequestPath canonical of Inl e \<Rightarrow> (Inl e, A, w)
      | Inr (vals, actual) \<Rightarrow>
        (case (case initial of None \<Rightarrow> Inr (buildObjectFieldsForAdd M canonical vals)
               | Some msg \<Rightarrow> add_initial actual canonical vals (m_Fields msg) (buildObjectFieldsForAdd M canonical vals)) of
           Inl e \<Rightarrow> (Inl e, A, w)
         | Inr m \<Rightarrow>
           (case storeFields M V (map snd m) False A w of
              (Some e, A', w') \<Rightarrow> (Inl e, A', w')
            | (None, A', w') \<Rightarrow> (Inr [actual], refreshEntryCount M canonical A', w'))))"

definition agent_Add ::
  "data_model \<Rightarrow> 'w visit_order \<Rightarrow> bytes \<Rightarrow> wmessage option \<Rightarrow> 'w usp_agent \<Rightarrow> 'w \<Rightarrow> (agent_error + bytes list) \<times> 'w usp_agent \<times> 'w" where
  "agent_Add M V path initial A w =
     (let objectPath = TrimSpace path in
      if objectPath = [] \<or> \<not> isObjectPath objectPath then (Inl (bad objectPath ''add requires an object path''), A, w)
      else case lookupObjectDefinition M objectPath of None \<Rightarrow> (Inl (PathNotFound objectPath), A, w)
      | Some (ob, canonical) \<Rightarrow>
        if \<not> so_MultiInstance ob then (Inl (bad objectPath ''object is not multi-instance''), A, w)
        else if token_count canonical = 0 then (Inl (bad objectPath ''object path does not expose an instance token''), A, w)
        else if 1 < token_count objectPath then (Inl (bad objectPath ''add requires parent instances to be concrete''), A, w)
        else
          (case (case ag_setter A of None \<Rightarrow> None | Some ds \<Rightarrow> ds_Add ds) of
             None \<Rightarrow> add_in_memory M V objectPath canonical initial A w
           | Some adder \<Rightarrow>
             (case adder objectPath initial w of
                (Inr paths, w') \<Rightarrow> (Inr paths, A, w')
              | (Inl e, w') \<Rightarrow>
                if be_unsupported e then add_in_memory M V objectPath canonical initial A w' else (Inl (BackendFailed e), A, w'))))"

end
