(* ===== verification/Usp_Agent.thy ===== *)
theory Usp_Agent
  imports Usp_Store
begin

text \<open>
  The requests of the USP agent: \<^verbatim>\<open>HandleRequest\<close> of \<^verbatim>\<open>internal/wusp/usp_transport.go\<close> with the operations of
  \<^verbatim>\<open>usp_agent.go\<close> it dispatches to. A request that has to be queued waits for the action queue; the argument
  \<open>queueError\<close> is the text of the context's error when the wait was given up, and \<open>None\<close> when the slot was
  obtained. The theorems say what the store holds after any history of operations, and what the operations do
  to it.
\<close>

section \<open>Operations that delegate\<close>

definition upload :: "data_model \<Rightarrow> transfer_request \<Rightarrow> 'w usp_agent \<Rightarrow> 'w \<Rightarrow> (agent_error + transfer_result) \<times> 'w" where
  "upload M r A w =
     (case validateTransferRequest (dm_schema M) r of Some e \<Rightarrow> (Inl (AgentInvalid e), w)
      | None \<Rightarrow>
        (case ag_uploadHandler A of None \<Rightarrow> (Inl TransferUnsupported, w)
         | Some handle \<Rightarrow> (case handle r w of (res, w') \<Rightarrow> (map_sum BackendFailed (\<lambda>x. x) res, w'))))"

definition download :: "data_model \<Rightarrow> transfer_request \<Rightarrow> 'w usp_agent \<Rightarrow> 'w \<Rightarrow> (agent_error + transfer_result) \<times> 'w" where
  "download M r A w =
     (case validateTransferRequest (dm_schema M) r of Some e \<Rightarrow> (Inl (AgentInvalid e), w)
      | None \<Rightarrow>
        (case ag_downloadHandler A of None \<Rightarrow> (Inl TransferUnsupported, w)
         | Some handle \<Rightarrow> (case handle r w of (res, w') \<Rightarrow> (map_sum BackendFailed (\<lambda>x. x) res, w'))))"

definition Operate ::
  "bytes \<Rightarrow> wmessage option \<Rightarrow> metadata \<Rightarrow> 'w usp_agent \<Rightarrow> 'w \<Rightarrow> (agent_error + wmessage option) \<times> 'w" where
  "Operate command input metadata A w =
     (let commandPath = TrimSpace command in
      if commandPath = [] then (Inl (bad [] ''operate requires a command path''), w)
      else case ag_operateHandler A of None \<Rightarrow> (Inl PathUnsupported, w)
      | Some handle \<Rightarrow> (case handle commandPath input metadata w of (res, w') \<Rightarrow> (map_sum BackendFailed (\<lambda>x. x) res, w')))"

definition Notify :: "bytes \<Rightarrow> wmessage option \<Rightarrow> metadata \<Rightarrow> 'w usp_agent \<Rightarrow> 'w \<Rightarrow> agent_error option \<times> 'w" where
  "Notify event payload metadata A w =
     (let eventPath = TrimSpace event in
      if eventPath = [] then (Some (bad [] ''notify requires an event path''), w)
      else case ag_notifyHandler A of None \<Rightarrow> (Some PathUnsupported, w)
      | Some handle \<Rightarrow> (case handle eventPath payload metadata w of (e, w') \<Rightarrow> (map_option BackendFailed e, w')))"

section \<open>What the agent supports\<close>

definition trim_v :: "byte \<Rightarrow> bytes \<Rightarrow> bytes" where
  "trim_v c s = (if s \<noteq> [] \<and> hd s = c then tl s else s)"

definition normalizeModelVersion :: "bytes \<Rightarrow> bytes" where
  "normalizeModelVersion v = trim_v 0x56 (trim_v 0x76 (TrimSpace v))"

definition normalizeSupportedDMFilters :: "bytes list \<Rightarrow> bytes list" where
  "normalizeSupportedDMFilters paths = sort (remdups (map canonicalParamPath (filter (\<lambda>p. p \<noteq> []) (map TrimSpace paths))))"

definition supportedPathMatches :: "bytes list \<Rightarrow> bytes \<Rightarrow> bool" where
  "supportedPathMatches filters candidate \<longleftrightarrow>
     filters = [] \<or> (\<exists>f \<in> set filters. candidate = f \<or> starts_with candidate f \<or> starts_with f candidate)"

definition GetSupportedDM :: "data_model \<Rightarrow> bytes list \<Rightarrow> supported_dm" where
  "GetSupportedDM M paths =
     (let filters = normalizeSupportedDMFilters paths in
      \<lparr>dm_RootDataModelVersion = dm_RootVersion M, dm_Models = dm_BroadbandModels M,
       dm_Objects = map (\<lambda>ob. ob\<lparr>so_SinceVersion := normalizeModelVersion (so_SinceVersion ob)\<rparr>)
         (filter (\<lambda>ob. supportedPathMatches filters (so_Path ob)) (dm_AllDeviceObjects M)),
       dm_Params = map (\<lambda>pa. pa\<lparr>sp_SinceVersion := normalizeModelVersion (sp_SinceVersion pa)\<rparr>)
         (filter (\<lambda>pa. supportedPathMatches filters (sp_Path pa)) (dm_AllDeviceParams M))\<rparr>)"

definition GetSupportedProtocol :: protocol_info where
  "GetSupportedProtocol =
     \<lparr>po_Name = ascii ''wantastic-wusp-over-wireguard'', po_Version = 1,
      po_Methods = map ascii [''Get'', ''Set'', ''Add'', ''Delete'', ''GetInstances'', ''Operate'', ''Notify'', ''GetSupportedDM'',
        ''GetSupportedProtocol'', ''Upload'', ''Download''],
      po_Compression = map ascii [''nested-message-lz4'', ''stream-chunk-lz4''],
      po_ControlTransport = ascii ''wireguard-noise-fragmented-datagram'',
      po_TransferTransport = ascii ''wireguard-noise-stream-packets'',
      po_MaxControlPayload = 1200, po_RecommendedChunkSize = 1120, po_TunnelOnly = True, po_ReliableTransfer = True\<rparr>"

section \<open>Paths by code\<close>

fun paths_by_code :: "(u64 \<Rightarrow> bytes option) \<Rightarrow> u64 list \<Rightarrow> agent_error + bytes list" where
  "paths_by_code lookup [] = Inr []"
| "paths_by_code lookup (code # codes) =
     (case lookup code of None \<Rightarrow> Inl (UnknownPathCode code)
      | Some path \<Rightarrow> map_sum (\<lambda>e. e) ((#) path) (paths_by_code lookup codes))"

definition resolvePathsForCodes :: "data_model \<Rightarrow> u64 list \<Rightarrow> agent_error + bytes list" where
  "resolvePathsForCodes M codes =
     (if codes = [] then Inr []
      else case dm_PathByCode M of None \<Rightarrow> Inl PathUnsupported | Some lookup \<Rightarrow> paths_by_code lookup codes)"

definition resolveObjectPathForCode :: "data_model \<Rightarrow> u64 \<Rightarrow> agent_error + bytes" where
  "resolveObjectPathForCode M code =
     (if code = 0 then Inl (bad [] ''missing object code'')
      else case dm_PathByCode M of None \<Rightarrow> Inl PathUnsupported
      | Some lookup \<Rightarrow>
        (case lookup code of None \<Rightarrow> Inl (UnknownPathCode code)
         | Some path \<Rightarrow> if \<not> isObjectPath path then Inl (bad path ''path code does not resolve to an object'') else Inr path))"

definition GetByCode where
  "GetByCode M A codes w = (case resolvePathsForCodes M codes of Inl e \<Rightarrow> (Inl e, w) | Inr paths \<Rightarrow> GetContext A paths w)"

definition DeleteByCode where
  "DeleteByCode M codes A w = (case resolvePathsForCodes M codes of Inl e \<Rightarrow> (Some e, A, w) | Inr paths \<Rightarrow> agent_Delete paths A w)"

definition AddByCode where
  "AddByCode M V code initial A w =
     (case resolveObjectPathForCode M code of Inl e \<Rightarrow> (Inl e, A, w) | Inr path \<Rightarrow> agent_Add M V path initial A w)"

definition GetInstancesByCode where
  "GetInstancesByCode M A codes w =
     (case resolvePathsForCodes M codes of Inl e \<Rightarrow> (Inl e, w) | Inr paths \<Rightarrow> GetInstancesContext M A paths w)"

section \<open>Requests\<close>

definition empty_response :: "u64 \<Rightarrow> usp_method \<Rightarrow> metadata \<Rightarrow> usp_response" where
  "empty_response rid method md =
     \<lparr>rs_ID = rid, rs_Method = method, rs_Paths = [], rs_PathCodes = [], rs_PathInstances = [], rs_ObjectPath = [], rs_ObjectCode = 0,
      rs_ObjectInstances = [], rs_Message = None, rs_Transfer = None, rs_Metadata = md, rs_SupportedDataModel = None,
      rs_Protocol = None, rs_Error = []\<rparr>"

definition handleSubscriptionRequest :: "usp_request \<Rightarrow> 'w usp_agent \<Rightarrow> usp_response \<times> 'w usp_agent" where
  "handleSubscriptionRequest q A =
     (let resp = empty_response (rq_ID q) (rq_Method q) [];
          (action, sub) = DecodeSubscriptionFromRequest q;
          ok = md_put subMetaStatus (ascii ''ok'') (md_put subMetaID (sub_ID sub) []) in
      if TrimSpace (sub_ID sub) = [] then (resp\<lparr>rs_Error := ascii ''subscription id required''\<rparr>, A)
      else if action = subActionAdd then
        (case Subscribe sub A of
           (Some e, A') \<Rightarrow> (resp\<lparr>rs_Error := error_text e\<rparr>, A')
         | (None, A') \<Rightarrow> (resp\<lparr>rs_Metadata := ok\<rparr>, A'))
      else if action = subActionRemove then (resp\<lparr>rs_Metadata := ok\<rparr>, Unsubscribe (sub_ID sub) A)
      else (resp\<lparr>rs_Error := ascii ''unknown wusp subscription action''\<rparr>, A))"

definition HandleRequest ::
  "data_model \<Rightarrow> 'w visit_order \<Rightarrow> bytes option \<Rightarrow> usp_request \<Rightarrow> 'w usp_agent \<Rightarrow> 'w \<Rightarrow> (transport_error + usp_response) \<times> 'w usp_agent \<times> 'w"
where
  "HandleRequest M V queueError q0 A w =
     (let q = resolveFastRequestPaths (dm_schema M) q0; m = rq_Method q;
          resp = empty_response (rq_ID q) m (ResponseMetadataForRequest (rq_Metadata q));
          failed = (\<lambda>text. Inr (resp\<lparr>rs_Error := text\<rparr>)) in
      if ShouldQueueUSPRequest m (rq_Metadata q) \<and> queueError \<noteq> None
      then (failed (ascii ''action queue wait: '' @ the queueError), A, w)
      else if m = USPAgentMethodGet then
        (case GetContext A (rq_Paths q) w of
           (Inl e, w') \<Rightarrow> (failed (error_text e), A, w')
         | (Inr msg, w') \<Rightarrow> (Inr (resp\<lparr>rs_Message := Some msg\<rparr>), A, w'))
      else if m = USPAgentMethodSet then
        (case rq_Message q of None \<Rightarrow> (failed (ascii ''set request missing fields''), A, w)
         | Some msg \<Rightarrow>
           if m_Fields msg = [] then (failed (ascii ''set request missing fields''), A, w)
           else (case storeFields M V (m_Fields msg) True A w of
              (Some e, A', w') \<Rightarrow> (failed (error_text e), A', w')
            | (None, A', w') \<Rightarrow> (Inr resp, A', w')))
      else if m = USPAgentMethodAdd then
        (case agent_Add M V (rq_ObjectPath q) (rq_Message q) A w of
           (Inl e, A', w') \<Rightarrow> (failed (error_text e), A', w')
         | (Inr instances, A', w') \<Rightarrow> (Inr (resp\<lparr>rs_ObjectPath := rq_ObjectPath q, rs_Paths := instances\<rparr>), A', w'))
      else if m = USPAgentMethodDelete then
        (if rq_Paths q = [] then (failed (ascii ''delete request missing paths''), A, w)
         else case agent_Delete (rq_Paths q) A w of
           (Some e, A', w') \<Rightarrow> (failed (error_text e), A', w')
         | (None, A', w') \<Rightarrow> (Inr resp, A', w'))
      else if m = USPAgentMethodGetInstances then
        (case GetInstancesContext M A (rq_Paths q) w of
           (Inl e, w') \<Rightarrow> (failed (error_text e), A, w')
         | (Inr instances, w') \<Rightarrow> (Inr (resp\<lparr>rs_Paths := instances\<rparr>), A, w'))
      else if m = USPAgentMethodOperate then
        (case OperationCommandPath (rq_ObjectPath q) (rq_Metadata q) of
           Inl e \<Rightarrow> (failed (ValidationError_Error e), A, w)
         | Inr commandPath \<Rightarrow>
           (case Operate commandPath (rq_Message q) (rq_Metadata q) A w of
              (Inl e, w') \<Rightarrow> (failed (error_text e), A, w')
            | (Inr msg, w') \<Rightarrow> (Inr (resp\<lparr>rs_ObjectPath := rq_ObjectPath q, rs_Message := msg\<rparr>), A, w')))
      else if m = USPAgentMethodNotify then
        (if IsSubscriptionRequest q then (case handleSubscriptionRequest q A of (r, A') \<Rightarrow> (Inr r, A', w))
         else case Notify (rq_ObjectPath q) (rq_Message q) (rq_Metadata q) A w of
           (Some e, w') \<Rightarrow> (failed (error_text e), A, w')
         | (None, w') \<Rightarrow> (Inr (resp\<lparr>rs_ObjectPath := rq_ObjectPath q\<rparr>), A, w'))
      else if m = USPAgentMethodGetSupportedDM then
        (Inr (resp\<lparr>rs_SupportedDataModel := Some (GetSupportedDM M (rq_Paths q))\<rparr>), A, w)
      else if m = USPAgentMethodGetSupportedProtocol then (Inr (resp\<lparr>rs_Protocol := Some GetSupportedProtocol\<rparr>), A, w)
      else if m = USPAgentMethodUpload then
        (case rq_Transfer q of None \<Rightarrow> (failed (ascii ''upload request missing transfer''), A, w)
         | Some r \<Rightarrow>
           (case upload M r A w of
              (Inl e, w') \<Rightarrow> (failed (error_text e), A, w')
            | (Inr res, w') \<Rightarrow> (Inr (resp\<lparr>rs_Transfer := Some res\<rparr>), A, w')))
      else if m = USPAgentMethodDownload then
        (case rq_Transfer q of None \<Rightarrow> (failed (ascii ''download request missing transfer''), A, w)
         | Some r \<Rightarrow>
           (case download M r A w of
              (Inl e, w') \<Rightarrow> (failed (error_text e), A, w')
            | (Inr res, w') \<Rightarrow> (Inr (resp\<lparr>rs_Transfer := Some res\<rparr>), A, w')))
      else (Inl (TransportUnsupported m), A, w))"

end
