(* ===== verification/Agent_Store.thy ===== *)
theory Agent_Store
  imports Usp_Agent
begin

text \<open>
  What the store of the USP agent holds. Every stored field stands under its own path and conforms to the schema, the
  counters of table entries apart, whatever the history of operations, and reading, writing, deleting and adding act on the store as a map from paths
  to values.
\<close>

section \<open>Conforming stores\<close>

text \<open>
  The data model: limits are 64-bit integers, and parameter paths start and end with a visible character.
\<close>

definition model_ok :: "data_model \<Rightarrow> bool" where
  "model_ok M \<longleftrightarrow> schema_ok (dm_schema M) \<and> (\<forall>p \<in> dom (sc_safeParamIndex (dm_schema M)). plain p)"

text \<open>
  The number of entries that \<^verbatim>\<open>refreshEntryCount\<close> stores without validation: an unsigned number under a known parameter that
  counts entries, whatever the limits of that parameter.
\<close>

definition counts_entries :: "data_model \<Rightarrow> bytes \<Rightarrow> wfield \<Rightarrow> bool" where
  "counts_entries M path f \<longleftrightarrow> (\<exists>p n. path = p @ ascii ''NumberOfEntries'' \<and> f_Val f = VUint n) \<and> lookupSafeParam (dm_schema M) path \<noteq> None"

definition well_stored :: "data_model \<Rightarrow> bytes \<times> wfield \<Rightarrow> bool" where
  "well_stored M e \<longleftrightarrow> f_Path (snd e) = fst e \<and> (conforms (dm_schema M) ((snd e)\<lparr>f_id := 0\<rparr>) \<or> counts_entries M (fst e) (snd e))"

definition store_ok :: "data_model \<Rightarrow> field_map \<Rightarrow> bool" where
  "store_ok M m \<longleftrightarrow> md_ok m \<and> list_all (well_stored M) m"

lemma conforms_id0: "conforms S f \<Longrightarrow> conforms S (f\<lparr>f_id := 0\<rparr>)"
  by (auto simp: conforms_def)

lemma ValidateMessageFast_fields:
  "\<lbrakk>schema_ok S; ValidateMessageFast S m = None; f \<in> set (m_Fields m)\<rbrakk> \<Longrightarrow> conforms S f"
  by (simp add: ValidateMessageFast_def validate_fields_iff)

text \<open>Only paths without surrounding spaces conform.\<close>

lemma canonical_parts: "path \<noteq> [] \<Longrightarrow> canonicalParamPath path = join_on 0x2E (map canonical_part (split_on 0x2E path))"
  by (simp add: canonicalParamPath_def canonical_part_def cong: map_cong)

lemma join_on_Cons: "ps \<noteq> [] \<Longrightarrow> join_on c (p # ps) = p @ c # join_on c ps"
  by (cases ps) auto

lemma join_split: "join_on c (split_on c s) = s"
proof (induction s)
  case (Cons x s)
  obtain p ps where ps: "split_on c s = p # ps" by (cases "split_on c s") auto
  then show ?case using Cons by (cases "ps = []") (auto simp: join_on_Cons)
qed simp

lemma canonical_part_ends:
  "p \<noteq> [] \<Longrightarrow> canonical_part p \<noteq> [] \<and> (visible (hd (canonical_part p)) \<longrightarrow> visible (hd p)) \<and>
     (visible (last (canonical_part p)) \<longrightarrow> visible (last p))"
  by (auto simp: canonical_part_def isNumericPathSegment_def list_all_iff digit_visible)

lemma canonical_part_Nil [simp]: "canonical_part [] = []"
  by (simp add: canonical_part_def)

lemma join_canonical_ends:
  "join_on 0x2E ps \<noteq> [] \<Longrightarrow> join_on 0x2E (map canonical_part ps) \<noteq> [] \<and>
     (visible (hd (join_on 0x2E (map canonical_part ps))) \<longrightarrow> visible (hd (join_on 0x2E ps))) \<and>
     (visible (last (join_on 0x2E (map canonical_part ps))) \<longrightarrow> visible (last (join_on 0x2E ps)))"
proof (induction ps)
  case (Cons p ps)
  show ?case
  proof (cases "ps = []")
    case True
    then show ?thesis using Cons.prems canonical_part_ends [of p] by simp
  next
    case False
    have dot: "visible 0x2E" by (simp add: visible_def word_le_nat_alt)
    have "hd (join_on 0x2E (p # ps)) = (if p = [] then 0x2E else hd p)"
      "hd (join_on 0x2E (map canonical_part (p # ps))) = (if p = [] then 0x2E else hd (canonical_part p))"
      using False canonical_part_ends [of p] by (auto simp: join_on_Cons hd_append)
    moreover have "last (join_on 0x2E (p # ps)) = (if join_on 0x2E ps = [] then 0x2E else last (join_on 0x2E ps))"
      using False by (simp add: join_on_Cons)
    moreover have "last (join_on 0x2E (map canonical_part (p # ps))) =
        (if join_on 0x2E (map canonical_part ps) = [] then 0x2E else last (join_on 0x2E (map canonical_part ps)))"
      using False by (simp add: join_on_Cons)
    moreover have "join_on 0x2E (map canonical_part (p # ps)) \<noteq> []" using False by (simp add: join_on_Cons)
    ultimately show ?thesis using Cons.IH canonical_part_ends [of p] dot by auto
  qed
qed simp

lemma plain_canonical: "plain (canonicalParamPath p) \<Longrightarrow> plain p"
  using join_canonical_ends [of "split_on 0x2E p"]
  by (cases "p = []") (auto simp: canonical_parts join_split plain_def, simp add: canonicalParamPath_def)

lemma conforms_plain: "\<lbrakk>model_ok M; conforms (dm_schema M) f\<rbrakk> \<Longrightarrow> plain (f_Path f)"
  by (auto simp: conforms_def model_ok_def lookupSafeParam_def split: option.splits intro: plain_canonical)

section \<open>Every operation keeps the store conforming\<close>

lemma store_ok_put: "\<lbrakk>store_ok M m; well_stored M (k, f)\<rbrakk> \<Longrightarrow> store_ok M (md_put k f m)"
proof -
  assume a: "store_ok M m" "well_stored M (k, f)"
  have "set (md_put k f m) \<subseteq> insert (k, f) (set m)" by (induction m) (auto split: if_splits)
  then show ?thesis using a by (auto simp: store_ok_def list_all_iff)
qed

lemma store_ok_filter: "store_ok M m \<Longrightarrow> store_ok M (filter P m)"
  by (induction m) (auto simp: store_ok_def md_ok_def)

lemma store_ok_merge:
  "\<lbrakk>store_ok M m; \<And>f. f \<in> set fs \<Longrightarrow> conforms (dm_schema M) (f\<lparr>f_id := 0\<rparr>)\<rbrakk> \<Longrightarrow> store_ok M (mergeMessageFields m fs)"
  unfolding mergeMessageFields_def
proof (induction fs arbitrary: m)
  case (Cons f fs)
  have "store_ok M (md_put (f_Path f) f m)" using Cons.prems by (intro store_ok_put) (simp_all add: well_stored_def)
  then show ?case using Cons by simp
qed simp

lemma store_ok_delete: "store_ok M m \<Longrightarrow> store_ok M (snd (deletePathLocked path m))"
  by (simp add: deletePathLocked_def md_delete_def store_ok_filter)

lemma store_ok_delete_paths: "store_ok M m \<Longrightarrow> store_ok M (snd (delete_paths handled paths m))"
proof (induction handled paths m rule: delete_paths.induct)
  case (2 handled path paths m)
  then show ?case using store_ok_delete [of M m path] by (auto split: prod.split)
qed simp

text \<open>Events never touch the store.\<close>

definition same_store :: "'w usp_agent \<Rightarrow> 'w usp_agent \<Rightarrow> bool" where
  "same_store A A' \<longleftrightarrow> (\<exists>n. A' = A\<lparr>ag_nextEventID := n\<rparr>)"

lemma same_store_refl: "same_store A A"
  unfolding same_store_def by (rule exI [of _ "ag_nextEventID A"]) simp

lemma same_store_trans: "\<lbrakk>same_store A B; same_store B C\<rbrakk> \<Longrightarrow> same_store A C"
  by (auto simp: same_store_def)

lemma same_store_values: "same_store A A' \<Longrightarrow> ag_values A' = ag_values A"
  by (auto simp: same_store_def)

lemma Emit_same: "same_store A (fst (snd (Emit M V ev A w)))"
  by (auto simp: Emit_def Let_def same_store_refl split: prod.split option.split) (auto simp: same_store_def)

lemma emit_changes_same: "same_store A (fst (emit_changes M V fs A w))"
proof (induction fs arbitrary: A w)
  case (Cons f fs)
  obtain e A' w' where e: "Emit M V (value_change M f) A w = (e, A', w')" by (cases "Emit M V (value_change M f) A w") auto
  have "same_store A A'" using Emit_same [of A M V "value_change M f" w] by (simp add: e)
  then show ?case using Cons.IH [of A' w'] by (simp add: e same_store_trans)
qed (simp add: same_store_refl)

lemma stored_field_simps [simp]:
  "f_Path (stored_field R f) = TrimSpace (f_Path f)" "f_Val (stored_field R f) = f_Val f"
  "(stored_field R f)\<lparr>f_id := 0\<rparr> = f\<lparr>f_id := 0, f_Path := TrimSpace (f_Path f)\<rparr>"
  by (simp_all add: stored_field_def Let_def split: option.split)

text \<open>The two outcomes of \<^verbatim>\<open>storeFields\<close>: nothing changed, or the fields are in the store.\<close>

definition normalized_fields :: "bool \<Rightarrow> wfield list \<Rightarrow> wfield list" where
  "normalized_fields alreadyValidated fs = (if alreadyValidated then fs else map (\<lambda>f. f\<lparr>f_Path := TrimSpace (f_Path f)\<rparr>) fs)"

lemma storeFields_cases:
  assumes "storeFields M V fs b A w = (e, A', w')"
  obtains "e \<noteq> None" "A' = A"
  | "e = None" "b \<or> fs = [] \<or> ValidateMessageFast (dm_schema M) (message_of (normalized_fields b fs)) = None"
    "same_store (A\<lparr>ag_values := mergeMessageFields (ag_values A)
        (map (stored_field (sc_registry (dm_schema M))) (normalized_fields b fs))\<rparr>) A'"
proof (cases "fs = []")
  case True
  then show ?thesis using assms that(2) by (simp add: storeFields_def normalized_fields_def mergeMessageFields_def same_store_refl)
next
  case False
  let ?fs = "normalized_fields b fs"
  let ?A = "A\<lparr>ag_values := mergeMessageFields (ag_values A) (map (stored_field (sc_registry (dm_schema M))) ?fs)\<rparr>"
  let ?v = "if b then None else ValidateMessageFast (dm_schema M) (message_of ?fs)"
  obtain se w1 where s: "(case ag_setter A of None \<Rightarrow> (None, w) | Some ds \<Rightarrow> apply_setter ds ?fs w) = (se, w1)" by fastforce
  have store: "storeFields M V fs b A w =
      (case ?v of Some e \<Rightarrow> (Some (AgentInvalid e), A, w)
       | None \<Rightarrow> (case se of Some e \<Rightarrow> (Some (BackendFailed e), A, w1)
          | None \<Rightarrow> (case (if ag_eventSender A = None then (?A, w1) else emit_changes M V ?fs ?A w1) of (A2, w2) \<Rightarrow> (None, A2, w2))))"
    using False s by (cases se) (simp_all add: storeFields_def normalized_fields_def [symmetric] Let_def split: option.split)
  show ?thesis
  proof (cases "?v = None \<and> se = None")
    case True
    have "same_store ?A (fst (if ag_eventSender A = None then (?A, w1) else emit_changes M V ?fs ?A w1))"
      using emit_changes_same [of ?A M V ?fs w1] by (simp add: same_store_refl)
    then show ?thesis using True assms that(2) store by (auto split: prod.splits if_splits)
  next
    case False
    then show ?thesis using assms that(1) store by (auto split: option.splits)
  qed
qed

lemma normalized_conform:
  assumes "model_ok M" "ValidateMessageFast (dm_schema M) (message_of fs) = None" "f \<in> set fs"
  shows "conforms (dm_schema M) (f\<lparr>f_id := 0, f_Path := TrimSpace (f_Path f)\<rparr>)"
proof -
  have c: "conforms (dm_schema M) f"
    using assms by (intro ValidateMessageFast_fields [of _ "message_of fs"]) (simp_all add: model_ok_def message_of_def)
  then have "TrimSpace (f_Path f) = f_Path f" using conforms_plain [OF assms(1)] by simp
  then show ?thesis using conforms_id0 [OF c] by simp
qed

lemma storeFields_ok:
  assumes M: "model_ok M" and "store_ok M (ag_values A)" "storeFields M V fs b A w = (e, A', w')"
    and valid: "b \<Longrightarrow> ValidateMessageFast (dm_schema M) (message_of fs) = None"
  shows "store_ok M (ag_values A')"
  using assms(3)
proof (cases rule: storeFields_cases)
  case 1
  then show ?thesis using assms(2) by simp
next
  case 2
  have v: "fs = [] \<or> ValidateMessageFast (dm_schema M) (message_of (normalized_fields b fs)) = None"
    using 2(2) valid by (auto simp: normalized_fields_def)
  have "ag_values A' = mergeMessageFields (ag_values A) (map (stored_field (sc_registry (dm_schema M))) (normalized_fields b fs))"
    using 2(3) by (simp add: same_store_values)
  moreover have "store_ok M (mergeMessageFields (ag_values A) (map (stored_field (sc_registry (dm_schema M))) (normalized_fields b fs)))"
  proof (rule store_ok_merge)
    fix g assume "g \<in> set (map (stored_field (sc_registry (dm_schema M))) (normalized_fields b fs))"
    then obtain f where f: "f \<in> set (normalized_fields b fs)" "g = stored_field (sc_registry (dm_schema M)) f" by auto
    then have "fs \<noteq> []" by (auto simp: normalized_fields_def split: if_splits)
    then show "conforms (dm_schema M) (g\<lparr>f_id := 0\<rparr>)" using v f normalized_conform [OF M] by simp
  qed (rule assms(2))
  ultimately show ?thesis by simp
qed

lemma refreshEntryCount_ok:
  assumes "model_ok M" "store_ok M (ag_values A)" shows "store_ok M (ag_values (refreshEntryCount M path A))"
proof (cases "objectCountParamPath M path")
  case (Some countPath)
  obtain p where p: "countPath = p @ ascii ''NumberOfEntries''" "lookupSafeParam (dm_schema M) countPath \<noteq> None"
    using Some by (auto simp: objectCountParamPath_def Let_def split: option.splits if_splits simp flip: append_assoc)
  then have "well_stored M (countPath, \<lparr>f_id = 0, f_Path = countPath, f_Val = VUint n\<rparr>)" for n
    by (auto simp: well_stored_def counts_entries_def simp del: ascii_simps)
  then show ?thesis using assms(2) Some by (simp add: refreshEntryCount_def store_ok_put)
qed (simp add: refreshEntryCount_def assms)

lemma agent_Delete_ok: "store_ok M (ag_values A) \<Longrightarrow> store_ok M (ag_values (fst (snd (agent_Delete paths A w))))"
  using store_ok_delete_paths [of M "ag_values A"]
  by (auto simp: agent_Delete_def Let_def split: prod.splits option.splits if_splits) (metis snd_conv)+

lemma add_in_memory_ok:
  assumes "model_ok M" "store_ok M (ag_values A)"
  shows "store_ok M (ag_values (fst (snd (add_in_memory M V objectPath canonical initial A w))))"
  using assms storeFields_ok [OF assms, of V _ False w]
  by (auto simp: add_in_memory_def Let_def refreshEntryCount_ok split: sum.splits prod.splits option.splits)

lemma agent_Add_ok:
  assumes "model_ok M" "store_ok M (ag_values A)"
  shows "store_ok M (ag_values (fst (snd (agent_Add M V path initial A w))))"
  using assms(2) add_in_memory_ok [OF assms]
  by (auto simp: agent_Add_def Let_def split: sum.splits prod.splits option.splits)

lemma Bootstrap_ok:
  assumes "model_ok M" "store_ok M (ag_values A)"
  shows "store_ok M (ag_values (snd (Bootstrap M profile deviceID timestamp overwrite A)))"
proof -
  have "conforms (dm_schema M) (f\<lparr>f_id := 0\<rparr>)" if "BuildFilledMessage M p d t = Inr msg" "f \<in> set (m_Fields msg)" for p d t msg f
    using that assms(1) by (intro conforms_id0 ValidateMessageFast_fields [of _ msg])
      (auto simp: BuildFilledMessage_def model_ok_def Let_def split: sum.splits option.splits)
  moreover have "store_ok M []" by (simp add: store_ok_def)
  ultimately show ?thesis using assms(2) by (auto simp: Bootstrap_def intro!: store_ok_merge split: sum.split)
qed

lemma handleSubscriptionRequest_store: "ag_values (snd (handleSubscriptionRequest q A)) = ag_values A"
  by (auto simp: handleSubscriptionRequest_def Subscribe_def Unsubscribe_def Let_def split: prod.split)

section \<open>What a request can change\<close>

lemma resolve_keeps [simp]:
  "rq_ID (resolveFastRequestPaths S q) = rq_ID q" "rq_Method (resolveFastRequestPaths S q) = rq_Method q"
  "rq_Message (resolveFastRequestPaths S q) = rq_Message q" "rq_Metadata (resolveFastRequestPaths S q) = rq_Metadata q"
  by (simp_all add: resolveFastRequestPaths_def)

text \<open>A request changes the agent only as a Set, an Add, a Delete or a subscription.\<close>

lemma HandleRequest_agent:
  assumes "HandleRequest M V queueError q A w = (r, A', w')"
  obtains "A' = A"
  | msg e where "rq_Method q = 2" "rq_Message q = Some msg" "storeFields M V (m_Fields msg) True A w = (e, A', w')"
  | r' where "rq_Method q = 3"
      "agent_Add M V (rq_ObjectPath (resolveFastRequestPaths (dm_schema M) q)) (rq_Message q) A w = (r', A', w')"
  | e where "rq_Method q = 4" "agent_Delete (rq_Paths (resolveFastRequestPaths (dm_schema M) q)) A w = (e, A', w')"
  | r' where "rq_Method q = 7" "IsSubscriptionRequest (resolveFastRequestPaths (dm_schema M) q)"
      "handleSubscriptionRequest (resolveFastRequestPaths (dm_schema M) q) A = (r', A')"
proof -
  consider "rq_Method q = 1" | "rq_Method q = 2" | "rq_Method q = 3" | "rq_Method q = 4" | "rq_Method q = 5" | "rq_Method q = 6"
    | "rq_Method q = 7" | "rq_Method q = 8" | "rq_Method q = 9" | "rq_Method q = 10" | "rq_Method q = 11"
    | "rq_Method q \<notin> {1, 2, 3, 4, 5, 6, 7, 8, 9, 10, 11}" by blast
  then show ?thesis
    by cases (use assms that in \<open>auto simp: HandleRequest_def Let_def split: if_splits option.splits sum.splits prod.splits\<close>)
qed

lemma decoded_set_valid:
  assumes "DecodeUSPAgentRequest S payload = Inr q" "rq_Method q = 2" "rq_Message q = Some msg"
  shows "ValidateMessageFast S msg = None"
proof -
  have "validateUSPAgentRequest S q = None"
    using assms(1) by (auto simp: DecodeUSPAgentRequest_def Let_def split: sum.splits prod.splits if_splits option.splits)
  then show ?thesis using assms(2,3)
    by (auto simp: validateUSPAgentRequest_def validateUSPAgentRequestMessage_def split: if_splits option.splits)
qed

lemma HandleRequest_ok:
  assumes M: "model_ok M" and ok: "store_ok M (ag_values A)" and "DecodeUSPAgentRequest (dm_schema M) payload = Inr q"
    "HandleRequest M V queueError q A w = (r, A', w')"
  shows "store_ok M (ag_values A')"
  using assms(4)
proof (cases rule: HandleRequest_agent)
  case (2 msg e)
  have "ValidateMessageFast (dm_schema M) (message_of (m_Fields msg)) = None"
    using decoded_set_valid [OF assms(3) 2(1,2)] by (simp add: ValidateMessageFast_def message_of_def)
  then show ?thesis using storeFields_ok [OF M ok 2(3)] by simp
next
  case (3 r')
  then show ?thesis using agent_Add_ok [OF M ok, of V _ "rq_Message q" w] by (metis fst_conv snd_conv)
next
  case (4 e)
  then show ?thesis using agent_Delete_ok [OF ok] by (metis fst_conv snd_conv)
next
  case (5 r')
  then show ?thesis using handleSubscriptionRequest_store ok by (metis snd_conv)
qed (use ok in simp)

section \<open>Any history of operations\<close>

datatype 'w agent_op =
    OpBootstrap bytes bytes time bool
  | OpSet "'w visit_order" bytes wvalue
  | OpSetBatch "'w visit_order" "wfield list"
  | OpDelete "bytes list"
  | OpAdd "'w visit_order" bytes "wmessage option"
  | OpDeleteByCode "u64 list"
  | OpAddByCode "'w visit_order" u64 "wmessage option"
  | OpEmit "'w visit_order" usp_event
  | OpSubscribe "'w usp_subscription"
  | OpUnsubscribe bytes
  | OpSetEventSender "(bytes \<Rightarrow> 'w \<Rightarrow> backend_error option \<times> 'w) option"
  | OpRequest "'w visit_order" "bytes option" bytes
  | OpWorld 'w

definition agent_step :: "data_model \<Rightarrow> 'w usp_agent \<times> 'w \<Rightarrow> 'w agent_op \<Rightarrow> 'w usp_agent \<times> 'w" where
  "agent_step M s op =
     (case s of (A, w) \<Rightarrow>
      case op of
        OpBootstrap profile deviceID timestamp overwrite \<Rightarrow> (snd (Bootstrap M profile deviceID timestamp overwrite A), w)
      | OpSet V path v \<Rightarrow> snd (agent_Set M V path v A w)
      | OpSetBatch V fs \<Rightarrow> snd (SetBatch M V fs A w)
      | OpDelete paths \<Rightarrow> snd (agent_Delete paths A w)
      | OpAdd V path initial \<Rightarrow> snd (agent_Add M V path initial A w)
      | OpDeleteByCode codes \<Rightarrow> snd (DeleteByCode M codes A w)
      | OpAddByCode V code initial \<Rightarrow> snd (AddByCode M V code initial A w)
      | OpEmit V ev \<Rightarrow> snd (Emit M V ev A w)
      | OpSubscribe sub \<Rightarrow> (snd (Subscribe sub A), w)
      | OpUnsubscribe sid \<Rightarrow> (Unsubscribe sid A, w)
      | OpSetEventSender sender \<Rightarrow> (SetEventSender sender A, w)
      | OpRequest V queueError payload \<Rightarrow>
        (case DecodeUSPAgentRequest (dm_schema M) payload of Inl _ \<Rightarrow> s | Inr q \<Rightarrow> snd (HandleRequest M V queueError q A w))
      | OpWorld w' \<Rightarrow> (A, w'))"

definition agent_inv :: "data_model \<Rightarrow> 'w usp_agent \<times> 'w \<Rightarrow> bool" where
  "agent_inv M s \<longleftrightarrow> (model_ok M \<longrightarrow> store_ok M (ag_values (fst s)))"

lemma agent_step_inv: "agent_inv M s \<Longrightarrow> agent_inv M (agent_step M s op)"
proof -
  assume inv: "agent_inv M s"
  obtain A w where s: "s = (A, w)" by fastforce
  show ?thesis
  proof (cases "model_ok M")
    case M: True
    then have ok: "store_ok M (ag_values A)" using inv by (simp add: s agent_inv_def)
    have store: "store_ok M (ag_values (fst (snd (storeFields M V fs False A w))))" for V fs
      using storeFields_ok [OF M ok, of V fs False w] by (cases "storeFields M V fs False A w") auto
    have emit: "ag_values (fst (snd (Emit M V ev A w))) = ag_values A" for V ev
      using same_store_values [OF Emit_same] .
    have request: "store_ok M (ag_values (fst (snd (HandleRequest M V e q A w))))"
      if "DecodeUSPAgentRequest (dm_schema M) payload = Inr q" for V e q payload
      using HandleRequest_ok [OF M ok that] by (cases "HandleRequest M V e q A w") auto
    have "store_ok M (ag_values (fst (agent_step M s op)))"
      using ok Bootstrap_ok [OF M ok] agent_Delete_ok [OF ok] agent_Add_ok [OF M ok]
      by (cases op) (auto simp: s agent_step_def agent_Set_def SetBatch_def DeleteByCode_def AddByCode_def Subscribe_def Unsubscribe_def
          SetEventSender_def store emit request split: sum.split)
    then show ?thesis by (simp add: agent_inv_def)
  qed (simp add: agent_inv_def)
qed

definition NewUSPAgent ::
  "bytes \<Rightarrow> 'w transfer_handler option \<Rightarrow> 'w transfer_handler option \<Rightarrow>
   (bytes \<Rightarrow> wmessage option \<Rightarrow> metadata \<Rightarrow> 'w \<Rightarrow> (backend_error + wmessage option) \<times> 'w) option \<Rightarrow>
   (bytes \<Rightarrow> wmessage option \<Rightarrow> metadata \<Rightarrow> 'w \<Rightarrow> backend_error option \<times> 'w) option \<Rightarrow>
   (bytes list \<Rightarrow> 'w \<Rightarrow> (backend_error + wmessage) \<times> 'w) option \<Rightarrow> 'w data_setter option \<Rightarrow>
   (bytes \<Rightarrow> 'w \<Rightarrow> backend_error option \<times> 'w) option \<Rightarrow> 'w usp_agent" where
  "NewUSPAgent profile up down operate notify collector setter sender =
     \<lparr>ag_nextEventID = 0, ag_fillProfile = normalizeFillProfile profile, ag_uploadHandler = up, ag_downloadHandler = down,
      ag_operateHandler = operate, ag_notifyHandler = notify, ag_collector = collector, ag_setter = setter, ag_values = [],
      ag_subscriptions = [], ag_eventSender = sender\<rparr>"

interpretation agent: event_system "agent_step M" "(NewUSPAgent profile up down operate notify collector setter sender, w)" "agent_inv M"
  for M profile up down operate notify collector setter sender w
proof
  show "agent_inv M (NewUSPAgent profile up down operate notify collector setter sender, w)"
    by (simp add: agent_inv_def NewUSPAgent_def store_ok_def)
qed (rule agent_step_inv)

text \<open>
  C9. Whatever the configuration of the agent, the behaviour of its back ends and the history of operations (sample
  values, writes, deletions, new instances, subscriptions, events, requests decoded from the wire, in any order), the store
  holds at most one field per path, each field stands under its own path, and its value conforms to the schema: the
  path is a parameter of the data model or an instance of one, and the value is null or has the parameter's type and
  respects its limits. The exception are the parameters that count the entries of a table: \<^verbatim>\<open>refreshEntryCount\<close> stores the
  number without validating it, so that they hold an unsigned number but may leave their limits.
\<close>
theorem store_conforms:
  fixes M ops profile up down operate notify collector setter sender w
  defines "s \<equiv> foldl (agent_step M) (NewUSPAgent profile up down operate notify collector setter sender, w) ops"
  assumes "model_ok M"
  shows "distinct (map fst (ag_values (fst s))) \<and>
         (\<forall>(path, f) \<in> set (ag_values (fst s)). f_Path f = path \<and>
            (conforms (dm_schema M) (f\<lparr>f_id := 0\<rparr>) \<or> counts_entries M path f))"
proof -
  have "store_ok M (ag_values (fst s))"
    using agent.run_inv [of M profile up down operate notify collector setter sender w ops] assms(2)
    by (simp add: agent.run_def s_def agent_inv_def)
  then show ?thesis by (auto simp: store_ok_def md_ok_distinct list_all_iff well_stored_def)
qed

section \<open>Writing, reading and deleting\<close>

lemma merge_lookup:
  "map_of (mergeMessageFields m fs) p = (case find (\<lambda>f. f_Path f = p) (rev fs) of Some f \<Rightarrow> Some f | None \<Rightarrow> map_of m p)"
  unfolding mergeMessageFields_def
  by (induction fs rule: rev_induct) (auto simp: map_of_md_put)

lemma find_distinct: "\<lbrakk>distinct (map g xs); x \<in> set xs\<rbrakk> \<Longrightarrow> find (\<lambda>y. g y = g x) xs = Some x"
  by (induction xs) (auto simp: image_iff)

lemma get_one:
  assumes "ag_collector A = None" "\<not> isObjectPath (TrimSpace path)" "TrimSpace path \<noteq> []" "map_of (ag_values A) (TrimSpace path) = Some f"
  shows "GetContext A [path] w = (Inr (message_of [f]), w)"
  using assms by (simp add: GetContext_def getStored_def Let_def)

text \<open>
  C24. A batch of writes acts as a whole. When it fails, the store is as before. When it succeeds, all fields
  of the batch are stored with their values, every other path reads as before, and, without a collector, a later
  Get of a written parameter returns exactly the value that was written.
\<close>
theorem set_then_get:
  assumes "model_ok M" "SetBatch M V fs A w = (e, A', w')"
  shows "case e of Some _ \<Rightarrow> ag_values A' = ag_values A
    | None \<Rightarrow>
      (\<forall>f \<in> set fs. map_of (ag_values A') (TrimSpace (f_Path f)) =
         Some (stored_field (sc_registry (dm_schema M)) (f\<lparr>f_Path := TrimSpace (f_Path f)\<rparr>)) \<and>
         (ag_collector A = None \<and> \<not> isObjectPath (TrimSpace (f_Path f)) \<longrightarrow>
          (\<forall>w''. \<exists>g. GetContext A' [f_Path f] w'' = (Inr (message_of [g]), w'') \<and> f_Path g = TrimSpace (f_Path f) \<and> f_Val g = f_Val f))) \<and>
      (\<forall>path. path \<notin> TrimSpace ` f_Path ` set fs \<longrightarrow> map_of (ag_values A') path = map_of (ag_values A) path)"
  using assms(2) [unfolded SetBatch_def]
proof (cases rule: storeFields_cases)
  case 1
  then show ?thesis by auto
next
  case 2
  let ?R = "sc_registry (dm_schema M)"
  let ?n = "\<lambda>f. f\<lparr>f_Path := TrimSpace (f_Path f)\<rparr>"
  have vals: "ag_values A' = mergeMessageFields (ag_values A) (map (stored_field ?R) (map ?n fs))"
    and coll: "ag_collector A' = ag_collector A"
    using 2(3) by (auto simp: same_store_def normalized_fields_def)
  have valid: "fs = [] \<or> (distinct (map f_Path (map ?n fs)) \<and> (\<forall>f \<in> set (map ?n fs). f_Path f \<noteq> [] \<and> conforms (dm_schema M) f))"
    using 2(2) assms(1) by (auto simp: normalized_fields_def model_ok_def ValidateMessageFast_def validate_fields_iff message_of_def)
  have plain: "plain (TrimSpace (f_Path f))" if "f \<in> set fs" for f
    using valid that conforms_plain [OF assms(1), of "?n f"] by auto
  have found: "map_of (ag_values A') (TrimSpace (f_Path f)) = Some (stored_field ?R (?n f))" if f: "f \<in> set fs" for f
  proof -
    let ?fs = "map (stored_field ?R) (map ?n fs)"
    have fp: "f_Path (stored_field ?R (?n g)) = TrimSpace (f_Path g)" if "g \<in> set fs" for g using plain [OF that] by simp
    have "map f_Path (rev ?fs) = rev (map (\<lambda>g. TrimSpace (f_Path g)) fs)" using plain by (simp add: rev_map)
    then have "distinct (map f_Path (rev ?fs))" using valid f by (auto simp: comp_def)
    moreover have "stored_field ?R (?n f) \<in> set (rev ?fs)" using f by auto
    ultimately have "find (\<lambda>g. f_Path g = f_Path (stored_field ?R (?n f))) (rev ?fs) = Some (stored_field ?R (?n f))"
      by (rule find_distinct)
    then show ?thesis using fp [OF f] by (simp add: vals merge_lookup)
  qed
  moreover have "map_of (ag_values A') path = map_of (ag_values A) path" if "path \<notin> TrimSpace ` f_Path ` set fs" for path
  proof -
    have "find (\<lambda>f. f_Path f = path) (rev (map (stored_field ?R) (map ?n fs))) = None"
      using that plain by (force simp: find_None_iff image_iff)
    then show ?thesis by (simp add: vals merge_lookup)
  qed
  moreover have "\<exists>g. GetContext A' [f_Path f] w'' = (Inr (message_of [g]), w'') \<and> f_Path g = TrimSpace (f_Path f) \<and> f_Val g = f_Val f"
    if "f \<in> set fs" "ag_collector A = None" "\<not> isObjectPath (TrimSpace (f_Path f))" for f w''
    using get_one [of A' "f_Path f", OF _ that(3)] found [OF that(1)] plain [OF that(1)] that(2) coll
    by (intro exI [of _ "stored_field ?R (?n f)"]) (auto simp: plain_def)
  ultimately show ?thesis using 2(1) by simp
qed

text \<open>The stored paths that a deletion names: the parameter itself, or everything beneath the object.\<close>

definition names :: "bytes \<Rightarrow> bytes \<Rightarrow> bool" where
  "names requested path \<longleftrightarrow>
     (if isObjectPath (TrimSpace requested) then starts_with path (TrimSpace requested) else path = TrimSpace requested)"

lemma map_of_filter_keys: "map_of (filter (\<lambda>(k, f). P k) m) q = (if P q then map_of m q else None)"
  by (induction m) auto

lemma deletePathLocked_lookup:
  "map_of (snd (deletePathLocked (TrimSpace path) m)) q = (if names path q then None else map_of m q)"
  by (auto simp: deletePathLocked_def names_def map_of_md_delete map_of_filter_keys)

lemma deletePathLocked_found: "fst (deletePathLocked (TrimSpace path) m) \<longleftrightarrow> (\<exists>q. names path q \<and> map_of m q \<noteq> None)"
  by (auto simp: deletePathLocked_def names_def map_of_eq_None_iff)

lemma delete_paths_lookup:
  "delete_paths handled (map TrimSpace paths) m = (None, m') \<Longrightarrow>
     map_of m' q = (if \<exists>path \<in> set paths. names path q then None else map_of m q)"
proof (induction paths arbitrary: m)
  case (Cons path paths)
  then show ?case
    using Cons.IH [of "snd (deletePathLocked (TrimSpace path) m)"] deletePathLocked_lookup [of path m q]
    by (auto split: prod.splits if_splits)
qed simp

text \<open>
  C25. A successful deletion removes exactly the named parameters and the subtrees of the named objects: each of
  their paths is gone, every other path reads as before, and, without a collector, a later Get of a deleted path
  answers that it is not found. Without a back end that handles the deletion, a single path is deleted with
  success exactly when it names something stored.
\<close>
theorem delete_exact:
  assumes "agent_Delete paths A w = (None, A', w')"
  shows "(\<forall>q. map_of (ag_values A') q = (if \<exists>path \<in> set paths. names path q then None else map_of (ag_values A) q)) \<and>
    (\<forall>path \<in> set paths. ag_collector A = None \<longrightarrow> (\<forall>w''. GetContext A' [path] w'' = (Inl (PathNotFound (TrimSpace path)), w''))) \<and>
    (ag_setter A = None \<longrightarrow> (\<forall>path. TrimSpace path \<noteq> [] \<longrightarrow>
       (fst (agent_Delete [path] A w) = None \<longleftrightarrow> (\<exists>q. names path q \<and> map_of (ag_values A) q \<noteq> None))))"
proof -
  obtain handled where d: "paths = [] \<or> delete_paths handled (map TrimSpace paths) (ag_values A) = (None, ag_values A')"
    and coll: "ag_collector A' = ag_collector A" and ne: "[] \<notin> set (map TrimSpace paths)"
    using assms by (auto simp: agent_Delete_def Let_def split: prod.splits option.splits if_splits)
  have look: "map_of (ag_values A') q = (if \<exists>path \<in> set paths. names path q then None else map_of (ag_values A) q)" for q
    using d delete_paths_lookup [of handled paths "ag_values A" "ag_values A'" q] assms
    by (auto simp: agent_Delete_def Let_def)
  have get: "GetContext A' [path] w'' = (Inl (PathNotFound (TrimSpace path)), w'')"
    if "path \<in> set paths" "ag_collector A = None" for path w''
  proof -
    have gone: "map_of (ag_values A') q = None" if "names path q" for q using look [of q] that \<open>path \<in> set paths\<close> by auto
    have "TrimSpace path \<noteq> []" using ne that(1) by force
    moreover have "filter (\<lambda>(key, f). beneath (TrimSpace path) key \<and> key \<notin> set []) (ag_values A') = []" if "isObjectPath (TrimSpace path)"
      using gone that by (force simp: filter_empty_conv names_def beneath_def map_of_eq_None_iff)
    moreover have "map_of (ag_values A') (TrimSpace path) = None" if "\<not> isObjectPath (TrimSpace path)"
      using gone that by (simp add: names_def)
    ultimately show ?thesis using that(2) coll by (simp add: GetContext_def getStored_def Let_def)
  qed
  have one: "fst (agent_Delete [path] A w) = None \<longleftrightarrow> (\<exists>q. names path q \<and> map_of (ag_values A) q \<noteq> None)"
    if "ag_setter A = None" "TrimSpace path \<noteq> []" for path
    using that deletePathLocked_found [of path "ag_values A"] by (auto simp: agent_Delete_def Let_def split: prod.split)
  show ?thesis using look get one by blast
qed

section \<open>Answers\<close>

text \<open>
  C26. Every method of the protocol is answered: only an unknown method makes \<^verbatim>\<open>HandleRequest\<close> fail, and it changes
  nothing. The answer carries the id and the method of the request, and the sequence metadata of the request
  unless it is about a subscription. A request other than Set, Add, Delete and a subscription leaves the agent as
  it was, and a Set, Add or Delete that was given up while it waited in the action queue has done nothing.
\<close>
theorem request_answered:
  assumes "HandleRequest M V queueError q A w = (r, A', w')"
  shows "(r = Inl (TransportUnsupported (rq_Method q)) \<and> (rq_Method q = 0 \<or> 11 < rq_Method q) \<and> A' = A \<and> w' = w \<or>
      (\<exists>resp. r = Inr resp \<and> rs_ID resp = rq_ID q \<and> rs_Method resp = rq_Method q \<and>
        (rq_Method q = USPAgentMethodNotify \<and> IsSubscriptionRequest q \<or>
         rs_Metadata resp = ResponseMetadataForRequest (rq_Metadata q)))) \<and>
    (rq_Method q \<in> {USPAgentMethodSet, USPAgentMethodAdd, USPAgentMethodDelete} \<or>
     rq_Method q = USPAgentMethodNotify \<and> IsSubscriptionRequest q \<or> A' = A) \<and>
    (ShouldQueueUSPRequest (rq_Method q) (rq_Metadata q) \<and> queueError \<noteq> None \<longrightarrow> A' = A \<and> w' = w)"
proof -
  have sub: "IsSubscriptionRequest (resolveFastRequestPaths (dm_schema M) q) = IsSubscriptionRequest q"
    by (simp add: IsSubscriptionRequest_def)
  have hsub: "rs_ID (fst (handleSubscriptionRequest x A)) = rq_ID x \<and> rs_Method (fst (handleSubscriptionRequest x A)) = rq_Method x" for x
    by (simp add: handleSubscriptionRequest_def empty_response_def Let_def split: prod.split option.split)
  have agent: "rq_Method q \<in> {USPAgentMethodSet, USPAgentMethodAdd, USPAgentMethodDelete} \<or>
     rq_Method q = USPAgentMethodNotify \<and> IsSubscriptionRequest q \<or> A' = A"
    using assms by (cases rule: HandleRequest_agent) (auto simp: sub)
  consider "rq_Method q = 1" | "rq_Method q = 2" | "rq_Method q = 3" | "rq_Method q = 4" | "rq_Method q = 5" | "rq_Method q = 6"
    | "rq_Method q = 7" | "rq_Method q = 8" | "rq_Method q = 9" | "rq_Method q = 10" | "rq_Method q = 11"
    | "rq_Method q \<notin> {1, 2, 3, 4, 5, 6, 7, 8, 9, 10, 11}" by blast
  then have "r = Inl (TransportUnsupported (rq_Method q)) \<and> rq_Method q \<notin> {1, 2, 3, 4, 5, 6, 7, 8, 9, 10, 11} \<and> A' = A \<and> w' = w \<or>
      (\<exists>resp. r = Inr resp \<and> rs_ID resp = rq_ID q \<and> rs_Method resp = rq_Method q \<and>
        (rq_Method q = USPAgentMethodNotify \<and> IsSubscriptionRequest q \<or>
         rs_Metadata resp = ResponseMetadataForRequest (rq_Metadata q)))"
    by cases (use assms hsub [of "resolveFastRequestPaths (dm_schema M) q"] in
        \<open>auto simp: HandleRequest_def empty_response_def sub Let_def split: if_splits option.splits sum.splits prod.splits\<close>)
  moreover have "rq_Method q = 0 \<or> 11 < rq_Method q" if "rq_Method q \<notin> {1, 2, 3, 4, 5, 6, 7, 8, 9, 10, 11}"
  proof (rule ccontr)
    assume "\<not> (rq_Method q = 0 \<or> 11 < rq_Method q)"
    then have "unat (rq_Method q) \<noteq> 0" "unat (rq_Method q) \<le> 11" by (auto simp: word_less_nat_alt unat_eq_zero)
    then have "unat (rq_Method q) \<in> {1, 2, 3, 4, 5, 6, 7, 8, 9, 10, 11}" by (auto simp: numeral_eq_Suc le_Suc_eq)
    then have "(of_nat (unat (rq_Method q)) :: byte) \<in> of_nat ` {1, 2, 3, 4, 5, 6, 7, 8, 9, 10, 11}" by blast
    then show False using that by simp
  qed
  moreover have "ShouldQueueUSPRequest (rq_Method q) (rq_Metadata q) \<and> queueError \<noteq> None \<longrightarrow> A' = A \<and> w' = w"
    using assms by (auto simp: HandleRequest_def Let_def)
  ultimately show ?thesis using agent by blast
qed

section \<open>Examples\<close>

text \<open>A data model with one table \<^verbatim>\<open>X.{i}.\<close> of one parameter \<^verbatim>\<open>X.{i}.MTU\<close>, and an agent without back ends.\<close>

definition ex_model :: data_model where
  "ex_model = \<lparr>dm_schema = ex_transport, dm_AllDeviceObjects = [\<lparr>so_Path = ascii ''X.{i}.'', so_MultiInstance = True, so_SinceVersion = []\<rparr>],
     dm_AllDeviceParams = [\<lparr>sp_Path = ascii ''X.{i}.MTU'', sp_Type = [], sp_Access = [], sp_SinceVersion = []\<rparr>],
     dm_sample = (\<lambda>profile i. VUint 1280), dm_PathByCode = None, dm_RootVersion = [], dm_BroadbandModels = []\<rparr>"

definition ex_order :: "unit visit_order" where
  "ex_order = \<lparr>vo_params = (\<lambda>m. m), vo_subscriptions = (\<lambda>s. s)\<rparr>"

definition ex_agent :: "unit usp_agent" where
  "ex_agent = NewUSPAgent [] None None None None None None None"

definition ex_field :: wfield where
  "ex_field = \<lparr>f_id = 0, f_Path = ex_path, f_Val = VUint 1500\<rparr>"

lemma ex_index:
  "sc_safeParamIndex (dm_schema ex_model) = [ascii ''X.{i}.MTU'' \<mapsto> ex_info]" "sc_registry (dm_schema ex_model) = buildRegistry []"
  by (simp_all add: ex_model_def ex_transport_def schema.extend_def ex_schema_def ex_template_def)

lemma ex_model_ok: "model_ok ex_model"
proof -
  have "schema_ok (dm_schema ex_model)"
    using ex_schema_ok by (simp add: schema_ok_def ex_model_def ex_transport_def schema.extend_def)
  moreover have "plain (ascii ''X.{i}.MTU'')" by (simp add: plain_def visible_def word_le_nat_alt)
  ultimately show ?thesis by (simp add: model_ok_def ex_index del: ascii_simps)
qed

lemma ex_valid: "ValidateMessageFast (dm_schema ex_model) (message_of [ex_field]) = None"
proof -
  have "canonicalParamPath ex_path = ascii ''X.{i}.MTU''"
    by (simp add: canonicalParamPath_def ex_path_def isNumericPathSegment_def is_digit_def word_le_nat_alt)
  then have "lookupSafeParam (dm_schema ex_model) ex_path = Some (ex_info, ascii ''X.{i}.MTU'')"
    by (simp add: lookupSafeParam_def ex_index ex_path_def)
  then show ?thesis
    by (simp add: ValidateMessageFast_def message_of_def ex_field_def ValidateFieldFast_def ex_info_def tagMatchesParamType_def
        TagForParamType_def validateValueFast_def validateUnsignedLimits_def ex_limits_def ex_paths)
qed

lemma ex_IDFor: "IDFor (buildRegistry []) p = None"
  by (simp add: IDFor_def buildRegistry_def)

lemma ex_set: "SetBatch ex_model ex_order [ex_field] ex_agent () = (None, ex_agent\<lparr>ag_values := [(ex_path, ex_field)]\<rparr>, ())"
proof -
  have "ex_field\<lparr>f_Path := TrimSpace (f_Path ex_field)\<rparr> = ex_field" by (simp add: ex_field_def ex_paths)
  then show ?thesis
    using ex_valid
    by (simp add: SetBatch_def storeFields_def ex_agent_def NewUSPAgent_def Let_def mergeMessageFields_def stored_field_def ex_index ex_IDFor)
      (simp add: ex_field_def ex_paths)
qed

theorem set_then_get_witness:
  "\<exists>g. GetContext (ex_agent\<lparr>ag_values := [(ex_path, ex_field)]\<rparr>) [ex_path] () = (Inr (message_of [g]), ()) \<and> f_Val g = VUint 1500"
proof -
  have "\<not> isObjectPath ex_path" by (simp add: isObjectPath_def ex_paths) (simp add: ex_path_def ends_with_def)
  then show ?thesis
    using set_then_get [OF ex_model_ok ex_set]
    by (simp add: ex_field_def ex_paths ex_agent_def NewUSPAgent_def) metis
qed

theorem store_conforms_witness:
  "ag_values (fst (foldl (agent_step ex_model) (NewUSPAgent [] None None None None None None None, ()) [OpSetBatch ex_order [ex_field]])) =
     [(ex_path, ex_field)] \<and> (conforms (dm_schema ex_model) ex_field \<or> counts_entries ex_model ex_path ex_field)"
proof -
  have v: "ag_values (fst (foldl (agent_step ex_model) (NewUSPAgent [] None None None None None None None, ()) [OpSetBatch ex_order [ex_field]])) =
      [(ex_path, ex_field)]"
    using ex_set by (simp add: agent_step_def ex_agent_def)
  then show ?thesis
    using store_conforms [OF ex_model_ok, where ops = "[OpSetBatch ex_order [ex_field]]" and profile = "[]" and up = None and down = None
        and operate = None and notify = None and collector = None and setter = None and sender = None and w = "()"]
    by (simp add: ex_field_def)
qed

lemma ex_delete: "agent_Delete [ex_path] (ex_agent\<lparr>ag_values := [(ex_path, ex_field)]\<rparr>) () = (None, ex_agent, ())"
proof -
  have "\<not> isObjectPath ex_path" by (simp add: isObjectPath_def ex_paths) (simp add: ex_path_def ends_with_def)
  then show ?thesis
    by (simp add: agent_Delete_def ex_agent_def NewUSPAgent_def ex_paths deletePathLocked_def md_delete_def Let_def eq_commute [of "[]" ex_path])
qed

theorem delete_exact_witness:
  "GetContext ex_agent [ex_path] () = (Inl (PathNotFound ex_path), ()) \<and>
   GetContext (ex_agent\<lparr>ag_values := [(ex_path, ex_field)]\<rparr>) [ex_path] () = (Inr (message_of [ex_field]), ())"
proof
  show "GetContext ex_agent [ex_path] () = (Inl (PathNotFound ex_path), ())"
    using delete_exact [OF ex_delete] by (simp add: ex_agent_def NewUSPAgent_def ex_paths)
  have "\<not> isObjectPath (TrimSpace ex_path)" by (simp add: isObjectPath_def ex_paths) (simp add: ex_path_def ends_with_def)
  then show "GetContext (ex_agent\<lparr>ag_values := [(ex_path, ex_field)]\<rparr>) [ex_path] () = (Inr (message_of [ex_field]), ())"
    by (intro get_one) (simp_all add: ex_agent_def NewUSPAgent_def ex_paths)
qed

theorem request_answered_witness:
  "\<exists>resp. HandleRequest ex_model ex_order None ex_request ex_agent () = (Inr resp, ex_agent, ()) \<and> rs_ID resp = 42"
proof -
  obtain r A' where h: "HandleRequest ex_model ex_order None ex_request ex_agent () = (r, A', ())"
    by (metis prod_cases3 unit.exhaust)
  show ?thesis using request_answered [OF h] h by (auto simp: ex_request_def)
qed

end
