(* ===== verification/Agent_Add.thy ===== *)
theory Agent_Add
  imports Agent_Store
begin

text \<open>
  New instances of multi-instance objects: the instance number \<^verbatim>\<open>nextObjectInstance\<close> picks is not in use, the fields of
  the new instance lie beneath it, and nothing else in the store changes but the parameter that counts the entries.
\<close>

section \<open>Paths and their parts\<close>

abbreviation dotless :: "bytes list \<Rightarrow> bool" where
  "dotless ps \<equiv> \<forall>p \<in> set ps. 0x2E \<notin> set p"

text \<open>
  The shape of the tables of the data model, the objects whose path ends in an instance token: a row. No segment of a
  parameter path starts with a minus sign.
\<close>

definition row_template :: "bytes list \<Rightarrow> bool" where
  "row_template T \<longleftrightarrow> (\<exists>ts. T = ts @ [instance_token] \<and> ts \<noteq> [] \<and> hd ts \<noteq> instance_token \<and> visible (hd (hd ts)) \<and>
     (\<forall>t \<in> set ts. t \<noteq> [] \<and> 0x2E \<notin> set t \<and> \<not> isNumericPathSegment t))"

definition objects_ok :: "data_model \<Rightarrow> bool" where
  "objects_ok M \<longleftrightarrow> (\<forall>ob \<in> set (dm_AllDeviceObjects M). ends_with (so_Path ob) (instance_token @ [0x2E]) \<longrightarrow>
     (\<exists>T. row_template T \<and> so_Path ob = join_on 0x2E T @ [0x2E])) \<and>
     (\<forall>p \<in> dom (sc_safeParamIndex (dm_schema M)). \<forall>part \<in> set (split_on 0x2E p). part = [] \<or> hd part \<noteq> 0x2D)"

lemma token_facts: "0x2E \<notin> set instance_token" "instance_token \<noteq> []" "\<not> isNumericPathSegment instance_token" "visible (hd instance_token)"
  by (simp_all add: instance_token_def isNumericPathSegment_def is_digit_def visible_def word_le_nat_alt)

lemma numeric_dotless: "isNumericPathSegment p \<Longrightarrow> 0x2E \<notin> set p"
  by (auto simp: isNumericPathSegment_def list_all_iff is_digit_def word_le_nat_alt)

lemma split_dotless: "dotless (split_on 0x2E s)"
  by (induction s) (auto split: list.splits)

lemma split_on_join_append:
  "\<lbrakk>ps \<noteq> []; dotless ps\<rbrakk> \<Longrightarrow> split_on 0x2E (join_on 0x2E ps @ 0x2E # r) = ps @ split_on 0x2E r"
proof (induction ps)
  case (Cons p ps)
  then show ?case by (cases "ps = []") (auto simp: join_on_Cons split_on_append)
qed simp

lemma row_template_facts:
  assumes "row_template T"
  shows "T \<noteq> []" "dotless T" "\<And>t. t \<in> set T \<Longrightarrow> t \<noteq> []" "visible (hd (hd T))" "\<And>t. t \<in> set T \<Longrightarrow> \<not> isNumericPathSegment t"
    "last T = instance_token" "hd T \<noteq> instance_token"
  using assms token_facts by (auto simp: row_template_def)

lemma object_parts:
  assumes "ps \<noteq> []" "dotless ps" "hd ps \<noteq> []" "visible (hd (hd ps))"
  shows "splitObjectParts (join_on 0x2E ps @ [0x2E]) = ps" "plain (join_on 0x2E ps @ [0x2E])" "trim_dot (join_on 0x2E ps @ [0x2E]) = join_on 0x2E ps"
proof -
  have "hd (join_on 0x2E ps @ [0x2E]) = hd (hd ps)" using assms(1,3) by (cases ps rule: list.exhaust; cases "tl ps") auto
  then show p: "plain (join_on 0x2E ps @ [0x2E])" using assms(4) by (simp add: plain_def visible_def word_le_nat_alt)
  show t: "trim_dot (join_on 0x2E ps @ [0x2E]) = join_on 0x2E ps" by (simp add: trim_dot_def ends_with_def)
  show "splitObjectParts (join_on 0x2E ps @ [0x2E]) = ps"
    using p t assms(1,2) by (simp add: splitObjectParts_def split_join)
qed

section \<open>Filling a template\<close>

abbreviation tokens :: "bytes list \<Rightarrow> nat" where
  "tokens T \<equiv> length (filter (\<lambda>t. t = instance_token) T)"

lemma fill_length [simp]: "length (fill_tokens T vals) = length T"
  by (induction T vals rule: fill_tokens.induct) auto

lemma fill_token_values: "length vals = tokens T \<Longrightarrow> token_values T (fill_tokens T vals) = vals"
  by (induction T vals rule: fill_tokens.induct) (auto simp: token_values_def length_Suc_conv split: if_splits)

lemma token_values_subset: "set (token_values T P) \<subseteq> set P"
  by (auto simp: token_values_def dest: set_zip_rightD)

lemma fill_numbers:
  "\<lbrakk>length vals = tokens T; \<forall>t \<in> set T. \<not> isNumericPathSegment t; \<forall>v \<in> set vals. isNumericPathSegment v\<rbrakk> \<Longrightarrow>
     filter isNumericPathSegment (fill_tokens T vals) = vals"
  by (induction T vals rule: fill_tokens.induct) (auto simp: length_Suc_conv split: if_splits)

lemma fill_nth:
  "\<lbrakk>length vals = tokens T; i < length T\<rbrakk> \<Longrightarrow> T ! i \<noteq> instance_token \<Longrightarrow> fill_tokens T vals ! i = T ! i"
  by (induction T vals arbitrary: i rule: fill_tokens.induct) (auto simp: nth_Cons' split: if_splits)

lemma fill_set: "set (fill_tokens T vals) \<subseteq> set T \<union> set vals"
  by (induction T vals rule: fill_tokens.induct) (auto dest: hd_in_set list.set_sel(2))

lemma materialize_done: "materialize [[]] rest [] = rest" "materialize [] rest vals = rest"
  by (cases rest; simp)+

lemma materialize_row:
  "\<lbrakk>length vals = tokens T; length ps = length T\<rbrakk> \<Longrightarrow>
     materialize (T @ [[]]) (ps @ rest) vals = materialize T ps vals @ rest"
  by (induction T ps vals rule: materialize.induct) (auto simp: materialize_done length_Suc_conv split: if_splits)

lemma materialize_nth:
  "\<lbrakk>length vals = tokens T; length ps = length T; i < length T; T ! i = instance_token\<rbrakk> \<Longrightarrow>
     materialize T ps vals ! i = fill_tokens T vals ! i"
  by (induction T ps vals arbitrary: i rule: materialize.induct) (auto simp: nth_Cons' split: if_splits)

lemma materialize_template: "length vals = tokens T \<Longrightarrow> materialize T T vals = fill_tokens T vals"
  by (induction T vals rule: fill_tokens.induct) (auto split: if_splits)

lemma materialize_length [simp]: "length (materialize T ps vals) = length ps"
  by (induction T ps vals rule: materialize.induct) auto

lemma materialize_set: "set (materialize T ps vals) \<subseteq> set ps \<union> set vals"
  by (induction T ps vals rule: materialize.induct) (auto dest: hd_in_set list.set_sel(2))

section \<open>The next instance is free\<close>

lemma request_instances_result:
  "request_instances rp parts vals0 u0 = Inr (vals, u) \<Longrightarrow>
     \<exists>new. vals = vals0 @ new \<and> length new = tokens (map fst parts) \<and>
       (\<forall>j < length new. isNumericPathSegment (new ! j) \<or> u = Some (length vals0 + j)) \<and>
       (u = u0 \<or> u0 = None \<and> (\<exists>j < length new. u = Some (length vals0 + j)))"
proof (induction rp parts vals0 u0 rule: request_instances.induct)
  case (2 rp t r parts vals0 u0)
  show ?case
  proof (cases "t = instance_token")
    case False
    then show ?thesis using 2 by (auto split: if_splits)
  next
    case t: True
    show ?thesis
    proof (cases "r = instance_token")
      case True
      then have rec: "u0 = None" "request_instances rp parts (vals0 @ [[]]) (Some (length vals0)) = Inr (vals, u)"
        using 2 t by (auto split: if_splits)
      then obtain new where new: "vals = (vals0 @ [[]]) @ new" "length new = tokens (map fst parts)"
          "\<forall>j < length new. isNumericPathSegment (new ! j) \<or> u = Some (Suc (length vals0) + j)" "u = Some (length vals0)"
        using 2(1) [OF t True] by fastforce
      then show ?thesis using rec(1) t by (intro exI [of _ "[] # new"]) (auto simp: nth_Cons')
    next
      case False
      then have num: "isNumericPathSegment r" and rec: "request_instances rp parts (vals0 @ [r]) u0 = Inr (vals, u)"
        using 2 t by (auto split: if_splits)
      then obtain new where new: "vals = (vals0 @ [r]) @ new" "length new = tokens (map fst parts)"
          "\<forall>j < length new. isNumericPathSegment (new ! j) \<or> u = Some (Suc (length vals0) + j)"
          "u = u0 \<or> u0 = None \<and> (\<exists>j < length new. u = Some (Suc (length vals0) + j))"
        using 2(2) [OF t False num] by fastforce
      then show ?thesis using num t
        by (intro exI [of _ "r # new"]) (auto simp: less_Suc_eq_0_disj)
    qed
  qed
qed simp

lemma actual_parts_Some:
  "actual_parts T F = Some Q \<Longrightarrow> Q = take (length T) F \<and> length Q = length T \<and>
     (\<forall>i < length T. T ! i = instance_token \<and> isNumericPathSegment (Q ! i) \<or> T ! i = Q ! i)"
  by (induction T F arbitrary: Q rule: actual_parts.induct) (auto simp: less_Suc_eq_0_disj split: if_splits)

lemma actual_parts_fill:
  "\<lbrakk>length vals = tokens T; \<forall>v \<in> set vals. isNumericPathSegment v\<rbrakk> \<Longrightarrow> actual_parts T (fill_tokens T vals @ rest) = Some (fill_tokens T vals)"
  by (induction T vals rule: fill_tokens.induct) (auto simp: length_Suc_conv split: if_splits)

lemma foldl_max_ge: "x \<in> set xs \<Longrightarrow> f x \<le> foldl (\<lambda>m x. max m (f x)) (m0 :: nat) xs"
proof -
  have ge: "m0 \<le> foldl (\<lambda>m x. max m (f x)) m0 xs" for m0 xs
  proof (induction xs arbitrary: m0)
    case (Cons x xs)
    show ?case using Cons.IH [of "max m0 (f x)"] by simp
  qed simp
  show "x \<in> set xs \<Longrightarrow> ?thesis" using ge by (induction xs arbitrary: m0) (auto intro: order_trans [OF max.cobounded2])
qed

lemma foldl_max_less: "\<lbrakk>\<And>x. x \<in> set xs \<Longrightarrow> f x < n; m0 < n\<rbrakk> \<Longrightarrow> foldl (\<lambda>m x. max m (f x)) (m0 :: nat) xs < n"
  by (induction xs arbitrary: m0) auto

lemma instance_in_use_less: "instance_in_use canonical u vals k < 2 ^ 63"
  by (auto simp: instance_in_use_def parseObjectInstanceAt_def ParseUint_def Let_def split: option.split)

lemma FormatInt_shape: "isNumericPathSegment (FormatInt n) \<or> FormatInt n \<noteq> [] \<and> hd (FormatInt n) = 0x2D"
  "c \<in> set (FormatInt n) \<Longrightarrow> visible c \<and> c \<noteq> 0x2E"
proof -
  have "visible c \<and> c \<noteq> 0x2E" if "c \<in> set (nat_digits k)" for k
    using that digits_segment(1) [of k] numeric_dotless [OF digits_segment(1), of k]
    by (auto simp: isNumericPathSegment_def list_all_iff digit_visible)
  moreover have "visible 0x2D" by (simp add: visible_def word_le_nat_alt)
  ultimately show "c \<in> set (FormatInt n) \<Longrightarrow> visible c \<and> c \<noteq> 0x2E" by (auto simp: FormatInt_def split: if_splits)
qed (simp add: FormatInt_def digits_segment)

lemma next_number:
  assumes "n < (2::nat) ^ 63"
  shows "0x2E \<notin> set (FormatInt (sint (of_nat (n + 1) :: u64)))"
    "isNumericPathSegment (FormatInt (sint (of_nat (n + 1) :: u64))) \<Longrightarrow>
       FormatInt (sint (of_nat (n + 1) :: u64)) = nat_digits (n + 1) \<and> n + 1 < 2 ^ 63"
    "FormatInt (sint (of_nat (n + 1) :: u64)) \<noteq> instance_token"
proof -
  let ?t = "FormatInt (sint (of_nat (n + 1) :: u64))"
  have "0x2E \<notin> set (nat_digits k)" for k by (rule numeric_dotless) (rule digits_segment)
  then show "0x2E \<notin> set ?t" by (simp add: FormatInt_def)
  have "nat_digits k \<noteq> instance_token" for k using digits_segment(1) token_facts(3) by metis
  moreover have "hd (0x2D # nat_digits k) \<noteq> hd instance_token" for k by (simp add: instance_token_def)
  ultimately show "?t \<noteq> instance_token" by (metis FormatInt_def)
  show "?t = nat_digits (n + 1) \<and> n + 1 < 2 ^ 63" if num: "isNumericPathSegment ?t"
  proof (cases "n + 1 < 2 ^ 63")
    case True
    then have "sint (of_nat (n + 1) :: u64) = int (n + 1)"
      unfolding signed_of_nat by (simp add: signed_take_bit_int_eq_self)
    then show ?thesis using True by (simp add: FormatInt_def nat_add_distrib)
  next
    case False
    then have "n + 1 = 2 ^ 63" using assms by simp
    then have "sint (of_nat (n + 1) :: u64) < 0" by simp
    then show ?thesis using num by (simp add: FormatInt_def isNumericPathSegment_def is_digit_def word_le_nat_alt)
  qed
qed

text \<open>
  The values and the path \<^verbatim>\<open>nextObjectInstance\<close> returns: the row template filled with as many values as it has tokens,
  all of them numbers or the new one, and no stored parameter lies in that row.
\<close>

definition new_row :: "bytes list \<Rightarrow> bytes list \<Rightarrow> bytes" where
  "new_row T vals = join_on 0x2E (fill_tokens T vals) @ [0x2E]"

lemma filled_row:
  assumes T: "row_template T" and len: "length vals = tokens T" and vals: "\<And>v. v \<in> set vals \<Longrightarrow> 0x2E \<notin> set v"
  shows "fill_tokens T vals \<noteq> []" "dotless (fill_tokens T vals)" "hd (fill_tokens T vals) = hd T"
    "splitObjectParts (new_row T vals) = fill_tokens T vals" "trim_dot (new_row T vals) = join_on 0x2E (fill_tokens T vals)"
proof -
  have T0: "T \<noteq> []" "dotless T" "visible (hd (hd T))" "hd T \<noteq> []" using row_template_facts [OF T] by simp_all
  show ne: "fill_tokens T vals \<noteq> []" using T0(1) fill_length [of T vals] by (metis length_0_conv)
  show dl: "dotless (fill_tokens T vals)" using fill_set [of T vals] T0(2) vals by blast
  have "hd T \<noteq> instance_token" by (rule row_template_facts(7) [OF T])
  then show h: "hd (fill_tokens T vals) = hd T" using T0(1) by (cases T) auto
  show "splitObjectParts (new_row T vals) = fill_tokens T vals" "trim_dot (new_row T vals) = join_on 0x2E (fill_tokens T vals)"
    using object_parts [OF ne dl] T0 by (simp_all add: new_row_def h)
qed

lemma extract_row:
  assumes T: "row_template T" and len: "length vals = tokens T" and vals: "\<And>v. v \<in> set vals \<Longrightarrow> 0x2E \<notin> set v"
    and ex: "extractActualObjectPath (join_on 0x2E T @ [0x2E]) k = Some (new_row T vals)"
  shows "\<forall>i < length T. T ! i = instance_token \<and> isNumericPathSegment (fill_tokens T vals ! i) \<or> T ! i = fill_tokens T vals ! i"
proof -
  let ?F = "split_on 0x2E (TrimSpace k)"
  have sT: "splitObjectParts (join_on 0x2E T @ [0x2E]) = T" using object_parts(1) row_template_facts [OF T] by simp
  obtain Q where Q: "actual_parts T ?F = Some Q" "join_on 0x2E Q @ [0x2E] = new_row T vals"
    using ex by (auto simp: extractActualObjectPath_def sT Let_def split: if_splits)
  have Q': "Q = take (length T) ?F" "length Q = length T" using actual_parts_Some [OF Q(1)] by blast+
  have "dotless Q" using split_dotless Q'(1) by (metis in_set_takeD)
  moreover have "Q \<noteq> []" using Q'(2) row_template_facts(1) [OF T] by (metis length_0_conv)
  ultimately have "Q = fill_tokens T vals"
    using Q(2) filled_row [OF T len vals] split_join by (metis append_same_eq new_row_def)
  then show ?thesis using actual_parts_Some [OF Q(1)] by metis
qed

lemma next_instance_free:
  assumes T: "row_template T" and nx: "nextObjectInstance values rp (join_on 0x2E T @ [0x2E]) = Inr (vals, actual)"
  shows "actual = new_row T vals" "length vals = tokens T" "\<And>v. v \<in> set vals \<Longrightarrow> 0x2E \<notin> set v"
    "\<And>v. v \<in> set vals \<Longrightarrow> isNumericPathSegment v \<or> v \<noteq> [] \<and> hd v = 0x2D"
    "\<And>v c. \<lbrakk>v \<in> set vals; c \<in> set v\<rbrakk> \<Longrightarrow> visible c \<and> c \<noteq> 0x2E"
    "\<And>k. k \<in> set (map fst values) \<Longrightarrow> extractActualObjectPath (join_on 0x2E T @ [0x2E]) k \<noteq> Some actual"
proof -
  let ?c = "join_on 0x2E T @ [0x2E]"
  define R where "R = splitObjectParts (TrimSpace rp)"
  have sT: "splitObjectParts ?c = T" using object_parts(1) row_template_facts [OF T] by simp
  obtain vals0 u where lenR: "length T = length R" and req: "request_instances rp (zip T R) [] None = Inr (vals0, Some u)"
    and rest: "(let m = foldl (\<lambda>m path. max m (instance_in_use ?c u vals0 path)) 0 (map fst values);
        v = vals0[u := FormatInt (sint (of_nat (m + 1) :: u64))] in (v, join_on 0x2E (fill_tokens T v) @ [0x2E])) = (vals, actual)"
    using nx by (auto simp: nextObjectInstance_def sT R_def [symmetric] Let_def split: if_splits sum.splits prod.splits option.splits)
  define m where "m = foldl (\<lambda>m path. max m (instance_in_use ?c u vals0 path)) 0 (map fst values)"
  define nv where "nv = FormatInt (sint (of_nat (m + 1) :: u64))"
  have nv: "nv = FormatInt (sint (1 + word_of_nat m :: u64))" by (simp add: nv_def)
  have "vals0[u := nv] = vals \<and> join_on 0x2E (fill_tokens T (vals0[u := nv])) @ [0x2E] = actual"
    using rest by (auto simp: m_def [symmetric] Let_def nv)
  then have vals: "vals = vals0[u := nv]" and "actual = join_on 0x2E (fill_tokens T vals) @ [0x2E]" by auto
  then show act: "actual = new_row T vals" by (simp add: new_row_def)
  have m: "m < 2 ^ 63" unfolding m_def by (rule foldl_max_less) (rule instance_in_use_less, simp)
  note next_facts = next_number [OF m, folded nv_def]
  have len0: "length vals0 = tokens T" and u: "u < length vals0"
    and num0: "\<And>j. \<lbrakk>j < length vals0; j \<noteq> u\<rbrakk> \<Longrightarrow> isNumericPathSegment (vals0 ! j)"
    using request_instances_result [OF req] lenR by auto
  show len: "length vals = tokens T" using vals len0 by simp
  have elem: "v = nv \<or> isNumericPathSegment v" if "v \<in> set vals" for v
    using that vals num0 u by (auto simp: in_set_conv_nth) (metis nth_list_update)
  show dl: "0x2E \<notin> set v" if "v \<in> set vals" for v using elem [OF that] next_facts(1) numeric_dotless by blast
  show "isNumericPathSegment v \<or> v \<noteq> [] \<and> hd v = 0x2D" if "v \<in> set vals" for v
    using elem [OF that] FormatInt_shape(1) by (auto simp: nv_def)
  show "visible c \<and> c \<noteq> 0x2E" if "v \<in> set vals" "c \<in> set v" for v c
    using elem [OF that(1)] FormatInt_shape(2) [of c] dl [OF that(1)] that(2)
    by (auto simp: nv_def isNumericPathSegment_def list_all_iff digit_visible)
  show "extractActualObjectPath ?c k \<noteq> Some actual" if k: "k \<in> set (map fst values)" for k
  proof
    assume ex: "extractActualObjectPath ?c k = Some actual"
    let ?P = "fill_tokens T vals"
    have tv: "token_values T ?P = vals" by (rule fill_token_values [OF len])
    have "nv \<in> set vals" using vals u by (simp add: set_update_memI)
    then have "nv \<in> set (token_values T ?P)" using tv by simp
    then obtain i where "i < length T" "T ! i = instance_token" "?P ! i = nv"
      by (auto simp: token_values_def set_zip)
    then have "isNumericPathSegment nv" using extract_row [OF T len dl ex [unfolded act]] next_facts(3) by metis
    then have nd: "nv = nat_digits (m + 1)" "m + 1 < 2 ^ 63" and allnum: "\<forall>v \<in> set vals. isNumericPathSegment v"
      using next_facts(2) elem by auto
    have "parseObjectInstanceAt actual u = Some (m + 1)"
      using filled_row(4) [OF T len dl] fill_numbers [OF len _ allnum] row_template_facts(5) [OF T] nd len len0 u vals
      by (simp add: parseObjectInstanceAt_def act)
    moreover have "same_siblings u vals0 (token_values T (splitObjectParts actual))"
      using filled_row(4) [OF T len dl] tv vals by (auto simp: same_siblings_def act list_all_iff) (metis nth_list_update_neq)
    ultimately have "instance_in_use ?c u vals0 k = m + 1" using ex by (simp add: instance_in_use_def sT)
    then show False using foldl_max_ge [OF k, of "instance_in_use ?c u vals0" 0] by (simp add: m_def)
  qed
qed

section \<open>The fields of the new instance\<close>

definition in_row :: "bytes list \<Rightarrow> bytes list \<Rightarrow> bytes \<Rightarrow> bool" where
  "in_row T vals key \<longleftrightarrow> take (length T) (split_on 0x2E key) = fill_tokens T vals"

lemma unique_first: "\<lbrakk>p @ c # x = q @ c # y; c \<notin> set p; c \<notin> set q\<rbrakk> \<Longrightarrow> p = q \<and> x = y"
  by (induction p arbitrary: q) (auto simp: Cons_eq_append_conv)

lemma starts_with_app: "starts_with s p \<longleftrightarrow> (\<exists>r. s = p @ r)"
  by (auto simp: starts_with_def) (metis append_take_drop_id)

lemma prefix_parts:
  "\<lbrakk>starts_with (join_on 0x2E Q) (join_on 0x2E P); dotless Q; dotless P; P \<noteq> []; Q \<noteq> []\<rbrakk> \<Longrightarrow>
     length P \<le> length Q \<and> take (length P - 1) Q = butlast P"
proof (induction P arbitrary: Q)
  case (Cons p P)
  show ?case
  proof (cases "P = []")
    case False
    obtain q qs where Q: "Q = q # qs" using Cons.prems by (cases Q) auto
    obtain r where r: "join_on 0x2E Q = p @ 0x2E # (join_on 0x2E P @ r)"
      using Cons.prems(1) False by (auto simp: starts_with_app join_on_Cons)
    then have "0x2E \<in> set (join_on 0x2E Q)" by simp
    then have qs: "qs \<noteq> []" using Cons.prems(2) Q by auto
    then have "q @ 0x2E # join_on 0x2E qs = p @ 0x2E # (join_on 0x2E P @ r)" using r Q by (simp add: join_on_Cons)
    then have eq: "q = p" "join_on 0x2E qs = join_on 0x2E P @ r" using unique_first Cons.prems(2,3) Q by fastforce+
    then have "length P \<le> length qs \<and> take (length P - 1) qs = butlast P"
      using Cons.IH [of qs] Cons.prems(2,3) Q qs False by (auto simp: starts_with_app)
    then show ?thesis using Q eq(1) False by (cases P) auto
  qed (use Cons.prems in \<open>cases Q; simp\<close>)
qed simp

lemma materialize_prefixed:
  assumes T: "row_template T" and len: "length vals = tokens T" and vals: "\<And>v. v \<in> set vals \<Longrightarrow> 0x2E \<notin> set v"
    and pre: "starts_with (materializePathForInstance path (join_on 0x2E T @ [0x2E]) vals) (join_on 0x2E (fill_tokens T vals))"
  shows "in_row T vals (materializePathForInstance path (join_on 0x2E T @ [0x2E]) vals)"
proof -
  let ?P = "fill_tokens T vals" and ?F = "split_on 0x2E path"
  have sc: "split_on 0x2E (join_on 0x2E T @ [0x2E]) = T @ [[]]"
    using split_on_join_append [of T "[]"] row_template_facts(1,2) [OF T] by simp
  define Q where "Q = materialize (T @ [[]]) ?F vals"
  have mp: "materializePathForInstance path (join_on 0x2E T @ [0x2E]) vals = join_on 0x2E Q"
    by (simp add: materializePathForInstance_def sc Q_def)
  have Q: "dotless Q" "Q \<noteq> []" "length Q = length ?F"
  proof -
    show "dotless Q" using materialize_set [of "T @ [[]]" ?F vals] split_dotless [of path] vals by (auto simp: Q_def)
    show "length Q = length ?F" by (simp add: Q_def)
    then show "Q \<noteq> []" using split_on_nonempty [of "0x2E" path] by (metis length_0_conv)
  qed
  note P = filled_row [OF T len vals]
  have pp: "length ?P \<le> length Q" "take (length ?P - 1) Q = butlast ?P"
    using prefix_parts [OF pre [unfolded mp] Q(1) P(2,1) Q(2)] by auto
  define n where "n = length T - 1"
  have n: "Suc n = length T" using row_template_facts(1) [OF T] by (cases T) (auto simp: n_def)
  have "?F = take (length T) ?F @ drop (length T) ?F" by simp
  then have Q2: "Q = materialize T (take (length T) ?F) vals @ drop (length T) ?F"
    using materialize_row [OF len, of "take (length T) ?F" "drop (length T) ?F"] pp(1) Q(3) by (simp add: Q_def)
  have "T ! n = instance_token" using row_template_facts(1,6) [OF T] by (simp add: last_conv_nth n_def)
  then have "Q ! n = ?P ! n"
    using materialize_nth [OF len, of "take (length T) ?F" n] pp(1) Q(3) n by (simp add: Q2 nth_append)
  moreover have "take (Suc n) Q = take n Q @ [Q ! n]" using pp(1) n by (intro take_Suc_conv_app_nth) simp
  moreover have "take n Q = butlast ?P" using pp(2) by (simp add: n_def)
  moreover have "?P = butlast ?P @ [?P ! n]" using append_butlast_last_id [OF P(1)] last_conv_nth [OF P(1)] by (simp add: n_def)
  ultimately have "take (length T) Q = ?P" using n by simp
  then show ?thesis using Q(1,2) by (simp add: in_row_def mp split_join)
qed

lemma param_in_row:
  assumes T: "row_template T" and len: "length vals = tokens T" and vals: "\<And>v. v \<in> set vals \<Longrightarrow> 0x2E \<notin> set v"
    and pre: "starts_with path (join_on 0x2E T @ [0x2E])"
  shows "\<exists>rest. rest \<noteq> [] \<and> dotless rest \<and>
    materializePathForInstance path (join_on 0x2E T @ [0x2E]) vals = join_on 0x2E (fill_tokens T vals @ rest)"
proof -
  obtain r where r: "path = join_on 0x2E T @ 0x2E # r" using pre by (auto simp: starts_with_app)
  have T0: "T \<noteq> []" "dotless T" using row_template_facts [OF T] by auto
  have "split_on 0x2E path = T @ split_on 0x2E r" "split_on 0x2E (join_on 0x2E T @ [0x2E]) = T @ [[]]"
    using split_on_join_append [OF T0] r by auto
  then have "materializePathForInstance path (join_on 0x2E T @ [0x2E]) vals = join_on 0x2E (fill_tokens T vals @ split_on 0x2E r)"
    using materialize_row [OF len, of T] materialize_template [OF len] by (simp add: materializePathForInstance_def)
  then show ?thesis using split_dotless split_on_nonempty by blast
qed

lemma joined_in_row:
  assumes "row_template T" "length vals = tokens T" "\<And>v. v \<in> set vals \<Longrightarrow> 0x2E \<notin> set v" "dotless rest"
  shows "split_on 0x2E (join_on 0x2E (fill_tokens T vals @ rest)) = fill_tokens T vals @ rest"
  using filled_row(1,2) [OF assms(1-3)] assms(4) by (intro split_join) auto

text \<open>The maps of fields are built by \<^verbatim>\<open>fields[path] = Field{Path: path, ...}\<close>.\<close>

definition row_fields :: "bytes list \<Rightarrow> bytes list \<Rightarrow> field_map \<Rightarrow> bool" where
  "row_fields T vals m \<longleftrightarrow> (\<forall>(k, f) \<in> set m. f_Path f = k \<and> in_row T vals k)"

lemma row_fields_put: "\<lbrakk>row_fields T vals m; in_row T vals k; f_Path f = k\<rbrakk> \<Longrightarrow> row_fields T vals (md_put k f m)"
proof -
  assume a: "row_fields T vals m" "in_row T vals k" "f_Path f = k"
  have "set (md_put k f m) \<subseteq> insert (k, f) (set m)" by (induction m) (auto split: if_splits)
  then show ?thesis using a by (auto simp: row_fields_def)
qed

lemma foldl_keep: "\<lbrakk>I m0; \<And>m x. \<lbrakk>I m; x \<in> set xs\<rbrakk> \<Longrightarrow> I (f m x)\<rbrakk> \<Longrightarrow> I (foldl f m0 xs)"
  by (induction xs arbitrary: m0) auto

lemma build_row_fields:
  assumes "row_template T" "length vals = tokens T" "\<And>v. v \<in> set vals \<Longrightarrow> 0x2E \<notin> set v"
  shows "row_fields T vals (buildObjectFieldsForAdd M (join_on 0x2E T @ [0x2E]) vals)"
proof -
  let ?c = "join_on 0x2E T @ [0x2E]"
  have row: "in_row T vals (materializePathForInstance path ?c vals)" if "starts_with path ?c" for path
    using param_in_row [OF assms that] joined_in_row [OF assms] by (auto simp: in_row_def)
  show ?thesis unfolding buildObjectFieldsForAdd_def
    by (rule foldl_keep) (auto simp: Let_def row row_fields_def [of T vals "[]"] intro!: row_fields_put)
qed

lemma build_keys:
  assumes "param \<in> set (dm_AllDeviceParams M)" "starts_with (sp_Path param) c"
  shows "materializePathForInstance (sp_Path param) c vals \<in> fst ` set (buildObjectFieldsForAdd M c vals)"
proof -
  have keys: "materializePathForInstance (sp_Path param) c vals \<in> fst ` set (foldl (\<lambda>m (i, param).
      if starts_with (sp_Path param) c then (let path = materializePathForInstance (sp_Path param) c vals in md_put path (g path param i) m)
      else m) m0 ps)" if "(i, param) \<in> set ps" for ps m0 i and g :: "bytes \<Rightarrow> supported_param \<Rightarrow> nat \<Rightarrow> wfield"
    using that assms(2) by (induction ps rule: rev_induct) (auto simp: Let_def md_put_keys case_prod_unfold)
  obtain i where i: "(i, param) \<in> set (enumerate 0 (dm_AllDeviceParams M))"
    using assms(1) map_snd_enumerate [of 0 "dm_AllDeviceParams M"] by (metis (no_types) in_set_conv_decomp_first image_iff list.set_map
        prod.collapse)
  show ?thesis unfolding buildObjectFieldsForAdd_def by (rule keys [OF i])
qed

lemma initial_row_fields:
  assumes "row_template T" "length vals = tokens T" "\<And>v. v \<in> set vals \<Longrightarrow> 0x2E \<notin> set v"
  shows "\<lbrakk>add_initial (new_row T vals) (join_on 0x2E T @ [0x2E]) vals fs m = Inr m'; row_fields T vals m\<rbrakk> \<Longrightarrow> row_fields T vals m'"
proof (induction fs arbitrary: m)
  case (Cons f fs)
  let ?p = "materializePathForInstance (canonicalParamPath (TrimSpace (f_Path f))) (join_on 0x2E T @ [0x2E]) vals"
  have pre: "starts_with ?p (join_on 0x2E (fill_tokens T vals))"
    and rec: "add_initial (new_row T vals) (join_on 0x2E T @ [0x2E]) vals fs (md_put ?p \<lparr>f_id = 0, f_Path = ?p, f_Val = f_Val f\<rparr> m) = Inr m'"
    using Cons.prems(1) filled_row(5) [OF assms] by (auto simp: Let_def split: if_splits)
  have "in_row T vals ?p" by (rule materialize_prefixed [OF assms pre])
  then have "row_fields T vals (md_put ?p \<lparr>f_id = 0, f_Path = ?p, f_Val = f_Val f\<rparr> m)" using Cons.prems(2) by (intro row_fields_put) auto
  then show ?case using Cons.IH rec by blast
qed simp

lemma initial_keeps:
  "\<lbrakk>add_initial a c vals fs m = Inr m'; k \<in> fst ` set m\<rbrakk> \<Longrightarrow> k \<in> fst ` set m'"
  by (induction fs arbitrary: m) (auto simp: Let_def md_put_keys split: if_splits)

section \<open>Add\<close>

lemma extracted_listed:
  "\<lbrakk>extractActualObjectPath c k = Some p; k \<in> set (map fst m)\<rbrakk> \<Longrightarrow> p \<in> set (instancePathsForObject m c)"
  unfolding instancePathsForObject_def set_sort set_remdups List.map_filter_def by (auto simp: image_iff)

lemma lookupObjectDefinition_row:
  assumes "objects_ok M" "lookupObjectDefinition M path = Some (ob, canonical)" "ends_with canonical (instance_token @ [0x2E])"
  obtains T where "row_template T" "canonical = join_on 0x2E T @ [0x2E]"
proof -
  have "so_Path ob = canonical \<and> ob \<in> set (dm_AllDeviceObjects M)"
    using assms(2) by (auto simp: lookupObjectDefinition_def Let_def find_Some_iff split: option.splits)
  then show ?thesis using assms(1,3) that by (auto simp: objects_ok_def)
qed

lemma extract_in_row:
  assumes T: "row_template T" and len: "length vals = tokens T" and vals: "\<And>v. v \<in> set vals \<Longrightarrow> isNumericPathSegment v"
    and key: "in_row T vals k" "plain k" "k \<noteq> trim_dot (new_row T vals)"
  shows "extractActualObjectPath (join_on 0x2E T @ [0x2E]) k = Some (new_row T vals)"
proof -
  let ?P = "fill_tokens T vals"
  have dl: "\<And>v. v \<in> set vals \<Longrightarrow> 0x2E \<notin> set v" using vals numeric_dotless by blast
  have sT: "splitObjectParts (join_on 0x2E T @ [0x2E]) = T" using object_parts(1) row_template_facts [OF T] by simp
  define rest where "rest = drop (length T) (split_on 0x2E k)"
  have k: "split_on 0x2E k = ?P @ rest" using key(1) append_take_drop_id [of "length T" "split_on 0x2E k"] by (simp add: in_row_def rest_def)
  have "rest \<noteq> []" using key(3) join_split [of "0x2E" k] k filled_row(5) [OF T len dl] by auto
  moreover have "actual_parts T (?P @ rest) = Some ?P" using len vals by (intro actual_parts_fill) auto
  ultimately show ?thesis
    using key(2) by (simp add: extractActualObjectPath_def sT k new_row_def Let_def)
qed

lemma conforming_row_numeric:
  assumes M: "objects_ok M" and c: "conforms (dm_schema M) f" and row: "in_row T vals (f_Path f)" and len: "length vals = tokens T"
    and vals: "\<And>v. v \<in> set vals \<Longrightarrow> isNumericPathSegment v \<or> v \<noteq> [] \<and> hd v = 0x2D" and v: "v \<in> set vals"
  shows "isNumericPathSegment v"
proof (rule ccontr)
  assume no: "\<not> isNumericPathSegment v"
  then have minus: "v \<noteq> []" "hd v = 0x2D" using vals [OF v] by auto
  have "v \<in> set (fill_tokens T vals)"
    using v fill_token_values [OF len] token_values_subset [of T "fill_tokens T vals"] by auto
  then have part: "v \<in> set (split_on 0x2E (f_Path f))" using row by (metis in_row_def in_set_takeD)
  have cp: "canonical_part v = v" using no minus by (simp add: canonical_part_def)
  let ?p = "f_Path f"
  have ne: "?p \<noteq> []" using part minus by auto
  have "v \<in> set (map canonical_part (split_on 0x2E ?p))" using part cp by (metis image_eqI list.set_map)
  moreover have "dotless (map canonical_part (split_on 0x2E ?p))"
    using split_dotless [of ?p] token_facts(1) by (auto simp: canonical_part_def instance_token_def)
  ultimately have cpart: "v \<in> set (split_on 0x2E (canonicalParamPath ?p))"
    using canonical_parts [OF ne] by (simp add: split_join)
  have "?p \<in> dom (sc_safeParamIndex (dm_schema M)) \<or> canonicalParamPath ?p \<in> dom (sc_safeParamIndex (dm_schema M))"
    using c by (auto simp: conforms_def lookupSafeParam_def split: option.splits)
  then show False using M minus part cpart by (auto simp: objects_ok_def)
qed

text \<open>Trimming removes bytes of spaces only.\<close>

lemma trim_prefixes_drop: "\<exists>d. s = d @ trim_prefixes ps s \<and> (\<forall>x \<in> set d. \<exists>p \<in> set ps. x \<in> set p)"
proof (induction ps s rule: trim_prefixes.induct)
  case (1 ps s)
  show ?case
  proof (cases "find (\<lambda>p. p \<noteq> [] \<and> starts_with s p) ps")
    case None
    then show ?thesis by (simp add: trim_prefixes.simps [of ps s])
  next
    case (Some p)
    then have p: "p \<in> set ps" "s = p @ drop (length p) s"
      by (auto dest!: find_SomeD simp: starts_with_def) (metis append_take_drop_id)
    obtain d where "drop (length p) s = d @ trim_prefixes ps (drop (length p) s)" "\<forall>x \<in> set d. \<exists>p \<in> set ps. x \<in> set p"
      using 1 [OF Some] by blast
    then show ?thesis using p Some by (intro exI [of _ "p @ d"]) (auto simp: trim_prefixes.simps [of ps s])
  qed
qed

lemma space_bytes: "\<lbrakk>p \<in> set unicode_spaces; x \<in> set p\<rbrakk> \<Longrightarrow> \<not> visible x"
  by (auto simp: unicode_spaces_def visible_def word_le_nat_alt)

lemma TrimSpace_right: "visible (hd s) \<Longrightarrow> \<exists>b. s = TrimSpace s @ b \<and> (\<forall>x \<in> set b. \<not> visible x)"
proof -
  assume h: "visible (hd s)"
  obtain d where d: "s = d @ trim_prefixes unicode_spaces s" "\<forall>x \<in> set d. \<not> visible x"
    using trim_prefixes_drop [of s unicode_spaces] space_bytes by blast
  then have "d = []" using h by (metis hd_append2 hd_in_set)
  then have s: "trim_prefixes unicode_spaces s = s" using d(1) by simp
  obtain e where e: "rev s = e @ trim_prefixes (map rev unicode_spaces) (rev s)" "\<forall>x \<in> set e. \<exists>p \<in> set (map rev unicode_spaces). x \<in> set p"
    using trim_prefixes_drop [of "rev s" "map rev unicode_spaces"] by blast
  have "s = TrimSpace s @ rev e" using e(1) by (simp add: TrimSpace_def s) (metis rev_append rev_rev_ident)
  moreover have "\<forall>x \<in> set (rev e). \<not> visible x" using e(2) space_bytes by fastforce
  ultimately show ?thesis by blast
qed

lemma split_on_snoc: "0x2E \<notin> set b \<Longrightarrow> split_on 0x2E (x @ b) = butlast (split_on 0x2E x) @ [last (split_on 0x2E x) @ b]"
  by (induction x) (auto simp: split_on_self split: list.splits)

lemma in_row_trim:
  assumes T: "row_template T" and len: "length vals = tokens T" and vals: "\<And>v c. \<lbrakk>v \<in> set vals; c \<in> set v\<rbrakk> \<Longrightarrow> visible c \<and> c \<noteq> 0x2E"
    and row: "in_row T vals k"
  shows "in_row T vals (TrimSpace k)"
proof -
  let ?P = "fill_tokens T vals" and ?x = "split_on 0x2E (TrimSpace k)"
  note T0 = row_template_facts [OF T]
  have dl: "\<And>v. v \<in> set vals \<Longrightarrow> 0x2E \<notin> set v" using vals by blast
  have hdP: "hd ?P = hd T" "hd T \<noteq> []" using filled_row(3) [OF T len dl] T0 by auto
  have "hd (split_on 0x2E k) = hd T" using row hdP(1) T0(1) by (metis hd_take in_row_def length_greater_0_conv)
  then have "hd k = hd (hd T)" using hdP(2) by (cases k) (auto split: list.splits if_splits, metis list.sel(1))
  then obtain b where b: "k = TrimSpace k @ b" "\<forall>x \<in> set b. \<not> visible x" using TrimSpace_right T0(4) by metis
  have "visible 0x2E" by (simp add: visible_def word_le_nat_alt)
  then have sk: "split_on 0x2E k = butlast ?x @ [last ?x @ b]" using b split_on_snoc [of b "TrimSpace k"] by metis
  have lx: "length (split_on 0x2E k) = length ?x" using split_on_nonempty [of "0x2E" "TrimSpace k"] by (simp add: sk)
  show ?thesis
  proof (cases "length T < length ?x")
    case True
    then have "take (length T) (split_on 0x2E k) = take (length T) (butlast ?x)" by (simp add: sk)
    then show ?thesis using row True by (simp add: in_row_def take_butlast)
  next
    case False
    then have "?P = split_on 0x2E k" using row lx by (simp add: in_row_def)
    then have PT: "?P = butlast ?x @ [last ?x @ b]" using sk by simp
    have ne: "?P \<noteq> []" using T0(1) by (metis fill_length length_0_conv)
    have "last T = instance_token" by (rule T0(6))
    then have "fill_tokens T vals ! (length T - 1) \<in> set vals"
    proof -
      have "last ?P \<in> set (token_values T ?P)"
        using T0(1) ne \<open>last T = instance_token\<close> by (auto simp: token_values_def last_conv_nth set_zip intro!: exI [of _ "length T - 1"] image_eqI [of _ _ "(instance_token, last ?P)"])
      then show ?thesis using fill_token_values [OF len] ne by (simp add: last_conv_nth)
    qed
    then have "last ?P \<in> set vals" using ne by (simp add: last_conv_nth)
    then have "b = []" using vals b(2) PT by (metis Un_iff last_snoc last_in_set set_append)
    then show ?thesis using b row by simp
  qed
qed

lemma param_trimmed:
  assumes T: "row_template T" and len: "length vals = tokens T" and vals: "\<And>v c. \<lbrakk>v \<in> set vals; c \<in> set v\<rbrakk> \<Longrightarrow> visible c \<and> c \<noteq> 0x2E"
    and pre: "starts_with path (join_on 0x2E T @ [0x2E])"
  shows "TrimSpace (TrimSpace (materializePathForInstance path (join_on 0x2E T @ [0x2E]) vals)) \<noteq> trim_dot (new_row T vals)"
proof
  let ?k = "materializePathForInstance path (join_on 0x2E T @ [0x2E]) vals" and ?P = "fill_tokens T vals"
  assume eq: "TrimSpace (TrimSpace ?k) = trim_dot (new_row T vals)"
  have dl: "\<And>v. v \<in> set vals \<Longrightarrow> 0x2E \<notin> set v" using vals by blast
  note P = filled_row [OF T len dl] and T0 = row_template_facts [OF T]
  obtain rest where rest: "rest \<noteq> []" "?k = join_on 0x2E (?P @ rest)" using param_in_row [OF T len dl pre] by auto
  have app: "join_on 0x2E (ps @ rest) = join_on 0x2E ps @ 0x2E # join_on 0x2E rest" if "ps \<noteq> []" for ps
    using that
  proof (induction ps)
    case (Cons p ps)
    then show ?case using rest(1) by (cases "ps = []") (simp_all add: join_on_Cons)
  qed simp
  then have k: "?k = join_on 0x2E ?P @ 0x2E # join_on 0x2E rest" using rest P(1) by simp
  have hdP: "join_on 0x2E ?P \<noteq> []" "hd (join_on 0x2E ?P) = hd (hd T)"
    using P(1,3) T0(1,3) by (cases ?P; cases "tl ?P"; auto simp: join_on_Cons)+
  then have "visible (hd ?k)" using T0(4) k by simp
  then obtain b where b: "?k = TrimSpace ?k @ b" "\<forall>x \<in> set b. \<not> visible x" using TrimSpace_right by blast
  have dot: "visible 0x2E" by (simp add: visible_def word_le_nat_alt)
  show False
  proof (cases "TrimSpace ?k = []")
    case True
    then show False using b \<open>visible (hd ?k)\<close> k hdP by (metis append_Nil hd_in_set append_is_Nil_conv)
  next
    case False
    then have "visible (hd (TrimSpace ?k))" using b \<open>visible (hd ?k)\<close> by (metis hd_append2)
    then obtain b' where b': "TrimSpace ?k = TrimSpace (TrimSpace ?k) @ b'" "\<forall>x \<in> set b'. \<not> visible x" using TrimSpace_right by blast
    then have "join_on 0x2E ?P @ 0x2E # join_on 0x2E rest = join_on 0x2E ?P @ b' @ b" using b k eq P(5) by (metis append_assoc)
    then have "0x2E \<in> set (b' @ b)" by (metis list.set_intros(1) same_append_eq)
    then show False using b(2) b'(2) dot by auto
  qed
qed

text \<open>What the in-memory Add stores: fields of the new row, none of which was there before.\<close>

lemma add_in_memory_row:
  assumes M: "model_ok M" "objects_ok M" and ok: "store_ok M (ag_values A)" and T: "row_template T"
    and add: "add_in_memory M V objectPath (join_on 0x2E T @ [0x2E]) initial A w = (Inr ps, A', w')"
  obtains vals fs where "ps = [new_row T vals]" "length vals = tokens T"
    "\<And>k. k \<in> fst ` set (ag_values A) \<Longrightarrow> extractActualObjectPath (join_on 0x2E T @ [0x2E]) k \<noteq> Some (new_row T vals)"
    "ag_values A' = ag_values (refreshEntryCount M (join_on 0x2E T @ [0x2E]) (A\<lparr>ag_values := mergeMessageFields (ag_values A) fs\<rparr>))"
    "\<And>f. f \<in> set fs \<Longrightarrow> in_row T vals (f_Path f) \<and> conforms (dm_schema M) (f\<lparr>f_id := 0\<rparr>)"
    "\<And>v. \<lbrakk>v \<in> set vals; fs \<noteq> []\<rbrakk> \<Longrightarrow> isNumericPathSegment v"
    "\<And>param. \<lbrakk>param \<in> set (dm_AllDeviceParams M); starts_with (sp_Path param) (join_on 0x2E T @ [0x2E])\<rbrakk> \<Longrightarrow>
       \<exists>f \<in> set fs. f_Path f \<noteq> trim_dot (new_row T vals)"
proof -
  let ?c = "join_on 0x2E T @ [0x2E]" and ?R = "sc_registry (dm_schema M)"
  obtain vals actual rp m A1 w1 where nx: "nextObjectInstance (ag_values A) rp ?c = Inr (vals, actual)"
    and m: "(case initial of None \<Rightarrow> Inr (buildObjectFieldsForAdd M ?c vals)
       | Some msg \<Rightarrow> add_initial actual ?c vals (m_Fields msg) (buildObjectFieldsForAdd M ?c vals)) = Inr m"
    and st: "storeFields M V (map snd m) False A w = (None, A1, w1)" and res: "ps = [actual]" "A' = refreshEntryCount M ?c A1"
    using add by (auto simp: add_in_memory_def Let_def split: sum.splits prod.splits option.splits)
  note free = next_instance_free [OF T nx]
  have rows: "row_fields T vals m"
    using m build_row_fields [OF T free(2,3)] initial_row_fields [OF T free(2,3)] free(1) by (auto split: option.splits)
  let ?n = "normalized_fields False (map snd m)"
  define fs where "fs = map (stored_field ?R) ?n"
  have valid: "m = [] \<or> ValidateMessageFast (dm_schema M) (message_of ?n) = None"
    and same: "same_store (A\<lparr>ag_values := mergeMessageFields (ag_values A) fs\<rparr>) A1"
    using st by (cases rule: storeFields_cases; simp add: fs_def)+
  have fields: "in_row T vals (f_Path f) \<and> conforms (dm_schema M) (f\<lparr>f_id := 0\<rparr>)" if "f \<in> set fs" for f
  proof -
    obtain k g where kg: "(k, g) \<in> set m" "f = stored_field ?R (g\<lparr>f_Path := TrimSpace (f_Path g)\<rparr>)"
      using \<open>f \<in> set fs\<close> by (auto simp: fs_def normalized_fields_def)
    then have "in_row T vals (f_Path g)" using rows by (auto simp: row_fields_def)
    moreover have "in_row T vals (TrimSpace x)" if "in_row T vals x" for x by (rule in_row_trim [OF T free(2) free(5) that])
    ultimately have "in_row T vals (TrimSpace (TrimSpace (f_Path g)))" by blast
    moreover have "conforms (dm_schema M) (f\<lparr>f_id := 0\<rparr>)"
      using valid kg normalized_conform [OF M(1), of ?n "g\<lparr>f_Path := TrimSpace (f_Path g)\<rparr>"] by (force simp: normalized_fields_def)
    ultimately show ?thesis using kg(2) by simp
  qed
  show ?thesis
  proof (rule that [of vals fs])
    show "ps = [new_row T vals]" "length vals = tokens T" using res free by auto
    show "ag_values A' = ag_values (refreshEntryCount M ?c (A\<lparr>ag_values := mergeMessageFields (ag_values A) fs\<rparr>))"
      using same res(2) by (auto simp: same_store_def refreshEntryCount_def split: option.splits)
    show "extractActualObjectPath ?c k \<noteq> Some (new_row T vals)" if "k \<in> fst ` set (ag_values A)" for k
      using free(1,6) that by simp
    show "isNumericPathSegment v" if v: "v \<in> set vals" and ne: "fs \<noteq> []" for v
    proof -
      obtain f where f: "f \<in> set fs" using ne by (cases fs) auto
      show ?thesis
        by (rule conforming_row_numeric [OF M(2) _ _ free(2) free(4) v, of "f\<lparr>f_id := 0\<rparr>"]) (use fields [OF f] in simp_all)
    qed
    show "\<exists>f \<in> set fs. f_Path f \<noteq> trim_dot (new_row T vals)"
      if param: "param \<in> set (dm_AllDeviceParams M)" "starts_with (sp_Path param) ?c" for param
    proof -
      let ?k = "materializePathForInstance (sp_Path param) ?c vals"
      have "?k \<in> fst ` set m" using build_keys [OF param, of vals] m initial_keeps by (auto split: option.splits)
      then obtain g where g: "(?k, g) \<in> set m" "f_Path g = ?k" using rows by (auto simp: row_fields_def)
      define f where "f = stored_field ?R (g\<lparr>f_Path := TrimSpace ?k\<rparr>)"
      have f: "f \<in> set fs" using g by (force simp: f_def fs_def normalized_fields_def)
      then have "plain (TrimSpace (TrimSpace ?k))" using fields [OF f] conforms_plain [OF M(1), of "f\<lparr>f_id := 0\<rparr>"] by (simp add: f_def)
      moreover have "TrimSpace (TrimSpace ?k) \<noteq> trim_dot (new_row T vals)" by (rule param_trimmed [OF T free(2) free(5) param(2)])
      ultimately show ?thesis using f by (intro bexI [of _ f]) (simp_all add: f_def)
    qed
    show "in_row T vals (f_Path f) \<and> conforms (dm_schema M) (f\<lparr>f_id := 0\<rparr>)" if "f \<in> set fs" for f using fields [OF that] .
  qed
qed

text \<open>
  C10. A successful Add on a table, an object whose path ends in an instance token, that no back end takes over (there is
  none, or it answers that the path is unsupported) returns one object path. It names a row of the requested
  table that no stored parameter lay in before, it is among the instances afterwards if the row has a parameter
  in the data model, and every parameter stored before still has its value, the parameter that counts the
  entries of the table and one with the name of the new row apart.
\<close>
theorem add_fresh_instance:
  assumes "model_ok M" "objects_ok M" "store_ok M (ag_values A)"
    "\<And>ds adder. \<lbrakk>ag_setter A = Some ds; ds_Add ds = Some adder\<rbrakk> \<Longrightarrow> \<exists>e w0. adder (TrimSpace path) initial w = (Inl e, w0) \<and> be_unsupported e"
    "lookupObjectDefinition M (TrimSpace path) = Some (ob, canonical)" "ends_with canonical (instance_token @ [0x2E])"
    "agent_Add M V path initial A w = (Inr ps, A', w')"
  shows "\<exists>actual. ps = [actual] \<and>
    actual \<notin> set (instancePathsForObject (ag_values A) canonical) \<and>
    ((\<exists>param \<in> set (dm_AllDeviceParams M). starts_with (sp_Path param) canonical) \<longrightarrow>
      actual \<in> set (instancePathsForObject (ag_values A') canonical)) \<and>
    (\<forall>k f. map_of (ag_values A) k = Some f \<longrightarrow>
      map_of (ag_values A') k = Some f \<or> k = trim_dot actual \<or> objectCountParamPath M canonical = Some k)"
proof -
  obtain w1 where mem: "add_in_memory M V (TrimSpace path) canonical initial A w1 = (Inr ps, A', w')"
    using assms(4,5,7) by (fastforce simp: agent_Add_def Let_def split: option.splits if_splits)
  obtain T where T: "row_template T" "canonical = join_on 0x2E T @ [0x2E]" using lookupObjectDefinition_row [OF assms(2,5,6)] by blast
  show ?thesis
  proof (rule add_in_memory_row [OF assms(1-3) T(1) mem [unfolded T(2)]])
    fix vals fs
    assume r: "ps = [new_row T vals]" "length vals = tokens T"
      and free: "\<And>k. k \<in> fst ` set (ag_values A) \<Longrightarrow> extractActualObjectPath (join_on 0x2E T @ [0x2E]) k \<noteq> Some (new_row T vals)"
      and A': "ag_values A' = ag_values (refreshEntryCount M (join_on 0x2E T @ [0x2E]) (A\<lparr>ag_values := mergeMessageFields (ag_values A) fs\<rparr>))"
      and fields: "\<And>f. f \<in> set fs \<Longrightarrow> in_row T vals (f_Path f) \<and> conforms (dm_schema M) (f\<lparr>f_id := 0\<rparr>)"
      and num: "\<And>v. \<lbrakk>v \<in> set vals; fs \<noteq> []\<rbrakk> \<Longrightarrow> isNumericPathSegment v"
      and some: "\<And>param. \<lbrakk>param \<in> set (dm_AllDeviceParams M); starts_with (sp_Path param) (join_on 0x2E T @ [0x2E])\<rbrakk> \<Longrightarrow>
        \<exists>f \<in> set fs. f_Path f \<noteq> trim_dot (new_row T vals)"
    let ?new = "mergeMessageFields (ag_values A) fs"
    have look': "map_of (ag_values A') k = map_of ?new k" if "objectCountParamPath M canonical \<noteq> Some k" for k
      using that A' T(2) by (auto simp: refreshEntryCount_def map_of_md_put split: option.splits)
    have keys: "k \<in> fst ` set (ag_values A')" if "map_of ?new k \<noteq> None" for k
      using that A' T(2) by (auto simp: refreshEntryCount_def map_of_eq_None_iff md_put_keys split: option.splits)
    have row: "extractActualObjectPath canonical (f_Path f) = Some (new_row T vals)" if "f \<in> set fs" "f_Path f \<noteq> trim_dot (new_row T vals)" for f
      using extract_in_row [OF T(1) r(2) num, of "f_Path f"] fields [OF that(1)] conforms_plain [OF assms(1), of "f\<lparr>f_id := 0\<rparr>"] that T(2)
      by fastforce
    have old: "new_row T vals \<notin> set (instancePathsForObject (ag_values A) canonical)"
      using free T(2) by (force simp: instancePathsForObject_def List.map_filter_def)
    have new: "new_row T vals \<in> set (instancePathsForObject (ag_values A') canonical)"
      if param: "param \<in> set (dm_AllDeviceParams M)" "starts_with (sp_Path param) canonical" for param
    proof -
      obtain f where f: "f \<in> set fs" "f_Path f \<noteq> trim_dot (new_row T vals)" using some param T(2) by blast
      then have "map_of ?new (f_Path f) \<noteq> None" by (auto simp: merge_lookup find_None_iff split: option.split)
      then show ?thesis using extracted_listed [OF row [OF f]] keys [of "f_Path f"] by simp
    qed
    have kept: "map_of (ag_values A') k = Some f \<or> k = trim_dot (new_row T vals) \<or> objectCountParamPath M canonical = Some k"
      if k: "map_of (ag_values A) k = Some f" for k f
    proof (rule ccontr)
      assume no: "\<not> ?thesis"
      then have "map_of ?new k \<noteq> Some f" using look' by auto
      then obtain g where "g \<in> set fs" "f_Path g = k"
        using k by (auto simp: merge_lookup find_Some_iff split: option.splits) (metis nth_mem set_rev length_rev)
      then have "extractActualObjectPath canonical k = Some (new_row T vals)" using row no by auto
      then show False using free [of k] k T(2) by (force dest: map_of_SomeD)
    qed
    show ?thesis using r(1) old new kept by blast
  qed
qed

section \<open>Templates among the instances\<close>

lemma filled_fields_paths: "filled_fields M profile i ps = Inr fs \<Longrightarrow> map f_Path fs = map sp_Path ps"
  by (induction M profile i ps arbitrary: fs rule: filled_fields.induct) (auto split: option.splits if_splits sum.splits)

text \<open>
  C33. Once the agent has been seeded with sample values, as the daemon does at start-up, the template of every table with
  a parameter is listed among the instances of the table although no instance was ever created.
\<close>
theorem bootstrap_lists_template:
  assumes "model_ok M" "Bootstrap M profile deviceID timestamp overwrite A = (None, A')" "row_template T"
    "param \<in> set (dm_AllDeviceParams M)" "starts_with (sp_Path param) (join_on 0x2E T @ [0x2E])"
  shows "join_on 0x2E T @ [0x2E] \<in> set (instancePathsForObject (ag_values A') (join_on 0x2E T @ [0x2E]))"
proof -
  let ?c = "join_on 0x2E T @ [0x2E]"
  obtain msg where b: "BuildFilledMessage M (coalesceFillProfile profile (ag_fillProfile A)) deviceID timestamp = Inr msg"
    and v: "ag_values A' = mergeMessageFields (if overwrite then [] else ag_values A) (m_Fields msg)"
    using assms(2) by (auto simp: Bootstrap_def split: sum.splits)
  have fs: "map f_Path (m_Fields msg) = map sp_Path (dm_AllDeviceParams M)" "ValidateMessageFast (dm_schema M) msg = None"
    using b by (auto simp: BuildFilledMessage_def Let_def filled_fields_paths split: sum.splits option.splits)
  then obtain f where f: "f \<in> set (m_Fields msg)" "f_Path f = sp_Path param" using assms(4) by (metis imageE image_eqI list.set_map)
  have "conforms (dm_schema M) f" using ValidateMessageFast_fields fs(2) f(1) assms(1) by (auto simp: model_ok_def)
  then have plain: "plain (sp_Path param)" using conforms_plain [OF assms(1)] f(2) by metis
  have T0: "T \<noteq> []" "dotless T" "splitObjectParts ?c = T" using row_template_facts [OF assms(3)] object_parts(1) by auto
  obtain r where "sp_Path param = join_on 0x2E T @ 0x2E # r" using assms(5) by (auto simp: starts_with_app)
  then have split: "split_on 0x2E (sp_Path param) = T @ split_on 0x2E r" using split_on_join_append [OF T0(1,2)] by simp
  have "actual_parts T (T @ rest) = Some T" for rest by (induction T) auto
  then have ex: "extractActualObjectPath ?c (sp_Path param) = Some ?c"
    using plain split_on_nonempty [of "0x2E" r] by (simp add: extractActualObjectPath_def T0(3) split Let_def)
  have "map_of (ag_values A') (sp_Path param) \<noteq> None"
    using f by (auto simp: v merge_lookup find_None_iff split: option.split)
  then have "sp_Path param \<in> set (map fst (ag_values A'))" by (simp add: map_of_eq_None_iff)
  with ex show ?thesis by (rule extracted_listed)
qed

section \<open>Examples\<close>

lemma ex_objects_ok: "objects_ok ex_model"
proof -
  have "row_template [ascii ''X'', instance_token]"
    unfolding row_template_def
    by (intro exI [of _ "[ascii ''X'']"]) (simp add: instance_token_def visible_def isNumericPathSegment_def is_digit_def word_le_nat_alt)
  moreover have "ascii ''X.{i}.'' = join_on 0x2E [ascii ''X'', instance_token] @ [0x2E]" by (simp add: instance_token_def)
  ultimately have "\<exists>T. row_template T \<and> ascii ''X.{i}.'' = join_on 0x2E T @ [0x2E]" by blast
  then show ?thesis
    unfolding objects_ok_def ex_index by (simp add: ex_model_def)
qed

lemma ex_store_ok: "store_ok ex_model [(ex_path, ex_field)]"
proof -
  have "conforms (dm_schema ex_model) ex_field"
    by (rule ValidateMessageFast_fields [OF _ ex_valid]) (use ex_model_ok in \<open>simp_all add: model_ok_def message_of_def\<close>)
  then show ?thesis by (simp add: store_ok_def md_ok_def well_stored_def ex_field_def)
qed

lemma ex_trim:
  "TrimSpace (ascii ''X.'') = ascii ''X.''" "TrimSpace (ascii ''X.{i}.'') = ascii ''X.{i}.''" "TrimSpace (ascii ''X.7.MTU'') = ascii ''X.7.MTU''"
  "TrimSpace (ascii ''X.7.'') = ascii ''X.7.''" "TrimSpace (ascii ''X.8.MTU'') = ascii ''X.8.MTU''"
  by (rule TrimSpace_plain, simp add: plain_def visible_def word_le_nat_alt)+

lemmas ex_eval = ex_trim [simplified] splitObjectParts_def trim_dot_def ends_with_def instance_token_def isNumericPathSegment_def is_digit_def
  word_le_nat_alt canonicalParamPath_def starts_with_def

lemma ex_next: "nextObjectInstance [(ex_path, ex_field)] (ascii ''X.{i}.'') (ascii ''X.{i}.'') = Inr ([ascii ''8''], ascii ''X.8.'')"
proof -
  have parts: "splitObjectParts (ascii ''X.{i}.'') = [ascii ''X'', instance_token]" "splitObjectParts (ascii ''X.7.'') = [ascii ''X'', ascii ''7'']"
    by (simp_all add: ex_eval)
  have "extractActualObjectPath (ascii ''X.{i}.'') ex_path = Some (ascii ''X.7.'')"
    using parts(1) by (simp add: extractActualObjectPath_def ex_path_def ex_eval)
  moreover have "parseObjectInstanceAt (ascii ''X.7.'') 0 = Some 7" unfolding parseObjectInstanceAt_def parts(2)
    by (simp add: ParseUint_def digits_value_def isNumericPathSegment_def is_digit_def word_le_nat_alt)
  moreover have "token_values (splitObjectParts (ascii ''X.{i}.'')) (splitObjectParts (ascii ''X.7.'')) = [ascii ''7'']"
    unfolding parts by (simp add: token_values_def instance_token_def)
  ultimately have use: "instance_in_use (ascii ''X.{i}.'') 0 [[]] ex_path = 7"
    by (simp add: instance_in_use_def same_siblings_def del: ascii_simps)
  have "request_instances rp (zip [ascii ''X'', instance_token] [ascii ''X'', instance_token]) [] None = Inr ([[]], Some 0)" for rp
    by (simp add: instance_token_def)
  then show ?thesis
    unfolding nextObjectInstance_def ex_trim parts(1) Let_def by (simp add: use FormatInt_def nat_digits.simps instance_token_def del: ascii_simps) simp
qed

lemma ex_conforms: "ValidateFieldFast (dm_schema ex_model) \<lparr>f_id = 0, f_Path = p, f_Val = VUint 1280\<rparr> = None"
  if "p \<in> {ascii ''X.{i}.MTU'', ascii ''X.8.MTU''}"
proof -
  have "canonicalParamPath (ascii ''X.8.MTU'') = ascii ''X.{i}.MTU''" by (simp add: ex_eval)
  then have "\<exists>c. lookupSafeParam (dm_schema ex_model) p = Some (ex_info, c)"
    using that by (auto simp: lookupSafeParam_def ex_index)
  then show ?thesis
    by (auto simp: ValidateFieldFast_def ex_info_def tagMatchesParamType_def TagForParamType_def validateValueFast_def
        validateUnsignedLimits_def ex_limits_def)
qed

lemma ex_build: "buildObjectFieldsForAdd ex_model (ascii ''X.{i}.'') [ascii ''8''] =
  [(ascii ''X.8.MTU'', \<lparr>f_id = 0, f_Path = ascii ''X.8.MTU'', f_Val = VUint 1280\<rparr>)]"
proof -
  have params: "dm_AllDeviceParams ex_model = [\<lparr>sp_Path = ascii ''X.{i}.MTU'', sp_Type = [], sp_Access = [], sp_SinceVersion = []\<rparr>]"
    and sample: "dm_sample ex_model p i = VUint 1280" for p i by (simp_all add: ex_model_def del: ascii_simps)
  have mat: "materializePathForInstance (ascii ''X.{i}.MTU'') (ascii ''X.{i}.'') [ascii ''8''] = ascii ''X.8.MTU''"
    by (simp add: materializePathForInstance_def instance_token_def)
  have pre: "starts_with (ascii ''X.{i}.MTU'') (ascii ''X.{i}.'')" by (simp add: starts_with_def)
  have "safeFilledValueForParam ex_model \<lparr>sp_Path = ascii ''X.{i}.MTU'', sp_Type = [], sp_Access = [], sp_SinceVersion = []\<rparr> i q = VUint 1280" for i q
    using ex_conforms by (simp add: safeFilledValueForParam_def sample del: ascii_simps)
  then show ?thesis unfolding buildObjectFieldsForAdd_def params by (simp add: mat pre Let_def del: ascii_simps)
qed

lemma ex_lookup:
  "lookupObjectDefinition ex_model (ascii ''X.'') =
      Some (\<lparr>so_Path = ascii ''X.{i}.'', so_MultiInstance = True, so_SinceVersion = []\<rparr>, ascii ''X.{i}.'')"
proof -
  have "canonicalParamPath (ascii ''X.'') = ascii ''X.''" "trim_dot (ascii ''X.'') @ ascii ''.{i}.'' = ascii ''X.{i}.''" by (simp_all add: ex_eval)
  then show ?thesis by (simp add: lookupObjectDefinition_def ex_trim ex_model_def Let_def del: ascii_simps)
qed

lemma ex_add:
  "\<exists>A'. agent_Add ex_model ex_order (ascii ''X.'') None (ex_agent\<lparr>ag_values := [(ex_path, ex_field)]\<rparr>) () = (Inr [ascii ''X.8.''], A', ())"
proof -
  let ?A = "ex_agent\<lparr>ag_values := [(ex_path, ex_field)]\<rparr>"
  let ?f = "\<lparr>f_id = 0, f_Path = ascii ''X.8.MTU'', f_Val = VUint 1280\<rparr>"
  have can: "canonicalParamPath (ascii ''X.'') = ascii ''X.''" "trim_dot (ascii ''X.'') @ ascii ''.{i}.'' = ascii ''X.{i}.''" by (simp_all add: ex_eval)
  have toks: "token_count (ascii ''X.{i}.'') = 1" "token_count (ascii ''X.'') = 0"
    by (simp_all add: token_count_def upt_rec instance_token_def starts_with_def)
  have ob: "isObjectPath (ascii ''X.'')" "ascii ''X.'' \<noteq> []" by (simp_all add: isObjectPath_def ex_trim [simplified] ends_with_def)
  have valid: "ValidateMessageFast (dm_schema ex_model) (message_of [?f]) = None"
    using ex_conforms by (simp add: ValidateMessageFast_def message_of_def del: ascii_simps) simp
  have ag: "ag_setter ?A = None" "ag_eventSender ?A = None" "ag_values ?A = [(ex_path, ex_field)]"
    by (simp_all add: ex_agent_def NewUSPAgent_def)
  have "\<exists>A'. storeFields ex_model ex_order [?f] False ?A () = (None, A', ())"
    using valid ag by (simp add: storeFields_def ex_trim Let_def del: ascii_simps)
  then obtain A1 where st: "storeFields ex_model ex_order [?f] False ?A () = (None, A1, ())" by blast
  have "ascii ''X.'' \<noteq> ascii ''X.{i}.''" by simp
  then have "add_in_memory ex_model ex_order (ascii ''X.'') (ascii ''X.{i}.'') None ?A () = (Inr [ascii ''X.8.''], refreshEntryCount ex_model (ascii ''X.{i}.'') A1, ())"
    by (simp add: add_in_memory_def Let_def can ag ex_next ex_build st del: ascii_simps)
  then show ?thesis by (simp add: agent_Add_def Let_def ex_trim ob ex_lookup toks ag del: ascii_simps)
qed

theorem add_fresh_instance_witness:
  "\<exists>A'. agent_Add ex_model ex_order (ascii ''X.'') None (ex_agent\<lparr>ag_values := [(ex_path, ex_field)]\<rparr>) () = (Inr [ascii ''X.8.''], A', ()) \<and>
     ascii ''X.8.'' \<notin> set (instancePathsForObject [(ex_path, ex_field)] (ascii ''X.{i}.''))"
proof -
  obtain A' where A': "agent_Add ex_model ex_order (ascii ''X.'') None (ex_agent\<lparr>ag_values := [(ex_path, ex_field)]\<rparr>) () = (Inr [ascii ''X.8.''], A', ())"
    using ex_add by blast
  have "store_ok ex_model (ag_values (ex_agent\<lparr>ag_values := [(ex_path, ex_field)]\<rparr>))" using ex_store_ok by simp
  moreover have "ag_setter (ex_agent\<lparr>ag_values := [(ex_path, ex_field)]\<rparr>) = None" by (simp add: ex_agent_def NewUSPAgent_def)
  moreover have "lookupObjectDefinition ex_model (TrimSpace (ascii ''X.'')) =
      Some (\<lparr>so_Path = ascii ''X.{i}.'', so_MultiInstance = True, so_SinceVersion = []\<rparr>, ascii ''X.{i}.'')" by (simp only: ex_trim ex_lookup)
  moreover have "ends_with (ascii ''X.{i}.'') (instance_token @ [0x2E])" by (simp add: ends_with_def instance_token_def)
  ultimately show ?thesis
    using add_fresh_instance [OF ex_model_ok ex_objects_ok _ _ _ _ A'] A' by (simp del: ascii_simps)
qed

definition ex_seeded :: data_model where
  "ex_seeded = ex_model\<lparr>dm_schema := (dm_schema ex_model)\<lparr>sc_registry := \<lparr>reg_paths = [ascii ''X.{i}.MTU''], reg_fp = 0\<rparr>\<rparr>\<rparr>"

lemma ex_seeded_schema:
  "sc_safeParamIndex (dm_schema ex_seeded) = [ascii ''X.{i}.MTU'' \<mapsto> ex_info]" "sc_ParseCIDR (dm_schema ex_seeded) = sc_ParseCIDR (dm_schema ex_model)"
  "sc_registry (dm_schema ex_seeded) = \<lparr>reg_paths = [ascii ''X.{i}.MTU''], reg_fp = 0\<rparr>"
  by (simp_all add: ex_seeded_def ex_index del: ascii_simps)

lemma ex_seeded_lookup: "lookupSafeParam (dm_schema ex_seeded) = lookupSafeParam (dm_schema ex_model)"
  by (rule ext) (simp add: lookupSafeParam_def ex_seeded_schema ex_index del: ascii_simps)

lemma ex_seeded_ok: "model_ok ex_seeded"
  using ex_model_ok by (simp add: model_ok_def schema_ok_def ex_seeded_lookup ex_seeded_schema ex_index del: ascii_simps)

lemma ex_seed_id: "IDFor \<lparr>reg_paths = [p], reg_fp = 0\<rparr> p = Some 1"
  by (simp add: IDFor_def)

lemma ex_seed_valid: "ValidateFieldFast (dm_schema ex_seeded) \<lparr>f_id = k, f_Path = ascii ''X.{i}.MTU'', f_Val = VUint 1280\<rparr> = None"
  if "k \<in> {0, 1}"
proof -
  have "lookupSafeParam (dm_schema ex_seeded) (ascii ''X.{i}.MTU'') = Some (ex_info, ascii ''X.{i}.MTU'')"
    by (simp add: lookupSafeParam_def ex_seeded_schema del: ascii_simps)
  then show ?thesis using that
    by (auto simp: ValidateFieldFast_def ex_seeded_schema ex_seed_id ex_info_def tagMatchesParamType_def TagForParamType_def validateValueFast_def
        validateUnsignedLimits_def ex_limits_def simp del: ascii_simps)
qed

lemma ex_bootstrap: "\<exists>A'. Bootstrap ex_seeded [] [] time_zero True ex_agent = (None, A')"
proof -
  have params: "dm_AllDeviceParams ex_seeded = [\<lparr>sp_Path = ascii ''X.{i}.MTU'', sp_Type = [], sp_Access = [], sp_SinceVersion = []\<rparr>]"
    and sample: "dm_sample ex_seeded p i = VUint 1280" for p i by (simp_all add: ex_seeded_def ex_model_def del: ascii_simps)
  have "safeFilledValueForParam ex_seeded \<lparr>sp_Path = ascii ''X.{i}.MTU'', sp_Type = [], sp_Access = [], sp_SinceVersion = []\<rparr> i q = VUint 1280" for i q
    using ex_seed_valid [of 0] by (simp add: safeFilledValueForParam_def sample del: ascii_simps)
  then have "filled_fields ex_seeded p 0 (dm_AllDeviceParams ex_seeded) = Inr [\<lparr>f_id = 1, f_Path = ascii ''X.{i}.MTU'', f_Val = VUint 1280\<rparr>]" for p
    by (simp add: params ex_seeded_schema ex_seed_id del: ascii_simps)
  moreover have "ValidateMessageFast (dm_schema ex_seeded) \<lparr>m_DeviceID = [], m_Timestamp = time_zero,
      m_Fields = [\<lparr>f_id = 1, f_Path = ascii ''X.{i}.MTU'', f_Val = VUint 1280\<rparr>]\<rparr> = None"
    using ex_seed_valid [of 1] by (simp add: ValidateMessageFast_def del: ascii_simps) simp
  ultimately show ?thesis by (simp add: Bootstrap_def BuildFilledMessage_def Let_def)
qed

theorem bootstrap_lists_template_witness:
  "\<exists>A'. Bootstrap ex_seeded [] [] time_zero True ex_agent = (None, A') \<and>
     ascii ''X.{i}.'' \<in> set (instancePathsForObject (ag_values A') (ascii ''X.{i}.''))"
proof -
  obtain A' where A': "Bootstrap ex_seeded [] [] time_zero True ex_agent = (None, A')" using ex_bootstrap by blast
  let ?p = "\<lparr>sp_Path = ascii ''X.{i}.MTU'', sp_Type = [], sp_Access = [], sp_SinceVersion = []\<rparr>"
  have c: "ascii ''X.{i}.'' = join_on 0x2E [ascii ''X'', instance_token] @ [0x2E]" by (simp add: instance_token_def)
  have T: "row_template [ascii ''X'', instance_token]"
    unfolding row_template_def
    by (intro exI [of _ "[ascii ''X'']"]) (simp add: instance_token_def visible_def isNumericPathSegment_def is_digit_def word_le_nat_alt)
  have "?p \<in> set (dm_AllDeviceParams ex_seeded)" by (simp add: ex_seeded_def ex_model_def)
  moreover have "starts_with (sp_Path ?p) (join_on 0x2E [ascii ''X'', instance_token] @ [0x2E])"
    by (simp add: starts_with_def instance_token_def)
  ultimately have "ascii ''X.{i}.'' \<in> set (instancePathsForObject (ag_values A') (ascii ''X.{i}.''))"
    using bootstrap_lists_template [OF ex_seeded_ok A' T] unfolding c by blast
  then show ?thesis using A' by blast
qed

end
