(* ===== verification/Agent_Events.thy ===== *)
theory Agent_Events
  imports Agent_Store
begin

text \<open>
  Events on their way from the agent to the controller: what \<^verbatim>\<open>Emit\<close> hands to the sender decodes, on the other side, to the
  emitted event, once for every subscription that selects it.
\<close>

section \<open>What the controller reads\<close>

lemma event_params_reset: "eventMessageToParams S (map_option ResetAllFieldIDs msg) = eventMessageToParams S msg"
  by (cases msg) (simp_all add: eventMessageToParams_def ResetAllFieldIDs_def foldl_map)

lemma decode_event_cong:
  assumes "rq_Method d = rq_Method q" "rq_Paths d = rq_Paths q" "rq_ObjectPath d = rq_ObjectPath q"
    "rq_Message d = map_option ResetAllFieldIDs (rq_Message q)" "rq_Metadata d = rq_Metadata q"
  shows "DecodeEventFromRequest S d = DecodeEventFromRequest S q"
proof -
  have "read_event S d = read_event S q" using assms by (intro ext) (simp only: read_event_def event_params_reset)
  then show ?thesis using assms by (simp add: DecodeEventFromRequest_def split: option.split)
qed

lemma encoded_object_path: "rq_ObjectPath (EncodeEventToRequest order ev n) = [] \<or> TrimSpace (rq_ObjectPath (EncodeEventToRequest order ev n)) \<noteq> []"
  by (auto simp: EncodeEventToRequest_def Let_def notify_request_def isObjectPath_def ends_with_def split: prod.split if_splits)

text \<open>What the encoder says of an event; neither the number nor the subscription plays a part.\<close>

definition event_refusal :: "data_model \<Rightarrow> (metadata \<Rightarrow> metadata) \<Rightarrow> usp_event \<Rightarrow> transport_error option" where
  "event_refusal M order ev = validateUSPAgentRequest (dm_schema M) (prepare_request (dm_schema M) (EncodeEventToRequest order ev 0))"

lemma validate_notify_cong:
  assumes "rq_Method q = USPAgentMethodNotify"
  shows "validateUSPAgentRequest S (prepare_request S (q\<lparr>rq_ID := n, rq_Metadata := md\<rparr>)) = validateUSPAgentRequest S (prepare_request S q)"
proof -
  have "prepare_request S (q\<lparr>rq_ID := n, rq_Metadata := md\<rparr>) = (prepare_request S q)\<lparr>rq_ID := n, rq_Metadata := md\<rparr>"
    "rq_Method (prepare_request S q) = USPAgentMethodNotify"
    using assms by (simp_all add: prepare_request_def compactRequestSelectors_def Let_def case_prod_unfold)
  moreover have "validateUSPAgentRequest S (p\<lparr>rq_ID := n, rq_Metadata := md\<rparr>) = validateUSPAgentRequest S p"
    if "rq_Method p = USPAgentMethodNotify" for p
  proof -
    have "validateUSPAgentRequestMessage S (p\<lparr>rq_ID := n, rq_Metadata := md\<rparr>) = validateUSPAgentRequestMessage S p"
      "validate_method S (p\<lparr>rq_ID := n, rq_Metadata := md\<rparr>) = validate_method S p"
      using that by (simp_all add: validateUSPAgentRequestMessage_def validate_method_def Let_def split: option.split)
    then show ?thesis by (simp add: validateUSPAgentRequest_def cong: option.case_cong if_cong split del: if_split)
  qed
  ultimately show ?thesis by metis
qed

lemma event_numbered:
  obtains md where "EncodeEventToRequest order (ev\<lparr>ev_SubscriptionID := sub\<rparr>) n =
    (EncodeEventToRequest order ev 0)\<lparr>rq_ID := n, rq_Metadata := md\<rparr>"
proof -
  have "snd (event_payload order (ev\<lparr>ev_SubscriptionID := sub\<rparr>) md) = snd (event_payload order ev md')" for md md'
    by (simp add: event_payload_def Let_def split: option.split)
  then have "\<exists>md. EncodeEventToRequest order (ev\<lparr>ev_SubscriptionID := sub\<rparr>) n = (EncodeEventToRequest order ev 0)\<lparr>rq_ID := n, rq_Metadata := md\<rparr>"
    by (simp add: EncodeEventToRequest_def notify_request_def Let_def case_prod_unfold)
  with that show thesis by blast
qed

lemma encoded_notify [simp]: "rq_Method (EncodeEventToRequest order ev n) = USPAgentMethodNotify"
  by (simp add: EncodeEventToRequest_def notify_request_def Let_def case_prod_unfold)

lemma same_refusal: "event_refusal M order (ev\<lparr>ev_SubscriptionID := sub\<rparr>) = event_refusal M order ev"
  using event_numbered [where order = order and ev = ev and sub = sub and n = 0] validate_notify_cong [OF encoded_notify] unfolding event_refusal_def by metis

lemma encoded_or_refused:
  "EncodeUSPAgentRequest (dm_schema M) (EncodeEventToRequest order ev n) =
     (case event_refusal M order ev of Some e \<Rightarrow> Inl e
      | None \<Rightarrow> Inr (write_request (dm_schema M) (prepare_request (dm_schema M) (EncodeEventToRequest order ev n))))"
proof -
  have "validateUSPAgentRequest (dm_schema M) (prepare_request (dm_schema M) (EncodeEventToRequest order ev n)) = event_refusal M order ev"
  proof -
    obtain md where "EncodeEventToRequest order (ev\<lparr>ev_SubscriptionID := ev_SubscriptionID ev\<rparr>) n =
      (EncodeEventToRequest order ev 0)\<lparr>rq_ID := n, rq_Metadata := md\<rparr>" by (rule event_numbered)
    then have "EncodeEventToRequest order ev n = (EncodeEventToRequest order ev 0)\<lparr>rq_ID := n, rq_Metadata := md\<rparr>" by simp
    then show ?thesis unfolding event_refusal_def by (simp only: validate_notify_cong [OF encoded_notify])
  qed
  then show ?thesis by (simp add: EncodeUSPAgentRequest_def Let_def split: option.split)
qed

text \<open>A field whose path the schema does not know is enough for a refusal.\<close>

lemma unknown_field_refused:
  assumes "rq_Message (EncodeEventToRequest order ev 0) = Some m" "f \<in> set (m_Fields m)" "lookupSafeParam (dm_schema M) (f_Path f) = None"
  shows "event_refusal M order ev \<noteq> None"
proof -
  let ?S = "dm_schema M"
  have fields: "validate_fields ?S seen fs \<noteq> None" if "g \<in> set fs" "lookupSafeParam ?S (f_Path g) = None" for fs seen and g :: wfield
    using that by (induction fs arbitrary: seen) (auto simp: ValidateFieldFast_def split: option.splits)
  define g where "g = f\<lparr>f_id := 0\<rparr>"
  have "g \<in> set (m_Fields (ResetAllFieldIDs m))" "lookupSafeParam ?S (f_Path g) = None"
    using assms(2,3) by (auto simp: g_def ResetAllFieldIDs_def)
  then have "ValidateMessageFast ?S (ResetAllFieldIDs m) \<noteq> None" unfolding ValidateMessageFast_def by (rule fields)
  moreover have "rq_Message (prepare_request ?S (EncodeEventToRequest order ev 0)) = Some (ResetAllFieldIDs m)"
    "rq_Method (prepare_request ?S (EncodeEventToRequest order ev 0)) = USPAgentMethodNotify"
    using assms(1) by (simp_all add: prepare_request_def compactRequestSelectors_def Let_def case_prod_unfold)
  ultimately show ?thesis
    by (auto simp: event_refusal_def validateUSPAgentRequest_def validateUSPAgentRequestMessage_def)
qed

text \<open>
  An event that the wire format can carry: it has one of the six types, its parameters are a map, it is addressed by
  reversible paths and its parts fit their length fields, whatever its number.
\<close>

definition carriable :: "data_model \<Rightarrow> (metadata \<Rightarrow> metadata) \<Rightarrow> usp_event \<Rightarrow> bool" where
  "carriable M order ev \<longleftrightarrow> 1 \<le> unat (ev_Type ev) \<and> unat (ev_Type ev) \<le> 6 \<and> md_ok (ev_Params ev) \<and>
     mset (order (ev_Params ev)) = mset (ev_Params ev) \<and>
     (\<forall>n. request_by_path (dm_schema M) (EncodeEventToRequest order ev n) \<and>
        request_fits (dm_schema M) (prepare_request (dm_schema M) (EncodeEventToRequest order ev n)))"

text \<open>The controller reads the payload as the event number \<open>n\<close>.\<close>

definition reads_event :: "data_model \<Rightarrow> bytes \<Rightarrow> u64 \<Rightarrow> usp_event \<Rightarrow> bool" where
  "reads_event M data n ev \<longleftrightarrow> (\<exists>q. DecodeUSPAgentRequest (dm_schema M) data = Inr q \<and> rq_ID q = n \<and> IsEventNotifyRequest q \<and>
     DecodeEventFromRequest (dm_schema M) q = Inr (delivered_event (dm_schema M) ev))"

lemma sent_event_read:
  assumes "carriable M order ev" "EncodeUSPAgentRequest (dm_schema M) (EncodeEventToRequest order ev n) = Inr data"
  shows "reads_event M data n ev"
proof -
  let ?S = "dm_schema M" and ?q = "EncodeEventToRequest order ev n"
  have q: "request_by_path ?S ?q" "request_fits ?S (prepare_request ?S ?q)" using assms(1) by (auto simp: carriable_def)
  define d where "d = resolveFastRequestPaths ?S (delivered_request (prepare_request ?S ?q))"
  have dec: "DecodeUSPAgentRequest ?S data = Inr d"
    using request_read_back [OF q assms(2), of "[]"] by (simp add: remainingAllZero_def d_def)
  note same = prepared_request [OF q(1), folded d_def]
  have ev: "DecodeEventFromRequest ?S ?q = Inr (delivered_event ?S ev)" "rq_ID ?q = n" "IsEventNotifyRequest ?q"
    using assms(1) by (auto simp: carriable_def intro!: event_request)
  have "DecodeEventFromRequest ?S d = DecodeEventFromRequest ?S ?q"
    using same encoded_object_path [of order ev n] by (intro decode_event_cong) auto
  moreover have "IsEventNotifyRequest d" "rq_ID d = n" using same ev by (auto simp: IsEventNotifyRequest_def)
  ultimately show ?thesis using dec ev by (auto simp: reads_event_def)
qed

section \<open>Emission\<close>

abbreviation recording :: "bytes \<Rightarrow> bytes list \<Rightarrow> backend_error option \<times> bytes list" where
  "recording data w \<equiv> (None, w @ [data])"

lemma send_each_recorded:
  assumes "list_all (carriable M (vo_params V)) evs" "\<forall>ev \<in> set evs. event_refusal M (vo_params V) ev = None"
  shows "\<exists>sent. send_each M V recording evs n w = (None, n + of_nat (length evs), w @ sent) \<and> length sent = length evs \<and>
    (\<forall>i < length evs. reads_event M (sent ! i) (n + of_nat (Suc i)) (evs ! i))"
  using assms
proof (induction evs arbitrary: n w)
  case (Cons ev evs)
  let ?q = "EncodeEventToRequest (vo_params V) ev (n + 1)"
  obtain data where data: "EncodeUSPAgentRequest (dm_schema M) ?q = Inr data"
    using Cons.prems(2) by (simp add: encoded_or_refused)
  have first: "reads_event M data (n + 1) ev" using Cons.prems by (intro sent_event_read [OF _ data]) simp
  obtain sent where sent: "send_each M V recording evs (n + 1) (w @ [data]) = (None, n + 1 + of_nat (length evs), (w @ [data]) @ sent)"
    "length sent = length evs" "\<forall>i < length evs. reads_event M (sent ! i) (n + 1 + of_nat (Suc i)) (evs ! i)"
    using Cons.IH [of "n + 1" "w @ [data]"] Cons.prems by auto
  have "send_each M V recording (ev # evs) n w = (None, n + of_nat (length (ev # evs)), w @ data # sent)"
    using data sent(1) by (simp add: sendEventWire_def Let_def add.assoc)
  moreover have "\<forall>i < length (ev # evs). reads_event M ((data # sent) ! i) (n + of_nat (Suc i)) ((ev # evs) ! i)"
    using first sent(3) by (auto simp: less_Suc_eq_0_disj add.assoc)
  ultimately show ?case using sent(2) by (intro exI [of _ "data # sent"]) auto
qed simp

text \<open>The notifications of an event: one for each matching subscription, or a single untagged one.\<close>

definition notifications :: "'w visit_order \<Rightarrow> 'w usp_agent \<Rightarrow> usp_event \<Rightarrow> usp_event list" where
  "notifications V A ev =
     (let matching = matching_subscriptions V A ev in
      if matching = [] then [ev] else map (\<lambda>sub. ev\<lparr>ev_SubscriptionID := sub_ID sub\<rparr>) matching)"

lemma call_no_handlers: "\<forall>sub \<in> set subs. sub_Handler sub = None \<Longrightarrow> call_handlers ev subs w = (None, w)"
  by (induction subs) auto

lemma notifications_refusal:
  "notifications V A ev \<noteq> []" "e \<in> set (notifications V A ev) \<Longrightarrow> event_refusal M order e = event_refusal M order ev"
  by (auto simp: notifications_def Let_def same_refusal split: if_splits)

text \<open>
  C20. What becomes of an emitted event, when no in-process handler interferes, the sender takes what it is given and the
  wire format can carry the notifications. If the encoder does not refuse the event, \<^verbatim>\<open>Emit\<close> succeeds and hands over one
  payload per matching subscription, or a single one when nothing matches; the payloads carry consecutive request
  numbers, and the controller decodes from each of them a request that is an event notification and, from that, the event
  with the id of the subscription. If the encoder refuses it, \<^verbatim>\<open>Emit\<close> returns that error and nothing is sent; and a single
  parameter whose name is not a path of the schema is enough for a refusal.
\<close>
theorem emitted_event_arrives:
  fixes A :: "bytes list usp_agent"
  assumes "ag_eventSender A = Some (\<lambda>data w. (None, w @ [data]))"
    "\<forall>sub \<in> set (matching_subscriptions V A ev). sub_Handler sub = None"
    "\<forall>e \<in> set (notifications V A ev). carriable M (vo_params V) e"
  shows "(case event_refusal M (vo_params V) ev of
      None \<Rightarrow> \<exists>sent. Emit M V ev A w =
          (None, A\<lparr>ag_nextEventID := ag_nextEventID A + of_nat (length (notifications V A ev))\<rparr>, w @ sent) \<and>
        length sent = length (notifications V A ev) \<and>
        (\<forall>i < length sent. reads_event M (sent ! i) (ag_nextEventID A + of_nat (i + 1)) (notifications V A ev ! i))
    | Some e \<Rightarrow> Emit M V ev A w = (Some (EncodeFailed e), A\<lparr>ag_nextEventID := ag_nextEventID A + 1\<rparr>, w)) \<and>
    (\<forall>m f. rq_Message (EncodeEventToRequest (vo_params V) ev 0) = Some m \<and> f \<in> set (m_Fields m) \<and>
       lookupSafeParam (dm_schema M) (f_Path f) = None \<longrightarrow> event_refusal M (vo_params V) ev \<noteq> None)"
proof (intro conjI)
  have handlers: "call_handlers ev (matching_subscriptions V A ev) w = (None, w)" by (rule call_no_handlers [OF assms(2)])
  show "case event_refusal M (vo_params V) ev of
      None \<Rightarrow> \<exists>sent. Emit M V ev A w =
          (None, A\<lparr>ag_nextEventID := ag_nextEventID A + of_nat (length (notifications V A ev))\<rparr>, w @ sent) \<and>
        length sent = length (notifications V A ev) \<and>
        (\<forall>i < length sent. reads_event M (sent ! i) (ag_nextEventID A + of_nat (i + 1)) (notifications V A ev ! i))
    | Some e \<Rightarrow> Emit M V ev A w = (Some (EncodeFailed e), A\<lparr>ag_nextEventID := ag_nextEventID A + 1\<rparr>, w)"
  proof (cases "event_refusal M (vo_params V) ev")
    case None
    have "list_all (carriable M (vo_params V)) (notifications V A ev)" using assms(3) by (simp add: list_all_iff)
    moreover have "\<forall>e \<in> set (notifications V A ev). event_refusal M (vo_params V) e = None"
      using None notifications_refusal(2) by metis
    ultimately obtain sent where "send_each M V recording (notifications V A ev) (ag_nextEventID A) w =
        (None, ag_nextEventID A + of_nat (length (notifications V A ev)), w @ sent)" "length sent = length (notifications V A ev)"
      "\<forall>i < length (notifications V A ev). reads_event M (sent ! i) (ag_nextEventID A + of_nat (Suc i)) (notifications V A ev ! i)"
      using send_each_recorded by blast
    then show ?thesis
      using assms(1) handlers unfolding None option.case by (intro exI [of _ sent]) (simp add: Emit_def Let_def notifications_def)
  next
    case (Some e)
    obtain n1 ns where n: "notifications V A ev = n1 # ns" using notifications_refusal(1) by (cases "notifications V A ev") auto
    have "event_refusal M (vo_params V) n1 = Some e" using Some notifications_refusal(2) n by (metis list.set_intros(1))
    then have "send_each M V recording (notifications V A ev) (ag_nextEventID A) w = (Some (EncodeFailed e), ag_nextEventID A + 1, w)"
      by (simp add: n sendEventWire_def Let_def encoded_or_refused)
    then show ?thesis using assms(1) handlers Some by (simp add: Emit_def Let_def notifications_def)
  qed
  show "\<forall>m f. rq_Message (EncodeEventToRequest (vo_params V) ev 0) = Some m \<and> f \<in> set (m_Fields m) \<and>
       lookupSafeParam (dm_schema M) (f_Path f) = None \<longrightarrow> event_refusal M (vo_params V) ev \<noteq> None"
    using unknown_field_refused by blast
qed

text \<open>An agent with two subscriptions, of which one asks for deletions.\<close>

definition ex_sub :: "bytes \<Rightarrow> byte list \<Rightarrow> bytes list usp_subscription" where
  "ex_sub name types = \<lparr>sub_ID = name, sub_Types = types, sub_PathFilter = [], sub_EventFilter = [], sub_Handler = None\<rparr>"

definition ex_subscribed :: "bytes list usp_agent" where
  "ex_subscribed = (NewUSPAgent [] None None None None None None (Some (\<lambda>data w. (None, w @ [data]))))
     \<lparr>ag_subscriptions := [(ascii ''a'', ex_sub (ascii ''a'') [USPEventTypeObjectDeletion]), (ascii ''b'', ex_sub (ascii ''b'') [USPEventTypeEvent])]\<rparr>"

definition ex_visit :: "bytes list visit_order" where
  "ex_visit = \<lparr>vo_params = (\<lambda>m. m), vo_subscriptions = (\<lambda>s. s)\<rparr>"

lemma ex_matching: "matching_subscriptions ex_visit ex_subscribed (new_event 4 ex_object) = [ex_sub (ascii ''a'') [4]]"
  by (simp add: matching_subscriptions_def ex_visit_def ex_subscribed_def subscriptionMatches_def ex_sub_def new_event_def)

lemma ex_notification:
  "EncodeEventToRequest order ((new_event 4 ex_object)\<lparr>ev_SubscriptionID := ascii ''a''\<rparr>) n =
     notify_request n [] ex_object None [(ascii ''event_type'', ascii ''4''), (ascii ''subscription_id'', ascii ''a'')]"
  by (simp add: EncodeEventToRequest_def Let_def new_event_def event_payload_def put_given_def ex_paths isObjectPath_def eventMetaType_def
      eventMetaSubID_def nat_digits.simps)

lemma ex_carriable: "carriable ex_model (vo_params ex_visit) ((new_event 4 ex_object)\<lparr>ev_SubscriptionID := ascii ''a''\<rparr>)"
proof -
  have m: "dm_schema ex_model = ex_transport" by (simp add: ex_model_def)
  have p: "prepare_request ex_transport (notify_request n [] ex_object None meta) = notify_request n [] ex_object None meta" for n meta
    by (simp add: prepare_request_def notify_request_def compactRequestSelectors_def compact_paths_def compact_object_def
        strictResolvedObjectCode_def ex_transport_fields ex_paths Let_def)
  show ?thesis unfolding carriable_def m ex_notification p
    by (simp add: new_event_def ex_visit_def md_ok_def request_by_path_def addressed_def notify_request_def isObjectPath_def ex_paths
        request_fits_def selectors_def selector_instances_def metadata_ok_def validateUSPAgentRequest_def validate_method_def
        validateUSPAgentRequestMessage_def reversible_def ex_transport_fields allocatable_def maxAlloc_def)
qed

lemma ex_accepted: "event_refusal ex_model (vo_params ex_visit) (new_event 4 ex_object) = None"
proof -
  have m: "dm_schema ex_model = ex_transport" by (simp add: ex_model_def)
  have "prepare_request ex_transport (EncodeEventToRequest order (new_event 4 ex_object) 0) = EncodeEventToRequest order (new_event 4 ex_object) 0" for order
    by (simp add: EncodeEventToRequest_def Let_def new_event_def event_payload_def put_given_def ex_paths isObjectPath_def
        prepare_request_def notify_request_def compactRequestSelectors_def compact_paths_def compact_object_def
        strictResolvedObjectCode_def ex_transport_fields)
  then show ?thesis
    by (simp add: event_refusal_def m EncodeEventToRequest_def Let_def new_event_def event_payload_def put_given_def ex_paths isObjectPath_def
        notify_request_def validateUSPAgentRequest_def validateUSPAgentRequestMessage_def validate_method_def)
qed

theorem emitted_event_arrives_witness:
  "\<exists>data. Emit ex_model ex_visit (new_event USPEventTypeObjectDeletion ex_object) ex_subscribed [] =
      (None, ex_subscribed\<lparr>ag_nextEventID := 1\<rparr>, [data]) \<and>
    reads_event ex_model data 1 ((new_event USPEventTypeObjectDeletion ex_object)\<lparr>ev_SubscriptionID := ascii ''a''\<rparr>)"
proof -
  have n: "notifications ex_visit ex_subscribed (new_event 4 ex_object) = [(new_event 4 ex_object)\<lparr>ev_SubscriptionID := ascii ''a''\<rparr>]"
    by (simp add: notifications_def ex_matching) (simp add: ex_sub_def)
  have "ag_eventSender ex_subscribed = Some (\<lambda>data w. (None, w @ [data]))" "ag_nextEventID ex_subscribed = 0"
    by (simp_all add: ex_subscribed_def NewUSPAgent_def)
  then show ?thesis
    using emitted_event_arrives [of ex_subscribed ex_visit "new_event 4 ex_object" ex_model "[]"] ex_carriable ex_accepted
    unfolding n ex_matching by (fastforce simp: length_Suc_conv ex_sub_def)
qed

end
