(* ===== verification/Noise_Messages.thy ===== *)
theory Noise_Messages
  imports Go_Strings
begin

text \<open>
  The messages of the WireGuard handshake as bytes (\<^verbatim>\<open>noise-protocol.go\<close>), the key derivation of
  \<^verbatim>\<open>noise-helpers.go\<close> and the timestamps of \<^verbatim>\<open>tai64n/tai64n.go\<close>. The primitives of
  \<^verbatim>\<open>golang.org/x/crypto\<close> are the functions of a record \<open>crypto\<close>; \<open>crypto_ok\<close> states what their
  documentation promises. Fixed-size arrays are byte lists, and the predicates \<open>wf\<close> say what Go's array types
  guarantee about their lengths.
\<close>

section \<open>Primitives\<close>

record crypto =
  cr_Sum256 :: "bytes \<Rightarrow> bytes"
  cr_Sum128 :: "bytes \<Rightarrow> bytes \<Rightarrow> bytes"
  cr_ScalarBaseMult :: "bytes \<Rightarrow> bytes"
  cr_ScalarMult :: "bytes \<Rightarrow> bytes \<Rightarrow> bytes"
  cr_Seal :: "bytes \<Rightarrow> bytes \<Rightarrow> bytes \<Rightarrow> bytes \<Rightarrow> bytes"
  cr_Open :: "bytes \<Rightarrow> bytes \<Rightarrow> bytes \<Rightarrow> bytes \<Rightarrow> bytes option"
  cr_SealX :: "bytes \<Rightarrow> bytes \<Rightarrow> bytes \<Rightarrow> bytes \<Rightarrow> bytes"
  cr_OpenX :: "bytes \<Rightarrow> bytes \<Rightarrow> bytes \<Rightarrow> bytes \<Rightarrow> bytes option"

text \<open>
  \<^verbatim>\<open>blake2s\<close> returns 32 bytes, or 16 bytes when it is keyed; X25519 is commutative and returns 32 bytes; an AEAD
  with key, nonce, plaintext and additional data adds a tag of 16 bytes and opens what it sealed.
\<close>

definition crypto_ok :: "crypto \<Rightarrow> bool" where
  "crypto_ok C \<longleftrightarrow>
     (\<forall>d. length (cr_Sum256 C d) = 32) \<and> (\<forall>k d. length (cr_Sum128 C k d) = 16) \<and>
     (\<forall>a. length (cr_ScalarBaseMult C a) = 32) \<and> (\<forall>a p. length (cr_ScalarMult C a p) = 32) \<and>
     (\<forall>a b. cr_ScalarMult C a (cr_ScalarBaseMult C b) = cr_ScalarMult C b (cr_ScalarBaseMult C a)) \<and>
     (\<forall>k n d a. length (cr_Seal C k n d a) = length d + 16 \<and> cr_Open C k n (cr_Seal C k n d a) a = Some d) \<and>
     (\<forall>k n d a. length (cr_SealX C k n d a) = length d + 16 \<and> cr_OpenX C k n (cr_SealX C k n d a) a = Some d)"

lemma crypto_okD:
  assumes "crypto_ok C"
  shows "length (cr_Sum256 C d) = 32" "length (cr_Sum128 C k d) = 16" "length (cr_ScalarBaseMult C a) = 32"
    "length (cr_ScalarMult C a p) = 32" "length (cr_Seal C k n d x) = length d + 16"
    "length (cr_SealX C k n d x) = length d + 16" "cr_Open C k n (cr_Seal C k n d x) x = Some d"
    "cr_OpenX C k n (cr_SealX C k n d x) x = Some d"
  using assms by (auto simp: crypto_ok_def)

lemma crypto_comm: "crypto_ok C \<Longrightarrow> cr_ScalarMult C a (cr_ScalarBaseMult C b) = cr_ScalarMult C b (cr_ScalarBaseMult C a)"
  by (auto simp: crypto_ok_def)

section \<open>Key derivation\<close>

text \<open>\<^verbatim>\<open>crypto/hmac\<close> over blake2s, whose blocks have 64 bytes.\<close>

definition hmac_blake2s :: "crypto \<Rightarrow> bytes \<Rightarrow> bytes \<Rightarrow> bytes" where
  "hmac_blake2s C key d =
     (let k = (if 64 < length key then cr_Sum256 C key else key); block = k @ replicate (64 - length k) 0 in
      cr_Sum256 C (map (\<lambda>b. b XOR 0x5C) block @ cr_Sum256 C (map (\<lambda>b. b XOR 0x36) block @ d)))"

definition HMAC1 :: "crypto \<Rightarrow> bytes \<Rightarrow> bytes \<Rightarrow> bytes" where
  "HMAC1 C key in0 = hmac_blake2s C key in0"

definition HMAC2 :: "crypto \<Rightarrow> bytes \<Rightarrow> bytes \<Rightarrow> bytes \<Rightarrow> bytes" where
  "HMAC2 C key in0 in1 = hmac_blake2s C key (in0 @ in1)"

definition KDF1 :: "crypto \<Rightarrow> bytes \<Rightarrow> bytes \<Rightarrow> bytes" where
  "KDF1 C key input = HMAC1 C (HMAC1 C key input) [1]"

definition KDF2 :: "crypto \<Rightarrow> bytes \<Rightarrow> bytes \<Rightarrow> bytes \<times> bytes" where
  "KDF2 C key input =
     (let prk = HMAC1 C key input; t0 = HMAC1 C prk [1]; t1 = HMAC2 C prk t0 [2] in (t0, t1))"

definition KDF3 :: "crypto \<Rightarrow> bytes \<Rightarrow> bytes \<Rightarrow> bytes \<times> bytes \<times> bytes" where
  "KDF3 C key input =
     (let prk = HMAC1 C key input; t0 = HMAC1 C prk [1]; t1 = HMAC2 C prk t0 [2]; t2 = HMAC2 C prk t1 [3] in (t0, t1, t2))"

definition isZero :: "bytes \<Rightarrow> bool" where
  "isZero v = list_all (\<lambda>b. b = 0) v"

definition clamp :: "bytes \<Rightarrow> bytes" where
  "clamp sk = sk[0 := sk ! 0 AND 248, 31 := (sk ! 31 AND 127) OR 64]"

text \<open>The random bytes of \<^verbatim>\<open>rand.Read\<close>, or its failure; the key is clamped either way.\<close>

definition newPrivateKey :: "bytes \<times> bool \<Rightarrow> bytes \<times> bool" where
  "newPrivateKey random = (clamp (fst random), snd random)"

definition key_publicKey :: "crypto \<Rightarrow> bytes \<Rightarrow> bytes" where
  "key_publicKey C sk = cr_ScalarBaseMult C sk"

text \<open>The shared secret, and whether it is valid.\<close>

definition sharedSecret :: "crypto \<Rightarrow> bytes \<Rightarrow> bytes \<Rightarrow> bytes \<times> bool" where
  "sharedSecret C sk pk = (let ss = cr_ScalarMult C sk pk in (ss, \<not> isZero ss))"

definition mixKey :: "crypto \<Rightarrow> bytes \<Rightarrow> bytes \<Rightarrow> bytes" where
  "mixKey C c d = KDF1 C c d"

definition mixHash :: "crypto \<Rightarrow> bytes \<Rightarrow> bytes \<Rightarrow> bytes" where
  "mixHash C h d = cr_Sum256 C (h @ d)"

definition NoiseConstruction :: bytes where "NoiseConstruction = ascii ''Noise_IKpsk2_25519_ChaChaPoly_BLAKE2s''"
definition WGIdentifier :: bytes where "WGIdentifier = ascii ''WireGuard v1 zx2c4 Jason@zx2c4.com''"
definition WGLabelMAC1 :: bytes where "WGLabelMAC1 = ascii ''mac1----''"
definition WGLabelCookie :: bytes where "WGLabelCookie = ascii ''cookie--''"

definition InitialChainKey :: "crypto \<Rightarrow> bytes" where
  "InitialChainKey C = cr_Sum256 C NoiseConstruction"

definition InitialHash :: "crypto \<Rightarrow> bytes" where
  "InitialHash C = mixHash C (InitialChainKey C) WGIdentifier"

definition ZeroNonce :: bytes where "ZeroNonce = replicate 12 0"

section \<open>Timestamps\<close>

definition tai64n_base :: u64 where "tai64n_base = 0x400000000000000A"
definition whitenerMask :: u32 where "whitenerMask = 0xFFFFFF"

definition stamp :: "time \<Rightarrow> bytes" where
  "stamp t =
     (let secs = tai64n_base + word_of_int (t div 1000000000); nano = word_of_int (t mod 1000000000) AND NOT whitenerMask in
      put_be 8 secs @ put_be 4 nano)"

definition After :: "bytes \<Rightarrow> bytes \<Rightarrow> bool" where
  "After t1 t2 \<longleftrightarrow> t2 < t1"

lemma length_stamp [simp]: "length (stamp t) = 12"
  by (simp add: stamp_def Let_def)

section \<open>Messages\<close>

abbreviation (input) MessageInitiationType :: u32 where "MessageInitiationType \<equiv> 1"
abbreviation (input) MessageResponseType :: u32 where "MessageResponseType \<equiv> 2"
abbreviation (input) MessageCookieReplyType :: u32 where "MessageCookieReplyType \<equiv> 3"
abbreviation (input) MessageTransportType :: u32 where "MessageTransportType \<equiv> 4"
abbreviation (input) MessagePunchType :: u32 where "MessagePunchType \<equiv> 6"
abbreviation (input) MessageTUNControlType :: u32 where "MessageTUNControlType \<equiv> 7"
abbreviation (input) MessageWUSPType :: u32 where "MessageWUSPType \<equiv> 8"
abbreviation (input) MessageP2PControlType :: u32 where "MessageP2PControlType \<equiv> 9"

abbreviation (input) MessageInitiationSize :: nat where "MessageInitiationSize \<equiv> 148"
abbreviation (input) MessageResponseSize :: nat where "MessageResponseSize \<equiv> 92"
abbreviation (input) MessageCookieReplySize :: nat where "MessageCookieReplySize \<equiv> 64"
abbreviation (input) MessageTransportHeaderSize :: nat where "MessageTransportHeaderSize \<equiv> 16"
abbreviation (input) MessagePunchSize :: nat where "MessagePunchSize \<equiv> 56"

record message_initiation =
  mi_Type :: u32
  mi_Sender :: u32
  mi_Ephemeral :: bytes
  mi_Static :: bytes
  mi_Timestamp :: bytes
  mi_MAC1 :: bytes
  mi_MAC2 :: bytes

record message_response =
  mr_Type :: u32
  mr_Sender :: u32
  mr_Receiver :: u32
  mr_Ephemeral :: bytes
  mr_Empty :: bytes
  mr_MAC1 :: bytes
  mr_MAC2 :: bytes

record message_cookie_reply =
  mc_Type :: u32
  mc_Receiver :: u32
  mc_Nonce :: bytes
  mc_Cookie :: bytes

record message_stats =
  ms_Type :: u32
  ms_Receiver :: u32
  ms_Counter :: u64
  ms_Stats :: bytes

record message_punch =
  mp_Type :: u32
  mp_Receiver :: u32
  mp_Sender :: u32
  mp_Timestamp :: bytes
  mp_MAC1 :: bytes
  mp_MAC2 :: bytes

definition initiation_unmarshal :: "bytes \<Rightarrow> message_initiation option" where
  "initiation_unmarshal b =
     (if length b \<noteq> MessageInitiationSize then None
      else Some \<lparr>mi_Type = get_le (slice 0 4 b), mi_Sender = get_le (slice 4 8 b), mi_Ephemeral = slice 8 40 b,
        mi_Static = slice 40 88 b, mi_Timestamp = slice 88 116 b, mi_MAC1 = slice 116 132 b, mi_MAC2 = slice 132 148 b\<rparr>)"

definition initiation_marshal :: "message_initiation \<Rightarrow> bytes \<Rightarrow> bytes option" where
  "initiation_marshal m b =
     (if length b \<noteq> MessageInitiationSize then None
      else Some (put_le 4 (mi_Type m) @ put_le 4 (mi_Sender m) @ mi_Ephemeral m @ mi_Static m @ mi_Timestamp m @
        mi_MAC1 m @ mi_MAC2 m))"

definition response_unmarshal :: "bytes \<Rightarrow> message_response option" where
  "response_unmarshal b =
     (if length b \<noteq> MessageResponseSize then None
      else Some \<lparr>mr_Type = get_le (slice 0 4 b), mr_Sender = get_le (slice 4 8 b), mr_Receiver = get_le (slice 8 12 b),
        mr_Ephemeral = slice 12 44 b, mr_Empty = slice 44 60 b, mr_MAC1 = slice 60 76 b, mr_MAC2 = slice 76 92 b\<rparr>)"

definition response_marshal :: "message_response \<Rightarrow> bytes \<Rightarrow> bytes option" where
  "response_marshal m b =
     (if length b \<noteq> MessageResponseSize then None
      else Some (put_le 4 (mr_Type m) @ put_le 4 (mr_Sender m) @ put_le 4 (mr_Receiver m) @ mr_Ephemeral m @ mr_Empty m @
        mr_MAC1 m @ mr_MAC2 m))"

definition cookie_unmarshal :: "bytes \<Rightarrow> message_cookie_reply option" where
  "cookie_unmarshal b =
     (if length b \<noteq> MessageCookieReplySize then None
      else Some \<lparr>mc_Type = get_le (slice 0 4 b), mc_Receiver = get_le (slice 4 8 b), mc_Nonce = slice 8 32 b,
        mc_Cookie = slice 32 64 b\<rparr>)"

definition cookie_marshal :: "message_cookie_reply \<Rightarrow> bytes \<Rightarrow> bytes option" where
  "cookie_marshal m b =
     (if length b \<noteq> MessageCookieReplySize then None
      else Some (put_le 4 (mc_Type m) @ put_le 4 (mc_Receiver m) @ mc_Nonce m @ mc_Cookie m))"

definition stats_unmarshal :: "bytes \<Rightarrow> message_stats option" where
  "stats_unmarshal b =
     (if length b < MessageTransportHeaderSize then None
      else Some \<lparr>ms_Type = get_le (slice 0 4 b), ms_Receiver = get_le (slice 4 8 b), ms_Counter = get_le (slice 8 16 b),
        ms_Stats = drop 16 b\<rparr>)"

definition stats_marshal :: "message_stats \<Rightarrow> bytes \<Rightarrow> bytes option" where
  "stats_marshal m b =
     (if length b < MessageTransportHeaderSize then None
      else Some (put_le 4 (ms_Type m) @ put_le 4 (ms_Receiver m) @ put_le 8 (ms_Counter m) @ copy_into (drop 16 b) (ms_Stats m)))"

definition punch_unmarshal :: "bytes \<Rightarrow> message_punch option" where
  "punch_unmarshal b =
     (if length b \<noteq> MessagePunchSize then None
      else Some \<lparr>mp_Type = get_le (slice 0 4 b), mp_Receiver = get_le (slice 4 8 b), mp_Sender = get_le (slice 8 12 b),
        mp_Timestamp = slice 12 24 b, mp_MAC1 = slice 24 40 b, mp_MAC2 = slice 40 56 b\<rparr>)"

definition punch_marshal :: "message_punch \<Rightarrow> bytes \<Rightarrow> bytes option" where
  "punch_marshal m b =
     (if length b \<noteq> MessagePunchSize then None
      else Some (put_le 4 (mp_Type m) @ put_le 4 (mp_Receiver m) @ put_le 4 (mp_Sender m) @ mp_Timestamp m @
        mp_MAC1 m @ mp_MAC2 m))"

definition wf_initiation :: "message_initiation \<Rightarrow> bool" where
  "wf_initiation m \<longleftrightarrow> length (mi_Ephemeral m) = 32 \<and> length (mi_Static m) = 48 \<and> length (mi_Timestamp m) = 28 \<and>
     length (mi_MAC1 m) = 16 \<and> length (mi_MAC2 m) = 16"

definition wf_response :: "message_response \<Rightarrow> bool" where
  "wf_response m \<longleftrightarrow> length (mr_Ephemeral m) = 32 \<and> length (mr_Empty m) = 16 \<and> length (mr_MAC1 m) = 16 \<and> length (mr_MAC2 m) = 16"

definition wf_cookie :: "message_cookie_reply \<Rightarrow> bool" where
  "wf_cookie m \<longleftrightarrow> length (mc_Nonce m) = 24 \<and> length (mc_Cookie m) = 32"

definition wf_punch :: "message_punch \<Rightarrow> bool" where
  "wf_punch m \<longleftrightarrow> length (mp_Timestamp m) = 12 \<and> length (mp_MAC1 m) = 16 \<and> length (mp_MAC2 m) = 16"

section \<open>The codecs\<close>

abbreviation (input) initiation_bytes where "initiation_bytes m \<equiv> the (initiation_marshal m (replicate 148 0))"
abbreviation (input) response_bytes where "response_bytes m \<equiv> the (response_marshal m (replicate 92 0))"
abbreviation (input) cookie_bytes where "cookie_bytes m \<equiv> the (cookie_marshal m (replicate 64 0))"
abbreviation (input) punch_bytes where "punch_bytes m \<equiv> the (punch_marshal m (replicate 56 0))"

interpretation initiation: wire_codec wf_initiation initiation_bytes initiation_unmarshal
proof
  fix m :: message_initiation
  assume "wf_initiation m"
  then show "initiation_unmarshal (initiation_bytes m) = Some m"
    by (cases m) (simp add: wf_initiation_def initiation_marshal_def initiation_unmarshal_def slice_def codec_rt)
qed

interpretation response: wire_codec wf_response response_bytes response_unmarshal
proof
  fix m :: message_response
  assume "wf_response m"
  then show "response_unmarshal (response_bytes m) = Some m"
    by (cases m) (simp add: wf_response_def response_marshal_def response_unmarshal_def slice_def codec_rt)
qed

interpretation cookie: wire_codec wf_cookie cookie_bytes cookie_unmarshal
proof
  fix m :: message_cookie_reply
  assume "wf_cookie m"
  then show "cookie_unmarshal (cookie_bytes m) = Some m"
    by (cases m) (simp add: wf_cookie_def cookie_marshal_def cookie_unmarshal_def slice_def codec_rt)
qed

interpretation punch: wire_codec wf_punch punch_bytes punch_unmarshal
proof
  fix m :: message_punch
  assume "wf_punch m"
  then show "punch_unmarshal (punch_bytes m) = Some m"
    by (cases m) (simp add: wf_punch_def punch_marshal_def punch_unmarshal_def slice_def codec_rt)
qed

lemma stats_roundtrip: "stats_unmarshal (the (stats_marshal m (replicate (16 + length (ms_Stats m)) 0))) = Some m"
  by (cases m) (simp add: stats_marshal_def stats_unmarshal_def slice_def codec_rt copy_into_def)

section \<open>An instance of the primitives\<close>

text \<open>Functions that satisfy \<open>crypto_ok\<close> without being secure, for concrete runs.\<close>

definition padded_to :: "nat \<Rightarrow> bytes \<Rightarrow> bytes" where
  "padded_to n d = take n (d @ replicate n 0)"

definition ex_crypto :: crypto where
  "ex_crypto =
     \<lparr>cr_Sum256 = padded_to 32, cr_Sum128 = (\<lambda>k d. padded_to 16 (k @ d)), cr_ScalarBaseMult = padded_to 32,
      cr_ScalarMult = (\<lambda>a p. map2 (+) (padded_to 32 a) (padded_to 32 p)),
      cr_Seal = (\<lambda>k n d a. d @ replicate 16 0), cr_Open = (\<lambda>k n d a. if length d < 16 then None else Some (take (length d - 16) d)),
      cr_SealX = (\<lambda>k n d a. d @ replicate 16 0), cr_OpenX = (\<lambda>k n d a. if length d < 16 then None else Some (take (length d - 16) d))\<rparr>"

lemma length_padded_to [simp]: "length (padded_to n d) = n"
  by (simp add: padded_to_def)

lemma padded_to_idem [simp]: "padded_to n (padded_to n d) = padded_to n d"
  by (simp add: padded_to_def)

lemma ex_crypto_ok: "crypto_ok ex_crypto"
proof -
  have "map2 (+) xs ys = map2 (+) ys (xs :: bytes)" if "length xs = length ys" for xs ys
    using that by (induction xs ys rule: list_induct2) (auto simp: add.commute)
  then show ?thesis by (simp add: crypto_ok_def ex_crypto_def)
qed

end
