(* ===== verification/Noise_Cookie.thy ===== *)
theory Noise_Cookie
  imports Noise_Messages
begin

text \<open>
  The MAC fields of handshake messages and the cookies that a device under load asks for (\<^verbatim>\<open>cookie.go\<close>). Times
  are the readings of the clock; random bytes come with the flag whether \<^verbatim>\<open>rand.Read\<close> succeeded. The functions are
  called on initiation and response messages, which have at least the 32 bytes of the two MAC fields.
\<close>

definition CookieRefreshTime :: duration where "CookieRefreshTime = 120 * second"

record cookie_checker =
  cc_mac1_key :: bytes
  cc_secret :: bytes
  cc_secretSet :: time
  cc_encryptionKey :: bytes

record cookie_generator =
  cg_mac1_key :: bytes
  cg_cookie :: bytes
  cg_cookieSet :: time
  cg_hasLastMAC1 :: bool
  cg_lastMAC1 :: bytes
  cg_encryptionKey :: bytes

definition CookieChecker_Init :: "crypto \<Rightarrow> bytes \<Rightarrow> cookie_checker \<Rightarrow> cookie_checker" where
  "CookieChecker_Init C pk st =
     st\<lparr>cc_mac1_key := cr_Sum256 C (WGLabelMAC1 @ pk), cc_encryptionKey := cr_Sum256 C (WGLabelCookie @ pk), cc_secretSet := time_zero\<rparr>"

definition CookieGenerator_Init :: "crypto \<Rightarrow> bytes \<Rightarrow> cookie_generator \<Rightarrow> cookie_generator" where
  "CookieGenerator_Init C pk st =
     st\<lparr>cg_mac1_key := cr_Sum256 C (WGLabelMAC1 @ pk), cg_encryptionKey := cr_Sum256 C (WGLabelCookie @ pk), cg_cookieSet := time_zero\<rparr>"

definition CheckMAC1 :: "crypto \<Rightarrow> bytes \<Rightarrow> cookie_checker \<Rightarrow> bool" where
  "CheckMAC1 C msg st =
     (let smac2 = length msg - 16; smac1 = smac2 - 16 in cr_Sum128 C (cc_mac1_key st) (take smac1 msg) = slice smac1 smac2 msg)"

definition CheckMAC2 :: "crypto \<Rightarrow> bytes \<Rightarrow> bytes \<Rightarrow> time \<Rightarrow> cookie_checker \<Rightarrow> bool" where
  "CheckMAC2 C msg src now st =
     (if CookieRefreshTime < time_Sub now (cc_secretSet st) then False
      else let cookie = cr_Sum128 C (cc_secret st) src; smac2 = length msg - 16 in
        cr_Sum128 C cookie (take smac2 msg) = drop smac2 msg)"

definition CreateReply ::
  "crypto \<Rightarrow> bytes \<Rightarrow> u32 \<Rightarrow> bytes \<Rightarrow> time \<Rightarrow> bytes \<times> bool \<Rightarrow> time \<Rightarrow> bytes \<times> bool \<Rightarrow> cookie_checker \<Rightarrow>
   message_cookie_reply option \<times> cookie_checker" where
  "CreateReply C msg recv src now fresh now2 nonce st =
     (let old = CookieRefreshTime < time_Sub now (cc_secretSet st); st1 = (if old then st\<lparr>cc_secret := fst fresh\<rparr> else st) in
      if old \<and> \<not> snd fresh then (None, st1)
      else let st2 = (if old then st1\<lparr>cc_secretSet := now2\<rparr> else st1);
               cookie = cr_Sum128 C (cc_secret st2) src; smac2 = length msg - 16; smac1 = smac2 - 16 in
        if \<not> snd nonce then (None, st2)
        else (Some \<lparr>mc_Type = MessageCookieReplyType, mc_Receiver = recv, mc_Nonce = fst nonce,
               mc_Cookie = cr_SealX C (cc_encryptionKey st2) (fst nonce) cookie (slice smac1 smac2 msg)\<rparr>, st2))"

definition ConsumeReply :: "crypto \<Rightarrow> message_cookie_reply \<Rightarrow> time \<Rightarrow> cookie_generator \<Rightarrow> bool \<times> cookie_generator" where
  "ConsumeReply C msg now st =
     (if \<not> cg_hasLastMAC1 st then (False, st)
      else case cr_OpenX C (cg_encryptionKey st) (mc_Nonce msg) (mc_Cookie msg) (cg_lastMAC1 st) of
        None \<Rightarrow> (False, st)
      | Some cookie \<Rightarrow> (True, st\<lparr>cg_cookieSet := now, cg_cookie := cookie\<rparr>))"

definition AddMacs :: "crypto \<Rightarrow> bytes \<Rightarrow> time \<Rightarrow> cookie_generator \<Rightarrow> bytes \<times> cookie_generator" where
  "AddMacs C msg now st =
     (let smac2 = length msg - 16; smac1 = smac2 - 16;
          mac1 = cr_Sum128 C (cg_mac1_key st) (take smac1 msg);
          msg1 = take smac1 msg @ mac1 @ drop smac2 msg;
          st1 = st\<lparr>cg_lastMAC1 := mac1, cg_hasLastMAC1 := True\<rparr> in
      if CookieRefreshTime < time_Sub now (cg_cookieSet st1) then (msg1, st1)
      else (take smac2 msg1 @ cr_Sum128 C (cg_cookie st1) (take smac2 msg1), st1))"

section \<open>The cookie exchange\<close>

text \<open>The two ends of an exchange hold keys derived from the same public key, the one of the checking device.\<close>

definition checks_for :: "crypto \<Rightarrow> bytes \<Rightarrow> cookie_checker \<Rightarrow> bool" where
  "checks_for C pk st \<longleftrightarrow> cc_mac1_key st = cr_Sum256 C (WGLabelMAC1 @ pk) \<and> cc_encryptionKey st = cr_Sum256 C (WGLabelCookie @ pk)"

definition marks_for :: "crypto \<Rightarrow> bytes \<Rightarrow> cookie_generator \<Rightarrow> bool" where
  "marks_for C pk st \<longleftrightarrow> cg_mac1_key st = cr_Sum256 C (WGLabelMAC1 @ pk) \<and> cg_encryptionKey st = cr_Sum256 C (WGLabelCookie @ pk)"

lemma cookie_keys [simp]:
  "checks_for C pk (CookieChecker_Init C pk st)" "marks_for C pk (CookieGenerator_Init C pk g)"
  "checks_for C pk (snd (CreateReply C msg recv src now fresh now2 nonce st)) = checks_for C pk st"
  "marks_for C pk (snd (ConsumeReply C reply t g)) = marks_for C pk g" "marks_for C pk (snd (AddMacs C msg t g)) = marks_for C pk g"
  by (simp_all add: checks_for_def marks_for_def CookieChecker_Init_def CookieGenerator_Init_def CreateReply_def ConsumeReply_def
      AddMacs_def Let_def split: option.split)

text \<open>What \<^verbatim>\<open>AddMacs\<close> leaves: the message with its MAC fields replaced.\<close>

lemma AddMacs_bytes:
  assumes "crypto_ok C" "32 \<le> length msg"
  shows "length (fst (AddMacs C msg t g)) = length msg"
    "take (length msg - 32) (fst (AddMacs C msg t g)) = take (length msg - 32) msg"
    "slice (length msg - 32) (length msg - 16) (fst (AddMacs C msg t g)) = cr_Sum128 C (cg_mac1_key g) (take (length msg - 32) msg)"
    "cg_lastMAC1 (snd (AddMacs C msg t g)) = cr_Sum128 C (cg_mac1_key g) (take (length msg - 32) msg)"
    "cg_hasLastMAC1 (snd (AddMacs C msg t g))" "cg_cookie (snd (AddMacs C msg t g)) = cg_cookie g"
    "cg_cookieSet (snd (AddMacs C msg t g)) = cg_cookieSet g"
  using assms by (auto simp: AddMacs_def Let_def crypto_okD slice_def)

lemma mac1_accepted:
  assumes "crypto_ok C" "checks_for C pk st" "marks_for C pk g" "32 \<le> length msg"
  shows "CheckMAC1 C (fst (AddMacs C msg t g)) st"
  using assms(2,3) AddMacs_bytes [OF assms(1,4)] by (simp add: CheckMAC1_def checks_for_def marks_for_def)

lemma mac2_accepted:
  assumes "crypto_ok C" "32 \<le> length msg" "time_Sub t (cg_cookieSet g) \<le> CookieRefreshTime"
    "cg_cookie g = cr_Sum128 C (cc_secret st) src" "time_Sub now (cc_secretSet st) \<le> CookieRefreshTime"
  shows "CheckMAC2 C (fst (AddMacs C msg t g)) src now st"
  using assms by (simp add: CheckMAC2_def AddMacs_def Let_def crypto_okD)

text \<open>
  C16. The cookie exchange works: a device under load answers a message with a cookie that the sender of the message
  can open, and every message the sender marks within the next two minutes passes both MAC checks of the
  device for the address the cookie was made for, as long as the device's secret is fresh. The first MAC of a message for
  the device is accepted with or without a cookie.
\<close>
theorem cookie_exchange:
  assumes "crypto_ok C" "checks_for C pk st" "marks_for C pk g" "32 \<le> length msg" "32 \<le> length msg'"
    "AddMacs C msg t0 g = (packet, g1)"
    "CreateReply C packet recv src t1 fresh t1' nonce st = (Some reply, st1)"
    "ConsumeReply C reply t2 g1 = (ok, g2)" "AddMacs C msg' t3 g2 = (packet', g3)"
    "time_Sub t3 t2 \<le> CookieRefreshTime" "time_Sub t4 (cc_secretSet st1) \<le> CookieRefreshTime"
  shows "CheckMAC1 C packet st \<and> ok \<and> CheckMAC1 C packet' st1 \<and> CheckMAC2 C packet' src t4 st1"
proof -
  have keys: "checks_for C pk st1" "marks_for C pk g1" "marks_for C pk g2"
    using assms(2,3,6-8) cookie_keys by (metis snd_conv)+
  have p: "length packet = length msg" "slice (length msg - 32) (length msg - 16) packet = cg_lastMAC1 g1" "cg_hasLastMAC1 g1"
    using AddMacs_bytes [OF assms(1,4), of t0 g] assms(6) by simp_all
  have reply: "mc_Cookie reply = cr_SealX C (cc_encryptionKey st1) (mc_Nonce reply) (cr_Sum128 C (cc_secret st1) src) (cg_lastMAC1 g1)"
    using assms(7) p by (auto simp: CreateReply_def Let_def split: if_splits)
  have "cc_encryptionKey st1 = cg_encryptionKey g1" using keys by (simp add: checks_for_def marks_for_def)
  then have got: "ok" "g2 = g1\<lparr>cg_cookieSet := t2, cg_cookie := cr_Sum128 C (cc_secret st1) src\<rparr>"
    using assms(8) p(3) reply by (auto simp: ConsumeReply_def crypto_okD [OF assms(1)])
  have "CheckMAC1 C packet st" using mac1_accepted [OF assms(1-4), of t0] assms(6) by simp
  moreover have "CheckMAC1 C packet' st1" using mac1_accepted [OF assms(1) keys(1,3) assms(5), of t3] assms(9) by simp
  moreover have "CheckMAC2 C packet' src t4 st1"
    using mac2_accepted [OF assms(1,5), of t3 g2 st1 src t4] assms(9-11) got(2) by simp
  ultimately show ?thesis using got(1) by blast
qed

definition ex_checker :: cookie_checker where
  "ex_checker = CookieChecker_Init ex_crypto [1] \<lparr>cc_mac1_key = [], cc_secret = [], cc_secretSet = 0, cc_encryptionKey = []\<rparr>"

definition ex_generator :: cookie_generator where
  "ex_generator = CookieGenerator_Init ex_crypto [1]
     \<lparr>cg_mac1_key = [], cg_cookie = [], cg_cookieSet = 0, cg_hasLastMAC1 = False, cg_lastMAC1 = [], cg_encryptionKey = []\<rparr>"

theorem cookie_exchange_witness:
  "\<exists>packet g1 reply st1 g2 packet' g3. AddMacs ex_crypto (replicate 148 0) 0 ex_generator = (packet, g1) \<and>
     CreateReply ex_crypto packet 7 [127, 0, 0, 1] 1 ([5], True) 2 ([6], True) ex_checker = (Some reply, st1) \<and>
     ConsumeReply ex_crypto reply 3 g1 = (True, g2) \<and> AddMacs ex_crypto (replicate 148 0) 4 g2 = (packet', g3) \<and>
     CheckMAC2 ex_crypto packet' [127, 0, 0, 1] 5 st1"
proof -
  let ?C = ex_crypto and ?msg = "replicate 148 (0 :: byte)" and ?src = "[127, 0, 0, 1 :: byte]"
  obtain packet g1 where a: "AddMacs ?C ?msg 0 ex_generator = (packet, g1)" by fastforce
  obtain reply st1 where b: "CreateReply ?C packet 7 ?src 1 ([5], True) 2 ([6], True) ex_checker = (Some reply, st1)"
    and set: "cc_secretSet st1 = 2"
    by (simp add: CreateReply_def Let_def ex_checker_def CookieChecker_Init_def CookieRefreshTime_def time_zero_def time_Sub_def
        max_duration_def)
  obtain ok g2 where c: "ConsumeReply ?C reply 3 g1 = (ok, g2)" by fastforce
  obtain packet' g3 where d: "AddMacs ?C ?msg 4 g2 = (packet', g3)" by fastforce
  have "CheckMAC1 ?C packet ex_checker \<and> ok \<and> CheckMAC1 ?C packet' st1 \<and> CheckMAC2 ?C packet' ?src 5 st1"
    by (rule cookie_exchange [where pk = "[1]", OF ex_crypto_ok _ _ _ _ a b c d])
      (simp_all add: ex_checker_def ex_generator_def set CookieRefreshTime_def time_Sub_def max_duration_def)
  moreover from this have "ConsumeReply ?C reply 3 g1 = (True, g2)" using c by simp
  ultimately show ?thesis using a b d by blast
qed

end
