(* ===== verification/Replay_Filter.thy ===== *)
theory Replay_Filter
  imports Wan_Prelude
begin

text \<open>
  The anti-replay filter of \<^verbatim>\<open>internal/device/wireguard-go/replay/replay.go\<close> (RFC 6479): a ring of 128
  blocks of 64 bits that remembers which counters of a sliding window were accepted. It refines the
  filter that keeps the set of all accepted counters.
\<close>

definition blockBitLog :: nat where "blockBitLog = 6"
definition ringBlocks :: u64 where "ringBlocks = 128"
definition windowSize :: u64 where "windowSize = 8128"
definition blockMask :: u64 where "blockMask = 127"
definition bitMask :: u64 where "bitMask = 63"

record replay_filter =
  rf_last :: u64
  rf_ring :: "u64 list"

definition zero_filter :: replay_filter where
  "zero_filter = \<lparr>rf_last = 0, rf_ring = replicate 128 0\<rparr>"

definition Reset :: "replay_filter \<Rightarrow> replay_filter" where
  "Reset f = f\<lparr>rf_last := 0, rf_ring := (rf_ring f)[0 := 0]\<rparr>"

text \<open>The loop of \<^verbatim>\<open>ValidateCounter\<close>: \<open>n\<close> blocks from block \<open>i\<close> on are cleared.\<close>

fun clear_blocks :: "u64 \<Rightarrow> nat \<Rightarrow> u64 list \<Rightarrow> u64 list" where
  "clear_blocks i 0 ring = ring"
| "clear_blocks i (Suc n) ring = clear_blocks (i + 1) n (ring[unat (i AND blockMask) := 0])"

definition check_and_set :: "u64 \<Rightarrow> replay_filter \<Rightarrow> bool \<times> replay_filter" where
  "check_and_set counter f =
     (let indexBlock = unat (drop_bit blockBitLog counter AND blockMask);
          indexBit = unat (counter AND bitMask);
          old = rf_ring f ! indexBlock;
          new = old OR push_bit indexBit 1
      in (old \<noteq> new, f\<lparr>rf_ring := (rf_ring f)[indexBlock := new]\<rparr>))"

definition ValidateCounter :: "u64 \<Rightarrow> u64 \<Rightarrow> replay_filter \<Rightarrow> bool \<times> replay_filter" where
  "ValidateCounter counter limit f =
     (if limit \<le> counter then (False, f)
      else let indexBlock = drop_bit blockBitLog counter in
        if rf_last f < counter then
          let current = drop_bit blockBitLog (rf_last f);
              diff = min (indexBlock - current) ringBlocks
          in check_and_set counter
               (f\<lparr>rf_last := counter, rf_ring := clear_blocks (current + 1) (unat diff) (rf_ring f)\<rparr>)
        else if windowSize < rf_last f - counter then (False, f)
        else check_and_set counter f)"

section \<open>The abstract filter\<close>

text \<open>The highest accepted counter and all counters accepted since the last reset.\<close>

type_synonym spec_filter = "u64 \<times> u64 set"

definition spec_validate :: "u64 \<Rightarrow> u64 \<Rightarrow> spec_filter \<Rightarrow> bool \<times> spec_filter" where
  "spec_validate counter limit a =
     (case a of (high, seen) \<Rightarrow>
        let ok = counter < limit \<and> counter \<notin> seen \<and> (high < counter \<or> high - counter \<le> windowSize)
        in (ok, if ok then (max high counter, insert counter seen) else a))"

datatype replay_event = Validate u64 u64 | ResetFilter

primrec filter_step :: "replay_filter \<Rightarrow> replay_event \<Rightarrow> bool \<times> replay_filter" where
  "filter_step f (Validate counter limit) = ValidateCounter counter limit f"
| "filter_step f ResetFilter = (False, Reset f)"

primrec spec_step :: "spec_filter \<Rightarrow> replay_event \<Rightarrow> bool \<times> spec_filter" where
  "spec_step a (Validate counter limit) = spec_validate counter limit a"
| "spec_step a ResetFilter = (False, (0, {}))"

text \<open>The ring represents the blocks from 127 below the current one up to it.\<close>

definition block_of :: "u64 \<Rightarrow> nat" where "block_of c = unat c div 64"

definition in_ring :: "u64 \<Rightarrow> u64 \<Rightarrow> bool" where
  "in_ring high c \<longleftrightarrow> block_of c \<le> block_of high \<and> block_of high \<le> block_of c + 127"

definition ring_bit :: "u64 list \<Rightarrow> u64 \<Rightarrow> bool" where
  "ring_bit ring c \<longleftrightarrow> bit (ring ! (block_of c mod 128)) (unat c mod 64)"

definition filter_rel :: "replay_filter \<Rightarrow> spec_filter \<Rightarrow> bool" where
  "filter_rel f a \<longleftrightarrow> length (rf_ring f) = 128 \<and> fst a = rf_last f \<and> (\<forall>c \<in> snd a. c \<le> rf_last f) \<and>
     (\<forall>c. in_ring (rf_last f) c \<longrightarrow> (ring_bit (rf_ring f) c \<longleftrightarrow> c \<in> snd a))"

section \<open>Refinement\<close>

lemma unat_block: "unat (drop_bit blockBitLog c) = block_of c"
  by (simp add: blockBitLog_def block_of_def drop_bit_eq_div unat_div)

lemma unat_and_blockMask: "unat (w AND blockMask) = unat w mod 128"
proof -
  have "w AND blockMask = take_bit 7 w" by (simp add: blockMask_def take_bit_eq_mask mask_eq_exp_minus_1)
  then show ?thesis by (simp add: take_bit_eq_mod unat_mod)
qed

lemma unat_and_bitMask: "unat (w AND bitMask) = unat w mod 64"
proof -
  have "w AND bitMask = take_bit 6 w" by (simp add: bitMask_def take_bit_eq_mask mask_eq_exp_minus_1)
  then show ?thesis by (simp add: take_bit_eq_mod unat_mod)
qed

lemma length_clear_blocks [simp]: "length (clear_blocks i n ring) = length ring"
  by (induction i n ring rule: clear_blocks.induct) auto

lemma block_small: "block_of c < 2 ^ 58"
  using unsigned_less [of c, where 'a = nat] by (simp add: block_of_def less_mult_imp_div_less)

lemma clear_blocks_nth:
  assumes "length ring = 128" "unat i + n < 2 ^ 64" "j < 128"
  shows "clear_blocks i n ring ! j = (if \<exists>k < n. (unat i + k) mod 128 = j then 0 else ring ! j)"
  using assms
proof (induction n arbitrary: i ring)
  case (Suc n)
  have i1: "unat (i + 1) = unat i + 1"
    using Suc.prems(2) by (simp add: unat_word_ariths)
  have "(\<exists>k < Suc n. (unat i + k) mod 128 = j) \<longleftrightarrow>
      unat i mod 128 = j \<or> (\<exists>k < n. (unat i + 1 + k) mod 128 = j)"
    by (auto simp: less_Suc_eq_0_disj)
  then show ?case
    using Suc.prems Suc.IH [of "ring[unat (i AND blockMask) := 0]" "i + 1"]
    by (auto simp: i1 unat_and_blockMask nth_list_update)
qed simp

lemma block_mono: "c \<le> d \<Longrightarrow> block_of c \<le> block_of d"
  by (simp add: block_of_def word_le_nat_alt div_le_mono)

lemma same_slot:
  assumes "in_ring high c" "in_ring high d" "block_of c mod 128 = block_of d mod 128" "unat c mod 64 = unat d mod 64"
  shows "c = d"
proof -
  have "block_of c = block_of d"
    using assms(1,2,3) mod_eq_near [of "block_of c" 128 "block_of d"] mod_eq_near [of "block_of d" 128 "block_of c"]
    unfolding in_ring_def by linarith
  then have "unat c = unat d" using assms(4) unfolding block_of_def by (metis div_mult_mod_eq)
  then show ?thesis by (simp add: word_unat_eq_iff)
qed

lemma check_and_set_rel:
  assumes rel: "filter_rel f (high, seen)" and c: "in_ring high counter" "counter \<le> high"
  shows "fst (check_and_set counter f) \<longleftrightarrow> counter \<notin> seen"
    and "filter_rel (snd (check_and_set counter f)) (high, insert counter seen)"
proof -
  let ?k = "block_of counter mod 128" and ?b = "unat counter mod 64" and ?ring = "rf_ring f"
  let ?new = "?ring ! ?k OR push_bit ?b 1"
  have cs: "check_and_set counter f = (?ring ! ?k \<noteq> ?new, f\<lparr>rf_ring := ?ring[?k := ?new]\<rparr>)"
    by (simp add: check_and_set_def Let_def unat_and_blockMask unat_and_bitMask unat_block)
  have len: "length ?ring = 128" and repr: "\<And>c. in_ring high c \<Longrightarrow> ring_bit ?ring c \<longleftrightarrow> c \<in> seen"
    using rel by (simp_all add: filter_rel_def)
  have bit_new: "bit ?new n \<longleftrightarrow> bit (?ring ! ?k) n \<or> n = ?b" for n
    by (auto simp: bit_or_iff bit_exp_iff)
  have "?ring ! ?k = ?new \<longleftrightarrow> bit (?ring ! ?k) ?b"
    using bit_new by (auto intro!: bit_word_eqI) metis
  then show "fst (check_and_set counter f) \<longleftrightarrow> counter \<notin> seen"
    using repr [OF c(1)] by (simp add: cs ring_bit_def)
  have "ring_bit (?ring[?k := ?new]) c \<longleftrightarrow> c \<in> insert counter seen" if "in_ring high c" for c
  proof (cases "block_of c mod 128 = ?k")
    case True
    then have "unat c mod 64 = ?b \<longleftrightarrow> c = counter" using same_slot [OF that c(1)] by blast
    then show ?thesis using True repr [OF that] bit_new [of "unat c mod 64"] len by (auto simp: ring_bit_def)
  next
    case False
    then have "c \<noteq> counter" by blast
    then show ?thesis using False repr [OF that] by (simp add: ring_bit_def)
  qed
  then show "filter_rel (snd (check_and_set counter f)) (high, insert counter seen)"
    using rel c by (auto simp: filter_rel_def cs)
qed

lemma advance_rel:
  assumes rel: "filter_rel f (rf_last f, seen)" and c: "rf_last f < counter"
  defines "cur \<equiv> drop_bit blockBitLog (rf_last f)"
  defines "diff \<equiv> min (drop_bit blockBitLog counter - cur) ringBlocks"
  shows "filter_rel (f\<lparr>rf_last := counter, rf_ring := clear_blocks (cur + 1) (unat diff) (rf_ring f)\<rparr>) (counter, seen)"
proof -
  let ?cb = "block_of (rf_last f)" and ?nb = "block_of counter"
  have len: "length (rf_ring f) = 128" and repr: "\<And>c. in_ring (rf_last f) c \<Longrightarrow> ring_bit (rf_ring f) c \<longleftrightarrow> c \<in> seen"
    and le: "\<And>c. c \<in> seen \<Longrightarrow> c \<le> rf_last f"
    using rel by (simp_all add: filter_rel_def)
  have blocks: "?cb \<le> ?nb" using c by (intro block_mono) simp
  have cur: "unat (cur + 1) = ?cb + 1"
    using block_small [of "rf_last f"] by (simp add: cur_def unat_word_ariths unat_block)
  have "unat (drop_bit blockBitLog counter - cur) = ?nb - ?cb"
    using blocks by (simp add: cur_def unat_block word_le_nat_alt unat_sub)
  then have diff: "unat diff = min (?nb - ?cb) 128"
    by (auto simp: diff_def min_def word_le_nat_alt ringBlocks_def)
  have cleared: "clear_blocks (cur + 1) (unat diff) (rf_ring f) ! j =
      (if \<exists>k < min (?nb - ?cb) 128. (?cb + 1 + k) mod 128 = j then 0 else rf_ring f ! j)" if "j < 128" for j
    using clear_blocks_nth [OF len _ that, of "cur + 1" "unat diff"] block_small [of "rf_last f"]
    by (simp add: cur diff)
  have "ring_bit (clear_blocks (cur + 1) (unat diff) (rf_ring f)) c \<longleftrightarrow> c \<in> seen" if c: "in_ring counter c" for c
  proof (cases "block_of c \<le> ?cb")
    case True
    have "(?cb + 1 + k) mod 128 \<noteq> block_of c mod 128" if "k < min (?nb - ?cb) 128" for k
      using that True c mod_eq_near [of "block_of c" 128 "?cb + 1 + k"] unfolding in_ring_def by linarith
    moreover have "in_ring (rf_last f) c" using True c blocks by (simp add: in_ring_def)
    ultimately show ?thesis using repr by (auto simp: ring_bit_def cleared)
  next
    case False
    have "\<exists>k < min (?nb - ?cb) 128. (?cb + 1 + k) mod 128 = block_of c mod 128"
    proof (cases "?nb - ?cb \<le> 128")
      case True
      then show ?thesis using False c by (intro exI [of _ "block_of c - ?cb - 1"]) (auto simp: in_ring_def)
    next
      case far: False
      then show ?thesis using mod_cover [of 128 "?cb + 1" "block_of c"] by simp
    qed
    moreover have "c \<notin> seen" using False le block_mono by blast
    ultimately show ?thesis by (simp add: ring_bit_def cleared)
  qed
  then show ?thesis using len le c by (fastforce simp: filter_rel_def)
qed

lemma window_in_ring:
  assumes "c \<le> high" "high - c \<le> windowSize" shows "in_ring high c"
proof -
  have "unat high - unat c \<le> 8128"
    using assms by (simp add: word_le_nat_alt unat_sub windowSize_def)
  then have "unat high div 64 \<le> (unat c + 127 * 64) div 64"
    by (intro div_le_mono) simp
  then show ?thesis using block_mono [OF assms(1)] by (simp add: in_ring_def block_of_def)
qed

lemma validate_rel:
  assumes "filter_rel f a"
  shows "fst (ValidateCounter counter limit f) = fst (spec_validate counter limit a)"
    and "filter_rel (snd (ValidateCounter counter limit f)) (snd (spec_validate counter limit a))"
proof -
  obtain seen where a: "a = (rf_last f, seen)" using assms by (cases a) (simp add: filter_rel_def)
  have rel: "filter_rel f (rf_last f, seen)" using assms a by simp
  have le: "c \<in> seen \<Longrightarrow> c \<le> rf_last f" for c using rel by (simp add: filter_rel_def)
  note here = check_and_set_rel [OF rel window_in_ring]
  note ahead = check_and_set_rel [OF advance_rel [OF rel] _ order_refl]
  have "fst (ValidateCounter counter limit f) = fst (spec_validate counter limit a) \<and>
    filter_rel (snd (ValidateCounter counter limit f)) (snd (spec_validate counter limit a))"
  proof (cases "limit \<le> counter")
    case True
    then show ?thesis using assms by (auto simp: ValidateCounter_def spec_validate_def a Let_def)
  next
    case lim: False
    consider "rf_last f < counter" | "counter \<le> rf_last f" "windowSize < rf_last f - counter"
      | "counter \<le> rf_last f" "rf_last f - counter \<le> windowSize" by fastforce
    then show ?thesis
    proof cases
      case 1
      then have "counter \<notin> seen" "max (rf_last f) counter = counter"
        using le [of counter] by (auto simp: max_def)
      then show ?thesis
        using 1 lim ahead [OF 1] by (simp add: ValidateCounter_def spec_validate_def a Let_def in_ring_def)
    next
      case 2
      then show ?thesis using lim rel by (auto simp: ValidateCounter_def spec_validate_def a Let_def)
    next
      case 3
      moreover have "max (rf_last f) counter = rf_last f" using 3(1) by (simp add: max_def)
      ultimately show ?thesis
        using lim here [OF 3 3(1)]
        by (auto simp: ValidateCounter_def spec_validate_def a Let_def insert_absorb)
    qed
  qed
  then show "fst (ValidateCounter counter limit f) = fst (spec_validate counter limit a)"
    "filter_rel (snd (ValidateCounter counter limit f)) (snd (spec_validate counter limit a))" by simp_all
qed

lemma reset_rel: "filter_rel f a \<Longrightarrow> filter_rel (Reset f) (0, {})"
  by (auto simp: filter_rel_def Reset_def in_ring_def ring_bit_def block_of_def)

lemma zero_rel: "filter_rel zero_filter (0, {})"
  by (auto simp: filter_rel_def zero_filter_def in_ring_def ring_bit_def block_of_def)

interpretation replay: simulation filter_step spec_step filter_rel
proof unfold_locales
  show "fst (filter_step f e) = fst (spec_step a e)" if "filter_rel f a" for f a e
    using that by (cases e) (simp_all add: validate_rel)
  show "filter_rel (snd (filter_step f e)) (snd (spec_step a e))" if "filter_rel f a" for f a e
    using that by (cases e) (simp_all add: validate_rel reset_rel)
qed

text \<open>
  C7. On every sequence of validations and resets the ring filter gives the answers of the abstract
  filter that remembers every accepted counter: a counter is accepted exactly if it is below the
  limit, was not accepted since the last reset, and is above the highest accepted counter or at most
  8128 behind it. No wrap-around of the 64-bit counters, no reuse of a ring block and no block left
  over from before a reset changes an answer.
\<close>

theorem replay_filter_refines:
  "answers filter_step zero_filter es = answers spec_step (0, {}) es"
  by (rule replay.same_answers [OF zero_rel])

end
