(* ===== verification/Rate_Limiter.thy ===== *)
theory Rate_Limiter
  imports Wan_Prelude
begin

text \<open>
  The rate limiter for handshake messages of a device under load (\<^verbatim>\<open>ratelimiter/ratelimiter.go\<close>): a token bucket per
  source address, counted in nanoseconds, and the collection of idle buckets. The entries of the table are pointers, and
  \<open>Allow\<close> is taken apart at its locks: it reads the table under the read lock, enters a new entry under the write lock, and
  spends the tokens of an entry under the mutex of the entry. Several handshake workers may be between these sections at
  once. A run of \<open>cleanup\<close> holds the write lock and is one step; it reads the clock once per entry. \<open>rl_ticking\<close>
  says whether the ticker that calls \<open>cleanup\<close> runs.
\<close>

type_synonym address = bytes
type_synonym entry_at = nat

definition packetsPerSecond :: int where "packetsPerSecond = 20"
definition packetsBurstable :: int where "packetsBurstable = 5"
definition garbageCollectTime :: duration where "garbageCollectTime = second"
definition packetCost :: int where "packetCost = 1000000000 div packetsPerSecond"
definition maxTokens :: int where "maxTokens = packetCost * packetsBurstable"

record limiter_entry =
  le_lastTime :: time
  le_tokens :: int

record ratelimiter =
  rl_table :: "(address \<times> entry_at) list"
  rl_ticking :: bool
  rl_entries :: "entry_at \<Rightarrow> limiter_entry"
  rl_next :: entry_at

definition rl_Init :: ratelimiter where
  "rl_Init = \<lparr>rl_table = [], rl_ticking = False, rl_entries = (\<lambda>_. \<lparr>le_lastTime = 0, le_tokens = 0\<rparr>), rl_next = 0\<rparr>"

definition cleanup :: "(address \<Rightarrow> time) \<Rightarrow> ratelimiter \<Rightarrow> ratelimiter" where
  "cleanup now s =
     (let kept = filter (\<lambda>(key, p). \<not> garbageCollectTime < time_Sub (now key) (le_lastTime (rl_entries s p))) (rl_table s) in
      s\<lparr>rl_table := kept, rl_ticking := (rl_ticking s \<and> kept \<noteq> [])\<rparr>)"

text \<open>A new entry, before it is in the table; its entry into the table; and the tokens of an entry.\<close>

definition rl_make :: "time \<Rightarrow> ratelimiter \<Rightarrow> ratelimiter" where
  "rl_make now s =
     s\<lparr>rl_entries := (rl_entries s)(rl_next s := \<lparr>le_lastTime = now, le_tokens = maxTokens - packetCost\<rparr>), rl_next := rl_next s + 1\<rparr>"

definition rl_enter :: "address \<Rightarrow> entry_at \<Rightarrow> ratelimiter \<Rightarrow> ratelimiter" where
  "rl_enter ip p s =
     (let table = AList.update ip p (rl_table s) in
      s\<lparr>rl_table := table, rl_ticking := (rl_ticking s \<or> length table = 1)\<rparr>)"

definition rl_spend :: "entry_at \<Rightarrow> time \<Rightarrow> ratelimiter \<Rightarrow> bool \<times> ratelimiter" where
  "rl_spend p now s =
     (let entry = rl_entries s p;
          added = signed_take_bit 63 (le_tokens entry + time_Sub now (le_lastTime entry));
          tokens = (if maxTokens < added then maxTokens else added);
          allowed = packetCost < tokens in
      (allowed, s\<lparr>rl_entries := (rl_entries s)(p := \<lparr>le_lastTime = now, le_tokens = (if allowed then tokens - packetCost else tokens)\<rparr>)\<rparr>))"

text \<open>The sections of a call that no other call comes between.\<close>

definition rl_Allow :: "address \<Rightarrow> time \<Rightarrow> ratelimiter \<Rightarrow> bool \<times> ratelimiter" where
  "rl_Allow ip now s =
     (case map_of (rl_table s) ip of
        None \<Rightarrow> (True, rl_enter ip (rl_next s) (rl_make now s))
      | Some p \<Rightarrow> rl_spend p now s)"

section \<open>The workers\<close>

text \<open>
  The sections of the calls of all workers and the cleanups, in any order. A worker enters or spends an entry that was
  made, whatever it read from the table when; it makes the next entry.
\<close>

datatype limiter_event = Make entry_at time | Enter address entry_at | Spend entry_at time | Cleanup "address \<Rightarrow> time"

fun limiter_step :: "ratelimiter \<Rightarrow> limiter_event \<Rightarrow> bool \<times> ratelimiter" where
  "limiter_step s (Make p now) = (if p = rl_next s then (True, rl_make now s) else (False, s))"
| "limiter_step s (Enter ip p) = (False, if p < rl_next s then rl_enter ip p s else s)"
| "limiter_step s (Spend p now) = (if p < rl_next s then rl_spend p now s else (False, s))"
| "limiter_step s (Cleanup now) = (False, cleanup now s)"

lemma rl_Allow_events:
  "\<exists>es. length es \<le> 2 \<and> snd (rl_Allow ip now s) = foldl (\<lambda>s e. snd (limiter_step s e)) s es"
  if "\<forall>(key, p) \<in> set (rl_table s). p < rl_next s"
proof (cases "map_of (rl_table s) ip")
  case None
  have "p < rl_next (rl_make now s)" if "p = rl_next s" for p using that by (simp add: rl_make_def)
  then show ?thesis using None by (intro exI [of _ "[Make (rl_next s) now, Enter ip (rl_next s)]"]) (simp add: rl_Allow_def)
next
  case (Some p)
  then show ?thesis using that by (intro exI [of _ "[Spend p now]"]) (auto simp: rl_Allow_def dest: map_of_SomeD)
qed

definition limiter_inv :: "ratelimiter \<Rightarrow> bool" where
  "limiter_inv s \<longleftrightarrow> distinct (map fst (rl_table s)) \<and> (\<forall>(key, p) \<in> set (rl_table s). p < rl_next s) \<and> (rl_table s \<noteq> [] \<longrightarrow> rl_ticking s)"

text \<open>The clock an event reads for an entry.\<close>

fun reading :: "entry_at \<Rightarrow> limiter_event \<Rightarrow> time list" where
  "reading p (Make q now) = (if q = p then [now] else [])"
| "reading p (Spend q now) = (if q = p then [now] else [])"
| "reading p _ = []"

text \<open>How many packets a sequence of events lets through on behalf of an entry, the one it was made for included.\<close>

fun passed :: "entry_at \<Rightarrow> ratelimiter \<Rightarrow> limiter_event list \<Rightarrow> nat" where
  "passed p s [] = 0"
| "passed p s (e # es) =
     (case limiter_step s e of (allowed, s') \<Rightarrow> (if allowed \<and> reading p e \<noteq> [] then 1 else 0) + passed p s' es)"

text \<open>What an entry may spend at a time: its tokens with those earned since, or a full bucket before it is made.\<close>

definition level :: "entry_at \<Rightarrow> time \<Rightarrow> ratelimiter \<Rightarrow> int" where
  "level p t s =
     (if p < rl_next s then min maxTokens (le_tokens (rl_entries s p) + (t - le_lastTime (rl_entries s p))) else maxTokens)"

text \<open>The bucket of an entry at a time that it is not ahead of, nor a century behind.\<close>

definition bucket_ok :: "entry_at \<Rightarrow> time \<Rightarrow> time \<Rightarrow> ratelimiter \<Rightarrow> bool" where
  "bucket_ok p a b s \<longleftrightarrow> b - a < 2 ^ 62 \<and> (p < rl_next s \<longrightarrow> (let entry = rl_entries s p in
     0 \<le> le_tokens entry \<and> le_tokens entry \<le> maxTokens \<and> le_lastTime entry \<le> a \<and> b - le_lastTime entry < 2 ^ 62))"

lemmas limiter_consts = packetsPerSecond_def packetsBurstable_def garbageCollectTime_def packetCost_def maxTokens_def

lemma enter_inv: "limiter_inv s \<Longrightarrow> p < rl_next s \<Longrightarrow> limiter_inv (rl_enter ip p s)"
  using update_keys [of ip p "rl_table s"]
  by (cases "rl_table s = []") (auto simp: limiter_inv_def rl_enter_def Let_def distinct_update dest!: in_set_updateD)

lemma limiter_step_inv: "limiter_inv s \<Longrightarrow> limiter_inv (snd (limiter_step s e))"
  by (cases e) (auto simp: enter_inv, auto simp: limiter_inv_def rl_make_def rl_spend_def cleanup_def Let_def intro: distinct_map_filter)

interpretation limiter: event_system "\<lambda>s e. snd (limiter_step s e)" rl_Init limiter_inv
  by unfold_locales (simp_all add: limiter_step_inv, simp add: limiter_inv_def rl_Init_def)

section \<open>The budget of an entry\<close>

lemma level_bounds: "bucket_ok p a b s \<Longrightarrow> 0 \<le> level p a s \<and> level p a s \<le> maxTokens"
  by (auto simp: bucket_ok_def level_def limiter_consts Let_def)

lemma level_grows: "a \<le> t \<Longrightarrow> level p t s \<le> level p a s + (t - a)"
  by (simp add: level_def min_def)

lemma bucket_later: "bucket_ok p a b s \<Longrightarrow> a \<le> t \<Longrightarrow> bucket_ok p t b s"
  by (force simp: bucket_ok_def Let_def)

text \<open>One section at time \<open>t\<close>: a packet that passes costs its price, everything else leaves the level.\<close>

lemma spend_level:
  assumes "bucket_ok p t b s" "t \<le> b" "p < rl_next s"
  shows "bucket_ok p t b (snd (rl_spend p t s)) \<and>
    level p t (snd (rl_spend p t s)) = level p t s - (if fst (rl_spend p t s) then packetCost else 0)"
proof -
  let ?e = "rl_entries s p"
  have e: "0 \<le> le_tokens ?e" "le_tokens ?e \<le> maxTokens" "le_lastTime ?e \<le> t" "b - le_lastTime ?e < 2 ^ 62"
    using assms(1,3) by (auto simp: bucket_ok_def Let_def)
  have "time_Sub t (le_lastTime ?e) = t - le_lastTime ?e"
    using e assms(2) by (intro time_Sub_exact) (auto simp: max_duration_def)
  then have "signed_take_bit 63 (le_tokens ?e + time_Sub t (le_lastTime ?e)) = le_tokens ?e + (t - le_lastTime ?e)"
    using e assms(2) by (simp add: signed_take_bit_int_eq_self limiter_consts)
  then show ?thesis using e assms by (auto simp: rl_spend_def Let_def bucket_ok_def level_def limiter_consts)
qed

lemma other_level:
  assumes "rl_next s' = rl_next s \<or> rl_next s' = rl_next s + 1 \<and> p \<noteq> rl_next s" "rl_entries s' p = rl_entries s p"
  shows "bucket_ok p t b s' = bucket_ok p t b s" "level p t s' = level p t s"
  using assms by (auto simp: bucket_ok_def level_def)

text \<open>An event that reads no clock for the entry leaves its bucket alone.\<close>

lemma step_other:
  assumes "reading p e = []"
  shows "bucket_ok p t b (snd (limiter_step s e)) = bucket_ok p t b s" "level p t (snd (limiter_step s e)) = level p t s"
proof -
  let ?s = "snd (limiter_step s e)"
  have "(rl_next ?s = rl_next s \<or> rl_next ?s = rl_next s + 1 \<and> p \<noteq> rl_next s) \<and> rl_entries ?s p = rl_entries s p"
    using assms by (cases e) (auto simp: rl_make_def rl_enter_def rl_spend_def cleanup_def Let_def split: if_splits)
  then show "bucket_ok p t b ?s = bucket_ok p t b s" "level p t ?s = level p t s" using other_level by blast+
qed

lemma step_level:
  assumes "bucket_ok p t b s" "t \<le> b" "reading p e = [t]"
  shows "bucket_ok p t b (snd (limiter_step s e)) \<and>
    level p t (snd (limiter_step s e)) = level p t s - (if fst (limiter_step s e) then packetCost else 0)"
proof (cases e)
  case (Make q now)
  then show ?thesis using assms by (auto simp: rl_make_def bucket_ok_def level_def limiter_consts split: if_splits)
next
  case (Spend q now)
  then show ?thesis using assms spend_level [OF assms(1,2)] by (auto split: if_splits)
qed (use assms in auto)

abbreviation readings :: "entry_at \<Rightarrow> limiter_event list \<Rightarrow> time list" where
  "readings p es \<equiv> concat (map (reading p) es)"

lemma reading_cases: obtains "reading p e = []" | t where "reading p e = [t]"
proof -
  have "reading p e = [] \<or> (\<exists>t. reading p e = [t])" by (cases e) auto
  with that show thesis by blast
qed

lemma passed_cost:
  assumes "bucket_ok p a b s" "sorted (a # readings p es @ [b])"
  shows "int (passed p s es) * packetCost \<le> level p a s + (b - a)"
  using assms
proof (induction es arbitrary: s a)
  case Nil
  then show ?case using level_bounds [OF Nil.prems(1)] by simp
next
  case (Cons e es)
  let ?s = "snd (limiter_step s e)"
  show ?case
  proof (cases rule: reading_cases [of p e])
    case 1
    then show ?thesis using Cons.IH [of a ?s] Cons.prems step_other [OF 1, where s = s and t = a] by (simp add: case_prod_unfold)
  next
    case (2 t)
    have t: "a \<le> t" "t \<le> b" using Cons.prems(2) by (auto simp: 2)
    note step = step_level [OF bucket_later [OF Cons.prems(1) t(1)] t(2) 2]
    have "int (passed p ?s es) * packetCost \<le> level p t ?s + (b - t)"
      using Cons.prems(2) step by (intro Cons.IH) (auto simp: 2)
    moreover have "int (passed p s (e # es)) * packetCost =
        (if fst (limiter_step s e) then packetCost else 0) + int (passed p ?s es) * packetCost"
      by (auto simp: 2 case_prod_unfold distrib_right)
    ultimately show ?thesis using step level_grows [OF t(1), of p s] by linarith
  qed
qed

lemma reached_bucket:
  assumes "bucket_ok p t b s" "sorted (t # readings p es @ [a])" "a \<le> b"
  shows "bucket_ok p a b (foldl (\<lambda>s e. snd (limiter_step s e)) s es)"
  using assms
proof (induction es arbitrary: s t)
  case (Cons e es)
  show ?case
  proof (cases rule: reading_cases [of p e])
    case 1
    then show ?thesis using Cons.IH [of t "snd (limiter_step s e)"] Cons.prems step_other(1) [OF 1, of t b s] by simp
  next
    case (2 t')
    have "t \<le> t'" "t' \<le> a" using Cons.prems(2) by (auto simp: 2)
    then have "bucket_ok p t' b (snd (limiter_step s e))"
      using step_level [OF bucket_later [OF Cons.prems(1), of t'] _ 2] Cons.prems(3) by simp
    then show ?thesis using Cons.IH [of t' "snd (limiter_step s e)"] Cons.prems by (simp add: 2)
  qed
qed (auto intro: bucket_later)

text \<open>
  C37. The rate limit of an entry: whatever sections of calls and cleanups the workers run in whatever order, an entry of
  the table lets at most five packets plus one for every 50 milliseconds pass between two instants, the packet it was
  made for included. A cleanup drops an address only when its entry has earned a full bucket, so that a later entry
  starts with no more than the dropped one had; and the collection never stalls while the table has entries. The clock
  that the sections read for the entry, under its mutex, does not run backwards. The bound is one per entry:
  the code does not keep two workers from making an entry each for the same address.
\<close>
theorem rate_limited:
  fixes es0 defines "s \<equiv> foldl (\<lambda>s e. snd (limiter_step s e)) rl_Init es0"
  assumes "sorted (0 # readings p es0 @ a # readings p es @ [b])" "b < 2 ^ 62"
  shows "int (passed p s es) \<le> 5 + (b - a) div (50 * millisecond) \<and> (rl_table s \<noteq> [] \<longrightarrow> rl_ticking s) \<and>
    ((ip, p) \<in> set (rl_table s) \<and> a \<le> now ip \<and> now ip \<le> b \<and> map_of (rl_table (cleanup now s)) ip = None \<longrightarrow> level p (now ip) s = maxTokens)"
proof -
  have order: "sorted (0 # readings p es0 @ [a])" "sorted (a # readings p es @ [b])" "a \<le> b" "0 \<le> b"
    using assms(2) by (auto simp: sorted_append)
  have "bucket_ok p 0 b rl_Init" using assms(3) order(4) by (simp add: bucket_ok_def rl_Init_def)
  then have ok: "bucket_ok p a b s" unfolding s_def by (rule reached_bucket [OF _ order(1,3)])
  have "int (passed p s es) * 50000000 \<le> 250000000 + (b - a)"
    using passed_cost [OF ok order(2)] level_bounds [OF ok] by (simp add: limiter_consts)
  then have "int (passed p s es) \<le> (250000000 + (b - a)) div 50000000" by simp
  moreover have inv: "limiter_inv s" unfolding s_def by (rule limiter.run_inv [unfolded limiter.run_def])
  moreover have "level p (now ip) s = maxTokens"
    if "(ip, p) \<in> set (rl_table s)" "a \<le> now ip" "now ip \<le> b" "map_of (rl_table (cleanup now s)) ip = None"
  proof -
    have p: "p < rl_next s" "distinct (map fst (rl_table s))" "map_of (rl_table s) ip = Some p" using inv that(1) by (auto simp: limiter_inv_def)
    then have "garbageCollectTime < time_Sub (now ip) (le_lastTime (rl_entries s p))"
      using that(4) by (auto simp: cleanup_def Let_def map_of_filter [OF p(2)] split: if_splits)
    moreover have "time_Sub (now ip) (le_lastTime (rl_entries s p)) = now ip - le_lastTime (rl_entries s p)"
      using ok p(1) that(2,3) by (intro time_Sub_exact) (auto simp: bucket_ok_def max_duration_def Let_def)
    ultimately show ?thesis using ok p(1) by (auto simp: level_def bucket_ok_def limiter_consts Let_def)
  qed
  ultimately show ?thesis by (simp add: limiter_inv_def)
qed

text \<open>Two workers race for the first packet of an address, and the entry of one of them is used until it is empty.\<close>

definition ex_race :: "limiter_event list" where
  "ex_race = [Make 0 7, Make 1 7, Enter [1] 0, Enter [1] 1] @ replicate 5 (Spend 1 7)"

theorem rate_limited_witness:
  "passed 1 rl_Init ex_race = 4 \<and> int (passed 1 rl_Init ex_race) \<le> 5 + (7 - 7) div (50 * millisecond)"
proof
  show "passed 1 rl_Init ex_race = 4"
    by (simp add: ex_race_def eval_nat_numeral rl_make_def rl_enter_def rl_spend_def rl_Init_def limiter_consts time_Sub_def max_duration_def
        signed_take_bit_int_eq_self)
  show "int (passed 1 rl_Init ex_race) \<le> 5 + (7 - 7) div (50 * millisecond)"
    using rate_limited [of 1 "[]" 7 ex_race 7] by (simp add: ex_race_def eval_nat_numeral)
qed

end
