(* ===== verification/Fragment_Assembly.thy ===== *)
theory Fragment_Assembly
  imports Control_Fragments
begin

text \<open>
  The fragment buffer of the WireGuard device, \<^verbatim>\<open>internal/device/wireguard-go/device/wusp_fragments.go\<close>:
  pending assemblies keyed by peer and message id, the per-peer byte budget, expiry after 30 seconds
  without progress, and the handler that takes one received payload. A peer pointer is its number.
  The map of pending assemblies is an association list, since the code ranges over it; the whole
  handler runs under one lock, so it is one function of the state. \<^verbatim>\<open>wuspFragmentSlotCost\<close> is the size
  of a fragment header on a 64-bit platform.
\<close>

type_synonym peer_ref = nat
type_synonym fragment_key = "peer_ref \<times> u64"

definition wuspFragmentAssemblyTTL :: duration where "wuspFragmentAssemblyTTL = 30 * second"
definition maxWUSPFragmentBytesPerPeer :: int where
  "maxWUSPFragmentBytesPerPeer = 2 * int MaxUSPControlMessageSize"
definition wuspFragmentSlotCost :: int where "wuspFragmentSlotCost = 48"

record wusp_assembly =
  as_updated :: time
  as_fragments :: "usp_fragment list"
  as_received :: u32
  as_bytes :: int

record wusp_fragments =
  wf_nextID :: u64
  wf_pending :: "(fragment_key \<times> wusp_assembly) list"
  wf_bytesByPeer :: "peer_ref \<rightharpoonup> int"

definition zero_fragment :: usp_fragment where
  "zero_fragment = \<lparr>fr_MessageID = 0, fr_Index = 0, fr_Count = 0, fr_RawSize = 0, fr_Compressed = False, fr_Data = []\<rparr>"

definition no_fragments :: wusp_fragments where
  "no_fragments = \<lparr>wf_nextID = 0, wf_pending = [], wf_bytesByPeer = Map.empty\<rparr>"

definition nextWUSPFragmentMessageID :: "wusp_fragments \<Rightarrow> u64 \<times> wusp_fragments" where
  "nextWUSPFragmentMessageID s = (wf_nextID s + 1, s\<lparr>wf_nextID := wf_nextID s + 1\<rparr>)"

definition peer_bytes :: "wusp_fragments \<Rightarrow> peer_ref \<Rightarrow> int" where
  "peer_bytes s p = (case wf_bytesByPeer s p of None \<Rightarrow> 0 | Some n \<Rightarrow> n)"

text \<open>The assembly is charged before it is written back to the map it lives in.\<close>

definition chargeWUSPFragmentsLocked ::
    "fragment_key \<Rightarrow> wusp_assembly \<Rightarrow> int \<Rightarrow> wusp_fragments \<Rightarrow> wusp_assembly \<times> wusp_fragments" where
  "chargeWUSPFragmentsLocked key a n s =
     (let a' = a\<lparr>as_bytes := as_bytes a + n\<rparr>
      in (a', s\<lparr>wf_pending := AList.update key a' (wf_pending s),
                 wf_bytesByPeer := (wf_bytesByPeer s)(fst key \<mapsto> peer_bytes s (fst key) + n)\<rparr>))"

definition dropWUSPAssemblyLocked :: "fragment_key \<Rightarrow> wusp_assembly \<Rightarrow> wusp_fragments \<Rightarrow> wusp_fragments" where
  "dropWUSPAssemblyLocked key a s =
     (let remaining = peer_bytes s (fst key) - as_bytes a
      in s\<lparr>wf_pending := AList.delete key (wf_pending s),
           wf_bytesByPeer := (wf_bytesByPeer s)(fst key := if remaining \<le> 0 then None else Some remaining)\<rparr>)"

fun prune_each :: "time \<Rightarrow> (fragment_key \<times> wusp_assembly) list \<Rightarrow> wusp_fragments \<Rightarrow> wusp_fragments" where
  "prune_each now [] s = s"
| "prune_each now ((key, a) # rest) s =
     prune_each now rest
       (if wuspFragmentAssemblyTTL < time_Sub now (as_updated a) then dropWUSPAssemblyLocked key a s else s)"

definition pruneExpiredWUSPFragmentsLocked :: "time \<Rightarrow> wusp_fragments \<Rightarrow> wusp_fragments" where
  "pruneExpiredWUSPFragmentsLocked now s = prune_each now (wf_pending s) s"

datatype consume_result =
    ConsumeError usp_error
  | ConsumePending
  | ConsumeMessage bytes

definition budget_error :: usp_error where
  "budget_error = ErrUSPTransportMalformed ''peer fragment buffer exceeds budget''"

text \<open>The assembly of the fragment's message, a new one if the peer's budget has room for its slots.\<close>

definition open_assembly ::
    "fragment_key \<Rightarrow> usp_fragment \<Rightarrow> time \<Rightarrow> wusp_fragments \<Rightarrow> (wusp_assembly \<times> wusp_fragments) option" where
  "open_assembly key f now s =
     (case map_of (wf_pending s) key of
        Some a \<Rightarrow> Some (a, s)
      | None \<Rightarrow>
        let slots = int (unat (fr_Count f)) * wuspFragmentSlotCost in
        if maxWUSPFragmentBytesPerPeer < peer_bytes s (fst key) + slots then None
        else Some (chargeWUSPFragmentsLocked key
               \<lparr>as_updated = now, as_fragments = replicate (unat (fr_Count f)) zero_fragment,
                as_received = 0, as_bytes = 0\<rparr> slots s))"

text \<open>Storing the fragment in its slot of the assembly, unless the slot is taken.\<close>

definition store_fragment ::
    "fragment_key \<Rightarrow> usp_fragment \<Rightarrow> time \<Rightarrow> wusp_assembly \<Rightarrow> wusp_fragments \<Rightarrow>
       usp_error + (wusp_assembly \<times> wusp_fragments)" where
  "store_fragment key f now a s =
     (let i = unat (fr_Index f) in
      if fr_Data (as_fragments a ! i) = [] then
        (if maxWUSPFragmentBytesPerPeer < peer_bytes s (fst key) + int (length (fr_Data f))
         then Inl budget_error
         else
           let (a1, s1) = chargeWUSPFragmentsLocked key
                 (a\<lparr>as_fragments := (as_fragments a)[i := f], as_received := as_received a + 1\<rparr>)
                 (int (length (fr_Data f))) s;
               a2 = a1\<lparr>as_updated := now\<rparr>
           in Inr (a2, s1\<lparr>wf_pending := AList.update key a2 (wf_pending s1)\<rparr>))
      else
        let a2 = a\<lparr>as_updated := now\<rparr>
        in Inr (a2, s\<lparr>wf_pending := AList.update key a2 (wf_pending s)\<rparr>))"

definition consume_fragment ::
    "peer_ref \<Rightarrow> usp_fragment \<Rightarrow> time \<Rightarrow> wusp_fragments \<Rightarrow> consume_result \<times> wusp_fragments" where
  "consume_fragment peer f now s0 =
     (let key = (peer, fr_MessageID f); s = pruneExpiredWUSPFragmentsLocked now s0 in
      case open_assembly key f now s of
        None \<Rightarrow> (ConsumeError budget_error, s)
      | Some (a, s1) \<Rightarrow>
        if length (as_fragments a) \<noteq> unat (fr_Count f)
        then (ConsumeError (ErrUSPTransportMalformed ''mismatched control fragment count''),
              dropWUSPAssemblyLocked key a s1)
        else (case store_fragment key f now a s1 of
            Inl e \<Rightarrow> (ConsumeError e, dropWUSPAssemblyLocked key a s1)
          | Inr (a2, s2) \<Rightarrow>
            if as_received a2 \<noteq> fr_Count f then (ConsumePending, s2)
            else (case ReassembleUSPControlFragments (as_fragments a2) of
                Inl e \<Rightarrow> ConsumeError e
              | Inr m \<Rightarrow> ConsumeMessage m,
              dropWUSPAssemblyLocked key a2 s2)))"

definition consumeWUSPPayload ::
    "peer_ref \<Rightarrow> bytes \<Rightarrow> time \<Rightarrow> wusp_fragments \<Rightarrow> consume_result \<times> wusp_fragments" where
  "consumeWUSPPayload peer payload now s =
     (case DecodeUSPControlFragment payload of
        FragmentError e \<Rightarrow> (ConsumeError e, s)
      | NotFragment \<Rightarrow> (ConsumeMessage payload, s)
      | Fragment f \<Rightarrow> consume_fragment peer f now s)"

section \<open>The buffer invariant\<close>

definition filled :: "usp_fragment list \<Rightarrow> nat" where
  "filled fs = length (filter (\<lambda>f. fr_Data f \<noteq> []) fs)"

definition slot_ok :: "fragment_key \<Rightarrow> usp_fragment list \<Rightarrow> nat \<Rightarrow> bool" where
  "slot_ok key fs i \<longleftrightarrow>
     (fr_Data (fs ! i) \<noteq> [] \<longrightarrow>
        validateUSPControlFragment (fs ! i) = None \<and> fr_MessageID (fs ! i) = snd key \<and>
        unat (fr_Index (fs ! i)) = i \<and> unat (fr_Count (fs ! i)) = length fs)"

definition assembly_ok :: "fragment_key \<Rightarrow> wusp_assembly \<Rightarrow> bool" where
  "assembly_ok key a \<longleftrightarrow>
     as_fragments a \<noteq> [] \<and> length (as_fragments a) \<le> MaxUSPControlFragmentCount \<and>
     (\<forall>i < length (as_fragments a). slot_ok key (as_fragments a) i) \<and>
     unat (as_received a) = filled (as_fragments a) \<and>
     as_bytes a = int (length (as_fragments a)) * wuspFragmentSlotCost +
       int (sum_list (map (length \<circ> fr_Data) (as_fragments a)))"

text \<open>Every pending assembly is well formed and still waits for a fragment.\<close>

definition pending_ok :: "fragment_key \<times> wusp_assembly \<Rightarrow> bool" where
  "pending_ok e \<longleftrightarrow> assembly_ok (fst e) (snd e) \<and> filled (as_fragments (snd e)) < length (as_fragments (snd e))"

definition buffered :: "peer_ref \<Rightarrow> (fragment_key \<times> wusp_assembly) list \<Rightarrow> int" where
  "buffered p = assoc_sum (\<lambda>e. if fst (fst e) = p then as_bytes (snd e) else 0)"

definition accounting_ok :: "wusp_fragments \<Rightarrow> bool" where
  "accounting_ok s \<longleftrightarrow> distinct (map fst (wf_pending s)) \<and>
     (\<forall>e \<in> set (wf_pending s). assembly_ok (fst e) (snd e)) \<and>
     (\<forall>p. wf_bytesByPeer s p =
        (if buffered p (wf_pending s) = 0 then None else Some (buffered p (wf_pending s)))) \<and>
     (\<forall>p. buffered p (wf_pending s) \<le> maxWUSPFragmentBytesPerPeer)"

definition fragments_inv :: "wusp_fragments \<Rightarrow> bool" where
  "fragments_inv s \<longleftrightarrow> accounting_ok s \<and> (\<forall>e \<in> set (wf_pending s). pending_ok e)"

lemma assembly_bytes_pos: "assembly_ok key a \<Longrightarrow> 0 < as_bytes a"
  by (simp add: assembly_ok_def wuspFragmentSlotCost_def) (cases "as_fragments a"; simp)

lemma accounting_pending:
  "\<lbrakk>accounting_ok s; map_of (wf_pending s) key = Some a\<rbrakk> \<Longrightarrow> assembly_ok key a"
  by (auto simp: accounting_ok_def dest!: map_of_SomeD)

lemma peer_bytes_buffered: "accounting_ok s \<Longrightarrow> peer_bytes s p = buffered p (wf_pending s)"
  by (auto simp: peer_bytes_def accounting_ok_def)

lemma buffered_update:
  "distinct (map fst xs) \<Longrightarrow>
     buffered p (AList.update key a xs) = buffered p xs +
       (if fst key = p then as_bytes a - (case map_of xs key of None \<Rightarrow> 0 | Some b \<Rightarrow> as_bytes b) else 0)"
  by (auto simp: buffered_def assoc_sum_update split: option.split)

lemma buffered_delete:
  "distinct (map fst xs) \<Longrightarrow>
     buffered p (AList.delete key xs) = buffered p xs -
       (if fst key = p then (case map_of xs key of None \<Rightarrow> 0 | Some b \<Rightarrow> as_bytes b) else 0)"
  by (auto simp: buffered_def assoc_sum_delete split: option.split)

lemma buffered_nonneg:
  "\<forall>e \<in> set xs. assembly_ok (fst e) (snd e) \<Longrightarrow> 0 \<le> buffered p xs"
  unfolding buffered_def using assembly_bytes_pos by (intro assoc_sum_nonneg) fastforce

lemma drop_accounting:
  assumes "accounting_ok s" "map_of (wf_pending s) key = Some a"
  shows "accounting_ok (dropWUSPAssemblyLocked key a s)"
proof -
  let ?xs = "wf_pending s" and ?ys = "AList.delete key (wf_pending s)"
  have d: "distinct (map fst ?xs)" using assms(1) by (simp add: accounting_ok_def)
  have ok: "\<forall>e \<in> set ?ys. assembly_ok (fst e) (snd e)"
    using assms(1) by (auto simp: accounting_ok_def dest: in_set_deleteD)
  have b: "buffered p ?ys = buffered p ?xs - (if fst key = p then as_bytes a else 0)" for p
    using assms(2) by (simp add: buffered_delete [OF d])
  have nn: "0 \<le> buffered (fst key) ?ys" using ok by (rule buffered_nonneg)
  have cap: "buffered (fst key) ?xs \<le> maxWUSPFragmentBytesPerPeer"
    using assms(1) by (simp add: accounting_ok_def)
  then have "buffered (fst key) ?xs - as_bytes a \<le> maxWUSPFragmentBytesPerPeer" "0 \<le> maxWUSPFragmentBytesPerPeer"
    using assembly_bytes_pos [OF accounting_pending [OF assms]]
    by (simp_all add: maxWUSPFragmentBytesPerPeer_def)
  then show ?thesis
    using nn
    using assms(1) ok b d assembly_bytes_pos [OF accounting_pending [OF assms]]
    unfolding accounting_ok_def dropWUSPAssemblyLocked_def peer_bytes_buffered [OF assms(1)] Let_def
    by (auto simp: distinct_delete)
qed

lemma put_accounting:
  assumes "accounting_ok s" "assembly_ok key a"
    "b = (case map_of (wf_pending s) key of None \<Rightarrow> 0 | Some c \<Rightarrow> as_bytes c)"
    "peer_bytes s (fst key) + (as_bytes a - b) \<le> maxWUSPFragmentBytesPerPeer"
  shows "accounting_ok (s\<lparr>wf_pending := AList.update key a (wf_pending s),
    wf_bytesByPeer := (wf_bytesByPeer s)(fst key \<mapsto> peer_bytes s (fst key) + (as_bytes a - b))\<rparr>)"
proof -
  let ?xs = "wf_pending s" and ?ys = "AList.update key a (wf_pending s)"
  have d: "distinct (map fst ?xs)" using assms(1) by (simp add: accounting_ok_def)
  have ok: "\<forall>e \<in> set ?ys. assembly_ok (fst e) (snd e)"
    using assms(1,2) by (auto simp: accounting_ok_def dest!: in_set_updateD)
  have eq: "buffered p ?ys = buffered p ?xs + (if fst key = p then as_bytes a - b else 0)" for p
    using assms(3) by (simp add: buffered_update [OF d])
  have "(key, a) \<in> set ?ys" using d by (metis distinct_update map_of_is_SomeI map_of_SomeD update_conv' fun_upd_same)
  then have "as_bytes a \<le> buffered (fst key) ?ys"
    unfolding buffered_def using ok
    using assembly_bytes_pos by (intro order_trans [OF _ assoc_sum_ge [of ?ys _ "(key, a)"]]) fastforce+
  then show ?thesis
    using assms ok eq d assembly_bytes_pos [OF assms(2)]
    unfolding accounting_ok_def peer_bytes_buffered [OF assms(1)]
    by (auto simp: distinct_update)
qed

definition expired :: "time \<Rightarrow> fragment_key \<times> wusp_assembly \<Rightarrow> bool" where
  "expired now e \<longleftrightarrow> wuspFragmentAssemblyTTL < time_Sub now (as_updated (snd e))"

lemma prune_each_ok:
  assumes "accounting_ok s" "distinct (map fst xs)" "\<forall>e \<in> set xs. map_of (wf_pending s) (fst e) = Some (snd e)"
  shows "accounting_ok (prune_each now xs s) \<and>
    wf_pending (prune_each now xs s) =
      filter (\<lambda>e. \<not> (expired now e \<and> fst e \<in> fst ` set xs)) (wf_pending s)"
  using assms
proof (induction xs arbitrary: s)
  case (Cons x xs)
  obtain key a where x: "x = (key, a)" by fastforce
  let ?s = "if expired now x then dropWUSPAssemblyLocked key a s else s"
  have look: "map_of (wf_pending s) key = Some a" using Cons.prems(3) x by simp
  have d: "distinct (map fst (wf_pending s))" using Cons.prems(1) by (simp add: accounting_ok_def)
  have pend: "wf_pending ?s = filter (\<lambda>e. \<not> (expired now e \<and> fst e = key)) (wf_pending s)"
  proof -
    have "expired now e = expired now x" if "e \<in> set (wf_pending s)" "fst e = key" for e
      using that look d x by (metis map_of_eq_Some_iff option.inject prod.collapse)
    then show ?thesis
      by (auto simp: dropWUSPAssemblyLocked_def AList.delete_eq split_beta intro!: filter_cong [OF refl]
          filter_True [symmetric])
  qed
  have acc: "accounting_ok ?s" using drop_accounting [OF Cons.prems(1) look] Cons.prems(1) by simp
  have rest: "map_of (wf_pending ?s) (fst e) = Some (snd e)" if "e \<in> set xs" for e
    using Cons.prems(2,3) that x by (auto simp: dropWUSPAssemblyLocked_def delete_conv')
  have step: "prune_each now (x # xs) s = prune_each now xs ?s" by (simp add: x expired_def)
  have "filter (\<lambda>e. \<not> (expired now e \<and> fst e \<in> fst ` set xs)) (wf_pending ?s) =
      filter (\<lambda>e. \<not> (expired now e \<and> fst e \<in> fst ` set (x # xs))) (wf_pending s)"
    unfolding pend filter_filter by (rule filter_cong) (auto simp: x)
  moreover have "accounting_ok (prune_each now xs ?s) \<and> wf_pending (prune_each now xs ?s) =
      filter (\<lambda>e. \<not> (expired now e \<and> fst e \<in> fst ` set xs)) (wf_pending ?s)"
    using Cons.IH [OF acc] Cons.prems(2) rest by simp
  ultimately show ?case unfolding step by simp
qed simp

lemma prune_ok:
  assumes "fragments_inv s"
  shows "fragments_inv (pruneExpiredWUSPFragmentsLocked now s)"
    and "wf_pending (pruneExpiredWUSPFragmentsLocked now s) = filter (\<lambda>e. \<not> expired now e) (wf_pending s)"
proof -
  have acc: "accounting_ok s" and d: "distinct (map fst (wf_pending s))"
    using assms by (simp_all add: fragments_inv_def accounting_ok_def)
  have "\<forall>e \<in> set (wf_pending s). map_of (wf_pending s) (fst e) = Some (snd e)"
    using d by simp
  note * = prune_each_ok [OF acc d this, of now]
  then show eq: "wf_pending (pruneExpiredWUSPFragmentsLocked now s) = filter (\<lambda>e. \<not> expired now e) (wf_pending s)"
    by (auto simp: pruneExpiredWUSPFragmentsLocked_def intro!: filter_cong)
  show "fragments_inv (pruneExpiredWUSPFragmentsLocked now s)"
    using * assms eq by (auto simp: fragments_inv_def pruneExpiredWUSPFragmentsLocked_def)
qed

lemma new_assembly_ok:
  assumes "validateUSPControlFragment f = None"
  shows "assembly_ok key \<lparr>as_updated = now, as_fragments = replicate (unat (fr_Count f)) zero_fragment,
    as_received = 0, as_bytes = int (unat (fr_Count f)) * wuspFragmentSlotCost\<rparr>"
proof -
  have "0 < unat (fr_Count f)" using assms by (simp add: validate_None_iff unat_gt_0)
  then show ?thesis
    using assms
    by (simp add: assembly_ok_def slot_ok_def filled_def zero_fragment_def validate_None_iff sum_list_replicate
        map_replicate_const [symmetric])
qed

lemma open_assembly_ok:
  assumes "fragments_inv s" "validateUSPControlFragment f = None" "open_assembly key f now s = Some (a, s1)"
  shows "fragments_inv s1 \<and> map_of (wf_pending s1) key = Some a \<and> assembly_ok key a"
proof (cases "map_of (wf_pending s) key")
  case None
  let ?a = "\<lparr>as_updated = now, as_fragments = replicate (unat (fr_Count f)) zero_fragment,
    as_received = 0, as_bytes = int (unat (fr_Count f)) * wuspFragmentSlotCost\<rparr>"
  have acc: "accounting_ok s" using assms(1) by (simp add: fragments_inv_def)
  from None assms(3) have room: "peer_bytes s (fst key) + as_bytes ?a \<le> maxWUSPFragmentBytesPerPeer"
    and a: "a = ?a"
    and s1: "s1 = s\<lparr>wf_pending := AList.update key ?a (wf_pending s),
      wf_bytesByPeer := (wf_bytesByPeer s)(fst key \<mapsto> peer_bytes s (fst key) + (as_bytes ?a - 0))\<rparr>"
    by (auto simp: open_assembly_def chargeWUSPFragmentsLocked_def Let_def split: if_splits)
  have "0 < unat (fr_Count f)" using assms(2) by (simp add: validate_None_iff unat_gt_0)
  then have p: "pending_ok (key, ?a)"
    using new_assembly_ok [OF assms(2)]
    by (simp add: pending_ok_def filled_def zero_fragment_def)
  have "accounting_ok s1"
    unfolding s1 using room None by (intro put_accounting [OF acc new_assembly_ok [OF assms(2)]]) simp_all
  then show ?thesis
    using p assms(1) new_assembly_ok [OF assms(2)] unfolding a
    by (auto simp: fragments_inv_def s1 update_conv' dest!: in_set_updateD)
next
  case (Some b)
  then show ?thesis
    using assms accounting_pending [of s key b] by (auto simp: open_assembly_def fragments_inv_def)
qed

lemma filled_update:
  "\<lbrakk>i < length fs; fr_Data (fs ! i) = []; fr_Data f \<noteq> []\<rbrakk> \<Longrightarrow> filled (fs[i := f]) = Suc (filled fs)"
proof (induction fs arbitrary: i)
  case (Cons g fs)
  then show ?case by (cases i) (auto simp: filled_def)
qed simp

lemma filled_le: "filled fs \<le> length fs"
  by (simp add: filled_def)

lemma filled_all: "filled fs = length fs \<Longrightarrow> g \<in> set fs \<Longrightarrow> fr_Data g \<noteq> []"
  unfolding filled_def by (metis (mono_tags, lifting) filter_id_conv length_filter_less less_irrefl)

lemma AList_update_idem: "AList.update k v (AList.update k w xs) = AList.update k v xs"
  by (induction xs) auto

lemma store_assembly_ok:
  assumes "assembly_ok key a" "validateUSPControlFragment f = None" "fr_MessageID f = snd key"
    "length (as_fragments a) = unat (fr_Count f)" "fr_Data (as_fragments a ! unat (fr_Index f)) = []"
  shows "assembly_ok key \<lparr>as_updated = t, as_fragments = (as_fragments a)[unat (fr_Index f) := f],
    as_received = as_received a + 1, as_bytes = as_bytes a + int (length (fr_Data f))\<rparr>"
proof -
  let ?fs = "as_fragments a" and ?i = "unat (fr_Index f)"
  have i: "?i < length ?fs" and data: "fr_Data f \<noteq> []"
    using assms by (auto simp: validate_None_iff word_less_nat_alt)
  have fill: "filled (?fs[?i := f]) = Suc (filled ?fs)"
    using i assms(5) data by (rule filled_update)
  have le: "filled (?fs[?i := f]) \<le> MaxUSPControlFragmentCount"
    using filled_le [of "?fs[?i := f]"] assms(1) by (simp add: assembly_ok_def)
  have rec: "unat (as_received a) = filled ?fs" using assms(1) by (simp add: assembly_ok_def)
  have "unat (as_received a + 1) = Suc (filled ?fs)"
    using rec fill le by (simp add: unatSuc unat_word_ariths MaxUSPControlFragmentCount_def)
  moreover have "sum_list (map (length \<circ> fr_Data) (?fs[?i := f])) =
      sum_list (map (length \<circ> fr_Data) ?fs) + length (fr_Data f)"
    using i assms(5) by (simp add: map_update sum_list_update comp_def)
  moreover have "slot_ok key (?fs[?i := f]) j" if "j < length ?fs" for j
    using assms that by (cases "j = ?i") (auto simp: assembly_ok_def slot_ok_def)
  ultimately show ?thesis
    using assms(1) fill by (simp add: assembly_ok_def)
qed

lemma touch_ok: "assembly_ok key (a\<lparr>as_updated := t\<rparr>) = assembly_ok key a"
  by (simp add: assembly_ok_def)

lemma store_fragment_ok:
  assumes inv: "fragments_inv s" "map_of (wf_pending s) key = Some a" "assembly_ok key a"
    and f: "validateUSPControlFragment f = None" "fr_MessageID f = snd key"
      "length (as_fragments a) = unat (fr_Count f)"
    and store: "store_fragment key f now a s = Inr (a2, s2)"
  shows "accounting_ok s2 \<and> map_of (wf_pending s2) key = Some a2 \<and> assembly_ok key a2 \<and>
    length (as_fragments a2) = length (as_fragments a) \<and>
    (\<forall>e \<in> set (wf_pending s2). fst e \<noteq> key \<longrightarrow> pending_ok e)"
proof -
  have acc: "accounting_ok s" using inv(1) by (simp add: fragments_inv_def)
  have others: "\<forall>e \<in> set (AList.update key b (wf_pending s)). fst e \<noteq> key \<longrightarrow> pending_ok e" for b
    using inv(1) by (auto simp: fragments_inv_def dest!: in_set_updateD)
  show ?thesis
  proof (cases "fr_Data (as_fragments a ! unat (fr_Index f)) = []")
    case True
    let ?a = "\<lparr>as_updated = now, as_fragments = (as_fragments a)[unat (fr_Index f) := f],
      as_received = as_received a + 1, as_bytes = as_bytes a + int (length (fr_Data f))\<rparr>"
    from True store have room: "peer_bytes s (fst key) + (as_bytes ?a - as_bytes a) \<le> maxWUSPFragmentBytesPerPeer"
      and a2: "a2 = ?a"
      and s2: "s2 = s\<lparr>wf_pending := AList.update key ?a (wf_pending s),
        wf_bytesByPeer := (wf_bytesByPeer s)(fst key \<mapsto> peer_bytes s (fst key) + (as_bytes ?a - as_bytes a))\<rparr>"
      by (cases a; cases s;
          auto simp: store_fragment_def chargeWUSPFragmentsLocked_def Let_def AList_update_idem split: if_splits)+
    have ok: "assembly_ok key ?a" using inv(3) f True by (rule store_assembly_ok)
    have "accounting_ok s2" unfolding s2 using inv(2) room by (intro put_accounting [OF acc ok]) simp_all
    then show ?thesis using ok others by (simp add: s2 a2 update_conv')
  next
    case False
    let ?a = "a\<lparr>as_updated := now\<rparr>"
    from False store have a2: "a2 = ?a" and s2: "s2 = s\<lparr>wf_pending := AList.update key ?a (wf_pending s)\<rparr>"
      by (auto simp: store_fragment_def Let_def)
    have ok: "assembly_ok key ?a" using inv(3) by (simp add: touch_ok)
    have "buffered p (AList.update key ?a (wf_pending s)) = buffered p (wf_pending s)" for p
      using acc inv(2) by (simp add: buffered_update accounting_ok_def)
    then have "accounting_ok s2"
      using acc ok by (auto simp: accounting_ok_def s2 distinct_update dest!: in_set_updateD)
    then show ?thesis using ok others by (simp add: s2 a2 update_conv')
  qed
qed

lemma drop_inv:
  assumes "accounting_ok s" "map_of (wf_pending s) key = Some a"
    "\<forall>e \<in> set (wf_pending s). fst e \<noteq> key \<longrightarrow> pending_ok e"
  shows "fragments_inv (dropWUSPAssemblyLocked key a s)"
  using drop_accounting [OF assms(1,2)] assms(3)
  by (auto simp: fragments_inv_def dropWUSPAssemblyLocked_def dest!: in_set_deleteD)

lemma incomplete_inv:
  assumes "accounting_ok s" "map_of (wf_pending s) key = Some a" "assembly_ok key a"
    "length (as_fragments a) = unat c" "as_received a \<noteq> c"
    "\<forall>e \<in> set (wf_pending s). fst e \<noteq> key \<longrightarrow> pending_ok e"
  shows "fragments_inv s"
proof -
  have "filled (as_fragments a) \<noteq> length (as_fragments a)"
    using assms(3,4,5) by (auto simp: assembly_ok_def word_unat_eq_iff)
  then have "pending_ok (key, a)"
    using assms(3) filled_le [of "as_fragments a"] by (simp add: pending_ok_def)
  moreover have "e = (key, a)" if "e \<in> set (wf_pending s)" "fst e = key" for e
    using assms(1,2) that by (intro map_of_entry) (simp_all add: accounting_ok_def)
  ultimately show ?thesis using assms(1,6) by (auto simp: fragments_inv_def)
qed

lemma consume_fragment_inv:
  assumes "fragments_inv s" "validateUSPControlFragment f = None"
  shows "fragments_inv (snd (consume_fragment peer f now s))"
proof -
  let ?s = "pruneExpiredWUSPFragmentsLocked now s" and ?key = "(peer, fr_MessageID f)"
  have inv: "fragments_inv ?s" using assms(1) by (rule prune_ok)
  show ?thesis
  proof (cases "open_assembly ?key f now ?s")
    case None
    then show ?thesis using inv by (simp add: consume_fragment_def)
  next
    case (Some r)
    then obtain a s1 where r: "open_assembly ?key f now ?s = Some (a, s1)" by (cases r) simp
    have o: "fragments_inv s1" "map_of (wf_pending s1) ?key = Some a" "assembly_ok ?key a"
      using open_assembly_ok [OF inv assms(2) r] by simp_all
    have dropped: "fragments_inv (dropWUSPAssemblyLocked ?key a s1)"
      using o by (intro drop_inv) (auto simp: fragments_inv_def)
    show ?thesis
    proof (cases "length (as_fragments a) = unat (fr_Count f)")
      case len: True
      show ?thesis
      proof (cases "store_fragment ?key f now a s1")
        case (Inl e)
        then show ?thesis using r len dropped by (simp add: consume_fragment_def)
      next
        case (Inr r2)
        then obtain a2 s2 where r2: "store_fragment ?key f now a s1 = Inr (a2, s2)" by (cases r2) simp
        have st: "accounting_ok s2" "map_of (wf_pending s2) ?key = Some a2" "assembly_ok ?key a2"
          "length (as_fragments a2) = unat (fr_Count f)"
          "\<forall>e \<in> set (wf_pending s2). fst e \<noteq> ?key \<longrightarrow> pending_ok e"
          using store_fragment_ok [OF o assms(2) _ len r2] len by simp_all
        have "fragments_inv s2" if "as_received a2 \<noteq> fr_Count f"
          using st that by (intro incomplete_inv)
        moreover have "fragments_inv (dropWUSPAssemblyLocked ?key a2 s2)"
          using st(1,2,5) by (rule drop_inv)
        ultimately show ?thesis using r len r2 by (simp add: consume_fragment_def)
      qed
    qed (use r dropped in \<open>simp add: consume_fragment_def\<close>)
  qed
qed

lemma decoded_valid: "DecodeUSPControlFragment d = Fragment f \<Longrightarrow> validateUSPControlFragment f = None"
  by (auto simp: DecodeUSPControlFragment_def Let_def split: if_splits option.splits)

lemma consume_inv [inv_intros]:
  "fragments_inv s \<Longrightarrow> fragments_inv (snd (consumeWUSPPayload peer payload now s))"
  by (auto simp: consumeWUSPPayload_def split: decoded_fragment.split
      intro: consume_fragment_inv dest: decoded_valid)

lemma nextID_inv [inv_intros]: "fragments_inv s \<Longrightarrow> fragments_inv (snd (nextWUSPFragmentMessageID s))"
  by (simp add: nextWUSPFragmentMessageID_def fragments_inv_def accounting_ok_def)

datatype fragment_event = Receive peer_ref bytes time | AllocateID

primrec fragment_step :: "wusp_fragments \<Rightarrow> fragment_event \<Rightarrow> wusp_fragments" where
  "fragment_step s (Receive peer payload now) = snd (consumeWUSPPayload peer payload now s)"
| "fragment_step s AllocateID = snd (nextWUSPFragmentMessageID s)"

interpretation fragment_buffer: event_system fragment_step no_fragments fragments_inv
proof unfold_locales
  show "fragments_inv no_fragments"
    by (simp add: fragments_inv_def accounting_ok_def no_fragments_def buffered_def maxWUSPFragmentBytesPerPeer_def)
  show "fragments_inv (fragment_step s e)" if "fragments_inv s" for s e
    using that by (cases e) (simp_all add: inv_intros)
qed

text \<open>The payload bytes and the slots the buffer holds for a peer.\<close>

definition held_bytes :: "peer_ref \<Rightarrow> wusp_fragments \<Rightarrow> int" where
  "held_bytes p s = assoc_sum (\<lambda>e. if fst (fst e) = p
     then int (length (as_fragments (snd e))) * wuspFragmentSlotCost +
       int (sum_list (map (length \<circ> fr_Data) (as_fragments (snd e)))) else 0) (wf_pending s)"

lemma held_buffered: "accounting_ok s \<Longrightarrow> held_bytes p s = buffered p (wf_pending s)"
  unfolding held_bytes_def buffered_def assoc_sum_def
  by (intro arg_cong [of _ _ sum_list] map_cong refl) (simp add: accounting_ok_def assembly_ok_def)

text \<open>
  C11. Whatever payloads any peers send, in any order and at any times, the memory the device holds for
  one peer's incomplete messages (48 bytes per declared slot plus the buffered data) never exceeds
  32 MiB, the per-peer counter is exactly that memory, with no entry when nothing is held, and no
  complete assembly stays in the buffer.
\<close>

theorem fragment_budget:
  fixes es defines "s \<equiv> foldl fragment_step no_fragments es"
  shows "held_bytes p s \<le> maxWUSPFragmentBytesPerPeer \<and>
    wf_bytesByPeer s p = (if held_bytes p s = 0 then None else Some (held_bytes p s)) \<and>
    (\<forall>e \<in> set (wf_pending s). filled (as_fragments (snd e)) < length (as_fragments (snd e)))"
proof -
  have "fragments_inv s"
    using fragment_buffer.run_inv [of es] by (simp add: fragment_buffer.run_def s_def)
  then show ?thesis
    by (auto simp: fragments_inv_def held_buffered accounting_ok_def pending_ok_def)
qed

theorem fragment_budget_witness:
  "(\<exists>e. wf_pending (foldl fragment_step no_fragments
     [Receive 4 ([0x54, 1, 0] @ put_le 8 (1 :: u64) @ put_le 4 (1 :: u32) @ put_le 4 (2 :: u32) @ put_le 4 (0 :: u32) @ [3]) 1]) = [e] \<and>
     filled (as_fragments (snd e)) < length (as_fragments (snd e)))"
proof -
  let ?es = "[Receive 4 ([0x54, 1, 0] @ put_le 8 (1 :: u64) @ put_le 4 (1 :: u32) @ put_le 4 (2 :: u32) @ put_le 4 (0 :: u32) @ [3]) 1]"
  have "length (wf_pending (foldl fragment_step no_fragments ?es)) = 1"
    by (simp add: consumeWUSPPayload_def DecodeUSPControlFragment_def uspControlFragmentMagic_def
      uspControlFragmentHeaderSize_def uspControlFragmentVersion_def slice_def get_le_put_le get_put_le_u64 Let_def validateUSPControlFragment_def
      MaxUSPControlFragmentCount_def MaxUSPControlMessageSize_def word_le_nat_alt consume_fragment_def no_fragments_def
      pruneExpiredWUSPFragmentsLocked_def open_assembly_def maxWUSPFragmentBytesPerPeer_def peer_bytes_def wuspFragmentSlotCost_def
      chargeWUSPFragmentsLocked_def store_fragment_def zero_fragment_def)
  moreover have "\<exists>e. xs = [e]" if "length xs = 1" for xs :: "(fragment_key \<times> wusp_assembly) list"
    using that by (cases xs) simp_all
  ultimately obtain e where e: "wf_pending (foldl fragment_step no_fragments ?es) = [e]" by blast
  from fragment_budget [of 4 ?es] have "\<forall>e \<in> set [e]. filled (as_fragments (snd e)) < length (as_fragments (snd e))"
    unfolding e by blast
  with e show ?thesis by (intro exI [of _ e]) simp
qed

section \<open>Delivery\<close>

fun consume_all :: "peer_ref \<Rightarrow> (time \<times> bytes) list \<Rightarrow> wusp_fragments \<Rightarrow> consume_result list \<times> wusp_fragments" where
  "consume_all peer [] s = ([], s)"
| "consume_all peer ((now, payload) # rest) s =
     (let (r, s1) = consumeWUSPPayload peer payload now s; (rs, s2) = consume_all peer rest s1 in (r # rs, s2))"

text \<open>The fragments of one message in index order.\<close>

definition message_fragments :: "u64 \<Rightarrow> usp_fragment list \<Rightarrow> bool" where
  "message_fragments mid gs \<longleftrightarrow>
     (\<forall>i < length gs. validateUSPControlFragment (gs ! i) = None \<and> fr_MessageID (gs ! i) = mid \<and>
        unat (fr_Index (gs ! i)) = i \<and> unat (fr_Count (gs ! i)) = length gs)"

definition slots :: "usp_fragment list \<Rightarrow> usp_fragment set \<Rightarrow> usp_fragment list" where
  "slots gs D = map (\<lambda>g. if g \<in> D then g else zero_fragment) gs"

lemma slots_insert:
  assumes "message_fragments mid gs" "f \<in> set gs"
  shows "(slots gs D)[unat (fr_Index f) := f] = slots gs (insert f D)"
proof (rule nth_equalityI)
  fix j assume "j < length ((slots gs D)[unat (fr_Index f) := f])"
  then have j: "j < length gs" by (simp add: slots_def)
  have "j = unat (fr_Index f) \<longleftrightarrow> gs ! j = f"
    using assms j by (auto simp: message_fragments_def in_set_conv_nth)
  then show "(slots gs D)[unat (fr_Index f) := f] ! j = slots gs (insert f D) ! j"
    using j by (auto simp: slots_def nth_list_update)
qed (simp add: slots_def)

lemma slots_nth:
  assumes "message_fragments mid gs" "f \<in> set gs" "f \<notin> D"
  shows "fr_Data (slots gs D ! unat (fr_Index f)) = []"
  using assms by (auto simp: message_fragments_def in_set_conv_nth slots_def zero_fragment_def)

lemma message_data: "message_fragments mid gs \<Longrightarrow> g \<in> set gs \<Longrightarrow> fr_Data g \<noteq> []"
  by (auto simp: message_fragments_def in_set_conv_nth validate_None_iff)

lemma filled_slots:
  "message_fragments mid gs \<Longrightarrow> filled (slots gs D) = length gs \<longleftrightarrow> set gs \<subseteq> D"
proof
  assume m: "message_fragments mid gs" and full: "filled (slots gs D) = length gs"
  show "set gs \<subseteq> D"
  proof
    fix g assume "g \<in> set gs"
    then obtain i where i: "i < length gs" "g = gs ! i" by (auto simp: in_set_conv_nth)
    then have "slots gs D ! i \<in> set (slots gs D)" by (intro nth_mem) (simp add: slots_def)
    then have "fr_Data (slots gs D ! i) \<noteq> []" using full filled_all [of "slots gs D"] by (simp add: slots_def)
    then show "g \<in> D" using i by (auto simp: slots_def zero_fragment_def split: if_splits)
  qed
next
  assume m: "message_fragments mid gs" and "set gs \<subseteq> D"
  then have "slots gs D = gs" unfolding slots_def by (intro map_idI) auto
  then show "filled (slots gs D) = length gs" using message_data [OF m] by (simp add: filled_def)
qed

text \<open>
  The buffer while the fragments \<open>D\<close> of the message have arrived: its assembly holds them, was touched
  in the time window, and the rest of the message still fits in the budget.
\<close>

definition progress ::
    "peer_ref \<Rightarrow> u64 \<Rightarrow> usp_fragment list \<Rightarrow> time set \<Rightarrow> usp_fragment list \<Rightarrow> wusp_fragments \<Rightarrow> bool" where
  "progress peer mid gs T ds s \<longleftrightarrow> fragments_inv s \<and>
     (case map_of (wf_pending s) (peer, mid) of
        None \<Rightarrow> ds = [] \<and>
          peer_bytes s peer + int (length gs) * wuspFragmentSlotCost +
            int (sum_list (map (length \<circ> fr_Data) gs)) \<le> maxWUSPFragmentBytesPerPeer
      | Some a \<Rightarrow> as_fragments a = slots gs (set ds) \<and> as_updated a \<in> T \<and>
          peer_bytes s peer + int (\<Sum>g \<in> set gs - set ds. length (fr_Data g)) \<le> maxWUSPFragmentBytesPerPeer)"

definition within_ttl :: "time set \<Rightarrow> bool" where
  "within_ttl T \<longleftrightarrow> (\<forall>t \<in> T. \<forall>u \<in> T. t - u \<le> wuspFragmentAssemblyTTL)"

lemma not_expired: "\<lbrakk>within_ttl T; now \<in> T; as_updated a \<in> T\<rbrakk> \<Longrightarrow> \<not> expired now (key, a)"
  by (simp add: expired_def within_ttl_def wuspFragmentAssemblyTTL_def time_Sub_gt_iff max_duration_def)
    (meson linorder_not_less)

lemma prune_progress:
  assumes "progress peer mid gs T ds s" "within_ttl T" "now \<in> T"
  shows "progress peer mid gs T ds (pruneExpiredWUSPFragmentsLocked now s)"
proof -
  let ?s = "pruneExpiredWUSPFragmentsLocked now s"
  have inv: "fragments_inv s" using assms(1) by (simp add: progress_def)
  have inv': "fragments_inv ?s" using inv by (rule prune_ok)
  have d: "distinct (map fst (wf_pending s))" using inv by (simp add: fragments_inv_def accounting_ok_def)
  have pos: "0 \<le> as_bytes (snd e)" if "e \<in> set (wf_pending s)" for e
    using inv that by (intro less_imp_le assembly_bytes_pos [of "fst e"]) (simp add: fragments_inv_def accounting_ok_def)
  have "peer_bytes ?s peer \<le> peer_bytes s peer"
    using inv inv' pos
    by (auto simp: fragments_inv_def peer_bytes_buffered prune_ok(2) [OF inv] buffered_def
        intro!: assoc_sum_filter_le)
  then show ?thesis
    using assms inv' not_expired [OF assms(2,3)]
    by (auto simp: progress_def prune_ok(2) [OF inv] map_of_filter [OF d] split: option.splits if_splits)
qed

lemma peer_bytes_charge:
  "peer_bytes (s\<lparr>wf_pending := xs, wf_bytesByPeer := m(p \<mapsto> n)\<rparr>) p = n"
  by (simp add: peer_bytes_def)

lemma slots_empty: "slots gs {} = replicate (length gs) zero_fragment"
  by (simp add: slots_def map_replicate_const)

lemma progress_open:
  assumes "progress peer mid gs T ds s" "message_fragments mid gs" "f \<in> set gs" "now \<in> T"
  shows "\<exists>a s1. open_assembly (peer, mid) f now s = Some (a, s1) \<and>
    map_of (wf_pending s1) (peer, mid) = Some a \<and> progress peer mid gs T ds s1"
proof (cases "map_of (wf_pending s) (peer, mid)")
  case None
  have f: "validateUSPControlFragment f = None" "unat (fr_Count f) = length gs"
    using assms(2,3) by (auto simp: message_fragments_def in_set_conv_nth)
  have dist: "distinct gs"
    using assms(2) by (auto simp: message_fragments_def distinct_conv_nth) metis
  from None assms(1) have room: "ds = []" "fragments_inv s" "peer_bytes s peer + int (length gs) * wuspFragmentSlotCost +
      int (sum_list (map (length \<circ> fr_Data) gs)) \<le> maxWUSPFragmentBytesPerPeer"
    by (simp_all add: progress_def)
  moreover have "0 \<le> int (sum_list (map (length \<circ> fr_Data) gs))" by simp
  ultimately have "\<not> maxWUSPFragmentBytesPerPeer < peer_bytes s peer + int (length gs) * wuspFragmentSlotCost"
    by linarith
  then obtain a s1 where o: "open_assembly (peer, mid) f now s = Some (a, s1)"
      "as_fragments a = slots gs {}" "as_updated a \<in> T"
      "peer_bytes s1 peer = peer_bytes s peer + int (length gs) * wuspFragmentSlotCost"
    using None f(2) assms(4)
    by (simp add: open_assembly_def chargeWUSPFragmentsLocked_def Let_def slots_empty peer_bytes_charge)
  have "fragments_inv s1" "map_of (wf_pending s1) (peer, mid) = Some a"
    using open_assembly_ok [OF room(2) f(1) o(1)] by simp_all
  moreover have "(\<Sum>g \<in> set gs. length (fr_Data g)) = sum_list (map (length \<circ> fr_Data) gs)"
    using dist by (simp add: sum_list_distinct_conv_sum_set)
  ultimately show ?thesis using o room by (auto simp: progress_def)
qed (use assms in \<open>simp add: open_assembly_def\<close>)

lemma progress_store:
  assumes prog: "progress peer mid gs T ds s" and a: "map_of (wf_pending s) (peer, mid) = Some a"
    and m: "message_fragments mid gs" and f: "f \<in> set gs" "f \<notin> set ds" and now: "now \<in> T"
  shows "\<exists>a2 s2. store_fragment (peer, mid) f now a s = Inr (a2, s2) \<and> length (as_fragments a) = unat (fr_Count f) \<and>
    as_fragments a2 = slots gs (set (f # ds)) \<and>
    (as_received a2 = fr_Count f \<longleftrightarrow> set gs \<subseteq> set (f # ds)) \<and>
    (as_received a2 \<noteq> fr_Count f \<longrightarrow> progress peer mid gs T (f # ds) s2)"
proof -
  have fi: "validateUSPControlFragment f = None" "unat (fr_Count f) = length gs" "fr_MessageID f = mid"
    using m f(1) by (auto simp: message_fragments_def in_set_conv_nth)
  from prog a have inv: "fragments_inv s" and frs: "as_fragments a = slots gs (set ds)"
    and room: "peer_bytes s peer + int (\<Sum>g \<in> set gs - set ds. length (fr_Data g)) \<le> maxWUSPFragmentBytesPerPeer"
    by (simp_all add: progress_def)
  have split: "(\<Sum>g \<in> set gs - set ds. length (fr_Data g)) =
      length (fr_Data f) + (\<Sum>g \<in> set gs - set (f # ds). length (fr_Data g))"
    using f by (subst sum.remove [of _ f]) (auto intro!: sum.cong)
  have len: "length (as_fragments a) = unat (fr_Count f)" using frs fi by (simp add: slots_def)
  have "\<not> maxWUSPFragmentBytesPerPeer < peer_bytes s peer + int (length (fr_Data f))"
    using room unfolding split by linarith
  then obtain a2 s2 where st: "store_fragment (peer, mid) f now a s = Inr (a2, s2)"
      "as_fragments a2 = slots gs (set (f # ds))" "as_updated a2 = now"
      "peer_bytes s2 peer = peer_bytes s peer + int (length (fr_Data f))"
    using slots_nth [OF m f] slots_insert [OF m f(1), of "set ds"] frs
    by (simp add: store_fragment_def chargeWUSPFragmentsLocked_def Let_def peer_bytes_def)
  have ok: "assembly_ok (peer, mid) a" using inv a accounting_pending by (auto simp: fragments_inv_def)
  have s2: "accounting_ok s2" "map_of (wf_pending s2) (peer, mid) = Some a2" "assembly_ok (peer, mid) a2"
      "length (as_fragments a2) = unat (fr_Count f)" "\<forall>e \<in> set (wf_pending s2). fst e \<noteq> (peer, mid) \<longrightarrow> pending_ok e"
    using store_fragment_ok [OF inv a ok fi(1) _ len st(1)] fi(3) len by simp_all
  have "as_received a2 = fr_Count f \<longleftrightarrow> filled (slots gs (set (f # ds))) = length gs"
    using s2(3) fi(2) st(2) by (simp add: assembly_ok_def word_unat_eq_iff)
  moreover have "progress peer mid gs T (f # ds) s2" if "as_received a2 \<noteq> fr_Count f"
    using incomplete_inv [OF s2(1-4) that s2(5)] s2(2) st room now unfolding split by (simp add: progress_def)
  ultimately show ?thesis using st len filled_slots [OF m] by blast
qed

lemma progress_step:
  assumes prog: "progress peer mid gs T ds s" and m: "message_fragments mid gs" and f: "f \<in> set gs" "f \<notin> set ds"
    and now: "within_ttl T" "now \<in> T" and msg: "ReassembleUSPControlFragments gs = Inr payload"
    and frame: "DecodeUSPControlFragment frame = Fragment f"
  shows "if set gs \<subseteq> set (f # ds)
    then \<exists>s'. consumeWUSPPayload peer frame now s = (ConsumeMessage payload, s') \<and>
      map_of (wf_pending s') (peer, mid) = None
    else \<exists>s'. consumeWUSPPayload peer frame now s = (ConsumePending, s') \<and> progress peer mid gs T (f # ds) s'"
proof -
  let ?s = "pruneExpiredWUSPFragmentsLocked now s"
  have mid: "fr_MessageID f = mid" using m f(1) by (auto simp: message_fragments_def in_set_conv_nth)
  obtain a s1 where o: "open_assembly (peer, mid) f now ?s = Some (a, s1)"
      "map_of (wf_pending s1) (peer, mid) = Some a" "progress peer mid gs T ds s1"
    using progress_open [OF prune_progress [OF prog now] m f(1) now(2)] by blast
  obtain a2 s2 where st: "store_fragment (peer, mid) f now a s1 = Inr (a2, s2)"
      "length (as_fragments a) = unat (fr_Count f)" "as_fragments a2 = slots gs (set (f # ds))"
      "as_received a2 = fr_Count f \<longleftrightarrow> set gs \<subseteq> set (f # ds)"
      "as_received a2 \<noteq> fr_Count f \<longrightarrow> progress peer mid gs T (f # ds) s2"
    using progress_store [OF o(3,2) m f now(2)] by blast
  have full: "as_fragments a2 = gs" if "set gs \<subseteq> set (f # ds)"
    using that unfolding st(3) slots_def by (intro map_idI) auto
  show ?thesis
    using o(1) st msg full mid
    by (auto simp: consumeWUSPPayload_def frame consume_fragment_def Let_def dropWUSPAssemblyLocked_def delete_conv')
qed

lemma mset_map_Fragment:
  assumes "mset ds = image_mset Fragment (mset gs)"
  shows "\<exists>fs. ds = map Fragment fs \<and> mset fs = mset gs"
proof -
  let ?un = "\<lambda>d. case d of Fragment f \<Rightarrow> f | _ \<Rightarrow> zero_fragment"
  have "set ds = Fragment ` set gs" using arg_cong [OF assms, of set_mset] by simp
  then have "map Fragment (map ?un ds) = ds" by (auto intro!: map_idI)
  moreover have "mset (map ?un ds) = mset gs" using assms by (simp add: multiset.map_comp comp_def)
  ultimately show ?thesis by metis
qed

lemma deliver_all:
  assumes "progress peer mid gs T ds s" "message_fragments mid gs" "within_ttl T" "fst ` set arrivals \<subseteq> T"
    "ReassembleUSPControlFragments gs = Inr payload" "arrivals \<noteq> []"
    "map (DecodeUSPControlFragment \<circ> snd) arrivals = map Fragment fs"
    "distinct fs" "set fs \<inter> set ds = {}" "set fs \<union> set ds = set gs"
  shows "\<exists>s'. consume_all peer arrivals s =
      (replicate (length arrivals - 1) ConsumePending @ [ConsumeMessage payload], s') \<and>
    map_of (wf_pending s') (peer, mid) = None"
  using assms
proof (induction arrivals arbitrary: ds fs s)
  case (Cons arrival rest)
  obtain now frame where arrival: "arrival = (now, frame)" by fastforce
  obtain f fs' where fs: "fs = f # fs'" "DecodeUSPControlFragment frame = Fragment f"
      "map (DecodeUSPControlFragment \<circ> snd) rest = map Fragment fs'"
    using Cons.prems(7) arrival by (cases fs) (auto simp: comp_def)
  have f: "f \<in> set gs" "f \<notin> set ds" "now \<in> T" using Cons.prems fs(1) arrival by auto
  note step = progress_step [OF Cons.prems(1,2) f(1,2) Cons.prems(3) f(3) Cons.prems(5) fs(2)]
  show ?case
  proof (cases "rest = []")
    case True
    then have "set gs \<subseteq> set (f # ds)" using fs Cons.prems(10) by auto
    then show ?thesis using step True arrival by auto
  next
    case False
    then have "fs' \<noteq> []" using fs(3) by auto
    then have "\<not> set gs \<subseteq> set (f # ds)" using fs(1) Cons.prems(8,9,10) by (cases fs') auto
    then obtain s1 where s1: "consumeWUSPPayload peer frame now s = (ConsumePending, s1)"
        "progress peer mid gs T (f # ds) s1"
      using step by auto
    obtain s' where "consume_all peer rest s1 =
        (replicate (length rest - 1) ConsumePending @ [ConsumeMessage payload], s')"
        "map_of (wf_pending s') (peer, mid) = None"
      using Cons.IH [OF s1(2) Cons.prems(2,3) _ Cons.prems(5) False fs(3)] Cons.prems(4,8,9,10) fs(1) by auto
    then show ?thesis
      using s1(1) arrival False by (cases rest) auto
  qed
qed simp

lemma control_fragments_message:
  assumes "w \<noteq> []" "0 < fps" "mid \<noteq> 0" "(length w + fps - 1) div fps \<le> MaxUSPControlFragmentCount"
  shows "message_fragments mid (control_fragments w mid 0 False fps)"
proof -
  note shape = control_fragments_shape [OF assms(1-3) refl assms(4)]
  let ?gs = "control_fragments w mid 0 False fps"
  have "unat (fr_Index (?gs ! i)) = i" if "i < length ?gs" for i
    using that arg_cong [OF shape(4), of "\<lambda>l. l ! i"] by simp
  moreover have "fr_MessageID g = mid" if "g \<in> set ?gs" for g
    using that by (auto simp: control_fragments_def Let_def)
  ultimately show ?thesis using shape(2,5) by (simp add: message_fragments_def)
qed

lemma deliver_frames:
  assumes "s = foldl fragment_step no_fragments es" "payload \<noteq> []" "mid \<noteq> 0" "length payload \<le> MaxUSPControlMessageSize"
    "(length payload + fps - 1) div fps \<le> MaxUSPControlFragmentCount" "fps = fragment_payload_size maxDatagramPayload"
    "FragmentUSPControlPayload payload mid maxDatagramPayload = Inr frames"
    "mset (map snd arrivals) = mset frames" "within_ttl (fst ` set arrivals)"
    "map_of (wf_pending s) (peer, mid) = None"
    "held_bytes peer s + int (length frames) * wuspFragmentSlotCost + int (length payload) \<le> maxWUSPFragmentBytesPerPeer"
  shows "\<exists>s'. consume_all peer arrivals s =
      (replicate (length arrivals - 1) ConsumePending @ [ConsumeMessage payload], s') \<and>
    map_of (wf_pending s') (peer, mid) = None"
proof -
  let ?gs = "control_fragments payload mid 0 False fps"
  have fps: "0 < fps" by (simp add: assms(6) fragment_payload_size_pos)
  note shape = control_fragments_shape [OF assms(2) fps assms(3) refl assms(5)]
  have inv: "fragments_inv s"
    using fragment_buffer.run_inv [of es] by (simp add: fragment_buffer.run_def assms(1))
  have frames: "map DecodeUSPControlFragment frames = map Fragment ?gs" "length frames = length ?gs"
    using fragment_frames [OF assms(2,3), of maxDatagramPayload] assms(5,6,7) shape(8) by auto
  have "length payload = sum_list (map (length \<circ> fr_Data) ?gs)"
    using arg_cong [OF shape(7), of length] by (simp add: length_concat)
  then have prog: "progress peer mid ?gs (fst ` set arrivals) [] s"
    using inv assms(10,11) frames(2)
    by (simp add: progress_def fragments_inv_def peer_bytes_buffered held_buffered)
  have "mset (map DecodeUSPControlFragment (map snd arrivals)) = mset (map Fragment ?gs)"
    using assms(8) frames(1) by (metis mset_map)
  then obtain fs where fs: "map (DecodeUSPControlFragment \<circ> snd) arrivals = map Fragment fs" "mset fs = mset ?gs"
    using mset_map_Fragment [of "map (DecodeUSPControlFragment \<circ> snd) arrivals" ?gs] by auto
  have msg: "ReassembleUSPControlFragments ?gs = Inr payload"
    using control_fragments_reassemble [OF assms(2) fps assms(3,5,4) refl] .
  have m: "message_fragments mid ?gs" using assms(2) fps assms(3,5) by (rule control_fragments_message)
  have "distinct ?gs"
    using shape(4) by (metis distinct_map distinct_upt)
  then have "distinct fs" "set fs = set ?gs"
    using fs(2) by (metis mset_eq_imp_distinct_iff, metis mset_eq_setD)
  moreover have "arrivals \<noteq> []" using fs shape(1) by auto
  ultimately show ?thesis
    using deliver_all [OF prog m assms(9) subset_refl msg _ fs(1)] by simp
qed

text \<open>
  C18. Delivery: take any reachable buffer in which the peer has no assembly under the message id and
  enough budget for the message. When the datagrams of a fragmented payload arrive in any order, all
  within 30 seconds, the device answers every datagram but the last with ``incomplete'' and the last
  one with exactly the payload, and keeps nothing of the message.
\<close>

theorem fragments_delivered:
  fixes es payload defines "s \<equiv> foldl fragment_step no_fragments es"
  assumes "payload \<noteq> []" "mid \<noteq> 0" "length payload \<le> MaxUSPControlMessageSize"
    "(length payload + fps - 1) div fps \<le> MaxUSPControlFragmentCount" "fps = fragment_payload_size maxDatagramPayload"
    "FragmentUSPControlPayload payload mid maxDatagramPayload = Inr frames"
    "mset (map snd arrivals) = mset frames" "within_ttl (fst ` set arrivals)"
    "map_of (wf_pending s) (peer, mid) = None"
    "held_bytes peer s + int (length frames) * wuspFragmentSlotCost + int (length payload) \<le> maxWUSPFragmentBytesPerPeer"
  shows "\<exists>s'. consume_all peer arrivals s =
      (replicate (length arrivals - 1) ConsumePending @ [ConsumeMessage payload], s') \<and>
    map_of (wf_pending s') (peer, mid) = None"
  using assms(2-) by (rule deliver_frames [OF s_def [THEN meta_eq_to_obj_eq]])

theorem fragments_delivered_witness:
  "\<exists>a b s'. FragmentUSPControlPayload [1, 2, 3] 1 25 = Inr [a, b] \<and>
     consume_all 4 [(1, b), (2, a)] no_fragments = ([ConsumePending, ConsumeMessage [1, 2, 3]], s')"
proof -
  have frames: "FragmentUSPControlPayload [1, 2, 3] 1 25 = Inr
      [[0x54, 1, 0] @ put_le 8 (1 :: u64) @ put_le 4 (0 :: u32) @ put_le 4 (2 :: u32) @ put_le 4 (0 :: u32) @ [1, 2],
       [0x54, 1, 0] @ put_le 8 (1 :: u64) @ put_le 4 (1 :: u32) @ put_le 4 (2 :: u32) @ put_le 4 (0 :: u32) @ [3]]"
    by (simp add: FragmentUSPControlPayload_def compressUSPControlPayload_def control_fragments_def Let_def
        fragment_payload_size_def uspControlFragmentHeaderSize_def EncodeUSPControlFragment_def slice_def
        validateUSPControlFragment_def MaxUSPControlFragmentCount_def MaxUSPControlMessageSize_def
        uspControlFragmentMagic_def uspControlFragmentVersion_def upt_rec word_le_nat_alt)
  let ?a = "[0x54, 1, 0] @ put_le 8 (1 :: u64) @ put_le 4 (0 :: u32) @ put_le 4 (2 :: u32) @ put_le 4 (0 :: u32) @ [1, 2] :: bytes"
  let ?b = "[0x54, 1, 0] @ put_le 8 (1 :: u64) @ put_le 4 (1 :: u32) @ put_le 4 (2 :: u32) @ put_le 4 (0 :: u32) @ [3] :: bytes"
  have "\<exists>s'. consume_all 4 [(1, ?b), (2, ?a)] (foldl fragment_step no_fragments []) =
      (replicate (length [(1 :: time, ?b), (2, ?a)] - 1) ConsumePending @ [ConsumeMessage [1, 2, 3]], s') \<and>
    map_of (wf_pending s') (4, 1) = None"
  proof (rule fragments_delivered [OF _ _ _ _ refl frames])
    show "within_ttl (fst ` set [(1 :: time, ?b), (2, ?a)])"
      by (auto simp: within_ttl_def wuspFragmentAssemblyTTL_def time_Sub_def)
  qed (simp_all add: MaxUSPControlMessageSize_def MaxUSPControlFragmentCount_def fragment_payload_size_def
      uspControlFragmentHeaderSize_def add_mset_commute no_fragments_def held_bytes_def assoc_sum_def wuspFragmentSlotCost_def
      maxWUSPFragmentBytesPerPeer_def)
  with frames show ?thesis by auto
qed

end
