(* ===== verification/Allowed_IPs.thy ===== *)
theory Allowed_IPs
  imports Wan_Prelude
begin

unbundle bit_operations_syntax

text \<open>
  The table of allowed addresses of the WireGuard device (\<^verbatim>\<open>allowedips.go\<close>): two compressed binary tries, one
  for each address family, that lead an address to the peer with the longest matching prefix, and for
  every peer the list of its entries in the order of insertion. The trie is a tree of the same shape as the
  linked entries of the source: the parent links of an entry are its position in the tree, a pointer to an
  entry is the path of child bits that leads to it, or, in the list of a peer, the prefix of the entry, which
  never changes and is unique in its trie. \<^verbatim>\<open>perPeerElem\<close> is set exactly while \<^verbatim>\<open>peer\<close> is, so the model
  has no field for it. \<^verbatim>\<open>bitAtByte\<close> and \<^verbatim>\<open>bitAtShift\<close> are functions of \<^verbatim>\<open>cidr\<close>.
\<close>

section \<open>Bits of addresses\<close>

definition LeadingZeros :: "'a::len word \<Rightarrow> nat" where
  "LeadingZeros w = length (takeWhile (\<lambda>i. \<not> bit w i) (rev [0..<LENGTH('a)]))"

text \<open>The panic for other sizes is out of reach: the tries hold addresses of their own size only.\<close>

definition commonBits :: "bytes \<Rightarrow> bytes \<Rightarrow> nat" where
  "commonBits ip1 ip2 =
     (if length ip1 = 4 then LeadingZeros (get_be ip1 XOR get_be ip2 :: u32)
      else if length ip1 = 16 then
        (let x = get_be (take 8 ip1) XOR get_be (take 8 ip2) :: u64 in
         if x \<noteq> 0 then LeadingZeros x
         else 64 + LeadingZeros (get_be (drop 8 ip1) XOR get_be (drop 8 ip2) :: u64))
      else 0)"

definition bitAtByte :: "nat \<Rightarrow> nat" where "bitAtByte cidr = cidr div 8"
definition bitAtShift :: "nat \<Rightarrow> nat" where "bitAtShift cidr = 7 - cidr mod 8"

definition te_choose :: "nat \<Rightarrow> bytes \<Rightarrow> bool" where
  "te_choose cidr ip \<longleftrightarrow> drop_bit (bitAtShift cidr) (ip ! bitAtByte cidr) AND 1 = 1"

definition CIDRMask :: "nat \<Rightarrow> nat \<Rightarrow> bytes" where
  "CIDRMask ones bits =
     (if bits < ones then []
      else map (\<lambda>i. if 8 * i + 8 \<le> ones then 0xFF else NOT (drop_bit (ones - 8 * i) 0xFF)) [0..<bits div 8])"

definition maskSelf :: "nat \<Rightarrow> bytes \<Rightarrow> bytes" where
  "maskSelf cidr bits =
     (let mask = CIDRMask cidr (length bits * 8) in map2 (AND) bits mask @ drop (length mask) bits)"

text \<open>The bits of an address, most significant first.\<close>

definition ip_bit :: "bytes \<Rightarrow> nat \<Rightarrow> bool" where
  "ip_bit ip i \<longleftrightarrow> bit (ip ! (i div 8)) (7 - i mod 8)"

definition agree :: "nat \<Rightarrow> bytes \<Rightarrow> bytes \<Rightarrow> bool" where
  "agree c a b \<longleftrightarrow> (\<forall>i < c. ip_bit a i = ip_bit b i)"

lemma agree_sym: "agree c a b \<longleftrightarrow> agree c b a"
  by (auto simp: agree_def)

lemma agree_trans: "agree c a b \<Longrightarrow> agree c b d \<Longrightarrow> agree c a d"
  by (simp add: agree_def)

lemma agree_le: "agree c a b \<Longrightarrow> d \<le> c \<Longrightarrow> agree d a b"
  by (simp add: agree_def)

lemma te_choose_bit: "te_choose c ip \<longleftrightarrow> ip_bit ip c"
  by (auto simp: te_choose_def ip_bit_def bitAtByte_def bitAtShift_def and_one_eq mod_2_eq_odd bit_iff_odd_drop_bit)

lemma le_LeadingZeros:
  assumes "c \<le> LENGTH('a::len)"
  shows "c \<le> LeadingZeros (w :: 'a word) \<longleftrightarrow> (\<forall>i < c. \<not> bit w (LENGTH('a) - 1 - i))"
proof -
  let ?xs = "rev [0..<LENGTH('a)]"
  have nth: "?xs ! i = LENGTH('a) - 1 - i" if "i < LENGTH('a)" for i using that by (simp add: rev_nth)
  show ?thesis
  proof
    assume c: "c \<le> LeadingZeros w"
    show "\<forall>i < c. \<not> bit w (LENGTH('a) - 1 - i)"
    proof (intro allI impI)
      fix i assume "i < c"
      then have "i < length (takeWhile (\<lambda>i. \<not> bit w i) ?xs)" using c by (simp add: LeadingZeros_def)
      from takeWhile_nth [OF this] nth_mem [OF this]
      show "\<not> bit w (LENGTH('a) - 1 - i)" using nth [of i] \<open>i < c\<close> assms set_takeWhileD by fastforce
    qed
  next
    assume z: "\<forall>i < c. \<not> bit w (LENGTH('a) - 1 - i)"
    show "c \<le> LeadingZeros w"
      unfolding LeadingZeros_def
      by (rule length_takeWhile_less_P_nth) (use z nth assms in auto)
  qed
qed

lemma LeadingZeros_le: "LeadingZeros (w :: 'a::len word) \<le> LENGTH('a)"
  unfolding LeadingZeros_def using length_takeWhile_le [of _ "rev [0..<LENGTH('a)]"] by simp

lemma bit_get_be:
  "i < 8 * length bs \<Longrightarrow> 8 * length bs \<le> LENGTH('a::len) \<Longrightarrow>
     bit (get_be bs :: 'a word) (8 * length bs - 1 - i) = ip_bit bs i"
proof (induction bs arbitrary: i)
  case (Cons b bs)
  show ?case
  proof (cases "i < 8")
    case True
    then have "8 * length (b # bs) - 1 - i = 8 * length bs + (7 - i)" by simp
    then show ?thesis
      using True Cons.prems bit_get_be_high [of bs "8 * length bs + (7 - i)"]
      by (auto simp: bit_or_iff bit_push_bit_iff bit_ucast_iff ip_bit_def simp del: Nat.add_diff_assoc)
  next
    case False
    then have "8 * length (b # bs) - 1 - i = 8 * length bs - 1 - (i - 8)" "8 * length bs - 1 - (i - 8) < 8 * length bs"
      using Cons.prems by auto
    moreover have "ip_bit (b # bs) i = ip_bit bs (i - 8)"
      using False by (cases i) (auto simp: ip_bit_def nth_Cons' le_div_geq le_mod_geq)
    ultimately show ?thesis
      using Cons.IH [of "i - 8"] Cons.prems False by (auto simp: bit_or_iff bit_push_bit_iff)
  qed
qed simp

lemma LeadingZeros_xor:
  assumes "8 * length a = LENGTH('a::len)" "length b = length a" "c \<le> LENGTH('a)"
  shows "c \<le> LeadingZeros (get_be a XOR get_be b :: 'a word) \<longleftrightarrow> agree c a b"
proof -
  have "bit (get_be a XOR get_be b :: 'a word) (LENGTH('a) - 1 - i) = (ip_bit a i \<noteq> ip_bit b i)" if "i < c" for i
    using that assms bit_get_be [where 'a = 'a, of i a] bit_get_be [where 'a = 'a, of i b] by (simp add: bit_xor_iff)
  then show ?thesis using le_LeadingZeros [OF assms(3)] by (auto simp: agree_def)
qed

lemma ip_bit_take: "i < 8 * n \<Longrightarrow> ip_bit (take n ip) i = ip_bit ip i"
  by (simp add: ip_bit_def less_mult_imp_div_less mult.commute)

lemma ip_bit_drop: "8 * n \<le> i \<Longrightarrow> n \<le> length ip \<Longrightarrow> ip_bit (drop n ip) (i - 8 * n) = ip_bit ip i"
  by (simp add: ip_bit_def le_div_geq) (metis add_diff_inverse_nat div_mult_self2 mod_mult_self2 mult.commute not_less
      add.commute zero_neq_numeral)

definition addr_size :: "nat \<Rightarrow> bool" where "addr_size n \<longleftrightarrow> n = 4 \<or> n = 16"

lemma commonBits_ge:
  assumes "addr_size (length a)" "length b = length a" "c \<le> 8 * length a"
  shows "c \<le> commonBits a b \<longleftrightarrow> agree c a b"
proof (cases "length a = 4")
  case True
  then show ?thesis using assms LeadingZeros_xor [where 'a = 32, of a b c] by (simp add: commonBits_def)
next
  case False
  then have len: "length a = 16" "length b = 16" using assms by (auto simp: addr_size_def)
  let ?x = "get_be (take 8 a) XOR get_be (take 8 b) :: u64" and ?y = "get_be (drop 8 a) XOR get_be (drop 8 b) :: u64"
  have x: "d \<le> LeadingZeros ?x \<longleftrightarrow> agree d a b" if "d \<le> 64" for d
    using that len LeadingZeros_xor [where 'a = 64, of "take 8 a" "take 8 b" d]
    by (simp add: agree_def ip_bit_take)
  have y: "d \<le> LeadingZeros ?y \<longleftrightarrow> (\<forall>i < d. ip_bit a (64 + i) = ip_bit b (64 + i))" if "d \<le> 64" for d
    using that len LeadingZeros_xor [where 'a = 64, of "drop 8 a" "drop 8 b" d] ip_bit_drop [of 8 "64 + i" for i]
    by (simp add: agree_def)
  have zero: "?x = 0 \<longleftrightarrow> agree 64 a b"
  proof
    assume "?x = 0"
    then have "64 \<le> LeadingZeros ?x" using le_LeadingZeros [of 64 ?x] by simp
    then show "agree 64 a b" using x [of 64] by simp
  next
    assume "agree 64 a b"
    then have "64 \<le> LeadingZeros ?x" using x [of 64] by simp
    then have "\<not> bit ?x i" if "i < 64" for i
      using le_LeadingZeros [of 64 ?x] that by (auto dest: spec [of _ "63 - i"])
    then show "?x = 0" by (intro bit_word_eqI) simp
  qed
  show ?thesis
  proof (cases "?x = 0")
    case True
    then have a64: "agree 64 a b" using zero by simp
    have "agree c a b \<longleftrightarrow> (\<forall>i < c - 64. ip_bit a (64 + i) = ip_bit b (64 + i))"
    proof
      assume all: "\<forall>i < c - 64. ip_bit a (64 + i) = ip_bit b (64 + i)"
      show "agree c a b" unfolding agree_def
      proof (intro allI impI)
        fix i assume "i < c"
        then show "ip_bit a i = ip_bit b i"
          using a64 all [rule_format, of "i - 64"] by (cases "i < 64") (auto simp: agree_def)
      qed
    qed (auto simp: agree_def)
    also have "\<dots> \<longleftrightarrow> c - 64 \<le> LeadingZeros ?y" using y [of "c - 64"] assms(3) len by simp
    finally show ?thesis using True len by (auto simp: commonBits_def)
  next
    case False
    then have "\<not> agree 64 a b" using zero by simp
    then have "\<not> agree c a b" if "64 \<le> c" using that agree_le [of c a b 64] by blast
    moreover have "LeadingZeros ?x < 64"
      using x [of 64] \<open>\<not> agree 64 a b\<close> by simp
    ultimately show ?thesis using False len x [of c] by (cases "c \<le> 64") (auto simp: commonBits_def)
  qed
qed

lemma commonBits_le: "addr_size (length a) \<Longrightarrow> commonBits a b \<le> 8 * length a"
  using LeadingZeros_le [where 'a = 32] LeadingZeros_le [where 'a = 64]
  by (auto simp: addr_size_def commonBits_def Let_def intro: order_trans [OF LeadingZeros_le])

lemma commonBits_differ:
  assumes "addr_size (length a)" "length b = length a" "commonBits a b < 8 * length a"
  shows "ip_bit a (commonBits a b) \<noteq> ip_bit b (commonBits a b)"
proof
  assume eq: "ip_bit a (commonBits a b) = ip_bit b (commonBits a b)"
  have "agree (commonBits a b) a b" using commonBits_ge [of a b "commonBits a b"] assms by simp
  then have "agree (Suc (commonBits a b)) a b" using eq by (auto simp: agree_def less_Suc_eq)
  then show False using commonBits_ge [of a b "Suc (commonBits a b)"] assms by simp
qed

lemma length_maskSelf [simp]: "length (maskSelf c ip) = length ip"
  by (simp add: maskSelf_def CIDRMask_def Let_def)

lemma ip_bit_mask:
  assumes "c \<le> 8 * length ip" "i < 8 * length ip"
  shows "ip_bit (maskSelf c ip) i \<longleftrightarrow> i < c \<and> ip_bit ip i"
proof -
  let ?j = "i div 8" and ?m = "7 - i mod 8"
  have j: "?j < length ip" and m: "?m < 8" using assms(2) by auto
  have FF: "bit (0xFF :: byte) n \<longleftrightarrow> n < 8" for n
    using bit_mask_iff [where 'a = "8 word", of 8 n] by (auto simp: mask_eq_exp_minus_1)
  have "maskSelf c ip ! ?j = ip ! ?j AND (if 8 * ?j + 8 \<le> c then 0xFF else NOT (drop_bit (c - 8 * ?j) 0xFF))"
    using assms(1) j by (auto simp: maskSelf_def CIDRMask_def Let_def mult.commute)
  moreover have "bit (if 8 * ?j + 8 \<le> c then 0xFF else NOT (drop_bit (c - 8 * ?j) 0xFF) :: byte) ?m \<longleftrightarrow> i < c"
  proof (cases "8 * ?j + 8 \<le> c")
    case True
    moreover have "i < 8 * ?j + 8" using div_mult_mod_eq [of i 8] mod_less_divisor [of 8 i] by linarith
    ultimately show ?thesis using m FF [of ?m] by simp
  next
    case False
    have "bit (NOT (drop_bit (c - 8 * ?j) 0xFF) :: byte) ?m \<longleftrightarrow> 8 \<le> c - 8 * ?j + ?m"
      using m FF [of "c - 8 * ?j + ?m"] by (auto simp: bit_not_iff bit_drop_bit_eq)
    also have "\<dots> \<longleftrightarrow> i < c" using div_mult_mod_eq [of i 8] mod_less_divisor [of 8 i] False by linarith
    finally show ?thesis using False by simp
  qed
  ultimately show ?thesis by (auto simp: ip_bit_def bit_and_iff)
qed

lemma agree_mask: "c \<le> 8 * length a \<Longrightarrow> d \<le> c \<Longrightarrow> agree d (maskSelf c a) b \<longleftrightarrow> agree d a b"
  by (auto simp: agree_def ip_bit_mask)

lemma agree_mask2: "c \<le> 8 * length a \<Longrightarrow> d \<le> c \<Longrightarrow> agree d b (maskSelf c a) \<longleftrightarrow> agree d b a"
  by (auto simp: agree_def ip_bit_mask)

lemma agree_refl [simp]: "agree d a a"
  by (simp add: agree_def)

lemma bytes_eqI:
  assumes "length a = length b" "\<And>i. i < 8 * length a \<Longrightarrow> ip_bit a i = ip_bit b i" shows "a = b"
proof (rule nth_equalityI [OF assms(1)])
  fix j assume j: "j < length a"
  show "a ! j = b ! j"
  proof (rule bit_word_eqI)
    fix n assume "n < LENGTH(8)"
    then have "ip_bit a (8 * j + (7 - n)) = ip_bit b (8 * j + (7 - n))" using j by (intro assms(2)) simp
    then show "bit (a ! j) n = bit (b ! j) n" using \<open>n < LENGTH(8)\<close> by (simp add: ip_bit_def)
  qed
qed

lemma mask_eq_iff:
  assumes "c \<le> 8 * length a" "length b = length a"
  shows "maskSelf c a = maskSelf c b \<longleftrightarrow> agree c a b"
proof
  assume eq: "maskSelf c a = maskSelf c b"
  show "agree c a b" unfolding agree_def
  proof (intro allI impI)
    fix i assume "i < c"
    then show "ip_bit a i = ip_bit b i"
      using ip_bit_mask [of c a i] ip_bit_mask [of c b i] eq assms by auto
  qed
next
  assume "agree c a b"
  then show "maskSelf c a = maskSelf c b"
    using assms by (intro bytes_eqI) (auto simp: ip_bit_mask agree_def)
qed

section \<open>The trie\<close>

type_synonym peer = nat
type_synonym prefix = "bytes \<times> nat"
type_synonym path = "bool list"

datatype trieEntry = NoEntry | Entry "peer option" bytes nat trieEntry trieEntry

fun te_child :: "bool \<Rightarrow> trieEntry \<Rightarrow> trieEntry" where
  "te_child i (Entry _ _ _ l r) = (if i then r else l)"
| "te_child i NoEntry = NoEntry"

fun set_child :: "bool \<Rightarrow> trieEntry \<Rightarrow> trieEntry \<Rightarrow> trieEntry" where
  "set_child i u (Entry q b d l r) = (if i then Entry q b d l u else Entry q b d u r)"
| "set_child i u NoEntry = NoEntry"

fun te_bits :: "trieEntry \<Rightarrow> bytes" where
  "te_bits (Entry _ b _ _ _) = b" | "te_bits NoEntry = []"

fun te_cidr :: "trieEntry \<Rightarrow> nat" where
  "te_cidr (Entry _ _ d _ _) = d" | "te_cidr NoEntry = 0"

fun te_peer :: "trieEntry \<Rightarrow> peer option" where
  "te_peer (Entry q _ _ _ _) = q" | "te_peer NoEntry = None"

text \<open>Reading and writing through a pointer.\<close>

fun node_at :: "trieEntry \<Rightarrow> path \<Rightarrow> trieEntry" where
  "node_at t [] = t"
| "node_at t (i # at) = node_at (te_child i t) at"

fun put_at :: "trieEntry \<Rightarrow> path \<Rightarrow> trieEntry \<Rightarrow> trieEntry" where
  "put_at t [] u = u"
| "put_at t (i # at) u = set_child i (put_at (te_child i t) at u) t"

fun nodePlacement :: "trieEntry \<Rightarrow> bytes \<Rightarrow> nat \<Rightarrow> path option \<times> bool" where
  "nodePlacement NoEntry ip cidr = (None, False)"
| "nodePlacement (Entry q b d l r) ip cidr =
     (if d \<le> cidr \<and> d \<le> commonBits b ip then
        if d = cidr then (Some [], True)
        else case nodePlacement (if te_choose d ip then r else l) ip cidr of
            (None, exact) \<Rightarrow> (Some [], exact)
          | (Some at, exact) \<Rightarrow> (Some (te_choose d ip # at), exact)
      else (None, False))"

type_synonym peer_entries = "peer \<Rightarrow> prefix list"

definition addToPeerEntries :: "peer \<Rightarrow> prefix \<Rightarrow> peer_entries \<Rightarrow> peer_entries" where
  "addToPeerEntries p x es = es(p := es p @ [x])"

definition removeFromPeerEntries :: "peer option \<Rightarrow> prefix \<Rightarrow> peer_entries \<Rightarrow> peer_entries" where
  "removeFromPeerEntries q x es = (case q of None \<Rightarrow> es | Some p \<Rightarrow> es(p := remove1 x (es p)))"

text \<open>\<^verbatim>\<open>*trie.parentBit = node\<close> at the root, \<^verbatim>\<open>parent.child[parent.choose(node.bits)] = node\<close> below it.\<close>

definition hang :: "trieEntry \<Rightarrow> path option \<Rightarrow> trieEntry \<Rightarrow> trieEntry" where
  "hang t parent node =
     (case parent of None \<Rightarrow> node
      | Some at \<Rightarrow> put_at t (at @ [te_choose (te_cidr (node_at t at)) (te_bits node)]) node)"

text \<open>
  What takes the place of \<open>down\<close> when a new entry goes above it: the entry alone, the entry with \<open>down\<close> as its
  child, or an entry without peer for the common prefix with both as children.
\<close>

definition new_above :: "bytes \<Rightarrow> nat \<Rightarrow> peer \<Rightarrow> trieEntry \<Rightarrow> trieEntry" where
  "new_above masked cidr p down =
     (let newNode = Entry (Some p) masked cidr NoEntry NoEntry in
      if down = NoEntry then newNode
      else
        let cidr' = (if commonBits (te_bits down) masked < cidr then commonBits (te_bits down) masked else cidr) in
        if cidr = cidr' then set_child (te_choose cidr (te_bits down)) down newNode
        else
          let node = Entry None (maskSelf cidr' masked) cidr' NoEntry NoEntry;
              node = set_child (te_choose cidr' (te_bits down)) down node in
          set_child (te_choose cidr' masked) newNode node)"

text \<open>\<^verbatim>\<open>maskSelf\<close> of the new entry masks the array of the argument \<^verbatim>\<open>ip\<close> too, which the entry shares.\<close>

definition trie_insert :: "bytes \<Rightarrow> nat \<Rightarrow> peer \<Rightarrow> trieEntry \<times> peer_entries \<Rightarrow> trieEntry \<times> peer_entries" where
  "trie_insert ip cidr p = (\<lambda>(t, es).
     let masked = maskSelf cidr ip in
     case nodePlacement t ip cidr of
       (Some at, True) \<Rightarrow>
         (case node_at t at of Entry q b d l r \<Rightarrow>
            (put_at t at (Entry (Some p) b d l r), addToPeerEntries p (b, d) (removeFromPeerEntries q (b, d) es)))
     | (None, _) \<Rightarrow> (hang t None (new_above masked cidr p t), addToPeerEntries p (masked, cidr) es)
     | (Some at, False) \<Rightarrow>
         let node = node_at t at; down = te_child (te_choose (te_cidr node) masked) node in
         (hang t (Some at) (new_above masked cidr p down), addToPeerEntries p (masked, cidr) es))"

fun lookup_loop :: "trieEntry \<Rightarrow> bytes \<Rightarrow> peer option \<Rightarrow> peer option" where
  "lookup_loop NoEntry ip found = found"
| "lookup_loop (Entry q b d l r) ip found =
     (if d \<le> commonBits b ip then
        let found = (if q \<noteq> None then q else found) in
        if bitAtByte d = length ip then found
        else lookup_loop (if te_choose d ip then r else l) ip found
      else found)"

definition trie_lookup :: "trieEntry \<Rightarrow> bytes \<Rightarrow> peer option" where
  "trie_lookup t ip = lookup_loop t ip None"

definition trie_remove :: "path \<Rightarrow> trieEntry \<times> peer_entries \<Rightarrow> trieEntry \<times> peer_entries" where
  "trie_remove at = (\<lambda>(t, es).
     case node_at t at of NoEntry \<Rightarrow> (t, es)
     | Entry q b d l r \<Rightarrow>
       (let es = removeFromPeerEntries q (b, d) es in
        if l \<noteq> NoEntry \<and> r \<noteq> NoEntry then (put_at t at (Entry None b d l r), es)
        else
          let child = (if l = NoEntry then r else l); t1 = put_at t at child in
          if child \<noteq> NoEntry \<or> at = [] then (t1, es)
          else
            let up = butlast at; parent = node_at t1 up in
            if te_peer parent \<noteq> None then (t1, es)
            else (put_at t1 up (te_child (\<not> last at) parent), es)))"

section \<open>The table\<close>

record allowed_ips =
  IPv4 :: trieEntry
  IPv6 :: trieEntry
  trieEntries :: peer_entries

datatype ip_answer = Panic | Done | Found "peer option" | Listed "prefix list"

text \<open>
  An address of a prefix has 16 bytes (\<^verbatim>\<open>Is6\<close>), 4 bytes (\<^verbatim>\<open>Is4\<close>), or is the invalid zero address.
\<close>

definition AllowedIPs_Insert :: "prefix \<Rightarrow> peer \<Rightarrow> allowed_ips \<Rightarrow> ip_answer \<times> allowed_ips" where
  "AllowedIPs_Insert x p s =
     (if length (fst x) = 16 then
        (let (t, es) = trie_insert (fst x) (snd x) p (IPv6 s, trieEntries s) in (Done, s\<lparr>IPv6 := t, trieEntries := es\<rparr>))
      else if length (fst x) = 4 then
        (let (t, es) = trie_insert (fst x) (snd x) p (IPv4 s, trieEntries s) in (Done, s\<lparr>IPv4 := t, trieEntries := es\<rparr>))
      else (Panic, s))"

definition remove_entry :: "prefix \<Rightarrow> peer option \<Rightarrow> trieEntry \<times> peer_entries \<Rightarrow> trieEntry \<times> peer_entries" where
  "remove_entry x p = (\<lambda>(t, es).
     case nodePlacement t (fst x) (snd x) of
       (Some at, True) \<Rightarrow> if p = te_peer (node_at t at) then trie_remove at (t, es) else (t, es)
     | _ \<Rightarrow> (t, es))"

definition AllowedIPs_Remove :: "prefix \<Rightarrow> peer \<Rightarrow> allowed_ips \<Rightarrow> ip_answer \<times> allowed_ips" where
  "AllowedIPs_Remove x p s =
     (if length (fst x) = 16 then
        (let (t, es) = remove_entry x (Some p) (IPv6 s, trieEntries s) in (Done, s\<lparr>IPv6 := t, trieEntries := es\<rparr>))
      else if length (fst x) = 4 then
        (let (t, es) = remove_entry x (Some p) (IPv4 s, trieEntries s) in (Done, s\<lparr>IPv4 := t, trieEntries := es\<rparr>))
      else (Panic, s))"

text \<open>The entry that the list of a peer points to is found by its prefix.\<close>

definition remove_listed :: "prefix \<Rightarrow> allowed_ips \<Rightarrow> allowed_ips" where
  "remove_listed x s =
     (if length (fst x) = 16 then
        (case nodePlacement (IPv6 s) (fst x) (snd x) of
           (Some at, True) \<Rightarrow> let (t, es) = trie_remove at (IPv6 s, trieEntries s) in s\<lparr>IPv6 := t, trieEntries := es\<rparr>
         | _ \<Rightarrow> s)
      else
        (case nodePlacement (IPv4 s) (fst x) (snd x) of
           (Some at, True) \<Rightarrow> let (t, es) = trie_remove at (IPv4 s, trieEntries s) in s\<lparr>IPv4 := t, trieEntries := es\<rparr>
         | _ \<Rightarrow> s))"

definition AllowedIPs_RemoveByPeer :: "peer \<Rightarrow> allowed_ips \<Rightarrow> allowed_ips" where
  "AllowedIPs_RemoveByPeer p s = foldl (\<lambda>s x. remove_listed x s) s (trieEntries s p)"

definition AllowedIPs_Lookup :: "bytes \<Rightarrow> allowed_ips \<Rightarrow> ip_answer" where
  "AllowedIPs_Lookup ip s =
     (if length ip = 16 then Found (trie_lookup (IPv6 s) ip)
      else if length ip = 4 then Found (trie_lookup (IPv4 s) ip)
      else Panic)"

text \<open>The prefixes handed to the callback of \<^verbatim>\<open>EntriesForPeer\<close>, as long as it wants more.\<close>

definition EntriesForPeer :: "peer \<Rightarrow> allowed_ips \<Rightarrow> prefix list" where
  "EntriesForPeer p s = trieEntries s p"

section \<open>The invariant of a trie\<close>

text \<open>The bits below an entry start with the bits of the entry and the bit of the child.\<close>

fun below :: "nat \<Rightarrow> bytes \<Rightarrow> bool \<Rightarrow> trieEntry \<Rightarrow> bool" where
  "below d b i NoEntry = True"
| "below d b i (Entry _ b' d' _ _) = (d < d' \<and> agree d b b' \<and> ip_bit b' d = i)"

text \<open>
  Addresses of one size, masked prefixes, longer prefixes below shorter ones, and an entry without peer has
  two children.
\<close>

fun wf_trie :: "nat \<Rightarrow> trieEntry \<Rightarrow> bool" where
  "wf_trie n NoEntry = True"
| "wf_trie n (Entry q b d l r) =
     (length b = n \<and> d \<le> 8 * n \<and> maskSelf d b = b \<and> (q = None \<longrightarrow> l \<noteq> NoEntry \<and> r \<noteq> NoEntry) \<and>
      below d b False l \<and> below d b True r \<and> wf_trie n l \<and> wf_trie n r)"

fun entries :: "trieEntry \<Rightarrow> (prefix \<times> peer) list" where
  "entries NoEntry = []"
| "entries (Entry q b d l r) = (case q of None \<Rightarrow> [] | Some p \<Rightarrow> [((b, d), p)]) @ entries l @ entries r"

lemma below_children:
  "below d b i (Entry q' b' d' l r) \<Longrightarrow> wf_trie n (Entry q' b' d' l r) \<Longrightarrow> below d b i l \<and> below d b i r"
  by (cases l; cases r) (auto simp: agree_def)

lemma below_entry:
  "below d b i t \<Longrightarrow> wf_trie n t \<Longrightarrow> ((b', d'), p) \<in> set (entries t) \<Longrightarrow>
     d < d' \<and> agree d b b' \<and> ip_bit b' d = i \<and> length b' = n \<and> d' \<le> 8 * n \<and> maskSelf d' b' = b'"
proof (induction t)
  case (Entry q c e l r)
  have "below d b i l" "below d b i r" using below_children [OF Entry.prems(1,2)] by auto
  then show ?case using Entry by (auto split: option.splits)
qed simp

lemma entry_wf:
  assumes "wf_trie n (Entry q b d l r)" "((b', d'), p) \<in> set (entries (Entry q b d l r))"
  shows "d \<le> d' \<and> agree d b b' \<and> length b' = n \<and> d' \<le> 8 * n \<and> maskSelf d' b' = b'"
  using assms below_entry [of d b False l n b' d' p] below_entry [of d b True r n b' d' p]
  by (auto simp: agree_def split: option.splits)

lemma distinct_entries: "wf_trie n t \<Longrightarrow> distinct (map fst (entries t))"
proof (induction t)
  case (Entry q b d l r)
  have l: "d < d'" "\<not> ip_bit b' d" if "((b', d'), p) \<in> set (entries l)" for b' d' p
    using below_entry [OF _ _ that, of d b False n] Entry.prems by auto
  have r: "d < d'" "ip_bit b' d" if "((b', d'), p) \<in> set (entries r)" for b' d' p
    using below_entry [OF _ _ that, of d b True n] Entry.prems by auto
  have "fst ` set (entries l) \<inter> fst ` set (entries r) = {}" using l(2) r(2) by fastforce
  moreover have "(b, d) \<notin> fst ` set (entries l)" "(b, d) \<notin> fst ` set (entries r)" using l(1) r(1) by fastforce+
  ultimately show ?case using Entry by (auto split: option.splits)
qed simp

section \<open>Lookup is the longest match\<close>

text \<open>The specification tries the prefixes of the address from the longest to the shortest.\<close>

fun longest :: "(nat \<Rightarrow> peer option) \<Rightarrow> nat \<Rightarrow> peer option" where
  "longest f 0 = f 0"
| "longest f (Suc c) = (case f (Suc c) of Some p \<Rightarrow> Some p | None \<Rightarrow> longest f c)"

definition longest_match :: "(prefix \<rightharpoonup> peer) \<Rightarrow> bytes \<Rightarrow> peer option" where
  "longest_match m ip = longest (\<lambda>d. m (maskSelf d ip, d)) (8 * length ip)"

lemma longest_cong: "(\<And>d. d \<le> c \<Longrightarrow> f d = g d) \<Longrightarrow> longest f c = longest g c"
  by (induction c) (auto simp: le_Suc_eq split: option.split)

lemma longest_None: "longest f c = None \<longleftrightarrow> (\<forall>d \<le> c. f d = None)"
  by (induction c) (auto simp: le_Suc_eq split: option.split)

lemma longest_step:
  assumes "\<And>e. e \<le> c \<Longrightarrow> f e = (if e < d then None else if e = d then q else g e)" "\<And>e. e \<le> d \<Longrightarrow> g e = None" "d \<le> c"
  shows "longest f c = (case longest g c of Some p \<Rightarrow> Some p | None \<Rightarrow> q)"
  using assms
proof (induction c)
  case (Suc c)
  show ?case
  proof (cases "d = Suc c")
    case True
    then have "longest g (Suc c) = None" "longest f c = None" using Suc.prems(1,2) by (auto simp: longest_None)
    then show ?thesis using Suc.prems(1) [of "Suc c"] True by (auto split: option.splits)
  next
    case False
    then show ?thesis using Suc.IH Suc.prems(1) [of "Suc c"] Suc.prems by (auto split: option.splits)
  qed
qed auto

text \<open>What a trie holds for the prefixes of one address.\<close>

definition held_for :: "bytes \<Rightarrow> trieEntry \<Rightarrow> nat \<Rightarrow> peer option" where
  "held_for ip t d = map_of (entries t) (maskSelf d ip, d)"

lemma held_for_None: "(\<And>b p. ((b, d), p) \<in> set (entries t) \<Longrightarrow> \<not> agree d b ip) \<Longrightarrow> d \<le> 8 * length ip \<Longrightarrow> held_for ip t d = None"
proof -
  assume none: "\<And>b p. ((b, d), p) \<in> set (entries t) \<Longrightarrow> \<not> agree d b ip" and d: "d \<le> 8 * length ip"
  have "agree d (maskSelf d ip) ip" using agree_mask [OF d, of d ip] by (simp add: agree_def)
  then show ?thesis unfolding held_for_def map_of_eq_None_iff using none by fastforce
qed

lemma held_for_below:
  assumes "below d b i t" "wf_trie (length ip) t" "e \<le> 8 * length ip" "e \<le> d \<or> ip_bit ip d \<noteq> i"
  shows "held_for ip t e = None"
proof (rule held_for_None [OF _ assms(3)])
  fix b' p assume "((b', e), p) \<in> set (entries t)"
  from below_entry [OF assms(1,2) this] assms(4) show "\<not> agree e b' ip" by (auto simp: agree_def)
qed

lemma held_for_Entry:
  assumes wf: "wf_trie (length ip) (Entry q b d l r)" and e: "e \<le> 8 * length ip"
  shows "held_for ip (Entry q b d l r) e =
    (if \<not> agree d b ip \<or> e < d then None else if e = d then q else held_for ip (if ip_bit ip d then r else l) e)"
proof -
  have none: "held_for ip (Entry q b d l r) e = None" if "\<not> agree d b ip \<or> e < d"
  proof (rule held_for_None [OF _ e])
    fix b' p assume "((b', e), p) \<in> set (entries (Entry q b d l r))"
    then have "d \<le> e" "agree d b b'" using entry_wf [OF wf] by blast+
    then show "\<not> agree e b' ip" using that agree_le [of e b' ip d] agree_trans [of d b b' ip] by (meson not_less)
  qed
  have "held_for ip (Entry q b d l r) e = (if e = d then q else held_for ip (if ip_bit ip d then r else l) e)"
    if a: "agree d b ip" and ed: "d \<le> e"
  proof -
    have "length b = length ip" "d \<le> 8 * length b" "maskSelf d b = b" using wf by simp_all
    then have b: "maskSelf d ip = b" using a mask_eq_iff [of d b ip] by metis
    have l: "held_for ip l e = None" if "e = d \<or> ip_bit ip d"
      using that wf e by (intro held_for_below [of d b False]) auto
    have r: "held_for ip r e = None" if "e = d \<or> \<not> ip_bit ip d"
      using that wf e by (intro held_for_below [of d b True]) auto
    have "held_for ip (Entry q b d l r) e =
        (if e = d \<and> q \<noteq> None then q else case held_for ip l e of None \<Rightarrow> held_for ip r e | Some p \<Rightarrow> Some p)"
      using b by (auto simp: held_for_def map_of_append map_add_def split: option.split)
    then show ?thesis using l r by (auto split: option.split)
  qed
  then show ?thesis using none by (auto simp: not_less)
qed

lemma lookup_loop_longest:
  assumes "wf_trie (length ip) t" "addr_size (length ip)"
  shows "lookup_loop t ip found = (case longest (held_for ip t) (8 * length ip) of Some p \<Rightarrow> Some p | None \<Rightarrow> found)"
  using assms(1)
proof (induction t arbitrary: found)
  case NoEntry
  have "longest (held_for ip NoEntry) (8 * length ip) = None" by (simp add: longest_None held_for_def)
  then show ?case by simp
next
  case (Entry q b d l r)
  let ?n = "length ip" and ?t = "Entry q b d l r"
  have ag: "d \<le> commonBits b ip \<longleftrightarrow> agree d b ip"
    using Entry.prems assms(2) by (intro commonBits_ge) auto
  show ?case
  proof (cases "agree d b ip")
    case False
    then have "longest (held_for ip ?t) (8 * ?n) = None"
      using held_for_Entry [OF Entry.prems] by (simp add: longest_None)
    then show ?thesis using False ag by simp
  next
    case True
    let ?u = "if ip_bit ip d then r else l"
    have wf: "wf_trie ?n ?u" "below d b (ip_bit ip d) ?u" using Entry.prems by auto
    have low: "held_for ip ?u e = None" if "e \<le> d" for e
      using that Entry.prems by (intro held_for_below [OF wf(2,1)]) auto
    have all: "longest (held_for ip ?t) (8 * ?n) = (case longest (held_for ip ?u) (8 * ?n) of Some p \<Rightarrow> Some p | None \<Rightarrow> q)"
      using held_for_Entry [OF Entry.prems] True Entry.prems by (intro longest_step [where d = d] low) auto
    show ?thesis
    proof (cases "d = 8 * ?n")
      case True
      then have "longest (held_for ip ?u) (8 * ?n) = None" using low by (simp add: longest_None)
      then show ?thesis using all \<open>agree d b ip\<close> ag True by (auto simp: bitAtByte_def)
    next
      case False
      then have "d div 8 \<noteq> ?n" using Entry.prems by auto
      then have "lookup_loop ?t ip found = lookup_loop ?u ip (if q \<noteq> None then q else found)"
        using \<open>agree d b ip\<close> ag by (simp add: bitAtByte_def te_choose_bit Let_def)
      also have "\<dots> = (case longest (held_for ip ?u) (8 * ?n) of Some p \<Rightarrow> Some p | None \<Rightarrow> if q \<noteq> None then q else found)"
        using Entry.IH wf by (cases "ip_bit ip d") auto
      finally show ?thesis using all by (auto split: option.split)
    qed
  qed
qed

lemma trie_lookup_longest:
  "wf_trie (length ip) t \<Longrightarrow> addr_size (length ip) \<Longrightarrow> trie_lookup t ip = longest_match (map_of (entries t)) ip"
  using lookup_loop_longest [of ip t None]
  by (auto simp: trie_lookup_def longest_match_def held_for_def [abs_def] split: option.splits)

section \<open>Insertion\<close>

text \<open>Insertion as one descent: it goes below matching entries and above the first that does not match.\<close>

fun ins :: "bytes \<Rightarrow> nat \<Rightarrow> peer \<Rightarrow> trieEntry \<Rightarrow> trieEntry" where
  "ins ip c p NoEntry = new_above (maskSelf c ip) c p NoEntry"
| "ins ip c p (Entry q b d l r) =
     (if d \<le> c \<and> d \<le> commonBits b ip then
        if d = c then Entry (Some p) b d l r
        else if te_choose d ip then Entry q b d l (ins ip c p r) else Entry q b d (ins ip c p l) r
      else new_above (maskSelf c ip) c p (Entry q b d l r))"

lemma mask_idem: "d \<le> c \<Longrightarrow> c \<le> 8 * length ip \<Longrightarrow> maskSelf d (maskSelf c ip) = maskSelf d ip"
  by (intro bytes_eqI) (auto simp: ip_bit_mask)

lemma new_above_Entry:
  assumes wf: "wf_trie n (Entry q b d l r)" and ip: "length ip = n" "addr_size n" "c \<le> 8 * n"
    and off: "\<not> (d \<le> c \<and> agree d b ip)"
  obtains
    (above) "c < d" "agree c b ip"
      "new_above (maskSelf c ip) c p (Entry q b d l r) =
        set_child (ip_bit b c) (Entry q b d l r) (Entry (Some p) (maskSelf c ip) c NoEntry NoEntry)"
  | (beside) k where "k < c" "k < d" "agree k b ip" "ip_bit b k \<noteq> ip_bit ip k"
      "new_above (maskSelf c ip) c p (Entry q b d l r) =
        set_child (ip_bit ip k) (Entry (Some p) (maskSelf c ip) c NoEntry NoEntry)
          (set_child (ip_bit b k) (Entry q b d l r) (Entry None (maskSelf k ip) k NoEntry NoEntry))"
proof (cases "commonBits b (maskSelf c ip) < c")
  case False
  have "agree c b (maskSelf c ip)" using False wf ip commonBits_ge [of b "maskSelf c ip" c] by simp
  then have ag: "agree c b ip" using ip by (simp add: agree_mask2)
  moreover have "c < d" using off ag agree_le [of c b ip d] by (auto simp: not_less)
  ultimately show ?thesis using False by (intro above) (simp_all add: new_above_def te_choose_bit)
next
  case True
  let ?k = "commonBits b (maskSelf c ip)"
  have "agree ?k b (maskSelf c ip)" using True wf ip commonBits_ge [of b "maskSelf c ip" ?k] by simp
  then have ag: "agree ?k b ip" using ip True by (simp add: agree_mask2)
  have "ip_bit b ?k \<noteq> ip_bit (maskSelf c ip) ?k" using True wf ip by (intro commonBits_differ) auto
  then have diff: "ip_bit b ?k \<noteq> ip_bit ip ?k" using True ip by (simp add: ip_bit_mask)
  have "?k < d" using off ag agree_le [of ?k b ip d] True by (meson less_imp_le not_less order_trans)
  then show ?thesis
    using True ag diff ip by (intro beside [of ?k]) (simp_all add: new_above_def te_choose_bit Let_def mask_idem ip_bit_mask)
qed

lemma new_above_facts:
  assumes wf: "wf_trie n t" and ip: "length ip = n" "addr_size n" "c \<le> 8 * n"
    and off: "\<not> (te_cidr t \<le> c \<and> agree (te_cidr t) (te_bits t) ip) \<or> t = NoEntry"
  shows "wf_trie n (new_above (maskSelf c ip) c p t) \<and>
    set (entries (new_above (maskSelf c ip) c p t)) = insert ((maskSelf c ip, c), p) (set (entries t)) \<and>
    (\<forall>d b. below d b (ip_bit ip d) t \<and> agree d b ip \<and> d < c \<longrightarrow> below d b (ip_bit ip d) (new_above (maskSelf c ip) c p t))"
proof (cases t)
  case NoEntry
  then show ?thesis using ip
    by (auto simp: new_above_def mask_idem agree_mask2 ip_bit_mask)
next
  case (Entry q b d l r)
  have off': "\<not> (d \<le> c \<and> agree d b ip)" using off Entry by simp
  from wf [unfolded Entry] ip off' show ?thesis
  proof (cases rule: new_above_Entry [where p = p])
    case above
    then show ?thesis using wf ip unfolding Entry
      by (auto simp: mask_idem agree_mask agree_sym [of c ip b] agree_mask2 ip_bit_mask)
  next
    case (beside k)
    have "below e b' (ip_bit ip e) (new_above (maskSelf c ip) c p t)"
      if "below e b' (ip_bit ip e) t" "agree e b' ip" "e < c" for e b'
    proof -
      have "e < k"
      proof (rule ccontr)
        assume "\<not> e < k"
        then have "k \<le> e" by simp
        show False
        proof (cases "k = e")
          case True
          then show ?thesis using that(1) beside(4) Entry by simp
        next
          case False
          then have "ip_bit b' k = ip_bit b k" "ip_bit b' k = ip_bit ip k"
            using that(1,2) \<open>k \<le> e\<close> Entry by (auto simp: agree_def)
          then show ?thesis using beside(4) by simp
        qed
      qed
      then show ?thesis using that beside ip Entry by (auto simp: agree_mask2 ip_bit_mask)
    qed
    moreover have "wf_trie n (new_above (maskSelf c ip) c p t)"
      using beside wf ip unfolding Entry by (auto simp: mask_idem agree_mask agree_sym [of k ip b] agree_mask2 ip_bit_mask)
    moreover have "set (entries (new_above (maskSelf c ip) c p t)) = insert ((maskSelf c ip, c), p) (set (entries t))"
      using beside unfolding Entry by auto
    ultimately show ?thesis by blast
  qed
qed

text \<open>An entry that does not match holds nothing for the prefix, and one that does only on the way down.\<close>

lemma key_here:
  assumes "wf_trie (length ip) (Entry q b d l r)" "c \<le> 8 * length ip" "(maskSelf c ip, c) \<in> fst ` set (entries (Entry q b d l r))"
  shows "d \<le> c \<and> agree d b ip"
proof -
  obtain p where "((maskSelf c ip, c), p) \<in> set (entries (Entry q b d l r))" using assms(3) by fastforce
  from entry_wf [OF assms(1) this] show ?thesis using assms(2) by (auto simp: agree_mask2)
qed

lemma key_below:
  assumes "below d b i t" "wf_trie (length ip) t" "c \<le> 8 * length ip" "(maskSelf c ip, c) \<in> fst ` set (entries t)"
  shows "d < c \<and> ip_bit ip d = i"
proof -
  obtain p where "((maskSelf c ip, c), p) \<in> set (entries t)" using assms(4) by fastforce
  from below_entry [OF assms(1,2) this] show ?thesis using assms(3) by (auto simp: ip_bit_mask)
qed

lemma mask_of_match:
  "wf_trie (length ip) (Entry q b d l r) \<Longrightarrow> agree d b ip \<Longrightarrow> maskSelf d ip = b"
  using mask_eq_iff [of d b ip] by fastforce

lemma key_parts:
  assumes wf: "wf_trie (length ip) (Entry q b d l r)" and c: "c \<le> 8 * length ip"
  shows "((maskSelf c ip, c), p) \<in> set (entries l) \<Longrightarrow> d < c \<and> \<not> ip_bit ip d"
    and "((maskSelf c ip, c), p) \<in> set (entries r) \<Longrightarrow> d < c \<and> ip_bit ip d"
proof -
  assume "((maskSelf c ip, c), p) \<in> set (entries l)"
  then show "d < c \<and> \<not> ip_bit ip d"
    using key_below [of d b False l ip c] wf c by force
next
  assume "((maskSelf c ip, c), p) \<in> set (entries r)"
  then show "d < c \<and> ip_bit ip d"
    using key_below [of d b True r ip c] wf c by force
qed

definition others :: "prefix \<Rightarrow> trieEntry \<Rightarrow> (prefix \<times> peer) set" where
  "others k t = {e \<in> set (entries t). fst e \<noteq> k}"

lemma others_Entry:
  assumes "wf_trie (length ip) (Entry q b d l r)" "c \<le> 8 * length ip"
  shows "d < c \<Longrightarrow> others (maskSelf c ip, c) (Entry q b d l r) =
      set (case q of None \<Rightarrow> [] | Some p \<Rightarrow> [((b, d), p)]) \<union>
      (if ip_bit ip d then set (entries l) \<union> others (maskSelf c ip, c) r
       else others (maskSelf c ip, c) l \<union> set (entries r))"
    and "d = c \<Longrightarrow> agree d b ip \<Longrightarrow> others (maskSelf c ip, c) (Entry q b d l r) = set (entries l) \<union> set (entries r)"
    and "\<not> (d \<le> c \<and> agree d b ip) \<Longrightarrow> others (maskSelf c ip, c) (Entry q b d l r) = set (entries (Entry q b d l r))"
proof -
  note parts = key_parts [OF assms]
  show "others (maskSelf c ip, c) (Entry q b d l r) =
      set (case q of None \<Rightarrow> [] | Some p \<Rightarrow> [((b, d), p)]) \<union>
      (if ip_bit ip d then set (entries l) \<union> others (maskSelf c ip, c) r
       else others (maskSelf c ip, c) l \<union> set (entries r))" if "d < c"
    using that by (auto simp: others_def dest: parts split: option.splits)
  show "others (maskSelf c ip, c) (Entry q b d l r) = set (entries l) \<union> set (entries r)" if "d = c" "agree d b ip"
    using that mask_of_match [OF assms(1)] by (auto simp: others_def dest: parts split: option.splits)
  show "others (maskSelf c ip, c) (Entry q b d l r) = set (entries (Entry q b d l r))" if "\<not> (d \<le> c \<and> agree d b ip)"
    using that key_here [OF assms] by (force simp: others_def simp del: entries.simps)
qed

lemma ins_facts:
  assumes "wf_trie (length ip) t" "addr_size (length ip)" "c \<le> 8 * length ip"
  shows "wf_trie (length ip) (ins ip c p t) \<and>
    set (entries (ins ip c p t)) = insert ((maskSelf c ip, c), p) (others (maskSelf c ip, c) t) \<and>
    (\<forall>d b. below d b (ip_bit ip d) t \<and> agree d b ip \<and> d < c \<longrightarrow> below d b (ip_bit ip d) (ins ip c p t))"
  using assms(1)
proof (induction t)
  case NoEntry
  then show ?case using new_above_facts [of "length ip" NoEntry ip c p] assms(2,3) by (simp add: others_def)
next
  case (Entry q b d l r)
  let ?t = "Entry q b d l r"
  have ag: "d \<le> commonBits b ip \<longleftrightarrow> agree d b ip" using Entry.prems assms(2) by (intro commonBits_ge) auto
  note rest = others_Entry [OF Entry.prems assms(3)]
  have wf: "wf_trie (length ip) l" "wf_trie (length ip) r" using Entry.prems by auto
  consider "d < c" "agree d b ip" | "d = c" "agree d b ip" | "\<not> (d \<le> c \<and> agree d b ip)" by linarith
  then show ?case
  proof cases
    case 1
    show ?thesis
    proof (cases "ip_bit ip d")
      case True
      note IH = Entry.IH(2) [OF wf(2)]
      have "below d b True r" using Entry.prems by simp
      then have "below d b True (ins ip c p r)" "ins ip c p r \<noteq> NoEntry" using IH 1 True by (metis, force)
      moreover have "ins ip c p ?t = Entry q b d l (ins ip c p r)" using 1 True ag by (simp add: te_choose_bit)
      moreover have "set (entries (Entry q b d l (ins ip c p r))) = insert ((maskSelf c ip, c), p) (others (maskSelf c ip, c) ?t)"
        unfolding rest(1) [OF 1(1)] using IH True by (simp add: Un_assoc Un_left_commute)
      ultimately show ?thesis using IH Entry.prems by simp
    next
      case False
      note IH = Entry.IH(1) [OF wf(1)]
      have "below d b False l" using Entry.prems by simp
      then have "below d b False (ins ip c p l)" "ins ip c p l \<noteq> NoEntry" using IH 1 False by (metis, force)
      moreover have "ins ip c p ?t = Entry q b d (ins ip c p l) r" using 1 False ag by (simp add: te_choose_bit)
      moreover have "set (entries (Entry q b d (ins ip c p l) r)) = insert ((maskSelf c ip, c), p) (others (maskSelf c ip, c) ?t)"
        unfolding rest(1) [OF 1(1)] using IH False by (simp add: Un_assoc Un_left_commute)
      ultimately show ?thesis using IH Entry.prems by simp
    qed
  next
    case 2
    then show ?thesis using rest(2) ag Entry.prems mask_of_match [OF Entry.prems] by auto
  next
    case 3
    moreover have "ins ip c p ?t = new_above (maskSelf c ip) c p ?t" using 3 ag by auto
    ultimately show ?thesis
      using rest(3) new_above_facts [OF Entry.prems refl assms(2,3), of p] by (simp del: entries.simps)
  qed
qed

text \<open>The entry the descent stops at.\<close>

lemma placement_None:
  assumes "nodePlacement t ip c = (None, e)" shows "\<not> e \<and> ins ip c p t = new_above (maskSelf c ip) c p t"
proof (cases t)
  case (Entry q b d l r)
  then have "\<not> (d \<le> c \<and> d \<le> commonBits b ip)" "\<not> e"
    using assms by (auto split: if_splits prod.splits option.splits)
  then show ?thesis using Entry by auto
qed (use assms in simp)

lemma placement_match:
  assumes "wf_trie (length ip) (Entry q b d l r)" "addr_size (length ip)" "nodePlacement (Entry q b d l r) ip c = (Some at, e)"
  shows "d \<le> c" "agree d b ip" "d \<le> commonBits b ip"
proof -
  have "d \<le> commonBits b ip \<longleftrightarrow> agree d b ip" using assms(1,2) by (intro commonBits_ge) auto
  then show "d \<le> c" "agree d b ip" "d \<le> commonBits b ip" using assms(3) by (auto split: if_splits)
qed

lemma placement_exact:
  assumes "wf_trie (length ip) t" "addr_size (length ip)" "c \<le> 8 * length ip" "nodePlacement t ip c = (Some at, True)"
  shows "\<exists>l r. node_at t at = Entry (held_for ip t c) (maskSelf c ip) c l r \<and>
    put_at t at (Entry (Some p) (maskSelf c ip) c l r) = ins ip c p t"
  using assms(1,4)
proof (induction t arbitrary: at)
  case (Entry q b d l r)
  note match = placement_match [OF Entry.prems(1) assms(2) Entry.prems(2)]
  note holds = held_for_Entry [OF Entry.prems(1) assms(3)]
  show ?case
  proof (cases "d = c")
    case True
    then have "at = []" "maskSelf c ip = b" using Entry.prems match mask_of_match [OF Entry.prems(1)] by auto
    then show ?thesis using True match holds by auto
  next
    case False
    let ?u = "if ip_bit ip d then r else l"
    obtain at' where at': "nodePlacement ?u ip c = (Some at', True)" "at = ip_bit ip d # at'"
      using Entry.prems(2) False match
      by (auto simp: te_choose_bit split: prod.splits option.splits if_splits dest: placement_None)
    have "wf_trie (length ip) ?u" using Entry.prems(1) by simp
    then obtain l' r' where "node_at ?u at' = Entry (held_for ip ?u c) (maskSelf c ip) c l' r'"
        "put_at ?u at' (Entry (Some p) (maskSelf c ip) c l' r') = ins ip c p ?u"
      using Entry.IH at'(1) by (cases "ip_bit ip d") auto
    then show ?thesis using at'(2) False match holds by (auto simp: te_choose_bit)
  qed
qed simp

definition stops_below :: "bytes \<Rightarrow> nat \<Rightarrow> peer \<Rightarrow> trieEntry \<Rightarrow> path \<Rightarrow> bool" where
  "stops_below ip c p t at \<longleftrightarrow> (\<exists>q b d l r. node_at t at = Entry q b d l r \<and> wf_trie (length ip) (Entry q b d l r) \<and>
     d < c \<and> agree d b ip \<and> nodePlacement (if ip_bit ip d then r else l) ip c = (None, False) \<and>
     put_at t (at @ [ip_bit ip d]) (new_above (maskSelf c ip) c p (if ip_bit ip d then r else l)) = ins ip c p t)"

lemma stops_below_child:
  "\<lbrakk>stops_below ip c p (te_child i t) at; ins ip c p t = set_child i (ins ip c p (te_child i t)) t\<rbrakk> \<Longrightarrow>
     stops_below ip c p t (i # at)"
  unfolding stops_below_def append_Cons node_at.simps put_at.simps by metis

lemma placement_below:
  assumes "wf_trie (length ip) t" "addr_size (length ip)" "nodePlacement t ip c = (Some at, False)"
  shows "stops_below ip c p t at"
  using assms(1,3)
proof (induction t arbitrary: at)
  case (Entry q b d l r)
  note match = placement_match [OF Entry.prems(1) assms(2) Entry.prems(2)]
  let ?u = "if ip_bit ip d then r else l"
  have ne: "d \<noteq> c" using Entry.prems(2) match by auto
  have ins: "ins ip c p (Entry q b d l r) = set_child (ip_bit ip d) (ins ip c p ?u) (Entry q b d l r)"
    using ne match by (simp add: te_choose_bit)
  show ?case
  proof (cases "nodePlacement ?u ip c")
    case (Pair pa e)
    have e: "\<not> e" "at = (case pa of None \<Rightarrow> [] | Some at' \<Rightarrow> ip_bit ip d # at')"
      using Entry.prems(2) match ne Pair by (auto simp: te_choose_bit split: if_splits option.splits)
    show ?thesis
    proof (cases pa)
      case None
      then have "ins ip c p ?u = new_above (maskSelf c ip) c p ?u" using Pair placement_None [of ?u ip c e p] by simp
      then show ?thesis using Entry.prems(1) match ne Pair None e ins by (simp add: stops_below_def)
    next
      case (Some at')
      have "wf_trie (length ip) ?u" using Entry.prems(1) by simp
      then have "stops_below ip c p ?u at'"
        using Entry.IH Pair Some e(1) by (cases "ip_bit ip d") simp_all
      then show ?thesis unfolding e(2) Some using ins by (auto intro: stops_below_child simp del: ins.simps)
    qed
  qed
qed simp

lemma hang_placed:
  assumes st: "stops_below ip c p t at" and c: "c \<le> 8 * length ip" "addr_size (length ip)" and node: "node = node_at t at"
  shows "hang t (Some at) (new_above (maskSelf c ip) c p (te_child (te_choose (te_cidr node) (maskSelf c ip)) node)) = ins ip c p t"
proof -
  obtain q b d l r where n: "node_at t at = Entry q b d l r" "wf_trie (length ip) (Entry q b d l r)" "d < c" "agree d b ip"
      "nodePlacement (if ip_bit ip d then r else l) ip c = (None, False)"
      "put_at t (at @ [ip_bit ip d]) (new_above (maskSelf c ip) c p (if ip_bit ip d then r else l)) = ins ip c p t"
    using st by (auto simp: stops_below_def)
  let ?u = "if ip_bit ip d then r else l"
  have bit: "te_choose d (maskSelf c ip) = ip_bit ip d" using n(3) c by (simp add: te_choose_bit ip_bit_mask)
  have wf: "wf_trie (length ip) ?u" "below d b (ip_bit ip d) ?u" using n(2) by auto
  have "\<not> (te_cidr ?u \<le> c \<and> agree (te_cidr ?u) (te_bits ?u) ip) \<or> ?u = NoEntry"
  proof (cases ?u)
    case (Entry q' b' d' l' r')
    moreover have "d' \<le> commonBits b' ip \<longleftrightarrow> agree d' b' ip" using wf(1) c(2) Entry by (intro commonBits_ge) auto
    ultimately show ?thesis using n(5) by (auto split: if_splits prod.splits option.splits)
  qed simp
  then have "below d b (ip_bit ip d) (new_above (maskSelf c ip) c p ?u)" "new_above (maskSelf c ip) c p ?u \<noteq> NoEntry"
    using new_above_facts [OF wf(1) refl c(2,1), of p] wf(2) n(3,4) by (blast, force)
  then have "te_choose d (te_bits (new_above (maskSelf c ip) c p ?u)) = ip_bit ip d"
    by (cases "new_above (maskSelf c ip) c p ?u") (auto simp: te_choose_bit)
  then show ?thesis using n(1,6) node bit by (simp add: hang_def)
qed

lemma not_placed:
  assumes "wf_trie (length ip) t" "addr_size (length ip)" "c \<le> 8 * length ip" "nodePlacement t ip c = (pa, False)"
  shows "held_for ip t c = None"
  using assms(1,4)
proof (induction t arbitrary: pa)
  case (Entry q b d l r)
  have ag: "d \<le> commonBits b ip \<longleftrightarrow> agree d b ip" using Entry.prems assms(2) by (intro commonBits_ge) auto
  note holds = held_for_Entry [OF Entry.prems(1) assms(3)]
  show ?case
  proof (cases "d \<le> c \<and> agree d b ip")
    case True
    let ?u = "if ip_bit ip d then r else l"
    have "d \<noteq> c" using True Entry.prems(2) ag by auto
    moreover have "wf_trie (length ip) ?u" using Entry.prems(1) by simp
    moreover have "\<exists>pa. nodePlacement ?u ip c = (pa, False)"
      using True \<open>d \<noteq> c\<close> Entry.prems(2) ag by (auto simp: te_choose_bit split: prod.splits option.splits if_splits)
    ultimately have "held_for ip ?u c = None" using Entry.IH by (cases "ip_bit ip d") auto
    then show ?thesis using holds \<open>d \<noteq> c\<close> by simp
  qed (use holds in auto)
qed (simp add: held_for_def)

lemma trie_insert_ins:
  assumes wf: "wf_trie (length ip) t" and c: "addr_size (length ip)" "c \<le> 8 * length ip"
  shows "trie_insert ip c p (t, es) =
    (ins ip c p t, addToPeerEntries p (maskSelf c ip, c) (removeFromPeerEntries (held_for ip t c) (maskSelf c ip, c) es))"
proof -
  note none = not_placed [OF wf c]
  obtain pa e where pl: "nodePlacement t ip c = (pa, e)" by (cases "nodePlacement t ip c")
  show ?thesis
  proof (cases pa)
    case None
    then show ?thesis
      using pl placement_None [of t ip c e p] none by (auto simp: trie_insert_def hang_def removeFromPeerEntries_def Let_def)
  next
    case (Some at)
    show ?thesis
    proof (cases e)
      case True
      then show ?thesis using pl Some placement_exact [OF wf c, of at p] by (auto simp: trie_insert_def)
    next
      case False
      then show ?thesis
        using pl Some none hang_placed [OF placement_below [OF wf c(1)] c(2,1) refl, of at p]
        by (simp add: trie_insert_def removeFromPeerEntries_def Let_def)
    qed
  qed
qed

section \<open>Removal\<close>

fun del :: "bytes \<Rightarrow> nat \<Rightarrow> trieEntry \<Rightarrow> trieEntry" where
  "del ip c NoEntry = NoEntry"
| "del ip c (Entry q b d l r) =
     (if d = c then if l \<noteq> NoEntry \<and> r \<noteq> NoEntry then Entry None b d l r else if l = NoEntry then r else l
      else
        let i = ip_bit ip d; u = del ip c (if i then r else l) in
        if u = NoEntry \<and> q = None then (if i then l else r) else set_child i u (Entry q b d l r))"

lemma child_set_child [simp]:
  "te_child i (set_child i u (Entry q b d l r)) = u" "te_child (\<not> i) (set_child i u (Entry q b d l r)) = te_child (\<not> i) (Entry q b d l r)"
  "set_child i u (set_child i v t) = set_child i u t" "te_peer (set_child i u t) = te_peer t" "set_child i u t = NoEntry \<longleftrightarrow> t = NoEntry"
  by (cases t; auto)+

lemma remove_step:
  assumes "t = Entry q b d l r" "node_at (te_child i t) at = Entry q' b' d' l' r'"
  shows "fst (trie_remove (i # at) (t, es)) =
    (if at = [] \<and> l' = NoEntry \<and> r' = NoEntry \<and> q = None then te_child (\<not> i) t
     else set_child i (fst (trie_remove at (te_child i t, es))) t)"
proof (cases "at = []")
  case True
  then show ?thesis using assms by (auto simp: trie_remove_def Let_def)
next
  case False
  then show ?thesis using assms by (auto simp: trie_remove_def Let_def)
qed

lemma placed_child:
  assumes "wf_trie (length ip) (Entry q b d l r)" "addr_size (length ip)" "nodePlacement (Entry q b d l r) ip c = (Some at, True)" "d \<noteq> c"
  obtains at' where "at = ip_bit ip d # at'" "nodePlacement (if ip_bit ip d then r else l) ip c = (Some at', True)"
  using assms(3,4) placement_match [OF assms(1-3)] that
  by (auto simp: te_choose_bit split: prod.splits option.splits if_splits dest: placement_None)

lemma del_below_nonempty:
  assumes "wf_trie (length ip) t" "addr_size (length ip)" "nodePlacement t ip c = (Some (i # at), True)"
  shows "del ip c t \<noteq> NoEntry"
proof (cases t)
  case (Entry q b d l r)
  then have "d \<noteq> c" using assms(3) by (auto split: if_splits)
  then show ?thesis using Entry assms(1) by (cases "ip_bit ip d") (auto simp: Let_def simp del: del.simps(1))
qed (use assms(3) in simp)

lemma remove_del:
  assumes "wf_trie (length ip) t" "addr_size (length ip)" "c \<le> 8 * length ip" "nodePlacement t ip c = (Some at, True)"
  shows "fst (trie_remove at (t, es)) = del ip c t"
  using assms(1,4)
proof (induction t arbitrary: at)
  case (Entry q b d l r)
  let ?t = "Entry q b d l r"
  show ?case
  proof (cases "d = c")
    case True
    then have "at = []" using Entry.prems placement_match [OF Entry.prems(1) assms(2) Entry.prems(2)] by auto
    then show ?thesis using True by (simp add: trie_remove_def Let_def)
  next
    case False
    let ?i = "ip_bit ip d" let ?u = "if ?i then r else l"
    obtain at' where at': "at = ?i # at'" "nodePlacement ?u ip c = (Some at', True)"
      using placed_child [OF Entry.prems(1) assms(2) Entry.prems(2) False] .
    have wf: "wf_trie (length ip) ?u" using Entry.prems(1) by simp
    then have IH: "fst (trie_remove at' (?u, es)) = del ip c ?u"
      using Entry.IH at'(2) by (cases ?i) simp_all
    obtain l' r' where node: "node_at ?u at' = Entry (held_for ip ?u c) (maskSelf c ip) c l' r'"
      using placement_exact [OF wf assms(2,3) at'(2)] by blast
    have child: "te_child ?i ?t = ?u" by simp
    have step: "fst (trie_remove at (?t, es)) = (if at' = [] \<and> l' = NoEntry \<and> r' = NoEntry \<and> q = None then te_child (\<not> ?i) ?t
        else set_child ?i (del ip c ?u) ?t)"
      using remove_step [OF refl, where q = q and b = b and d = d and l = l and r = r and i = ?i and at = at'] node IH at'(1) by (simp only: child)
    have "del ip c ?u = NoEntry \<longleftrightarrow> at' = [] \<and> l' = NoEntry \<and> r' = NoEntry"
    proof (cases at')
      case Nil
      then have "?u = Entry (held_for ip ?u c) (maskSelf c ip) c l' r'" using node by simp
      then have "del ip c ?u = del ip c (Entry (held_for ip ?u c) (maskSelf c ip) c l' r')" by (rule arg_cong)
      then show ?thesis using Nil by simp
    next
      case Cons
      then show ?thesis using del_below_nonempty [OF wf assms(2)] at'(2) by simp
    qed
    then show ?thesis using step False by (simp add: Let_def)
  qed
qed simp

lemma del_facts:
  assumes "wf_trie (length ip) t" "addr_size (length ip)" "c \<le> 8 * length ip" "nodePlacement t ip c = (Some at, True)"
  shows "wf_trie (length ip) (del ip c t) \<and> set (entries (del ip c t)) = others (maskSelf c ip, c) t \<and>
    (\<forall>d b i. below d b i t \<longrightarrow> below d b i (del ip c t))"
  using assms(1,4)
proof (induction t arbitrary: at)
  case (Entry q b d l r)
  let ?t = "Entry q b d l r"
  note match = placement_match [OF Entry.prems(1) assms(2) Entry.prems(2)]
  note rest = others_Entry [OF Entry.prems(1) assms(3)]
  have kids: "below d' b' i l \<and> below d' b' i r" if "below d' b' i ?t" for d' b' i
    using below_children [OF that Entry.prems(1)] .
  show ?case
  proof (cases "d = c")
    case True
    then show ?thesis using rest(2) match kids Entry.prems(1) by auto
  next
    case False
    then have less: "d < c" using match by simp
    let ?i = "ip_bit ip d" let ?u = "if ?i then r else l" let ?v = "if ?i then l else r"
    obtain at' where "nodePlacement ?u ip c = (Some at', True)"
      using placed_child [OF Entry.prems(1) assms(2) Entry.prems(2) False] .
    moreover have wf: "wf_trie (length ip) ?u" using Entry.prems(1) by simp
    ultimately have IH: "wf_trie (length ip) (del ip c ?u)" "set (entries (del ip c ?u)) = others (maskSelf c ip, c) ?u"
        "below d' b' i ?u \<Longrightarrow> below d' b' i (del ip c ?u)" for d' b' i
      using Entry.IH by (cases ?i; simp)+
    have oth: "others (maskSelf c ip, c) ?t = set (case q of None \<Rightarrow> [] | Some p \<Rightarrow> [((b, d), p)]) \<union> set (entries (del ip c ?u)) \<union> set (entries ?v)"
      unfolding rest(1) [OF less] IH(2) by auto
    have low: "below d b ?i (del ip c ?u)" using IH(3) Entry.prems(1) by simp
    show ?thesis
    proof (cases "del ip c ?u = NoEntry \<and> q = None")
      case True
      then have "del ip c ?t = ?v" using False by (simp add: Let_def)
      then show ?thesis using True oth kids Entry.prems(1) by auto
    next
      case keep: False
      then have "del ip c ?t = set_child ?i (del ip c ?u) ?t" using False by (cases ?i) (auto simp: Let_def)
      then show ?thesis
        using keep oth kids Entry.prems(1) IH(1) low by (cases ?i) auto
    qed
  qed
qed simp

lemma trie_remove_del:
  assumes "wf_trie (length ip) t" "addr_size (length ip)" "c \<le> 8 * length ip" "nodePlacement t ip c = (Some at, True)"
  shows "trie_remove at (t, es) = (del ip c t, removeFromPeerEntries (held_for ip t c) (maskSelf c ip, c) es)"
proof (rule prod_eqI)
  show "fst (trie_remove at (t, es)) = fst (del ip c t, removeFromPeerEntries (held_for ip t c) (maskSelf c ip, c) es)"
    using remove_del [OF assms] by simp
  show "snd (trie_remove at (t, es)) = snd (del ip c t, removeFromPeerEntries (held_for ip t c) (maskSelf c ip, c) es)"
    using placement_exact [OF assms, of 0] by (auto simp: trie_remove_def Let_def)
qed

section \<open>The table refines a list of prefixes\<close>

datatype ip_event =
    InsertPrefix prefix peer
  | RemovePrefix prefix peer
  | RemovePeer peer
  | LookupAddr bytes
  | ListPeer peer

fun table_step :: "allowed_ips \<Rightarrow> ip_event \<Rightarrow> ip_answer \<times> allowed_ips" where
  "table_step s (InsertPrefix x p) = AllowedIPs_Insert x p s"
| "table_step s (RemovePrefix x p) = AllowedIPs_Remove x p s"
| "table_step s (RemovePeer p) = (Done, AllowedIPs_RemoveByPeer p s)"
| "table_step s (LookupAddr ip) = (AllowedIPs_Lookup ip s, s)"
| "table_step s (ListPeer p) = (Listed (EntriesForPeer p s), s)"

definition key_of :: "prefix \<Rightarrow> prefix" where "key_of x = (maskSelf (snd x) (fst x), snd x)"

text \<open>
  The specification: a list of masked prefixes with their peers in the order of insertion, without repetition.
\<close>

type_synonym prefix_list = "(prefix \<times> peer) list"

fun list_step :: "prefix_list \<Rightarrow> ip_event \<Rightarrow> ip_answer \<times> prefix_list" where
  "list_step tbl (InsertPrefix x p) =
     (if addr_size (length (fst x)) then (Done, filter (\<lambda>e. fst e \<noteq> key_of x) tbl @ [(key_of x, p)]) else (Panic, tbl))"
| "list_step tbl (RemovePrefix x p) =
     (if addr_size (length (fst x)) then (Done, filter (\<lambda>e. e \<noteq> (key_of x, p)) tbl) else (Panic, tbl))"
| "list_step tbl (RemovePeer p) = (Done, filter (\<lambda>e. snd e \<noteq> p) tbl)"
| "list_step tbl (LookupAddr ip) =
     (if addr_size (length ip) then Found (longest_match (map_of tbl) ip) else Panic, tbl)"
| "list_step tbl (ListPeer p) = (Listed (map fst (filter (\<lambda>e. snd e = p) tbl)), tbl)"

fun prefix_event :: "ip_event \<Rightarrow> bool" where
  "prefix_event (InsertPrefix x p) = (snd x \<le> 8 * length (fst x))"
| "prefix_event (RemovePrefix x p) = (snd x \<le> 8 * length (fst x))"
| "prefix_event _ = True"

definition trie_of :: "nat \<Rightarrow> allowed_ips \<Rightarrow> trieEntry" where
  "trie_of n s = (if n = 16 then IPv6 s else IPv4 s)"

definition with_trie :: "nat \<Rightarrow> trieEntry \<Rightarrow> allowed_ips \<Rightarrow> allowed_ips" where
  "with_trie n t s = (if n = 16 then s\<lparr>IPv6 := t\<rparr> else s\<lparr>IPv4 := t\<rparr>)"

definition peer_list :: "prefix_list \<Rightarrow> peer_entries" where
  "peer_list tbl p = map fst (filter (\<lambda>e. snd e = p) tbl)"

definition table_rel :: "allowed_ips \<Rightarrow> prefix_list \<Rightarrow> bool" where
  "table_rel s tbl \<longleftrightarrow> distinct (map fst tbl) \<and> (\<forall>e \<in> set tbl. addr_size (length (fst (fst e)))) \<and>
     trieEntries s = peer_list tbl \<and>
     (\<forall>n. addr_size n \<longrightarrow> wf_trie n (trie_of n s) \<and> set (entries (trie_of n s)) = {e \<in> set tbl. length (fst (fst e)) = n})"

lemma trie_of_with [simp]:
  "addr_size n \<Longrightarrow> addr_size m \<Longrightarrow> trie_of m (with_trie n t s) = (if m = n then t else trie_of m s)"
  "trieEntries (with_trie n t s) = trieEntries s" "trie_of n (trieEntries_update f s) = trie_of n s"
  by (auto simp: trie_of_def with_trie_def addr_size_def)

lemma held_for_table:
  assumes "table_rel s tbl" "addr_size (length ip)"
  shows "held_for ip (trie_of (length ip) s) c = map_of tbl (maskSelf c ip, c)"
proof -
  let ?es = "entries (trie_of (length ip) s)"
  have wf: "wf_trie (length ip) (trie_of (length ip) s)" and set: "set ?es = {e \<in> set tbl. length (fst (fst e)) = length ip}"
    using assms by (auto simp: table_rel_def)
  have d: "distinct (map fst ?es)" "distinct (map fst tbl)" using distinct_entries [OF wf] assms(1) by (auto simp: table_rel_def)
  have "map_of ?es (maskSelf c ip, c) = Some p \<longleftrightarrow> map_of tbl (maskSelf c ip, c) = Some p" for p
    using set by (simp add: map_of_eq_Some_iff [OF d(1)] map_of_eq_Some_iff [OF d(2)])
  then show ?thesis unfolding held_for_def by (metis option.exhaust)
qed

lemma in_peer_list: "x \<in> set (peer_list tbl p) \<longleftrightarrow> (x, p) \<in> set tbl"
  by (induction tbl) (auto simp: peer_list_def)

lemma peer_list_remove:
  assumes "distinct (map fst tbl)"
  shows "removeFromPeerEntries (map_of tbl k) k (peer_list tbl) = peer_list (filter (\<lambda>e. fst e \<noteq> k) tbl)"
proof
  fix p
  have d: "distinct (peer_list tbl p)" using assms by (simp add: peer_list_def distinct_map_filter)
  have k: "k \<in> set (peer_list tbl p) \<longleftrightarrow> map_of tbl k = Some p"
    using assms by (simp add: in_peer_list map_of_eq_Some_iff)
  have "peer_list (filter (\<lambda>e. fst e \<noteq> k) tbl) p = filter (\<lambda>x. x \<noteq> k) (peer_list tbl p)"
    by (simp add: peer_list_def filter_map comp_def conj_commute)
  also have "\<dots> = remove1 k (peer_list tbl p)"
    using d by (simp add: distinct_remove1_removeAll removeAll_filter_not_eq) metis
  finally show "removeFromPeerEntries (map_of tbl k) k (peer_list tbl) p = peer_list (filter (\<lambda>e. fst e \<noteq> k) tbl) p"
    using k by (auto simp: removeFromPeerEntries_def remove1_idem split: option.split)
qed

lemma insert_rel:
  fixes p :: peer
  assumes rel: "table_rel s tbl" and n: "addr_size (length ip)" "c \<le> 8 * length ip"
  defines "t \<equiv> trie_insert ip c p (trie_of (length ip) s, trieEntries s)"
  shows "table_rel (with_trie (length ip) (fst t) (s\<lparr>trieEntries := snd t\<rparr>))
    (filter (\<lambda>e. fst e \<noteq> (maskSelf c ip, c)) tbl @ [((maskSelf c ip, c), p)])"
proof -
  let ?k = "(maskSelf c ip, c)" and ?u = "trie_of (length ip) s"
  have wf: "wf_trie (length ip) ?u" using rel n by (simp add: table_rel_def)
  have d: "distinct (map fst tbl)" using rel by (simp add: table_rel_def)
  have t: "t = (ins ip c p ?u, addToPeerEntries p ?k (peer_list (filter (\<lambda>e. fst e \<noteq> ?k) tbl)))"
    using trie_insert_ins [OF wf n] held_for_table [OF rel n(1)] peer_list_remove [OF d] rel
    by (simp add: t_def table_rel_def)
  have "addToPeerEntries p ?k (peer_list tbl') = peer_list (tbl' @ [(?k, p)])" for tbl'
    by (auto simp: addToPeerEntries_def peer_list_def)
  moreover have "distinct (map fst (filter (\<lambda>e. fst e \<noteq> ?k) tbl @ [(?k, p)]))"
    using d by (auto simp: distinct_map_filter)
  ultimately show ?thesis
    using rel ins_facts [OF wf n, of p] n(1) unfolding t table_rel_def by (auto simp: others_def)
qed

lemma remove_rel:
  assumes rel: "table_rel s tbl" and n: "addr_size (length ip)" "c \<le> 8 * length ip"
    and at: "nodePlacement (trie_of (length ip) s) ip c = (Some at, True)"
  defines "t \<equiv> trie_remove at (trie_of (length ip) s, trieEntries s)"
  shows "table_rel (with_trie (length ip) (fst t) (s\<lparr>trieEntries := snd t\<rparr>)) (filter (\<lambda>e. fst e \<noteq> (maskSelf c ip, c)) tbl)"
proof -
  let ?k = "(maskSelf c ip, c)" and ?u = "trie_of (length ip) s"
  have wf: "wf_trie (length ip) ?u" using rel n by (simp add: table_rel_def)
  have d: "distinct (map fst tbl)" using rel by (simp add: table_rel_def)
  have "t = (del ip c ?u, peer_list (filter (\<lambda>e. fst e \<noteq> ?k) tbl))"
    using trie_remove_del [OF wf n at] held_for_table [OF rel n(1)] peer_list_remove [OF d] rel
    by (simp add: t_def table_rel_def)
  then show ?thesis
    using rel del_facts [OF wf n at] n(1) d unfolding table_rel_def by (auto simp: others_def distinct_map_filter)
qed

lemma placed_iff:
  assumes rel: "table_rel s tbl" and n: "addr_size (length ip)" "c \<le> 8 * length ip"
  shows "map_of tbl (maskSelf c ip, c) \<noteq> None \<Longrightarrow> \<exists>at. nodePlacement (trie_of (length ip) s) ip c = (Some at, True)"
    and "nodePlacement (trie_of (length ip) s) ip c = (Some at, True) \<Longrightarrow>
      te_peer (node_at (trie_of (length ip) s) at) = map_of tbl (maskSelf c ip, c)"
proof -
  let ?u = "trie_of (length ip) s"
  have wf: "wf_trie (length ip) ?u" using rel n by (simp add: table_rel_def)
  show "\<exists>at. nodePlacement ?u ip c = (Some at, True)" if "map_of tbl (maskSelf c ip, c) \<noteq> None"
  proof (cases "nodePlacement ?u ip c")
    case (Pair pa e)
    then have e using that not_placed [OF wf n, of pa] held_for_table [OF rel n(1), of c] by (cases e) auto
    moreover have "pa \<noteq> None" using Pair placement_None [of ?u ip c e] \<open>e\<close> by auto
    ultimately show ?thesis using Pair by auto
  qed
  show "te_peer (node_at ?u at) = map_of tbl (maskSelf c ip, c)" if "nodePlacement ?u ip c = (Some at, True)"
    using placement_exact [OF wf n that, of 0] held_for_table [OF rel n(1), of c] by auto
qed

lemma table_prefix:
  assumes "table_rel s tbl" "((b, c), p) \<in> set tbl"
  shows "addr_size (length b) \<and> c \<le> 8 * length b \<and> maskSelf c b = b"
proof -
  have n: "addr_size (length b)" using assms unfolding table_rel_def by fastforce
  then have "((b, c), p) \<in> set (entries (trie_of (length b) s))" "wf_trie (length b) (trie_of (length b) s)"
    using assms by (auto simp: table_rel_def)
  then show ?thesis
  proof (cases "trie_of (length b) s")
    case (Entry q b' d l r)
    with \<open>((b, c), p) \<in> set (entries (trie_of (length b) s))\<close> \<open>wf_trie (length b) (trie_of (length b) s)\<close>
    show ?thesis using n entry_wf [of "length b" q b' d l r b c p] by (simp only: Entry)
  qed simp
qed

lemma remove_listed_rel:
  assumes rel: "table_rel s tbl" and x: "x \<in> fst ` set tbl"
  shows "table_rel (remove_listed x s) (filter (\<lambda>e. fst e \<noteq> x) tbl)"
proof -
  obtain b c p where e: "x = (b, c)" "((b, c), p) \<in> set tbl" using x by force
  note pre = table_prefix [OF rel e(2)]
  have d: "distinct (map fst tbl)" using rel by (simp add: table_rel_def)
  have "map_of tbl (maskSelf c b, c) = Some p" using pre e d by (simp add: map_of_eq_Some_iff)
  then obtain at where at: "nodePlacement (trie_of (length b) s) b c = (Some at, True)"
    using placed_iff(1) [OF rel] pre by blast
  have "remove_listed x s = (let t = trie_remove at (trie_of (length b) s, trieEntries s) in
      with_trie (length b) (fst t) (s\<lparr>trieEntries := snd t\<rparr>))"
    using at e(1) pre by (auto simp: remove_listed_def trie_of_def with_trie_def addr_size_def split: prod.split)
  then show ?thesis using remove_rel [OF rel _ _ at] pre e(1) by (simp add: Let_def)
qed

lemma remove_peer_rel:
  assumes "table_rel s tbl" "set xs \<subseteq> fst ` set tbl" "distinct xs"
  shows "table_rel (foldl (\<lambda>s x. remove_listed x s) s xs) (filter (\<lambda>e. fst e \<notin> set xs) tbl)"
  using assms
proof (induction xs arbitrary: s tbl)
  case (Cons x xs)
  have "table_rel (remove_listed x s) (filter (\<lambda>e. fst e \<noteq> x) tbl)" using Cons.prems by (intro remove_listed_rel) auto
  moreover have "set xs \<subseteq> fst ` set (filter (\<lambda>e. fst e \<noteq> x) tbl)" using Cons.prems(2,3) by fastforce
  ultimately have "table_rel (foldl (\<lambda>s x. remove_listed x s) (remove_listed x s) xs)
      (filter (\<lambda>e. fst e \<notin> set xs) (filter (\<lambda>e. fst e \<noteq> x) tbl))"
    using Cons.IH [of "remove_listed x s" "filter (\<lambda>e. fst e \<noteq> x) tbl"] Cons.prems(3) by simp
  moreover have "filter (\<lambda>e. fst e \<notin> set xs) (filter (\<lambda>e. fst e \<noteq> x) tbl) = filter (\<lambda>e. fst e \<notin> set (x # xs)) tbl"
    by (auto intro: filter_cong)
  ultimately show ?case by simp
qed simp

lemma drop_peer:
  assumes "distinct (map fst tbl)"
  shows "filter (\<lambda>e. fst e \<notin> set (peer_list tbl p)) tbl = filter (\<lambda>e. snd e \<noteq> p) tbl"
proof (rule filter_cong [OF refl])
  fix e assume "e \<in> set tbl"
  then have "map_of tbl (fst e) = Some (snd e)" by (simp add: map_of_eq_Some_iff [OF assms])
  moreover have "fst e \<in> set (peer_list tbl p) \<longleftrightarrow> map_of tbl (fst e) = Some p"
    by (simp add: in_peer_list map_of_eq_Some_iff [OF assms])
  ultimately have "fst e \<in> set (peer_list tbl p) \<longleftrightarrow> snd e = p" by simp
  then show "fst e \<notin> set (peer_list tbl p) \<longleftrightarrow> snd e \<noteq> p" by simp
qed

lemma table_sim:
  assumes rel: "table_rel s tbl" and ok: "prefix_event e"
  shows "fst (table_step s e) = fst (list_step tbl e) \<and> table_rel (snd (table_step s e)) (snd (list_step tbl e))"
proof (cases e)
  case (InsertPrefix x p)
  show ?thesis
  proof (cases "addr_size (length (fst x))")
    case True
    have "AllowedIPs_Insert x p s = (let t = trie_insert (fst x) (snd x) p (trie_of (length (fst x)) s, trieEntries s) in
        (Done, with_trie (length (fst x)) (fst t) (s\<lparr>trieEntries := snd t\<rparr>)))"
      using True by (auto simp: AllowedIPs_Insert_def trie_of_def with_trie_def addr_size_def split: prod.split)
    then show ?thesis using insert_rel [OF rel True] True ok InsertPrefix by (simp add: Let_def key_of_def)
  qed (use rel InsertPrefix in \<open>simp add: AllowedIPs_Insert_def addr_size_def\<close>)
next
  case (RemovePrefix x p)
  show ?thesis
  proof (cases "addr_size (length (fst x))")
    case True
    let ?t = "trie_of (length (fst x)) s"
    have run: "AllowedIPs_Remove x p s = (let t = remove_entry x (Some p) (?t, trieEntries s) in
        (Done, with_trie (length (fst x)) (fst t) (s\<lparr>trieEntries := snd t\<rparr>)))"
      using True by (auto simp: AllowedIPs_Remove_def trie_of_def with_trie_def addr_size_def split: prod.split)
    have c: "snd x \<le> 8 * length (fst x)" using ok RemovePrefix by simp
    have d: "distinct (map fst tbl)" using rel by (simp add: table_rel_def)
    show ?thesis
    proof (cases "map_of tbl (key_of x) = Some p")
      case here: True
      then obtain at where at: "nodePlacement ?t (fst x) (snd x) = (Some at, True)"
        using placed_iff(1) [OF rel True c] by (auto simp: key_of_def)
      have "remove_entry x (Some p) (?t, trieEntries s) = trie_remove at (?t, trieEntries s)"
        using at here placed_iff(2) [OF rel True c at] by (simp add: remove_entry_def key_of_def)
      moreover have "filter (\<lambda>e. fst e \<noteq> key_of x) tbl = filter (\<lambda>e. e \<noteq> (key_of x, p)) tbl"
      proof (rule filter_cong [OF refl])
        fix e assume "e \<in> set tbl"
        then show "fst e \<noteq> key_of x \<longleftrightarrow> e \<noteq> (key_of x, p)" using map_of_entry [OF d here, of e] by (cases e) auto
      qed
      ultimately show ?thesis
        using run remove_rel [OF rel True c at] True RemovePrefix by (simp add: Let_def key_of_def)
    next
      case False
      then have "remove_entry x (Some p) (?t, trieEntries s) = (?t, trieEntries s)"
        using placed_iff(2) [OF rel True c] by (auto simp: remove_entry_def key_of_def split: prod.split option.split bool.split)
      moreover have "filter (\<lambda>e. e \<noteq> (key_of x, p)) tbl = tbl"
        using False unfolding map_of_eq_Some_iff [OF d] by (intro filter_True) blast
      moreover have "with_trie (length (fst x)) ?t (s\<lparr>trieEntries := trieEntries s\<rparr>) = s"
        by (simp add: with_trie_def trie_of_def)
      ultimately show ?thesis using run rel True RemovePrefix by (simp add: Let_def)
    qed
  qed (use rel RemovePrefix in \<open>simp add: AllowedIPs_Remove_def addr_size_def\<close>)
next
  case (RemovePeer p)
  have d: "distinct (map fst tbl)" and es: "trieEntries s = peer_list tbl" using rel by (auto simp: table_rel_def)
  then have "distinct (peer_list tbl p)" "set (peer_list tbl p) \<subseteq> fst ` set tbl"
    by (auto simp: peer_list_def distinct_map_filter)
  then show ?thesis
    using remove_peer_rel [OF rel, of "peer_list tbl p"] RemovePeer es drop_peer [OF d]
    by (simp add: AllowedIPs_RemoveByPeer_def)
next
  case (LookupAddr ip)
  show ?thesis
  proof (cases "addr_size (length ip)")
    case True
    then have "trie_lookup (trie_of (length ip) s) ip = longest_match (map_of (entries (trie_of (length ip) s))) ip"
      using rel by (intro trie_lookup_longest) (auto simp: table_rel_def)
    also have "\<dots> = longest_match (map_of tbl) ip"
      unfolding longest_match_def using held_for_table [OF rel True] by (simp add: held_for_def)
    finally show ?thesis using True rel LookupAddr
      by (auto simp: AllowedIPs_Lookup_def addr_size_def trie_of_def)
  qed (use rel LookupAddr in \<open>simp add: AllowedIPs_Lookup_def addr_size_def\<close>)
next
  case (ListPeer p)
  then show ?thesis using rel by (simp add: EntriesForPeer_def table_rel_def peer_list_def)
qed

interpretation table: guarded_simulation table_step list_step table_rel prefix_event
  by unfold_locales (use table_sim in blast)+

definition empty_table :: allowed_ips where
  "empty_table = \<lparr>IPv4 = NoEntry, IPv6 = NoEntry, trieEntries = \<lambda>_. []\<rparr>"

lemma empty_table_rel: "table_rel empty_table []"
  by (auto simp: table_rel_def empty_table_def trie_of_def peer_list_def)

text \<open>
  C8. The tries of allowed addresses behave like a list of prefixes: on every sequence of insertions, removals,
  removals of whole peers, lookups and listings, with prefix lengths that fit the address, the table gives the
  answers of a list that holds every prefix once. A lookup finds the peer of the longest prefix of the
  address that was inserted and not removed, a listing gives the prefixes of a peer in the order of their last
  insertion, and only addresses of a wrong size panic.
\<close>
theorem allowed_ips_refine:
  "list_all prefix_event es \<Longrightarrow> answers table_step empty_table es = answers list_step [] es"
  by (rule table.guarded_answers [OF empty_table_rel])

theorem allowed_ips_refine_witness:
  "let es = [InsertPrefix ([10, 0, 0, 0], 8) 1, InsertPrefix ([10, 1, 2, 3], 16) 2, InsertPrefix ([10, 1, 128, 0], 17) 3,
       LookupAddr [10, 1, 130, 9], LookupAddr [10, 1, 2, 3], RemovePeer 2, LookupAddr [10, 1, 2, 3], LookupAddr [11, 0, 0, 1],
       ListPeer 3] in
   list_all prefix_event es \<and>
   answers table_step empty_table es =
     [Done, Done, Done, Found (Some 3), Found (Some 2), Done, Found (Some 1), Found None, Listed [([10, 1, 128, 0], 17)]]"
proof -
  let ?es = "[InsertPrefix ([10, 0, 0, 0], 8) 1, InsertPrefix ([10, 1, 2, 3], 16) 2, InsertPrefix ([10, 1, 128, 0], 17) 3,
       LookupAddr [10, 1, 130, 9], LookupAddr [10, 1, 2, 3], RemovePeer 2, LookupAddr [10, 1, 2, 3], LookupAddr [11, 0, 0, 1],
       ListPeer 3]"
  have ok: "list_all prefix_event ?es" by simp
  have "answers list_step [] ?es =
     [Done, Done, Done, Found (Some 3), Found (Some 2), Done, Found (Some 1), Found None, Listed [([10, 1, 128, 0], 17)]]"
    by code_simp
  then show ?thesis using ok allowed_ips_refine [OF ok] by (simp only: Let_def)
qed

end
