(* ===== verification/Noise_Handshake.thy ===== *)
theory Noise_Handshake
  imports Noise_Cookie Replay_Filter Rate_Limiter Fragment_Assembly Allowed_IPs P2P_Message
begin

text \<open>
  The handshake of the WireGuard device (\<^verbatim>\<open>noise-protocol.go\<close>) with the table of indices
  (\<^verbatim>\<open>indextable.go\<close>), the key pairs (\<^verbatim>\<open>keypair.go\<close>) and the operations of \<^verbatim>\<open>peer.go\<close> and
  \<^verbatim>\<open>device.go\<close> that touch them. Peers and key pairs are compared by pointer, so the device holds a heap of each; an
  AEAD instance is its key. The section that a handshake mutex protects is one step; \<^verbatim>\<open>ConsumeMessageInitiation\<close> and
  \<^verbatim>\<open>ConsumeMessageResponse\<close> release the mutex between checking and committing and are two steps each. Random indices
  are the list of the values that \<^verbatim>\<open>randUint32\<close> returns one after the other; when all of them are in use, the loop
  of \<^verbatim>\<open>NewIndexForHandshake\<close> is still drawing.
\<close>

section \<open>State\<close>

datatype handshakeState =
    handshakeZeroed | handshakeInitiationCreated | handshakeInitiationConsumed | handshakeResponseCreated | handshakeResponseConsumed

record handshake =
  hs_state :: handshakeState
  hs_hash :: bytes
  hs_chainKey :: bytes
  hs_presharedKey :: bytes
  hs_localEphemeral :: bytes
  hs_localIndex :: u32
  hs_remoteIndex :: u32
  hs_remoteStatic :: bytes
  hs_remoteEphemeral :: bytes
  hs_precomputedStaticStatic :: bytes
  hs_lastTimestamp :: bytes
  hs_lastInitiationConsumption :: time
  hs_lastSentHandshake :: time

record keypair =
  kp_sendNonce :: u64
  kp_send :: bytes
  kp_receive :: bytes
  kp_replayFilter :: replay_filter
  kp_isInitiator :: bool
  kp_created :: time
  kp_localIndex :: u32
  kp_remoteIndex :: u32

type_synonym peer_at = nat
type_synonym keypair_at = nat

text \<open>A timer is pending or not, and the time it is set for. An endpoint is what the device reads of it.\<close>

record timer =
  tm_isPending :: bool
  tm_at :: time

record peer_timers =
  pt_retransmitHandshake :: timer
  pt_sendKeepalive :: timer
  pt_newHandshake :: timer
  pt_zeroKeyMaterial :: timer
  pt_persistentKeepalive :: timer
  pt_handshakeAttempts :: u32
  pt_needAnotherKeepalive :: bool
  pt_sentLastMinuteHandshake :: bool

record endpoint =
  ep_DstToBytes :: bytes
  ep_DstIP :: address
  ep_udp :: "udp_addr option"

text \<open>A packet with its message type waits in the staged queue; then it has a nonce and a key pair.\<close>

type_synonym staged_packet = "u32 \<times> bytes"

record outbound_packet =
  ob_packet :: bytes
  ob_nonce :: u64
  ob_keypair :: keypair_at
  ob_msgType :: u32

record inbound_packet =
  ib_packet :: bytes
  ib_keypair :: keypair_at
  ib_endpoint :: endpoint
  ib_msgType :: u32

record noise_peer =
  np_isRunning :: bool
  np_current :: "keypair_at option"
  np_previous :: "keypair_at option"
  np_next :: "keypair_at option"
  np_handshake :: handshake
  np_txBytes :: u64
  np_rxBytes :: u64
  np_lastHandshakeNano :: int
  np_handshakeCount :: u64
  np_endpoint :: "endpoint option"
  np_clearSrcOnTx :: bool
  np_disableRoaming :: bool
  np_timers :: peer_timers
  np_staged :: "staged_packet list list"
  np_outbound :: "outbound_packet list list"
  np_inbound :: "inbound_packet list list"
  np_cookieGenerator :: cookie_generator
  np_persistentKeepaliveInterval :: u32

datatype index_entry = HandshakeEntry peer_at | KeypairEntry peer_at keypair_at

type_synonym index_table = "(u32 \<times> index_entry) list"

datatype deviceState = deviceStateDown | deviceStateUp | deviceStateClosed

text \<open>What leaves the device: datagrams, packets for the tunnel interface, and messages for the handlers.\<close>

datatype wg_output =
    OutDatagram endpoint bytes
  | OutTUN bytes
  | OutP2PMessage peer_at p2p_message
  | OutTUNControl peer_at bytes
  | OutWUSP peer_at bytes
  | OutPunch bytes udp_addr

record noise_device =
  nd_state :: deviceState
  nd_port :: u16
  nd_fwmark :: u32
  nd_brokenRoaming :: bool
  nd_privateKey :: bytes
  nd_publicKey :: bytes
  nd_keyMap :: "(bytes \<times> peer_at) list"
  nd_table :: index_table
  nd_cookieChecker :: cookie_checker
  nd_underLoadUntil :: int
  nd_limiter :: ratelimiter
  nd_allowedips :: allowed_ips
  nd_fragments :: wusp_fragments
  nd_mtu :: int
  nd_handshakeQueue :: "(u32 \<times> bytes \<times> endpoint) list"
  nd_isCoordinator :: "(peer_at \<Rightarrow> bool) option"
  nd_hasTUNControlHandler :: bool
  nd_hasWUSPHandler :: bool
  nd_outputs :: "wg_output list"
  nd_peers :: "peer_at \<Rightarrow> noise_peer"
  nd_nextPeer :: peer_at
  nd_keypairs :: "keypair_at \<Rightarrow> keypair"
  nd_nextKeypair :: keypair_at

datatype noise_error = RandFailed | InvalidPublicKey | StillDrawing | MustConsumeFirst | InvalidState handshakeState
  | DeviceClosed | TooManyPeers | ExistingPeer

abbreviation hs :: "noise_device \<Rightarrow> peer_at \<Rightarrow> handshake" where "hs d p \<equiv> np_handshake (nd_peers d p)"

definition set_peer :: "peer_at \<Rightarrow> noise_peer \<Rightarrow> noise_device \<Rightarrow> noise_device" where
  "set_peer p np d = d\<lparr>nd_peers := (nd_peers d)(p := np)\<rparr>"

definition set_hs :: "peer_at \<Rightarrow> handshake \<Rightarrow> noise_device \<Rightarrow> noise_device" where
  "set_hs p h d = set_peer p ((nd_peers d p)\<lparr>np_handshake := h\<rparr>) d"

section \<open>The index table\<close>

definition it_Delete :: "u32 \<Rightarrow> noise_device \<Rightarrow> noise_device" where
  "it_Delete index d = d\<lparr>nd_table := AList.delete index (nd_table d)\<rparr>"

definition SwapIndexForKeypair :: "u32 \<Rightarrow> keypair_at \<Rightarrow> noise_device \<Rightarrow> noise_device" where
  "SwapIndexForKeypair index k d =
     (case map_of (nd_table d) index of None \<Rightarrow> d
      | Some entry \<Rightarrow>
        let p = (case entry of HandshakeEntry p \<Rightarrow> p | KeypairEntry p _ \<Rightarrow> p) in
        d\<lparr>nd_table := AList.update index (KeypairEntry p k) (nd_table d)\<rparr>)"

text \<open>The index, the error if there is one, and the table. An index comes with a failed reading as well.\<close>

fun NewIndexForHandshake :: "peer_at \<Rightarrow> (u32 \<times> bool) list \<Rightarrow> noise_device \<Rightarrow> (u32 \<times> noise_error option) \<times> noise_device" where
  "NewIndexForHandshake p [] d = ((0, Some StillDrawing), d)"
| "NewIndexForHandshake p ((index, ok) # draws) d =
     (if \<not> ok then ((index, Some RandFailed), d)
      else if map_of (nd_table d) index \<noteq> None then NewIndexForHandshake p draws d
      else ((index, None), d\<lparr>nd_table := AList.update index (HandshakeEntry p) (nd_table d)\<rparr>))"

definition DeleteKeypair :: "keypair_at option \<Rightarrow> noise_device \<Rightarrow> noise_device" where
  "DeleteKeypair k d = (case k of None \<Rightarrow> d | Some r \<Rightarrow> it_Delete (kp_localIndex (nd_keypairs d r)) d)"

section \<open>The initiator\<close>

definition HandshakeInitationRate :: duration where "HandshakeInitationRate = second div 50"

definition CreateMessageInitiation ::
  "crypto \<Rightarrow> bytes \<times> bool \<Rightarrow> time \<Rightarrow> (u32 \<times> bool) list \<Rightarrow> peer_at \<Rightarrow> noise_device \<Rightarrow>
   (noise_error + message_initiation) \<times> noise_device" where
  "CreateMessageInitiation C random now draws p d =
     (let h = hs d p;
          (eph, ok) = newPrivateKey random;
          h1 = h\<lparr>hs_hash := InitialHash C, hs_chainKey := InitialChainKey C, hs_localEphemeral := eph\<rparr> in
      if \<not> ok then (Inl RandFailed, set_hs p h1 d)
      else
        let hash = mixHash C (hs_hash h1) (hs_remoteStatic h1);
            ephemeral = key_publicKey C eph;
            chainKey = mixKey C (hs_chainKey h1) ephemeral;
            hash = mixHash C hash ephemeral;
            (ss, valid) = sharedSecret C eph (hs_remoteStatic h1) in
        if \<not> valid then (Inl InvalidPublicKey, set_hs p (h1\<lparr>hs_hash := hash, hs_chainKey := chainKey\<rparr>) d)
        else
          let (chainKey, key) = KDF2 C chainKey ss;
              static = cr_Seal C key ZeroNonce (nd_publicKey d) hash;
              hash = mixHash C hash static in
          if isZero (hs_precomputedStaticStatic h1)
          then (Inl InvalidPublicKey, set_hs p (h1\<lparr>hs_hash := hash, hs_chainKey := chainKey\<rparr>) d)
          else
            let (chainKey, key) = KDF2 C chainKey (hs_precomputedStaticStatic h1);
                timestamp = cr_Seal C key ZeroNonce (stamp now) hash;
                h2 = h1\<lparr>hs_hash := hash, hs_chainKey := chainKey\<rparr> in
            (case NewIndexForHandshake p draws (it_Delete (hs_localIndex h2) (set_hs p h2 d)) of
               ((_, Some e), d1) \<Rightarrow> (Inl e, d1)
             | ((index, None), d1) \<Rightarrow>
               (Inr \<lparr>mi_Type = MessageInitiationType, mi_Sender = index, mi_Ephemeral = ephemeral, mi_Static = static,
                  mi_Timestamp = timestamp, mi_MAC1 = replicate 16 0, mi_MAC2 = replicate 16 0\<rparr>,
                set_hs p (h2\<lparr>hs_localIndex := index, hs_hash := mixHash C hash timestamp,
                  hs_state := handshakeInitiationCreated\<rparr>) d1)))"

section \<open>The responder\<close>

text \<open>The check of \<^verbatim>\<open>ConsumeMessageInitiation\<close>: the peer, the new hash and chain key, and the timestamp.\<close>

definition LookupPeer :: "bytes \<Rightarrow> noise_device \<Rightarrow> peer_at option" where
  "LookupPeer pk d = map_of (nd_keyMap d) pk"

definition initiation_check ::
  "crypto \<Rightarrow> message_initiation \<Rightarrow> time \<Rightarrow> noise_device \<Rightarrow> (peer_at \<times> bytes \<times> bytes \<times> bytes) option" where
  "initiation_check C m now d =
     (if mi_Type m \<noteq> MessageInitiationType then None
      else
        let hash = mixHash C (mixHash C (InitialHash C) (nd_publicKey d)) (mi_Ephemeral m);
            chainKey = mixKey C (InitialChainKey C) (mi_Ephemeral m);
            (ss, valid) = sharedSecret C (nd_privateKey d) (mi_Ephemeral m) in
        if \<not> valid then None
        else
          let (chainKey, key) = KDF2 C chainKey ss in
          case cr_Open C key ZeroNonce (mi_Static m) hash of None \<Rightarrow> None
          | Some peerPK \<Rightarrow>
            let hash = mixHash C hash (mi_Static m) in
            case LookupPeer peerPK d of None \<Rightarrow> None
            | Some p \<Rightarrow>
              if \<not> np_isRunning (nd_peers d p) then None
              else
                let h = hs d p in
                if isZero (hs_precomputedStaticStatic h) then None
                else
                  let (chainKey, key) = KDF2 C chainKey (hs_precomputedStaticStatic h) in
                  case cr_Open C key ZeroNonce (mi_Timestamp m) hash of None \<Rightarrow> None
                  | Some timestamp \<Rightarrow>
                    if \<not> After timestamp (hs_lastTimestamp h) then None
                    else if time_Sub now (hs_lastInitiationConsumption h) \<le> HandshakeInitationRate then None
                    else Some (p, mixHash C hash (mi_Timestamp m), chainKey, timestamp))"

definition initiation_commit ::
  "message_initiation \<Rightarrow> peer_at \<times> bytes \<times> bytes \<times> bytes \<Rightarrow> time \<Rightarrow> noise_device \<Rightarrow> noise_device" where
  "initiation_commit m c now d =
     (case c of (p, hash, chainKey, timestamp) \<Rightarrow>
        let h = hs d p in
        set_hs p (h\<lparr>hs_hash := hash, hs_chainKey := chainKey, hs_remoteIndex := mi_Sender m, hs_remoteEphemeral := mi_Ephemeral m,
          hs_lastTimestamp := (if After timestamp (hs_lastTimestamp h) then timestamp else hs_lastTimestamp h),
          hs_lastInitiationConsumption :=
            (if hs_lastInitiationConsumption h < now then now else hs_lastInitiationConsumption h),
          hs_state := handshakeInitiationConsumed\<rparr>) d)"

definition ConsumeMessageInitiation ::
  "crypto \<Rightarrow> message_initiation \<Rightarrow> time \<Rightarrow> time \<Rightarrow> noise_device \<Rightarrow> peer_at option \<times> noise_device" where
  "ConsumeMessageInitiation C m now now2 d =
     (case initiation_check C m now d of None \<Rightarrow> (None, d) | Some c \<Rightarrow> (Some (fst c), initiation_commit m c now2 d))"

definition CreateMessageResponse ::
  "crypto \<Rightarrow> bytes \<times> bool \<Rightarrow> (u32 \<times> bool) list \<Rightarrow> peer_at \<Rightarrow> noise_device \<Rightarrow> (noise_error + message_response) \<times> noise_device"
where
  "CreateMessageResponse C random draws p d =
     (if hs_state (hs d p) \<noteq> handshakeInitiationConsumed then (Inl MustConsumeFirst, d)
      else case NewIndexForHandshake p draws (it_Delete (hs_localIndex (hs d p)) d) of
        ((index, Some e), d1) \<Rightarrow>
          (Inl e, if e = StillDrawing then d1 else set_hs p ((hs d1 p)\<lparr>hs_localIndex := index\<rparr>) d1)
      | ((index, None), d1) \<Rightarrow>
        let (eph, ok) = newPrivateKey random;
            h1 = (hs d1 p)\<lparr>hs_localIndex := index, hs_localEphemeral := eph\<rparr> in
        if \<not> ok then (Inl RandFailed, set_hs p h1 d1)
        else
          let ephemeral = key_publicKey C eph;
              hash = mixHash C (hs_hash h1) ephemeral;
              chainKey = mixKey C (hs_chainKey h1) ephemeral;
              (ee, valid) = sharedSecret C eph (hs_remoteEphemeral h1) in
          if \<not> valid then (Inl InvalidPublicKey, set_hs p (h1\<lparr>hs_hash := hash, hs_chainKey := chainKey\<rparr>) d1)
          else
            let chainKey = mixKey C chainKey ee;
                (es, valid) = sharedSecret C eph (hs_remoteStatic h1) in
            if \<not> valid then (Inl InvalidPublicKey, set_hs p (h1\<lparr>hs_hash := hash, hs_chainKey := chainKey\<rparr>) d1)
            else
              let (chainKey, tau, key) = KDF3 C (mixKey C chainKey es) (hs_presharedKey h1);
                  hash = mixHash C hash tau;
                  empty = cr_Seal C key ZeroNonce [] hash in
              (Inr \<lparr>mr_Type = MessageResponseType, mr_Sender = index, mr_Receiver = hs_remoteIndex h1, mr_Ephemeral = ephemeral,
                 mr_Empty = empty, mr_MAC1 = replicate 16 0, mr_MAC2 = replicate 16 0\<rparr>,
               set_hs p (h1\<lparr>hs_hash := mixHash C hash empty, hs_chainKey := chainKey, hs_state := handshakeResponseCreated\<rparr>) d1))"

section \<open>The initiator again\<close>

definition response_check ::
  "crypto \<Rightarrow> message_response \<Rightarrow> noise_device \<Rightarrow> (peer_at \<times> bytes \<times> bytes) option" where
  "response_check C m d =
     (if mr_Type m \<noteq> MessageResponseType then None
      else case map_of (nd_table d) (mr_Receiver m) of
        Some (HandshakeEntry p) \<Rightarrow>
          let h = hs d p in
          if hs_state h \<noteq> handshakeInitiationCreated then None
          else
            let hash = mixHash C (hs_hash h) (mr_Ephemeral m);
                chainKey = mixKey C (hs_chainKey h) (mr_Ephemeral m);
                (ee, valid) = sharedSecret C (hs_localEphemeral h) (mr_Ephemeral m) in
            if \<not> valid then None
            else
              let chainKey = mixKey C chainKey ee;
                  (se, valid) = sharedSecret C (nd_privateKey d) (mr_Ephemeral m) in
              if \<not> valid then None
              else
                let (chainKey, tau, key) = KDF3 C (mixKey C chainKey se) (hs_presharedKey h);
                    hash = mixHash C hash tau in
                (case cr_Open C key ZeroNonce (mr_Empty m) hash of None \<Rightarrow> None
                 | Some _ \<Rightarrow> Some (p, mixHash C hash (mr_Empty m), chainKey))
      | _ \<Rightarrow> None)"

definition response_commit ::
  "message_response \<Rightarrow> peer_at \<times> bytes \<times> bytes \<Rightarrow> noise_device \<Rightarrow> peer_at option \<times> noise_device" where
  "response_commit m c d =
     (case c of (p, hash, chainKey) \<Rightarrow>
        if hs_state (hs d p) \<noteq> handshakeInitiationCreated then (None, d)
        else (Some p, set_hs p ((hs d p)\<lparr>hs_hash := hash, hs_chainKey := chainKey, hs_remoteIndex := mr_Sender m,
          hs_state := handshakeResponseConsumed\<rparr>) d))"

definition ConsumeMessageResponse :: "crypto \<Rightarrow> message_response \<Rightarrow> noise_device \<Rightarrow> peer_at option \<times> noise_device" where
  "ConsumeMessageResponse C m d = (case response_check C m d of None \<Rightarrow> (None, d) | Some c \<Rightarrow> response_commit m c d)"

section \<open>Sessions\<close>

definition rotate_keypairs :: "keypair_at \<Rightarrow> bool \<Rightarrow> peer_at \<Rightarrow> noise_device \<Rightarrow> noise_device" where
  "rotate_keypairs k isInitiator p d =
     (let np = nd_peers d p in
      if isInitiator then
        (case np_next np of
           Some next \<Rightarrow>
             DeleteKeypair (np_previous np) (DeleteKeypair (np_current np)
               (set_peer p (np\<lparr>np_next := None, np_previous := Some next, np_current := Some k\<rparr>) d))
         | None \<Rightarrow>
             DeleteKeypair (np_previous np) (set_peer p (np\<lparr>np_previous := np_current np, np_current := Some k\<rparr>) d))
      else
        DeleteKeypair (np_previous np) (DeleteKeypair (np_next np)
          (set_peer p (np\<lparr>np_next := Some k, np_previous := None\<rparr>) d)))"

definition BeginSymmetricSession :: "crypto \<Rightarrow> time \<Rightarrow> peer_at \<Rightarrow> noise_device \<Rightarrow> noise_error option \<times> noise_device" where
  "BeginSymmetricSession C now p d =
     (let h = hs d p; (t0, t1) = KDF2 C (hs_chainKey h) [];
          isInitiator = (hs_state h = handshakeResponseConsumed) in
      if \<not> isInitiator \<and> hs_state h \<noteq> handshakeResponseCreated then (Some (InvalidState (hs_state h)), d)
      else
        let k = nd_nextKeypair d;
            kp = \<lparr>kp_sendNonce = 0, kp_send = (if isInitiator then t0 else t1), kp_receive = (if isInitiator then t1 else t0),
              kp_replayFilter = zero_filter, kp_isInitiator = isInitiator, kp_created = now, kp_localIndex = hs_localIndex h,
              kp_remoteIndex = hs_remoteIndex h\<rparr>;
            h' = h\<lparr>hs_chainKey := replicate 32 0, hs_hash := replicate 32 0, hs_localEphemeral := replicate 32 0,
              hs_state := handshakeZeroed, hs_localIndex := 0\<rparr>;
            d1 = d\<lparr>nd_keypairs := (nd_keypairs d)(k := kp), nd_nextKeypair := k + 1\<rparr>;
            d2 = set_hs p h' (SwapIndexForKeypair (hs_localIndex h) k d1);
            d3 = rotate_keypairs k isInitiator p d2;
            np = nd_peers d3 p in
        (None, set_peer p (np\<lparr>np_handshakeCount := np_handshakeCount np + 1\<rparr>) d3))"

definition ReceivedWithKeypair :: "keypair_at \<Rightarrow> peer_at \<Rightarrow> noise_device \<Rightarrow> bool \<times> noise_device" where
  "ReceivedWithKeypair k p d =
     (let np = nd_peers d p in
      if np_next np \<noteq> Some k then (False, d)
      else (True, DeleteKeypair (np_previous np)
        (set_peer p (np\<lparr>np_previous := np_current np, np_current := Some k, np_next := None\<rparr>) d)))"

definition handshake_Clear :: "handshake \<Rightarrow> handshake" where
  "handshake_Clear h = h\<lparr>hs_localEphemeral := replicate 32 0, hs_remoteEphemeral := replicate 32 0, hs_chainKey := replicate 32 0,
     hs_hash := replicate 32 0, hs_localIndex := 0, hs_state := handshakeZeroed\<rparr>"

text \<open>\<^verbatim>\<open>ZeroAndFlushAll\<close>: the key pairs under their mutex, then the handshake under its own.\<close>

definition zero_keypairs :: "peer_at \<Rightarrow> noise_device \<Rightarrow> noise_device" where
  "zero_keypairs p d =
     (let np = nd_peers d p in
      DeleteKeypair (np_next np) (DeleteKeypair (np_current np) (DeleteKeypair (np_previous np)
        (set_peer p (np\<lparr>np_previous := None, np_current := None, np_next := None\<rparr>) d))))"

definition zero_handshake :: "peer_at \<Rightarrow> noise_device \<Rightarrow> noise_device" where
  "zero_handshake p d = set_hs p (handshake_Clear (hs d p)) (it_Delete (hs_localIndex (hs d p)) d)"

definition FlushStagedPackets :: "peer_at \<Rightarrow> noise_device \<Rightarrow> noise_device" where
  "FlushStagedPackets p d = set_peer p ((nd_peers d p)\<lparr>np_staged := []\<rparr>) d"

definition ZeroAndFlushAll :: "peer_at \<Rightarrow> noise_device \<Rightarrow> noise_device" where
  "ZeroAndFlushAll p d = FlushStagedPackets p (zero_handshake p (zero_keypairs p d))"

definition RejectAfterMessages :: u64 where "RejectAfterMessages = - 1 - 2 ^ 13"
definition RekeyTimeout :: duration where "RekeyTimeout = 2 * second"

definition exhaust :: "keypair_at option \<Rightarrow> noise_device \<Rightarrow> noise_device" where
  "exhaust k d = (case k of None \<Rightarrow> d
     | Some r \<Rightarrow> d\<lparr>nd_keypairs := (nd_keypairs d)(r := (nd_keypairs d r)\<lparr>kp_sendNonce := RejectAfterMessages\<rparr>)\<rparr>)"

definition ExpireCurrentKeypairs :: "time \<Rightarrow> peer_at \<Rightarrow> noise_device \<Rightarrow> noise_device" where
  "ExpireCurrentKeypairs now p d =
     (let d1 = zero_handshake p d;
          d2 = set_hs p ((hs d1 p)\<lparr>hs_lastSentHandshake := now - (RekeyTimeout + second)\<rparr>) d1 in
      exhaust (np_next (nd_peers d2 p)) (exhaust (np_current (nd_peers d2 p)) d2))"

section \<open>Peers\<close>

definition MaxPeers :: nat where "MaxPeers = 2 ^ 16"

definition zero_generator :: cookie_generator where
  "zero_generator = \<lparr>cg_mac1_key = replicate 32 0, cg_cookie = replicate 16 0, cg_cookieSet = time_zero, cg_hasLastMAC1 = False,
     cg_lastMAC1 = replicate 16 0, cg_encryptionKey = replicate 32 0\<rparr>"

definition zeroed_handshake :: handshake where
  "zeroed_handshake = \<lparr>hs_state = handshakeZeroed, hs_hash = replicate 32 0, hs_chainKey = replicate 32 0,
     hs_presharedKey = replicate 32 0, hs_localEphemeral = replicate 32 0, hs_localIndex = 0, hs_remoteIndex = 0,
     hs_remoteStatic = replicate 32 0, hs_remoteEphemeral = replicate 32 0, hs_precomputedStaticStatic = replicate 32 0,
     hs_lastTimestamp = replicate 12 0, hs_lastInitiationConsumption = time_zero, hs_lastSentHandshake = time_zero\<rparr>"

definition new_timer :: timer where "new_timer = \<lparr>tm_isPending = False, tm_at = 0\<rparr>"

definition zero_peer :: noise_peer where
  "zero_peer = \<lparr>np_isRunning = False, np_current = None, np_previous = None, np_next = None, np_handshake = zeroed_handshake,
     np_txBytes = 0, np_rxBytes = 0, np_lastHandshakeNano = 0, np_handshakeCount = 0, np_endpoint = None, np_clearSrcOnTx = False,
     np_disableRoaming = False,
     np_timers = \<lparr>pt_retransmitHandshake = new_timer, pt_sendKeepalive = new_timer, pt_newHandshake = new_timer,
       pt_zeroKeyMaterial = new_timer, pt_persistentKeepalive = new_timer, pt_handshakeAttempts = 0,
       pt_needAnotherKeepalive = False, pt_sentLastMinuteHandshake = False\<rparr>,
     np_staged = [], np_outbound = [], np_inbound = [], np_cookieGenerator = zero_generator, np_persistentKeepaliveInterval = 0\<rparr>"

definition isClosed :: "noise_device \<Rightarrow> bool" where "isClosed d \<longleftrightarrow> nd_state d = deviceStateClosed"
definition isUp :: "noise_device \<Rightarrow> bool" where "isUp d \<longleftrightarrow> nd_state d = deviceStateUp"

definition NewPeer :: "crypto \<Rightarrow> bytes \<Rightarrow> noise_device \<Rightarrow> (noise_error + peer_at) \<times> noise_device" where
  "NewPeer C pk d =
     (if isClosed d then (Inl DeviceClosed, d)
      else if MaxPeers \<le> length (nd_keyMap d) then (Inl TooManyPeers, d)
      else if map_of (nd_keyMap d) pk \<noteq> None then (Inl ExistingPeer, d)
      else
        let p = nd_nextPeer d;
            h = zeroed_handshake\<lparr>hs_precomputedStaticStatic := fst (sharedSecret C (nd_privateKey d) pk), hs_remoteStatic := pk\<rparr>;
            np = zero_peer\<lparr>np_handshake := h, np_cookieGenerator := CookieGenerator_Init C pk zero_generator\<rparr> in
        (Inr p, (set_peer p np d)\<lparr>nd_keyMap := AList.update pk p (nd_keyMap d), nd_nextPeer := p + 1\<rparr>))"

definition set_presharedKey :: "bytes \<Rightarrow> peer_at \<Rightarrow> noise_device \<Rightarrow> noise_device" where
  "set_presharedKey key p d = set_hs p ((hs d p)\<lparr>hs_presharedKey := key\<rparr>) d"

definition zero_device :: noise_device where
  "zero_device = \<lparr>nd_state = deviceStateDown, nd_port = 0, nd_fwmark = 0, nd_brokenRoaming = False, nd_privateKey = replicate 32 0, nd_publicKey = replicate 32 0, nd_keyMap = [], nd_table = [],
     nd_cookieChecker = \<lparr>cc_mac1_key = replicate 32 0, cc_secret = replicate 32 0, cc_secretSet = time_zero,
       cc_encryptionKey = replicate 32 0\<rparr>,
     nd_underLoadUntil = 0, nd_limiter = rl_Init, nd_allowedips = \<lparr>IPv4 = NoEntry, IPv6 = NoEntry, trieEntries = (\<lambda>_. [])\<rparr>,
     nd_fragments = no_fragments, nd_mtu = 0, nd_handshakeQueue = [], nd_isCoordinator = None, nd_hasTUNControlHandler = False,
     nd_hasWUSPHandler = False, nd_outputs = [], nd_peers = (\<lambda>_. zero_peer), nd_nextPeer = 0,
     nd_keypairs = (\<lambda>_. \<lparr>kp_sendNonce = 0, kp_send = [], kp_receive = [], kp_replayFilter = zero_filter, kp_isInitiator = False,
       kp_created = time_zero, kp_localIndex = 0, kp_remoteIndex = 0\<rparr>),
     nd_nextKeypair = 0\<rparr>"

end
