(* ===== verification/Noise_Agreement.thy ===== *)
theory Noise_Agreement
  imports Noise_Handshake
begin

text \<open>
  Two devices that run the handshake derive the same keys: what the initiator computes step by step is what the
  responder computes, because the shared secrets agree.
\<close>

section \<open>Projections\<close>

lemma set_hs_simps [simp]:
  "nd_privateKey (set_hs p h d) = nd_privateKey d" "nd_publicKey (set_hs p h d) = nd_publicKey d"
  "nd_keyMap (set_hs p h d) = nd_keyMap d" "nd_table (set_hs p h d) = nd_table d"
  "nd_cookieChecker (set_hs p h d) = nd_cookieChecker d" "nd_nextPeer (set_hs p h d) = nd_nextPeer d"
  "nd_keypairs (set_hs p h d) = nd_keypairs d" "nd_nextKeypair (set_hs p h d) = nd_nextKeypair d"
  "nd_peers (set_hs p h d) q = (if q = p then (nd_peers d p)\<lparr>np_handshake := h\<rparr> else nd_peers d q)"
  by (simp_all add: set_hs_def set_peer_def)

lemma set_peer_simps [simp]:
  "nd_privateKey (set_peer p np d) = nd_privateKey d" "nd_publicKey (set_peer p np d) = nd_publicKey d"
  "nd_keyMap (set_peer p np d) = nd_keyMap d" "nd_table (set_peer p np d) = nd_table d"
  "nd_cookieChecker (set_peer p np d) = nd_cookieChecker d" "nd_nextPeer (set_peer p np d) = nd_nextPeer d"
  "nd_keypairs (set_peer p np d) = nd_keypairs d" "nd_nextKeypair (set_peer p np d) = nd_nextKeypair d"
  "nd_peers (set_peer p np d) q = (if q = p then np else nd_peers d q)"
  by (simp_all add: set_peer_def)

lemma it_Delete_simps [simp]:
  "nd_privateKey (it_Delete i d) = nd_privateKey d" "nd_publicKey (it_Delete i d) = nd_publicKey d"
  "nd_keyMap (it_Delete i d) = nd_keyMap d" "nd_table (it_Delete i d) = AList.delete i (nd_table d)"
  "nd_cookieChecker (it_Delete i d) = nd_cookieChecker d" "nd_nextPeer (it_Delete i d) = nd_nextPeer d"
  "nd_keypairs (it_Delete i d) = nd_keypairs d" "nd_nextKeypair (it_Delete i d) = nd_nextKeypair d"
  "nd_peers (it_Delete i d) = nd_peers d"
  by (simp_all add: it_Delete_def)

text \<open>The outcome of drawing an index.\<close>

lemma new_index_device:
  "snd (NewIndexForHandshake p draws d) =
     (if snd (fst (NewIndexForHandshake p draws d)) = None
      then d\<lparr>nd_table := AList.update (fst (fst (NewIndexForHandshake p draws d))) (HandshakeEntry p) (nd_table d)\<rparr> else d)"
  by (induction p draws d rule: NewIndexForHandshake.induct) auto

lemma new_index_free:
  "snd (fst (NewIndexForHandshake p draws d)) = None \<Longrightarrow> map_of (nd_table d) (fst (fst (NewIndexForHandshake p draws d))) = None"
  by (induction p draws d rule: NewIndexForHandshake.induct) auto

section \<open>The first message\<close>

text \<open>The configuration of two devices that know each other.\<close>

definition paired :: "crypto \<Rightarrow> noise_device \<Rightarrow> peer_at \<Rightarrow> noise_device \<Rightarrow> peer_at \<Rightarrow> bool" where
  "paired C I p R q \<longleftrightarrow>
     nd_publicKey I = cr_ScalarBaseMult C (nd_privateKey I) \<and> nd_publicKey R = cr_ScalarBaseMult C (nd_privateKey R) \<and>
     hs_remoteStatic (hs I p) = nd_publicKey R \<and> hs_remoteStatic (hs R q) = nd_publicKey I \<and>
     hs_precomputedStaticStatic (hs I p) = cr_ScalarMult C (nd_privateKey I) (nd_publicKey R) \<and>
     hs_precomputedStaticStatic (hs R q) = cr_ScalarMult C (nd_privateKey R) (nd_publicKey I) \<and>
     hs_presharedKey (hs I p) = hs_presharedKey (hs R q) \<and> LookupPeer (nd_publicKey I) R = Some q \<and> np_isRunning (nd_peers R q)"

text \<open>What the initiator remembers of its message.\<close>

definition initiated :: "crypto \<Rightarrow> noise_device \<Rightarrow> peer_at \<Rightarrow> message_initiation \<Rightarrow> noise_device \<Rightarrow> bool" where
  "initiated C I p m I1 \<longleftrightarrow>
     hs_state (hs I1 p) = handshakeInitiationCreated \<and> hs_localIndex (hs I1 p) = mi_Sender m \<and>
     mi_Ephemeral m = cr_ScalarBaseMult C (hs_localEphemeral (hs I1 p)) \<and>
     map_of (nd_table I1) (mi_Sender m) = Some (HandshakeEntry p) \<and> hs_presharedKey (hs I1 p) = hs_presharedKey (hs I p) \<and>
     nd_privateKey I1 = nd_privateKey I \<and> nd_keypairs I1 = nd_keypairs I \<and> nd_nextKeypair I1 = nd_nextKeypair I \<and>
     np_current (nd_peers I1 p) = np_current (nd_peers I p) \<and> np_previous (nd_peers I1 p) = np_previous (nd_peers I p) \<and>
     np_next (nd_peers I1 p) = np_next (nd_peers I p)"

lemma initiation_accepted:
  assumes C: "crypto_ok C" and pair: "paired C I p R q"
    and create: "CreateMessageInitiation C random now draws p I = (Inr m, I1)"
    and fresh: "After (stamp now) (hs_lastTimestamp (hs R q))"
      "HandshakeInitationRate < time_Sub t (hs_lastInitiationConsumption (hs R q))"
  shows "initiated C I p m I1"
    "initiation_check C (m\<lparr>mi_MAC1 := mac1, mi_MAC2 := mac2\<rparr>) t R = Some (q, hs_hash (hs I1 p), hs_chainKey (hs I1 p), stamp now)"
proof -
  note defs = CreateMessageInitiation_def Let_def newPrivateKey_def sharedSecret_def key_publicKey_def case_prod_unfold
  have ok: "\<not> isZero (cr_ScalarMult C (fst (newPrivateKey random)) (hs_remoteStatic (hs I p)))"
    "\<not> isZero (hs_precomputedStaticStatic (hs I p))"
    using create by (auto simp: defs split: if_splits)
  show "initiated C I p m I1"
    using create ok
    by (auto simp: defs initiated_def update_conv' new_index_device split: if_splits option.splits)
  show "initiation_check C (m\<lparr>mi_MAC1 := mac1, mi_MAC2 := mac2\<rparr>) t R = Some (q, hs_hash (hs I1 p), hs_chainKey (hs I1 p), stamp now)"
    using create ok pair fresh
    by (auto simp: defs paired_def initiation_check_def crypto_comm [OF C] crypto_okD [OF C] split: if_splits option.splits)
qed

section \<open>The second message\<close>

text \<open>What the responder remembers of its answer.\<close>

definition responded :: "crypto \<Rightarrow> noise_device \<Rightarrow> peer_at \<Rightarrow> message_initiation \<Rightarrow> message_response \<Rightarrow> noise_device \<Rightarrow> bool" where
  "responded C R q m m2 R2 \<longleftrightarrow>
     hs_state (hs R2 q) = handshakeResponseCreated \<and> hs_localIndex (hs R2 q) = mr_Sender m2 \<and>
     hs_remoteIndex (hs R2 q) = mi_Sender m \<and> mr_Receiver m2 = mi_Sender m \<and>
     map_of (nd_table R2) (mr_Sender m2) = Some (HandshakeEntry q) \<and> nd_keypairs R2 = nd_keypairs R \<and>
     nd_nextKeypair R2 = nd_nextKeypair R \<and> np_current (nd_peers R2 q) = np_current (nd_peers R q) \<and>
     np_previous (nd_peers R2 q) = np_previous (nd_peers R q) \<and> np_next (nd_peers R2 q) = np_next (nd_peers R q)"

lemma response_accepted:
  assumes C: "crypto_ok C" and pair: "paired C I p R q" and init: "initiated C I p m I1"
    and R1: "R1 = initiation_commit (m\<lparr>mi_MAC1 := mac1, mi_MAC2 := mac2\<rparr>) (q, hs_hash (hs I1 p), hs_chainKey (hs I1 p), ts) t R"
    and create: "CreateMessageResponse C random draws q R1 = (Inr m2, R2)"
    and I2: "hs I2 p = hs I1 p" "nd_privateKey I2 = nd_privateKey I1" "nd_table I2 = nd_table I1"
  shows "responded C R q m m2 R2"
    "response_check C (m2\<lparr>mr_MAC1 := mac1', mr_MAC2 := mac2'\<rparr>) I2 = Some (p, hs_hash (hs R2 q), hs_chainKey (hs R2 q))"
proof -
  note defs = CreateMessageResponse_def initiation_commit_def Let_def newPrivateKey_def sharedSecret_def key_publicKey_def case_prod_unfold
  show "responded C R q m m2 R2"
    using create
    by (auto simp: R1 defs responded_def update_conv' new_index_device split: if_splits option.splits)
  show "response_check C (m2\<lparr>mr_MAC1 := mac1', mr_MAC2 := mac2'\<rparr>) I2 = Some (p, hs_hash (hs R2 q), hs_chainKey (hs R2 q))"
    using create pair init I2
    by (auto simp: R1 defs paired_def initiated_def response_check_def crypto_comm [OF C] crypto_okD [OF C] new_index_device
        split: if_splits option.splits)
qed

section \<open>The key pairs\<close>

definition held_keypairs :: "noise_peer \<Rightarrow> keypair_at set" where
  "held_keypairs np = set_option (np_current np) \<union> set_option (np_previous np) \<union> set_option (np_next np)"

lemma DeleteKeypair_table:
  "map_of (nd_table (DeleteKeypair k d)) i =
     (if \<exists>r. k = Some r \<and> kp_localIndex (nd_keypairs d r) = i then None else map_of (nd_table d) i)"
  by (auto simp: DeleteKeypair_def delete_conv' split: option.split)

lemma DeleteKeypair_simps [simp]:
  "nd_peers (DeleteKeypair k d) = nd_peers d" "nd_keypairs (DeleteKeypair k d) = nd_keypairs d"
  "nd_nextKeypair (DeleteKeypair k d) = nd_nextKeypair d" "nd_nextPeer (DeleteKeypair k d) = nd_nextPeer d"
  "nd_keyMap (DeleteKeypair k d) = nd_keyMap d" "nd_privateKey (DeleteKeypair k d) = nd_privateKey d"
  "nd_publicKey (DeleteKeypair k d) = nd_publicKey d"
  by (simp_all add: DeleteKeypair_def split: option.split)

lemma SwapIndexForKeypair_simps [simp]:
  "nd_peers (SwapIndexForKeypair i k d) = nd_peers d" "nd_keypairs (SwapIndexForKeypair i k d) = nd_keypairs d"
  "nd_nextKeypair (SwapIndexForKeypair i k d) = nd_nextKeypair d" "nd_nextPeer (SwapIndexForKeypair i k d) = nd_nextPeer d"
  "nd_keyMap (SwapIndexForKeypair i k d) = nd_keyMap d" "nd_privateKey (SwapIndexForKeypair i k d) = nd_privateKey d"
  "nd_publicKey (SwapIndexForKeypair i k d) = nd_publicKey d"
  by (simp_all add: SwapIndexForKeypair_def Let_def split: option.split)

text \<open>A session begins with a key pair of its own that the index leads to.\<close>

lemma session_begins:
  assumes "hs_state (hs d p) = handshakeResponseConsumed \<or> hs_state (hs d p) = handshakeResponseCreated"
    "map_of (nd_table d) (hs_localIndex (hs d p)) = Some (HandshakeEntry p)"
    "\<And>k. k \<in> held_keypairs (nd_peers d p) \<Longrightarrow> k < nd_nextKeypair d \<and> kp_localIndex (nd_keypairs d k) \<noteq> hs_localIndex (hs d p)"
    "BeginSymmetricSession C now p d = (e, d')"
  defines "k \<equiv> nd_nextKeypair d" and "initiator \<equiv> hs_state (hs d p) = handshakeResponseConsumed"
  shows "e = None" "(if initiator then np_current (nd_peers d' p) else np_next (nd_peers d' p)) = Some k"
    "map_of (nd_table d') (hs_localIndex (hs d p)) = Some (KeypairEntry p k)"
    "nd_keypairs d' k = \<lparr>kp_sendNonce = 0,
       kp_send = (if initiator then fst (KDF2 C (hs_chainKey (hs d p)) []) else snd (KDF2 C (hs_chainKey (hs d p)) [])),
       kp_receive = (if initiator then snd (KDF2 C (hs_chainKey (hs d p)) []) else fst (KDF2 C (hs_chainKey (hs d p)) [])),
       kp_replayFilter = zero_filter, kp_isInitiator = initiator, kp_created = now, kp_localIndex = hs_localIndex (hs d p),
       kp_remoteIndex = hs_remoteIndex (hs d p)\<rparr>"
proof -
  let ?np = "nd_peers d p"
  have new: "np_current ?np \<noteq> Some (nd_nextKeypair d)" "np_previous ?np \<noteq> Some (nd_nextKeypair d)" "np_next ?np \<noteq> Some (nd_nextKeypair d)"
    using assms(3) [of "nd_nextKeypair d"] by (auto simp: held_keypairs_def)
  have old: "np_current ?np = Some r \<or> np_previous ?np = Some r \<or> np_next ?np = Some r \<Longrightarrow>
      kp_localIndex (nd_keypairs d r) \<noteq> hs_localIndex (hs d p)" for r
    using assms(3) [of r] by (auto simp: held_keypairs_def)
  note simps = k_def initiator_def BeginSymmetricSession_def rotate_keypairs_def Let_def case_prod_unfold DeleteKeypair_table
    SwapIndexForKeypair_def update_conv'
  show "e = None" "(if initiator then np_current (nd_peers d' p) else np_next (nd_peers d' p)) = Some k"
    using assms(1,2,4) by (auto simp: simps split: if_splits option.splits)
  show "map_of (nd_table d') (hs_localIndex (hs d p)) = Some (KeypairEntry p k)"
    using assms(1,2,4) new old by (auto simp: simps split: if_splits option.splits)
  show "nd_keypairs d' k = \<lparr>kp_sendNonce = 0,
       kp_send = (if initiator then fst (KDF2 C (hs_chainKey (hs d p)) []) else snd (KDF2 C (hs_chainKey (hs d p)) [])),
       kp_receive = (if initiator then snd (KDF2 C (hs_chainKey (hs d p)) []) else fst (KDF2 C (hs_chainKey (hs d p)) [])),
       kp_replayFilter = zero_filter, kp_isInitiator = initiator, kp_created = now, kp_localIndex = hs_localIndex (hs d p),
       kp_remoteIndex = hs_remoteIndex (hs d p)\<rparr>"
    using assms(1,2,4) by (auto simp: simps split: if_splits option.splits)
qed

end
