(* ===== verification/Noise_Invariant.thy ===== *)
theory Noise_Invariant
  imports Noise_Agreement
begin

text \<open>
  What the operations of the handshake keep: the table of indices is exactly the index of what the peers hold, so that
  an index leads to the handshake it was drawn for, or to a key pair that its peer still holds, and to nothing else; the key
  map agrees with the handshakes; and the timestamps of accepted initiations grow.
\<close>

section \<open>The invariant\<close>

text \<open>
  The table relative to the key pairs that each peer holds. Index 0 is the index of no handshake.
\<close>

primrec owns :: "(peer_at \<Rightarrow> keypair_at set) \<Rightarrow> noise_device \<Rightarrow> u32 \<Rightarrow> index_entry \<Rightarrow> bool" where
  "owns H d i (HandshakeEntry p) \<longleftrightarrow> p < nd_nextPeer d \<and> hs_localIndex (hs d p) = i"
| "owns H d i (KeypairEntry p k) \<longleftrightarrow> p < nd_nextPeer d \<and> k \<in> H p \<and> kp_localIndex (nd_keypairs d k) = i"

definition indexed :: "(peer_at \<Rightarrow> keypair_at set) \<Rightarrow> noise_device \<Rightarrow> bool" where
  "indexed H d \<longleftrightarrow> (\<forall>i e. map_of (nd_table d) i = Some e \<longleftrightarrow> i \<noteq> 0 \<and> owns H d i e)"

definition held :: "noise_device \<Rightarrow> peer_at \<Rightarrow> keypair_at set" where
  "held d p = held_keypairs (nd_peers d p)"

definition slots_ok :: "noise_peer \<Rightarrow> bool" where
  "slots_ok np \<longleftrightarrow> set_option (np_current np) \<inter> set_option (np_previous np) = {} \<and>
     set_option (np_current np) \<inter> set_option (np_next np) = {} \<and> set_option (np_previous np) \<inter> set_option (np_next np) = {}"

definition peer_ok :: "crypto \<Rightarrow> noise_device \<Rightarrow> bytes \<Rightarrow> peer_at \<Rightarrow> bool" where
  "peer_ok C d pk p \<longleftrightarrow> p < nd_nextPeer d \<and> hs_remoteStatic (hs d p) = pk \<and>
     hs_precomputedStaticStatic (hs d p) = cr_ScalarMult C (nd_privateKey d) pk"

definition noise_inv :: "crypto \<Rightarrow> noise_device \<Rightarrow> bool" where
  "noise_inv C d \<longleftrightarrow> indexed (held d) d \<and>
     (\<forall>p < nd_nextPeer d. slots_ok (nd_peers d p) \<and> (\<forall>k \<in> held d p. k < nd_nextKeypair d)) \<and>
     distinct (map fst (nd_keyMap d)) \<and> (\<forall>(pk, p) \<in> set (nd_keyMap d). peer_ok C d pk p)"

lemma indexedD:
  assumes "indexed H d" "map_of (nd_table d) i = Some e"
  shows "i \<noteq> 0" "owns H d i e"
  using assms by (auto simp: indexed_def)

lemma owner_unique: "\<lbrakk>indexed H d; owns H d i e; owns H d i e'; i \<noteq> 0\<rbrakk> \<Longrightarrow> e' = e"
  by (metis indexed_def option.inject)

lemma indexed_cong:
  assumes "indexed H d" "nd_table d' = nd_table d" "nd_nextPeer d' = nd_nextPeer d"
    "\<And>p. p < nd_nextPeer d \<Longrightarrow> hs_localIndex (hs d' p) = hs_localIndex (hs d p)"
    "\<And>p. p < nd_nextPeer d \<Longrightarrow> H' p = H p"
    "\<And>p k. \<lbrakk>p < nd_nextPeer d; k \<in> H p\<rbrakk> \<Longrightarrow> kp_localIndex (nd_keypairs d' k) = kp_localIndex (nd_keypairs d k)"
  shows "indexed H' d'"
proof -
  have "owns H' d' i e = owns H d i e" for i e using assms by (cases e) auto
  then show ?thesis using assms by (simp add: indexed_def)
qed

text \<open>The handshake of a peer gives up its index, and takes another.\<close>

lemma indexed_drop:
  assumes "indexed H d" "p < nd_nextPeer d" "hs_localIndex h = 0"
  shows "indexed H (set_hs p h (it_Delete (hs_localIndex (hs d p)) d))"
proof -
  let ?j = "hs_localIndex (hs d p)"
  have own: "owns H d ?j (HandshakeEntry p)" using assms by simp
  have "(i \<noteq> ?j \<and> owns H d i e) = owns H (set_hs p h (it_Delete ?j d)) i e" if "i \<noteq> 0" for i e
    using owner_unique [OF assms(1) own, of e] that assms(2,3) by (cases e) auto
  then show ?thesis using assms(1) by (auto simp: indexed_def delete_conv')
qed

lemma indexed_draw:
  assumes "indexed H d" "p < nd_nextPeer d" "hs_localIndex (hs d p) = 0" "map_of (nd_table d) i = None" "hs_localIndex h = i" "i \<noteq> 0"
  shows "indexed H (set_hs p h (d\<lparr>nd_table := AList.update i (HandshakeEntry p) (nd_table d)\<rparr>))"
proof -
  let ?d = "set_hs p h (d\<lparr>nd_table := AList.update i (HandshakeEntry p) (nd_table d)\<rparr>)"
  have free: "\<not> owns H d i e" for e using assms(1,4,6) by (metis indexed_def option.distinct(1))
  have "owns H ?d j e = (if j = i then e = HandshakeEntry p else owns H d j e)" if "j \<noteq> 0" for j e
    using free [of e] that assms(2,3,5) by (cases e) (auto simp: set_hs_def set_peer_def)
  then show ?thesis using assms(1,6) by (auto simp: indexed_def update_conv' set_hs_def set_peer_def)
qed

text \<open>The index of a handshake becomes that of the key pair, and the index of a key pair is given up.\<close>

lemma indexed_swap:
  assumes "indexed H d" "p < nd_nextPeer d" "hs_localIndex h = 0" "\<And>q. q < nd_nextPeer d \<Longrightarrow> k \<notin> H q"
    "kp_localIndex kp = hs_localIndex (hs d p)"
  shows "indexed (H(p := insert k (H p)))
    (set_hs p h (SwapIndexForKeypair (hs_localIndex (hs d p)) k (d\<lparr>nd_keypairs := (nd_keypairs d)(k := kp), nd_nextKeypair := n\<rparr>)))"
proof -
  let ?j = "hs_localIndex (hs d p)"
  let ?H = "H(p := insert k (H p))"
  let ?d = "set_hs p h (SwapIndexForKeypair ?j k (d\<lparr>nd_keypairs := (nd_keypairs d)(k := kp), nd_nextKeypair := n\<rparr>))"
  have own: "owns H d ?j (HandshakeEntry p)" using assms by simp
  then have at: "?j \<noteq> 0 \<Longrightarrow> map_of (nd_table d) ?j = Some (HandshakeEntry p)" using assms(1) by (auto simp: indexed_def)
  have zero: "map_of (nd_table d) 0 = None" using indexedD(1) [OF assms(1), of 0] by (cases "map_of (nd_table d) 0") auto
  have table: "map_of (nd_table ?d) i = (if i = ?j \<and> i \<noteq> 0 then Some (KeypairEntry p k) else map_of (nd_table d) i)" for i
    using at zero by (cases "?j = 0") (auto simp: SwapIndexForKeypair_def update_conv')
  have "owns ?H ?d i e = (if i = ?j then e = KeypairEntry p k else owns H d i e)" if "i \<noteq> 0" for i e
    using owner_unique [OF assms(1) own, of e] that assms(2-5)
    by (cases e) (auto split: if_splits)
  then show ?thesis unfolding indexed_def table using assms(1,2,5) zero by (auto simp: indexed_def)
qed

lemma indexed_DeleteKeypair:
  assumes "indexed H d" "p < nd_nextPeer d" "set_option k \<subseteq> H p"
  shows "indexed (H(p := H p - set_option k)) (DeleteKeypair k d)"
proof (cases k)
  case None
  then show ?thesis using assms by (simp add: DeleteKeypair_def)
next
  case (Some r)
  let ?j = "kp_localIndex (nd_keypairs d r)"
  have own: "owns H d ?j (KeypairEntry p r)" using assms Some by simp
  have eq: "(i \<noteq> ?j \<and> owns H d i e) = owns (H(p := H p - {r})) (it_Delete ?j d) i e" if "i \<noteq> 0" for i e
  proof (cases e)
    case (HandshakeEntry q)
    then show ?thesis using owner_unique [OF assms(1) own, of e] that by auto
  next
    case (KeypairEntry q k')
    have "owns (H(p := H p - {r})) (it_Delete ?j d) i e \<longleftrightarrow> owns H d i e \<and> \<not> (q = p \<and> k' = r)"
      by (auto simp: KeypairEntry)
    moreover have "owns H d i e \<and> q = p \<and> k' = r \<Longrightarrow> i = ?j" by (auto simp: KeypairEntry)
    moreover have "owns H d ?j e \<Longrightarrow> ?j \<noteq> 0 \<Longrightarrow> q = p \<and> k' = r"
      using owner_unique [OF assms(1) own, of e] unfolding KeypairEntry by blast
    ultimately show ?thesis using that by blast
  qed
  have "map_of (nd_table (it_Delete ?j d)) i = Some e \<longleftrightarrow> i \<noteq> 0 \<and> owns (H(p := H p - {r})) (it_Delete ?j d) i e" for i e
  proof -
    have "map_of (nd_table d) i = Some e \<longleftrightarrow> i \<noteq> 0 \<and> owns H d i e" using assms(1) unfolding indexed_def by blast
    moreover have "map_of (nd_table (it_Delete ?j d)) i = Some e \<longleftrightarrow> i \<noteq> ?j \<and> map_of (nd_table d) i = Some e"
      by (simp add: delete_conv')
    ultimately show ?thesis using eq by blast
  qed
  then show ?thesis unfolding indexed_def using Some by (simp add: DeleteKeypair_def)
qed

section \<open>Preservation\<close>

lemma noise_invD:
  assumes "noise_inv C d"
  shows "indexed (held d) d" "p < nd_nextPeer d \<Longrightarrow> slots_ok (nd_peers d p)"
    "\<lbrakk>p < nd_nextPeer d; k \<in> held d p\<rbrakk> \<Longrightarrow> k < nd_nextKeypair d" "distinct (map fst (nd_keyMap d))"
    "(pk, p) \<in> set (nd_keyMap d) \<Longrightarrow> peer_ok C d pk p"
  using assms by (auto simp: noise_inv_def)

lemma peer_step_inv:
  assumes inv: "noise_inv C d" and p: "p < nd_nextPeer d"
    and same: "nd_nextPeer d' = nd_nextPeer d" "nd_keyMap d' = nd_keyMap d" "nd_privateKey d' = nd_privateKey d"
      "nd_nextKeypair d \<le> nd_nextKeypair d'" "\<And>q. q \<noteq> p \<Longrightarrow> nd_peers d' q = nd_peers d q"
      "hs_remoteStatic (hs d' p) = hs_remoteStatic (hs d p)"
      "hs_precomputedStaticStatic (hs d' p) = hs_precomputedStaticStatic (hs d p)"
    and slots: "slots_ok (nd_peers d' p)" "\<And>k. k \<in> held d' p \<Longrightarrow> k < nd_nextKeypair d'"
    and "indexed (held d') d'"
  shows "noise_inv C d'"
proof -
  have "slots_ok (nd_peers d' q) \<and> (\<forall>k \<in> held d' q. k < nd_nextKeypair d')" if "q < nd_nextPeer d'" for q
    using slots noise_invD(2,3) [OF inv, of q] same that by (cases "q = p") (auto simp: held_def intro: less_le_trans)
  moreover have "peer_ok C d' pk q" if "(pk, q) \<in> set (nd_keyMap d')" for pk q
    using noise_invD(5) [OF inv, of pk q] that same by (cases "q = p") (auto simp: peer_ok_def)
  ultimately show ?thesis
    using assms noise_invD(4) [OF inv] by (auto simp: noise_inv_def)
qed

text \<open>Steps that change a handshake and the table only.\<close>

lemma handshake_step_inv:
  assumes "noise_inv C d" "p < nd_nextPeer d" "indexed (held d) (set_hs p h d1)"
    "nd_peers d1 = nd_peers d" "nd_nextPeer d1 = nd_nextPeer d" "nd_keyMap d1 = nd_keyMap d" "nd_privateKey d1 = nd_privateKey d"
    "nd_nextKeypair d1 = nd_nextKeypair d"
    "hs_remoteStatic h = hs_remoteStatic (hs d p)" "hs_precomputedStaticStatic h = hs_precomputedStaticStatic (hs d p)"
  shows "noise_inv C (set_hs p h d1)"
proof (rule peer_step_inv [OF assms(1,2)])
  have "held (set_hs p h d1) = held d" using assms(4) by (auto simp: held_def held_keypairs_def fun_eq_iff)
  then show "indexed (held (set_hs p h d1)) (set_hs p h d1)" "\<And>k. k \<in> held (set_hs p h d1) p \<Longrightarrow> k < nd_nextKeypair (set_hs p h d1)"
    using assms noise_invD(3) [OF assms(1,2)] by simp_all
qed (use assms noise_invD(2) [OF assms(1,2)] in \<open>auto simp: slots_ok_def\<close>)

lemma set_hs_inv:
  assumes "noise_inv C d" "p < nd_nextPeer d" "hs_localIndex h = hs_localIndex (hs d p)"
    "hs_remoteStatic h = hs_remoteStatic (hs d p)" "hs_precomputedStaticStatic h = hs_precomputedStaticStatic (hs d p)"
  shows "noise_inv C (set_hs p h d)"
  by (rule handshake_step_inv [OF assms(1,2) indexed_cong [OF noise_invD(1) [OF assms(1)]]]) (use assms in auto)

lemma zero_handshake_inv: "noise_inv C d \<Longrightarrow> p < nd_nextPeer d \<Longrightarrow> noise_inv C (zero_handshake p d)"
  unfolding zero_handshake_def
  by (rule handshake_step_inv) (auto simp: handshake_Clear_def noise_invD(1) intro!: indexed_drop)

text \<open>The draw of an index, after the old one is given up.\<close>

lemma new_index_member: "snd (fst (NewIndexForHandshake p draws d)) = None \<Longrightarrow> (fst (fst (NewIndexForHandshake p draws d)), True) \<in> set draws"
  by (induction p draws d rule: NewIndexForHandshake.induct) (auto split: if_splits)

definition proper_draws :: "(u32 \<times> bool) list \<Rightarrow> bool" where
  "proper_draws draws \<longleftrightarrow> (\<forall>(i, ok) \<in> set draws. ok \<and> i \<noteq> 0)"

lemma proper_draw:
  "proper_draws draws \<Longrightarrow> NewIndexForHandshake p draws d = ((i, e), d') \<Longrightarrow>
     e = None \<and> i \<noteq> 0 \<and> map_of (nd_table d) i = None \<and> d' = d\<lparr>nd_table := AList.update i (HandshakeEntry p) (nd_table d)\<rparr> \<or>
     e = Some StillDrawing \<and> d' = d"
  by (induction p draws d rule: NewIndexForHandshake.induct) (auto simp: proper_draws_def split: if_splits)

lemma draw_inv:
  assumes "noise_inv C d" "p < nd_nextPeer d" "proper_draws draws"
    "NewIndexForHandshake p draws (it_Delete (hs_localIndex (hs d p)) d) = ((i, None), d1)"
    "hs_localIndex h = i" "hs_remoteStatic h = hs_remoteStatic (hs d p)"
    "hs_precomputedStaticStatic h = hs_precomputedStaticStatic (hs d p)"
  shows "noise_inv C (set_hs p h d1)"
proof -
  let ?z = "set_hs p ((hs d p)\<lparr>hs_localIndex := 0\<rparr>) (it_Delete (hs_localIndex (hs d p)) d)"
  have i: "i \<noteq> 0" "map_of (nd_table ?z) i = None"
    and d1: "d1 = (it_Delete (hs_localIndex (hs d p)) d)\<lparr>nd_table := AList.update i (HandshakeEntry p) (nd_table ?z)\<rparr>"
    using proper_draw [OF assms(3,4)] by auto
  have z: "indexed (held d) ?z" by (rule indexed_drop [OF noise_invD(1) [OF assms(1)] assms(2)]) simp
  have "set_hs p h d1 = set_hs p h (?z\<lparr>nd_table := AList.update i (HandshakeEntry p) (nd_table ?z)\<rparr>)"
    by (simp add: d1 set_hs_def set_peer_def it_Delete_def)
  moreover have "indexed (held d) \<dots>" by (rule indexed_draw [OF z _ _ i(2) assms(5) i(1)]) (use assms(2) in simp_all)
  ultimately show ?thesis
    using assms d1 by (intro handshake_step_inv) auto
qed

lemma CreateMessageInitiation_inv:
  assumes "noise_inv C d" "p < nd_nextPeer d" "proper_draws draws"
    "CreateMessageInitiation C random now draws p d = (r, d')" "r \<noteq> Inl StillDrawing"
  shows "noise_inv C d'"
proof -
  have same: "noise_inv C (set_hs p h d)"
    if "hs_localIndex h = hs_localIndex (hs d p)" "hs_remoteStatic h = hs_remoteStatic (hs d p)"
      "hs_precomputedStaticStatic h = hs_precomputedStaticStatic (hs d p)" for h
    by (rule set_hs_inv [OF assms(1,2) that])
  have drawn: "noise_inv C (set_hs p h' (snd n))"
    if "snd (fst n) = None" "n = NewIndexForHandshake p draws (it_Delete (hs_localIndex (hs d p)) (set_hs p h d))"
      "hs_localIndex h = hs_localIndex (hs d p)" "hs_remoteStatic h = hs_remoteStatic (hs d p)"
      "hs_precomputedStaticStatic h = hs_precomputedStaticStatic (hs d p)"
      "hs_localIndex h' = fst (fst n)" "hs_remoteStatic h' = hs_remoteStatic (hs d p)"
      "hs_precomputedStaticStatic h' = hs_precomputedStaticStatic (hs d p)" for h h' n
    by (rule draw_inv [OF same [OF that(3-5)] _ assms(3), of p "fst (fst n)"])
       (use that assms(2) in \<open>auto simp: prod_eq_iff\<close>)
  have still: "e = StillDrawing" if "snd (fst (NewIndexForHandshake p draws d0)) = Some e" for d0 e
    using proper_draw [OF assms(3), of p d0] that by (metis option.distinct(1) option.inject prod.collapse)
  show ?thesis
    using assms(4,5)
    by (auto simp: CreateMessageInitiation_def Let_def case_prod_unfold split: if_splits option.splits)
       (force intro: same drawn dest: still)+
qed

lemma initiation_commit_inv: "\<lbrakk>noise_inv C d; fst c < nd_nextPeer d\<rbrakk> \<Longrightarrow> noise_inv C (initiation_commit m c now d)"
  by (auto simp: initiation_commit_def Let_def case_prod_unfold intro!: set_hs_inv)

lemma response_commit_inv: "\<lbrakk>noise_inv C d; fst c < nd_nextPeer d\<rbrakk> \<Longrightarrow> noise_inv C (snd (response_commit m c d))"
  by (auto simp: response_commit_def case_prod_unfold intro!: set_hs_inv)

lemma set_presharedKey_inv: "\<lbrakk>noise_inv C d; p < nd_nextPeer d\<rbrakk> \<Longrightarrow> noise_inv C (set_presharedKey key p d)"
  by (auto simp: set_presharedKey_def intro!: set_hs_inv)

lemma CreateMessageResponse_inv:
  assumes "noise_inv C d" "p < nd_nextPeer d" "proper_draws draws"
    "CreateMessageResponse C random draws p d = (r, d')" "r \<noteq> Inl StillDrawing"
  shows "noise_inv C d'"
proof (cases "hs_state (hs d p) = handshakeInitiationConsumed")
  case False
  then show ?thesis using assms by (simp add: CreateMessageResponse_def)
next
  case True
  let ?n = "NewIndexForHandshake p draws (it_Delete (hs_localIndex (hs d p)) d)"
  obtain i e d1 where n: "?n = ((i, e), d1)" by (metis prod.collapse)
  show ?thesis
  proof (cases e)
    case None
    have "hs d1 p = hs d p" using proper_draw [OF assms(3) n] None by auto
    then have "noise_inv C (set_hs p h d1)"
      if "hs_localIndex h = i" "hs_remoteStatic h = hs_remoteStatic (hs d1 p)"
        "hs_precomputedStaticStatic h = hs_precomputedStaticStatic (hs d1 p)" for h
      using draw_inv [OF assms(1-3) n [unfolded None] that(1)] that(2,3) by simp
    then show ?thesis
      using assms(4,5) True n None
      by (auto simp: CreateMessageResponse_def Let_def case_prod_unfold split: if_splits)
  next
    case (Some e')
    then show ?thesis using assms(4,5) True n proper_draw [OF assms(3) n] by (auto simp: CreateMessageResponse_def)
  qed
qed

text \<open>The key pairs of a peer.\<close>

lemma slot_held:
  "set_option (np_current (nd_peers d p)) \<subseteq> held d p" "set_option (np_previous (nd_peers d p)) \<subseteq> held d p"
  "set_option (np_next (nd_peers d p)) \<subseteq> held d p"
  by (auto simp: held_def held_keypairs_def)

lemma rotate_indexed:
  assumes "indexed (H(p := insert k (H p))) d" "p < nd_nextPeer d" "H = held d" "slots_ok (nd_peers d p)" "k \<notin> held d p"
  shows "indexed (held (rotate_keypairs k b p d)) (rotate_keypairs k b p d)"
proof -
  let ?np = "nd_peers d p"
  have slot: "set_option (np_current ?np) \<subseteq> insert k (H p)" "set_option (np_previous ?np) \<subseteq> insert k (H p)" "set_option (np_next ?np) \<subseteq> insert k (H p)"
    using assms(3) by (auto simp: held_def held_keypairs_def)
  have del: "indexed (H(p := (insert k (H p) - set_option a) - set_option b)) (DeleteKeypair b (DeleteKeypair a (set_peer p np d)))"
    if "set_option a \<subseteq> insert k (H p)" "set_option b \<subseteq> insert k (H p) - set_option a" "np_handshake np = hs d p" for a b np
  proof -
    have "indexed (H(p := insert k (H p))) (set_peer p np d)" by (rule indexed_cong [OF assms(1)]) (use that in auto)
    from indexed_DeleteKeypair [OF this, of p a] that(1) assms(2)
    have "indexed (H(p := insert k (H p) - set_option a)) (DeleteKeypair a (set_peer p np d))" by simp
    from indexed_DeleteKeypair [OF this, of p b] that(2) assms(2) show ?thesis by simp
  qed
  have one: "indexed (H(p := insert k (H p) - set_option a)) (DeleteKeypair a (set_peer p np d))"
    if "set_option a \<subseteq> insert k (H p)" "np_handshake np = hs d p" for a np
    using del [of None a np] that by (simp add: DeleteKeypair_def)
  have cong: "indexed H' d' \<Longrightarrow> H' = held d' \<Longrightarrow> indexed (held d') d'" for H' d' by simp
  note sets = held_def held_keypairs_def slots_ok_def fun_eq_iff assms(3)
  show ?thesis
    unfolding rotate_keypairs_def Let_def
    using assms(4,5) slot
    by (auto split: option.split intro!: cong [OF del] cong [OF one] simp: sets)
qed

lemma rotate_simps [simp]:
  "nd_nextPeer (rotate_keypairs k b p d) = nd_nextPeer d" "nd_keyMap (rotate_keypairs k b p d) = nd_keyMap d"
  "nd_privateKey (rotate_keypairs k b p d) = nd_privateKey d" "nd_nextKeypair (rotate_keypairs k b p d) = nd_nextKeypair d"
  "q \<noteq> p \<Longrightarrow> nd_peers (rotate_keypairs k b p d) q = nd_peers d q"
  "hs (rotate_keypairs k b p d) p = hs d p" "nd_keypairs (rotate_keypairs k b p d) = nd_keypairs d"
  by (simp_all add: rotate_keypairs_def Let_def split: option.split)

lemma rotate_slots:
  assumes "slots_ok (nd_peers d p)" "k \<notin> held d p"
  shows "slots_ok (nd_peers (rotate_keypairs k b p d) p)" "held (rotate_keypairs k b p d) p \<subseteq> insert k (held d p)"
  using assms by (auto simp: rotate_keypairs_def Let_def slots_ok_def held_def held_keypairs_def split: option.split)

lemma BeginSymmetricSession_inv:
  assumes "noise_inv C d" "p < nd_nextPeer d"
  shows "noise_inv C (snd (BeginSymmetricSession C now p d))"
proof (cases "hs_state (hs d p) = handshakeResponseConsumed \<or> hs_state (hs d p) = handshakeResponseCreated")
  case False
  then show ?thesis using assms by (simp add: BeginSymmetricSession_def Let_def case_prod_unfold)
next
  case True
  define k b kp h where "k = nd_nextKeypair d" and "b = (hs_state (hs d p) = handshakeResponseConsumed)"
    and "kp = nd_keypairs (snd (BeginSymmetricSession C now p d)) (nd_nextKeypair d)"
    and "h = (hs d p)\<lparr>hs_chainKey := replicate 32 0, hs_hash := replicate 32 0, hs_localEphemeral := replicate 32 0,
              hs_state := handshakeZeroed, hs_localIndex := 0\<rparr>"
  define d2 where "d2 = set_hs p h (SwapIndexForKeypair (hs_localIndex (hs d p)) k
    (d\<lparr>nd_keypairs := (nd_keypairs d)(k := kp), nd_nextKeypair := k + 1\<rparr>))"
  define d3 where "d3 = rotate_keypairs k b p d2"
  have d': "snd (BeginSymmetricSession C now p d) = set_peer p ((nd_peers d3 p)\<lparr>np_handshakeCount := np_handshakeCount (nd_peers d3 p) + 1\<rparr>) d3"
    and kp: "kp_localIndex kp = hs_localIndex (hs d p)"
    using True by (auto simp: BeginSymmetricSession_def Let_def case_prod_unfold kp_def d3_def d2_def h_def b_def k_def)
  have new: "k \<notin> held d q" if "q < nd_nextPeer d" for q using noise_invD(3) [OF assms(1) that] by (auto simp: k_def)
  have held2: "held d2 = held d" by (auto simp: d2_def held_def held_keypairs_def fun_eq_iff)
  have slots2: "slots_ok (nd_peers d2 p)" using noise_invD(2) [OF assms] by (simp add: d2_def slots_ok_def)
  have "indexed ((held d)(p := insert k (held d p))) d2"
    unfolding d2_def by (rule indexed_swap [OF noise_invD(1) [OF assms(1)] assms(2) _ new kp]) (simp_all add: h_def)
  from rotate_indexed [OF this _ held2 [symmetric] slots2, of b] new assms(2)
  have i3: "indexed (held d3) d3" by (simp add: d3_def held2) (simp add: d2_def)
  have next2: "nd_nextPeer d2 = nd_nextPeer d" by (simp add: d2_def)
  show ?thesis
    unfolding d'
  proof (rule peer_step_inv [OF assms])
    let ?d = "set_peer p ((nd_peers d3 p)\<lparr>np_handshakeCount := np_handshakeCount (nd_peers d3 p) + 1\<rparr>) d3"
    have "held ?d = held d3" by (auto simp: held_def held_keypairs_def fun_eq_iff)
    then show "indexed (held ?d) ?d" using i3 by (auto intro: indexed_cong)
    show "slots_ok (nd_peers ?d p)" using rotate_slots(1) [OF slots2] new [OF assms(2)] held2 by (simp add: d3_def slots_ok_def)
    show "k' < nd_nextKeypair ?d" if "k' \<in> held ?d p" for k'
      using rotate_slots(2) [OF slots2, of k b] that new [OF assms(2)] held2 \<open>held ?d = held d3\<close> noise_invD(3) [OF assms]
      by (fastforce simp: d3_def d2_def k_def)
  qed (simp_all add: d3_def d2_def h_def k_def)
qed

lemma ReceivedWithKeypair_inv:
  assumes "noise_inv C d" "p < nd_nextPeer d"
  shows "noise_inv C (snd (ReceivedWithKeypair k p d))"
proof (cases "np_next (nd_peers d p) = Some k")
  case True
  let ?np = "nd_peers d p"
  let ?d = "set_peer p (?np\<lparr>np_previous := np_current ?np, np_current := Some k, np_next := None\<rparr>) d"
  have "indexed (held d) ?d" by (rule indexed_cong [OF noise_invD(1) [OF assms(1)]]) auto
  from indexed_DeleteKeypair [OF this, of p "np_previous ?np"]
  have "indexed ((held d)(p := held d p - set_option (np_previous ?np))) (DeleteKeypair (np_previous ?np) ?d)"
    using assms(2) slot_held by simp
  moreover have "(held d)(p := held d p - set_option (np_previous ?np)) = held (DeleteKeypair (np_previous ?np) ?d)"
    using noise_invD(2) [OF assms] True by (auto simp: held_def held_keypairs_def slots_ok_def fun_eq_iff)
  ultimately have i: "indexed (held (DeleteKeypair (np_previous ?np) ?d)) (DeleteKeypair (np_previous ?np) ?d)" by simp
  have "noise_inv C (DeleteKeypair (np_previous ?np) ?d)"
    by (rule peer_step_inv [OF assms])
       (use i noise_invD(2) [OF assms] noise_invD(3) [OF assms] True in \<open>auto simp: slots_ok_def held_def held_keypairs_def\<close>)
  then show ?thesis using True by (simp add: ReceivedWithKeypair_def Let_def)
qed (use assms in \<open>simp add: ReceivedWithKeypair_def Let_def\<close>)

lemma zero_keypairs_inv:
  assumes "noise_inv C d" "p < nd_nextPeer d"
  shows "noise_inv C (zero_keypairs p d)"
proof -
  let ?np = "nd_peers d p"
  let ?d = "set_peer p (?np\<lparr>np_previous := None, np_current := None, np_next := None\<rparr>) d"
  let ?H1 = "(held d)(p := held d p - set_option (np_previous ?np))"
  let ?H2 = "?H1(p := ?H1 p - set_option (np_current ?np))"
  have apart: "set_option (np_current ?np) \<subseteq> ?H1 p" "set_option (np_next ?np) \<subseteq> ?H2 p"
    using noise_invD(2) [OF assms] slot_held [where d = d and p = p] by (auto simp: slots_ok_def)
  have "indexed (held d) ?d" by (rule indexed_cong [OF noise_invD(1) [OF assms(1)]]) auto
  then have "indexed ?H1 (DeleteKeypair (np_previous ?np) ?d)"
    by (rule indexed_DeleteKeypair) (use assms(2) slot_held(2) in simp_all)
  then have "indexed ?H2 (DeleteKeypair (np_current ?np) (DeleteKeypair (np_previous ?np) ?d))"
    by (rule indexed_DeleteKeypair) (use assms(2) apart(1) in simp_all)
  then have "indexed (?H2(p := ?H2 p - set_option (np_next ?np))) (zero_keypairs p d)"
    unfolding zero_keypairs_def Let_def by (rule indexed_DeleteKeypair) (use assms(2) apart(2) in simp_all)
  moreover have "?H2(p := ?H2 p - set_option (np_next ?np)) = held (zero_keypairs p d)"
    by (auto simp: held_def held_keypairs_def zero_keypairs_def Let_def fun_eq_iff)
  ultimately have "indexed (held (zero_keypairs p d)) (zero_keypairs p d)" by simp
  then show ?thesis
    by (rule peer_step_inv [OF assms, rotated -1]) (auto simp: zero_keypairs_def Let_def slots_ok_def held_def held_keypairs_def)
qed

lemma exhaust_inv: "noise_inv C d \<Longrightarrow> noise_inv C (exhaust k d)"
proof (cases k)
  case (Some r)
  assume inv: "noise_inv C d"
  have "indexed (held (exhaust k d)) (exhaust k d)"
    by (rule indexed_cong [OF noise_invD(1) [OF inv]]) (auto simp: exhaust_def Some held_def)
  then show ?thesis using inv by (auto simp: noise_inv_def exhaust_def Some held_def peer_ok_def)
qed (simp add: exhaust_def)

lemma zero_handshake_simps [simp]:
  "nd_nextPeer (zero_handshake p d) = nd_nextPeer d" "nd_keyMap (zero_handshake p d) = nd_keyMap d"
  "nd_nextPeer (zero_keypairs p d) = nd_nextPeer d" "nd_keyMap (zero_keypairs p d) = nd_keyMap d"
  "nd_nextPeer (exhaust k d) = nd_nextPeer d" "nd_keyMap (exhaust k d) = nd_keyMap d"
  by (simp_all add: zero_handshake_def zero_keypairs_def exhaust_def Let_def split: option.split)

lemma ExpireCurrentKeypairs_inv: "\<lbrakk>noise_inv C d; p < nd_nextPeer d\<rbrakk> \<Longrightarrow> noise_inv C (ExpireCurrentKeypairs now p d)"
  by (auto simp: ExpireCurrentKeypairs_def Let_def intro!: exhaust_inv set_hs_inv zero_handshake_inv)

lemma NewPeer_inv:
  assumes "noise_inv C d"
  shows "noise_inv C (snd (NewPeer C pk d))"
proof (cases "fst (NewPeer C pk d) = Inr (nd_nextPeer d)")
  case False
  then show ?thesis using assms by (simp add: NewPeer_def Let_def split: if_splits)
next
  case True
  let ?d = "snd (NewPeer C pk d)" and ?n = "nd_nextPeer d"
  have d: "nd_nextPeer ?d = ?n + 1" "nd_table ?d = nd_table d" "nd_keypairs ?d = nd_keypairs d" "nd_nextKeypair ?d = nd_nextKeypair d"
    "\<And>p. p \<noteq> ?n \<Longrightarrow> nd_peers ?d p = nd_peers d p" "nd_keyMap ?d = AList.update pk ?n (nd_keyMap d)"
    "nd_privateKey ?d = nd_privateKey d"
    "hs_localIndex (hs ?d ?n) = 0" "held ?d ?n = {}" "slots_ok (nd_peers ?d ?n)" "peer_ok C ?d pk ?n"
    using True by (auto simp: NewPeer_def Let_def zeroed_handshake_def zero_peer_def held_def held_keypairs_def slots_ok_def peer_ok_def
        sharedSecret_def split: if_splits)
  have other: "q \<noteq> ?n \<Longrightarrow> held ?d q = held d q" for q by (simp add: held_def d(5))
  have "owns (held ?d) ?d i e = owns (held d) d i e" if "i \<noteq> 0" for i e
  proof (cases e)
    case (HandshakeEntry q)
    then show ?thesis using d(1,5,8) that by (cases "q = ?n") auto
  next
    case (KeypairEntry q k)
    then show ?thesis using d(1,3,9) other that by (cases "q = ?n") auto
  qed
  then have "indexed (held ?d) ?d" using noise_invD(1) [OF assms] d(2) by (auto simp: indexed_def)
  moreover have "slots_ok (nd_peers ?d p) \<and> (\<forall>k \<in> held ?d p. k < nd_nextKeypair ?d)" if "p < nd_nextPeer ?d" for p
    using d noise_invD(2,3) [OF assms, of p] that by (cases "p = ?n") (auto simp: held_def)
  moreover have "peer_ok C ?d pk' p" if "(pk', p) \<in> set (nd_keyMap ?d)" for pk' p
  proof -
    have "map_of (nd_keyMap ?d) pk' = Some p"
      using that noise_invD(4) [OF assms] by (simp add: d(6) distinct_update map_of_is_SomeI)
    then show ?thesis
      using d noise_invD(5) [OF assms, of pk' p] by (auto simp: update_conv' peer_ok_def split: if_splits dest: map_of_SomeD)
  qed
  ultimately show ?thesis
    using noise_invD(4) [OF assms] by (auto simp: noise_inv_def d(6) distinct_update)
qed

section \<open>What needs no luck with the indices\<close>

text \<open>
  The part of the invariant that holds whatever the random source returns, failures and 0 included: the table leads to
  peers that exist, the key pairs of a peer were created, and the key map agrees with the handshakes.
\<close>

primrec index_peer :: "index_entry \<Rightarrow> peer_at" where
  "index_peer (HandshakeEntry p) = p"
| "index_peer (KeypairEntry p k) = p"

definition noise_base :: "crypto \<Rightarrow> noise_device \<Rightarrow> bool" where
  "noise_base C d \<longleftrightarrow> (\<forall>i e. map_of (nd_table d) i = Some e \<longrightarrow> index_peer e < nd_nextPeer d) \<and>
     (\<forall>p < nd_nextPeer d. \<forall>k \<in> held d p. k < nd_nextKeypair d) \<and>
     distinct (map fst (nd_keyMap d)) \<and> (\<forall>(pk, p) \<in> set (nd_keyMap d). peer_ok C d pk p)"

lemma noise_baseD:
  assumes "noise_base C d"
  shows "map_of (nd_table d) i = Some e \<Longrightarrow> index_peer e < nd_nextPeer d"
    "\<lbrakk>p < nd_nextPeer d; k \<in> held d p\<rbrakk> \<Longrightarrow> k < nd_nextKeypair d" "distinct (map fst (nd_keyMap d))"
    "(pk, p) \<in> set (nd_keyMap d) \<Longrightarrow> peer_ok C d pk p"
  using assms by (auto simp: noise_base_def)

lemma noise_inv_base: "noise_inv C d \<Longrightarrow> noise_base C d"
proof -
  assume inv: "noise_inv C d"
  have "index_peer e < nd_nextPeer d" if "map_of (nd_table d) i = Some e" for i e
    using indexedD(2) [OF noise_invD(1) [OF inv] that] by (cases e) auto
  then show ?thesis using inv by (auto simp: noise_base_def noise_inv_def)
qed

text \<open>A device that differs from another in what the steps of a peer change.\<close>

definition base_step :: "noise_device \<Rightarrow> noise_device \<Rightarrow> bool" where
  "base_step d d' \<longleftrightarrow> nd_nextPeer d' = nd_nextPeer d \<and> nd_keyMap d' = nd_keyMap d \<and> nd_privateKey d' = nd_privateKey d \<and>
     nd_nextKeypair d \<le> nd_nextKeypair d' \<and>
     (\<forall>q. hs_remoteStatic (hs d' q) = hs_remoteStatic (hs d q) \<and>
        hs_precomputedStaticStatic (hs d' q) = hs_precomputedStaticStatic (hs d q) \<and>
        (\<forall>k \<in> held d' q. k \<in> held d q \<or> k < nd_nextKeypair d')) \<and>
     (\<forall>i e. map_of (nd_table d') i = Some e \<longrightarrow> (\<exists>j e'. map_of (nd_table d) j = Some e' \<and> index_peer e' = index_peer e) \<or> index_peer e < nd_nextPeer d)"

lemma noise_base_step:
  assumes "noise_base C d" "base_step d d'"
  shows "noise_base C d'"
proof -
  have "k < nd_nextKeypair d'" if "p < nd_nextPeer d'" "k \<in> held d' p" for p k
  proof -
    have "nd_nextKeypair d \<le> nd_nextKeypair d'" "k \<in> held d p \<or> k < nd_nextKeypair d'" "p < nd_nextPeer d"
      using assms(2) that by (auto simp: base_step_def)
    then show ?thesis using noise_baseD(2) [OF assms(1), of p k] by auto
  qed
  moreover have "index_peer e < nd_nextPeer d'" if "map_of (nd_table d') i = Some e" for i e
    using noise_baseD(1) [OF assms(1)] assms(2) that by (fastforce simp: base_step_def)
  ultimately show ?thesis using assms by (auto simp: noise_base_def base_step_def peer_ok_def)
qed

lemma base_trans: "base_step d d1 \<Longrightarrow> base_step d1 d2 \<Longrightarrow> base_step d d2"
  unfolding base_step_def by (auto intro: order_trans) (meson less_le_trans, metis)

lemma base_parts:
  "base_step d d"
  "hs_remoteStatic h = hs_remoteStatic (hs d p) \<Longrightarrow> hs_precomputedStaticStatic h = hs_precomputedStaticStatic (hs d p) \<Longrightarrow> base_step d (set_hs p h d)"
  "base_step d (it_Delete i d)" "base_step d (DeleteKeypair x d)"
  "p < nd_nextPeer d \<Longrightarrow> base_step d (d\<lparr>nd_table := AList.update i (HandshakeEntry p) (nd_table d)\<rparr>)"
  "base_step d (d\<lparr>nd_keypairs := kps, nd_nextKeypair := nd_nextKeypair d + 1\<rparr>)" "base_step d (SwapIndexForKeypair i k d)"
  by (auto simp: base_step_def held_def held_keypairs_def delete_conv' update_conv' DeleteKeypair_def SwapIndexForKeypair_def Let_def
      split: option.split index_entry.split if_splits)
     (metis index_peer.simps)+

lemma base_set_peer:
  "hs_remoteStatic (np_handshake np) = hs_remoteStatic (hs d p) \<Longrightarrow>
   hs_precomputedStaticStatic (np_handshake np) = hs_precomputedStaticStatic (hs d p) \<Longrightarrow>
   (\<And>k. k \<in> held_keypairs np \<Longrightarrow> k \<in> held d p \<or> k < nd_nextKeypair d) \<Longrightarrow> base_step d (set_peer p np d)"
  by (auto simp: base_step_def held_def)

lemma base_draw: "p < nd_nextPeer d \<Longrightarrow> base_step d (snd (NewIndexForHandshake p draws d))"
  by (simp add: new_index_device base_parts)

lemma base_creation:
  assumes "p < nd_nextPeer d"
  shows "base_step d (snd (CreateMessageInitiation C random now draws p d))" "base_step d (snd (CreateMessageResponse C random draws p d))"
proof -
  have drawn: "base_step d (snd (NewIndexForHandshake p draws (it_Delete i (set_hs p h d))))"
    "base_step d (set_hs p h' (snd (NewIndexForHandshake p draws (it_Delete i (set_hs p h d)))))"
    if "hs_remoteStatic h = hs_remoteStatic (hs d p)" "hs_precomputedStaticStatic h = hs_precomputedStaticStatic (hs d p)"
      "hs_remoteStatic h' = hs_remoteStatic (hs d p)" "hs_precomputedStaticStatic h' = hs_precomputedStaticStatic (hs d p)" for h h' i
  proof -
    show one: "base_step d (snd (NewIndexForHandshake p draws (it_Delete i (set_hs p h d))))"
      by (rule base_trans [OF base_parts(2) [OF that(1,2)]], rule base_trans [OF base_parts(3)], rule base_draw) (simp add: assms)
    show "base_step d (set_hs p h' (snd (NewIndexForHandshake p draws (it_Delete i (set_hs p h d)))))"
      by (rule base_trans [OF one], rule base_parts(2)) (simp_all add: that new_index_device)
  qed
  have same: "set_hs p (hs d p) d = d" by (simp add: set_hs_def set_peer_def)
  show "base_step d (snd (CreateMessageInitiation C random now draws p d))"
    by (auto simp: CreateMessageInitiation_def Let_def case_prod_unfold intro!: base_parts drawn split: option.split)
  have "hs (snd (NewIndexForHandshake p draws (it_Delete i d))) p = hs d p" for i by (simp add: new_index_device)
  then show "base_step d (snd (CreateMessageResponse C random draws p d))"
    by (auto simp: CreateMessageResponse_def Let_def case_prod_unfold base_parts(1)
      intro!: drawn [where h = "hs d p", unfolded same] split: option.split)
qed

lemma base_rotate: "k < nd_nextKeypair d \<Longrightarrow> base_step d (rotate_keypairs k b p d)"
  unfolding rotate_keypairs_def Let_def
  by (auto intro!: base_trans [OF _ base_parts(4)] base_set_peer split: option.split) (auto simp: held_def held_keypairs_def)

lemma base_session: "base_step d (snd (BeginSymmetricSession C now p d))"
proof (cases "hs_state (hs d p) = handshakeResponseConsumed \<or> hs_state (hs d p) = handshakeResponseCreated")
  case False
  then show ?thesis by (simp add: BeginSymmetricSession_def Let_def case_prod_unfold base_parts(1))
next
  case True
  define k b kp h where "k = nd_nextKeypair d" and "b = (hs_state (hs d p) = handshakeResponseConsumed)"
    and "kp = nd_keypairs (snd (BeginSymmetricSession C now p d)) (nd_nextKeypair d)"
    and "h = (hs d p)\<lparr>hs_chainKey := replicate 32 0, hs_hash := replicate 32 0, hs_localEphemeral := replicate 32 0,
              hs_state := handshakeZeroed, hs_localIndex := 0\<rparr>"
  define d1 where "d1 = d\<lparr>nd_keypairs := (nd_keypairs d)(k := kp), nd_nextKeypair := k + 1\<rparr>"
  define d2 where "d2 = set_hs p h (SwapIndexForKeypair (hs_localIndex (hs d p)) k d1)"
  define d3 where "d3 = rotate_keypairs k b p d2"
  have d': "snd (BeginSymmetricSession C now p d) = set_peer p ((nd_peers d3 p)\<lparr>np_handshakeCount := np_handshakeCount (nd_peers d3 p) + 1\<rparr>) d3"
    using True by (auto simp: BeginSymmetricSession_def Let_def case_prod_unfold kp_def d3_def d2_def d1_def h_def b_def k_def)
  have "base_step d d1" unfolding d1_def k_def by (rule base_parts(6))
  moreover have "base_step d1 d2" unfolding d2_def
    by (rule base_trans [OF base_parts(7) base_parts(2)])
       (auto simp: h_def d1_def SwapIndexForKeypair_def Let_def split: option.split)
  moreover have "k < nd_nextKeypair d2" by (auto simp: d2_def d1_def SwapIndexForKeypair_def Let_def split: option.split)
  then have "base_step d2 d3" unfolding d3_def by (rule base_rotate)
  moreover have "base_step d3 (set_peer p ((nd_peers d3 p)\<lparr>np_handshakeCount := np_handshakeCount (nd_peers d3 p) + 1\<rparr>) d3)"
    by (rule base_set_peer) (auto simp: held_def held_keypairs_def)
  ultimately show ?thesis unfolding d' by (meson base_trans)
qed

lemma base_rest:
  "base_step d (snd (ReceivedWithKeypair k p d))" "base_step d (zero_keypairs p d)" "base_step d (zero_handshake p d)"
  "base_step d (exhaust x d)" "base_step d (initiation_commit m c now d)" "base_step d (snd (response_commit m2 c2 d))"
  subgoal
    unfolding ReceivedWithKeypair_def Let_def
    by (auto intro!: base_parts(1) base_trans [OF _ base_parts(4)] base_set_peer) (auto simp: held_def held_keypairs_def)
  subgoal
    unfolding zero_keypairs_def Let_def
    by (intro base_trans [OF _ base_parts(4)] base_set_peer) (auto simp: held_keypairs_def)
  subgoal unfolding zero_handshake_def by (rule base_trans [OF base_parts(3) base_parts(2)]) (simp_all add: handshake_Clear_def)
  subgoal by (auto simp: exhaust_def base_step_def held_def split: option.split)
  subgoal by (auto simp: initiation_commit_def Let_def case_prod_unfold intro!: base_parts)
  subgoal by (auto simp: response_commit_def case_prod_unfold intro!: base_parts)
  done

lemma NewPeer_base:
  assumes "noise_base C d"
  shows "noise_base C (snd (NewPeer C pk d))"
proof (cases "fst (NewPeer C pk d) = Inr (nd_nextPeer d)")
  case False
  then show ?thesis using assms by (simp add: NewPeer_def Let_def split: if_splits)
next
  case True
  let ?d = "snd (NewPeer C pk d)" and ?n = "nd_nextPeer d"
  have d: "nd_nextPeer ?d = ?n + 1" "nd_table ?d = nd_table d" "nd_nextKeypair ?d = nd_nextKeypair d"
    "\<And>p. p \<noteq> ?n \<Longrightarrow> nd_peers ?d p = nd_peers d p" "nd_keyMap ?d = AList.update pk ?n (nd_keyMap d)" "nd_privateKey ?d = nd_privateKey d"
    "held ?d ?n = {}" "peer_ok C ?d pk ?n"
    using True by (auto simp: NewPeer_def Let_def zeroed_handshake_def zero_peer_def held_def held_keypairs_def peer_ok_def
        sharedSecret_def split: if_splits)
  have "\<forall>k \<in> held ?d p. k < nd_nextKeypair ?d" if "p < nd_nextPeer ?d" for p
    using d noise_baseD(2) [OF assms, of p] that by (cases "p = ?n") (auto simp: held_def)
  moreover have "peer_ok C ?d pk' p" if "(pk', p) \<in> set (nd_keyMap ?d)" for pk' p
  proof -
    have "map_of (nd_keyMap ?d) pk' = Some p"
      using that noise_baseD(3) [OF assms] by (simp add: d(5) distinct_update map_of_is_SomeI)
    then show ?thesis
      using d noise_baseD(4) [OF assms, of pk' p] by (auto simp: update_conv' peer_ok_def split: if_splits dest: map_of_SomeD)
  qed
  ultimately show ?thesis
    using noise_baseD(1,3) [OF assms] by (auto simp: noise_base_def d distinct_update less_SucI)
qed

end
