(* ===== verification/Noise_Properties.thy ===== *)
theory Noise_Properties
  imports Noise_Invariant
begin

text \<open>
  What the handshake promises: both sides of a handshake end with the same keys crossed, and an index is found.
\<close>

section \<open>Agreement\<close>

text \<open>The key pairs of two devices that belong together.\<close>

definition sessions_match :: "noise_device \<Rightarrow> peer_at \<Rightarrow> keypair_at \<Rightarrow> noise_device \<Rightarrow> peer_at \<Rightarrow> keypair_at \<Rightarrow> bool" where
  "sessions_match I p k R q k' \<longleftrightarrow>
     (let a = nd_keypairs I k; b = nd_keypairs R k' in
      kp_send a = kp_receive b \<and> kp_receive a = kp_send b \<and>
      kp_remoteIndex a = kp_localIndex b \<and> kp_remoteIndex b = kp_localIndex a \<and>
      map_of (nd_table I) (kp_localIndex a) = Some (KeypairEntry p k) \<and>
      map_of (nd_table R) (kp_localIndex b) = Some (KeypairEntry q k'))"

lemma held_other_index:
  assumes "noise_inv C d" "p < nd_nextPeer d" "map_of (nd_table d) i = Some (HandshakeEntry p)" "k \<in> held_keypairs (nd_peers d p)"
  shows "k < nd_nextKeypair d \<and> kp_localIndex (nd_keypairs d k) \<noteq> i"
proof
  show "k < nd_nextKeypair d" using noise_invD(3) [OF assms(1,2)] assms(4) by (simp add: held_def)
  note ix = noise_invD(1) [OF assms(1)]
  show "kp_localIndex (nd_keypairs d k) \<noteq> i"
  proof
    assume "kp_localIndex (nd_keypairs d k) = i"
    then have "owns (held d) d i (KeypairEntry p k)" using assms(2,4) by (simp add: held_def)
    from owner_unique [OF ix indexedD(2) [OF ix assms(3)] this indexedD(1) [OF ix assms(3)]] show False by simp
  qed
qed

lemma CreateMessageInitiation_nextPeer: "nd_nextPeer (snd (CreateMessageInitiation C random now draws p d)) = nd_nextPeer d"
  by (simp add: CreateMessageInitiation_def Let_def case_prod_unfold new_index_device split: option.split)

lemma CreateMessageResponse_nextPeer: "nd_nextPeer (snd (CreateMessageResponse C random draws p d)) = nd_nextPeer d"
  by (simp add: CreateMessageResponse_def Let_def case_prod_unfold new_index_device split: option.split)

lemma initiation_commit_simps [simp]:
  "nd_nextPeer (initiation_commit m c t d) = nd_nextPeer d" "nd_table (initiation_commit m c t d) = nd_table d"
  by (simp_all add: initiation_commit_def Let_def case_prod_unfold)

text \<open>
  C3. A handshake between two devices that know each other completes: when the initiation that \<^verbatim>\<open>CreateMessageInitiation\<close>
  made reaches the responder (whatever its MACs), is newer than the last one and not too soon after it, the responder accepts
  it for that peer; the initiator accepts the answer; both begin a session; the initiator sends with the key that the
  responder receives with, and the other way round; each knows the index of the other's key pair, and the indices of both
  lead to these key pairs.
\<close>
theorem handshake_agreement:
  assumes "crypto_ok C" "noise_inv C I" "noise_inv C R" "p < nd_nextPeer I" "q < nd_nextPeer R" "paired C I p R q"
    "proper_draws draws" "proper_draws draws'"
    "CreateMessageInitiation C random now draws p I = (Inr m, I1)"
    "After (stamp now) (hs_lastTimestamp (hs R q))"
    "HandshakeInitationRate < time_Sub t (hs_lastInitiationConsumption (hs R q))"
    "ConsumeMessageInitiation C (m\<lparr>mi_MAC1 := mac1, mi_MAC2 := mac2\<rparr>) t t' R = (r, R1)"
    "CreateMessageResponse C random' draws' q R1 = (Inr m2, R2)"
    "BeginSymmetricSession C t2 q R2 = (e, R3)"
    "ConsumeMessageResponse C (m2\<lparr>mr_MAC1 := mac1', mr_MAC2 := mac2'\<rparr>) I1 = (i, I2)"
    "BeginSymmetricSession C t3 p I2 = (e', I3)"
  shows "r = Some q \<and> i = Some p \<and> e = None \<and> e' = None \<and>
    (\<exists>k k'. np_current (nd_peers I3 p) = Some k \<and> np_next (nd_peers R3 q) = Some k' \<and> sessions_match I3 p k R3 q k')"
proof -
  note first = initiation_accepted [OF assms(1,6,9-11)]
  have R1: "r = Some q" "R1 = initiation_commit (m\<lparr>mi_MAC1 := mac1, mi_MAC2 := mac2\<rparr>) (q, hs_hash (hs I1 p), hs_chainKey (hs I1 p), stamp now) t' R"
    using assms(12) first(2) by (simp_all add: ConsumeMessageInitiation_def)
  note second = response_accepted [OF assms(1,6) first(1) R1(2) assms(13) refl refl refl]
  have I2: "i = Some p" "I2 = set_hs p ((hs I1 p)\<lparr>hs_hash := hs_hash (hs R2 q), hs_chainKey := hs_chainKey (hs R2 q),
      hs_remoteIndex := mr_Sender m2, hs_state := handshakeResponseConsumed\<rparr>) I1"
    using assms(15) second(2) first(1) by (simp_all add: ConsumeMessageResponse_def response_commit_def initiated_def)
  have invI: "noise_inv C I2" "p < nd_nextPeer I2"
    using CreateMessageInitiation_inv [OF assms(2,4,7,9)] CreateMessageInitiation_nextPeer [of C random now draws p I] assms(4,9)
    by (auto simp: I2(2) intro!: set_hs_inv)
  have invR: "noise_inv C R2" "q < nd_nextPeer R2"
    using CreateMessageResponse_inv [OF _ _ assms(8,13)] initiation_commit_inv [OF assms(3)] assms(5)
      CreateMessageResponse_nextPeer [of C random' draws' q R1] assms(13)
    by (auto simp: R1(2))
  have tabR: "map_of (nd_table R2) (hs_localIndex (hs R2 q)) = Some (HandshakeEntry q)"
    "hs_state (hs R2 q) = handshakeResponseCreated" "hs_localIndex (hs R2 q) = mr_Sender m2" "hs_remoteIndex (hs R2 q) = mi_Sender m"
    using second(1) by (simp_all add: responded_def)
  have tabI: "map_of (nd_table I2) (hs_localIndex (hs I2 p)) = Some (HandshakeEntry p)"
    "hs_state (hs I2 p) = handshakeResponseConsumed" "hs_localIndex (hs I2 p) = mi_Sender m" "hs_remoteIndex (hs I2 p) = mr_Sender m2"
    "hs_chainKey (hs I2 p) = hs_chainKey (hs R2 q)"
    using first(1) by (simp_all add: initiated_def I2(2))
  note sR = session_begins [OF _ tabR(1) held_other_index [OF invR tabR(1)] assms(14)]
  note sI = session_begins [OF _ tabI(1) held_other_index [OF invI tabI(1)] assms(16)]
  show ?thesis
    using sR sI tabR tabI R1(1) I2(1) by (simp add: sessions_match_def Let_def)
qed

text \<open>Both messages are made whenever the secrets are valid and the index is free.\<close>

lemma initiation_made:
  assumes "\<not> isZero (cr_ScalarMult C (clamp sk) (hs_remoteStatic (hs d p)))" "\<not> isZero (hs_precomputedStaticStatic (hs d p))"
    "map_of (nd_table d) i = None"
  shows "\<exists>m d'. CreateMessageInitiation C (sk, True) now [(i, True)] p d = (Inr m, d') \<and> mi_Ephemeral m = cr_ScalarBaseMult C (clamp sk)"
  using assms by (simp add: CreateMessageInitiation_def Let_def newPrivateKey_def sharedSecret_def case_prod_unfold delete_conv' key_publicKey_def)

lemma response_made:
  assumes "hs_state (hs d p) = handshakeInitiationConsumed" "\<not> isZero (cr_ScalarMult C (clamp sk) (hs_remoteEphemeral (hs d p)))"
    "\<not> isZero (cr_ScalarMult C (clamp sk) (hs_remoteStatic (hs d p)))" "map_of (nd_table d) i = None"
  shows "\<exists>m d'. CreateMessageResponse C (sk, True) [(i, True)] p d = (Inr m, d')"
  using assms by (simp add: CreateMessageResponse_def Let_def newPrivateKey_def sharedSecret_def case_prod_unfold delete_conv' key_publicKey_def)

definition ex_key :: "byte \<Rightarrow> bytes" where "ex_key b = replicate 31 b @ [64]"

definition ex_side :: "byte \<Rightarrow> byte \<Rightarrow> noise_device" where
  "ex_side a b =
     (let d = snd (NewPeer ex_crypto (key_publicKey ex_crypto (ex_key b))
        (zero_device\<lparr>nd_privateKey := ex_key a, nd_publicKey := key_publicKey ex_crypto (ex_key a)\<rparr>)) in
      set_peer 0 ((nd_peers d 0)\<lparr>np_isRunning := True\<rparr>) d)"

lemma zero_device_inv: "noise_inv C (zero_device\<lparr>nd_privateKey := sk, nd_publicKey := pk\<rparr>)"
proof -
  have "\<not> owns H (zero_device\<lparr>nd_privateKey := sk, nd_publicKey := pk\<rparr>) i e" for H i e by (cases e) (simp_all add: zero_device_def)
  then show ?thesis by (simp add: noise_inv_def indexed_def) (simp add: zero_device_def)
qed

lemma set_running_inv:
  assumes "noise_inv C d"
  shows "noise_inv C (set_peer p ((nd_peers d p)\<lparr>np_isRunning := b\<rparr>) d)" (is "noise_inv C ?d")
proof -
  have h: "held ?d = held d" by (auto simp: held_def held_keypairs_def fun_eq_iff)
  have "indexed (held ?d) ?d" by (rule indexed_cong [OF noise_invD(1) [OF assms]]) (auto simp: h)
  then show ?thesis using assms by (auto simp: noise_inv_def h slots_ok_def peer_ok_def)
qed

lemma ex_side_inv: "noise_inv ex_crypto (ex_side a b)"
  unfolding ex_side_def Let_def by (intro set_running_inv NewPeer_inv zero_device_inv)

lemma ex_keys:
  "clamp (ex_key 8) = ex_key 8" "clamp (ex_key 24) = ex_key 24"
  "\<not> isZero (cr_ScalarMult ex_crypto (ex_key 8) (cr_ScalarBaseMult ex_crypto (ex_key 32)))"
  "\<not> isZero (cr_ScalarMult ex_crypto (ex_key 16) (cr_ScalarBaseMult ex_crypto (ex_key 32)))"
  "\<not> isZero (cr_ScalarMult ex_crypto (ex_key 24) (cr_ScalarBaseMult ex_crypto (ex_key 16)))"
  "\<not> isZero (cr_ScalarMult ex_crypto (ex_key 24) (cr_ScalarBaseMult ex_crypto (ex_key 8)))"
  by code_simp+

lemma ex_side_simps:
  "nd_nextPeer (ex_side a b) = 1" "nd_table (ex_side a b) = []" "nd_privateKey (ex_side a b) = ex_key a"
  "nd_publicKey (ex_side a b) = cr_ScalarBaseMult ex_crypto (ex_key a)"
  "hs_remoteStatic (hs (ex_side a b) 0) = cr_ScalarBaseMult ex_crypto (ex_key b)"
  "hs_precomputedStaticStatic (hs (ex_side a b) 0) = cr_ScalarMult ex_crypto (ex_key a) (cr_ScalarBaseMult ex_crypto (ex_key b))"
  "hs_presharedKey (hs (ex_side a b) 0) = replicate 32 0" "hs_lastTimestamp (hs (ex_side a b) 0) = replicate 12 0"
  "hs_lastInitiationConsumption (hs (ex_side a b) 0) = time_zero" "np_isRunning (nd_peers (ex_side a b) 0)"
  "LookupPeer (cr_ScalarBaseMult ex_crypto (ex_key b)) (ex_side a b) = Some 0"
  by (simp_all add: ex_side_def NewPeer_def zero_device_def isClosed_def MaxPeers_def Let_def zeroed_handshake_def sharedSecret_def
      key_publicKey_def LookupPeer_def zero_peer_def)

theorem handshake_agreement_witness:
  "\<exists>m I1 r R1 m2 R2 e R3 i I2 e' I3 k k'.
     CreateMessageInitiation ex_crypto (ex_key 8, True) 5000000000 [(7, True)] 0 (ex_side 16 32) = (Inr m, I1) \<and>
     ConsumeMessageInitiation ex_crypto (m\<lparr>mi_MAC1 := [], mi_MAC2 := []\<rparr>) 6000000000 6000000001 (ex_side 32 16) = (r, R1) \<and>
     CreateMessageResponse ex_crypto (ex_key 24, True) [(9, True)] 0 R1 = (Inr m2, R2) \<and>
     BeginSymmetricSession ex_crypto 6000000002 0 R2 = (e, R3) \<and>
     ConsumeMessageResponse ex_crypto (m2\<lparr>mr_MAC1 := [], mr_MAC2 := []\<rparr>) I1 = (i, I2) \<and>
     BeginSymmetricSession ex_crypto 6000000003 0 I2 = (e', I3) \<and>
     np_current (nd_peers I3 0) = Some k \<and> np_next (nd_peers R3 0) = Some k' \<and> sessions_match I3 0 k R3 0 k'"
proof -
  let ?C = ex_crypto and ?I = "ex_side 16 32" and ?R = "ex_side 32 16"
  have pair: "paired ?C ?I 0 ?R 0" by (simp add: paired_def ex_side_simps)
  obtain m I1 where m: "CreateMessageInitiation ?C (ex_key 8, True) 5000000000 [(7, True)] 0 ?I = (Inr m, I1)"
    and eph: "mi_Ephemeral m = cr_ScalarBaseMult ?C (ex_key 8)"
    using initiation_made [where C = ?C and d = ?I and p = 0 and sk = "ex_key 8" and i = 7 and now = 5000000000]
    by (auto simp: ex_side_simps ex_keys)
  have fresh: "After (stamp 5000000000) (hs_lastTimestamp (hs ?R 0))"
    "HandshakeInitationRate < time_Sub 6000000000 (hs_lastInitiationConsumption (hs ?R 0))"
    by (simp_all only: ex_side_simps) (code_simp, code_simp)
  note first = initiation_accepted(2) [OF ex_crypto_ok pair m fresh, of "[]" "[]"]
  obtain r R1 where r: "ConsumeMessageInitiation ?C (m\<lparr>mi_MAC1 := [], mi_MAC2 := []\<rparr>) 6000000000 6000000001 ?R = (r, R1)"
    by fastforce
  then have R1: "hs_state (hs R1 0) = handshakeInitiationConsumed" "hs_remoteEphemeral (hs R1 0) = cr_ScalarBaseMult ?C (ex_key 8)"
    "hs_remoteStatic (hs R1 0) = cr_ScalarBaseMult ?C (ex_key 16)" "nd_table R1 = []"
    using first eph by (auto simp: ConsumeMessageInitiation_def initiation_commit_def Let_def ex_side_simps)
  obtain m2 R2 where m2: "CreateMessageResponse ?C (ex_key 24, True) [(9, True)] 0 R1 = (Inr m2, R2)"
    using response_made [where C = ?C and d = R1 and p = 0 and sk = "ex_key 24" and i = 9] R1 by (auto simp: ex_keys)
  obtain e R3 where e: "BeginSymmetricSession ?C 6000000002 0 R2 = (e, R3)" by fastforce
  obtain i I2 where i: "ConsumeMessageResponse ?C (m2\<lparr>mr_MAC1 := [], mr_MAC2 := []\<rparr>) I1 = (i, I2)" by fastforce
  obtain e' I3 where e': "BeginSymmetricSession ?C 6000000003 0 I2 = (e', I3)" by fastforce
  have "r = Some 0 \<and> i = Some 0 \<and> e = None \<and> e' = None \<and>
    (\<exists>k k'. np_current (nd_peers I3 0) = Some k \<and> np_next (nd_peers R3 0) = Some k' \<and> sessions_match I3 0 k R3 0 k')"
    by (rule handshake_agreement [OF ex_crypto_ok ex_side_inv ex_side_inv _ _ pair _ _ m fresh r m2 e i e'])
      (simp_all add: ex_side_simps proper_draws_def)
  with m r m2 e i e' show ?thesis by blast
qed

section \<open>Drawing an index\<close>

text \<open>
  C38. The loop that draws an index ends: among more different values than the table has entries, all read without an error,
  there is one that is free; the index returned is such a value, and it leads to the handshake afterwards.
\<close>
theorem index_draw_terminates:
  assumes "distinct (map fst draws)" "list_all snd draws" "length (nd_table d) < length draws"
  shows "\<exists>i d'. NewIndexForHandshake p draws d = ((i, None), d') \<and> i \<in> fst ` set draws \<and> map_of (nd_table d) i = None \<and>
    map_of (nd_table d') i = Some (HandshakeEntry p)"
proof -
  let ?n = "NewIndexForHandshake p draws d"
  have all: "snd (fst ?n) = None \<or> (\<forall>i \<in> fst ` set draws. map_of (nd_table d) i \<noteq> None)"
    using assms(2) by (induction p draws d rule: NewIndexForHandshake.induct) auto
  have "\<exists>i \<in> fst ` set draws. map_of (nd_table d) i = None"
  proof (rule ccontr)
    assume "\<not> ?thesis"
    then have "fst ` set draws \<subseteq> fst ` set (nd_table d)" by (auto simp: map_of_eq_None_iff)
    then have "card (set (map fst draws)) \<le> card (fst ` set (nd_table d))" by (simp add: card_mono)
    also have "\<dots> \<le> length (nd_table d)" by (metis card_length length_map set_map)
    finally show False using assms(1,3) by (simp add: distinct_card [OF assms(1)] del: set_map)
  qed
  with all have ok: "snd (fst ?n) = None" by auto
  then have "?n = ((fst (fst ?n), None), snd ?n)" by (metis prod.collapse)
  moreover have "fst (fst ?n) \<in> fst ` set draws" using new_index_member [OF ok] by force
  moreover have "map_of (nd_table (snd ?n)) (fst (fst ?n)) = Some (HandshakeEntry p)"
    using ok by (simp add: new_index_device update_conv')
  ultimately show ?thesis using new_index_free [OF ok] by blast
qed

theorem index_draw_terminates_witness:
  "\<exists>i d'. NewIndexForHandshake 0 [(7, True), (9, True)] (zero_device\<lparr>nd_table := [(7, HandshakeEntry 1)]\<rparr>) = ((i, None), d') \<and>
     i \<in> {7, 9} \<and> map_of (nd_table d') i = Some (HandshakeEntry 0)"
  using index_draw_terminates [of "[(7, True), (9, True)]" "zero_device\<lparr>nd_table := [(7, HandshakeEntry 1)]\<rparr>" 0] by auto

end
