(* ===== verification/Wg_Control.thy ===== *)
theory Wg_Control
  imports Noise_Handshake
begin

text \<open>
  The envelopes of control payloads (\<^verbatim>\<open>tun_control_transport.go\<close>, \<^verbatim>\<open>p2p_control_transport.go\<close>), which tell the
  payload from the padding, and the padding of \<^verbatim>\<open>send.go\<close>. Both envelopes are the same but for their magic. An
  error is \<open>None\<close>: the callers log it and drop the payload.
\<close>

section \<open>Padding\<close>

definition PaddingMultiple :: int where "PaddingMultiple = 16"

definition calculatePaddingSize :: "int \<Rightarrow> int \<Rightarrow> int" where
  "calculatePaddingSize packetSize mtu =
     (if mtu = 0 then ((packetSize + PaddingMultiple - 1) AND NOT (PaddingMultiple - 1)) - packetSize
      else
        let lastUnit = (if mtu < packetSize then packetSize mod mtu else packetSize);
            paddedSize = (lastUnit + PaddingMultiple - 1) AND NOT (PaddingMultiple - 1) in
        (if mtu < paddedSize then mtu else paddedSize) - lastUnit)"

lemma round_down: "(x :: int) AND - 16 = x - x mod 16"
proof -
  have "x AND NOT (mask 4) = push_bit 4 (drop_bit 4 x)"
    by (rule bit_eqI) (auto simp: bit_and_iff bit_not_iff bit_mask_iff bit_push_bit_iff bit_drop_bit_eq)
  then show ?thesis by (simp add: mask_eq_exp_minus_1 push_bit_eq_mult drop_bit_eq_div minus_mod_eq_div_mult)
qed

text \<open>The padding fits the 16 zero bytes that the encryption routine takes it from.\<close>

lemma padding_bounds:
  assumes "0 \<le> n" "0 \<le> mtu"
  shows "0 \<le> calculatePaddingSize n mtu" "calculatePaddingSize n mtu < 16"
proof -
  have up: "0 \<le> ((15 + x) AND - 16) - x" "((15 + x) AND - 16) - x < 16" for x :: int
    unfolding round_down by presburger+
  have last: "mtu \<noteq> 0 \<Longrightarrow> n mod mtu \<le> mtu" using assms(2) by (simp add: less_imp_le)
  show "0 \<le> calculatePaddingSize n mtu" "calculatePaddingSize n mtu < 16"
    using assms up [of n] up [of "n mod mtu"] last
    by (auto simp: calculatePaddingSize_def PaddingMultiple_def Let_def add.commute)
qed

section \<open>Envelopes\<close>

definition maxControlPayload :: nat where "maxControlPayload = 1200"
definition controlHeaderSize :: nat where "controlHeaderSize = 6"

definition frame_control :: "bytes \<Rightarrow> bytes \<Rightarrow> bytes option" where
  "frame_control magic payload =
     (if maxControlPayload < length payload then None
      else Some (magic @ put_le 2 (of_nat (length payload) :: u16) @ payload))"

definition consume_control :: "bytes \<Rightarrow> bytes \<Rightarrow> bytes option" where
  "consume_control magic plaintext =
     (if length plaintext < controlHeaderSize then None
      else if take 4 plaintext \<noteq> magic then None
      else
        let len = unat (get_le (slice 4 controlHeaderSize plaintext) :: u16) in
        if maxControlPayload < len \<or> length plaintext - controlHeaderSize < len then None
        else
          let fin = controlHeaderSize + len in
          if PaddingMultiple \<le> int (length plaintext - fin) then None
          else if \<not> list_all (\<lambda>b. b = 0) (drop fin plaintext) then None
          else Some (slice controlHeaderSize fin plaintext))"

definition tunControlMagic :: bytes where "tunControlMagic = ascii ''WTC'' @ [1]"
definition p2pControlMagic :: bytes where "p2pControlMagic = ascii ''WPC'' @ [1]"

definition frameTUNControlPayload :: "bytes \<Rightarrow> bytes option" where
  "frameTUNControlPayload = frame_control tunControlMagic"

definition consumeTUNControlPayload :: "bytes \<Rightarrow> bytes option" where
  "consumeTUNControlPayload = consume_control tunControlMagic"

definition frameP2PControlPayload :: "bytes \<Rightarrow> bytes option" where
  "frameP2PControlPayload = frame_control p2pControlMagic"

definition consumeP2PControlPayload :: "bytes \<Rightarrow> bytes option" where
  "consumeP2PControlPayload = consume_control p2pControlMagic"

text \<open>
  What the tunnel relies on: the envelope survives the padding of the encryption routine, and no payload of one kind
  passes for one of the other.
\<close>

locale control_envelope =
  fixes frame consume :: "bytes \<Rightarrow> bytes option" and magic :: bytes
  assumes framed: "frame payload = Some b \<Longrightarrow> n < 16 \<Longrightarrow> consume (b @ replicate n 0) = Some payload"
    and marked: "consume b = Some payload \<Longrightarrow> take 4 b = magic"
begin

lemma padded_payload:
  assumes "frame payload = Some b" "0 \<le> mtu"
  shows "consume (b @ replicate (nat (calculatePaddingSize (int (length b)) mtu)) 0) = Some payload"
  using padding_bounds [of "int (length b)" mtu] assms by (intro framed) auto

lemma foreign_rejected: "take 4 b \<noteq> magic \<Longrightarrow> consume b = None"
  using marked [of b] by (cases "consume b") auto

end

lemma frame_consume:
  assumes "length magic = 4" "frame_control magic payload = Some b" "n < 16"
  shows "consume_control magic (b @ replicate n 0) = Some payload"
proof -
  have len: "length payload \<le> 1200" and b: "b = magic @ put_le 2 (of_nat (length payload) :: u16) @ payload"
    using assms(2) by (auto simp: frame_control_def maxControlPayload_def split: if_splits)
  have "slice 4 6 (b @ replicate n 0) = put_le 2 (of_nat (length payload) :: u16)"
    using assms(1) by (simp add: b slice_def)
  moreover have "unat (get_le (put_le 2 (of_nat (length payload) :: u16)) :: u16) = length payload"
    using len by (simp add: get_le_put_le unat_of_nat)
  ultimately show ?thesis
    using assms(1,3) len
    by (simp add: consume_control_def b Let_def controlHeaderSize_def maxControlPayload_def PaddingMultiple_def slice_def list_all_iff)
qed

lemma consume_marked: "consume_control magic b = Some payload \<Longrightarrow> take 4 b = magic"
  by (auto simp: consume_control_def split: if_splits)

interpretation tun_envelope: control_envelope frameTUNControlPayload consumeTUNControlPayload tunControlMagic
  by unfold_locales
    (auto simp: frameTUNControlPayload_def consumeTUNControlPayload_def tunControlMagic_def ascii_simps intro: frame_consume consume_marked)

interpretation p2p_envelope: control_envelope frameP2PControlPayload consumeP2PControlPayload p2pControlMagic
  by unfold_locales
    (auto simp: frameP2PControlPayload_def consumeP2PControlPayload_def p2pControlMagic_def ascii_simps intro: frame_consume consume_marked)

end
