(* ===== verification/Wg_Timers.thy ===== *)
theory Wg_Timers
  imports Wg_Control
begin

text \<open>
  The timers of a peer (\<^verbatim>\<open>timers.go\<close>), its endpoint and the datagrams it sends (\<^verbatim>\<open>peer.go\<close>), and the handshake
  messages of \<^verbatim>\<open>send.go\<close>. A step reads the clock once, and what it reads from the outside comes in an
  environment: the random bytes, the indices drawn, the jitter, and whether the socket takes the datagrams. The jitter is the
  value of \<^verbatim>\<open>fastrandn\<close>. The cached source address of an endpoint is not modelled, only the mark that clears it.
\<close>

section \<open>The environment\<close>

record wg_env =
  ev_now :: time
  ev_random :: "bytes \<times> bool"
  ev_draws :: "(u32 \<times> bool) list"
  ev_jitter :: nat
  ev_secret :: "bytes \<times> bool"
  ev_nonce :: "bytes \<times> bool"
  ev_sent :: "bytes list \<Rightarrow> endpoint \<Rightarrow> bool"

definition millisecond :: duration where "millisecond = 1000000"
definition RekeyAfterMessages :: u64 where "RekeyAfterMessages = 2 ^ 60"
definition RekeyAfterTime :: duration where "RekeyAfterTime = 120 * second"
definition RekeyAttemptTime :: duration where "RekeyAttemptTime = 3600 * second * 24 * 365 * 10"
definition MaxTimerHandshakes :: int where "MaxTimerHandshakes = RekeyAttemptTime div RekeyTimeout"
definition RejectAfterTime :: duration where "RejectAfterTime = 300 * second"
definition KeepaliveTimeout :: duration where "KeepaliveTimeout = 10 * second"

section \<open>Timers\<close>

definition tm_Mod :: "time \<Rightarrow> duration \<Rightarrow> timer \<Rightarrow> timer" where
  "tm_Mod now dur t = t\<lparr>tm_isPending := True, tm_at := now + dur\<rparr>"

definition tm_Del :: "timer \<Rightarrow> timer" where
  "tm_Del t = t\<lparr>tm_isPending := False\<rparr>"

definition on_peer :: "(noise_peer \<Rightarrow> noise_peer) \<Rightarrow> peer_at \<Rightarrow> noise_device \<Rightarrow> noise_device" where
  "on_peer f p d = set_peer p (f (nd_peers d p)) d"

definition on_timers :: "(peer_timers \<Rightarrow> peer_timers) \<Rightarrow> peer_at \<Rightarrow> noise_device \<Rightarrow> noise_device" where
  "on_timers f = on_peer (np_timers_update f)"

abbreviation timers_of :: "noise_device \<Rightarrow> peer_at \<Rightarrow> peer_timers" where "timers_of d p \<equiv> np_timers (nd_peers d p)"

definition timersActive :: "peer_at \<Rightarrow> noise_device \<Rightarrow> bool" where
  "timersActive p d \<longleftrightarrow> np_isRunning (nd_peers d p) \<and> isUp d"

definition timersDataSent :: "wg_env \<Rightarrow> peer_at \<Rightarrow> noise_device \<Rightarrow> noise_device" where
  "timersDataSent E p d =
     (if timersActive p d \<and> \<not> tm_isPending (pt_newHandshake (timers_of d p))
      then on_timers (pt_newHandshake_update (tm_Mod (ev_now E) (KeepaliveTimeout + RekeyTimeout + millisecond * int (ev_jitter E)))) p d
      else d)"

definition timersDataReceived :: "wg_env \<Rightarrow> peer_at \<Rightarrow> noise_device \<Rightarrow> noise_device" where
  "timersDataReceived E p d =
     (if timersActive p d then
        if \<not> tm_isPending (pt_sendKeepalive (timers_of d p))
        then on_timers (pt_sendKeepalive_update (tm_Mod (ev_now E) KeepaliveTimeout)) p d
        else on_timers (pt_needAnotherKeepalive_update (\<lambda>_. True)) p d
      else d)"

definition timersAnyAuthenticatedPacketSent :: "peer_at \<Rightarrow> noise_device \<Rightarrow> noise_device" where
  "timersAnyAuthenticatedPacketSent p d =
     (if timersActive p d then on_timers (pt_sendKeepalive_update tm_Del) p d else d)"

definition timersAnyAuthenticatedPacketReceived :: "peer_at \<Rightarrow> noise_device \<Rightarrow> noise_device" where
  "timersAnyAuthenticatedPacketReceived p d =
     (if timersActive p d then on_timers (pt_newHandshake_update tm_Del) p d else d)"

definition timersHandshakeInitiated :: "wg_env \<Rightarrow> peer_at \<Rightarrow> noise_device \<Rightarrow> noise_device" where
  "timersHandshakeInitiated E p d =
     (if timersActive p d
      then on_timers (pt_retransmitHandshake_update (tm_Mod (ev_now E) (RekeyTimeout + millisecond * int (ev_jitter E)))) p d else d)"

definition timersHandshakeComplete :: "wg_env \<Rightarrow> peer_at \<Rightarrow> noise_device \<Rightarrow> noise_device" where
  "timersHandshakeComplete E p d =
     (let d1 = (if timersActive p d then on_timers (pt_retransmitHandshake_update tm_Del) p d else d);
          d2 = on_timers (\<lambda>t. t\<lparr>pt_handshakeAttempts := 0, pt_sentLastMinuteHandshake := False\<rparr>) p d1 in
      on_peer (np_lastHandshakeNano_update (\<lambda>_. ev_now E)) p d2)"

definition timersSessionDerived :: "wg_env \<Rightarrow> peer_at \<Rightarrow> noise_device \<Rightarrow> noise_device" where
  "timersSessionDerived E p d =
     (if timersActive p d then on_timers (pt_zeroKeyMaterial_update (tm_Mod (ev_now E) (RejectAfterTime * 3))) p d else d)"

definition timersAnyAuthenticatedPacketTraversal :: "wg_env \<Rightarrow> peer_at \<Rightarrow> noise_device \<Rightarrow> noise_device" where
  "timersAnyAuthenticatedPacketTraversal E p d =
     (let keepalive = np_persistentKeepaliveInterval (nd_peers d p) in
      if 0 < keepalive \<and> timersActive p d
      then on_timers (pt_persistentKeepalive_update (tm_Mod (ev_now E) (uint keepalive * second))) p d else d)"

definition timersStart :: "peer_at \<Rightarrow> noise_device \<Rightarrow> noise_device" where
  "timersStart =
     on_timers (\<lambda>t. t\<lparr>pt_handshakeAttempts := 0, pt_sentLastMinuteHandshake := False, pt_needAnotherKeepalive := False\<rparr>)"

definition timersStop :: "peer_at \<Rightarrow> noise_device \<Rightarrow> noise_device" where
  "timersStop =
     on_timers (pt_retransmitHandshake_update tm_Del \<circ> pt_sendKeepalive_update tm_Del \<circ> pt_newHandshake_update tm_Del \<circ>
       pt_zeroKeyMaterial_update tm_Del \<circ> pt_persistentKeepalive_update tm_Del)"

section \<open>The endpoint\<close>

definition SetEndpointFromPacket :: "endpoint \<Rightarrow> peer_at \<Rightarrow> noise_device \<Rightarrow> noise_device" where
  "SetEndpointFromPacket ep p d =
     (if np_disableRoaming (nd_peers d p) then d
      else on_peer (\<lambda>np. np\<lparr>np_clearSrcOnTx := False, np_endpoint := Some ep\<rparr>) p d)"

definition EnableRoaming :: "peer_at \<Rightarrow> noise_device \<Rightarrow> noise_device" where
  "EnableRoaming = on_peer (\<lambda>np. np\<lparr>np_disableRoaming := False\<rparr>)"

definition markEndpointSrcForClearing :: "peer_at \<Rightarrow> noise_device \<Rightarrow> noise_device" where
  "markEndpointSrcForClearing p d =
     (if np_endpoint (nd_peers d p) = None then d else on_peer (\<lambda>np. np\<lparr>np_clearSrcOnTx := True\<rparr>) p d)"

definition put_output :: "wg_output list \<Rightarrow> noise_device \<Rightarrow> noise_device" where
  "put_output os d = d\<lparr>nd_outputs := nd_outputs d @ os\<rparr>"

text \<open>Whether the buffers were sent without an error.\<close>

definition SendBuffers :: "wg_env \<Rightarrow> bytes list \<Rightarrow> peer_at \<Rightarrow> noise_device \<Rightarrow> bool \<times> noise_device" where
  "SendBuffers E buffers p d =
     (if isClosed d then (True, d)
      else case np_endpoint (nd_peers d p) of None \<Rightarrow> (False, d)
      | Some ep \<Rightarrow>
        let d1 = on_peer (\<lambda>np. np\<lparr>np_clearSrcOnTx := False\<rparr>) p d in
        if ev_sent E buffers ep
        then (True, put_output (map (OutDatagram ep) buffers)
          (on_peer (np_txBytes_update (\<lambda>n. n + of_nat (sum_list (map length buffers)))) p d1))
        else (False, d1))"

section \<open>Handshake messages\<close>

definition add_macs :: "crypto \<Rightarrow> wg_env \<Rightarrow> bytes \<Rightarrow> peer_at \<Rightarrow> noise_device \<Rightarrow> bytes \<times> noise_device" where
  "add_macs C E packet p d =
     (let (msg, g) = AddMacs C packet (ev_now E) (np_cookieGenerator (nd_peers d p)) in
      (msg, on_peer (np_cookieGenerator_update (\<lambda>_. g)) p d))"

definition SendHandshakeInitiation :: "crypto \<Rightarrow> wg_env \<Rightarrow> bool \<Rightarrow> peer_at \<Rightarrow> noise_device \<Rightarrow> noise_device" where
  "SendHandshakeInitiation C E isRetry p d =
     (let d1 = (if isRetry then d else on_timers (pt_handshakeAttempts_update (\<lambda>_. 0)) p d) in
      if time_Sub (ev_now E) (hs_lastSentHandshake (hs d1 p)) < RekeyTimeout then d1
      else
        let d2 = set_hs p ((hs d1 p)\<lparr>hs_lastSentHandshake := ev_now E\<rparr>) d1 in
        case CreateMessageInitiation C (ev_random E) (ev_now E) (ev_draws E) p d2 of
          (Inl _, d3) \<Rightarrow> d3
        | (Inr msg, d3) \<Rightarrow>
          let (packet, d4) = add_macs C E (initiation_bytes msg) p d3;
              d5 = timersAnyAuthenticatedPacketSent p (timersAnyAuthenticatedPacketTraversal E p d4);
              (_, d6) = SendBuffers E [packet] p d5 in
          timersHandshakeInitiated E p d6)"

definition SendHandshakeResponse :: "crypto \<Rightarrow> wg_env \<Rightarrow> peer_at \<Rightarrow> noise_device \<Rightarrow> noise_device" where
  "SendHandshakeResponse C E p d =
     (let d1 = set_hs p ((hs d p)\<lparr>hs_lastSentHandshake := ev_now E\<rparr>) d in
      case CreateMessageResponse C (ev_random E) (ev_draws E) p d1 of
        (Inl _, d2) \<Rightarrow> d2
      | (Inr response, d2) \<Rightarrow>
        let (packet, d3) = add_macs C E (response_bytes response) p d2 in
        case BeginSymmetricSession C (ev_now E) p d3 of
          (Some _, d4) \<Rightarrow> d4
        | (None, d4) \<Rightarrow>
          let d5 = timersAnyAuthenticatedPacketSent p (timersAnyAuthenticatedPacketTraversal E p (timersSessionDerived E p d4)) in
          snd (SendBuffers E [packet] p d5))"

definition SendHandshakeCookie :: "crypto \<Rightarrow> wg_env \<Rightarrow> bytes \<Rightarrow> endpoint \<Rightarrow> noise_device \<Rightarrow> noise_device" where
  "SendHandshakeCookie C E packet ep d =
     (let sender = get_le (slice 4 8 packet);
          (reply, ck) = CreateReply C packet sender (ep_DstToBytes ep) (ev_now E) (ev_secret E) (ev_now E) (ev_nonce E) (nd_cookieChecker d);
          d1 = d\<lparr>nd_cookieChecker := ck\<rparr> in
      case reply of None \<Rightarrow> d1
      | Some msg \<Rightarrow> if ev_sent E [cookie_bytes msg] ep then put_output [OutDatagram ep (cookie_bytes msg)] d1 else d1)"

definition keepKeyFreshSending :: "crypto \<Rightarrow> wg_env \<Rightarrow> peer_at \<Rightarrow> noise_device \<Rightarrow> noise_device" where
  "keepKeyFreshSending C E p d =
     (case np_current (nd_peers d p) of None \<Rightarrow> d
      | Some k \<Rightarrow>
        let kp = nd_keypairs d k in
        if RekeyAfterMessages < kp_sendNonce kp \<or> kp_isInitiator kp \<and> RekeyAfterTime < time_Sub (ev_now E) (kp_created kp)
        then SendHandshakeInitiation C E False p d else d)"

definition keepKeyFreshReceiving :: "crypto \<Rightarrow> wg_env \<Rightarrow> peer_at \<Rightarrow> noise_device \<Rightarrow> noise_device" where
  "keepKeyFreshReceiving C E p d =
     (if pt_sentLastMinuteHandshake (timers_of d p) then d
      else case np_current (nd_peers d p) of None \<Rightarrow> d
      | Some k \<Rightarrow>
        let kp = nd_keypairs d k in
        if kp_isInitiator kp \<and> RejectAfterTime - KeepaliveTimeout - RekeyTimeout < time_Sub (ev_now E) (kp_created kp)
        then SendHandshakeInitiation C E False p (on_timers (pt_sentLastMinuteHandshake_update (\<lambda>_. True)) p d) else d)"

end
