(* ===== verification/Wg_Send.thy ===== *)
theory Wg_Send
  imports Wg_Timers
begin

text \<open>
  The way of a packet out of the device (\<^verbatim>\<open>send.go\<close>, \<^verbatim>\<open>inject.go\<close>, the expirations of \<^verbatim>\<open>timers.go\<close>): it is staged, gets
  a nonce of the current key pair, is padded and encrypted, and leaves in order. A container is the list of its packets; that a
  container is locked until the encryption worker is done keeps the order, so that the sequential sender encrypts what it takes from
  the queue. A call of \<^verbatim>\<open>SendStagedPackets\<close> is one step. Pools of buffers and the call of \<^verbatim>\<open>ObserveDestination\<close> for a packet read from the interface (a step of
  the P2P client) are not part of these definitions, and the queue
  to the sender has no bound (a full one blocks).
\<close>

section \<open>Staging\<close>

definition QueueStagedSize :: nat where "QueueStagedSize = 512"

abbreviation staged_of :: "noise_device \<Rightarrow> peer_at \<Rightarrow> staged_packet list list" where "staged_of d p \<equiv> np_staged (nd_peers d p)"

definition set_staged :: "staged_packet list list \<Rightarrow> peer_at \<Rightarrow> noise_device \<Rightarrow> noise_device" where
  "set_staged q = on_peer (np_staged_update (\<lambda>_. q))"

definition staged_full :: "peer_at \<Rightarrow> noise_device \<Rightarrow> bool" where
  "staged_full p d \<longleftrightarrow> QueueStagedSize \<le> length (staged_of d p)"

definition put_staged :: "staged_packet list \<Rightarrow> peer_at \<Rightarrow> noise_device \<Rightarrow> noise_device" where
  "put_staged c p d = set_staged (staged_of d p @ [c]) p d"

text \<open>The oldest container makes room for the new one.\<close>

definition StagePackets :: "staged_packet list \<Rightarrow> peer_at \<Rightarrow> noise_device \<Rightarrow> noise_device" where
  "StagePackets c p d = (if staged_full p d then put_staged c p (set_staged (tl (staged_of d p)) p d) else put_staged c p d)"

section \<open>Nonces\<close>

text \<open>
  The packets of a container that get a nonce, the packets that get none because the key pair is used up, and the
  counter afterwards.
\<close>

fun take_nonces :: "keypair_at \<Rightarrow> u64 \<Rightarrow> staged_packet list \<Rightarrow> outbound_packet list \<times> staged_packet list \<times> u64" where
  "take_nonces k n [] = ([], [], n)"
| "take_nonces k n ((ty, pkt) # elems) =
     (let nonce = (n + 1) - 1 in
      if RejectAfterMessages \<le> nonce then
        let (kept, ooo, n') = take_nonces k RejectAfterMessages elems in (kept, (ty, pkt) # ooo, n')
      else
        let (kept, ooo, n') = take_nonces k (n + 1) elems in
        (\<lparr>ob_packet = pkt, ob_nonce = nonce, ob_keypair = k, ob_msgType = ty\<rparr> # kept, ooo, n'))"

definition set_nonce :: "keypair_at \<Rightarrow> u64 \<Rightarrow> noise_device \<Rightarrow> noise_device" where
  "set_nonce k n d = d\<lparr>nd_keypairs := (nd_keypairs d)(k := (nd_keypairs d k)\<lparr>kp_sendNonce := n\<rparr>)\<rparr>"

definition put_outbound :: "outbound_packet list \<Rightarrow> peer_at \<Rightarrow> noise_device \<Rightarrow> noise_device" where
  "put_outbound c p d =
     (if np_isRunning (nd_peers d p) then on_peer (np_outbound_update (\<lambda>q. q @ [c])) p d else d)"

text \<open>The checks at the top of \<^verbatim>\<open>SendStagedPackets\<close>.\<close>

datatype readiness = NothingToSend | NeedsHandshake | Ready keypair_at

definition staged_readiness :: "wg_env \<Rightarrow> peer_at \<Rightarrow> noise_device \<Rightarrow> readiness" where
  "staged_readiness E p d =
     (if staged_of d p = [] \<or> \<not> isUp d then NothingToSend
      else case np_current (nd_peers d p) of None \<Rightarrow> NeedsHandshake
      | Some k \<Rightarrow>
        let kp = nd_keypairs d k in
        if RejectAfterMessages \<le> kp_sendNonce kp \<or> RejectAfterTime \<le> time_Sub (ev_now E) (kp_created kp) then NeedsHandshake
        else Ready k)"

text \<open>The packets of the first container that were sent, those staged again, and the device.\<close>

definition send_container :: "keypair_at \<Rightarrow> staged_packet list \<Rightarrow> peer_at \<Rightarrow> noise_device \<Rightarrow>
    outbound_packet list \<times> staged_packet list \<times> noise_device" where
  "send_container k c p d =
     (let (kept, ooo, n) = take_nonces k (kp_sendNonce (nd_keypairs d k)) c;
          d1 = set_nonce k n (set_staged (tl (staged_of d p)) p d);
          d2 = (if ooo = [] then d1 else StagePackets ooo p d1) in
      (kept, ooo, if kept = [] then d2 else put_outbound kept p d2))"

lemma take_nonces_exhausted: "fst (snd (take_nonces k n c)) \<noteq> [] \<Longrightarrow> snd (snd (take_nonces k n c)) = RejectAfterMessages"
proof (induction k n c rule: take_nonces.induct)
  case (2 k n ty pkt elems)
  have stay: "snd (snd (take_nonces k RejectAfterMessages es)) = RejectAfterMessages" for es
    by (induction es) (auto simp: Let_def case_prod_unfold)
  show ?case
  proof (cases "RejectAfterMessages \<le> n")
    case True
    then show ?thesis by (simp add: Let_def case_prod_unfold stay)
  next
    case False
    then show ?thesis using 2 by (simp add: Let_def case_prod_unfold)
  qed
qed simp

lemma set_staged_simps [simp]:
  "staged_of (set_staged q p d) r = (if r = p then q else staged_of d r)" "nd_keypairs (set_staged q p d) = nd_keypairs d"
  "np_current (nd_peers (set_staged q p d) r) = np_current (nd_peers d r)" "isUp (set_staged q p d) = isUp d"
  "nd_keypairs (StagePackets c p d) = nd_keypairs d" "np_current (nd_peers (StagePackets c p d) r) = np_current (nd_peers d r)"
  "isUp (StagePackets c p d) = isUp d"
  by (simp_all add: set_staged_def on_peer_def StagePackets_def put_staged_def isUp_def set_peer_def)

lemma set_nonce_simps [simp]:
  "nd_peers (set_nonce k n d) = nd_peers d" "kp_sendNonce (nd_keypairs (set_nonce k n d) k) = n" "isUp (set_nonce k n d) = isUp d"
  by (simp_all add: set_nonce_def isUp_def)

lemma put_outbound_simps [simp]:
  "staged_of (put_outbound c p d) r = staged_of d r" "nd_keypairs (put_outbound c p d) = nd_keypairs d"
  "np_current (nd_peers (put_outbound c p d) r) = np_current (nd_peers d r)" "isUp (put_outbound c p d) = isUp d"
  by (simp_all add: put_outbound_def on_peer_def isUp_def set_peer_def)

text \<open>
  The loop; its key pair is the current one throughout the step. Each round takes a container; when packets are left without a nonce the checks send it to the handshake, so
  that the queue is shorter whenever the loop goes on.
\<close>

function send_loop :: "crypto \<Rightarrow> wg_env \<Rightarrow> keypair_at \<Rightarrow> peer_at \<Rightarrow> noise_device \<Rightarrow> noise_device" where
  "send_loop C E k p d =
     (if np_current (nd_peers d p) \<noteq> Some k then d
      else case staged_of d p of [] \<Rightarrow> d
      | c # _ \<Rightarrow>
        let (kept, ooo, d1) = send_container k c p d in
        if kept = [] \<or> ooo \<noteq> [] then
          (case staged_readiness E p d1 of
             NothingToSend \<Rightarrow> d1
           | NeedsHandshake \<Rightarrow> SendHandshakeInitiation C E False p d1
           | Ready k' \<Rightarrow> send_loop C E k' p d1)
        else send_loop C E k p d1)"
  by pat_completeness auto

lemma send_container_shorter:
  assumes "send_container k (hd (staged_of d p)) p d = (kept, ooo, d1)" "staged_of d p \<noteq> []" "ooo = []"
  shows "length (staged_of d1 p) < length (staged_of d p)"
  using assms by (auto simp: send_container_def Let_def case_prod_unfold split: if_splits)

lemma send_container_exhausted:
  assumes "send_container k c p d = (kept, ooo, d1)" "ooo \<noteq> []" "np_current (nd_peers d p) = Some k"
  shows "\<forall>k'. staged_readiness E p d1 \<noteq> Ready k'"
proof -
  have "kp_sendNonce (nd_keypairs d1 k) = RejectAfterMessages" "np_current (nd_peers d1 p) = Some k"
    using assms take_nonces_exhausted [of k "kp_sendNonce (nd_keypairs d k)" c]
    by (auto simp: send_container_def Let_def case_prod_unfold split: if_splits)
  then show ?thesis by (auto simp: staged_readiness_def Let_def split: option.split if_splits)
qed

termination send_loop
proof (relation "measure (\<lambda>(C, E, k, p, d). length (staged_of d p))", goal_cases)
  case (2 C E k p d c cs x kept y ooo d1 k')
  then have "ooo = []" using send_container_exhausted [of k c p d kept ooo d1 E] by fastforce
  then show ?case using 2 send_container_shorter [of k d p kept ooo d1] by simp
next
  case (3 C E k p d c cs x kept y ooo d1)
  then show ?case using send_container_shorter [of k d p kept ooo d1] by simp
qed simp

declare send_loop.simps [simp del]

definition SendStagedPackets :: "crypto \<Rightarrow> wg_env \<Rightarrow> peer_at \<Rightarrow> noise_device \<Rightarrow> noise_device" where
  "SendStagedPackets C E p d =
     (case staged_readiness E p d of
        NothingToSend \<Rightarrow> d
      | NeedsHandshake \<Rightarrow> SendHandshakeInitiation C E False p d
      | Ready k \<Rightarrow> send_loop C E k p d)"

section \<open>What is sent\<close>

definition SendTUNControl :: "crypto \<Rightarrow> wg_env \<Rightarrow> bytes \<Rightarrow> peer_at \<Rightarrow> noise_device \<Rightarrow> noise_device" where
  "SendTUNControl C E data p d =
     (if \<not> np_isRunning (nd_peers d p) then d
      else case frameTUNControlPayload data of None \<Rightarrow> d
      | Some framed \<Rightarrow>
        if staged_full p d then d else SendStagedPackets C E p (put_staged [(MessageTUNControlType, framed)] p d))"

definition SendP2PControl :: "crypto \<Rightarrow> wg_env \<Rightarrow> bytes \<Rightarrow> peer_at \<Rightarrow> noise_device \<Rightarrow> noise_device" where
  "SendP2PControl C E data p d =
     (if \<not> np_isRunning (nd_peers d p) then d
      else case frameP2PControlPayload data of None \<Rightarrow> d
      | Some framed \<Rightarrow>
        if staged_full p d then d else SendStagedPackets C E p (put_staged [(MessageP2PControlType, framed)] p d))"

text \<open>
  A message is staged frame by frame. The send blocks on a full queue; then the frames that are left wait for room, and
  \<open>send_frames\<close> goes on with them.
\<close>

datatype wusp_sent = WUSPSent | WUSPNotRunning | WUSPNotFragmented usp_error | WUSPTooLarge | WUSPBlocked "bytes list"

fun send_frames :: "crypto \<Rightarrow> wg_env \<Rightarrow> bytes list \<Rightarrow> peer_at \<Rightarrow> noise_device \<Rightarrow> wusp_sent \<times> noise_device" where
  "send_frames C E [] p d = (WUSPSent, SendStagedPackets C E p d)"
| "send_frames C E (frame # frames) p d =
     (if WUSPMaxDatagramPayload < int (length frame) then (WUSPTooLarge, d)
      else if staged_full p d then (WUSPBlocked (frame # frames), d)
      else send_frames C E frames p (put_staged [(MessageWUSPType, frame)] p d))"

definition SendWUSPFragmented :: "crypto \<Rightarrow> wg_env \<Rightarrow> bytes \<Rightarrow> int \<Rightarrow> peer_at \<Rightarrow> noise_device \<Rightarrow> wusp_sent \<times> noise_device" where
  "SendWUSPFragmented C E data maxDatagramPayload p d =
     (if \<not> np_isRunning (nd_peers d p) then (WUSPNotRunning, d)
      else
        let (mid, fs) = nextWUSPFragmentMessageID (nd_fragments d); d1 = d\<lparr>nd_fragments := fs\<rparr> in
        case FragmentUSPControlPayload data mid maxDatagramPayload of
          Inl e \<Rightarrow> (WUSPNotFragmented e, d1)
        | Inr frames \<Rightarrow> send_frames C E frames p d1)"

definition SendWUSP :: "crypto \<Rightarrow> wg_env \<Rightarrow> bytes \<Rightarrow> peer_at \<Rightarrow> noise_device \<Rightarrow> wusp_sent \<times> noise_device" where
  "SendWUSP C E data p d = SendWUSPFragmented C E data WUSPMaxDatagramPayload p d"

definition SendWUSPDatagram :: "crypto \<Rightarrow> wg_env \<Rightarrow> bytes \<Rightarrow> peer_at \<Rightarrow> noise_device \<Rightarrow> wusp_sent \<times> noise_device" where
  "SendWUSPDatagram C E data p d =
     (if \<not> np_isRunning (nd_peers d p) then (WUSPNotRunning, d) else send_frames C E [data] p d)"

text \<open>A keepalive is an empty packet.\<close>

definition SendKeepalive :: "crypto \<Rightarrow> wg_env \<Rightarrow> peer_at \<Rightarrow> noise_device \<Rightarrow> noise_device" where
  "SendKeepalive C E p d =
     SendStagedPackets C E p
       (if staged_of d p = [] \<and> np_isRunning (nd_peers d p) \<and> \<not> staged_full p d then put_staged [(0, [])] p d else d)"

section \<open>Packets of the tunnel interface\<close>

definition ipv4_HeaderLen :: nat where "ipv4_HeaderLen = 20"
definition ipv6_HeaderLen :: nat where "ipv6_HeaderLen = 40"

definition found_peer :: "ip_answer \<Rightarrow> peer_at option" where
  "found_peer a = (case a of Found p \<Rightarrow> p | _ \<Rightarrow> None)"

text \<open>The peer that a packet read from the interface goes to.\<close>

definition packet_peer :: "bytes \<Rightarrow> noise_device \<Rightarrow> peer_at option" where
  "packet_peer packet d =
     (if packet = [] then None
      else
        let version = drop_bit 4 (hd packet) in
        if version = 4 then
          (if length packet < ipv4_HeaderLen then None else found_peer (AllowedIPs_Lookup (slice 16 20 packet) (nd_allowedips d)))
        else if version = 6 then
          (if length packet < ipv6_HeaderLen then None else found_peer (AllowedIPs_Lookup (slice 24 40 packet) (nd_allowedips d)))
        else None)"

text \<open>The packets of one read, by peer; every peer stages its packets in one container.\<close>

definition group_by :: "('a \<Rightarrow> peer_at option) \<Rightarrow> 'a list \<Rightarrow> (peer_at \<times> 'a list) list" where
  "group_by key xs = map (\<lambda>p. (p, filter (\<lambda>x. key x = Some p) xs)) (remdups (List.map_filter key xs))"

definition stage_and_send :: "crypto \<Rightarrow> wg_env \<Rightarrow> peer_at \<times> bytes list \<Rightarrow> noise_device \<Rightarrow> noise_device" where
  "stage_and_send C E e d =
     (case e of (p, packets) \<Rightarrow>
        if np_isRunning (nd_peers d p) then SendStagedPackets C E p (StagePackets (map (Pair 0) packets) p d) else d)"

definition RoutineReadFromTUN :: "crypto \<Rightarrow> wg_env \<Rightarrow> bytes list \<Rightarrow> noise_device \<Rightarrow> noise_device" where
  "RoutineReadFromTUN C E packets d =
     fold (stage_and_send C E) (group_by (\<lambda>packet. packet_peer packet d) packets) d"

definition MaxContentSize :: nat where "MaxContentSize = 2 ^ 16 - 1 - 32"

text \<open>Whether the packet was queued. The recovery from a queue that a closing device has closed is not modelled.\<close>

definition InjectOutbound :: "crypto \<Rightarrow> wg_env \<Rightarrow> bytes \<Rightarrow> noise_device \<Rightarrow> bool \<times> noise_device" where
  "InjectOutbound C E packet d =
     (if packet = [] \<or> MaxContentSize < length packet then (False, d)
      else
        let version = drop_bit 4 (hd packet);
            dst = (if version = 4 then (if length packet < 20 then None else Some (slice 16 20 packet))
                   else if version = 6 then (if length packet < 40 then None else Some (slice 24 40 packet))
                   else None) in
        case dst of None \<Rightarrow> (False, d)
        | Some ip \<Rightarrow>
          (case found_peer (AllowedIPs_Lookup ip (nd_allowedips d)) of None \<Rightarrow> (False, d)
           | Some p \<Rightarrow>
             if \<not> np_isRunning (nd_peers d p) then (False, d)
             else (True, SendStagedPackets C E p (StagePackets [(0, packet)] p d))))"

section \<open>Encryption and transmission\<close>

definition MessageTransportSize :: nat where "MessageTransportSize = 32"
definition MessageKeepaliveSize :: nat where "MessageKeepaliveSize = MessageTransportSize"

definition transport_nonce :: "u64 \<Rightarrow> bytes" where
  "transport_nonce n = replicate 4 0 @ put_le 8 n"

definition encrypt_packet :: "crypto \<Rightarrow> int \<Rightarrow> keypair \<Rightarrow> outbound_packet \<Rightarrow> bytes" where
  "encrypt_packet C mtu kp e =
     (let msgType = (if ob_msgType e \<noteq> 0 then ob_msgType e else MessageTransportType);
          header = put_le 4 msgType @ put_le 4 (kp_remoteIndex kp) @ put_le 8 (ob_nonce e);
          paddingSize = calculatePaddingSize (int (length (ob_packet e))) mtu in
      header @ cr_Seal C (kp_send kp) (transport_nonce (ob_nonce e)) (ob_packet e @ replicate (nat paddingSize) 0) [])"

definition RoutineSequentialSender :: "crypto \<Rightarrow> wg_env \<Rightarrow> peer_at \<Rightarrow> noise_device \<Rightarrow> noise_device" where
  "RoutineSequentialSender C E p d =
     (case np_outbound (nd_peers d p) of [] \<Rightarrow> d
      | c # rest \<Rightarrow>
        let d1 = on_peer (np_outbound_update (\<lambda>_. rest)) p d in
        if \<not> np_isRunning (nd_peers d p) then d1
        else
          let bufs = map (\<lambda>e. encrypt_packet C (nd_mtu d) (nd_keypairs d (ob_keypair e)) e) c;
              dataSent = list_ex (\<lambda>b. length b \<noteq> MessageKeepaliveSize) bufs;
              d2 = timersAnyAuthenticatedPacketSent p (timersAnyAuthenticatedPacketTraversal E p d1);
              (ok, d3) = SendBuffers E bufs p d2;
              d4 = (if dataSent then timersDataSent E p d3 else d3) in
          if ok then keepKeyFreshSending C E p d4 else d4)"

section \<open>Expired timers\<close>

definition expiredRetransmitHandshake :: "crypto \<Rightarrow> wg_env \<Rightarrow> peer_at \<Rightarrow> noise_device \<Rightarrow> noise_device" where
  "expiredRetransmitHandshake C E p d =
     (if MaxTimerHandshakes < uint (pt_handshakeAttempts (timers_of d p)) then
        let d1 = (if timersActive p d then on_timers (pt_sendKeepalive_update tm_Del) p d else d);
            d2 = FlushStagedPackets p d1 in
        if timersActive p d2 \<and> \<not> tm_isPending (pt_zeroKeyMaterial (timers_of d2 p))
        then on_timers (pt_zeroKeyMaterial_update (tm_Mod (ev_now E) (RejectAfterTime * 3))) p d2 else d2
      else
        SendHandshakeInitiation C E True p
          (markEndpointSrcForClearing p (on_timers (pt_handshakeAttempts_update (\<lambda>n. n + 1)) p d)))"

definition expiredSendKeepalive :: "crypto \<Rightarrow> wg_env \<Rightarrow> peer_at \<Rightarrow> noise_device \<Rightarrow> noise_device" where
  "expiredSendKeepalive C E p d =
     (let d1 = SendKeepalive C E p d in
      if pt_needAnotherKeepalive (timers_of d1 p) then
        let d2 = on_timers (pt_needAnotherKeepalive_update (\<lambda>_. False)) p d1 in
        if timersActive p d2 then on_timers (pt_sendKeepalive_update (tm_Mod (ev_now E) KeepaliveTimeout)) p d2 else d2
      else d1)"

definition expiredNewHandshake :: "crypto \<Rightarrow> wg_env \<Rightarrow> peer_at \<Rightarrow> noise_device \<Rightarrow> noise_device" where
  "expiredNewHandshake C E p d = SendHandshakeInitiation C E False p (markEndpointSrcForClearing p d)"

definition expiredZeroKeyMaterial :: "peer_at \<Rightarrow> noise_device \<Rightarrow> noise_device" where
  "expiredZeroKeyMaterial p d = ZeroAndFlushAll p d"

definition expiredPersistentKeepalive :: "crypto \<Rightarrow> wg_env \<Rightarrow> peer_at \<Rightarrow> noise_device \<Rightarrow> noise_device" where
  "expiredPersistentKeepalive C E p d =
     (if 0 < np_persistentKeepaliveInterval (nd_peers d p) then SendKeepalive C E p d else d)"

text \<open>A timer fires when it is pending, its time has come, and \<^verbatim>\<open>NewTimer\<close> clears the flag before the expiration.\<close>

datatype timer_name = RetransmitHandshake | SendKeepaliveTimer | NewHandshake | ZeroKeyMaterial | PersistentKeepalive

definition the_timer :: "timer_name \<Rightarrow> peer_timers \<Rightarrow> timer" where
  "the_timer n t = (case n of RetransmitHandshake \<Rightarrow> pt_retransmitHandshake t | SendKeepaliveTimer \<Rightarrow> pt_sendKeepalive t
     | NewHandshake \<Rightarrow> pt_newHandshake t | ZeroKeyMaterial \<Rightarrow> pt_zeroKeyMaterial t | PersistentKeepalive \<Rightarrow> pt_persistentKeepalive t)"

definition fire_timer :: "crypto \<Rightarrow> wg_env \<Rightarrow> timer_name \<Rightarrow> peer_at \<Rightarrow> noise_device \<Rightarrow> noise_device" where
  "fire_timer C E n p d =
     (let t = the_timer n (timers_of d p) in
      if \<not> tm_isPending t \<or> ev_now E < tm_at t then d
      else case n of
        RetransmitHandshake \<Rightarrow> expiredRetransmitHandshake C E p (on_timers (pt_retransmitHandshake_update tm_Del) p d)
      | SendKeepaliveTimer \<Rightarrow> expiredSendKeepalive C E p (on_timers (pt_sendKeepalive_update tm_Del) p d)
      | NewHandshake \<Rightarrow> expiredNewHandshake C E p (on_timers (pt_newHandshake_update tm_Del) p d)
      | ZeroKeyMaterial \<Rightarrow> expiredZeroKeyMaterial p (on_timers (pt_zeroKeyMaterial_update tm_Del) p d)
      | PersistentKeepalive \<Rightarrow> expiredPersistentKeepalive C E p (on_timers (pt_persistentKeepalive_update tm_Del) p d))"

end
