(* ===== verification/Wg_Receive.thy ===== *)
theory Wg_Receive
  imports Wg_Send
begin

text \<open>
  The way of a datagram into the device (\<^verbatim>\<open>receive.go\<close>): it is classified, waits for the handshake worker or for the
  receiver of its peer, is decrypted and checked against the replay filter, and reaches the interface or a handler. The
  decryption of a container is part of the step that takes it, as its lock orders them. The write to the tunnel interface and
  the calls of the handlers are outputs. Log messages, and the recovery from panics of handlers, are not modelled.
\<close>

section \<open>Datagrams\<close>

definition QueueHandshakeSize :: nat where "QueueHandshakeSize = 1024"

datatype received_as = Ignored | AsTransport peer_at inbound_packet | AsHandshake u32 | AsPunch udp_addr bytes

definition transport_peer :: "index_entry option \<Rightarrow> (peer_at \<times> keypair_at) option" where
  "transport_peer e = (case e of Some (KeypairEntry p k) \<Rightarrow> Some (p, k) | _ \<Rightarrow> None)"

definition is_transport :: "u32 \<Rightarrow> bool" where
  "is_transport ty \<longleftrightarrow> ty = MessageTransportType \<or> ty = MessageTUNControlType \<or> ty = MessageWUSPType \<or> ty = MessageP2PControlType"

definition classify :: "wg_env \<Rightarrow> bytes \<times> endpoint \<Rightarrow> noise_device \<Rightarrow> received_as" where
  "classify E m d =
     (case m of (packet, ep) \<Rightarrow>
        if length packet < MessageKeepaliveSize then Ignored
        else
          let msgType = get_le (take 4 packet) in
          if is_transport msgType then
            (case transport_peer (map_of (nd_table d) (get_le (slice 4 8 packet))) of None \<Rightarrow> Ignored
             | Some (p, k) \<Rightarrow>
               if kp_created (nd_keypairs d k) + RejectAfterTime < ev_now E then Ignored
               else AsTransport p \<lparr>ib_packet = packet, ib_keypair = k, ib_endpoint = ep, ib_msgType = msgType\<rparr>)
          else if msgType = MessageInitiationType then
            (if length packet \<noteq> MessageInitiationSize then Ignored else AsHandshake msgType)
          else if msgType = MessageResponseType then
            (if length packet \<noteq> MessageResponseSize then Ignored else AsHandshake msgType)
          else if msgType = MessageCookieReplyType then
            (if length packet \<noteq> MessageCookieReplySize then Ignored else AsHandshake msgType)
          else if msgType = MessagePunchType then
            (if length packet = 45 \<and> packet ! 4 = P2PSubtypePunchPacket then
               (case (ep_udp ep, nd_isCoordinator d) of (Some addr, Some _) \<Rightarrow> AsPunch addr (drop 4 packet) | _ \<Rightarrow> Ignored)
             else if length packet \<noteq> MessagePunchSize then Ignored else AsHandshake msgType)
          else Ignored)"

definition queue_handshake :: "u32 \<Rightarrow> bytes \<times> endpoint \<Rightarrow> noise_device \<Rightarrow> noise_device" where
  "queue_handshake ty m d =
     (if length (nd_handshakeQueue d) < QueueHandshakeSize then d\<lparr>nd_handshakeQueue := nd_handshakeQueue d @ [(ty, m)]\<rparr> else d)"

definition receive_other :: "wg_env \<Rightarrow> bytes \<times> endpoint \<Rightarrow> noise_device \<Rightarrow> noise_device" where
  "receive_other E m d =
     (case classify E m d of
        AsHandshake ty \<Rightarrow> queue_handshake ty m d
      | AsPunch addr data \<Rightarrow> put_output [OutPunch data addr] d
      | _ \<Rightarrow> d)"

definition put_inbound :: "peer_at \<times> inbound_packet list \<Rightarrow> noise_device \<Rightarrow> noise_device" where
  "put_inbound e d =
     (case e of (p, c) \<Rightarrow> if np_isRunning (nd_peers d p) then on_peer (np_inbound_update (\<lambda>q. q @ [c])) p d else d)"

text \<open>The datagrams of one read: the transport packets of a peer go to its receiver in one container.\<close>

definition RoutineReceiveIncoming :: "wg_env \<Rightarrow> (bytes \<times> endpoint) list \<Rightarrow> noise_device \<Rightarrow> noise_device" where
  "RoutineReceiveIncoming E ms d =
     (let transports = List.map_filter (\<lambda>m. case classify E m d of AsTransport p e \<Rightarrow> Some (p, e) | _ \<Rightarrow> None) ms;
          containers = map (\<lambda>(p, es). (p, map snd es)) (group_by (\<lambda>e. Some (fst e)) transports) in
      fold put_inbound containers (fold (receive_other E) ms d))"

section \<open>Handshake messages\<close>

definition UnderLoadAfterTime :: duration where "UnderLoadAfterTime = second"

definition IsUnderLoad :: "wg_env \<Rightarrow> noise_device \<Rightarrow> bool \<times> noise_device" where
  "IsUnderLoad E d =
     (if QueueHandshakeSize div 8 \<le> length (nd_handshakeQueue d)
      then (True, d\<lparr>nd_underLoadUntil := ev_now E + UnderLoadAfterTime\<rparr>)
      else (ev_now E < nd_underLoadUntil d, d))"

definition indexed_peer :: "index_entry \<Rightarrow> peer_at" where
  "indexed_peer e = (case e of HandshakeEntry p \<Rightarrow> p | KeypairEntry p _ \<Rightarrow> p)"

definition handle_cookie :: "crypto \<Rightarrow> wg_env \<Rightarrow> bytes \<Rightarrow> noise_device \<Rightarrow> noise_device" where
  "handle_cookie C E packet d =
     (case cookie_unmarshal packet of None \<Rightarrow> d
      | Some reply \<Rightarrow>
        (case map_of (nd_table d) (mc_Receiver reply) of None \<Rightarrow> d
         | Some e \<Rightarrow>
           let p = indexed_peer e in
           if np_isRunning (nd_peers d p)
           then on_peer (np_cookieGenerator_update (\<lambda>g. snd (ConsumeReply C reply (ev_now E) g))) p d else d))"

text \<open>Whether a handshake message passes the MACs and, under load, the cookie and the rate limiter.\<close>

definition admit_handshake :: "crypto \<Rightarrow> wg_env \<Rightarrow> bytes \<Rightarrow> endpoint \<Rightarrow> noise_device \<Rightarrow> bool \<times> noise_device" where
  "admit_handshake C E packet ep d =
     (if \<not> CheckMAC1 C packet (nd_cookieChecker d) then (False, d)
      else
        let (underLoad, d1) = IsUnderLoad E d in
        if \<not> underLoad then (True, d1)
        else if \<not> CheckMAC2 C packet (ep_DstToBytes ep) (ev_now E) (nd_cookieChecker d1) then (False, SendHandshakeCookie C E packet ep d1)
        else let (ok, l) = rl_Allow (ep_DstIP ep) (ev_now E) (nd_limiter d1) in (ok, d1\<lparr>nd_limiter := l\<rparr>))"

definition add_rx :: "u64 \<Rightarrow> peer_at \<Rightarrow> noise_device \<Rightarrow> noise_device" where
  "add_rx n = on_peer (np_rxBytes_update (\<lambda>x. x + n))"

definition handle_initiation :: "crypto \<Rightarrow> wg_env \<Rightarrow> bytes \<Rightarrow> endpoint \<Rightarrow> noise_device \<Rightarrow> noise_device" where
  "handle_initiation C E packet ep d =
     (case initiation_unmarshal packet of None \<Rightarrow> d
      | Some msg \<Rightarrow>
        (case ConsumeMessageInitiation C msg (ev_now E) (ev_now E) d of
           (None, d1) \<Rightarrow> d1
         | (Some p, d1) \<Rightarrow>
           SendHandshakeResponse C E p (add_rx (of_nat (length packet)) p (SetEndpointFromPacket ep p
             (timersAnyAuthenticatedPacketReceived p (timersAnyAuthenticatedPacketTraversal E p d1))))))"

definition handle_response :: "crypto \<Rightarrow> wg_env \<Rightarrow> bytes \<Rightarrow> endpoint \<Rightarrow> noise_device \<Rightarrow> noise_device" where
  "handle_response C E packet ep d =
     (case response_unmarshal packet of None \<Rightarrow> d
      | Some msg \<Rightarrow>
        (case ConsumeMessageResponse C msg d of
           (None, d1) \<Rightarrow> d1
         | (Some p, d1) \<Rightarrow>
           let d2 = timersAnyAuthenticatedPacketReceived p (timersAnyAuthenticatedPacketTraversal E p
                      (add_rx (of_nat (length packet)) p (SetEndpointFromPacket ep p d1))) in
           case BeginSymmetricSession C (ev_now E) p d2 of
             (Some _, d3) \<Rightarrow> d3
           | (None, d3) \<Rightarrow> SendKeepalive C E p (timersHandshakeComplete E p (timersSessionDerived E p d3))))"

text \<open>
  The worker takes the first message. The punch message falls into the default branch of the first switch, before the
  branch that would handle it.
\<close>

definition RoutineHandshake :: "crypto \<Rightarrow> wg_env \<Rightarrow> noise_device \<Rightarrow> noise_device" where
  "RoutineHandshake C E d =
     (case nd_handshakeQueue d of [] \<Rightarrow> d
      | (ty, packet, ep) # rest \<Rightarrow>
        let d1 = d\<lparr>nd_handshakeQueue := rest\<rparr> in
        if ty = MessageCookieReplyType then handle_cookie C E packet d1
        else if ty = MessageInitiationType \<or> ty = MessageResponseType then
          let (ok, d2) = admit_handshake C E packet ep d1 in
          if \<not> ok then d2
          else if ty = MessageInitiationType then handle_initiation C E packet ep d2
          else handle_response C E packet ep d2
        else d1)"

section \<open>Transport packets\<close>

text \<open>The counter, and the plaintext if the packet is authentic.\<close>

definition decrypt_packet :: "crypto \<Rightarrow> keypair \<Rightarrow> bytes \<Rightarrow> u64 \<times> bytes option" where
  "decrypt_packet C kp packet =
     (let counter = get_le (slice 8 16 packet) in
      (counter, cr_Open C (kp_receive kp) (transport_nonce counter) (drop 16 packet) []))"

text \<open>
  The packet that goes to the interface: cut to the length in its header, from an address that the peer may use. The
  length of an IPv6 packet is a sum of 16 bits.
\<close>

definition accept_ip_packet :: "bytes \<Rightarrow> peer_at \<Rightarrow> noise_device \<Rightarrow> bytes option" where
  "accept_ip_packet packet p d =
     (let version = drop_bit 4 (hd packet) in
      if version = 4 then
        if length packet < ipv4_HeaderLen then None
        else
          let len = unat (get_be (slice 2 4 packet) :: u16) in
          if length packet < len \<or> len < ipv4_HeaderLen then None
          else if found_peer (AllowedIPs_Lookup (slice 12 16 packet) (nd_allowedips d)) \<noteq> Some p then None
          else Some (take len packet)
      else if version = 6 then
        if length packet < ipv6_HeaderLen then None
        else
          let len = unat ((get_be (slice 4 6 packet) :: u16) + of_nat ipv6_HeaderLen) in
          if length packet < len then None
          else if found_peer (AllowedIPs_Lookup (slice 8 24 packet) (nd_allowedips d)) \<noteq> Some p then None
          else Some (take len packet)
      else None)"

text \<open>What the handlers get.\<close>

definition deliver_p2p :: "bytes \<Rightarrow> peer_at \<Rightarrow> noise_device \<Rightarrow> noise_device" where
  "deliver_p2p packet p d =
     (case consumeP2PControlPayload packet of None \<Rightarrow> d
      | Some payload \<Rightarrow>
        (case (DecodeP2PMessage payload, nd_isCoordinator d) of
           (Some msg, Some coordinator) \<Rightarrow> if coordinator p then put_output [OutP2PMessage p msg] d else d
         | _ \<Rightarrow> d))"

definition deliver_tun_control :: "bytes \<Rightarrow> peer_at \<Rightarrow> noise_device \<Rightarrow> noise_device" where
  "deliver_tun_control packet p d =
     (case consumeTUNControlPayload packet of None \<Rightarrow> d
      | Some payload \<Rightarrow> if nd_hasTUNControlHandler d then put_output [OutTUNControl p payload] d else d)"

definition deliver_wusp :: "wg_env \<Rightarrow> bytes \<Rightarrow> peer_at \<Rightarrow> noise_device \<Rightarrow> noise_device" where
  "deliver_wusp E packet p d =
     (case consumeWUSPPayload p packet (ev_now E) (nd_fragments d) of (r, fs) \<Rightarrow>
        let d1 = d\<lparr>nd_fragments := fs\<rparr> in
        case r of ConsumeMessage payload \<Rightarrow> if nd_hasWUSPHandler d1 then put_output [OutWUSP p payload] d1 else d1
        | _ \<Rightarrow> d1)"

text \<open>What a container has brought so far: the endpoint of the last valid packet, whether data came, bytes, packets for the interface.\<close>

record received_so_far =
  rs_tail :: "endpoint option"
  rs_data :: bool
  rs_bytes :: u64
  rs_bufs :: "bytes list"

definition set_filter :: "keypair_at \<Rightarrow> replay_filter \<Rightarrow> noise_device \<Rightarrow> noise_device" where
  "set_filter k f d = d\<lparr>nd_keypairs := (nd_keypairs d)(k := (nd_keypairs d k)\<lparr>kp_replayFilter := f\<rparr>)\<rparr>"

definition key_confirmed :: "crypto \<Rightarrow> wg_env \<Rightarrow> keypair_at \<Rightarrow> endpoint \<Rightarrow> peer_at \<Rightarrow> noise_device \<Rightarrow> noise_device" where
  "key_confirmed C E k ep p d =
     (case ReceivedWithKeypair k p d of (received, d1) \<Rightarrow>
        if received then SendStagedPackets C E p (timersHandshakeComplete E p (SetEndpointFromPacket ep p d1)) else d1)"

definition receive_packet :: "crypto \<Rightarrow> wg_env \<Rightarrow> peer_at \<Rightarrow> inbound_packet \<Rightarrow> received_so_far \<times> noise_device \<Rightarrow> received_so_far \<times> noise_device"
where
  "receive_packet C E p e = (\<lambda>(r, d).
     let k = ib_keypair e in
     case decrypt_packet C (nd_keypairs d k) (ib_packet e) of
       (_, None) \<Rightarrow> (r, d)
     | (counter, Some packet) \<Rightarrow>
       (case ValidateCounter counter RejectAfterMessages (kp_replayFilter (nd_keypairs d k)) of (valid, f) \<Rightarrow>
          let d1 = set_filter k f d in
          if \<not> valid then (r, d1)
          else
            let d2 = key_confirmed C E k (ib_endpoint e) p d1;
                r1 = r\<lparr>rs_tail := Some (ib_endpoint e), rs_bytes := rs_bytes r + of_nat (length packet + MessageKeepaliveSize)\<rparr> in
            if ib_msgType e = MessageP2PControlType then (r1, deliver_p2p packet p d2)
            else if ib_msgType e = MessageTUNControlType then (r1, deliver_tun_control packet p d2)
            else if ib_msgType e = MessageWUSPType then (r1, deliver_wusp E packet p d2)
            else if packet = [] then (r1, d2)
            else case accept_ip_packet packet p d2 of
              None \<Rightarrow> (r1\<lparr>rs_data := True\<rparr>, d2)
            | Some buf \<Rightarrow> (r1\<lparr>rs_data := True, rs_bufs := rs_bufs r1 @ [buf]\<rparr>, d2)))"

definition RoutineSequentialReceiver :: "crypto \<Rightarrow> wg_env \<Rightarrow> peer_at \<Rightarrow> noise_device \<Rightarrow> noise_device" where
  "RoutineSequentialReceiver C E p d =
     (case np_inbound (nd_peers d p) of [] \<Rightarrow> d
      | c # rest \<Rightarrow>
        let d1 = on_peer (np_inbound_update (\<lambda>_. rest)) p d;
            (r, d2) = fold (receive_packet C E p) c (\<lparr>rs_tail = None, rs_data = False, rs_bytes = 0, rs_bufs = []\<rparr>, d1);
            d3 = add_rx (rs_bytes r) p d2;
            d4 = (case rs_tail r of None \<Rightarrow> d3
              | Some ep \<Rightarrow>
                timersAnyAuthenticatedPacketReceived p (timersAnyAuthenticatedPacketTraversal E p
                  (keepKeyFreshReceiving C E p (SetEndpointFromPacket ep p d3))));
            d5 = (if rs_data r then timersDataReceived E p d4 else d4) in
        put_output (map OutTUN (rs_bufs r)) d5)"

end
