(* ===== verification/Wg_Lifecycle.thy ===== *)
theory Wg_Lifecycle
  imports Wg_Receive
begin

text \<open>
  Peers start and stop, the device goes up and down and closes, and its key changes (\<^verbatim>\<open>peer.go\<close>, \<^verbatim>\<open>device.go\<close>,
  \<^verbatim>\<open>tun.go\<close>). The loops over the peers follow the order of the key map, where Go's order is arbitrary; a visit
  touches its own peer only. Of the socket the model has whether each call succeeds and the port it opens.
\<close>

section \<open>Peers\<close>

definition Start :: "wg_env \<Rightarrow> peer_at \<Rightarrow> noise_device \<Rightarrow> noise_device" where
  "Start E p d =
     (if isClosed d \<or> np_isRunning (nd_peers d p) then d
      else
        let d1 = timersStart p (set_hs p ((hs d p)\<lparr>hs_lastSentHandshake := ev_now E - (RekeyTimeout + second)\<rparr>) d) in
        on_peer (\<lambda>np. np\<lparr>np_inbound := [], np_outbound := [], np_isRunning := True\<rparr>) p d1)"

text \<open>
  The routines of the peer finish with what is in their queues: the receiver handles it, the sender drops it.
\<close>

fun drain_inbound :: "crypto \<Rightarrow> wg_env \<Rightarrow> nat \<Rightarrow> peer_at \<Rightarrow> noise_device \<Rightarrow> noise_device" where
  "drain_inbound C E 0 p d = d"
| "drain_inbound C E (Suc n) p d = drain_inbound C E n p (RoutineSequentialReceiver C E p d)"

definition Stop :: "crypto \<Rightarrow> wg_env \<Rightarrow> peer_at \<Rightarrow> noise_device \<Rightarrow> noise_device" where
  "Stop C E p d =
     (if \<not> np_isRunning (nd_peers d p) then d
      else
        let d1 = timersStop p (on_peer (\<lambda>np. np\<lparr>np_isRunning := False\<rparr>) p d);
            d2 = drain_inbound C E (length (np_inbound (nd_peers d1 p))) p d1;
            d3 = on_peer (\<lambda>np. np\<lparr>np_outbound := []\<rparr>) p d2 in
        ZeroAndFlushAll p d3)"

definition removePeerLocked :: "crypto \<Rightarrow> wg_env \<Rightarrow> peer_at \<Rightarrow> bytes \<Rightarrow> noise_device \<Rightarrow> noise_device" where
  "removePeerLocked C E p key d =
     (let d1 = Stop C E p (d\<lparr>nd_allowedips := AllowedIPs_RemoveByPeer p (nd_allowedips d)\<rparr>) in
      d1\<lparr>nd_keyMap := AList.delete key (nd_keyMap d1)\<rparr>)"

definition dev_RemovePeer :: "crypto \<Rightarrow> wg_env \<Rightarrow> bytes \<Rightarrow> noise_device \<Rightarrow> noise_device" where
  "dev_RemovePeer C E key d = (case map_of (nd_keyMap d) key of None \<Rightarrow> d | Some p \<Rightarrow> removePeerLocked C E p key d)"

definition RemoveAllPeers :: "crypto \<Rightarrow> wg_env \<Rightarrow> noise_device \<Rightarrow> noise_device" where
  "RemoveAllPeers C E d =
     (fold (\<lambda>(key, p). removePeerLocked C E p key) (nd_keyMap d) d)\<lparr>nd_keyMap := []\<rparr>"

definition on_peers :: "(peer_at \<Rightarrow> noise_device \<Rightarrow> noise_device) \<Rightarrow> noise_device \<Rightarrow> noise_device" where
  "on_peers f d = fold (\<lambda>(key, p). f p) (nd_keyMap d) d"

section \<open>The device\<close>

record bind_env =
  be_closed :: bool
  be_opened :: bool
  be_port :: u16
  be_listening :: bool
  be_marked :: bool

definition BindUpdate :: "bind_env \<Rightarrow> noise_device \<Rightarrow> bool \<times> noise_device" where
  "BindUpdate B d =
     (if \<not> be_closed B then (False, d)
      else if \<not> isUp d then (True, d)
      else if \<not> be_opened B \<or> \<not> be_listening B then (False, d\<lparr>nd_port := 0\<rparr>)
      else
        let d1 = d\<lparr>nd_port := be_port B\<rparr> in
        if nd_fwmark d1 \<noteq> 0 \<and> \<not> be_marked B then (False, d1) else (True, on_peers markEndpointSrcForClearing d1))"

definition BindSetMark :: "bind_env \<Rightarrow> u32 \<Rightarrow> noise_device \<Rightarrow> bool \<times> noise_device" where
  "BindSetMark B mark d =
     (if nd_fwmark d = mark then (True, d)
      else
        let d1 = d\<lparr>nd_fwmark := mark\<rparr> in
        if isUp d1 \<and> \<not> be_marked B then (False, d1) else (True, on_peers markEndpointSrcForClearing d1))"

definition DisableSomeRoamingForBrokenMobileSemantics :: "noise_device \<Rightarrow> noise_device" where
  "DisableSomeRoamingForBrokenMobileSemantics d =
     on_peers (\<lambda>p d. on_peer (\<lambda>np. np\<lparr>np_disableRoaming := np_endpoint np \<noteq> None\<rparr>) p d) (d\<lparr>nd_brokenRoaming := True\<rparr>)"

definition upLocked :: "crypto \<Rightarrow> wg_env \<Rightarrow> bind_env \<Rightarrow> noise_device \<Rightarrow> bool \<times> noise_device" where
  "upLocked C E B d =
     (case BindUpdate B d of (ok, d1) \<Rightarrow>
        if \<not> ok then (False, d1)
        else (True, on_peers (\<lambda>p d. let d2 = Start E p d in
          if 0 < np_persistentKeepaliveInterval (nd_peers d2 p) then SendKeepalive C E p d2 else d2) d1))"

definition downLocked :: "crypto \<Rightarrow> wg_env \<Rightarrow> bind_env \<Rightarrow> noise_device \<Rightarrow> bool \<times> noise_device" where
  "downLocked C E B d = (be_closed B, on_peers (Stop C E) d)"

definition changeState :: "crypto \<Rightarrow> wg_env \<Rightarrow> bind_env \<Rightarrow> bind_env \<Rightarrow> deviceState \<Rightarrow> noise_device \<Rightarrow> bool \<times> noise_device" where
  "changeState C E B B' want d =
     (if nd_state d = deviceStateClosed then (True, d)
      else if want = nd_state d then (True, d)
      else case want of
        deviceStateUp \<Rightarrow>
          (case upLocked C E B (d\<lparr>nd_state := deviceStateUp\<rparr>) of (ok, d1) \<Rightarrow>
             if ok then (True, d1) else (False, snd (downLocked C E B' (d1\<lparr>nd_state := deviceStateDown\<rparr>))))
      | deviceStateDown \<Rightarrow> downLocked C E B (d\<lparr>nd_state := deviceStateDown\<rparr>)
      | deviceStateClosed \<Rightarrow> (True, d))"

definition dev_Close :: "crypto \<Rightarrow> wg_env \<Rightarrow> bind_env \<Rightarrow> noise_device \<Rightarrow> noise_device" where
  "dev_Close C E B d =
     (if isClosed d then d
      else RemoveAllPeers C E (snd (downLocked C E B (d\<lparr>nd_state := deviceStateClosed, nd_isCoordinator := None\<rparr>))))"

definition SendKeepalivesToPeersWithCurrentKeypair :: "crypto \<Rightarrow> wg_env \<Rightarrow> noise_device \<Rightarrow> noise_device" where
  "SendKeepalivesToPeersWithCurrentKeypair C E d =
     (if \<not> isUp d then d
      else on_peers (\<lambda>p d. case np_current (nd_peers d p) of None \<Rightarrow> d
        | Some k \<Rightarrow> if kp_created (nd_keypairs d k) + RejectAfterTime < ev_now E then d else SendKeepalive C E p d) d)"

text \<open>The MTU of the interface changed; a negative one is refused and a large one capped.\<close>

definition mtu_updated :: "int \<Rightarrow> noise_device \<Rightarrow> noise_device" where
  "mtu_updated mtu d = (if mtu < 0 then d else d\<lparr>nd_mtu := min mtu (int MaxContentSize)\<rparr>)"

section \<open>The static key\<close>

definition precompute :: "crypto \<Rightarrow> peer_at \<Rightarrow> noise_device \<Rightarrow> noise_device" where
  "precompute C p d =
     set_hs p ((hs d p)\<lparr>hs_precomputedStaticStatic := fst (sharedSecret C (nd_privateKey d) (hs_remoteStatic (hs d p)))\<rparr>) d"

definition SetPrivateKey :: "crypto \<Rightarrow> wg_env \<Rightarrow> bytes \<Rightarrow> noise_device \<Rightarrow> noise_device" where
  "SetPrivateKey C E sk d =
     (if sk = nd_privateKey d then d
      else
        let publicKey = key_publicKey C sk;
            d1 = fold (\<lambda>(key, p) d. if hs_remoteStatic (hs d p) = publicKey then removePeerLocked C E p key d else d) (nd_keyMap d) d;
            d2 = d1\<lparr>nd_privateKey := sk, nd_publicKey := publicKey,
              nd_cookieChecker := CookieChecker_Init C publicKey (nd_cookieChecker d1)\<rparr> in
        on_peers (ExpireCurrentKeypairs (ev_now E)) (on_peers (precompute C) d2))"

definition NewDevice :: "int option \<Rightarrow> noise_device" where
  "NewDevice mtu = zero_device\<lparr>nd_mtu := (case mtu of None \<Rightarrow> 1420 | Some m \<Rightarrow> signed_take_bit 31 m)\<rparr>"

text \<open>A handler is there or not; of the P2P client the device asks which peers are coordinators.\<close>

definition SetWUSPHandler :: "bool \<Rightarrow> noise_device \<Rightarrow> noise_device" where
  "SetWUSPHandler handler d = d\<lparr>nd_hasWUSPHandler := handler\<rparr>"

definition SetTUNControlHandler :: "bool \<Rightarrow> noise_device \<Rightarrow> noise_device" where
  "SetTUNControlHandler handler d = d\<lparr>nd_hasTUNControlHandler := handler\<rparr>"

definition StartP2P :: "(peer_at \<Rightarrow> bool) \<Rightarrow> noise_device \<Rightarrow> noise_device" where
  "StartP2P isCoordinatorPeer d =
     (if nd_isCoordinator d \<noteq> None \<or> isClosed d then d else d\<lparr>nd_isCoordinator := Some isCoordinatorPeer\<rparr>)"

end
