(* ===== verification/Wg_Invariant.thy ===== *)
theory Wg_Invariant
  imports Noise_Properties Wg_Lifecycle
begin

text \<open>
  The invariant of the handshake over the primitive steps of the device. Most operations do not touch what the invariants of
  the device speak about: they keep \<open>wg_core\<close>, and the invariants depend on nothing else.
\<close>

section \<open>What the invariant depends on\<close>

definition peer_core :: "noise_peer \<Rightarrow> u32 \<times> bytes \<times> bytes \<times> keypair_at option \<times> keypair_at option \<times> keypair_at option \<times> bool \<times> bytes" where
  "peer_core np = (hs_localIndex (np_handshake np), hs_remoteStatic (np_handshake np), hs_precomputedStaticStatic (np_handshake np),
     np_current np, np_previous np, np_next np, np_isRunning np, hs_lastTimestamp (np_handshake np))"

definition noise_core where
  "noise_core d = (nd_table d, nd_nextPeer d, nd_nextKeypair d, nd_keyMap d, nd_privateKey d, \<lambda>p. peer_core (nd_peers d p),
     \<lambda>k. kp_localIndex (nd_keypairs d k))"

lemma noise_coreD:
  assumes "noise_core d' = noise_core d"
  shows "nd_table d' = nd_table d" "nd_nextPeer d' = nd_nextPeer d" "nd_nextKeypair d' = nd_nextKeypair d" "nd_keyMap d' = nd_keyMap d"
    "nd_privateKey d' = nd_privateKey d" "peer_core (nd_peers d' p) = peer_core (nd_peers d p)"
    "kp_localIndex (nd_keypairs d' k) = kp_localIndex (nd_keypairs d k)"
  using assms by (auto simp: noise_core_def fun_eq_iff)

lemma noise_inv_core:
  assumes "noise_core d' = noise_core d" "noise_inv C d"
  shows "noise_inv C d'"
proof -
  note same = noise_coreD [OF assms(1)]
  have p: "hs_localIndex (hs d' p) = hs_localIndex (hs d p)" "hs_remoteStatic (hs d' p) = hs_remoteStatic (hs d p)"
    "hs_precomputedStaticStatic (hs d' p) = hs_precomputedStaticStatic (hs d p)" "np_current (nd_peers d' p) = np_current (nd_peers d p)"
    "np_previous (nd_peers d' p) = np_previous (nd_peers d p)" "np_next (nd_peers d' p) = np_next (nd_peers d p)" for p
    using same(6) [of p] by (simp_all add: peer_core_def)
  have h: "held d' = held d" by (simp add: held_def held_keypairs_def p fun_eq_iff)
  have "indexed (held d') d'" by (rule indexed_cong [OF noise_invD(1) [OF assms(2)]]) (simp_all add: same p h)
  then show ?thesis using assms(2) by (simp add: noise_inv_def h same p slots_ok_def peer_ok_def)
qed

lemma noise_base_core: "noise_core d' = noise_core d \<Longrightarrow> noise_base C d \<Longrightarrow> noise_base C d'"
proof (erule noise_base_step)
  assume "noise_core d' = noise_core d"
  note same = noise_coreD [OF this]
  have p: "hs_remoteStatic (hs d' p) = hs_remoteStatic (hs d p)"
    "hs_precomputedStaticStatic (hs d' p) = hs_precomputedStaticStatic (hs d p)" "held d' p = held d p" for p
    using same(6) [of p] by (simp_all add: peer_core_def held_def held_keypairs_def)
  show "base_step d d'" by (auto simp: base_step_def same p)
qed

text \<open>The queues to the senders and the counters of the key pairs belong to what the invariants speak about too.\<close>

definition wg_core where
  "wg_core d = (noise_core d, \<lambda>p. np_outbound (nd_peers d p), \<lambda>k. kp_sendNonce (nd_keypairs d k))"

lemma wg_coreD:
  assumes "wg_core d' = wg_core d"
  shows "noise_core d' = noise_core d" "np_outbound (nd_peers d' p) = np_outbound (nd_peers d p)"
    "kp_sendNonce (nd_keypairs d' k) = kp_sendNonce (nd_keypairs d k)"
  using assms by (auto simp: wg_core_def fun_eq_iff)

text \<open>Operations that keep the core.\<close>

named_theorems core_simps

lemma on_peer_core:
  "(\<And>np. peer_core (f np) = peer_core np \<and> np_outbound (f np) = np_outbound np) \<Longrightarrow> wg_core (on_peer f p d) = wg_core d"
  by (simp add: wg_core_def noise_core_def on_peer_def fun_eq_iff)

lemma on_timers_core [core_simps]: "wg_core (on_timers f p d) = wg_core d"
  unfolding on_timers_def by (rule on_peer_core) (simp add: peer_core_def)

lemma timers_core [core_simps]:
  "wg_core (timersDataSent E p d) = wg_core d" "wg_core (timersDataReceived E p d) = wg_core d"
  "wg_core (timersAnyAuthenticatedPacketSent p d) = wg_core d"
  "wg_core (timersAnyAuthenticatedPacketReceived p d) = wg_core d"
  "wg_core (timersHandshakeInitiated E p d) = wg_core d" "wg_core (timersSessionDerived E p d) = wg_core d"
  "wg_core (timersAnyAuthenticatedPacketTraversal E p d) = wg_core d"
  "wg_core (timersStart p d) = wg_core d" "wg_core (timersStop p d) = wg_core d"
  by (simp_all add: timersDataSent_def timersDataReceived_def timersAnyAuthenticatedPacketSent_def
      timersAnyAuthenticatedPacketReceived_def timersHandshakeInitiated_def timersSessionDerived_def
      timersAnyAuthenticatedPacketTraversal_def timersStart_def timersStop_def Let_def core_simps)

lemma complete_core [core_simps]: "wg_core (timersHandshakeComplete E p d) = wg_core d"
  by (simp add: timersHandshakeComplete_def Let_def core_simps on_peer_core peer_core_def)

lemma device_core [core_simps]:
  "wg_core (put_output os d) = wg_core d" "wg_core (d\<lparr>nd_handshakeQueue := q\<rparr>) = wg_core d"
  "wg_core (d\<lparr>nd_underLoadUntil := u\<rparr>) = wg_core d" "wg_core (d\<lparr>nd_limiter := l\<rparr>) = wg_core d"
  "wg_core (d\<lparr>nd_fragments := fs\<rparr>) = wg_core d" "wg_core (d\<lparr>nd_cookieChecker := ck\<rparr>) = wg_core d"
  "wg_core (d\<lparr>nd_allowedips := a\<rparr>) = wg_core d" "wg_core (d\<lparr>nd_state := st\<rparr>) = wg_core d"
  "wg_core (d\<lparr>nd_isCoordinator := co\<rparr>) = wg_core d" "wg_core (d\<lparr>nd_mtu := m\<rparr>) = wg_core d"
  "wg_core (set_filter k f d) = wg_core d" "wg_core (d\<lparr>nd_hasWUSPHandler := b\<rparr>) = wg_core d"
  "wg_core (d\<lparr>nd_port := po\<rparr>) = wg_core d" "wg_core (d\<lparr>nd_fwmark := ma\<rparr>) = wg_core d" "wg_core (d\<lparr>nd_brokenRoaming := b\<rparr>) = wg_core d"
  "wg_core (d\<lparr>nd_hasTUNControlHandler := b\<rparr>) = wg_core d"
  by (simp_all add: wg_core_def noise_core_def put_output_def set_filter_def fun_eq_iff)

lemma endpoint_core [core_simps]:
  "wg_core (SetEndpointFromPacket ep p d) = wg_core d" "wg_core (EnableRoaming p d) = wg_core d"
  "wg_core (markEndpointSrcForClearing p d) = wg_core d" "wg_core (snd (SendBuffers E bufs p d)) = wg_core d"
  "wg_core (snd (add_macs C E m p d)) = wg_core d" "wg_core (add_rx n p d) = wg_core d"
  by (simp_all add: SetEndpointFromPacket_def EnableRoaming_def markEndpointSrcForClearing_def SendBuffers_def add_macs_def add_rx_def
      Let_def case_prod_unfold core_simps on_peer_core peer_core_def split: option.split)

lemma queues_core [core_simps]:
  "wg_core (set_staged q p d) = wg_core d" "wg_core (put_staged c p d) = wg_core d"
  "wg_core (StagePackets c p d) = wg_core d" "wg_core (FlushStagedPackets p d) = wg_core d"
  by (simp_all add: set_staged_def put_staged_def StagePackets_def on_peer_core peer_core_def)
     (simp add: FlushStagedPackets_def wg_core_def noise_core_def peer_core_def fun_eq_iff)

lemma set_hs_core:
  "hs_localIndex h = hs_localIndex (hs d p) \<Longrightarrow> hs_remoteStatic h = hs_remoteStatic (hs d p) \<Longrightarrow>
   hs_precomputedStaticStatic h = hs_precomputedStaticStatic (hs d p) \<Longrightarrow> hs_lastTimestamp h = hs_lastTimestamp (hs d p) \<Longrightarrow>
   wg_core (set_hs p h d) = wg_core d"
  by (simp add: wg_core_def noise_core_def peer_core_def fun_eq_iff)

lemma queue_core [core_simps]:
  "wg_core (queue_handshake ty m d) = wg_core d" "wg_core (put_inbound e d) = wg_core d"
  "wg_core (handle_cookie C E packet d) = wg_core d" "wg_core (snd (IsUnderLoad E d)) = wg_core d"
  "wg_core (deliver_p2p packet p d) = wg_core d" "wg_core (deliver_tun_control packet p d) = wg_core d"
  "wg_core (deliver_wusp E packet p d) = wg_core d" "wg_core (receive_other E m2 d) = wg_core d"
  by (simp_all add: queue_handshake_def put_inbound_def handle_cookie_def IsUnderLoad_def deliver_p2p_def deliver_tun_control_def
      deliver_wusp_def receive_other_def Let_def core_simps on_peer_core peer_core_def
      split: prod.split option.split consume_result.split received_as.split)

section \<open>Enough indices\<close>

text \<open>
  The table has at most four entries for each peer, so that a loop that draws more different indices finds a free one.
\<close>

lemma entries_of_peer:
  "card (insert (HandshakeEntry p) (KeypairEntry p ` held d p)) \<le> 4" "finite (insert (HandshakeEntry p) (KeypairEntry p ` held d p))"
proof -
  let ?s = "\<lambda>f. set_option (f (nd_peers d p))"
  have held: "held d p = ?s np_current \<union> ?s np_previous \<union> ?s np_next" by (simp add: held_def held_keypairs_def)
  have one: "card (set_option x) \<le> 1" for x :: "keypair_at option" by (cases x) auto
  have "card (held d p) \<le> card (?s np_current) + card (?s np_previous) + card (?s np_next)"
    unfolding held by (meson add_mono card_Un_le le_refl order_trans)
  then have "card (held d p) \<le> 3"
    using one [of "np_current (nd_peers d p)"] one [of "np_previous (nd_peers d p)"] one [of "np_next (nd_peers d p)"] by linarith
  moreover have fin: "finite (held d p)" by (simp add: held)
  ultimately have "card (KeypairEntry p ` held d p) \<le> 3" using card_image_le [OF fin, of "KeypairEntry p"] by linarith
  then show "card (insert (HandshakeEntry p) (KeypairEntry p ` held d p)) \<le> 4" using card_insert_le_m1 [of 4] by simp
  show "finite (insert (HandshakeEntry p) (KeypairEntry p ` held d p))" using fin by simp
qed

lemma table_small:
  assumes "noise_inv C d"
  shows "card (dom (map_of (nd_table d))) \<le> 4 * nd_nextPeer d"
proof -
  let ?n = "nd_nextPeer d"
  let ?S = "(\<Union>p < ?n. insert (HandshakeEntry p) (KeypairEntry p ` held d p))"
  let ?f = "\<lambda>i. the (map_of (nd_table d) i)"
  note ix = noise_invD(1) [OF assms]
  have at: "owns (held d) d i (?f i)" if "i \<in> dom (map_of (nd_table d))" for i
    using indexedD(2) [OF ix, of i] that by auto
  have "?f ` dom (map_of (nd_table d)) \<subseteq> ?S"
  proof
    fix e assume "e \<in> ?f ` dom (map_of (nd_table d))"
    then obtain i where "owns (held d) d i e" using at by auto
    then show "e \<in> ?S" by (cases e) auto
  qed
  moreover have "inj_on ?f (dom (map_of (nd_table d)))"
  proof (rule inj_onI)
    fix i j assume "i \<in> dom (map_of (nd_table d))" "j \<in> dom (map_of (nd_table d))" "?f i = ?f j"
    then have "owns (held d) d i (?f i)" "owns (held d) d j (?f i)" using at by metis+
    then show "i = j" by (cases "?f i") auto
  qed
  moreover note entry = entries_of_peer [of p d for p]
  ultimately have "card (dom (map_of (nd_table d))) \<le> card ?S"
    by (intro card_inj_on_le) (auto simp: entry)
  also have "\<dots> \<le> (\<Sum>p < ?n. card (insert (HandshakeEntry p) (KeypairEntry p ` held d p)))" by (rule card_UN_le) simp
  also have "\<dots> \<le> (\<Sum>p < ?n. 4)" by (rule sum_mono) (rule entry(1))
  finally show ?thesis by simp
qed

text \<open>
  The draws of a step find an index however many entries the table has: they succeed, are not 0, and have more different
  values than there can be entries. They may repeat.
\<close>

definition enough_draws :: "wg_env \<Rightarrow> noise_device \<Rightarrow> bool" where
  "enough_draws E d \<longleftrightarrow> proper_draws (ev_draws E) \<and> 4 * nd_nextPeer d < card (fst ` set (ev_draws E))"

lemma draw_found:
  assumes "noise_inv C d" "enough_draws E d"
  shows "snd (fst (NewIndexForHandshake p (ev_draws E) (it_Delete i d))) \<noteq> Some StillDrawing"
proof -
  let ?t = "AList.delete i (nd_table d)"
  have all: "snd (fst (NewIndexForHandshake p draws d0)) = Some StillDrawing \<Longrightarrow> fst ` set draws \<subseteq> dom (map_of (nd_table d0))"
    if "list_all snd draws" for draws d0
    using that by (induction p draws d0 rule: NewIndexForHandshake.induct) (auto split: if_splits)
  have "fst ` set (ev_draws E) \<subseteq> dom (map_of (nd_table d)) \<Longrightarrow> False"
  proof -
    assume "fst ` set (ev_draws E) \<subseteq> dom (map_of (nd_table d))"
    then have "card (fst ` set (ev_draws E)) \<le> card (dom (map_of (nd_table d)))" by (simp add: card_mono finite_dom_map_of)
    with table_small [OF assms(1)] assms(2) show False by (simp add: enough_draws_def)
  qed
  moreover have "dom (map_of ?t) \<subseteq> dom (map_of (nd_table d))" by (auto simp: delete_conv')
  moreover have "list_all snd (ev_draws E)" using assms(2) by (auto simp: enough_draws_def proper_draws_def list_all_iff)
  ultimately show ?thesis using all [of "ev_draws E" "it_Delete i d"] by auto
qed

section \<open>The steps of a peer\<close>

text \<open>
  The device between the operations of a step: nothing but the peers that exist runs, and the last timestamp of a peer is
  not below what it was. With the flag \<open>g\<close> for good draws, the draws of the step suffice and the table of indices is exact.
\<close>

definition dev_ok :: "crypto \<Rightarrow> wg_env \<Rightarrow> bool \<Rightarrow> (peer_at \<Rightarrow> bytes) \<Rightarrow> nat \<Rightarrow> noise_device \<Rightarrow> bool" where
  "dev_ok C E g T n d \<longleftrightarrow> noise_base C d \<and> (g \<longrightarrow> noise_inv C d \<and> enough_draws E d) \<and> nd_nextPeer d = n \<and> (\<forall>p \<ge> n. \<not> np_isRunning (nd_peers d p)) \<and>
     (\<forall>p < n. T p \<le> hs_lastTimestamp (hs d p))"

lemma dev_ok_core: "noise_core d' = noise_core d \<Longrightarrow> dev_ok C E g T n d' = dev_ok C E g T n d"
  unfolding dev_ok_def
  using noise_inv_core [of d' d] noise_inv_core [of d d'] noise_base_core [of d' d] noise_base_core [of d d'] noise_coreD(2,6) [of d' d]
  by (auto simp: enough_draws_def peer_core_def)

lemma dev_ok_inv: "dev_ok C E g T n d \<Longrightarrow> noise_base C d" "dev_ok C E g T n d \<Longrightarrow> nd_nextPeer d = n"
  by (simp_all add: dev_ok_def)

lemma dev_okI:
  assumes "dev_ok C E g T n d" "base_step d d'" "\<lbrakk>g; nd_nextPeer d = n; noise_inv C d; enough_draws E d\<rbrakk> \<Longrightarrow> noise_inv C d'"
    "\<And>p. p \<ge> n \<Longrightarrow> np_isRunning (nd_peers d' p) \<Longrightarrow> np_isRunning (nd_peers d p)"
    "\<And>p. hs_lastTimestamp (hs d p) \<le> hs_lastTimestamp (hs d' p)"
  shows "dev_ok C E g T n d'"
  using assms noise_base_step [of C d d'] by (auto simp: dev_ok_def enough_draws_def base_step_def intro: order_trans)

lemma CreateMessageInitiation_running:
  "np_isRunning (nd_peers (snd (CreateMessageInitiation C random now draws p d)) q) = np_isRunning (nd_peers d q)"
  "hs_lastTimestamp (hs (snd (CreateMessageInitiation C random now draws p d)) q) = hs_lastTimestamp (hs d q)"
  by (auto simp: CreateMessageInitiation_def Let_def case_prod_unfold new_index_device split: option.split)

lemma CreateMessageResponse_running:
  "np_isRunning (nd_peers (snd (CreateMessageResponse C random draws p d)) q) = np_isRunning (nd_peers d q)"
  "hs_lastTimestamp (hs (snd (CreateMessageResponse C random draws p d)) q) = hs_lastTimestamp (hs d q)"
  by (auto simp: CreateMessageResponse_def Let_def case_prod_unfold new_index_device split: option.split)

lemma initiation_draw_found:
  assumes "noise_inv C d" "enough_draws E d"
  shows "fst (CreateMessageInitiation C random now (ev_draws E) p d) \<noteq> Inl StillDrawing"
proof -
  have "snd (fst (NewIndexForHandshake p (ev_draws E) (it_Delete i (set_hs p h d)))) \<noteq> Some StillDrawing"
    if "hs_localIndex h = hs_localIndex (hs d p)" "hs_remoteStatic h = hs_remoteStatic (hs d p)"
      "hs_precomputedStaticStatic h = hs_precomputedStaticStatic (hs d p)" "hs_lastTimestamp h = hs_lastTimestamp (hs d p)" for h i
  proof -
    have "noise_inv C (set_hs p h d)" using noise_inv_core [OF wg_coreD(1) [OF set_hs_core [OF that]] assms(1)] .
    then show ?thesis using assms(2) by (intro draw_found [of C]) (auto simp: enough_draws_def)
  qed
  then show ?thesis
    by (auto simp: CreateMessageInitiation_def Let_def case_prod_unfold split: option.split)
qed

lemma response_draw_found:
  assumes "noise_inv C d" "enough_draws E d"
  shows "fst (CreateMessageResponse C random (ev_draws E) p d) \<noteq> Inl StillDrawing"
  using draw_found [of C d E p] assms
  by (auto simp: CreateMessageResponse_def Let_def case_prod_unfold split: option.split)

lemma CreateMessageInitiation_dev:
  assumes "dev_ok C E g T n d" "p < n"
  shows "dev_ok C E g T n (snd (CreateMessageInitiation C random now (ev_draws E) p d))"
proof (rule dev_okI [OF assms(1)])
  show "noise_inv C (snd (CreateMessageInitiation C random now (ev_draws E) p d))" if "noise_inv C d" "enough_draws E d"
    by (rule CreateMessageInitiation_inv [OF _ _ _ prod.collapse [symmetric] initiation_draw_found [OF that]])
       (use that assms in \<open>auto simp: dev_ok_def enough_draws_def\<close>)
qed (use assms in \<open>simp_all add: CreateMessageInitiation_running base_creation dev_ok_inv\<close>)

lemma CreateMessageResponse_dev:
  assumes "dev_ok C E g T n d" "p < n"
  shows "dev_ok C E g T n (snd (CreateMessageResponse C random (ev_draws E) p d))"
proof (rule dev_okI [OF assms(1)])
  show "noise_inv C (snd (CreateMessageResponse C random (ev_draws E) p d))" if "noise_inv C d" "enough_draws E d"
    by (rule CreateMessageResponse_inv [OF _ _ _ prod.collapse [symmetric] response_draw_found [OF that]])
       (use that assms in \<open>auto simp: dev_ok_def enough_draws_def\<close>)
qed (use assms in \<open>simp_all add: CreateMessageResponse_running base_creation dev_ok_inv\<close>)

lemma BeginSymmetricSession_dev: "dev_ok C E g T n d \<Longrightarrow> p < n \<Longrightarrow> dev_ok C E g T n (snd (BeginSymmetricSession C now p d))"
  by (erule dev_okI [OF _ base_session BeginSymmetricSession_inv])
     (auto simp: dev_ok_inv BeginSymmetricSession_def rotate_keypairs_def Let_def case_prod_unfold split: if_splits option.splits)

lemma ReceivedWithKeypair_dev: "dev_ok C E g T n d \<Longrightarrow> p < n \<Longrightarrow> dev_ok C E g T n (snd (ReceivedWithKeypair k p d))"
  by (erule dev_okI [OF _ base_rest(1) ReceivedWithKeypair_inv]) (auto simp: dev_ok_inv ReceivedWithKeypair_def Let_def split: if_splits)

lemma zero_keypairs_dev: "dev_ok C E g T n d \<Longrightarrow> p < n \<Longrightarrow> dev_ok C E g T n (zero_keypairs p d)"
  by (erule dev_okI [OF _ base_rest(2) zero_keypairs_inv]) (auto simp: dev_ok_inv zero_keypairs_def Let_def split: if_splits)

lemma zero_handshake_dev: "dev_ok C E g T n d \<Longrightarrow> p < n \<Longrightarrow> dev_ok C E g T n (zero_handshake p d)"
  by (erule dev_okI [OF _ base_rest(3) zero_handshake_inv])
     (auto simp: dev_ok_inv zero_handshake_def handshake_Clear_def split: if_splits)

lemma exhaust_dev: "dev_ok C E g T n d \<Longrightarrow> dev_ok C E g T n (exhaust k d)"
  by (erule dev_okI [OF _ base_rest(4) exhaust_inv]) (auto simp: exhaust_def split: option.splits)

lemma initiation_commit_dev: "dev_ok C E g T n d \<Longrightarrow> fst c < n \<Longrightarrow> dev_ok C E g T n (initiation_commit m c now d)"
  by (erule dev_okI [OF _ base_rest(5) initiation_commit_inv])
     (auto simp: dev_ok_inv initiation_commit_def After_def Let_def case_prod_unfold split: if_splits)

lemma response_commit_dev: "dev_ok C E g T n d \<Longrightarrow> fst c < n \<Longrightarrow> dev_ok C E g T n (snd (response_commit m c d))"
  by (erule dev_okI [OF _ base_rest(6) response_commit_inv])
     (auto simp: dev_ok_inv response_commit_def case_prod_unfold split: if_splits)

lemma keyMap_subset_dev:
  assumes "dev_ok C E g T n d" "set km \<subseteq> set (nd_keyMap d)" "distinct (map fst km)"
  shows "dev_ok C E g T n (d\<lparr>nd_keyMap := km\<rparr>)"
proof -
  have "indexed (held (d\<lparr>nd_keyMap := km\<rparr>)) (d\<lparr>nd_keyMap := km\<rparr>)" if "noise_inv C d"
    by (rule indexed_cong [OF noise_invD(1) [OF that]]) (simp_all add: held_def)
  then show ?thesis using assms by (auto simp: dev_ok_def noise_inv_def noise_base_def enough_draws_def held_def peer_ok_def)
qed

text \<open>The static key: for a moment the precomputed secrets are those of the old key.\<close>

lemma rekey_dev:
  assumes "dev_ok C E g T n d" "nd_table d' = nd_table d" "nd_nextPeer d' = nd_nextPeer d" "nd_nextKeypair d' = nd_nextKeypair d"
    "nd_keyMap d' = nd_keyMap d" "nd_keypairs d' = nd_keypairs d"
    "\<And>p. \<exists>s. nd_peers d' p = (nd_peers d p)\<lparr>np_handshake := (hs d p)\<lparr>hs_precomputedStaticStatic := s\<rparr>\<rparr>"
    "\<And>key p. (key, p) \<in> set (nd_keyMap d) \<Longrightarrow> hs_precomputedStaticStatic (hs d' p) = cr_ScalarMult C (nd_privateKey d') (hs_remoteStatic (hs d p))"
  shows "dev_ok C E g T n d'"
proof -
  have p: "hs_localIndex (hs d' p) = hs_localIndex (hs d p)" "hs_remoteStatic (hs d' p) = hs_remoteStatic (hs d p)"
    "np_current (nd_peers d' p) = np_current (nd_peers d p)" "np_previous (nd_peers d' p) = np_previous (nd_peers d p)"
    "np_next (nd_peers d' p) = np_next (nd_peers d p)" "np_isRunning (nd_peers d' p) = np_isRunning (nd_peers d p)"
    "hs_lastTimestamp (hs d' p) = hs_lastTimestamp (hs d p)" for p
    using assms(7) [of p] by auto
  have h: "held d' = held d" by (simp add: held_def held_keypairs_def p fun_eq_iff)
  note base = dev_ok_inv(1) [OF assms(1)]
  have "indexed (held d') d'" if "noise_inv C d" by (rule indexed_cong [OF noise_invD(1) [OF that]]) (simp_all add: assms p h)
  moreover have "peer_ok C d' key q" if "(key, q) \<in> set (nd_keyMap d)" for key q
    using noise_baseD(4) [OF base that] assms(3) assms(8) [OF that] by (simp add: peer_ok_def p)
  ultimately show ?thesis
    using assms(1) by (auto simp: dev_ok_def enough_draws_def noise_inv_def noise_base_def h p slots_ok_def assms(2-6))
qed

lemma precompute_all:
  fixes km :: "(bytes \<times> peer_at) list" and C :: crypto
  defines "F \<equiv> fold (\<lambda>(key, p). precompute C p) km"
  shows "nd_table (F d) = nd_table d" "nd_nextPeer (F d) = nd_nextPeer d" "nd_nextKeypair (F d) = nd_nextKeypair d"
    "nd_keyMap (F d) = nd_keyMap d" "nd_keypairs (F d) = nd_keypairs d" "nd_privateKey (F d) = nd_privateKey d"
    "nd_peers (F d) p = (if p \<in> snd ` set km then (nd_peers d p)\<lparr>np_handshake := (hs d p)
       \<lparr>hs_precomputedStaticStatic := cr_ScalarMult C (nd_privateKey d) (hs_remoteStatic (hs d p))\<rparr>\<rparr> else nd_peers d p)"
  unfolding F_def by (induction km arbitrary: d) (auto simp: precompute_def sharedSecret_def Let_def)

lemma precompute_dev:
  assumes "dev_ok C E g T n d"
  shows "dev_ok C E g T n (on_peers (precompute C) (d\<lparr>nd_privateKey := sk, nd_publicKey := pk, nd_cookieChecker := ck\<rparr>))" (is "dev_ok C E g T n (on_peers _ ?d)")
proof (rule rekey_dev [OF assms])
  show "\<exists>s. nd_peers (on_peers (precompute C) ?d) p = (nd_peers d p)\<lparr>np_handshake := (hs d p)\<lparr>hs_precomputedStaticStatic := s\<rparr>\<rparr>" for p
    by (cases "p \<in> snd ` set (nd_keyMap d)")
       (auto simp: on_peers_def precompute_all intro: exI [of _ "hs_precomputedStaticStatic (hs d p)"])
qed (force simp: on_peers_def precompute_all)+

lemma container_dev: "dev_ok C E g T n d \<Longrightarrow> dev_ok C E g T n (snd (snd (send_container k c p d)))"
  by (subst dev_ok_core [of _ d])
     (auto simp: send_container_def Let_def case_prod_unfold noise_core_def peer_core_def set_nonce_def put_outbound_def on_peer_def
       set_staged_def StagePackets_def put_staged_def fun_eq_iff)

lemma outbound_dev: "dev_ok C E g T n (on_peer (\<lambda>np. np\<lparr>np_outbound := f np\<rparr>) p d) = dev_ok C E g T n d"
  by (rule dev_ok_core) (auto simp: noise_core_def peer_core_def on_peer_def fun_eq_iff)

lemma running_dev: "dev_ok C E g T n d \<Longrightarrow> p < n \<Longrightarrow> dev_ok C E g T n (on_peer (np_isRunning_update (\<lambda>_. b)) p d)"
  using set_running_inv [of C d p b]
    noise_base_step [of C d "set_peer p ((nd_peers d p)\<lparr>np_isRunning := b\<rparr>) d", OF _ base_set_peer]
  by (auto simp: dev_ok_def on_peer_def enough_draws_def held_def held_keypairs_def)

lemma running_exists: "dev_ok C E g T n d \<Longrightarrow> np_isRunning (nd_peers d p) \<Longrightarrow> p < n"
  by (auto simp: dev_ok_def not_less [symmetric])

lemmas dev_steps = running_exists CreateMessageInitiation_dev CreateMessageResponse_dev BeginSymmetricSession_dev
  ReceivedWithKeypair_dev zero_keypairs_dev zero_handshake_dev exhaust_dev initiation_commit_dev response_commit_dev container_dev
  running_dev keyMap_subset_dev precompute_dev

end
