(* ===== verification/Wg_Compose.thy ===== *)
theory Wg_Compose
  imports Wg_Invariant
begin

text \<open>
  An invariant of the device that its primitive steps keep, all its steps keep: the routines, the timers and the
  configuration are composed of the primitive ones. The locale states what an invariant has to keep; the theories on
  indices and on nonces interpret it.
\<close>

lemma initiation_check_peer: "initiation_check C m now d = Some c \<Longrightarrow> \<exists>pk. LookupPeer pk d = Some (fst c)"
  by (auto simp: initiation_check_def Let_def case_prod_unfold split: if_splits option.splits)

locale device_steps =
  fixes C :: crypto and E :: wg_env and n :: nat and ok :: "noise_device \<Rightarrow> bool"
  assumes ok_core: "wg_core d' = wg_core d \<Longrightarrow> ok d' = ok d"
    and ok_inv: "ok d \<Longrightarrow> noise_base C d"
    and ok_next: "ok d \<Longrightarrow> nd_nextPeer d = n"
    and ok_running: "ok d \<Longrightarrow> np_isRunning (nd_peers d p) \<Longrightarrow> p < n"
    and CreateMessageInitiation_ok:
      "ok d \<Longrightarrow> p < n \<Longrightarrow> ok (snd (CreateMessageInitiation C (ev_random E) (ev_now E) (ev_draws E) p d))"
    and CreateMessageResponse_ok: "ok d \<Longrightarrow> p < n \<Longrightarrow> ok (snd (CreateMessageResponse C (ev_random E) (ev_draws E) p d))"
    and BeginSymmetricSession_ok: "ok d \<Longrightarrow> p < n \<Longrightarrow> ok (snd (BeginSymmetricSession C now p d))"
    and ReceivedWithKeypair_ok: "ok d \<Longrightarrow> p < n \<Longrightarrow> ok (snd (ReceivedWithKeypair k p d))"
    and zero_keypairs_ok: "ok d \<Longrightarrow> p < n \<Longrightarrow> ok (zero_keypairs p d)"
    and zero_handshake_ok: "ok d \<Longrightarrow> p < n \<Longrightarrow> ok (zero_handshake p d)"
    and exhaust_ok: "ok d \<Longrightarrow> p < n \<Longrightarrow> set_option x \<subseteq> held d p \<Longrightarrow> ok (exhaust x d)"
    and initiation_commit_ok: "ok d \<Longrightarrow> fst c < n \<Longrightarrow> ok (initiation_commit m c now d)"
    and response_commit_ok: "ok d \<Longrightarrow> fst c2 < n \<Longrightarrow> ok (snd (response_commit m2 c2 d))"
    and container_ok: "ok d \<Longrightarrow> p < n \<Longrightarrow> np_current (nd_peers d p) = Some k \<Longrightarrow> ok (snd (snd (send_container k elems p d)))"
    and outbound_ok: "ok d \<Longrightarrow> p < n \<Longrightarrow> ok (on_peer (\<lambda>np. np\<lparr>np_outbound := drop i (np_outbound np)\<rparr>) p d)"
    and running_ok: "ok d \<Longrightarrow> p < n \<Longrightarrow> ok (on_peer (np_isRunning_update (\<lambda>_. b)) p d)"
    and keyMap_ok: "ok d \<Longrightarrow> set km \<subseteq> set (nd_keyMap d) \<Longrightarrow> distinct (map fst km) \<Longrightarrow> ok (d\<lparr>nd_keyMap := km\<rparr>)"
    and rekey_ok: "ok d \<Longrightarrow> ok (on_peers (precompute C) (d\<lparr>nd_privateKey := sk, nd_publicKey := pk, nd_cookieChecker := ck\<rparr>))"
begin

section \<open>The steps of a peer\<close>

lemma ZeroAndFlushAll_ok: "ok d \<Longrightarrow> p < n \<Longrightarrow> ok (ZeroAndFlushAll p d)"
  unfolding ZeroAndFlushAll_def by (subst ok_core [OF queues_core(4)]) (intro zero_handshake_ok zero_keypairs_ok)

lemma ExpireCurrentKeypairs_ok: "ok d \<Longrightarrow> p < n \<Longrightarrow> ok (ExpireCurrentKeypairs now p d)"
proof -
  assume ok: "ok d" "p < n"
  let ?d2 = "set_hs p ((hs (zero_handshake p d) p)\<lparr>hs_lastSentHandshake := now - (RekeyTimeout + second)\<rparr>) (zero_handshake p d)"
  have d2: "ok ?d2" using zero_handshake_ok [OF ok] by (subst ok_core [OF set_hs_core]) simp_all
  have d3: "ok (exhaust (np_current (nd_peers ?d2 p)) ?d2)" by (rule exhaust_ok [OF d2 ok(2) slot_held(1)])
  have "held (exhaust (np_current (nd_peers ?d2 p)) ?d2) = held ?d2" by (auto simp: held_def exhaust_def fun_eq_iff split: option.split)
  then have "ok (exhaust (np_next (nd_peers ?d2 p)) (exhaust (np_current (nd_peers ?d2 p)) ?d2))"
    by (intro exhaust_ok [OF d3 ok(2)]) (simp only: slot_held(3))
  then show ?thesis by (simp add: ExpireCurrentKeypairs_def Let_def)
qed

lemmas ok_simps [simp] = core_simps [THEN ok_core]

lemma SendHandshakeInitiation_ok:
  assumes "ok d" "p < n"
  shows "ok (SendHandshakeInitiation C E b p d)"
proof -
  let ?d1 = "if b then d else on_timers (pt_handshakeAttempts_update (\<lambda>_. 0)) p d"
  let ?d2 = "set_hs p ((hs ?d1 p)\<lparr>hs_lastSentHandshake := ev_now E\<rparr>) ?d1"
  have d1: "ok ?d1" using assms by simp
  then have "ok ?d2" by (subst ok_core [OF set_hs_core]) simp_all
  from CreateMessageInitiation_ok [OF this assms(2)]
  have "ok (snd (CreateMessageInitiation C (ev_random E) (ev_now E) (ev_draws E) p ?d2))" .
  then show ?thesis
    using d1 unfolding SendHandshakeInitiation_def Let_def by (auto simp: case_prod_unfold split: sum.split)
qed

lemma SendHandshakeResponse_ok:
  assumes "ok d" "p < n"
  shows "ok (SendHandshakeResponse C E p d)"
proof -
  let ?d1 = "set_hs p ((hs d p)\<lparr>hs_lastSentHandshake := ev_now E\<rparr>) d"
  have "ok ?d1" using assms by (subst ok_core [OF set_hs_core]) simp_all
  from CreateMessageResponse_ok [OF this assms(2)]
  have "ok (snd (CreateMessageResponse C (ev_random E) (ev_draws E) p ?d1))" .
  moreover have "ok (snd (BeginSymmetricSession C (ev_now E) p d'))" if "ok d'" for d'
    by (rule BeginSymmetricSession_ok [OF that assms(2)])
  ultimately show ?thesis
    unfolding SendHandshakeResponse_def Let_def by (auto simp: case_prod_unfold split: sum.split option.split)
qed

lemma SendHandshakeCookie_ok: "ok d \<Longrightarrow> ok (SendHandshakeCookie C E packet ep d)"
  by (simp add: SendHandshakeCookie_def Let_def case_prod_unfold split: option.split)

lemma keepKeyFreshSending_ok: "ok d \<Longrightarrow> p < n \<Longrightarrow> ok (keepKeyFreshSending C E p d)"
  by (auto simp: keepKeyFreshSending_def Let_def intro!: SendHandshakeInitiation_ok split: option.split)

lemma keepKeyFreshReceiving_ok: "ok d \<Longrightarrow> p < n \<Longrightarrow> ok (keepKeyFreshReceiving C E p d)"
  by (auto simp: keepKeyFreshReceiving_def Let_def intro!: SendHandshakeInitiation_ok split: option.split)

lemma send_loop_ok: "ok d \<Longrightarrow> p < n \<Longrightarrow> ok (send_loop C E k p d)"
proof -
  have "C' = C \<Longrightarrow> E' = E \<Longrightarrow> ok d \<Longrightarrow> p < n \<Longrightarrow> ok (send_loop C' E' k p d)" for C' E'
  proof (induction C' E' k p d rule: send_loop.induct)
    case (1 C' E' k p d)
    show ?case
    proof (cases "np_current (nd_peers d p) \<noteq> Some k \<or> staged_of d p = []")
      case True
      then show ?thesis using 1(5) by (subst send_loop.simps) (auto split: list.split)
    next
      case False
      then obtain c cs where st: "staged_of d p = c # cs" by (cases "staged_of d p") auto
      obtain kept ooo d1 where sc: "send_container k c p d = (kept, ooo, d1)" by (metis prod.collapse)
      have d1: "ok d1" using container_ok [OF 1(5,6), of k c] False sc by simp
      show ?thesis
        using False st sc d1 1 SendHandshakeInitiation_ok [OF d1 1(6)]
        by (subst send_loop.simps) (auto split: readiness.split)
    qed
  qed
  then show "ok d \<Longrightarrow> p < n \<Longrightarrow> ok (send_loop C E k p d)" by simp
qed

lemma SendStagedPackets_ok: "ok d \<Longrightarrow> p < n \<Longrightarrow> ok (SendStagedPackets C E p d)"
  by (auto simp: SendStagedPackets_def intro!: SendHandshakeInitiation_ok send_loop_ok split: readiness.split)

lemma SendKeepalive_ok: "ok d \<Longrightarrow> p < n \<Longrightarrow> ok (SendKeepalive C E p d)"
  by (auto simp: SendKeepalive_def intro!: SendStagedPackets_ok)

lemma send_frames_ok: "ok d \<Longrightarrow> p < n \<Longrightarrow> ok (snd (send_frames C E frames p d))"
  by (induction frames arbitrary: d) (auto intro: SendStagedPackets_ok)

lemma send_control_ok:
  assumes "ok d" "p < n"
  shows "ok (SendTUNControl C E data p d)" "ok (SendP2PControl C E data p d)"
    "ok (snd (SendWUSPFragmented C E data m p d))" "ok (snd (SendWUSPDatagram C E data p d))"
  using assms
  by (auto simp: SendTUNControl_def SendP2PControl_def SendWUSPFragmented_def SendWUSPDatagram_def Let_def case_prod_unfold
      intro!: SendStagedPackets_ok send_frames_ok split: option.split sum.split)

lemma fold_ok: "(\<And>x d. x \<in> set xs \<Longrightarrow> ok d \<Longrightarrow> ok (f x d)) \<Longrightarrow> ok d \<Longrightarrow> ok (fold f xs d)"
  by (induction xs arbitrary: d) auto

lemma stage_and_send_ok: "ok d \<Longrightarrow> ok (stage_and_send C E e d)"
  by (auto simp: stage_and_send_def intro!: SendStagedPackets_ok dest: ok_running split: prod.split)

lemma RoutineReadFromTUN_ok: "ok d \<Longrightarrow> ok (RoutineReadFromTUN C E packets d)"
  unfolding RoutineReadFromTUN_def by (rule fold_ok) (auto intro: stage_and_send_ok)

lemma InjectOutbound_ok: "ok d \<Longrightarrow> ok (snd (InjectOutbound C E packet d))"
  by (auto simp: InjectOutbound_def Let_def intro!: SendStagedPackets_ok dest: ok_running split: option.split)

lemma RoutineSequentialSender_ok:
  assumes "ok d" "p < n"
  shows "ok (RoutineSequentialSender C E p d)"
proof -
  have "ok (on_peer (np_outbound_update (\<lambda>_. cs)) p d)" if "np_outbound (nd_peers d p) = c # cs" for c cs
    using outbound_ok [OF assms, of 1] that by (simp add: on_peer_def)
  then show ?thesis
    unfolding RoutineSequentialSender_def Let_def
    by (auto simp: case_prod_unfold intro!: keepKeyFreshSending_ok assms split: list.split)
qed

lemma fire_timer_ok:
  assumes "ok d" "p < n"
  shows "ok (fire_timer C E t p d)"
  using assms
  by (auto simp: fire_timer_def Let_def expiredRetransmitHandshake_def expiredSendKeepalive_def expiredNewHandshake_def
      expiredZeroKeyMaterial_def expiredPersistentKeepalive_def
      intro!: SendHandshakeInitiation_ok SendKeepalive_ok ZeroAndFlushAll_ok split: timer_name.split)

section \<open>The steps of the receiving side\<close>

lemma RoutineReceiveIncoming_ok: "ok d \<Longrightarrow> ok (RoutineReceiveIncoming E ms d)"
  unfolding RoutineReceiveIncoming_def Let_def
  by (intro fold_ok) simp_all

lemma admit_handshake_ok: "ok d \<Longrightarrow> ok (snd (admit_handshake C E packet ep d))"
  using ok_core [OF queue_core(4) [of E d]]
  by (auto simp: admit_handshake_def case_prod_unfold Let_def intro!: SendHandshakeCookie_ok)

lemma lookup_exists: "ok d \<Longrightarrow> LookupPeer pk d = Some p \<Longrightarrow> p < n"
  using ok_inv [of d] ok_next [of d] by (auto simp: LookupPeer_def peer_ok_def dest!: map_of_SomeD noise_baseD(4))

lemma response_check_peer:
  assumes "ok d" "response_check C m d = Some c"
  shows "fst c < n"
proof -
  have "map_of (nd_table d) (mr_Receiver m) = Some (HandshakeEntry (fst c))"
    using assms(2) by (auto simp: response_check_def Let_def case_prod_unfold split: if_splits option.splits index_entry.splits)
  then show ?thesis using noise_baseD(1) [OF ok_inv [OF assms(1)]] ok_next [OF assms(1)] by fastforce
qed

lemma ConsumeMessageInitiation_ok:
  assumes "ok d" "ConsumeMessageInitiation C m now now2 d = (r, d')"
  shows "ok d'" "r = Some p \<Longrightarrow> p < n"
  using assms initiation_check_peer [of C m now d] lookup_exists [OF assms(1)]
  by (auto simp: ConsumeMessageInitiation_def intro!: initiation_commit_ok split: option.splits)

lemma ConsumeMessageResponse_ok:
  assumes "ok d" "ConsumeMessageResponse C m d = (r, d')"
  shows "ok d'" "r = Some p \<Longrightarrow> p < n"
proof -
  show "ok d'"
    using assms response_check_peer [OF assms(1), of m] response_commit_ok [OF assms(1), of _ m]
    by (auto simp: ConsumeMessageResponse_def split: option.splits) (metis snd_conv fst_conv)
  show "p < n" if "r = Some p"
    using assms response_check_peer [OF assms(1), of m] that
    by (auto simp: ConsumeMessageResponse_def response_commit_def case_prod_unfold split: option.splits if_splits)
qed

lemma RoutineHandshake_ok:
  assumes "ok d"
  shows "ok (RoutineHandshake C E d)"
proof -
  have init: "ok (handle_initiation C E packet ep d')" if "ok d'" for packet ep d'
    unfolding handle_initiation_def
    by (auto intro!: SendHandshakeResponse_ok dest: ConsumeMessageInitiation_ok [OF that] simp: that split: option.split prod.split)
  have resp: "ok (handle_response C E packet ep d')" if "ok d'" for packet ep d'
  proof (cases "response_unmarshal packet")
    case None
    then show ?thesis using that by (simp add: handle_response_def)
  next
    case (Some msg)
    obtain r d1 where c: "ConsumeMessageResponse C msg d' = (r, d1)" by fastforce
    note d1 = ConsumeMessageResponse_ok [OF that c]
    have "ok (snd (BeginSymmetricSession C (ev_now E) p d2))" if "ok d2" "r = Some p" for d2 p
      by (rule BeginSymmetricSession_ok [OF that(1) d1(2) [OF that(2)]])
    then show ?thesis
      using Some c d1 by (auto simp: handle_response_def Let_def case_prod_unfold intro!: SendKeepalive_ok split: option.split)
  qed
  have "ok (d\<lparr>nd_handshakeQueue := q\<rparr>)" for q using assms by simp
  then show ?thesis
    unfolding RoutineHandshake_def Let_def
    by (auto simp: assms case_prod_unfold intro!: init resp admit_handshake_ok split: list.split)
qed

lemma key_confirmed_ok: "ok d \<Longrightarrow> p < n \<Longrightarrow> ok (key_confirmed C E k ep p d)"
  using ReceivedWithKeypair_ok [of d p k]
  by (auto simp: key_confirmed_def case_prod_unfold intro!: SendStagedPackets_ok)

lemma receive_packet_ok: "ok (snd rd) \<Longrightarrow> p < n \<Longrightarrow> ok (snd (receive_packet C E p e rd))"
  by (cases rd) (auto simp: receive_packet_def Let_def case_prod_unfold intro!: key_confirmed_ok split: option.split prod.split)

lemma RoutineSequentialReceiver_ok:
  assumes "ok d" "p < n"
  shows "ok (RoutineSequentialReceiver C E p d)"
proof -
  have take: "ok (on_peer (np_inbound_update (\<lambda>_. q)) p d)" for q
    using assms ok_core [OF on_peer_core, of "np_inbound_update (\<lambda>_. q)" p d] by (simp add: peer_core_def)
  have "ok (snd (fold (receive_packet C E p) c rd))" if "ok (snd rd)" for c rd
    using that by (induction c arbitrary: rd) (simp_all add: receive_packet_ok [OF _ assms(2)])
  then show ?thesis
    unfolding RoutineSequentialReceiver_def Let_def
    by (auto simp: case_prod_unfold take assms intro!: keepKeyFreshReceiving_ok split: list.split option.split)
qed

section \<open>The steps of the device\<close>

lemma on_peer_compose: "on_peer f p (on_peer g p d) = on_peer (\<lambda>np. f (g np)) p d"
  by (simp add: on_peer_def set_peer_def)

lemma clear_outbound_ok: "ok d \<Longrightarrow> p < n \<Longrightarrow> ok (on_peer (\<lambda>np. np\<lparr>np_outbound := []\<rparr>) p d)"
  using outbound_ok [of d p "length (np_outbound (nd_peers d p))"] by (simp add: on_peer_def)

lemma Start_ok:
  assumes "ok d" "p < n"
  shows "ok (Start E' p d)"
proof -
  let ?h = "(hs d p)\<lparr>hs_lastSentHandshake := ev_now E' - (RekeyTimeout + second)\<rparr>"
  let ?d1 = "timersStart p (set_hs p ?h d)"
  have d1: "ok ?d1" using assms by (subst timers_core [THEN ok_core], subst ok_core [OF set_hs_core]) simp_all
  then have "ok (on_peer (np_inbound_update (\<lambda>_. [])) p ?d1)" by (subst ok_core [OF on_peer_core]) (simp_all add: peer_core_def)
  from running_ok [OF clear_outbound_ok [OF this assms(2)] assms(2), of True]
  show ?thesis using assms by (simp add: Start_def Let_def on_peer_compose)
qed

lemma drain_inbound_ok: "ok d \<Longrightarrow> p < n \<Longrightarrow> ok (drain_inbound C E m p d)"
  by (induction m arbitrary: d) (auto intro: RoutineSequentialReceiver_ok)

lemma Stop_ok:
  assumes "ok d" "p < n"
  shows "ok (Stop C E p d)"
proof -
  let ?d1 = "on_peer (np_isRunning_update (\<lambda>_. False)) p d"
  have "ok ?d1" by (rule running_ok [OF assms])
  then have "ok (drain_inbound C E m p (timersStop p ?d1))" for m using assms(2) by (intro drain_inbound_ok) simp_all
  then show ?thesis using assms by (auto simp: Stop_def Let_def intro!: ZeroAndFlushAll_ok clear_outbound_ok)
qed

lemma removePeerLocked_ok:
  assumes "ok d" "p < n"
  shows "ok (removePeerLocked C E p key d)"
proof -
  let ?d1 = "Stop C E p (d\<lparr>nd_allowedips := AllowedIPs_RemoveByPeer p (nd_allowedips d)\<rparr>)"
  have d1: "ok ?d1" using assms by (intro Stop_ok) simp_all
  show ?thesis
    unfolding removePeerLocked_def Let_def
    by (rule keyMap_ok [OF d1])
       (use noise_baseD(3) [OF ok_inv [OF d1]] in \<open>auto simp: distinct_delete dest: in_set_deleteD\<close>)
qed

lemma keyMap_exists: "ok d \<Longrightarrow> (key, p) \<in> set (nd_keyMap d) \<Longrightarrow> p < n"
  using ok_inv [of d] ok_next [of d] by (auto simp: peer_ok_def dest!: noise_baseD(4))

lemma on_peers_ok:
  "ok d \<Longrightarrow> (\<And>p d. ok d \<Longrightarrow> p < n \<Longrightarrow> ok (f p d)) \<Longrightarrow> ok (on_peers f d)"
  unfolding on_peers_def by (rule fold_ok) (auto dest: keyMap_exists)

lemma dev_RemovePeer_ok: "ok d \<Longrightarrow> ok (dev_RemovePeer C E key d)"
  by (auto simp: dev_RemovePeer_def intro!: removePeerLocked_ok dest: keyMap_exists map_of_SomeD split: option.split)

lemma RemoveAllPeers_ok: "ok d \<Longrightarrow> ok (RemoveAllPeers C E d)"
  unfolding RemoveAllPeers_def by (intro keyMap_ok fold_ok) (auto intro!: removePeerLocked_ok dest: keyMap_exists)

lemma downLocked_ok: "ok d \<Longrightarrow> ok (snd (downLocked C E B d))"
  by (auto simp: downLocked_def intro!: on_peers_ok Stop_ok)

lemma upLocked_ok: "ok d \<Longrightarrow> ok (snd (upLocked C E B d))"
  by (auto simp: upLocked_def BindUpdate_def Let_def intro!: on_peers_ok SendKeepalive_ok Start_ok)

lemma changeState_ok:
  assumes "ok d"
  shows "ok (snd (changeState C E B B' want d))"
  using upLocked_ok [of "d\<lparr>nd_state := deviceStateUp\<rparr>" B] assms
  by (auto simp: changeState_def case_prod_unfold intro!: downLocked_ok split: deviceState.split)

lemma dev_Close_ok: "ok d \<Longrightarrow> ok (dev_Close C E B d)"
  unfolding dev_Close_def by (auto intro!: RemoveAllPeers_ok downLocked_ok)

lemma keepalives_ok: "ok d \<Longrightarrow> ok (SendKeepalivesToPeersWithCurrentKeypair C E d)"
  by (auto simp: SendKeepalivesToPeersWithCurrentKeypair_def intro!: on_peers_ok SendKeepalive_ok split: option.split)

lemma SetPrivateKey_ok:
  assumes "ok d"
  shows "ok (SetPrivateKey C E sk d)"
proof -
  let ?pk = "key_publicKey C sk"
  let ?d1 = "fold (\<lambda>(key, p) d. if hs_remoteStatic (hs d p) = ?pk then removePeerLocked C E p key d else d) (nd_keyMap d) d"
  let ?d2 = "?d1\<lparr>nd_privateKey := sk, nd_publicKey := ?pk, nd_cookieChecker := CookieChecker_Init C ?pk (nd_cookieChecker ?d1)\<rparr>"
  have d1: "ok ?d1" by (rule fold_ok) (use assms in \<open>auto intro!: removePeerLocked_ok dest: keyMap_exists\<close>)
  from rekey_ok [OF this] have "ok (on_peers (precompute C) ?d2)" .
  then show ?thesis using assms by (auto simp: SetPrivateKey_def Let_def intro!: on_peers_ok ExpireCurrentKeypairs_ok)
qed

end

end
