(* ===== verification/Wg_Steps.thy ===== *)
theory Wg_Steps
  imports Wg_Compose
begin

text \<open>
  The device as a system of events: reads of the interface and the socket, the routines of the peers and the
  workers, timers, configuration, and the calls of the agent. The creation of a handshake message, the commit of a checked one, the derivation of a session and
  the two halves of \<^verbatim>\<open>ZeroAndFlushAll\<close> are events of their own too, because other routines may come between
  them and what precedes them; a commit may come with any earlier check, so that any one is allowed.
\<close>

section \<open>Events\<close>

datatype wg_event =
    ReadTUN "bytes list"
  | Inject bytes
  | ReceiveDatagrams "(bytes \<times> endpoint) list"
  | HandshakeWorker
  | ReceiverStep peer_at
  | SenderStep peer_at
  | FireTimer timer_name peer_at
  | SendTUN bytes peer_at
  | SendP2P bytes peer_at
  | SendWUSPMessage bytes int peer_at
  | SendFrames "bytes list" peer_at
  | KeepalivePeer peer_at
  | InitiateHandshake peer_at
  | AddPeer bytes
  | DropPeer bytes
  | DropAllPeers
  | StartPeer peer_at
  | StopPeer peer_at
  | ChangeState bind_env bind_env deviceState
  | CloseDevice bind_env
  | SetKey bytes
  | SetPresharedKey bytes peer_at
  | SetEndpoint endpoint bool peer_at
  | SetKeepalive u32 peer_at
  | AllowIP prefix peer_at
  | DisallowIP prefix peer_at
  | ExpireKeys peer_at
  | MTUUpdated int
  | KeepalivesToAll
  | HandleWUSP bool
  | HandleTUNControl bool
  | StartCoordination "peer_at \<Rightarrow> bool"
  | RoamingEnabled peer_at
  | UpdateBind bind_env
  | SetMark bind_env u32
  | BreakRoaming
  | CreateInitiation peer_at
  | CreateResponse peer_at
  | CommitInitiation message_initiation "peer_at \<times> bytes \<times> bytes \<times> bytes"
  | CommitResponse message_response "peer_at \<times> bytes \<times> bytes"
  | BeginSession peer_at
  | ZeroKeypairs peer_at
  | ZeroHandshake peer_at

fun event_peer :: "wg_event \<Rightarrow> peer_at option" where
  "event_peer (ReceiverStep p) = Some p"
| "event_peer (SenderStep p) = Some p"
| "event_peer (FireTimer t p) = Some p"
| "event_peer (SendTUN data p) = Some p"
| "event_peer (SendP2P data p) = Some p"
| "event_peer (SendWUSPMessage data m p) = Some p"
| "event_peer (SendFrames frames p) = Some p"
| "event_peer (KeepalivePeer p) = Some p"
| "event_peer (InitiateHandshake p) = Some p"
| "event_peer (StartPeer p) = Some p"
| "event_peer (StopPeer p) = Some p"
| "event_peer (SetPresharedKey key p) = Some p"
| "event_peer (SetEndpoint ep b p) = Some p"
| "event_peer (SetKeepalive n p) = Some p"
| "event_peer (ExpireKeys p) = Some p"
| "event_peer (RoamingEnabled p) = Some p"
| "event_peer (CreateInitiation p) = Some p"
| "event_peer (CreateResponse p) = Some p"
| "event_peer (CommitInitiation m c) = Some (fst c)"
| "event_peer (CommitResponse m c) = Some (fst c)"
| "event_peer (BeginSession p) = Some p"
| "event_peer (ZeroKeypairs p) = Some p"
| "event_peer (ZeroHandshake p) = Some p"
| "event_peer _ = None"

fun wg_do :: "crypto \<Rightarrow> wg_env \<Rightarrow> wg_event \<Rightarrow> noise_device \<Rightarrow> noise_device" where
  "wg_do C E (ReadTUN packets) d = RoutineReadFromTUN C E packets d"
| "wg_do C E (Inject packet) d = snd (InjectOutbound C E packet d)"
| "wg_do C E (ReceiveDatagrams ms) d = RoutineReceiveIncoming E ms d"
| "wg_do C E HandshakeWorker d = RoutineHandshake C E d"
| "wg_do C E (ReceiverStep p) d = RoutineSequentialReceiver C E p d"
| "wg_do C E (SenderStep p) d = RoutineSequentialSender C E p d"
| "wg_do C E (FireTimer t p) d = fire_timer C E t p d"
| "wg_do C E (SendTUN data p) d = SendTUNControl C E data p d"
| "wg_do C E (SendP2P data p) d = SendP2PControl C E data p d"
| "wg_do C E (SendWUSPMessage data m p) d = snd (SendWUSPFragmented C E data m p d)"
| "wg_do C E (SendFrames frames p) d = snd (send_frames C E frames p d)"
| "wg_do C E (KeepalivePeer p) d = SendKeepalive C E p d"
| "wg_do C E (InitiateHandshake p) d = SendHandshakeInitiation C E False p d"
| "wg_do C E (AddPeer pk) d = snd (NewPeer C pk d)"
| "wg_do C E (DropPeer pk) d = dev_RemovePeer C E pk d"
| "wg_do C E DropAllPeers d = RemoveAllPeers C E d"
| "wg_do C E (StartPeer p) d = Start E p d"
| "wg_do C E (StopPeer p) d = Stop C E p d"
| "wg_do C E (ChangeState B B' want) d = snd (changeState C E B B' want d)"
| "wg_do C E (CloseDevice B) d = dev_Close C E B d"
| "wg_do C E (SetKey sk) d = SetPrivateKey C E sk d"
| "wg_do C E (SetPresharedKey key p) d = set_presharedKey key p d"
| "wg_do C E (SetEndpoint ep b p) d = on_peer (\<lambda>np. np\<lparr>np_endpoint := Some ep, np_disableRoaming := b\<rparr>) p d"
| "wg_do C E (SetKeepalive n p) d = on_peer (\<lambda>np. np\<lparr>np_persistentKeepaliveInterval := n\<rparr>) p d"
| "wg_do C E (AllowIP x p) d = d\<lparr>nd_allowedips := snd (AllowedIPs_Insert x p (nd_allowedips d))\<rparr>"
| "wg_do C E (DisallowIP x p) d = d\<lparr>nd_allowedips := snd (AllowedIPs_Remove x p (nd_allowedips d))\<rparr>"
| "wg_do C E (ExpireKeys p) d = ExpireCurrentKeypairs (ev_now E) p d"
| "wg_do C E (MTUUpdated mtu) d = mtu_updated mtu d"
| "wg_do C E KeepalivesToAll d = SendKeepalivesToPeersWithCurrentKeypair C E d"
| "wg_do C E (HandleWUSP b) d = SetWUSPHandler b d"
| "wg_do C E (HandleTUNControl b) d = SetTUNControlHandler b d"
| "wg_do C E (StartCoordination co) d = StartP2P co d"
| "wg_do C E (RoamingEnabled p) d = EnableRoaming p d"
| "wg_do C E (UpdateBind B) d = snd (BindUpdate B d)"
| "wg_do C E (SetMark B mark) d = snd (BindSetMark B mark d)"
| "wg_do C E BreakRoaming d = DisableSomeRoamingForBrokenMobileSemantics d"
| "wg_do C E (CreateInitiation p) d = snd (CreateMessageInitiation C (ev_random E) (ev_now E) (ev_draws E) p d)"
| "wg_do C E (CreateResponse p) d = snd (CreateMessageResponse C (ev_random E) (ev_draws E) p d)"
| "wg_do C E (CommitInitiation m c) d = initiation_commit m c (ev_now E) d"
| "wg_do C E (CommitResponse m c) d = snd (response_commit m c d)"
| "wg_do C E (BeginSession p) d = snd (BeginSymmetricSession C (ev_now E) p d)"
| "wg_do C E (ZeroKeypairs p) d = zero_keypairs p d"
| "wg_do C E (ZeroHandshake p) d = zero_handshake p d"

text \<open>
  An event concerns a peer that exists. What the random source returns during an event is part of its environment, failures
  included; a list of draws that ends before a free index came is taken like a failure.
\<close>

definition wg_step :: "crypto \<Rightarrow> noise_device \<Rightarrow> wg_env \<times> wg_event \<Rightarrow> noise_device" where
  "wg_step C d x =
     (case x of (E, e) \<Rightarrow>
        if list_all (\<lambda>p. p < nd_nextPeer d) (case event_peer e of None \<Rightarrow> [] | Some p \<Rightarrow> [p]) then wg_do C E e d else d)"

section \<open>The invariant of all steps\<close>

definition wg_inv :: "crypto \<Rightarrow> noise_device \<Rightarrow> bool" where
  "wg_inv C d \<longleftrightarrow> noise_base C d \<and> (\<forall>p \<ge> nd_nextPeer d. \<not> np_isRunning (nd_peers d p))"

context device_steps
begin

lemma configured_ok:
  "ok (set_presharedKey key p d) = ok d"
  "ok (on_peer (\<lambda>np. np\<lparr>np_endpoint := Some ep, np_disableRoaming := b\<rparr>) p d) = ok d"
  "ok (on_peer (\<lambda>np. np\<lparr>np_persistentKeepaliveInterval := m\<rparr>) p d) = ok d"
  "ok (mtu_updated mtu d) = ok d" "ok (SetWUSPHandler b d) = ok d" "ok (SetTUNControlHandler b d) = ok d" "ok (StartP2P co d) = ok d"
  unfolding set_presharedKey_def mtu_updated_def SetWUSPHandler_def SetTUNControlHandler_def StartP2P_def
  by (rule ok_core [OF set_hs_core] ok_core [OF on_peer_core], simp_all add: peer_core_def)+

lemma bind_ok:
  assumes "ok d"
  shows "ok (snd (BindUpdate B d))" "ok (snd (BindSetMark B mark d))" "ok (DisableSomeRoamingForBrokenMobileSemantics d)"
proof -
  show "ok (snd (BindUpdate B d))" "ok (snd (BindSetMark B mark d))"
    using assms by (auto simp: BindUpdate_def BindSetMark_def Let_def intro!: on_peers_ok)
  have "ok (on_peer (\<lambda>np. np\<lparr>np_disableRoaming := np_endpoint np \<noteq> None\<rparr>) p d) = ok d" for p d
    by (rule ok_core [OF on_peer_core]) (simp add: peer_core_def)
  then show "ok (DisableSomeRoamingForBrokenMobileSemantics d)"
    unfolding DisableSomeRoamingForBrokenMobileSemantics_def using assms by (intro on_peers_ok) simp_all
qed

lemma wg_do_ok:
  assumes "ok d" "\<And>p. event_peer e = Some p \<Longrightarrow> p < n" "\<And>pk. e \<noteq> AddPeer pk"
  shows "ok (wg_do C E e d)"
  using assms
  by (cases e)
     (auto intro: RoutineReadFromTUN_ok InjectOutbound_ok RoutineReceiveIncoming_ok RoutineHandshake_ok RoutineSequentialReceiver_ok
       RoutineSequentialSender_ok fire_timer_ok send_control_ok send_frames_ok SendKeepalive_ok SendHandshakeInitiation_ok
       dev_RemovePeer_ok RemoveAllPeers_ok Start_ok Stop_ok changeState_ok dev_Close_ok SetPrivateKey_ok ExpireCurrentKeypairs_ok
       keepalives_ok bind_ok CreateMessageInitiation_ok CreateMessageResponse_ok initiation_commit_ok response_commit_ok BeginSymmetricSession_ok zero_keypairs_ok zero_handshake_ok
       simp: configured_ok)

end

interpretation dev: device_steps C E n "dev_ok C E g T n" for C E g n T
proof (unfold_locales, goal_cases)
  case (1 d' d)
  then show ?case by (rule dev_ok_core [OF wg_coreD(1)])
qed (auto intro: dev_steps dev_ok_inv simp: outbound_dev)

lemma wg_inv_ok: "wg_inv C d = dev_ok C E False (\<lambda>p. hs_lastTimestamp (hs d p)) (nd_nextPeer d) d"
  by (auto simp: wg_inv_def dev_ok_def)

lemma NewPeer_peers:
  "nd_nextPeer d \<le> nd_nextPeer (snd (NewPeer C pk d))" "nd_nextPeer (snd (NewPeer C pk d)) \<le> nd_nextPeer d + 1"
  "p < nd_nextPeer d \<Longrightarrow> nd_peers (snd (NewPeer C pk d)) p = nd_peers d p"
  "np_isRunning (nd_peers (snd (NewPeer C pk d)) p) \<Longrightarrow> np_isRunning (nd_peers d p)"
  by (auto simp: NewPeer_def Let_def zero_peer_def split: if_splits)

text \<open>A step other than a new peer, in a device that has the invariant of the flag.\<close>

lemma wg_step_dev:
  assumes "dev_ok C E g T (nd_nextPeer d) d" "\<And>pk. e \<noteq> AddPeer pk"
  shows "dev_ok C E g T (nd_nextPeer d) (wg_step C d (E, e))"
  using assms dev.wg_do_ok [OF assms(1), of e] by (auto simp: wg_step_def split: option.splits)

lemma wg_step_keeps:
  assumes "wg_inv C d"
  shows "wg_inv C (wg_step C d x)" "nd_nextPeer d \<le> nd_nextPeer (wg_step C d x)" "nd_nextPeer (wg_step C d x) \<le> nd_nextPeer d + 1"
    "p < nd_nextPeer d \<Longrightarrow> hs_lastTimestamp (hs d p) \<le> hs_lastTimestamp (hs (wg_step C d x) p)"
proof -
  obtain E e where x: "x = (E, e)" by fastforce
  have "wg_inv C (wg_step C d x) \<and> nd_nextPeer d \<le> nd_nextPeer (wg_step C d x) \<and> nd_nextPeer (wg_step C d x) \<le> nd_nextPeer d + 1 \<and>
    (\<forall>p < nd_nextPeer d. hs_lastTimestamp (hs d p) \<le> hs_lastTimestamp (hs (wg_step C d x) p))"
  proof (cases "\<exists>pk. e = AddPeer pk")
    case True
    then obtain pk where "wg_step C d x = snd (NewPeer C pk d)" by (auto simp: x wg_step_def)
    then show ?thesis
      using assms NewPeer_base [of C d] NewPeer_peers [where d = d and C = C] unfolding wg_inv_def by auto (meson order_trans)
  next
    case False
    have "dev_ok C E False (\<lambda>p. hs_lastTimestamp (hs d p)) (nd_nextPeer d) (wg_step C d x)"
      unfolding x by (rule wg_step_dev) (use False assms wg_inv_ok in auto)
    then show ?thesis by (auto simp: dev_ok_def wg_inv_def)
  qed
  then show "wg_inv C (wg_step C d x)" "nd_nextPeer d \<le> nd_nextPeer (wg_step C d x)" "nd_nextPeer (wg_step C d x) \<le> nd_nextPeer d + 1"
    "p < nd_nextPeer d \<Longrightarrow> hs_lastTimestamp (hs d p) \<le> hs_lastTimestamp (hs (wg_step C d x) p)" by blast+
qed

lemma NewDevice_exact: "noise_inv C (NewDevice mtu)"
proof -
  have "\<not> owns H (NewDevice mtu) i e" for H i e by (cases e) (simp_all add: NewDevice_def zero_device_def)
  then show ?thesis by (simp add: noise_inv_def indexed_def) (simp add: NewDevice_def zero_device_def zero_peer_def)
qed

lemma NewDevice_inv: "wg_inv C (NewDevice mtu)"
  using noise_inv_base [OF NewDevice_exact, of C mtu] by (simp add: wg_inv_def) (simp add: NewDevice_def zero_device_def zero_peer_def)

interpretation wg: event_system "wg_step C" "NewDevice mtu" "wg_inv C" for C mtu
  by unfold_locales (simp_all add: NewDevice_inv wg_step_keeps)

section \<open>The table of indices\<close>

lemma wg_step_exact:
  assumes "wg_inv C d" "noise_inv C d" "enough_draws E d"
  shows "noise_inv C (wg_step C d (E, e))"
proof (cases "\<exists>pk. e = AddPeer pk")
  case True
  then show ?thesis using NewPeer_inv [OF assms(2)] assms(2) by (auto simp: wg_step_def)
next
  case False
  have "dev_ok C E True (\<lambda>p. hs_lastTimestamp (hs d p)) (nd_nextPeer d) (wg_step C d (E, e))"
    by (rule wg_step_dev) (use False assms in \<open>auto simp: dev_ok_def wg_inv_def\<close>)
  then show ?thesis by (simp add: dev_ok_def)
qed

lemma run_exact:
  assumes "wg_inv C d" "noise_inv C d"
    "\<forall>(E, e) \<in> set es. proper_draws (ev_draws E) \<and> 4 * (nd_nextPeer d + length es) < card (fst ` set (ev_draws E))"
  shows "noise_inv C (foldl (wg_step C) d es)"
  using assms
proof (induction es arbitrary: d)
  case (Cons x es)
  let ?d = "wg_step C d x"
  obtain E e where x: "x = (E, e)" by fastforce
  have "noise_inv C ?d" unfolding x by (rule wg_step_exact [OF Cons.prems(1,2)]) (use Cons.prems(3) in \<open>auto simp: x enough_draws_def\<close>)
  moreover have "\<forall>(E, e) \<in> set es. proper_draws (ev_draws E) \<and> 4 * (nd_nextPeer ?d + length es) < card (fst ` set (ev_draws E))"
    using Cons.prems(3) wg_step_keeps(3) [OF Cons.prems(1), of x] by force
  ultimately show ?case using Cons.IH wg_step_keeps(1) [OF Cons.prems(1)] by simp
qed simp

text \<open>
  C2. Whatever happens to a device since it was created, as long as the random source works and does not return 0, its
  table of indices is exactly the index of what its peers hold: an index leads to the handshake of a peer if and only if
  that handshake has it, and to a key pair if and only if the peer still holds that key pair under that index. No index is
  left behind by a key pair that was rotated out, none is shared, and no key pair that is held is unreachable. The
  hypothesis says it of every event: no draw fails or is 0, which is the index of a handshake that has none, and the
  draws take more different values than the table can have entries, four per event, so that each loop that draws an
  index ends. Draws may repeat.
\<close>
theorem index_table_sound:
  fixes C mtu es
  defines "d \<equiv> foldl (wg_step C) (NewDevice mtu) es"
  assumes "\<forall>(E, e) \<in> set es. (\<forall>(i, ok) \<in> set (ev_draws E). ok \<and> i \<noteq> 0) \<and> 4 * length es < card (fst ` set (ev_draws E))"
  shows "(map_of (nd_table d) i = Some (HandshakeEntry p) \<longleftrightarrow> i \<noteq> 0 \<and> p < nd_nextPeer d \<and> hs_localIndex (hs d p) = i) \<and>
    (map_of (nd_table d) i = Some (KeypairEntry p k) \<longleftrightarrow>
       i \<noteq> 0 \<and> p < nd_nextPeer d \<and> k \<in> held_keypairs (nd_peers d p) \<and> kp_localIndex (nd_keypairs d k) = i)"
proof -
  have "nd_nextPeer (NewDevice mtu) = 0" by (simp add: NewDevice_def zero_device_def)
  then have "noise_inv C d" unfolding d_def
    by (intro run_exact NewDevice_inv NewDevice_exact) (use assms(2) in \<open>auto simp: proper_draws_def\<close>)
  then have "indexed (held d) d" by (rule noise_invD(1))
  then show ?thesis by (simp add: indexed_def held_def)
qed

text \<open>A device with a peer that draws an index for its first initiation.\<close>

definition plain_crypto :: crypto where
  "plain_crypto = \<lparr>cr_Sum256 = (\<lambda>_. []), cr_Sum128 = (\<lambda>_ _. []), cr_ScalarBaseMult = (\<lambda>_. []), cr_ScalarMult = (\<lambda>_ _. [1]),
     cr_Seal = (\<lambda>k n d a. d), cr_Open = (\<lambda>k n d a. Some d), cr_SealX = (\<lambda>k n d a. d), cr_OpenX = (\<lambda>k n d a. Some d)\<rparr>"

definition ex_env :: wg_env where
  "ex_env = \<lparr>ev_now = 10000000000, ev_random = (replicate 32 0, True), ev_draws = map (\<lambda>i. (i, True)) [1, 2, 3, 4, 5, 6, 7, 8, 9],
     ev_jitter = 0, ev_secret = ([], True), ev_nonce = ([], True), ev_sent = (\<lambda>_ _. True)\<rparr>"

definition ex_drawing :: "(wg_env \<times> wg_event) list" where
  "ex_drawing = map (Pair ex_env) [AddPeer [7], CreateInitiation 0]"

lemma set_state [simp]: "nd_state (set_peer p np d) = nd_state d" "nd_state (set_hs p h d) = nd_state d" "nd_state (it_Delete i d) = nd_state d"
  by (simp_all add: set_peer_def set_hs_def it_Delete_def)

lemmas step_simps = wg_step_def ex_env_def plain_crypto_def isUp_def isClosed_def Let_def case_prod_unfold

lemma ex_drawn: "map_of (nd_table (foldl (wg_step plain_crypto) (NewDevice None) ex_drawing)) 1 = Some (HandshakeEntry 0)"
  by (simp add: ex_drawing_def step_simps NewDevice_def zero_device_def NewPeer_def MaxPeers_def sharedSecret_def CookieGenerator_Init_def
      zero_generator_def zeroed_handshake_def zero_peer_def new_timer_def set_hs_def set_peer_def CreateMessageInitiation_def
      newPrivateKey_def isZero_def it_Delete_def)

theorem index_table_sound_witness:
  "hs_localIndex (hs (foldl (wg_step plain_crypto) (NewDevice None) ex_drawing) 0) = 1 \<and>
   map_of (nd_table (foldl (wg_step plain_crypto) (NewDevice None) ex_drawing)) 1 = Some (HandshakeEntry 0)"
proof -
  have "\<forall>(E, e) \<in> set ex_drawing. (\<forall>(i, ok) \<in> set (ev_draws E). ok \<and> i \<noteq> 0) \<and> 4 * length ex_drawing < card (fst ` set (ev_draws E))"
    by (simp add: ex_drawing_def ex_env_def)
  from index_table_sound [OF this, of plain_crypto None 1 0] ex_drawn show ?thesis by blast
qed

section \<open>Replayed initiations\<close>

lemma timestamps_grow:
  assumes "wg_inv C d" "p < nd_nextPeer d"
  shows "hs_lastTimestamp (hs d p) \<le> hs_lastTimestamp (hs (foldl (wg_step C) d es) p)"
  using assms
proof (induction es arbitrary: d)
  case (Cons x es)
  have "p < nd_nextPeer (wg_step C d x)" using wg_step_keeps(2) [OF Cons(2), of x] Cons(3) by linarith
  from Cons.IH [OF wg_step_keeps(1) [OF Cons(2)] this] wg_step_keeps(4) [OF Cons(2,3), of x] show ?case by simp
qed simp

lemma initiation_check_newer: "initiation_check C m now d = Some (p, h, k, ts) \<Longrightarrow> After ts (hs_lastTimestamp (hs d p))"
  by (auto simp: initiation_check_def Let_def case_prod_unfold split: if_splits option.splits)

text \<open>
  C15. An initiation that a device has accepted from a peer protects it against replays for good: whatever happens
  afterwards, an initiation from that peer is accepted only when its timestamp is newer.
\<close>
theorem initiation_not_replayed:
  assumes "wg_inv C d" "initiation_check C m now d = Some (p, h, k, ts)" "d1 = initiation_commit m (p, h, k, ts) now d"
    "d2 = foldl (wg_step C) d1 es" "initiation_check C m' now' d2 = Some (p, h', k', ts')"
  shows "After ts' ts"
proof -
  have p: "p < nd_nextPeer d"
    using initiation_check_peer [OF assms(2)] assms(1)
    by (auto simp: LookupPeer_def wg_inv_def peer_ok_def dest!: map_of_SomeD noise_baseD(4))
  then have "wg_inv C d1"
    using assms(1,3) noise_base_step [OF _ base_rest(5), of C d m "(p, h, k, ts)" now]
    by (auto simp: wg_inv_def initiation_commit_def Let_def split: if_splits)
  moreover have "ts \<le> hs_lastTimestamp (hs d1 p)" by (auto simp: assms(3) initiation_commit_def Let_def After_def)
  moreover have "p < nd_nextPeer d1" using p by (simp add: assms(3))
  ultimately have "ts \<le> hs_lastTimestamp (hs d2 p)" using timestamps_grow [of C d1 p es] assms(4) by auto
  then show ?thesis using initiation_check_newer [OF assms(5)] by (simp add: After_def)
qed

lemma ex_side_wg_inv: "wg_inv ex_crypto (ex_side a b)"
  using noise_inv_base [OF ex_side_inv [of a b]]
  by (auto simp: wg_inv_def ex_side_def NewPeer_def zero_device_def isClosed_def MaxPeers_def Let_def zero_peer_def)

theorem initiation_not_replayed_witness:
  "\<exists>m I1 h k m' I2 h' k' d1.
     CreateMessageInitiation ex_crypto (ex_key 8, True) 5000000000 [(7, True)] 0 (ex_side 16 32) = (Inr m, I1) \<and>
     initiation_check ex_crypto m 6000000000 (ex_side 32 16) = Some (0, h, k, stamp 5000000000) \<and>
     d1 = initiation_commit m (0, h, k, stamp 5000000000) 6000000000 (ex_side 32 16) \<and>
     CreateMessageInitiation ex_crypto (ex_key 8, True) 7000000000 [(7, True)] 0 (ex_side 16 32) = (Inr m', I2) \<and>
     initiation_check ex_crypto m' 8000000000 d1 = Some (0, h', k', stamp 7000000000) \<and> After (stamp 7000000000) (stamp 5000000000)"
proof -
  let ?C = ex_crypto and ?I = "ex_side 16 32" and ?R = "ex_side 32 16"
  have made: "\<exists>m I1. CreateMessageInitiation ?C (ex_key 8, True) now [(7, True)] 0 ?I = (Inr m, I1)" for now
    using initiation_made [where C = ?C and d = ?I and p = 0 and sk = "ex_key 8" and i = 7 and now = now] by (auto simp: ex_side_simps ex_keys)
  obtain m I1 where m: "CreateMessageInitiation ?C (ex_key 8, True) 5000000000 [(7, True)] 0 ?I = (Inr m, I1)" using made by blast
  obtain m' I2 where m': "CreateMessageInitiation ?C (ex_key 8, True) 7000000000 [(7, True)] 0 ?I = (Inr m', I2)" using made by blast
  have pair: "paired ?C ?I 0 ?R 0" by (simp add: paired_def ex_side_simps)
  have fresh: "After (stamp 5000000000) (hs_lastTimestamp (hs ?R 0))"
    "HandshakeInitationRate < time_Sub 6000000000 (hs_lastInitiationConsumption (hs ?R 0))"
    by (simp_all only: ex_side_simps) (code_simp, code_simp)
  have c: "initiation_check ?C m 6000000000 ?R = Some (0, hs_hash (hs I1 0), hs_chainKey (hs I1 0), stamp 5000000000)"
    using initiation_accepted(2) [OF ex_crypto_ok pair m fresh, where ?mac1.0 = "mi_MAC1 m" and ?mac2.0 = "mi_MAC2 m"] by simp
  define d1 where "d1 = initiation_commit m (0, hs_hash (hs I1 0), hs_chainKey (hs I1 0), stamp 5000000000) 6000000000 ?R"
  have pair1: "paired ?C ?I 0 d1 0" 
    using ex_side_simps(11) [where a = 32 and b = 16, unfolded LookupPeer_def]
    by (simp add: paired_def d1_def initiation_commit_def Let_def ex_side_simps LookupPeer_def)
  have last: "hs_lastTimestamp (hs d1 0) = stamp 5000000000" "hs_lastInitiationConsumption (hs d1 0) = 6000000000"
    using fresh(1) by (simp_all add: d1_def initiation_commit_def Let_def ex_side_simps time_zero_def)
  have fresh1: "After (stamp 7000000000) (hs_lastTimestamp (hs d1 0))"
    "HandshakeInitationRate < time_Sub 8000000000 (hs_lastInitiationConsumption (hs d1 0))"
    by (simp_all only: last) (code_simp, code_simp)
  have c': "initiation_check ?C m' 8000000000 d1 = Some (0, hs_hash (hs I2 0), hs_chainKey (hs I2 0), stamp 7000000000)"
    using initiation_accepted(2) [OF ex_crypto_ok pair1 m' fresh1, where ?mac1.0 = "mi_MAC1 m'" and ?mac2.0 = "mi_MAC2 m'"] by simp
  have "After (stamp 7000000000) (stamp 5000000000)"
    by (rule initiation_not_replayed [OF ex_side_wg_inv c d1_def refl, where es = "[]"]) (use c' in simp)
  with m c d1_def m' c' show ?thesis by blast
qed

end
