(* ===== verification/Wg_Nonces.thy ===== *)
theory Wg_Nonces
  imports Wg_Steps
begin

text \<open>
  No key pair encrypts two packets under one nonce. A packet gets its key pair and its nonce when it enters the queue to
  the sender of its peer, and is encrypted when it leaves it; so the theory compares the packets in these queues, at
  one moment and at different moments.
\<close>

section \<open>The invariant\<close>

definition queued :: "noise_device \<Rightarrow> peer_at \<Rightarrow> outbound_packet list" where
  "queued d p = concat (np_outbound (nd_peers d p))"

definition used :: "outbound_packet \<Rightarrow> keypair_at \<times> u64" where
  "used e = (ob_keypair e, ob_nonce e)"

text \<open>
  The counters never fall below what they were, and every packet that was not in a queue then has a nonce from there on.
\<close>

definition nonce_ok :: "(keypair_at \<Rightarrow> u64) \<Rightarrow> (peer_at \<Rightarrow> outbound_packet list) \<Rightarrow> noise_device \<Rightarrow> bool" where
  "nonce_ok N Q d \<longleftrightarrow>
     (\<forall>k. N k \<le> kp_sendNonce (nd_keypairs d k) \<and> kp_sendNonce (nd_keypairs d k) \<le> RejectAfterMessages) \<and>
     (\<forall>k \<ge> nd_nextKeypair d. kp_sendNonce (nd_keypairs d k) = 0) \<and>
     (\<forall>p. \<forall>e \<in> set (queued d p). ob_nonce e < kp_sendNonce (nd_keypairs d (ob_keypair e)) \<and>
        (e \<in> set (Q p) \<or> N (ob_keypair e) \<le> ob_nonce e)) \<and>
     (\<forall>p. distinct (map used (queued d p))) \<and> (\<forall>p q. p \<noteq> q \<longrightarrow> used ` set (queued d p) \<inter> used ` set (queued d q) = {})"

lemma nonce_ok_core: "wg_core d' = wg_core d \<Longrightarrow> nonce_ok N Q d' = nonce_ok N Q d"
  using wg_coreD [of d' d] noise_coreD(3) [of d' d] by (simp add: nonce_ok_def queued_def)

text \<open>Steps that leave the counters alone and take packets from the queues only.\<close>

lemma nonce_ok_less:
  assumes "nonce_ok N Q d" "\<And>k. kp_sendNonce (nd_keypairs d' k) = kp_sendNonce (nd_keypairs d k)" "nd_nextKeypair d' = nd_nextKeypair d"
    "\<And>p. \<exists>i. np_outbound (nd_peers d' p) = drop i (np_outbound (nd_peers d p))"
  shows "nonce_ok N Q d'"
proof -
  have rest: "\<exists>xs. queued d p = xs @ queued d' p" for p
    using assms(4) [of p] by (metis append_take_drop_id concat_append queued_def)
  then have sub: "set (queued d' p) \<subseteq> set (queued d p)" for p by (metis Un_upper2 set_append)
  have "distinct (map used (queued d' p))" for p
    using rest [of p] assms(1) by (auto simp: nonce_ok_def) (metis distinct_append map_append)
  moreover have "used ` set (queued d' p) \<inter> used ` set (queued d' q) = {}" if "p \<noteq> q" for p q
  proof -
    have "used ` set (queued d p) \<inter> used ` set (queued d q) = {}" using assms(1) that by (simp add: nonce_ok_def)
    then show ?thesis using image_mono [OF sub [of p], of used] image_mono [OF sub [of q], of used] by blast
  qed
  moreover have "ob_nonce e < kp_sendNonce (nd_keypairs d (ob_keypair e)) \<and> (e \<in> set (Q p) \<or> N (ob_keypair e) \<le> ob_nonce e)"
    if "e \<in> set (queued d' p)" for p e
    using assms(1) sub [of p] that unfolding nonce_ok_def by blast
  ultimately show ?thesis using assms(1) by (simp add: nonce_ok_def assms(2,3))
qed

section \<open>New nonces\<close>

lemma take_nonces_fresh:
  assumes "n \<le> RejectAfterMessages" "take_nonces k n c = (kept, ooo, n')"
  shows "n \<le> n' \<and> n' \<le> RejectAfterMessages \<and> distinct (map used kept) \<and>
    (\<forall>e \<in> set kept. ob_keypair e = k \<and> n \<le> ob_nonce e \<and> ob_nonce e < n')"
  using assms
proof (induction k n c arbitrary: kept ooo n' rule: take_nonces.induct)
  case (2 k n ty pkt elems)
  show ?case
  proof (cases "RejectAfterMessages \<le> n")
    case True
    obtain ke oo m where r: "take_nonces k RejectAfterMessages elems = (ke, oo, m)" by (metis prod.collapse)
    have "n = RejectAfterMessages" using True 2(3) by simp
    then show ?thesis using 2(1) [OF refl _ _ r] 2(4) r True by simp
  next
    case False
    then have lt: "n < RejectAfterMessages" by simp
    obtain ke oo m where r: "take_nonces k (n + 1) elems = (ke, oo, m)" by (metis prod.collapse)
    have "n \<noteq> - 1" using lt by auto
    then have up: "n + 1 \<le> RejectAfterMessages" "n < n + 1"
      using lt inc_less_eq_self_iff_eq [of n] by (auto simp: inc_le not_le [symmetric])
    have ih: "n + 1 \<le> m \<and> m \<le> RejectAfterMessages \<and> distinct (map used ke) \<and>
      (\<forall>e \<in> set ke. ob_keypair e = k \<and> n + 1 \<le> ob_nonce e \<and> ob_nonce e < m)"
      using 2(2) [OF refl _ up(1) r] False by simp
    have res: "kept = \<lparr>ob_packet = pkt, ob_nonce = n, ob_keypair = k, ob_msgType = ty\<rparr> # ke" "n' = m"
      using 2(4) r False by auto
    have "n < m" "\<forall>e \<in> set ke. n < ob_nonce e" using ih up(2) by (auto intro: less_le_trans)
    moreover from this have "(k, n) \<notin> used ` set ke" by (auto simp: used_def)
    moreover have "used (hd kept) = (k, n)" by (simp add: res used_def)
    ultimately show ?thesis using ih by (auto simp: res less_imp_le)
  qed
qed auto

lemma nonce_ok_extend:
  assumes ok: "nonce_ok N Q d" and k: "k < nd_nextKeypair d"
    and fresh: "kp_sendNonce (nd_keypairs d k) \<le> n'" "n' \<le> RejectAfterMessages" "distinct (map used kept)"
      "\<And>e. e \<in> set kept \<Longrightarrow> ob_keypair e = k \<and> kp_sendNonce (nd_keypairs d k) \<le> ob_nonce e \<and> ob_nonce e < n'"
    and nonce: "\<And>j. kp_sendNonce (nd_keypairs d' j) = (if j = k then n' else kp_sendNonce (nd_keypairs d j))"
    and same: "nd_nextKeypair d' = nd_nextKeypair d"
    and q: "\<And>r. queued d' r = queued d r \<or> r = p \<and> queued d' r = queued d r @ kept"
  shows "nonce_ok N Q d'"
proof -
  have old: "ob_nonce e < kp_sendNonce (nd_keypairs d (ob_keypair e))" "e \<in> set (Q r) \<or> N (ob_keypair e) \<le> ob_nonce e"
    if "e \<in> set (queued d r)" for e r
    using ok that by (simp_all add: nonce_ok_def)
  have N: "N j \<le> kp_sendNonce (nd_keypairs d j)" "kp_sendNonce (nd_keypairs d j) \<le> RejectAfterMessages" for j
    using ok by (simp_all add: nonce_ok_def)
  have mono: "kp_sendNonce (nd_keypairs d j) \<le> kp_sendNonce (nd_keypairs d' j)" for j using fresh(1) by (simp add: nonce)
  have apart: "used ` set (queued d r) \<inter> used ` set kept = {}" for r
    using old(1) [of _ r] fresh(4) by (fastforce simp: used_def)
  have cases: "e \<in> set (queued d r) \<or> r = p \<and> e \<in> set kept" if "e \<in> set (queued d' r)" for e r using q [of r] that by auto
  have "N j \<le> kp_sendNonce (nd_keypairs d' j) \<and> kp_sendNonce (nd_keypairs d' j) \<le> RejectAfterMessages" for j
    using N [of j] mono [of j] fresh(2) by (auto simp: nonce)
  moreover have "kp_sendNonce (nd_keypairs d' j) = 0" if "nd_nextKeypair d' \<le> j" for j
    using ok k that by (auto simp: nonce same nonce_ok_def)
  moreover have "ob_nonce e < kp_sendNonce (nd_keypairs d' (ob_keypair e)) \<and> (e \<in> set (Q r) \<or> N (ob_keypair e) \<le> ob_nonce e)"
    if "e \<in> set (queued d' r)" for e r
    using cases [OF that] old [of e r] mono [of "ob_keypair e"] fresh(4) [of e] N(1) [of k] by (auto simp: nonce)
  moreover have "distinct (map used (queued d' r))" for r
    using q [of r] apart [of r] fresh(3) ok by (auto simp: nonce_ok_def)
  moreover have "used ` set (queued d' r) \<inter> used ` set (queued d' s) = {}" if "r \<noteq> s" for r s
  proof -
    have "used ` set (queued d r) \<inter> used ` set (queued d s) = {}" using ok that by (simp add: nonce_ok_def)
    then show ?thesis
      using q [of r] q [of s] apart [of r] apart [of s] that
      by (elim disjE conjE) (simp_all add: image_Un Int_Un_distrib Int_Un_distrib2 Int_commute)
  qed
  ultimately show ?thesis unfolding nonce_ok_def by blast
qed

lemma container_nonces:
  assumes "nonce_ok N Q d" "k < nd_nextKeypair d"
  shows "nonce_ok N Q (snd (snd (send_container k c p d)))"
proof -
  obtain kept ooo n' where t: "take_nonces k (kp_sendNonce (nd_keypairs d k)) c = (kept, ooo, n')" by (metis prod.collapse)
  have "kp_sendNonce (nd_keypairs d k) \<le> RejectAfterMessages" using assms(1) by (simp add: nonce_ok_def)
  note fresh = take_nonces_fresh [OF this t]
  show ?thesis
    by (rule nonce_ok_extend [OF assms, where n' = n' and kept = kept and p = p])
       (use fresh in \<open>auto simp: send_container_def t Let_def set_nonce_def put_outbound_def StagePackets_def put_staged_def
         set_staged_def on_peer_def queued_def\<close>)
qed

lemma exhaust_nonces:
  assumes "nonce_ok N Q d" "set_option x \<subseteq> {..< nd_nextKeypair d}"
  shows "nonce_ok N Q (exhaust x d)"
proof (cases x)
  case (Some k)
  show ?thesis
    by (rule nonce_ok_extend [where d = d and k = k and n' = RejectAfterMessages and kept = "[]"])
       (use assms Some in \<open>auto simp: exhaust_def queued_def nonce_ok_def\<close>)
qed (simp add: exhaust_def assms)

text \<open>A new key pair starts at 0, where no packet has been.\<close>

lemma BeginSymmetricSession_nonces:
  assumes "nonce_ok N Q d"
  shows "nonce_ok N Q (snd (BeginSymmetricSession C now p d))"
proof -
  let ?d' = "snd (BeginSymmetricSession C now p d)"
  have "kp_sendNonce (nd_keypairs d (nd_nextKeypair d)) = 0" using assms by (simp add: nonce_ok_def)
  then have "kp_sendNonce (nd_keypairs ?d' k) = kp_sendNonce (nd_keypairs d k)" for k
    by (simp add: BeginSymmetricSession_def Let_def case_prod_unfold)
  moreover have "queued ?d' r = queued d r" for r
    by (auto simp: BeginSymmetricSession_def rotate_keypairs_def Let_def case_prod_unfold queued_def split: option.split)
  moreover have "nd_nextKeypair d \<le> nd_nextKeypair ?d'"
    by (simp add: BeginSymmetricSession_def Let_def case_prod_unfold)
  ultimately show ?thesis using assms by (simp add: nonce_ok_def)
qed

section \<open>All steps\<close>

lemma nonce_ok_same:
  assumes "nonce_ok N Q d" "\<And>k. kp_sendNonce (nd_keypairs d' k) = kp_sendNonce (nd_keypairs d k)" "nd_nextKeypair d' = nd_nextKeypair d"
    "\<And>p. np_outbound (nd_peers d' p) = np_outbound (nd_peers d p)"
  shows "nonce_ok N Q d'"
  by (rule nonce_ok_less [OF assms(1-3)]) (auto simp: assms(4) intro: exI [of _ 0])

lemma precompute_nonces:
  "nonce_ok N Q d \<Longrightarrow> nonce_ok N Q (on_peers (precompute C) (d\<lparr>nd_privateKey := sk, nd_publicKey := pk, nd_cookieChecker := ck\<rparr>))"
  by (erule nonce_ok_same) (simp_all add: on_peers_def precompute_all)

lemma handshake_nonces:
  assumes "nonce_ok N Q d"
  shows "nonce_ok N Q (snd (CreateMessageInitiation C random now draws p d))" "nonce_ok N Q (snd (CreateMessageResponse C random draws p d))"
    "nonce_ok N Q (snd (ReceivedWithKeypair k p d))" "nonce_ok N Q (zero_keypairs p d)" "nonce_ok N Q (zero_handshake p d)"
    "nonce_ok N Q (initiation_commit m c now d)" "nonce_ok N Q (snd (response_commit m2 c2 d))"
    "nonce_ok N Q (on_peer (np_isRunning_update (\<lambda>_. b)) p d)" "nonce_ok N Q (d\<lparr>nd_keyMap := km\<rparr>)"
  by (rule nonce_ok_same [OF assms];
      auto simp: CreateMessageInitiation_def CreateMessageResponse_def ReceivedWithKeypair_def zero_keypairs_def zero_handshake_def
        initiation_commit_def response_commit_def on_peer_def new_index_device Let_def case_prod_unfold
        split: option.split)+

interpretation nonces: device_steps C E n "\<lambda>d. dev_ok C E False T n d \<and> nonce_ok N Q d" for C E n T N Q
proof (unfold_locales, goal_cases)
  case (1 d' d)
  then show ?case using dev_ok_core [OF wg_coreD(1)] nonce_ok_core by metis
next
  case (11 d p x)
  then have "set_option x \<subseteq> {..< nd_nextKeypair d}" using noise_baseD(2) [OF dev_ok_inv(1), of C E False T n d p] by (auto simp: dev_ok_def)
  then show ?case using 11 by (auto intro: exhaust_dev exhaust_nonces)
next
  case (14 d p k elems)
  then have "k < nd_nextKeypair d"
    using noise_baseD(2) [OF dev_ok_inv(1), of C E False T n d p k] slot_held(1) [of d p] by (auto simp: dev_ok_def)
  then show ?case using 14 by (auto intro: container_dev container_nonces)
next
  case (15 d p i)
  then show ?case
    by (auto simp: outbound_dev intro!: nonce_ok_less [of N Q d]) (auto simp: on_peer_def intro: exI [of _ i] exI [of _ 0])
qed (auto intro: dev_steps dev_ok_inv handshake_nonces precompute_nonces BeginSymmetricSession_nonces)

lemma step_nonces:
  assumes "wg_inv C d" "nonce_ok N Q d"
  shows "nonce_ok N Q (wg_step C d x)"
proof -
  obtain E e where x: "x = (E, e)" by fastforce
  show ?thesis
  proof (cases "\<exists>pk. e = AddPeer pk")
    case True
    have "\<exists>i. np_outbound (nd_peers (snd (NewPeer C pk d)) p) = drop i (np_outbound (nd_peers d p))" for p pk
      by (cases "p = nd_nextPeer d") (auto simp: NewPeer_def Let_def zero_peer_def intro: exI [of _ 0] exI [of _ "length (np_outbound (nd_peers d p))"])
    then have "nonce_ok N Q (snd (NewPeer C pk d))" for pk
      by (intro nonce_ok_less [OF assms(2)]) (auto simp: NewPeer_def Let_def)
    then show ?thesis using True assms(2) by (auto simp: x wg_step_def)
  next
    case False
    then show ?thesis
      using assms nonces.wg_do_ok [where C = C and E = E and n = "nd_nextPeer d" and T = "\<lambda>p. hs_lastTimestamp (hs d p)" and N = N and Q = Q
        and d = d and e = e]
      by (auto simp: x wg_step_def wg_inv_ok [where E = E] split: option.splits)
  qed
qed

lemma nonces_system:
  assumes "wg_inv C d" "nonce_ok N Q d"
  shows "event_system (wg_step C) d (\<lambda>d. wg_inv C d \<and> nonce_ok N Q d)"
  by unfold_locales (auto simp: assms wg_step_keeps step_nonces)

lemma NewDevice_nonces: "nonce_ok (\<lambda>_. 0) (\<lambda>_. []) (NewDevice mtu)"
  by (simp add: nonce_ok_def NewDevice_def zero_device_def zero_peer_def queued_def)

text \<open>
  C4. A nonce is used once: when a packet waits to be encrypted with a key pair and a nonce, then a packet that waits with
  the same key pair and the same nonce at any later moment, for any peer, is that packet, and it waits once. No nonce
  reaches \<^verbatim>\<open>RejectAfterMessages\<close>.
\<close>
theorem nonces_unique:
  fixes C mtu es fs
  defines "d \<equiv> foldl (wg_step C) (NewDevice mtu) es"
  defines "d' \<equiv> foldl (wg_step C) d fs"
  assumes "e \<in> set (queued d p)" "e' \<in> set (queued d' q)" "ob_keypair e' = ob_keypair e" "ob_nonce e' = ob_nonce e"
  shows "q = p \<and> e' = e \<and> distinct (map used (queued d p)) \<and> ob_nonce e < RejectAfterMessages"
proof -
  let ?N = "\<lambda>k. kp_sendNonce (nd_keypairs d k)"
  have d: "wg_inv C d" "nonce_ok (\<lambda>_. 0) (\<lambda>_. []) d"
    using event_system.foldl_inv [OF nonces_system [OF NewDevice_inv NewDevice_nonces], where s = "NewDevice mtu" and es = es]
    by (auto simp: d_def NewDevice_inv NewDevice_nonces)
  have facts: "ob_nonce e < ?N (ob_keypair e)" "?N (ob_keypair e) \<le> RejectAfterMessages" "distinct (map used (queued d p))"
    "p \<noteq> q \<Longrightarrow> used ` set (queued d p) \<inter> used ` set (queued d q) = {}"
    using d(2) assms(3) by (simp_all add: nonce_ok_def)
  have "nonce_ok ?N (queued d) d" using d(2) by (simp add: nonce_ok_def)
  with event_system.foldl_inv [OF nonces_system [OF d(1) this], where s = d and es = fs] d(1)
  have "nonce_ok ?N (queued d) d'" by (simp add: d'_def)
  then have "e' \<in> set (queued d q) \<or> ?N (ob_keypair e') \<le> ob_nonce e'" using assms(4) unfolding nonce_ok_def by blast
  then have e': "e' \<in> set (queued d q)" using assms(5,6) facts(1) by auto
  have same: "used e' = used e" using assms(5,6) by (simp add: used_def)
  have "q = p" using facts(4) e' assms(3) same by (metis disjoint_iff imageI)
  moreover from this have "e' = e" using facts(3) e' assms(3) same by (simp add: distinct_map inj_on_def)
  ultimately show ?thesis using facts by auto
qed

text \<open>A device that has a session and a keepalive waiting.\<close>

definition ex_bind :: bind_env where
  "ex_bind = \<lparr>be_closed = True, be_opened = True, be_port = 51820, be_listening = True, be_marked = True\<rparr>"

definition ex_answer :: message_response where
  "ex_answer = \<lparr>mr_Type = 2, mr_Sender = 8, mr_Receiver = 1, mr_Ephemeral = [], mr_Empty = [], mr_MAC1 = [], mr_MAC2 = []\<rparr>"

definition ex_trace :: "(wg_env \<times> wg_event) list" where
  "ex_trace = map (Pair ex_env) [AddPeer [7], ChangeState ex_bind ex_bind deviceStateUp, CreateInitiation 0,
     CommitResponse ex_answer (0, [], []), BeginSession 0, KeepalivePeer 0]"

definition ex_up :: noise_device where
  "ex_up = foldl (wg_step plain_crypto) (NewDevice None) (take 2 ex_trace)"

lemma ex_up:
  "nd_state ex_up = deviceStateUp" "nd_nextPeer ex_up = 1" "nd_table ex_up = []" "nd_nextKeypair ex_up = 0"
  "np_isRunning (nd_peers ex_up 0)" "np_staged (nd_peers ex_up 0) = []" "np_outbound (nd_peers ex_up 0) = []"
  "np_current (nd_peers ex_up 0) = None" "np_previous (nd_peers ex_up 0) = None" "np_next (nd_peers ex_up 0) = None"
  "hs_localIndex (hs ex_up 0) = 0" "hs_precomputedStaticStatic (hs ex_up 0) = [1]"
  unfolding ex_trace_def ex_up_def
  by (simp_all add: step_simps NewDevice_def zero_device_def NewPeer_def MaxPeers_def sharedSecret_def CookieGenerator_Init_def
      zero_generator_def zeroed_handshake_def zero_peer_def new_timer_def changeState_def upLocked_def BindUpdate_def ex_bind_def
      on_peers_def markEndpointSrcForClearing_def Start_def set_hs_def set_peer_def on_peer_def timersStart_def on_timers_def)

lemma ex_trace_queued:
  "queued (foldl (wg_step plain_crypto) (NewDevice None) ex_trace) 0 = [\<lparr>ob_packet = [], ob_nonce = 0, ob_keypair = 0, ob_msgType = 0\<rparr>]"
proof -
  have "queued (foldl (wg_step plain_crypto) ex_up (drop 2 ex_trace)) 0 = [\<lparr>ob_packet = [], ob_nonce = 0, ob_keypair = 0, ob_msgType = 0\<rparr>]"
    unfolding ex_trace_def
    by (simp add: step_simps ex_up CreateMessageInitiation_def newPrivateKey_def isZero_def sharedSecret_def response_commit_def
        BeginSymmetricSession_def rotate_keypairs_def SwapIndexForKeypair_def DeleteKeypair_def ex_answer_def
        SendKeepalive_def staged_full_def QueueStagedSize_def put_staged_def set_staged_def SendStagedPackets_def staged_readiness_def
        RejectAfterMessages_def RejectAfterTime_def time_Sub_def max_duration_def send_loop.simps send_container_def set_nonce_def
        put_outbound_def queued_def on_peer_def)
  then show ?thesis unfolding ex_up_def by (metis append_take_drop_id foldl_append)
qed

theorem nonces_unique_witness:
  "\<exists>e. queued (foldl (wg_step plain_crypto) (NewDevice None) ex_trace) 0 = [e] \<and> ob_nonce e < RejectAfterMessages"
  using nonces_unique [where C = plain_crypto and mtu = None and es = ex_trace and fs = "[]" and p = 0 and q = 0]
  by (simp add: ex_trace_queued)

end
