(* ===== verification/Wg_Tunnel.thy ===== *)
theory Wg_Tunnel
  imports Wg_Nonces
begin

text \<open>
  What a peer sends reaches the interface of the other: encryption, classification, decryption, the replay filter and
  the checks of the IP header together.
\<close>

section \<open>What the sending routines leave alone\<close>

definition grows :: "noise_device \<Rightarrow> noise_device \<Rightarrow> bool" where
  "grows d d' \<longleftrightarrow> nd_allowedips d' = nd_allowedips d \<and> nd_isCoordinator d' = nd_isCoordinator d \<and>
     nd_hasTUNControlHandler d' = nd_hasTUNControlHandler d \<and> (\<forall>k. kp_receive (nd_keypairs d' k) = kp_receive (nd_keypairs d k)) \<and>
     (\<exists>os. nd_outputs d' = nd_outputs d @ os \<and> (\<forall>b. OutTUN b \<notin> set os))"

lemma grows_refl [simp]: "grows d d"
  by (simp add: grows_def)

lemma grows_trans: "grows d d1 \<Longrightarrow> grows d1 d2 \<Longrightarrow> grows d d2"
  by (auto simp: grows_def)

lemma grows_on_peer [simp]:
  "grows d (on_peer f p d1) = grows d d1" "grows d (on_timers g p d1) = grows d d1" "grows d (set_hs p h d1) = grows d d1"
  "grows d (set_peer p np d1) = grows d d1" "grows d (set_filter k r d1) = grows d d1" "grows d (set_nonce k n d1) = grows d d1"
  "grows d (it_Delete i d1) = grows d d1" "grows d (DeleteKeypair x d1) = grows d d1"
  by (simp_all add: grows_def on_peer_def on_timers_def set_hs_def set_peer_def set_filter_def set_nonce_def it_Delete_def DeleteKeypair_def
      split: option.split) metis+

lemma grows_timers [simp]:
  "grows d (timersDataSent E p d1) = grows d d1" "grows d (timersDataReceived E p d1) = grows d d1"
  "grows d (timersAnyAuthenticatedPacketSent p d1) = grows d d1" "grows d (timersAnyAuthenticatedPacketReceived p d1) = grows d d1"
  "grows d (timersHandshakeInitiated E p d1) = grows d d1" "grows d (timersHandshakeComplete E p d1) = grows d d1"
  "grows d (timersAnyAuthenticatedPacketTraversal E p d1) = grows d d1" "grows d (SetEndpointFromPacket ep p d1) = grows d d1"
  "grows d (snd (add_macs C E m p d1)) = grows d d1" "grows d (add_rx n p d1) = grows d d1"
  by (simp_all add: timersDataSent_def timersDataReceived_def timersAnyAuthenticatedPacketSent_def
      timersAnyAuthenticatedPacketReceived_def timersHandshakeInitiated_def timersHandshakeComplete_def
      timersAnyAuthenticatedPacketTraversal_def SetEndpointFromPacket_def add_macs_def add_rx_def Let_def case_prod_unfold)

lemma grows_put_output:
  assumes "grows d d1" "\<forall>b. OutTUN b \<notin> set os"
  shows "grows d (put_output os d1)"
proof -
  obtain xs where "nd_outputs d1 = nd_outputs d @ xs" "\<forall>b. OutTUN b \<notin> set xs" using assms(1) by (auto simp: grows_def)
  then have "nd_outputs (put_output os d1) = nd_outputs d @ xs @ os \<and> (\<forall>b. OutTUN b \<notin> set (xs @ os))"
    using assms(2) by (simp add: put_output_def)
  then show ?thesis using assms(1) by (auto simp: grows_def put_output_def)
qed

lemma grows_SendBuffers: "grows d d1 \<Longrightarrow> grows d (snd (SendBuffers E bufs p d1))"
  by (auto simp: SendBuffers_def Let_def intro!: grows_put_output split: option.split)

lemma grows_CreateMessageInitiation: "grows d (snd (CreateMessageInitiation C random now draws p d1)) = grows d d1"
proof -
  have "grows d (snd (NewIndexForHandshake p draws d1)) = grows d d1" for d1
    by (simp add: new_index_device grows_def)
  then show ?thesis by (auto simp: CreateMessageInitiation_def Let_def case_prod_unfold split: option.split)
qed

lemma grows_SendHandshakeInitiation: "grows d d1 \<Longrightarrow> grows d (SendHandshakeInitiation C E b p d1)"
proof -
  assume g: "grows d d1"
  have "grows d (snd (CreateMessageInitiation C (ev_random E) (ev_now E) (ev_draws E) p (set_hs p h (if b then d1 else on_timers f p d1))))" for h f
    using g by (simp add: grows_CreateMessageInitiation)
  then show ?thesis
    using g by (auto simp: SendHandshakeInitiation_def Let_def case_prod_unfold intro!: grows_SendBuffers split: sum.split)
qed

lemma grows_send_container: "grows d d1 \<Longrightarrow> grows d (snd (snd (send_container k c p d1)))"
  by (simp add: send_container_def Let_def case_prod_unfold put_outbound_def StagePackets_def put_staged_def set_staged_def)

lemma grows_send_loop: "grows d d1 \<Longrightarrow> grows d (send_loop C E k p d1)"
proof (induction C E k p d1 rule: send_loop.induct)
  case (1 C E k p d1)
  show ?case
  proof (cases "np_current (nd_peers d1 p) \<noteq> Some k \<or> staged_of d1 p = []")
    case True
    then show ?thesis using 1(3) by (subst send_loop.simps) (auto split: list.split)
  next
    case False
    then obtain c cs where st: "staged_of d1 p = c # cs" by (cases "staged_of d1 p") auto
    obtain kept ooo d2 where sc: "send_container k c p d1 = (kept, ooo, d2)" by (metis prod.collapse)
    have d2: "grows d d2" using grows_send_container [OF 1(3), of k c p] sc by simp
    show ?thesis
      using False st sc d2 1 grows_SendHandshakeInitiation [OF d2]
      by (subst send_loop.simps) (auto split: readiness.split)
  qed
qed

lemma grows_SendStagedPackets: "grows d d1 \<Longrightarrow> grows d (SendStagedPackets C E p d1)"
  by (auto simp: SendStagedPackets_def intro: grows_SendHandshakeInitiation grows_send_loop split: readiness.split)

lemma grows_keepKeyFresh:
  "grows d d1 \<Longrightarrow> grows d (keepKeyFreshSending C E p d1)" "grows d d1 \<Longrightarrow> grows d (keepKeyFreshReceiving C E p d1)"
  by (auto simp: keepKeyFreshSending_def keepKeyFreshReceiving_def Let_def intro!: grows_SendHandshakeInitiation split: option.split)

lemma grows_key_confirmed: "grows d d1 \<Longrightarrow> grows d (key_confirmed C E k ep p d1)"
  by (auto simp: key_confirmed_def ReceivedWithKeypair_def Let_def intro!: grows_SendStagedPackets)

section \<open>A packet on the wire\<close>

definition wire_type :: "outbound_packet \<Rightarrow> u32" where
  "wire_type e = (if ob_msgType e \<noteq> 0 then ob_msgType e else MessageTransportType)"

definition padding :: "int \<Rightarrow> bytes \<Rightarrow> bytes" where
  "padding mtu packet = replicate (nat (calculatePaddingSize (int (length packet)) mtu)) 0"

lemma encrypted_parts:
  assumes "crypto_ok C" and b: "b = encrypt_packet C mtu kp e"
  shows "take 4 b = put_le 4 (wire_type e)" "slice 4 8 b = put_le 4 (kp_remoteIndex kp)" "slice 8 16 b = put_le 8 (ob_nonce e)"
    "drop 16 b = cr_Seal C (kp_send kp) (transport_nonce (ob_nonce e)) (ob_packet e @ padding mtu (ob_packet e)) []"
    "MessageKeepaliveSize \<le> length b"
  using assms(1)
  by (simp_all add: b encrypt_packet_def wire_type_def padding_def Let_def slice_def crypto_okD MessageKeepaliveSize_def MessageTransportSize_def)

lemma decrypt_encrypt:
  assumes "crypto_ok C" "kp_receive kp' = kp_send kp"
  shows "decrypt_packet C kp' (encrypt_packet C mtu kp e) = (ob_nonce e, Some (ob_packet e @ padding mtu (ob_packet e)))"
  using encrypted_parts [OF assms(1) refl, of mtu kp e]
  by (simp add: decrypt_packet_def Let_def codec_rt crypto_okD [OF assms(1)] assms(2))

text \<open>The receiver of a datagram knows its key pair, has not outlived it, and is running.\<close>

definition expects :: "wg_env \<Rightarrow> noise_device \<Rightarrow> peer_at \<Rightarrow> keypair_at \<Rightarrow> bool" where
  "expects E d q k \<longleftrightarrow> map_of (nd_table d) (kp_localIndex (nd_keypairs d k)) = Some (KeypairEntry q k) \<and>
     ev_now E \<le> kp_created (nd_keypairs d k) + RejectAfterTime \<and> np_isRunning (nd_peers d q) \<and> np_inbound (nd_peers d q) = []"

lemma datagram_queued:
  assumes "crypto_ok C" "expects E d q k" "kp_remoteIndex kp = kp_localIndex (nd_keypairs d k)" "is_transport (wire_type e)"
    and b: "b = encrypt_packet C mtu kp e"
  shows "RoutineReceiveIncoming E [(b, ep)] d =
    on_peer (np_inbound_update (\<lambda>q. q @ [[\<lparr>ib_packet = b, ib_keypair = k, ib_endpoint = ep, ib_msgType = wire_type e\<rparr>]])) q d"
proof -
  note parts = encrypted_parts [OF assms(1) b]
  have "classify E (b, ep) d = AsTransport q \<lparr>ib_packet = b, ib_keypair = k, ib_endpoint = ep, ib_msgType = wire_type e\<rparr>"
    using parts assms(2-4) by (simp add: classify_def Let_def codec_rt transport_peer_def expects_def)
  then show ?thesis
    using assms(2) by (simp add: RoutineReceiveIncoming_def receive_other_def group_by_def put_inbound_def expects_def List.map_filter_def)
qed

text \<open>What the receiver does with the one packet that waits.\<close>

definition delivered :: "crypto \<Rightarrow> wg_env \<Rightarrow> wg_env \<Rightarrow> (bytes \<times> endpoint) \<Rightarrow> peer_at \<Rightarrow> noise_device \<Rightarrow> noise_device" where
  "delivered C E E' m q d = RoutineSequentialReceiver C E' q (RoutineReceiveIncoming E [m] d)"

lemma packet_received:
  assumes "crypto_ok C" "expects E d q k" "kp_remoteIndex kp = kp_localIndex (nd_keypairs d k)" "is_transport (wire_type e)"
    "b = encrypt_packet C mtu kp e" "kp_receive (nd_keypairs d k) = kp_send kp"
    "fst (ValidateCounter (ob_nonce e) RejectAfterMessages (kp_replayFilter (nd_keypairs d k)))"
  defines "packet \<equiv> ob_packet e @ padding mtu (ob_packet e)"
  shows "\<exists>d2. grows d d2 \<and>
    (wire_type e = MessageTransportType \<longrightarrow> packet \<noteq> [] \<longrightarrow> (\<forall>buf. accept_ip_packet packet q d2 = Some buf \<longrightarrow>
       (\<exists>os. nd_outputs (delivered C E E' (b, ep) q d) = nd_outputs d2 @ os @ [OutTUN buf]))) \<and>
    (wire_type e = MessageTUNControlType \<longrightarrow> (\<exists>os. nd_outputs (delivered C E E' (b, ep) q d) = nd_outputs (deliver_tun_control packet q d2) @ os))"
proof -
  let ?e = "\<lparr>ib_packet = b, ib_keypair = k, ib_endpoint = ep, ib_msgType = wire_type e\<rparr>"
  let ?r = "\<lparr>rs_tail = None, rs_data = False, rs_bytes = 0, rs_bufs = []\<rparr>"
  define d1 where "d1 = on_peer (np_inbound_update (\<lambda>_. [])) q (RoutineReceiveIncoming E [(b, ep)] d)"
  have keys: "nd_keypairs d1 = nd_keypairs d" "grows d d1"
    unfolding d1_def datagram_queued [OF assms(1-5)] by (simp_all add: on_peer_def)
  define d2 where "d2 = key_confirmed C E' k ep q (set_filter k (snd (ValidateCounter (ob_nonce e) RejectAfterMessages (kp_replayFilter (nd_keypairs d k)))) d1)"
  have d2: "grows d d2" unfolding d2_def by (rule grows_key_confirmed) (simp add: keys)
  have dec: "decrypt_packet C (nd_keypairs d1 k) b = (ob_nonce e, Some packet)"
    using decrypt_encrypt [OF assms(1,6)] assms(5) by (simp add: keys packet_def)
  have inb: "np_inbound (nd_peers (RoutineReceiveIncoming E [(b, ep)] d) q) = [[?e]]"
    unfolding datagram_queued [OF assms(1-5)] using assms(2) by (simp add: on_peer_def expects_def)
  have tail: "\<exists>os. nd_outputs (put_output xs (if c then timersDataReceived E' q d4 else d4)) = nd_outputs a @ os @ xs"
    if "d4 = timersAnyAuthenticatedPacketReceived q (timersAnyAuthenticatedPacketTraversal E' q
      (keepKeyFreshReceiving C E' q (SetEndpointFromPacket ep q (add_rx n q a))))" for xs c d4 a n
  proof -
    have "grows a (if c then timersDataReceived E' q d4 else d4)" using that by (simp add: grows_keepKeyFresh)
    then show ?thesis by (auto simp: grows_def put_output_def)
  qed
  have out: "delivered C E E' (b, ep) q d =
    (let (r, d2) = receive_packet C E' q ?e (?r, d1); d3 = add_rx (rs_bytes r) q d2;
         d4 = (case rs_tail r of None \<Rightarrow> d3 | Some ep \<Rightarrow> timersAnyAuthenticatedPacketReceived q (timersAnyAuthenticatedPacketTraversal E' q
           (keepKeyFreshReceiving C E' q (SetEndpointFromPacket ep q d3)))) in
     put_output (map OutTUN (rs_bufs r)) (if rs_data r then timersDataReceived E' q d4 else d4))"
    by (simp add: delivered_def RoutineSequentialReceiver_def inb d1_def Let_def case_prod_unfold)
  show ?thesis
  proof (rule exI [of _ d2], intro conjI impI allI)
    show "grows d d2" by (rule d2)
  next
    fix buf assume "wire_type e = MessageTransportType" "packet \<noteq> []" "accept_ip_packet packet q d2 = Some buf"
    then have "receive_packet C E' q ?e (?r, d1) = (\<lparr>rs_tail = Some ep, rs_data = True,
      rs_bytes = of_nat (length packet + MessageKeepaliveSize), rs_bufs = [buf]\<rparr>, d2)"
      using assms(7) dec by (simp add: receive_packet_def Let_def keys case_prod_unfold d2_def)
    then show "\<exists>os. nd_outputs (delivered C E E' (b, ep) q d) = nd_outputs d2 @ os @ [OutTUN buf]"
      unfolding out by (simp add: Let_def) (rule tail [where c = True and xs = "[OutTUN buf]", simplified], rule refl)
  next
    assume "wire_type e = MessageTUNControlType"
    then have "receive_packet C E' q ?e (?r, d1) = (\<lparr>rs_tail = Some ep, rs_data = False,
      rs_bytes = of_nat (length packet + MessageKeepaliveSize), rs_bufs = []\<rparr>, deliver_tun_control packet q d2)"
      using assms(7) dec by (simp add: receive_packet_def Let_def keys case_prod_unfold d2_def)
    then show "\<exists>os. nd_outputs (delivered C E E' (b, ep) q d) = nd_outputs (deliver_tun_control packet q d2) @ os"
      unfolding out by (simp add: Let_def) (rule tail [where c = False and xs = "[]", simplified], rule refl)
  qed
qed

section \<open>Delivery\<close>

definition ip_source :: "bytes \<Rightarrow> bytes" where
  "ip_source packet = (if drop_bit 4 (hd packet) = 4 then slice 12 16 packet else slice 8 24 packet)"

text \<open>The length in the header is the length of the packet; that of IPv6 does not count the header and the sum stays below 64K.\<close>

definition whole_ip_packet :: "bytes \<Rightarrow> bool" where
  "whole_ip_packet packet \<longleftrightarrow>
     drop_bit 4 (hd packet) = 4 \<and> ipv4_HeaderLen \<le> length packet \<and> unat (get_be (slice 2 4 packet) :: u16) = length packet \<or>
     drop_bit 4 (hd packet) = 6 \<and> ipv6_HeaderLen \<le> length packet \<and> length packet < 2 ^ 16 \<and>
       unat (get_be (slice 4 6 packet) :: u16) + ipv6_HeaderLen = length packet"

lemma whole_accepted:
  assumes "whole_ip_packet packet" "found_peer (AllowedIPs_Lookup (ip_source packet) (nd_allowedips d)) = Some q"
  shows "accept_ip_packet (packet @ pad) q d = Some packet"
proof -
  have hd: "hd (packet @ pad) = hd packet" using assms(1) by (cases packet) (auto simp: whole_ip_packet_def ipv4_HeaderLen_def ipv6_HeaderLen_def)
  have sl: "j \<le> length packet \<Longrightarrow> slice i j (packet @ pad) = slice i j packet" for i j by (simp add: slice_def)
  show ?thesis
  proof (cases "drop_bit 4 (hd packet) = 4")
    case True
    then show ?thesis
      using assms hd by (auto simp: accept_ip_packet_def whole_ip_packet_def ip_source_def ipv4_HeaderLen_def Let_def sl)
  next
    case False
    then have v: "drop_bit 4 (hd packet) = 6" "40 \<le> length packet" "length packet < 2 ^ 16"
      "unat (get_be (slice 4 6 packet) :: u16) + 40 = length packet"
      using assms(1) by (auto simp: whole_ip_packet_def ipv6_HeaderLen_def)
    have "unat ((get_be (slice 4 6 packet) :: u16) + of_nat 40) = length packet"
      using v(3,4) by (simp add: unat_word_ariths)
    then show ?thesis
      using assms(2) v hd False by (simp add: accept_ip_packet_def ip_source_def ipv6_HeaderLen_def Let_def sl)
  qed
qed

text \<open>Two ends of a session; the peer of either end has the addresses 10.0.0.0/8.\<close>

definition ex_end :: "u32 \<Rightarrow> u32 \<Rightarrow> noise_device" where
  "ex_end i j = zero_device\<lparr>nd_table := [(i, KeypairEntry 0 0)], nd_hasTUNControlHandler := True,
     nd_peers := (\<lambda>_. zero_peer\<lparr>np_isRunning := True\<rparr>),
     nd_keypairs := (\<lambda>_. \<lparr>kp_sendNonce = 3, kp_send = [], kp_receive = [], kp_replayFilter = zero_filter, kp_isInitiator = True,
       kp_created = 10000000000, kp_localIndex = i, kp_remoteIndex = j\<rparr>),
     nd_allowedips := snd (table_step (nd_allowedips zero_device) (InsertPrefix ([10, 0, 0, 0], 8) 0))\<rparr>"

definition ex_ip :: bytes where "ex_ip = [69, 0, 0, 20, 0, 0, 0, 0, 64, 17, 0, 0, 10, 0, 0, 2, 10, 0, 0, 1]"
definition ex_from :: endpoint where "ex_from = \<lparr>ep_DstToBytes = [], ep_DstIP = [1, 2, 3, 4], ep_udp = None\<rparr>"

lemma ex_ends:
  "sessions_match (ex_end 7 9) 0 0 (ex_end 9 7) 0 0" "expects ex_env (ex_end 9 7) 0 0" "nd_outputs (ex_end 9 7) = []"
  "fst (ValidateCounter 2 RejectAfterMessages (kp_replayFilter (nd_keypairs (ex_end 9 7) 0)))"
  by (code_simp, code_simp, code_simp, code_simp)

text \<open>
  C6. Two devices that share a session, as a completed handshake leaves them: an IP packet encrypted by one, whose source
  address the other allows for the peer, reaches the interface of the other byte for byte, without the padding, whenever the
  key is not too old and the replay filter takes the counter.
\<close>
theorem tunnel_delivers:
  assumes "crypto_ok C" "sessions_match I p k R q k'" "expects E R q k'" "ob_msgType e = 0"
    and "whole_ip_packet (ob_packet e)" "found_peer (AllowedIPs_Lookup (ip_source (ob_packet e)) (nd_allowedips R)) = Some q"
    and "fst (ValidateCounter (ob_nonce e) RejectAfterMessages (kp_replayFilter (nd_keypairs R k')))"
    and dg: "datagram = encrypt_packet C mtu (nd_keypairs I k) e"
  shows "\<exists>os. nd_outputs (RoutineSequentialReceiver C E' q (RoutineReceiveIncoming E [(datagram, ep)] R)) =
    nd_outputs R @ os @ [OutTUN (ob_packet e)]"
proof -
  have match: "kp_remoteIndex (nd_keypairs I k) = kp_localIndex (nd_keypairs R k')" "kp_receive (nd_keypairs R k') = kp_send (nd_keypairs I k)"
    using assms(2) by (simp_all add: sessions_match_def Let_def)
  have ty: "wire_type e = MessageTransportType" "is_transport (wire_type e)" using assms(4) by (simp_all add: wire_type_def is_transport_def)
  have ne: "ob_packet e \<noteq> []" using assms(5) by (auto simp: whole_ip_packet_def ipv4_HeaderLen_def ipv6_HeaderLen_def)
  obtain d2 where d2: "grows R d2" "\<And>buf. accept_ip_packet (ob_packet e @ padding mtu (ob_packet e)) q d2 = Some buf \<Longrightarrow>
      \<exists>os. nd_outputs (delivered C E E' (datagram, ep) q R) = nd_outputs d2 @ os @ [OutTUN buf]"
    using packet_received [OF assms(1,3) match(1) ty(2) dg match(2) assms(7), of E' ep] ty(1) ne by auto
  from d2(1) obtain os where os: "nd_outputs d2 = nd_outputs R @ os" "nd_allowedips d2 = nd_allowedips R" by (auto simp: grows_def)
  have "accept_ip_packet (ob_packet e @ padding mtu (ob_packet e)) q d2 = Some (ob_packet e)"
    using assms(5,6) by (intro whole_accepted) (simp_all add: os)
  then show ?thesis using d2(2) os(1) unfolding delivered_def by fastforce
qed

theorem tunnel_delivers_witness:
  "\<exists>os. nd_outputs (RoutineSequentialReceiver ex_crypto ex_env 0 (RoutineReceiveIncoming ex_env
      [(encrypt_packet ex_crypto 1420 (nd_keypairs (ex_end 7 9) 0) \<lparr>ob_packet = ex_ip, ob_nonce = 2, ob_keypair = 0, ob_msgType = 0\<rparr>, ex_from)]
      (ex_end 9 7))) = os @ [OutTUN ex_ip]"
proof -
  have ip: "whole_ip_packet ex_ip" "found_peer (AllowedIPs_Lookup (ip_source ex_ip) (nd_allowedips (ex_end 9 7))) = Some 0"
    by (code_simp, code_simp)
  show ?thesis
    using tunnel_delivers [OF ex_crypto_ok ex_ends(1,2), where e = "\<lparr>ob_packet = ex_ip, ob_nonce = 2, ob_keypair = 0, ob_msgType = 0\<rparr>"
        and mtu = 1420 and E' = ex_env and ep = ex_from, OF _ _ _ _ refl] ip ex_ends by simp
qed

text \<open>
  C39. A control payload framed for the tunnel and encrypted by one of the two devices reaches the control handler of the other as
  it was, whatever the encryption routine padded it with.
\<close>
theorem control_delivered:
  assumes "crypto_ok C" "sessions_match I p k R q k'" "expects E R q k'" "ob_msgType e = MessageTUNControlType"
    and "frameTUNControlPayload payload = Some (ob_packet e)" "nd_hasTUNControlHandler R" "0 \<le> mtu"
    and "fst (ValidateCounter (ob_nonce e) RejectAfterMessages (kp_replayFilter (nd_keypairs R k')))"
    and dg: "datagram = encrypt_packet C mtu (nd_keypairs I k) e"
  shows "\<exists>os os'. nd_outputs (RoutineSequentialReceiver C E' q (RoutineReceiveIncoming E [(datagram, ep)] R)) =
    nd_outputs R @ os @ [OutTUNControl q payload] @ os'"
proof -
  have match: "kp_remoteIndex (nd_keypairs I k) = kp_localIndex (nd_keypairs R k')" "kp_receive (nd_keypairs R k') = kp_send (nd_keypairs I k)"
    using assms(2) by (simp_all add: sessions_match_def Let_def)
  have ty: "wire_type e = MessageTUNControlType" "is_transport (wire_type e)"
    using assms(4) by (simp_all add: wire_type_def is_transport_def)
  obtain d2 os' where d2: "grows R d2" "nd_outputs (delivered C E E' (datagram, ep) q R) =
      nd_outputs (deliver_tun_control (ob_packet e @ padding mtu (ob_packet e)) q d2) @ os'"
    using packet_received [OF assms(1,3) match(1) ty(2) dg match(2) assms(8), of E' ep] ty(1) by auto
  from d2(1) obtain os where os: "nd_outputs d2 = nd_outputs R @ os" "nd_hasTUNControlHandler d2" using assms(6) by (auto simp: grows_def)
  have "consumeTUNControlPayload (ob_packet e @ padding mtu (ob_packet e)) = Some payload"
    unfolding padding_def by (rule tun_envelope.padded_payload [OF assms(5,7)])
  then show ?thesis using d2(2) os by (intro exI [of _ os] exI [of _ os']) (simp add: delivered_def deliver_tun_control_def put_output_def)
qed

theorem control_delivered_witness:
  "\<exists>framed os os'. frameTUNControlPayload [1, 2, 3] = Some framed \<and> nd_outputs (RoutineSequentialReceiver ex_crypto ex_env 0 (RoutineReceiveIncoming ex_env
      [(encrypt_packet ex_crypto 1420 (nd_keypairs (ex_end 7 9) 0)
         \<lparr>ob_packet = framed, ob_nonce = 2, ob_keypair = 0, ob_msgType = MessageTUNControlType\<rparr>, ex_from)]
      (ex_end 9 7))) = os @ [OutTUNControl 0 [1, 2, 3]] @ os'"
proof -
  obtain framed where f: "frameTUNControlPayload [1, 2, 3] = Some framed"
    by (simp add: frameTUNControlPayload_def frame_control_def maxControlPayload_def)
  have "nd_hasTUNControlHandler (ex_end 9 7)" by (simp add: ex_end_def)
  then show ?thesis
    using control_delivered [OF ex_crypto_ok ex_ends(1,2), where mtu = 1420 and E' = ex_env and ep = ex_from and payload = "[1, 2, 3]"
        and e = "\<lparr>ob_packet = framed, ob_nonce = 2, ob_keypair = 0, ob_msgType = MessageTUNControlType\<rparr>", OF _ _ _ _ _ refl] f ex_ends
    by (intro exI [of _ framed]) simp
qed

section \<open>Where the packets of the interface come from\<close>

text \<open>A packet cut from what a datagram of the container decrypts to, from an address of the peer.\<close>

definition comes_from :: "crypto \<Rightarrow> noise_device \<Rightarrow> peer_at \<Rightarrow> inbound_packet list \<Rightarrow> bytes \<Rightarrow> bool" where
  "comes_from C d p c buf \<longleftrightarrow>
     (\<exists>e \<in> set c. \<exists>packet n. snd (decrypt_packet C (nd_keypairs d (ib_keypair e)) (ib_packet e)) = Some packet \<and>
        found_peer (AllowedIPs_Lookup (ip_source packet) (nd_allowedips d)) = Some p \<and> buf = take n packet)"

lemma accepted_source:
  assumes "accept_ip_packet packet p d = Some buf"
  shows "\<exists>n. found_peer (AllowedIPs_Lookup (ip_source packet) (nd_allowedips d)) = Some p \<and> buf = take n packet"
  using assms by (auto simp: accept_ip_packet_def ip_source_def Let_def split: if_splits)

lemma grows_deliver:
  "grows d d1 \<Longrightarrow> grows d (deliver_p2p packet p d1)" "grows d d1 \<Longrightarrow> grows d (deliver_tun_control packet p d1)"
  "grows d d1 \<Longrightarrow> grows d (deliver_wusp E packet p d1)"
proof -
  assume g: "grows d d1"
  then have "grows d (d1\<lparr>nd_fragments := fs\<rparr>)" for fs by (simp add: grows_def)
  with g show "grows d (deliver_p2p packet p d1)" "grows d (deliver_tun_control packet p d1)" "grows d (deliver_wusp E packet p d1)"
    by (auto simp: deliver_p2p_def deliver_tun_control_def deliver_wusp_def Let_def case_prod_unfold intro!: grows_put_output
        split: option.split sum.split consume_result.split)
qed

lemma packet_source:
  assumes "grows d d1" "receive_packet C E p e (r, d1) = (r', d2)"
  shows "grows d d2 \<and> (\<forall>buf \<in> set (rs_bufs r'). buf \<in> set (rs_bufs r) \<or> comes_from C d p [e] buf)"
proof -
  have key: "decrypt_packet C (nd_keypairs d1 k) b = decrypt_packet C (nd_keypairs d k) b" for k b
    using assms(1) by (simp add: grows_def decrypt_packet_def)
  have g: "grows d (key_confirmed C E k ep p (set_filter k f d1))" for k ep f using assms(1) by (simp add: grows_key_confirmed)
  have src: "comes_from C d p [e] buf"
    if "accept_ip_packet packet p (key_confirmed C E k ep p (set_filter k f d1)) = Some buf"
      "decrypt_packet C (nd_keypairs d (ib_keypair e)) (ib_packet e) = (c, Some packet)" for packet k ep f buf c
    using accepted_source [OF that(1)] that(2) g [of k ep f] by (auto simp: comes_from_def grows_def)
  show ?thesis
    using assms src
    by (auto simp: receive_packet_def Let_def key intro!: grows_deliver g split: prod.splits option.splits if_splits)
qed

lemma fold_source:
  assumes "grows d d1" "fold (receive_packet C E p) c (r, d1) = (r', d2)" "\<forall>buf \<in> set (rs_bufs r). comes_from C d p c0 buf"
  shows "grows d d2 \<and> (\<forall>buf \<in> set (rs_bufs r'). comes_from C d p (c0 @ c) buf)"
  using assms
proof (induction c arbitrary: c0 r d1)
  case (Cons e c)
  obtain r1 d3 where step: "receive_packet C E p e (r, d1) = (r1, d3)" by fastforce
  note one = packet_source [OF Cons.prems(1) step]
  have "\<forall>buf \<in> set (rs_bufs r1). comes_from C d p (c0 @ [e]) buf" using one Cons.prems(3) by (auto simp: comes_from_def)
  then show ?case using Cons.IH [of d3 r1 "c0 @ [e]"] one Cons.prems(2) step by simp
qed simp

text \<open>
  C5. Cryptokey routing: whatever the receiver of a peer writes to the interface was cut from a datagram of the container it took
  that decrypts under a key of that datagram, and its source address is one that the table of allowed addresses gives to this peer.
\<close>
theorem cryptokey_routing:
  assumes "np_inbound (nd_peers d p) = c # cs"
    and "OutTUN buf \<in> set (drop (length (nd_outputs d)) (nd_outputs (RoutineSequentialReceiver C E p d)))"
  shows "comes_from C d p c buf"
proof -
  let ?r = "\<lparr>rs_tail = None, rs_data = False, rs_bytes = 0, rs_bufs = []\<rparr>" and ?d1 = "on_peer (np_inbound_update (\<lambda>_. cs)) p d"
  obtain r d2 where f: "fold (receive_packet C E p) c (?r, ?d1) = (r, d2)" by fastforce
  have src: "grows d d2" "\<forall>b \<in> set (rs_bufs r). comes_from C d p c b" using fold_source [OF _ f, of d "[]"] by simp_all
  define d5 where "d5 = (let d3 = add_rx (rs_bytes r) p d2;
    d4 = (case rs_tail r of None \<Rightarrow> d3 | Some ep \<Rightarrow> timersAnyAuthenticatedPacketReceived p (timersAnyAuthenticatedPacketTraversal E p
           (keepKeyFreshReceiving C E p (SetEndpointFromPacket ep p d3)))) in if rs_data r then timersDataReceived E p d4 else d4)"
  have "grows d d5" using src(1) by (simp add: d5_def Let_def grows_keepKeyFresh split: option.split)
  then obtain os where "nd_outputs d5 = nd_outputs d @ os" "\<forall>b. OutTUN b \<notin> set os" by (auto simp: grows_def)
  moreover have "RoutineSequentialReceiver C E p d = put_output (map OutTUN (rs_bufs r)) d5"
    using assms(1) f by (simp add: RoutineSequentialReceiver_def d5_def Let_def)
  ultimately show ?thesis using assms(2) src(2) by (auto simp: put_output_def)
qed

definition ex_inbound :: inbound_packet where
  "ex_inbound = \<lparr>ib_packet = encrypt_packet ex_crypto 1420 (nd_keypairs (ex_end 7 9) 0)
     \<lparr>ob_packet = ex_ip, ob_nonce = 2, ob_keypair = 0, ob_msgType = 0\<rparr>, ib_keypair = 0, ib_endpoint = ex_from, ib_msgType = MessageTransportType\<rparr>"

theorem cryptokey_routing_witness:
  "comes_from ex_crypto (on_peer (np_inbound_update (\<lambda>_. [[ex_inbound]])) 0 (ex_end 9 7)) 0 [ex_inbound] ex_ip"
proof -
  let ?d = "on_peer (np_inbound_update (\<lambda>_. [[ex_inbound]])) 0 (ex_end 9 7)"
  have "nd_outputs ?d = []" by code_simp
  moreover have "nd_outputs (RoutineSequentialReceiver ex_crypto ex_env 0 ?d) = [OutTUN ex_ip]" by code_simp
  moreover have "np_inbound (nd_peers ?d 0) = [[ex_inbound]]" by (simp add: on_peer_def)
  ultimately show ?thesis using cryptokey_routing [where d = ?d and p = 0 and C = ex_crypto and E = ex_env and buf = ex_ip] by simp
qed

end
