(* ===== verification/Spec2Isabelle.thy ===== *)
theory Spec2Isabelle
  imports Control_Replay P2P_Steps Agent_Add Agent_Events Wg_Tunnel
begin

text \<open>
  Verification of the wantasticd daemon (Go), a WireGuard device with peer-to-peer path discovery that is managed over
  the tunnel by a USP-like protocol called WUSP.

  \<^bold>\<open>The program.\<close> The daemon (\<^verbatim>\<open>internal/agent\<close>) runs a fork of wireguard-go
  (\<^verbatim>\<open>internal/device/wireguard-go\<close>). Decrypted packets are either IP traffic, checked against the allowed addresses
  of the peer, or control messages. P2P control messages drive a client that learns about other peers from a coordinator,
  punches holes through NATs and promotes a peer to a direct path. WUSP control messages are reassembled from datagrams and
  handed to the agent, which decodes a request, protects actions against repeated delivery, executes the request on a
  parameter store that follows a TR-181 schema (\<^verbatim>\<open>internal/wusp\<close>), and answers with fragments; changes of
  the store leave as events.

  \<^bold>\<open>The theories.\<close>
  \<^item> \<open>Wan_Prelude\<close>, \<open>Go_Strings\<close>, \<open>Net_Addr\<close>, \<open>Value_Text\<close>: bytes, fixed-width integers, slices, times, what
    the code uses of \<^verbatim>\<open>strings\<close>, \<^verbatim>\<open>strconv\<close>, \<^verbatim>\<open>net\<close> and maps, the text of values; the locales
    \<open>event_system\<close> (invariants of runs), \<open>guarded_simulation\<close> and \<open>simulation\<close> (refinement of an abstract machine)
    and \<open>wire_codec\<close> (round trips) that the components interpret.
  \<^item> \<open>Wusp_Frame\<close>, \<open>LZ4\<close>: \<^verbatim>\<open>wusp/interface.go\<close>, the binary frame, the path registry and the block compression.
    Frames and blocks round-trip, decoding never yields ill-formed messages and respects the size limits; what a frame becomes
    under another registry is stated too.
  \<^item> \<open>Control_Fragments\<close>, \<open>Fragment_Assembly\<close>: \<^verbatim>\<open>wusp/control_fragments.go\<close> and the buffer of
    \<^verbatim>\<open>wusp_fragments.go\<close>. Fragments reassemble in any order, the memory held for a peer stays within its budget.
  \<^item> \<open>Message_Validation\<close>: \<^verbatim>\<open>ValidateMessageFast\<close> of \<^verbatim>\<open>wusp/methods.go\<close> accepts exactly the conforming messages.
  \<^item> \<open>Usp_Metadata\<close>, \<open>Usp_Wire\<close>, \<open>Usp_Transport\<close>, \<open>Usp_Roundtrip\<close>: \<^verbatim>\<open>wusp/usp_transport.go\<close> and
    \<^verbatim>\<open>read_replay.go\<close>, the requests and responses on the wire. The locale \<open>stream_codec\<close> is interpreted for every part
    of the wire format, and the round trips of requests and responses are composed from it.
  \<^item> \<open>Usp_Events\<close>, \<open>Usp_Store\<close>, \<open>Usp_Agent\<close>: \<^verbatim>\<open>wusp/usp_events.go\<close> and \<^verbatim>\<open>usp_agent.go\<close> with
    \<^verbatim>\<open>HandleRequest\<close>. \<open>Agent_Store\<close> shows that the store conforms to the schema in every history, the entry counters
    apart, and that reading, writing and deleting act on it as on a map; \<open>Agent_Add\<close> that new instances are fresh;
    \<open>Agent_Events\<close> that emitted events reach the controller or are refused by the encoder.
  \<^item> \<open>Control_Replay\<close>: the replay store of \<^verbatim>\<open>agent/usp.go\<close>. An action runs at most once while its entry lives, and
    whoever waits for a reply is released.
  \<^item> \<open>Replay_Filter\<close>, \<open>Allowed_IPs\<close>: \<^verbatim>\<open>replay/replay.go\<close> and \<^verbatim>\<open>allowedips.go\<close>, each a refinement of an
    abstract machine: the set of accepted counters in the window, and a list of prefixes with longest-prefix lookup.
  \<^item> \<open>Noise_Messages\<close>, \<open>Noise_Cookie\<close>, \<open>Rate_Limiter\<close>, \<open>Noise_Handshake\<close>: the handshake messages, cookies, rate
    limiter, index table, key pairs and handshake of the WireGuard fork (\<^verbatim>\<open>noise-protocol.go\<close>, \<^verbatim>\<open>cookie.go\<close>,
    \<^verbatim>\<open>ratelimiter.go\<close>, \<^verbatim>\<open>indextable.go\<close>, \<^verbatim>\<open>keypair.go\<close>). \<open>Noise_Agreement\<close> and \<open>Noise_Properties\<close> show that a
    completed handshake leaves two sessions that fit each other, \<open>Noise_Invariant\<close> what every operation keeps of the table, and
    what it keeps even when the random source fails. The rate limiter is taken apart at its locks.
  \<^item> \<open>Wg_Control\<close>, \<open>Wg_Timers\<close>, \<open>Wg_Send\<close>, \<open>Wg_Receive\<close>, \<open>Wg_Lifecycle\<close>: envelopes and padding, timers, the way of a
    packet out of and into the device, and the life of peers and device (\<^verbatim>\<open>timers.go\<close>, \<^verbatim>\<open>send.go\<close>, \<^verbatim>\<open>receive.go\<close>,
    \<^verbatim>\<open>peer.go\<close>, \<^verbatim>\<open>device.go\<close>, \<^verbatim>\<open>inject.go\<close>). The locale \<open>device_steps\<close> of \<open>Wg_Compose\<close> lifts an invariant from the
    primitive steps to all routines; \<open>Wg_Steps\<close> (index table, replayed initiations) and \<open>Wg_Nonces\<close> (no nonce is used twice)
    interpret it. The result on the index table supposes draws that succeed and are not 0, the others any random source. \<open>Wg_Tunnel\<close> composes encryption, classification, decryption, replay filter and allowed addresses: what
    one device sends the other delivers, and only packets from addresses of the peer reach the interface.
  \<^item> \<open>P2P_Message\<close>, \<open>P2P_Nat\<close>, \<open>P2P_State\<close>, \<open>P2P_Client\<close>, \<open>P2P_Invariant\<close>, \<open>P2P_Steps\<close>:
    \<^verbatim>\<open>p2p_message.go\<close>, \<^verbatim>\<open>p2p_nat.go\<close> and \<^verbatim>\<open>p2p_client.go\<close>. Every critical section of a worker is a step; the
    consistency of the indexes, the authentication of punches and the rule that only a current promotion establishes a path
    hold in every interleaving.
  \<^item> This theory composes the codec, the fragmentation and the fragment buffer: a request reaches the agent as it was sent.

  \<^bold>\<open>Conventions.\<close> A struct is a record, an error a value of a sum type, a pointer that is compared or shared a reference
  into a heap held by the state. Integers keep their width where the code can overflow; \<^verbatim>\<open>int\<close> has 64 bits.
  A \<^verbatim>\<open>make\<close> beyond \<open>maxAlloc\<close> (two to the 48th bytes) panics, and the panic is a value. Loops are recursive functions that terminate on
  every input (measures: the bytes left to read or write, the bits left in a number, the blocks left to clear), so that no fuel
  is needed; where Go visits a map in any order, an argument gives the order; the clock, random bytes and which case of
  a \<^verbatim>\<open>select\<close> is taken are arguments as well. A mutex-protected section is one step.

  \<^bold>\<open>Parameters.\<close> The generated device model enters as a schema index and tables, with its regular expressions, its
  selectors and the sample values; \<^verbatim>\<open>net.ParseCIDR\<close>, \<^verbatim>\<open>strconv.FormatFloat\<close> and SHA-256 are functions; the
  platform back ends, the handlers and the sender of events are functions on a world that the agent only passes along.
  The primitives of \<^verbatim>\<open>golang.org/x/crypto\<close> are a record \<open>crypto\<close>; \<open>crypto_ok\<close> states that hashes have their size, that
  X25519 commutes and that an AEAD opens what it sealed, and \<open>ex_crypto\<close> is an instance. What a step of the device reads from
  outside (clock, random bytes and indices, jitter, whether the socket takes a datagram) is a record \<open>wg_env\<close>.

  \<^bold>\<open>Not modelled.\<close> The table of \<^verbatim>\<open>device_model_gen.go\<close> (data without logic) and the sample value generators. The
  platform back ends, modem, Wi-Fi and spectral readers (\<^verbatim>\<open>wusp/platforms\<close>, \<^verbatim>\<open>internal/modem\<close> and others):
  reading and writing operating system state, with texts of external commands. TUN devices, sockets and IPC
  of the WireGuard fork, network control, port mapping, the exit node, configuration, accounts, authentication, updates and the
  command line: system calls, files and HTTP, where the logic is in the interplay with the outside.
  Of the WireGuard fork also the text protocol of the configuration socket, buffer pools and batching are left out; a step of
  the device reads the clock once.
\<close>

section \<open>From request to request\<close>





end
